(* ===== verification/Prelude.thy ===== *)
theory Prelude
  imports Main "HOL-Library.Word"
begin

text \<open>
  Shared vocabulary of the development: the machine integer types of the code, return
  codes, the collections of facts that the component theories extend, and the generic
  lemmas on words, lists and finite searches that more than one component needs.
\<close>

section \<open>Types and fact collections\<close>

unbundle bit_operations_syntax

text \<open>
  \<open>uint8\<close>, \<open>uint16\<close>, \<open>uint32\<close> and \<open>int64\<close> of \<open>skytype.h\<close>. Return codes are \<open>int32\<close>
  values of the code that never take part in arithmetic; they are integers here.
\<close>

type_synonym uint8 = "8 word"
type_synonym uint32 = "32 word"
type_synonym uint64 = "64 word"
type_synonym rc = int

named_theorems range_simps "denotations and well-formedness of ranges"
named_theorems db_simps "effects of the database operations"
named_theorems code_defs "definitions unfolded to run the model on a concrete input"

section \<open>Words\<close>

lemma unat_plus_one:
  fixes w :: "'a::len word"
  assumes "w \<noteq> - 1"
  shows "unat (w + 1) = Suc (unat w)"
proof -
  have "w + 1 \<noteq> 0"
    using assms by (metis add.commute add_eq_0_iff)
  then show ?thesis
    by (simp add: add.commute unatSuc)
qed

lemma unat_minus_one_pos:
  fixes w :: "'a::len word"
  assumes "0 < unat w"
  shows "unat (w - 1) = unat w - 1"
proof -
  have "w \<noteq> 0" using assms by auto
  then show ?thesis by (simp add: unat_minus_one)
qed

lemma unat_less_neq_max:
  fixes v w :: "'a::len word"
  assumes "unat v < unat w"
  shows "v \<noteq> - 1"
proof
  assume "v = - 1"
  moreover have "w \<le> - 1" by simp
  ultimately show False using assms by (simp add: word_le_nat_alt)
qed

lemmas word_order_nat = word_le_nat_alt word_less_nat_alt

lemma unat32_less: "unat (w :: uint32) < 4294967296"
proof -
  have "unat w < 2 ^ LENGTH(32)" by (rule unsigned_less)
  then show ?thesis by simp
qed

lemma unat_of_nat32: "n < 4294967296 \<Longrightarrow> unat (of_nat n :: uint32) = n"
  by (simp add: unat_of_nat)

lemma nat_size: "b \<le> a \<Longrightarrow> nat (int a - int b + 1) = a - b + 1"
  by simp

lemma byte_bit_ge: "8 \<le> n \<Longrightarrow> \<not> bit (b :: uint8) n"
  by (auto dest: bit_imp_le_length)

text \<open>The shift \<open>w << 1\<close> of the loops that run through the bits of a word.\<close>

definition shl1 :: "uint32 \<Rightarrow> uint32" where
  "shl1 w = push_bit 1 w"

lemma bit_shl1: "n < 32 \<Longrightarrow> bit (shl1 w) n \<longleftrightarrow> 0 < n \<and> bit w (n - 1)"
  unfolding shl1_def bit_push_bit_iff by auto

lemma push_bit_shl1: "push_bit n (shl1 w) = push_bit (Suc n) w"
  by (simp add: shl1_def ac_simps)

section \<open>Lists\<close>

lemma sorted_wrt_append_iff:
  "sorted_wrt P (xs @ ys) \<longleftrightarrow>
     sorted_wrt P xs \<and> sorted_wrt P ys \<and> (\<forall>x \<in> set xs. \<forall>y \<in> set ys. P x y)"
  by (rule sorted_wrt_append)

lemma find_None_all: "find P xs = None \<longleftrightarrow> (\<forall>x \<in> set xs. \<not> P x)"
  by (auto simp: find_None_iff)

lemma find_SomeD: "find P xs = Some x \<Longrightarrow> x \<in> set xs \<and> P x"
  by (induction xs) (auto split: if_splits)

lemma in_set_remove1_iff_distinct:
  "distinct xs \<Longrightarrow> y \<in> set (remove1 x xs) \<longleftrightarrow> y \<in> set xs \<and> y \<noteq> x"
  by simp

end
