(* ===== verification/NetDb.thy ===== *)
theory NetDb
  imports Prelude
begin

text \<open>
  The database of the network manager, as far as the pools share it: the error codes
  (\<open>vnet_db_error.h\<close>), the tables that all of them read, and the call layer
  \<open>CVNetDbProcedurePostgresql\<close> (\<open>vnet_db_proc.cpp\<close>). Each pool extends the record \<open>net_db\<close> with its
  own tables, and the operations of this theory work on every extension.

  A call can fail outside the procedure. The field \<open>env\<close> holds the outcomes of the calls to come: a
  call runs, or it is refused before it runs, or it runs and its answer is lost. Each call takes the
  first outcome, and a call after the last one runs. A procedure that raises an exception leaves the
  tables alone. The field \<open>m_bInit\<close> is the flag of \<open>CVNetDbMgr\<close>: while it is false, the functions
  \<open>GetDbI...\<close> that hand out the operation classes return \<open>NULL\<close>.
\<close>

section \<open>Error codes\<close>

definition VNET_DB_SUCCESS :: rc where "VNET_DB_SUCCESS = 0"
definition VNET_DB_ERROR_EXECUTE_FAILED :: rc where "VNET_DB_ERROR_EXECUTE_FAILED = 3"
definition VNET_DB_ERROR_PARAM_INVALID :: rc where "VNET_DB_ERROR_PARAM_INVALID = 10"
definition VNET_DB_ERROR_ITEM_NO_EXIST :: rc where "VNET_DB_ERROR_ITEM_NO_EXIST = 12"

definition GET_DB_ERROR_PROC :: "int \<Rightarrow> rc" where "GET_DB_ERROR_PROC r = 100 + r"

definition RTN_OPERATOR_FAILED :: int where "RTN_OPERATOR_FAILED = 1"
definition RTN_HAS_SAME_ITEM :: int where "RTN_HAS_SAME_ITEM = 2"
definition RTN_ITEM_CONFLICT :: int where "RTN_ITEM_CONFLICT = 3"
definition RTN_ITEM_NO_EXIST :: int where "RTN_ITEM_NO_EXIST = 4"
definition RTN_RESOURCE_USING :: int where "RTN_RESOURCE_USING = 6"
definition RTN_PARAM_INVALID :: int where "RTN_PARAM_INVALID = 7"
definition RTN_PG_MUST_CFG_NETPLANE :: int where "RTN_PG_MUST_CFG_NETPLANE = 13"
definition RTN_MUST_CFG_VALID_RANGE :: int where "RTN_MUST_CFG_VALID_RANGE = 14"

lemmas rtn_defs [db_simps] =
  VNET_DB_SUCCESS_def VNET_DB_ERROR_EXECUTE_FAILED_def VNET_DB_ERROR_PARAM_INVALID_def
  VNET_DB_ERROR_ITEM_NO_EXIST_def GET_DB_ERROR_PROC_def RTN_OPERATOR_FAILED_def
  RTN_HAS_SAME_ITEM_def RTN_ITEM_CONFLICT_def RTN_ITEM_NO_EXIST_def RTN_RESOURCE_USING_def
  RTN_PARAM_INVALID_def RTN_PG_MUST_CFG_NETPLANE_def RTN_MUST_CFG_VALID_RANGE_def

definition VNET_DB_IS_ITEM_NO_EXIST :: "rc \<Rightarrow> bool" where
  "VNET_DB_IS_ITEM_NO_EXIST e \<longleftrightarrow>
     e = VNET_DB_ERROR_ITEM_NO_EXIST \<or> e = GET_DB_ERROR_PROC RTN_ITEM_NO_EXIST"

definition VNET_DB_IS_RESOURCE_USING :: "rc \<Rightarrow> bool" where
  "VNET_DB_IS_RESOURCE_USING e \<longleftrightarrow> e = GET_DB_ERROR_PROC RTN_RESOURCE_USING"

section \<open>Shared tables\<close>

record netplane_row =
  np_id :: int
  np_uuid :: string

record port_group_row =
  pg_id :: int
  pg_uuid :: string
  pg_type :: int
  pg_switchport_mode :: int
  pg_netplane_id :: "int option"

record vm_pg_row =
  vmpg_id :: int
  vmpg_is_sdn :: int
  vmpg_isolate_type :: int

datatype db_fault =
    NO_DB_HANDLE_RESOURCE
  | ALLOC_MEM_FAILED
  | EXECUTE_FAILED
  | GET_ADORS_FIELD_FAILED

fun fault_code :: "db_fault \<Rightarrow> rc" where
  "fault_code NO_DB_HANDLE_RESOURCE = 13"
| "fault_code ALLOC_MEM_FAILED = 4"
| "fault_code EXECUTE_FAILED = 3"
| "fault_code GET_ADORS_FIELD_FAILED = 9"

text \<open>There are four faults, so a statement about every fault can be computed.\<close>

instantiation db_fault :: enum
begin

definition enum_db_fault :: "db_fault list" where
  "enum_db_fault = [NO_DB_HANDLE_RESOURCE, ALLOC_MEM_FAILED, EXECUTE_FAILED, GET_ADORS_FIELD_FAILED]"

definition enum_all_db_fault :: "(db_fault \<Rightarrow> bool) \<Rightarrow> bool" where
  "enum_all_db_fault P \<longleftrightarrow> list_all P enum_class.enum"

definition enum_ex_db_fault :: "(db_fault \<Rightarrow> bool) \<Rightarrow> bool" where
  "enum_ex_db_fault P \<longleftrightarrow> list_ex P enum_class.enum"

instance
proof
  show "(UNIV :: db_fault set) = set enum_class.enum"
    by (auto simp: enum_db_fault_def intro: db_fault.exhaust)
  then show "enum_class.enum_all P \<longleftrightarrow> Ball (UNIV :: db_fault set) P"
    "enum_class.enum_ex P \<longleftrightarrow> Bex (UNIV :: db_fault set) P" for P
    by (simp_all add: enum_all_db_fault_def enum_ex_db_fault_def list_all_iff list_ex_iff)
qed (simp add: enum_db_fault_def)

end

datatype outcome = Run | Refused db_fault | ReplyLost db_fault

record net_db =
  m_bInit :: bool
  env :: "outcome list"
  netplane :: "netplane_row list"
  port_group :: "port_group_row list"
  vm_pg :: "vm_pg_row list"
  uplink_pg :: "vm_pg_row list"
  access_isolate :: "(int \<times> int) list"

text \<open>\<open>SELECT id INTO x FROM netplane WHERE uuid = in_uuid\<close>; \<open>None\<close> when there is no row.\<close>

definition np_lookup :: "string \<Rightarrow> 'z net_db_scheme \<Rightarrow> int option" where
  "np_lookup u d = map_option np_id (find (\<lambda>r. np_uuid r = u) (netplane d))"

definition is_vm_pg :: "int \<Rightarrow> 'z net_db_scheme \<Rightarrow> bool" where
  "is_vm_pg g d \<longleftrightarrow> list_ex (\<lambda>v. vmpg_id v = g) (vm_pg d)"

definition isolate_lookup :: "int \<Rightarrow> 'z net_db_scheme \<Rightarrow> int option" where
  "isolate_lookup g d = map_option snd (find (\<lambda>a. fst a = g) (access_isolate d))"

section \<open>The call layer\<close>

type_synonym ('a, 'd) procedure = "'d \<Rightarrow> ('a \<times> 'd) option"

definition take_outcome :: "'z net_db_scheme \<Rightarrow> outcome \<times> 'z net_db_scheme" where
  "take_outcome d = (case env d of [] \<Rightarrow> (Run, d) | x # xs \<Rightarrow> (x, d\<lparr>env := xs\<rparr>))"

definition Handle :: "('a, 'z net_db_scheme) procedure \<Rightarrow> 'z net_db_scheme \<Rightarrow> (rc + 'a) \<times> 'z net_db_scheme" where
  "Handle p d =
     (case take_outcome d of
        (Run, d1) \<Rightarrow> (case p d1 of None \<Rightarrow> (Inl VNET_DB_ERROR_EXECUTE_FAILED, d1)
                                | Some (a, d2) \<Rightarrow> (Inr a, d2))
      | (Refused f, d1) \<Rightarrow> (Inl (fault_code f), d1)
      | (ReplyLost f, d1) \<Rightarrow> (case p d1 of None \<Rightarrow> (Inl (fault_code f), d1)
                                        | Some (a, d2) \<Rightarrow> (Inl (fault_code f), d2)))"

text \<open>
  The three ways in which the operation classes turn the answer into a return code: a check or an
  addition takes \<open>HAS_SAME_ITEM\<close> for success, a deletion does not, and a query hands its rows over.
\<close>

definition db_add_op :: "(int, 'z net_db_scheme) procedure \<Rightarrow> 'z net_db_scheme \<Rightarrow> rc \<times> 'z net_db_scheme" where
  "db_add_op p d =
     (case Handle p d of
        (Inl e, d1) \<Rightarrow> (e, d1)
      | (Inr ret, d1) \<Rightarrow>
          if ret = RTN_HAS_SAME_ITEM then (VNET_DB_SUCCESS, d1)
          else if ret \<noteq> 0 then (GET_DB_ERROR_PROC ret, d1)
          else (VNET_DB_SUCCESS, d1))"

definition db_del_op :: "(int, 'z net_db_scheme) procedure \<Rightarrow> 'z net_db_scheme \<Rightarrow> rc \<times> 'z net_db_scheme" where
  "db_del_op p d =
     (case Handle p d of
        (Inl e, d1) \<Rightarrow> (e, d1)
      | (Inr ret, d1) \<Rightarrow> if ret \<noteq> 0 then (GET_DB_ERROR_PROC ret, d1) else (VNET_DB_SUCCESS, d1))"

definition db_query_op :: "('a list, 'z net_db_scheme) procedure \<Rightarrow> 'z net_db_scheme \<Rightarrow> rc \<times> 'a list \<times> 'z net_db_scheme" where
  "db_query_op p d =
     (case Handle p d of (Inl e, d1) \<Rightarrow> (e, [], d1) | (Inr rows, d1) \<Rightarrow> (VNET_DB_SUCCESS, rows, d1))"

section \<open>What a call can do\<close>

lemma fault_code_nonzero [simp]: "fault_code f \<noteq> 0"
  by (cases f) auto

lemma fault_code_other [simp]:
  "\<not> VNET_DB_IS_ITEM_NO_EXIST (fault_code f)" "\<not> VNET_DB_IS_RESOURCE_USING (fault_code f)"
  by (cases f; simp add: VNET_DB_IS_ITEM_NO_EXIST_def VNET_DB_IS_RESOURCE_USING_def rtn_defs)+

text \<open>Two databases that differ at most in the outcomes to come.\<close>

definition same_tables :: "'z net_db_scheme \<Rightarrow> 'z net_db_scheme \<Rightarrow> bool" where
  "same_tables d d' \<longleftrightarrow> d\<lparr>env := []\<rparr> = d'\<lparr>env := []\<rparr>"

lemma same_tables_refl [simp]: "same_tables d d"
  by (simp add: same_tables_def)

lemma same_tables_trans: "same_tables a b \<Longrightarrow> same_tables b c \<Longrightarrow> same_tables a c"
  by (simp add: same_tables_def)

lemma same_tables_sym: "same_tables a b \<Longrightarrow> same_tables b a"
  by (simp add: same_tables_def)

lemma same_tables_env [simp]: "same_tables (d\<lparr>env := e\<rparr>) d'  = same_tables d d'"
  by (simp add: same_tables_def)

lemma take_outcome_tables: "take_outcome d = (x, d1) \<Longrightarrow> same_tables d d1"
  by (auto simp: take_outcome_def same_tables_def split: list.splits)

text \<open>
  A call either did not run the procedure (then it fails), or ran it: with the answer, or with a
  failure code in its place.
\<close>

lemma Handle_cases:
  obtains (not_run) c d1 where "Handle p d = (Inl c, d1)" "same_tables d d1" "c \<noteq> 0"
      "\<not> VNET_DB_IS_ITEM_NO_EXIST c" "\<not> VNET_DB_IS_RESOURCE_USING c"
  | (answered) d1 a d2 where "same_tables d d1" "p d1 = Some (a, d2)" "Handle p d = (Inr a, d2)"
  | (lost) d1 a c d2 where "same_tables d d1" "p d1 = Some (a, d2)" "Handle p d = (Inl c, d2)"
      "c \<noteq> 0" "\<not> VNET_DB_IS_ITEM_NO_EXIST c" "\<not> VNET_DB_IS_RESOURCE_USING c"
proof -
  obtain x d1 where t: "take_outcome d = (x, d1)" by (cases "take_outcome d")
  note st = take_outcome_tables [OF t]
  show thesis
  proof (cases x)
    case Run
    show thesis
    proof (cases "p d1")
      case None
      then show thesis using t Run st
        by (intro not_run)
          (auto simp: Handle_def VNET_DB_IS_ITEM_NO_EXIST_def VNET_DB_IS_RESOURCE_USING_def rtn_defs)
    next
      case (Some ad)
      then show thesis using t Run st by (cases ad) (auto simp: Handle_def intro: answered)
    qed
  next
    case (Refused f)
    then show thesis using t st by (intro not_run) (auto simp: Handle_def)
  next
    case (ReplyLost f)
    show thesis
    proof (cases "p d1")
      case None
      then show thesis using t ReplyLost st by (intro not_run) (auto simp: Handle_def)
    next
      case (Some ad)
      then show thesis
        using t ReplyLost st by (cases ad) (auto simp: Handle_def intro: lost)
    qed
  qed
qed

lemma Handle_run:
  assumes "env d = []"
  shows "Handle p d = (case p d of None \<Rightarrow> (Inl VNET_DB_ERROR_EXECUTE_FAILED, d)
                       | Some (a, d2) \<Rightarrow> (Inr a, d2))"
  using assms by (simp add: Handle_def take_outcome_def)

text \<open>The same for the three kinds of operation.\<close>

lemma db_add_op_cases:
  assumes "db_add_op p d = (ret, d')"
  obtains (idle) "same_tables d d'" "ret \<noteq> 0"
      "\<not> VNET_DB_IS_ITEM_NO_EXIST ret" "\<not> VNET_DB_IS_RESOURCE_USING ret"
  | (ran) d1 a where "same_tables d d1" "p d1 = Some (a, d')"
      "ret = 0 \<longrightarrow> a = 0 \<or> a = RTN_HAS_SAME_ITEM \<or> a < 0"
      "VNET_DB_IS_ITEM_NO_EXIST ret \<longrightarrow> a = RTN_ITEM_NO_EXIST \<or> a < 0"
      "VNET_DB_IS_RESOURCE_USING ret \<longrightarrow> a = RTN_RESOURCE_USING"
proof (cases rule: Handle_cases [of p d])
  case (not_run c d1)
  then show thesis using assms idle by (auto simp: db_add_op_def)
next
  case (answered d1 a d2)
  have d: "d' = d2" using assms answered by (auto simp: db_add_op_def split: if_splits)
  have r: "ret = (if a = RTN_HAS_SAME_ITEM \<or> a = 0 then 0 else GET_DB_ERROR_PROC a)"
    using assms answered by (auto simp: db_add_op_def rtn_defs split: if_splits)
  show thesis using answered(1,2) d
    by (intro ran) (auto simp: r VNET_DB_IS_ITEM_NO_EXIST_def VNET_DB_IS_RESOURCE_USING_def rtn_defs
        split: if_splits)
next
  case (lost d1 a c d2)
  then have "d' = d2 \<and> ret = c" using assms by (auto simp: db_add_op_def)
  then show thesis using lost by (intro ran) auto
qed

lemma db_del_op_cases:
  assumes "db_del_op p d = (ret, d')"
  obtains (idle) "same_tables d d'" "ret \<noteq> 0"
      "\<not> VNET_DB_IS_ITEM_NO_EXIST ret" "\<not> VNET_DB_IS_RESOURCE_USING ret"
  | (ran) d1 a where "same_tables d d1" "p d1 = Some (a, d')" "ret = 0 \<longrightarrow> a = 0 \<or> a < 0"
      "VNET_DB_IS_ITEM_NO_EXIST ret \<longrightarrow> a = RTN_ITEM_NO_EXIST \<or> a < 0"
      "VNET_DB_IS_RESOURCE_USING ret \<longrightarrow> a = RTN_RESOURCE_USING"
proof (cases rule: Handle_cases [of p d])
  case (not_run c d1)
  then show thesis using assms idle by (auto simp: db_del_op_def)
next
  case (answered d1 a d2)
  have d: "d' = d2" using assms answered by (auto simp: db_del_op_def split: if_splits)
  have r: "ret = (if a = 0 then 0 else GET_DB_ERROR_PROC a)"
    using assms answered by (auto simp: db_del_op_def rtn_defs split: if_splits)
  show thesis using answered(1,2) d
    by (intro ran) (auto simp: r VNET_DB_IS_ITEM_NO_EXIST_def VNET_DB_IS_RESOURCE_USING_def rtn_defs
        split: if_splits)
next
  case (lost d1 a c d2)
  then have "d' = d2 \<and> ret = c" using assms by (auto simp: db_del_op_def)
  then show thesis using lost by (intro ran) auto
qed

lemma db_query_op_cases:
  assumes "db_query_op p d = (ret, rows, d')"
  obtains (idle) "same_tables d d'" "ret \<noteq> 0" "rows = []"
      "\<not> VNET_DB_IS_ITEM_NO_EXIST ret" "\<not> VNET_DB_IS_RESOURCE_USING ret"
  | (ran) d1 xs where "same_tables d d1" "p d1 = Some (xs, d')" "ret = 0 \<longrightarrow> rows = xs"
      "ret \<noteq> 0 \<longrightarrow> rows = []" "\<not> VNET_DB_IS_ITEM_NO_EXIST ret" "\<not> VNET_DB_IS_RESOURCE_USING ret"
proof (cases rule: Handle_cases [of p d])
  case (not_run c d1)
  then show thesis using assms idle by (auto simp: db_query_op_def)
next
  case (answered d1 a d2)
  then have "d' = d2 \<and> rows = a \<and> ret = 0" using assms by (auto simp: db_query_op_def rtn_defs)
  then show thesis using answered
    by (intro ran) (auto simp: VNET_DB_IS_ITEM_NO_EXIST_def VNET_DB_IS_RESOURCE_USING_def rtn_defs)
next
  case (lost d1 a c d2)
  then have "d' = d2 \<and> ret = c \<and> rows = []" using assms by (auto simp: db_query_op_def)
  then show thesis using lost by (intro ran) auto
qed
end
