(* ===== verification/PortGroup.thy ===== *)
theory PortGroup
  imports NetDb
begin

text \<open>
  The port group of a network card: the query \<open>CDBOperatePortGroup::Query\<close> with its procedure and the
  three functions of \<open>CPortGroupMgr\<close> (\<open>port_group_mgr.cpp\<close>) that the pool managers ask.
\<close>

definition PORTGROUP_OPER_SUCCESS :: rc where "PORTGROUP_OPER_SUCCESS = 0"

section \<open>Port groups\<close>

text \<open>
  The fields of \<open>CDbPortGroup\<close> that the manager reads, as \<open>pf_net_query_portgroup\<close> fills them; a
  \<open>NULL\<close> number is read as 0. The properties of a group of type 0 stand in \<open>uplink_pg\<close>, which has the columns
  of \<open>vm_pg\<close>.
\<close>

record CDbPortGroup =
  PgType :: int
  SwithportMode :: int
  IsolateType :: int
  AccessIsolateNo :: int
  IsSdn :: int
  IsCfgNetplane :: int
  PgNetplaneUuid :: string

definition null0 :: "int option \<Rightarrow> int" where
  "null0 x = (case x of None \<Rightarrow> 0 | Some i \<Rightarrow> i)"

definition pf_net_query_portgroup :: "string \<Rightarrow> (int \<times> CDbPortGroup, 'z net_db_scheme) procedure" where
  "pf_net_query_portgroup u d =
     (case find (\<lambda>g. pg_uuid g = u) (port_group d) of
        None \<Rightarrow> Some ((RTN_ITEM_NO_EXIST, \<lparr>PgType = 0, SwithportMode = 0, IsolateType = 0,
                        AccessIsolateNo = 0, IsSdn = 0, IsCfgNetplane = 0, PgNetplaneUuid = []\<rparr>), d)
      | Some g \<Rightarrow>
          let row = (if pg_type g = 21 \<or> pg_type g = 20
                     then find (\<lambda>v. vmpg_id v = pg_id g) (vm_pg d)
                     else if pg_type g = 0 then find (\<lambda>v. vmpg_id v = pg_id g) (uplink_pg d) else None)
          in Some ((0, \<lparr>PgType = pg_type g, SwithportMode = pg_switchport_mode g,
              IsolateType = null0 (map_option vmpg_isolate_type row),
              AccessIsolateNo = (if pg_switchport_mode g = 1 \<and> pg_type g = 21
                                 then null0 (isolate_lookup (pg_id g) d) else 0),
              IsSdn = null0 (map_option vmpg_is_sdn row),
              IsCfgNetplane = (if pg_netplane_id g \<noteq> None then 1 else 0),
              PgNetplaneUuid = (case pg_netplane_id g of
                  None \<Rightarrow> []
                | Some np \<Rightarrow> (case find (\<lambda>x. np_id x = np) (netplane d) of
                                None \<Rightarrow> [] | Some x \<Rightarrow> np_uuid x))\<rparr>), d))"

definition PortGroup_Query :: "string \<Rightarrow> 'z net_db_scheme \<Rightarrow> (rc + CDbPortGroup) \<times> 'z net_db_scheme" where
  "PortGroup_Query u d =
     (case Handle (pf_net_query_portgroup u) d of
        (Inl e, d1) \<Rightarrow> (Inl e, d1)
      | (Inr (ret, pg), d1) \<Rightarrow> if ret \<noteq> 0 then (Inl (GET_DB_ERROR_PROC ret), d1) else (Inr pg, d1))"

definition IsNeedVlanMap :: "string \<Rightarrow> int \<Rightarrow> 'z net_db_scheme \<Rightarrow> rc \<times> int \<times> 'z net_db_scheme" where
  "IsNeedVlanMap pg nIsolateNo d =
     (case PortGroup_Query pg d of
        (Inl e, d1) \<Rightarrow> (- 1, nIsolateNo, d1)
      | (Inr g, d1) \<Rightarrow>
          if SwithportMode g = 1 \<and> PgType g = 21 \<and> IsolateType g = 0
          then (PORTGROUP_OPER_SUCCESS, AccessIsolateNo g, d1) else (- 1, nIsolateNo, d1))"

definition IsPortGroupSdn :: "string \<Rightarrow> 'z net_db_scheme \<Rightarrow> bool \<times> 'z net_db_scheme" where
  "IsPortGroupSdn pg d =
     (case PortGroup_Query pg d of (Inl e, d1) \<Rightarrow> (False, d1) | (Inr g, d1) \<Rightarrow> (IsSdn g = 1, d1))"

definition GetPGNetplane :: "string \<Rightarrow> string \<Rightarrow> 'z net_db_scheme \<Rightarrow> rc \<times> string \<times> 'z net_db_scheme" where
  "GetPGNetplane pg old d =
     (case PortGroup_Query pg d of
        (Inl e, d1) \<Rightarrow> (- 1, old, d1)
      | (Inr g, d1) \<Rightarrow> (0, if IsCfgNetplane g \<noteq> 0 then PgNetplaneUuid g else [], d1))"

section \<open>What the queries find\<close>

definition pg_view :: "string \<Rightarrow> 'z net_db_scheme \<Rightarrow> int \<times> CDbPortGroup" where
  "pg_view u d = fst (the (pf_net_query_portgroup u d))"

lemma pg_view: "pf_net_query_portgroup u d = Some (pg_view u d, d)"
  by (auto simp: pg_view_def pf_net_query_portgroup_def Let_def split: option.split)

lemma pg_view_same_tables:
  assumes "same_tables d e"
  shows "pg_view u e = pg_view u d"
proof -
  have s: "d\<lparr>env := []\<rparr> = e\<lparr>env := []\<rparr>" using assms by (simp add: same_tables_def)
  have "pg_view u (d\<lparr>env := []\<rparr>) = pg_view u d" for d
    by (simp add: pg_view_def pf_net_query_portgroup_def isolate_lookup_def Let_def
        split: option.split)
  then show ?thesis using s by metis
qed

lemma PortGroup_Query_effect:
  assumes "PortGroup_Query u d = (r, d')"
  shows "same_tables d d'" and "r = Inr g \<Longrightarrow> pg_view u d = (0, g)"
proof -
  have "same_tables d d' \<and> (r = Inr g \<longrightarrow> pg_view u d = (0, g))" for g
  proof (cases rule: Handle_cases [of "pf_net_query_portgroup u" d])
    case (not_run c d1)
    then show ?thesis using assms by (auto simp: PortGroup_Query_def)
  next
    case (answered d1 a d2)
    then show ?thesis
      using assms pg_view [of u d1] pg_view_same_tables [OF answered(1), of u]
      by (cases a) (auto simp: PortGroup_Query_def split: if_splits)
  next
    case (lost d1 a c d2)
    then show ?thesis using assms pg_view [of u d1] by (auto simp: PortGroup_Query_def)
  qed
  then show "same_tables d d'" "r = Inr g \<Longrightarrow> pg_view u d = (0, g)" by blast+
qed

lemma PortGroup_Query_live:
  "env d = [] \<Longrightarrow> PortGroup_Query u d =
     (if fst (pg_view u d) \<noteq> 0 then (Inl (GET_DB_ERROR_PROC (fst (pg_view u d))), d)
      else (Inr (snd (pg_view u d)), d))"
  by (simp add: PortGroup_Query_def Handle_run pg_view split: prod.split)

lemma IsNeedVlanMap_effect:
  assumes "IsNeedVlanMap pg old d = (r, ino, d')"
  shows "same_tables d d'"
    and "r = PORTGROUP_OPER_SUCCESS \<Longrightarrow> \<exists>g. pg_view pg d = (0, g) \<and> SwithportMode g = 1 \<and> PgType g = 21 \<and>
           IsolateType g = 0 \<and> AccessIsolateNo g = ino"
proof -
  obtain q d1 where q: "PortGroup_Query pg d = (q, d1)" by fastforce
  note e = PortGroup_Query_effect [OF q]
  show "same_tables d d'" using assms q e(1) by (auto simp: IsNeedVlanMap_def split: sum.splits if_splits)
  show "\<exists>g. pg_view pg d = (0, g) \<and> SwithportMode g = 1 \<and> PgType g = 21 \<and> IsolateType g = 0 \<and>
      AccessIsolateNo g = ino" if "r = PORTGROUP_OPER_SUCCESS"
    using assms q e(2) that
    by (auto simp: IsNeedVlanMap_def PORTGROUP_OPER_SUCCESS_def split: sum.splits if_splits)
qed

lemma IsPortGroupSdn_effect: "IsPortGroupSdn pg d = (b, d') \<Longrightarrow> same_tables d d'"
  using PortGroup_Query_effect(1) [of pg d] by (auto simp: IsPortGroupSdn_def split: prod.splits sum.splits)

lemma GetPGNetplane_effect:
  assumes "GetPGNetplane pg old d = (r, u, d')"
  shows "same_tables d d'"
    and "r = PORTGROUP_OPER_SUCCESS \<Longrightarrow> \<exists>g. pg_view pg d = (0, g) \<and>
           u = (if IsCfgNetplane g \<noteq> 0 then PgNetplaneUuid g else [])"
proof -
  obtain q d1 where q: "PortGroup_Query pg d = (q, d1)" by fastforce
  note e = PortGroup_Query_effect [OF q]
  show "same_tables d d'" using assms q e(1) by (auto simp: GetPGNetplane_def split: sum.splits)
  show "\<exists>g. pg_view pg d = (0, g) \<and> u = (if IsCfgNetplane g \<noteq> 0 then PgNetplaneUuid g else [])"
    if "r = PORTGROUP_OPER_SUCCESS"
    using assms q e(2) that
    by (auto simp: GetPGNetplane_def PORTGROUP_OPER_SUCCESS_def split: sum.splits if_splits)
qed

end
