(* ===== verification/VnmDb.thy ===== *)
theory VnmDb
  imports PortGroup
begin

text \<open>
  The VLAN tables of \<open>vnm_baseline.sql\<close> as lists of rows, and the stored procedures of
  \<open>netplane_vlanrange.txt\<close> as functions on them.
\<close>

section \<open>Tables\<close>

record vlan_range_row =
  vr_id :: int
  vr_netplane_id :: int
  vr_begin :: int
  vr_end :: int

record vlan_pool_row =
  vp_id :: int
  vp_netplane_id :: int
  vp_num :: int

record vlan_map_row =
  vm_id :: int
  vm_project_id :: int
  vm_pg_id :: int
  vm_vlan_id :: int
  vm_isolate_no :: int

record vdb = net_db +
  access_vlan :: "(int \<times> int) list"
  trunk_vlan_range :: "(int \<times> int \<times> int) list"
  vlan_range :: "vlan_range_row list"
  vlan_pool :: "vlan_pool_row list"
  vlan_map :: "vlan_map_row list"
  vsi_profile :: "(int \<times> int) list"
  vnic :: "(int \<times> int) list"
  vm :: "(int \<times> int) list"
  serial_vlan_range :: int
  serial_vlan_pool :: int
  serial_vlan_map :: int

type_synonym 'a proc = "('a, vdb) procedure"

section \<open>Procedures on VLAN ranges\<close>

definition pf_net_check_add_netplane_vlanrange :: "string \<Rightarrow> int \<Rightarrow> int \<Rightarrow> vdb \<Rightarrow> int" where
  "pf_net_check_add_netplane_vlanrange u b e d =
     (case np_lookup u d of
        None \<Rightarrow> RTN_ITEM_NO_EXIST
      | Some np \<Rightarrow>
          if b > e then RTN_PARAM_INVALID
          else if b < 2 then RTN_PARAM_INVALID
          else if e > 4094 then RTN_PARAM_INVALID
          else 0)"

text \<open>\<open>INSERT\<close> with the primary key and the three \<open>CHECK\<close> constraints of the table.\<close>

definition insert_vlan_range :: "vlan_range_row \<Rightarrow> vdb \<Rightarrow> vdb option" where
  "insert_vlan_range r d =
     (if vr_id r \<in> set (map vr_id (vlan_range d)) \<or> \<not> vr_end r \<ge> vr_begin r \<or>
         \<not> (vr_begin r \<ge> 2 \<and> vr_begin r \<le> 4094) \<or> \<not> (vr_end r \<ge> 2 \<and> vr_end r \<le> 4094)
      then None else Some (d\<lparr>vlan_range := vlan_range d @ [r]\<rparr>))"

definition pf_net_add_netplane_vlanrange :: "string \<Rightarrow> int \<Rightarrow> int \<Rightarrow> int proc" where
  "pf_net_add_netplane_vlanrange u b e d =
     (let ret = pf_net_check_add_netplane_vlanrange u b e d in
      if ret > 0 then Some (ret, d)
      else case np_lookup u d of
             None \<Rightarrow> None
           | Some np \<Rightarrow>
               let i = serial_vlan_range d + 1; d1 = d\<lparr>serial_vlan_range := i\<rparr> in
               (case insert_vlan_range \<lparr>vr_id = i, vr_netplane_id = np, vr_begin = b, vr_end = e\<rparr> d1 of
                  None \<Rightarrow> Some (RTN_OPERATOR_FAILED, d1)
                | Some d2 \<Rightarrow> Some (0, d2)))"

definition is_range_row :: "int \<Rightarrow> int \<Rightarrow> int \<Rightarrow> vlan_range_row \<Rightarrow> bool" where
  "is_range_row np b e r \<longleftrightarrow> vr_netplane_id r = np \<and> vr_begin r = b \<and> vr_end r = e"

text \<open>The procedure uses \<open>RTN_PARAM_INVALID\<close> without declaring it, so that branch raises.\<close>

definition pf_net_del_netplane_vlanrange :: "string \<Rightarrow> int \<Rightarrow> int \<Rightarrow> int proc" where
  "pf_net_del_netplane_vlanrange u b e d =
     (case np_lookup u d of
        None \<Rightarrow> Some (RTN_ITEM_NO_EXIST, d)
      | Some np \<Rightarrow>
          if b > e then None
          else if filter (is_range_row np b e) (vlan_range d) = [] then Some (RTN_ITEM_NO_EXIST, d)
          else Some (0, d\<lparr>vlan_range := filter (\<lambda>r. \<not> is_range_row np b e r) (vlan_range d)\<rparr>))"

definition pf_net_query_netplane_vlanrange_alloc :: "string \<Rightarrow> int \<Rightarrow> int \<Rightarrow> (int \<times> int) proc" where
  "pf_net_query_netplane_vlanrange_alloc u b e d =
     (case np_lookup u d of
        None \<Rightarrow> Some ((RTN_ITEM_NO_EXIST, 0), d)
      | Some np \<Rightarrow>
          if b > e then None
          else Some ((0, int (length (filter (\<lambda>r. vp_netplane_id r = np \<and> vp_num r \<ge> b \<and> vp_num r \<le> e)
                                        (vlan_pool d)))), d))"

record CDbNetplaneVlanRange =
  Uuid :: string
  BeginNum :: int
  EndNum :: int

definition pf_net_query_netplane_vlanrange :: "string \<Rightarrow> CDbNetplaneVlanRange list proc" where
  "pf_net_query_netplane_vlanrange u d =
     (case np_lookup u d of
        None \<Rightarrow> Some ([], d)
      | Some np \<Rightarrow>
          Some (map (\<lambda>r. \<lparr>Uuid = u, BeginNum = vr_begin r, EndNum = vr_end r\<rparr>)
                  (filter (\<lambda>r. vr_netplane_id r = np) (vlan_range d)), d))"

end
