(* ===== verification/VlanDb.thy ===== *)
theory VlanDb
  imports VnmDb
begin

text \<open>
  The rest of the VLAN database: the procedures on allocated VLANs (\<open>vlan_pool\<close>) and on the mapping
  of projects and port groups to VLANs (\<open>vlan_map\<close>), and the operation classes of the three tables.
\<close>

section \<open>Procedures on allocated VLANs\<close>

definition vlan_pool_lookup :: "int \<Rightarrow> int \<Rightarrow> vdb \<Rightarrow> int option" where
  "vlan_pool_lookup np n d =
     map_option vp_id (find (\<lambda>r. vp_netplane_id r = np \<and> vp_num r = n) (vlan_pool d))"

definition pf_net_check_add_netplane_vlanpool :: "string \<Rightarrow> int \<Rightarrow> vdb \<Rightarrow> int" where
  "pf_net_check_add_netplane_vlanpool u n d =
     (case np_lookup u d of
        None \<Rightarrow> RTN_ITEM_NO_EXIST
      | Some np \<Rightarrow>
          if n < 2 then RTN_PARAM_INVALID
          else if n > 4094 then RTN_PARAM_INVALID
          else if filter (\<lambda>r. vr_netplane_id r = np \<and> n \<ge> vr_begin r \<and> n \<le> vr_end r) (vlan_range d) = []
            then RTN_MUST_CFG_VALID_RANGE
          else if vlan_pool_lookup np n d \<noteq> None then RTN_ITEM_CONFLICT
          else 0)"

definition insert_vlan_pool :: "vlan_pool_row \<Rightarrow> vdb \<Rightarrow> vdb option" where
  "insert_vlan_pool r d =
     (if vp_id r \<in> set (map vp_id (vlan_pool d)) \<or>
         (vp_netplane_id r, vp_num r) \<in> set (map (\<lambda>x. (vp_netplane_id x, vp_num x)) (vlan_pool d)) \<or>
         \<not> (vp_num r \<ge> 2 \<and> vp_num r \<le> 4094)
      then None else Some (d\<lparr>vlan_pool := vlan_pool d @ [r]\<rparr>))"

definition pf_net_add_netplane_vlanpool :: "string \<Rightarrow> int \<Rightarrow> int proc" where
  "pf_net_add_netplane_vlanpool u n d =
     (let ret = pf_net_check_add_netplane_vlanpool u n d in
      if ret > 0 then Some (ret, d)
      else case np_lookup u d of
             None \<Rightarrow> None
           | Some np \<Rightarrow>
               let i = serial_vlan_pool d + 1; d1 = d\<lparr>serial_vlan_pool := i\<rparr> in
               (case insert_vlan_pool \<lparr>vp_id = i, vp_netplane_id = np, vp_num = n\<rparr> d1 of
                  None \<Rightarrow> Some (RTN_OPERATOR_FAILED, d1)
                | Some d2 \<Rightarrow> Some (0, d2)))"

definition pf_net_check_del_netplane_vlanpool :: "string \<Rightarrow> int \<Rightarrow> vdb \<Rightarrow> int" where
  "pf_net_check_del_netplane_vlanpool u n d =
     (case np_lookup u d of
        None \<Rightarrow> RTN_ITEM_NO_EXIST
      | Some np \<Rightarrow>
          if n < 2 then RTN_PARAM_INVALID
          else if n > 4094 then RTN_PARAM_INVALID
          else case vlan_pool_lookup np n d of
                 None \<Rightarrow> RTN_ITEM_NO_EXIST
               | Some i \<Rightarrow> if filter (\<lambda>m. vm_vlan_id m = i) (vlan_map d) \<noteq> [] then RTN_RESOURCE_USING
                           else 0)"

text \<open>\<open>DELETE\<close> fails on a row that \<open>vlan_map\<close> refers to (foreign key, \<open>ON DELETE RESTRICT\<close>).\<close>

definition delete_vlan_pool :: "int \<Rightarrow> int \<Rightarrow> vdb \<Rightarrow> vdb option" where
  "delete_vlan_pool np n d =
     (let hit = (\<lambda>r. vp_netplane_id r = np \<and> vp_num r = n) in
      if list_ex (\<lambda>r. hit r \<and> list_ex (\<lambda>m. vm_vlan_id m = vp_id r) (vlan_map d)) (vlan_pool d)
      then None else Some (d\<lparr>vlan_pool := filter (\<lambda>r. \<not> hit r) (vlan_pool d)\<rparr>))"

definition pf_net_del_netplane_vlanpool :: "string \<Rightarrow> int \<Rightarrow> int proc" where
  "pf_net_del_netplane_vlanpool u n d =
     (let ret = pf_net_check_del_netplane_vlanpool u n d in
      if ret > 0 then Some (ret, d)
      else case np_lookup u d of
             None \<Rightarrow> None
           | Some np \<Rightarrow> (case delete_vlan_pool np n d of
                            None \<Rightarrow> Some (RTN_OPERATOR_FAILED, d)
                          | Some d1 \<Rightarrow> Some (0, d1)))"

definition pf_net_query_netplane_vlanpool :: "string \<Rightarrow> int list proc" where
  "pf_net_query_netplane_vlanpool u d =
     (case np_lookup u d of
        None \<Rightarrow> Some ([], d)
      | Some np \<Rightarrow> Some (map vp_num (filter (\<lambda>r. vp_netplane_id r = np) (vlan_pool d)), d))"

definition pgs_of_type :: "int \<Rightarrow> int \<Rightarrow> vdb \<Rightarrow> int list" where
  "pgs_of_type t np d =
     map pg_id (filter (\<lambda>g. pg_type g = t \<and> pg_netplane_id g = Some np) (port_group d))"

definition pf_net_query_vm_share_pg_access_list_by_netplane :: "string \<Rightarrow> int list proc" where
  "pf_net_query_vm_share_pg_access_list_by_netplane u d =
     (case np_lookup u d of
        None \<Rightarrow> Some ([], d)
      | Some np \<Rightarrow> Some (concat (map (\<lambda>g. map snd (filter (\<lambda>a. fst a = g) (access_vlan d)))
                                  (pgs_of_type 20 np d)), d))"

definition pf_net_query_vm_share_pg_trunk_list_by_netplane :: "string \<Rightarrow> (int \<times> int) list proc" where
  "pf_net_query_vm_share_pg_trunk_list_by_netplane u d =
     (case np_lookup u d of
        None \<Rightarrow> Some ([], d)
      | Some np \<Rightarrow> Some (concat (map (\<lambda>g. map snd (filter (\<lambda>a. fst a = g) (trunk_vlan_range d)))
                                  (pgs_of_type 20 np d)), d))"

definition pf_net_query_vm_private_pg_isolate_no_list_by_netplane :: "string \<Rightarrow> int list proc" where
  "pf_net_query_vm_private_pg_isolate_no_list_by_netplane u d =
     (case np_lookup u d of
        None \<Rightarrow> Some ([], d)
      | Some np \<Rightarrow> Some (concat (map (\<lambda>g. map snd (filter (\<lambda>a. fst a = g) (access_isolate d)))
                                  (pgs_of_type 21 np d)), d))"

section \<open>Procedures on the VLAN map\<close>

text \<open>
  The port group of a uuid, joined with \<open>vm_pg\<close>, and the netplane of a port group through the view
  \<open>v_net_netplane_vmpg\<close>.
\<close>

definition vm_pg_lookup :: "string \<Rightarrow> vdb \<Rightarrow> port_group_row option" where
  "vm_pg_lookup u d = find (\<lambda>g. pg_uuid g = u \<and> is_vm_pg (pg_id g) d) (port_group d)"

definition private_pg_lookup :: "string \<Rightarrow> vdb \<Rightarrow> port_group_row option" where
  "private_pg_lookup u d =
     find (\<lambda>g. pg_uuid g = u \<and> is_vm_pg (pg_id g) d \<and> pg_type g = 21) (port_group d)"

definition pg_netplane_lookup :: "string \<Rightarrow> vdb \<Rightarrow> int option" where
  "pg_netplane_lookup u d =
     (case find (\<lambda>g. pg_uuid g = u \<and> is_vm_pg (pg_id g) d \<and>
                     (case pg_netplane_id g of None \<Rightarrow> False
                      | Some np \<Rightarrow> list_ex (\<lambda>r. np_id r = np) (netplane d))) (port_group d) of
        None \<Rightarrow> None | Some g \<Rightarrow> pg_netplane_id g)"

text \<open>
  The tests with which \<open>pf_net_check_add_vlanmap\<close> and \<open>pf_net_check_del_vlanmap\<close> begin: \<open>Inl\<close> the
  code to return, or \<open>Inr\<close> the port group and the VLAN row.
\<close>

definition vlanmap_args :: "string \<Rightarrow> int \<Rightarrow> int \<Rightarrow> vdb \<Rightarrow> int + int \<times> int" where
  "vlanmap_args u n ino d =
     (case private_pg_lookup u d of
        None \<Rightarrow> Inl RTN_ITEM_NO_EXIST
      | Some g \<Rightarrow>
          if pg_switchport_mode g \<noteq> 1 then Inl RTN_PARAM_INVALID
          else (case isolate_lookup (pg_id g) d of
                  None \<Rightarrow> Inl RTN_ITEM_NO_EXIST
                | Some i \<Rightarrow>
                    if i \<noteq> ino then Inl RTN_PARAM_INVALID
                    else if n < 2 then Inl RTN_PARAM_INVALID
                    else if n > 4094 then Inl RTN_PARAM_INVALID
                    else (case pg_netplane_lookup u d of
                            None \<Rightarrow> Inl RTN_PG_MUST_CFG_NETPLANE
                          | Some np \<Rightarrow> (case vlan_pool_lookup np n d of
                                           None \<Rightarrow> Inl RTN_ITEM_NO_EXIST
                                         | Some v \<Rightarrow> Inr (pg_id g, v)))))"

definition is_map_key :: "int \<Rightarrow> int \<Rightarrow> int \<Rightarrow> vlan_map_row \<Rightarrow> bool" where
  "is_map_key proj g ino m \<longleftrightarrow> vm_project_id m = proj \<and> vm_pg_id m = g \<and> vm_isolate_no m = ino"

definition is_map_vlan :: "int \<Rightarrow> int \<Rightarrow> int \<Rightarrow> vlan_map_row \<Rightarrow> bool" where
  "is_map_vlan proj g v m \<longleftrightarrow> vm_project_id m = proj \<and> vm_pg_id m = g \<and> vm_vlan_id m = v"

definition pf_net_check_add_vlanmap :: "int \<Rightarrow> string \<Rightarrow> int \<Rightarrow> int \<Rightarrow> vdb \<Rightarrow> int" where
  "pf_net_check_add_vlanmap proj u n ino d =
     (case vlanmap_args u n ino d of
        Inl r \<Rightarrow> r
      | Inr (g, v) \<Rightarrow>
          if list_ex (is_map_key proj g ino) (vlan_map d) then
            if list_ex (\<lambda>m. is_map_key proj g ino m \<and> vm_vlan_id m = v) (vlan_map d)
            then RTN_HAS_SAME_ITEM else RTN_ITEM_CONFLICT
          else 0)"

definition insert_vlan_map :: "vlan_map_row \<Rightarrow> vdb \<Rightarrow> vdb option" where
  "insert_vlan_map m d =
     (if vm_id m \<in> set (map vm_id (vlan_map d)) \<or>
         list_ex (is_map_key (vm_project_id m) (vm_pg_id m) (vm_isolate_no m)) (vlan_map d) \<or>
         \<not> list_ex (\<lambda>r. vp_id r = vm_vlan_id m) (vlan_pool d) \<or> \<not> is_vm_pg (vm_pg_id m) d
      then None else Some (d\<lparr>vlan_map := vlan_map d @ [m]\<rparr>))"

definition pf_net_add_vlanmap :: "int \<Rightarrow> string \<Rightarrow> int \<Rightarrow> int \<Rightarrow> int proc" where
  "pf_net_add_vlanmap proj u n ino d =
     (let ret = pf_net_check_add_vlanmap proj u n ino d in
      if ret = RTN_HAS_SAME_ITEM then Some (0, d)
      else if ret > 0 then Some (ret, d)
      else case vm_pg_lookup u d of
             None \<Rightarrow> None
           | Some g \<Rightarrow> (case pg_netplane_lookup u d of
               None \<Rightarrow> None
             | Some np \<Rightarrow> (case vlan_pool_lookup np n d of
                 None \<Rightarrow> None
               | Some v \<Rightarrow>
                   let i = serial_vlan_map d + 1; d1 = d\<lparr>serial_vlan_map := i\<rparr> in
                   (case insert_vlan_map \<lparr>vm_id = i, vm_project_id = proj, vm_pg_id = pg_id g,
                                          vm_vlan_id = v, vm_isolate_no = ino\<rparr> d1 of
                      None \<Rightarrow> Some (RTN_OPERATOR_FAILED, d1)
                    | Some d2 \<Rightarrow> Some (0, d2)))))"

text \<open>The join of \<open>vnic\<close>, \<open>vsi_profile\<close> and \<open>vm\<close>: a network card of the project on the port group.\<close>

definition pg_in_use :: "int \<Rightarrow> int \<Rightarrow> vdb \<Rightarrow> bool" where
  "pg_in_use proj g d \<longleftrightarrow>
     list_ex (\<lambda>(v, s). list_ex (\<lambda>(i, p). i = s \<and> p = g) (vsi_profile d) \<and>
                       list_ex (\<lambda>(w, p). w = v \<and> p = proj) (vm d)) (vnic d)"

definition pf_net_check_del_vlanmap :: "int \<Rightarrow> string \<Rightarrow> int \<Rightarrow> int \<Rightarrow> vdb \<Rightarrow> int" where
  "pf_net_check_del_vlanmap proj u n ino d =
     (case vlanmap_args u n ino d of
        Inl r \<Rightarrow> r
      | Inr (g, v) \<Rightarrow>
          if \<not> list_ex (is_map_vlan proj g v) (vlan_map d) then RTN_ITEM_NO_EXIST
          else if pg_in_use proj g d then RTN_RESOURCE_USING
          else 0)"

definition pf_net_del_vlanmap :: "int \<Rightarrow> string \<Rightarrow> int \<Rightarrow> int \<Rightarrow> int proc" where
  "pf_net_del_vlanmap proj u n ino d =
     (let ret = pf_net_check_del_vlanmap proj u n ino d in
      if ret > 0 then Some (ret, d)
      else case vm_pg_lookup u d of
             None \<Rightarrow> None
           | Some g \<Rightarrow> (case pg_netplane_lookup u d of
               None \<Rightarrow> None
             | Some np \<Rightarrow> (case vlan_pool_lookup np n d of
                 None \<Rightarrow> None
               | Some v \<Rightarrow>
                   if \<not> list_ex (is_map_vlan proj (pg_id g) v) (vlan_map d)
                   then Some (RTN_ITEM_NO_EXIST, d)
                   else Some (0, d\<lparr>vlan_map := filter (\<lambda>m. \<not> is_map_vlan proj (pg_id g) v m)
                                                  (vlan_map d)\<rparr>))))"

text \<open>The view \<open>v_net_vlanmap_netplane_pg_vlan\<close>.\<close>

record CDbVlanMap =
  NetplaneUuid :: string
  PgUuid :: string
  ProjectId :: int
  VlanNum :: int
  IsolateNo :: int

definition v_net_vlanmap_netplane_pg_vlan :: "vdb \<Rightarrow> CDbVlanMap list" where
  "v_net_vlanmap_netplane_pg_vlan d =
     [\<lparr>NetplaneUuid = np_uuid n, PgUuid = pg_uuid g, ProjectId = vm_project_id m,
       VlanNum = vp_num v, IsolateNo = vm_isolate_no m\<rparr>.
       m \<leftarrow> vlan_map d,
       v \<leftarrow> filter (\<lambda>v. vp_id v = vm_vlan_id m) (vlan_pool d),
       n \<leftarrow> filter (\<lambda>n. np_id n = vp_netplane_id v) (netplane d),
       g \<leftarrow> filter (\<lambda>g. pg_id g = vm_pg_id m \<and> is_vm_pg (pg_id g) d \<and> pg_netplane_id g \<noteq> None)
             (port_group d)]"

definition pf_net_query_vlanmap_by_netplane_and_project_and_isolate ::
  "string \<Rightarrow> int \<Rightarrow> int \<Rightarrow> CDbVlanMap list proc" where
  "pf_net_query_vlanmap_by_netplane_and_project_and_isolate u proj ino d =
     Some (filter (\<lambda>x. NetplaneUuid x = u \<and> ProjectId x = proj \<and> IsolateNo x = ino)
             (v_net_vlanmap_netplane_pg_vlan d), d)"

definition pf_net_query_vlanmap_by_projectid_and_pg :: "int \<Rightarrow> string \<Rightarrow> CDbVlanMap list proc" where
  "pf_net_query_vlanmap_by_projectid_and_pg proj u d =
     Some (filter (\<lambda>x. ProjectId x = proj \<and> PgUuid x = u) (v_net_vlanmap_netplane_pg_vlan d), d)"

section \<open>The operation classes\<close>

definition VlanRange_CheckAdd :: "CDbNetplaneVlanRange \<Rightarrow> vdb \<Rightarrow> rc \<times> vdb" where
  "VlanRange_CheckAdd r =
     db_add_op (\<lambda>d. Some (pf_net_check_add_netplane_vlanrange (Uuid r) (BeginNum r) (EndNum r) d, d))"

definition VlanRange_Add :: "CDbNetplaneVlanRange \<Rightarrow> vdb \<Rightarrow> rc \<times> vdb" where
  "VlanRange_Add r = db_add_op (pf_net_add_netplane_vlanrange (Uuid r) (BeginNum r) (EndNum r))"

definition VlanRange_Del :: "CDbNetplaneVlanRange \<Rightarrow> vdb \<Rightarrow> rc \<times> vdb" where
  "VlanRange_Del r = db_del_op (pf_net_del_netplane_vlanrange (Uuid r) (BeginNum r) (EndNum r))"

definition VlanRange_Query :: "string \<Rightarrow> vdb \<Rightarrow> rc \<times> CDbNetplaneVlanRange list \<times> vdb" where
  "VlanRange_Query u = db_query_op (pf_net_query_netplane_vlanrange u)"

definition VlanRange_QueryAllocNum :: "string \<Rightarrow> int \<Rightarrow> int \<Rightarrow> vdb \<Rightarrow> rc \<times> int \<times> vdb" where
  "VlanRange_QueryAllocNum u b e d =
     (if b > e then (VNET_DB_ERROR_PARAM_INVALID, 0, d)
      else case Handle (pf_net_query_netplane_vlanrange_alloc u b e) d of
             (Inl c, d1) \<Rightarrow> (c, 0, d1)
           | (Inr (ret, num), d1) \<Rightarrow>
               if ret \<noteq> 0 then (GET_DB_ERROR_PROC ret, 0, d1) else (VNET_DB_SUCCESS, num, d1))"

definition VlanPool_CheckAdd :: "string \<Rightarrow> int \<Rightarrow> vdb \<Rightarrow> rc \<times> vdb" where
  "VlanPool_CheckAdd u n =
     db_add_op (\<lambda>d. Some (pf_net_check_add_netplane_vlanpool u n d, d))"

definition VlanPool_Add :: "string \<Rightarrow> int \<Rightarrow> vdb \<Rightarrow> rc \<times> vdb" where
  "VlanPool_Add u n = db_add_op (pf_net_add_netplane_vlanpool u n)"

definition VlanPool_CheckDel :: "string \<Rightarrow> int \<Rightarrow> vdb \<Rightarrow> rc \<times> vdb" where
  "VlanPool_CheckDel u n =
     db_add_op (\<lambda>d. Some (pf_net_check_del_netplane_vlanpool u n d, d))"

definition VlanPool_Del :: "string \<Rightarrow> int \<Rightarrow> vdb \<Rightarrow> rc \<times> vdb" where
  "VlanPool_Del u n = db_del_op (pf_net_del_netplane_vlanpool u n)"

definition VlanPool_Query :: "string \<Rightarrow> vdb \<Rightarrow> rc \<times> int list \<times> vdb" where
  "VlanPool_Query u = db_query_op (pf_net_query_netplane_vlanpool u)"

definition VlanPool_QueryShareNetAccessVlan :: "string \<Rightarrow> vdb \<Rightarrow> rc \<times> int list \<times> vdb" where
  "VlanPool_QueryShareNetAccessVlan u =
     db_query_op (pf_net_query_vm_share_pg_access_list_by_netplane u)"

definition VlanPool_QueryShareNetTrunkVlan :: "string \<Rightarrow> vdb \<Rightarrow> rc \<times> (int \<times> int) list \<times> vdb" where
  "VlanPool_QueryShareNetTrunkVlan u =
     db_query_op (pf_net_query_vm_share_pg_trunk_list_by_netplane u)"

definition VlanPool_QueryPrivateNetIsolateNo :: "string \<Rightarrow> vdb \<Rightarrow> rc \<times> int list \<times> vdb" where
  "VlanPool_QueryPrivateNetIsolateNo u =
     db_query_op (pf_net_query_vm_private_pg_isolate_no_list_by_netplane u)"

definition VlanMap_CheckAdd :: "int \<Rightarrow> string \<Rightarrow> int \<Rightarrow> int \<Rightarrow> vdb \<Rightarrow> rc \<times> vdb" where
  "VlanMap_CheckAdd proj u n ino =
     db_add_op (\<lambda>d. Some (pf_net_check_add_vlanmap proj u n ino d, d))"

definition VlanMap_Add :: "int \<Rightarrow> string \<Rightarrow> int \<Rightarrow> int \<Rightarrow> vdb \<Rightarrow> rc \<times> vdb" where
  "VlanMap_Add proj u n ino = db_add_op (pf_net_add_vlanmap proj u n ino)"

definition VlanMap_CheckDel :: "int \<Rightarrow> string \<Rightarrow> int \<Rightarrow> int \<Rightarrow> vdb \<Rightarrow> rc \<times> vdb" where
  "VlanMap_CheckDel proj u n ino =
     db_del_op (\<lambda>d. Some (pf_net_check_del_vlanmap proj u n ino d, d))"

definition VlanMap_Del :: "int \<Rightarrow> string \<Rightarrow> int \<Rightarrow> int \<Rightarrow> vdb \<Rightarrow> rc \<times> vdb" where
  "VlanMap_Del proj u n ino = db_del_op (pf_net_del_vlanmap proj u n ino)"

definition VlanMap_QueryByNpProjectIdIsolateNo ::
  "string \<Rightarrow> int \<Rightarrow> int \<Rightarrow> vdb \<Rightarrow> rc \<times> CDbVlanMap list \<times> vdb" where
  "VlanMap_QueryByNpProjectIdIsolateNo u proj ino =
     db_query_op (pf_net_query_vlanmap_by_netplane_and_project_and_isolate u proj ino)"

definition VlanMap_QueryByProjectIdPG :: "int \<Rightarrow> string \<Rightarrow> vdb \<Rightarrow> rc \<times> CDbVlanMap list \<times> vdb" where
  "VlanMap_QueryByProjectIdPG proj u = db_query_op (pf_net_query_vlanmap_by_projectid_and_pg proj u)"

text \<open>The output parameter keeps its old value \<open>old\<close> unless a row is found.\<close>

definition VlanMap_QueryByProjectIdPGIsolateNo ::
  "int \<Rightarrow> string \<Rightarrow> int \<Rightarrow> int \<Rightarrow> vdb \<Rightarrow> rc \<times> int \<times> vdb" where
  "VlanMap_QueryByProjectIdPGIsolateNo proj u ino old d =
     (case VlanMap_QueryByProjectIdPG proj u d of
        (ret, rows, d1) \<Rightarrow>
          if ret \<noteq> VNET_DB_SUCCESS then (ret, old, d1)
          else case find (\<lambda>x. IsolateNo x = ino) rows of
                 None \<Rightarrow> (VNET_DB_ERROR_ITEM_NO_EXIST, old, d1)
               | Some x \<Rightarrow> (0, VlanNum x, d1))"

end
