(* ===== verification/RangeArithm.thy ===== *)
theory RangeArithm
  imports Prelude "HOL-Library.Multiset"
begin

text \<open>
  \<open>CRangeArithmetic\<close> (\<open>range_arithm.h\<close>, \<open>range_arithm.cpp\<close>): the arithmetic on collections of
  closed 32-bit ranges that every resource pool of the network manager shares. The state is the
  pair of vectors of the class; the operations return the code's \<open>int32\<close> and the new state. The
  flag \<open>m_bDbgShowProcessData\<close> only switches printing and is left out.
\<close>

section \<open>State\<close>

record TRange =
  dwStart :: uint32
  dwEnd :: uint32

record range_arith =
  m_vecRange :: "TRange list"
  m_vecMergedRange :: "TRange list"

definition ra_init :: range_arith where
  "ra_init = \<lparr>m_vecRange = [], m_vecMergedRange = []\<rparr>"

section \<open>Operations\<close>

definition AddRange :: "TRange \<Rightarrow> range_arith \<Rightarrow> rc \<times> range_arith" where
  "AddRange r ra =
     (if dwStart r > dwEnd r then (- 1, ra)
      else (0, ra\<lparr>m_vecRange := m_vecRange ra @ [r]\<rparr>))"

definition RemoveAll :: "range_arith \<Rightarrow> rc \<times> range_arith" where
  "RemoveAll ra = (0, ra\<lparr>m_vecRange := [], m_vecMergedRange := []\<rparr>)"

definition GetRangeColl :: "range_arith \<Rightarrow> TRange list" where
  "GetRangeColl ra = m_vecRange ra"

definition GetMergedRangeColl :: "range_arith \<Rightarrow> TRange list" where
  "GetMergedRangeColl ra = m_vecMergedRange ra"

definition CompareRange :: "TRange \<Rightarrow> TRange \<Rightarrow> bool" where
  "CompareRange r1 r2 \<longleftrightarrow> dwEnd r1 \<le> dwStart r2 \<or> dwStart r1 \<le> dwStart r2"

text \<open>
  \<open>std::sort\<close> with the comparator of the code: every element is inserted in front of the first
  element that the comparator puts it before, the way the library sorts short sequences.
  \<open>MergeSortColl_any_order\<close> below shows that the result of the merge does not depend on the order
  in which a sort leaves equal elements.
\<close>

fun insert_by :: "('a \<Rightarrow> 'a \<Rightarrow> bool) \<Rightarrow> 'a \<Rightarrow> 'a list \<Rightarrow> 'a list" where
  "insert_by cmp x [] = [x]"
| "insert_by cmp x (y # ys) = (if cmp x y then x # y # ys else y # insert_by cmp x ys)"

fun sort_by :: "('a \<Rightarrow> 'a \<Rightarrow> bool) \<Rightarrow> 'a list \<Rightarrow> 'a list \<Rightarrow> 'a list" where
  "sort_by cmp acc [] = acc"
| "sort_by cmp acc (x # xs) = sort_by cmp (insert_by cmp x acc) xs"

definition SortColl :: "range_arith \<Rightarrow> rc \<times> range_arith" where
  "SortColl ra = (0, ra\<lparr>m_vecRange := sort_by CompareRange [] (m_vecRange ra)\<rparr>)"

text \<open>The closed-interval test; \<open>dwEnd + 1\<close> wraps around at 32 bits as in the code.\<close>

definition IsAssociationRange :: "TRange \<Rightarrow> TRange \<Rightarrow> bool" where
  "IsAssociationRange r1 r2 \<longleftrightarrow>
     \<not> (dwEnd r1 + 1 < dwStart r2 \<or> dwStart r1 > dwEnd r2 + 1)"

definition merge_step :: "TRange \<Rightarrow> TRange \<Rightarrow> TRange" where
  "merge_step cur r =
     (let cur1 = (if dwStart cur > dwStart r then cur\<lparr>dwStart := dwStart r\<rparr> else cur)
      in if dwEnd cur1 < dwEnd r then cur1\<lparr>dwEnd := dwEnd r\<rparr> else cur1)"

fun merge_loop :: "TRange \<Rightarrow> TRange list \<Rightarrow> TRange list \<Rightarrow> TRange list" where
  "merge_loop cur [] out = out @ [cur]"
| "merge_loop cur (r # rs) out =
     (if IsAssociationRange cur r then merge_loop (merge_step cur r) rs out
      else merge_loop r rs (out @ [cur]))"

definition MergeSortColl :: "range_arith \<Rightarrow> rc \<times> range_arith" where
  "MergeSortColl ra =
     (if m_vecRange ra = [] then (- 1, ra)
      else let ra1 = snd (SortColl ra)
           in (case m_vecRange ra1 of
                 [] \<Rightarrow> (0, ra1)
               | cur # rs \<Rightarrow>
                   (0, ra1\<lparr>m_vecMergedRange := merge_loop cur rs (m_vecMergedRange ra1)\<rparr>)))"

text \<open>
  The search loop of \<open>DeleteRange\<close>: the first range that contains \<open>r\<close> is erased, cut or split in
  two; \<open>None\<close> when the iterator reaches the end.
\<close>

fun delete_loop :: "TRange \<Rightarrow> TRange list \<Rightarrow> TRange list option" where
  "delete_loop r [] = None"
| "delete_loop r (x # xs) =
     (if dwStart x \<le> dwStart r \<and> dwEnd x \<ge> dwEnd r then
        (if dwStart x = dwStart r \<and> dwEnd x = dwEnd r then Some xs
         else if dwStart x = dwStart r then Some (x\<lparr>dwStart := dwEnd r + 1\<rparr> # xs)
         else if dwEnd x = dwEnd r then Some (x\<lparr>dwEnd := dwStart r - 1\<rparr> # xs)
         else Some (\<lparr>dwStart = dwStart x, dwEnd = dwStart r - 1\<rparr>
                    # x\<lparr>dwStart := dwEnd r + 1\<rparr> # xs))
      else map_option (\<lambda>ys. x # ys) (delete_loop r xs))"

definition DeleteRange :: "TRange \<Rightarrow> range_arith \<Rightarrow> rc \<times> range_arith" where
  "DeleteRange r ra =
     (if dwStart r > dwEnd r then (- 1, ra)
      else if m_vecRange ra = [] then (0, ra)
      else case delete_loop r (m_vecRange ra) of
             None \<Rightarrow> (- 1, ra\<lparr>m_vecMergedRange := m_vecRange ra\<rparr>)
           | Some out \<Rightarrow> (0, ra\<lparr>m_vecMergedRange := out\<rparr>))"

section \<open>Abstraction: the set of numbers a collection holds\<close>

definition valid_range :: "TRange \<Rightarrow> bool" where
  "valid_range r \<longleftrightarrow> dwStart r \<le> dwEnd r"

definition range_set :: "TRange \<Rightarrow> nat set" where
  "range_set r = {unat (dwStart r) .. unat (dwEnd r)}"

definition coll_set :: "TRange list \<Rightarrow> nat set" where
  "coll_set rs = (\<Union>r \<in> set rs. range_set r)"

definition separated :: "TRange \<Rightarrow> TRange \<Rightarrow> bool" where
  "separated a b \<longleftrightarrow> unat (dwEnd a) + 1 < unat (dwStart b)"

text \<open>
  The normal form that the pools rely on: valid ranges in increasing order with at least one
  free number between two neighbours.
\<close>

definition canonical :: "TRange list \<Rightarrow> bool" where
  "canonical rs \<longleftrightarrow> (\<forall>r \<in> set rs. valid_range r) \<and> sorted_wrt separated rs"

definition below_max :: "TRange \<Rightarrow> bool" where
  "below_max r \<longleftrightarrow> dwEnd r \<noteq> - 1"

lemma coll_set_simps [simp, range_simps]:
  "coll_set [] = {}"
  "coll_set (r # rs) = range_set r \<union> coll_set rs"
  "coll_set (rs @ rs') = coll_set rs \<union> coll_set rs'"
  by (auto simp: coll_set_def)

lemma canonical_simps [simp, range_simps]:
  "canonical []"
  "canonical (r # rs) \<longleftrightarrow> valid_range r \<and> (\<forall>s \<in> set rs. separated r s) \<and> canonical rs"
  by (auto simp: canonical_def)

lemma valid_range_nat [range_simps]:
  "valid_range r \<longleftrightarrow> unat (dwStart r) \<le> unat (dwEnd r)"
  by (simp add: valid_range_def word_le_nat_alt)

lemma range_set_nonempty: "valid_range r \<Longrightarrow> range_set r \<noteq> {}"
  by (auto simp: range_set_def valid_range_nat)

section \<open>Sorting\<close>

lemma CompareRange_valid:
  assumes "valid_range a" and "valid_range b"
  shows "CompareRange a b \<longleftrightarrow> dwStart a \<le> dwStart b"
  using assms by (auto simp: CompareRange_def valid_range_def)

lemma mset_insert_by [simp]: "mset (insert_by cmp x ys) = add_mset x (mset ys)"
  by (induction ys) auto

lemma set_insert_by [simp]: "set (insert_by cmp x ys) = insert x (set ys)"
  by (induction ys) (simp_all add: insert_commute)

lemma mset_sort_by: "mset (sort_by cmp acc xs) = mset acc + mset xs"
  by (induction xs arbitrary: acc) auto

lemma set_sort_by [simp]: "set (sort_by cmp acc xs) = set acc \<union> set xs"
  by (induction xs arbitrary: acc) auto

definition starts_sorted :: "TRange list \<Rightarrow> bool" where
  "starts_sorted rs \<longleftrightarrow> sorted_wrt (\<lambda>a b. dwStart a \<le> dwStart b) rs"

lemma starts_sorted_simps [simp]:
  "starts_sorted []"
  "starts_sorted (r # rs) \<longleftrightarrow> (\<forall>s \<in> set rs. dwStart r \<le> dwStart s) \<and> starts_sorted rs"
  by (auto simp: starts_sorted_def)

lemma insert_by_starts_sorted:
  assumes "valid_range x" and "\<forall>r \<in> set ys. valid_range r" and "starts_sorted ys"
  shows "starts_sorted (insert_by CompareRange x ys)"
  using assms
proof (induction ys)
  case (Cons y ys)
  then show ?case
    by (cases "dwStart x \<le> dwStart y") (auto simp: CompareRange_valid)
qed simp

lemma sort_by_starts_sorted:
  assumes "\<forall>r \<in> set acc \<union> set xs. valid_range r" and "starts_sorted acc"
  shows "starts_sorted (sort_by CompareRange acc xs)"
  using assms by (induction xs arbitrary: acc) (auto simp: insert_by_starts_sorted)

section \<open>Merging\<close>

lemma merge_step_sel:
  "dwStart (merge_step a b) = min (dwStart a) (dwStart b)"
  "dwEnd (merge_step a b) = max (dwEnd a) (dwEnd b)"
  by (auto simp: merge_step_def Let_def)

lemma merge_loop_out: "merge_loop cur rs out = out @ merge_loop cur rs []"
proof (induction rs arbitrary: cur out)
  case (Cons r rs)
  show ?case
    using Cons.IH [of r "out @ [cur]"] Cons.IH [of r "[cur]"] Cons.IH [of "merge_step cur r" out]
    by simp
qed simp

lemma merge_loop_Cons:
  "merge_loop cur (r # rs) [] =
     (if IsAssociationRange cur r then merge_loop (merge_step cur r) rs []
      else cur # merge_loop r rs [])"
  using merge_loop_out [of r rs "[cur]"] by simp

lemma unat_plus_one_cases: "unat (w + 1 :: uint32) = Suc (unat w) \<or> w + 1 = 0"
  by (metis unat_plus_one add.right_inverse add.commute)

text \<open>
  Two ranges that the code calls associated overlap or touch, so their hull is their union;
  the wrap-around of \<open>dwEnd + 1\<close> can only make the test answer no.
\<close>

lemma assoc_touch:
  assumes "IsAssociationRange a b" and "dwStart a \<le> dwStart b" and "valid_range a"
  shows "unat (dwStart b) \<le> unat (dwEnd a) + 1"
  using assms unat_plus_one_cases [of "dwEnd a"]
  by (auto simp: IsAssociationRange_def word_order_nat valid_range_nat not_less)

lemma not_assoc_separated:
  assumes "\<not> IsAssociationRange a b" and "dwStart a \<le> dwStart b"
    and "valid_range b" and "below_max a" and "below_max b"
  shows "separated a b"
  using assms
  by (auto simp: IsAssociationRange_def separated_def below_max_def unat_plus_one
      word_order_nat valid_range_nat)

lemma merge_step_set:
  assumes "IsAssociationRange a b" and "dwStart a \<le> dwStart b"
    and "valid_range a" and "valid_range b"
  shows "range_set (merge_step a b) = range_set a \<union> range_set b"
  using assoc_touch [OF assms(1,2,3)] assms(2,3,4)
  by (auto simp: range_set_def merge_step_sel valid_range_nat word_order_nat min_def max_def)

lemma merge_step_valid:
  "valid_range a \<Longrightarrow> valid_range b \<Longrightarrow> valid_range (merge_step a b)"
  by (auto simp: valid_range_def merge_step_sel min_def max_def)

lemma merge_loop_set:
  assumes "valid_range cur" and "\<forall>r \<in> set rs. valid_range r" and "starts_sorted (cur # rs)"
  shows "coll_set (merge_loop cur rs []) = range_set cur \<union> coll_set rs"
  using assms
proof (induction rs arbitrary: cur)
  case (Cons r rs)
  have *: "coll_set (merge_loop (merge_step cur r) rs [])
             = range_set (merge_step cur r) \<union> coll_set rs"
    using Cons.prems by (intro Cons.IH) (auto simp: merge_step_valid merge_step_sel)
  have "coll_set (merge_loop r rs []) = range_set r \<union> coll_set rs"
    using Cons.prems by (intro Cons.IH) auto
  with * show ?case
    using Cons.prems by (auto simp: merge_loop_Cons merge_step_set simp del: merge_loop.simps)
qed simp

lemma merge_loop_valid:
  assumes "valid_range cur" and "\<forall>r \<in> set rs. valid_range r"
  shows "\<forall>r \<in> set (merge_loop cur rs []). valid_range r"
  using assms
proof (induction rs arbitrary: cur)
  case (Cons r rs)
  have "\<forall>x \<in> set (merge_loop (merge_step cur r) rs []). valid_range x"
    using Cons.prems by (intro Cons.IH) (auto simp: merge_step_valid)
  moreover have "\<forall>x \<in> set (merge_loop r rs []). valid_range x"
    using Cons.prems by (intro Cons.IH) auto
  ultimately show ?case
    using Cons.prems by (simp add: merge_loop_Cons del: merge_loop.simps)
qed simp

lemma merge_loop_starts:
  assumes "starts_sorted (cur # rs)"
  shows "\<forall>r \<in> set (merge_loop cur rs []). dwStart cur \<le> dwStart r"
  using assms
proof (induction rs arbitrary: cur)
  case (Cons r rs)
  have "\<forall>x \<in> set (merge_loop (merge_step cur r) rs []). dwStart (merge_step cur r) \<le> dwStart x"
    using Cons.prems by (intro Cons.IH) (auto simp: merge_step_sel)
  moreover have "\<forall>x \<in> set (merge_loop r rs []). dwStart r \<le> dwStart x"
    using Cons.prems by (intro Cons.IH) auto
  ultimately show ?case
    using Cons.prems
    by (auto simp: merge_loop_Cons merge_step_sel simp del: merge_loop.simps)
qed simp

lemma merge_loop_canonical:
  assumes "\<forall>r \<in> set (cur # rs). valid_range r \<and> below_max r" and "starts_sorted (cur # rs)"
  shows "canonical (merge_loop cur rs [])"
  using assms
proof (induction rs arbitrary: cur)
  case (Cons r rs)
  show ?case
  proof (cases "IsAssociationRange cur r")
    case True
    have "canonical (merge_loop (merge_step cur r) rs [])"
      using Cons.prems
      by (intro Cons.IH) (auto simp: merge_step_valid merge_step_sel below_max_def max_def)
    with True show ?thesis by simp
  next
    case False
    have sep: "separated cur r"
      using Cons.prems False by (intro not_assoc_separated) auto
    have "canonical (merge_loop r rs [])"
      using Cons.prems by (intro Cons.IH) auto
    moreover have "\<forall>s \<in> set (merge_loop r rs []). separated cur s"
      using merge_loop_starts [of r rs] Cons.prems sep
      by (fastforce simp: separated_def word_le_nat_alt)
    ultimately show ?thesis
      using False Cons.prems by (simp add: merge_loop_Cons del: merge_loop.simps)
  qed
qed simp

section \<open>The normal form is unique\<close>

lemma separated_disjoint:
  assumes "\<forall>s \<in> set rs. separated r s" and "\<forall>s \<in> set rs. valid_range s"
  shows "range_set r \<inter> coll_set rs = {}" and "Suc (unat (dwEnd r)) \<notin> coll_set rs"
  using assms by (fastforce simp: coll_set_def range_set_def separated_def)+

lemma canonical_start_least:
  assumes "canonical (r # rs)"
  shows "(LEAST n. n \<in> coll_set (r # rs)) = unat (dwStart r)"
proof (rule Least_equality)
  show "unat (dwStart r) \<in> coll_set (r # rs)"
    using assms by (simp add: range_set_def valid_range_nat)
next
  fix n
  assume "n \<in> coll_set (r # rs)"
  then show "unat (dwStart r) \<le> n"
    using assms by (fastforce simp: coll_set_def range_set_def separated_def valid_range_nat)
qed

lemma canonical_end_gap:
  assumes "canonical (r # rs)"
  shows "Suc (unat (dwEnd r)) \<notin> coll_set (r # rs)"
  using assms separated_disjoint(2) [of rs r] by (auto simp: range_set_def canonical_def)

lemma canonical_end_le:
  assumes "canonical (r # rs)" and "canonical (s # ss)"
    and "coll_set (r # rs) = coll_set (s # ss)" and "dwStart r = dwStart s"
  shows "unat (dwEnd s) \<le> unat (dwEnd r)"
proof (rule ccontr)
  assume "\<not> ?thesis"
  then have "Suc (unat (dwEnd r)) \<in> range_set s"
    using assms(1,4) by (simp add: range_set_def valid_range_nat)
  then have "Suc (unat (dwEnd r)) \<in> coll_set (r # rs)"
    using assms(3) by simp
  with canonical_end_gap [OF assms(1)] show False by simp
qed

lemma canonical_unique:
  assumes "canonical rs" and "canonical ss" and "coll_set rs = coll_set ss"
  shows "rs = ss"
  using assms
proof (induction rs arbitrary: ss)
  case Nil
  then show ?case
    by (cases ss) (use range_set_nonempty in auto)
next
  case (Cons r rs)
  then obtain s ss' where ss: "ss = s # ss'"
    by (cases ss) (use range_set_nonempty in auto)
  have st: "dwStart r = dwStart s"
    using canonical_start_least [of r rs] canonical_start_least [of s ss'] Cons.prems ss
    by (metis unsigned_word_eqI)
  have "unat (dwEnd s) = unat (dwEnd r)"
    using canonical_end_le [of r rs s ss'] canonical_end_le [of s ss' r rs] Cons.prems ss st
    by (metis le_antisym)
  then have r: "r = s" using st by (metis (full_types) unsigned_word_eqI TRange.equality old.unit.exhaust)
  have "coll_set rs = coll_set (r # rs) - range_set r"
    using separated_disjoint(1) [of rs r] Cons.prems(1) by (auto simp: canonical_def)
  also have "\<dots> = coll_set (s # ss') - range_set s"
    using Cons.prems(3) ss r by simp
  also have "\<dots> = coll_set ss'"
    using separated_disjoint(1) [of ss' s] Cons.prems(2) ss by (auto simp: canonical_def)
  finally show ?case
    using Cons.IH [of ss'] Cons.prems ss r by simp
qed

section \<open>Deleting\<close>

lemma canonical_subset_iff:
  assumes "canonical xs" and "valid_range r"
  shows "range_set r \<subseteq> coll_set xs \<longleftrightarrow> (\<exists>x \<in> set xs. range_set r \<subseteq> range_set x)"
proof
  assume "range_set r \<subseteq> coll_set xs"
  then show "\<exists>x \<in> set xs. range_set r \<subseteq> range_set x"
    using assms(1)
  proof (induction xs)
    case Nil
    then show ?case using range_set_nonempty [OF assms(2)] by simp
  next
    case (Cons x xs)
    show ?case
    proof (cases "unat (dwStart r) \<in> range_set x")
      case True
      have "unat (dwEnd r) \<le> unat (dwEnd x)"
      proof (rule ccontr)
        assume "\<not> ?thesis"
        then have "Suc (unat (dwEnd x)) \<in> range_set r"
          using True by (simp add: range_set_def)
        then show False
          using Cons.prems canonical_end_gap by blast
      qed
      then show ?thesis
        using True by (auto simp: range_set_def)
    next
      case False
      then have gt: "unat (dwEnd x) < unat (dwStart r)"
        using Cons.prems assms(2)
        by (fastforce simp: coll_set_def range_set_def separated_def valid_range_nat)
      then have "range_set r \<subseteq> coll_set xs"
        using Cons.prems(1) by (fastforce simp: range_set_def)
      then show ?thesis
        using Cons.IH Cons.prems(2) by auto
    qed
  qed
qed (auto simp: coll_set_def)

lemma contains_range_set:
  assumes "valid_range r"
  shows "dwStart x \<le> dwStart r \<and> dwEnd r \<le> dwEnd x \<longleftrightarrow> range_set r \<subseteq> range_set x"
  using assms by (auto simp: range_set_def valid_range_nat word_order_nat)

lemma delete_loop_None_iff:
  assumes "valid_range r"
  shows "delete_loop r xs = None \<longleftrightarrow> \<not> (\<exists>x \<in> set xs. range_set r \<subseteq> range_set x)"
  using contains_range_set [OF assms] by (induction xs) auto

lemma cut_low:
  assumes "valid_range x" and "valid_range r" and "range_set r \<subseteq> range_set x"
    and "dwEnd x \<noteq> dwEnd r"
  shows "unat (dwEnd r + 1) = Suc (unat (dwEnd r))" and "unat (dwEnd r) < unat (dwEnd x)"
proof -
  show *: "unat (dwEnd r) < unat (dwEnd x)"
    using assms by (metis (full_types) contains_range_set unsigned_word_eqI le_neq_implies_less
        word_le_nat_alt)
  then show "unat (dwEnd r + 1) = Suc (unat (dwEnd r))"
    by (metis unat_plus_one unat_less_neq_max)
qed

lemma cut_high:
  assumes "valid_range x" and "valid_range r" and "range_set r \<subseteq> range_set x"
    and "dwStart x \<noteq> dwStart r"
  shows "unat (dwStart r - 1) = unat (dwStart r) - 1" and "unat (dwStart x) < unat (dwStart r)"
proof -
  show *: "unat (dwStart x) < unat (dwStart r)"
    using assms by (metis (full_types) contains_range_set unsigned_word_eqI le_neq_implies_less
        word_le_nat_alt)
  then show "unat (dwStart r - 1) = unat (dwStart r) - 1"
    by (simp add: unat_minus_one_pos)
qed

text \<open>
  The first range that contains \<open>r\<close> is replaced by what remains of it: at most two ranges inside
  the old one that together hold its numbers without those of \<open>r\<close>.
\<close>

lemma delete_head:
  assumes "valid_range x" and "valid_range r" and "range_set r \<subseteq> range_set x"
    and "delete_loop r (x # xs) = Some out"
  shows "\<exists>ys. out = ys @ xs \<and> coll_set ys = range_set x - range_set r \<and> canonical ys \<and>
           (\<forall>y \<in> set ys. unat (dwStart x) \<le> unat (dwStart y) \<and> unat (dwEnd y) \<le> unat (dwEnd x))"
proof -
  have inx: "dwStart x \<le> dwStart r \<and> dwEnd r \<le> dwEnd x"
    using assms contains_range_set by blast
  have nat: "unat (dwStart r) \<le> unat (dwEnd r)"
    "unat (dwStart x) \<le> unat (dwStart r)" "unat (dwEnd r) \<le> unat (dwEnd x)"
    using inx assms(2) by (auto simp: valid_range_nat word_le_nat_alt)
  consider (all) "dwStart x = dwStart r" "dwEnd x = dwEnd r"
    | (low) "dwStart x = dwStart r" "dwEnd x \<noteq> dwEnd r"
    | (high) "dwStart x \<noteq> dwStart r" "dwEnd x = dwEnd r"
    | (mid) "dwStart x \<noteq> dwStart r" "dwEnd x \<noteq> dwEnd r"
    by blast
  then show ?thesis
  proof cases
    case all
    then show ?thesis
      using assms(4) inx by (intro exI [of _ "[]"]) (auto simp: range_set_def)
  next
    case low
    note c = cut_low [OF assms(1-3) low(2)]
    show ?thesis
      using assms(4) inx low nat c
      by (intro exI [of _ "[x\<lparr>dwStart := dwEnd r + 1\<rparr>]"])
        (auto simp: range_set_def valid_range_nat)
  next
    case high
    note c = cut_high [OF assms(1-3) high(1)]
    show ?thesis
      using assms(4) inx high nat c
      by (intro exI [of _ "[x\<lparr>dwEnd := dwStart r - 1\<rparr>]"])
        (auto simp: range_set_def valid_range_nat)
  next
    case mid
    note c = cut_low [OF assms(1-3) mid(2)] cut_high [OF assms(1-3) mid(1)]
    show ?thesis
      using assms(4) inx mid nat c
      by (intro exI [of _ "[\<lparr>dwStart = dwStart x, dwEnd = dwStart r - 1\<rparr>,
            x\<lparr>dwStart := dwEnd r + 1\<rparr>]"])
        (auto simp: range_set_def valid_range_nat separated_def)
  qed
qed

lemma delete_loop_notin_head:
  assumes "valid_range r" and "\<not> range_set r \<subseteq> range_set x"
  shows "delete_loop r (x # xs) = map_option (\<lambda>ys. x # ys) (delete_loop r xs)"
  using assms contains_range_set by auto

lemma separated_shrink:
  assumes "separated x s" and "unat (dwEnd y) \<le> unat (dwEnd x)"
  shows "separated y s"
  using assms by (simp add: separated_def)

lemma delete_loop_Some:
  assumes "canonical xs" and "valid_range r" and "delete_loop r xs = Some out"
  shows "coll_set out = coll_set xs - range_set r \<and> canonical out \<and>
           (\<forall>y \<in> set out. \<exists>x \<in> set xs. unat (dwStart x) \<le> unat (dwStart y) \<and>
                                   unat (dwEnd y) \<le> unat (dwEnd x))"
  using assms(1,3)
proof (induction xs arbitrary: out)
  case (Cons x xs)
  have x: "valid_range x" "\<forall>s \<in> set xs. separated x s" "canonical xs"
    "range_set x \<inter> coll_set xs = {}"
    using Cons.prems(1) separated_disjoint(1) [of xs x] by (auto simp: canonical_def)
  show ?case
  proof (cases "range_set r \<subseteq> range_set x")
    case True
    obtain ys where ys: "out = ys @ xs" "coll_set ys = range_set x - range_set r" "canonical ys"
      and inx: "\<forall>y \<in> set ys. unat (dwStart x) \<le> unat (dwStart y) \<and>
                  unat (dwEnd y) \<le> unat (dwEnd x)"
      using delete_head [OF x(1) assms(2) True Cons.prems(2)] by blast
    have "canonical out"
      using ys x inx separated_shrink
      by (fastforce simp: canonical_def sorted_wrt_append_iff)
    moreover have "coll_set out = coll_set (x # xs) - range_set r"
      using ys x(4) True by auto
    ultimately show ?thesis
      using ys(1) inx by force
  next
    case False
    obtain out' where out': "delete_loop r xs = Some out'" "out = x # out'"
      using Cons.prems(2) delete_loop_notin_head [OF assms(2) False] by auto
    note ih = Cons.IH [OF x(3) out'(1)]
    have sep: "\<forall>y \<in> set out'. separated x y"
      using ih x(2) by (fastforce simp: separated_def)
    have "range_set x \<inter> range_set r = {}"
    proof -
      have "range_set r \<subseteq> coll_set xs"
        using out'(1) delete_loop_None_iff [OF assms(2), of xs]
        by (auto simp: coll_set_def)
      then show ?thesis using x(4) by blast
    qed
    then have "coll_set out = coll_set (x # xs) - range_set r"
      using ih out'(2) by auto
    then show ?thesis
      using ih sep x(1) out'(2) by auto
  qed
qed simp

section \<open>Properties of the operations\<close>

lemma sort_result_sorted:
  assumes "\<forall>r \<in> set xs. valid_range r"
  shows "starts_sorted (sort_by CompareRange [] xs)"
  using assms by (intro sort_by_starts_sorted) auto

lemma sort_by_not_Nil: "xs \<noteq> [] \<Longrightarrow> sort_by cmp [] xs \<noteq> []"
  using set_sort_by [of cmp "[]" xs] by (metis set_empty sup_bot.left_neutral)

lemma MergeSortColl_run:
  assumes "m_vecRange ra = x # xs" and "m_vecMergedRange ra = []"
  obtains cur rs where "sort_by CompareRange [] (x # xs) = cur # rs"
    and "MergeSortColl ra = (0, ra\<lparr>m_vecRange := cur # rs,
                                m_vecMergedRange := merge_loop cur rs []\<rparr>)"
proof -
  obtain cur rs where cr: "sort_by CompareRange [] (x # xs) = cur # rs"
    using sort_by_not_Nil [of "x # xs" CompareRange] by (cases "sort_by CompareRange [] (x # xs)") auto
  have "MergeSortColl ra = (0, ra\<lparr>m_vecRange := cur # rs, m_vecMergedRange := merge_loop cur rs []\<rparr>)"
    using cr assms by (simp add: MergeSortColl_def SortColl_def)
  with cr show thesis by (rule that)
qed

text \<open>
  The facts that the range containers use: merging keeps the numbers, and gives the normal form
  whenever no range ends at the last 32-bit number.
\<close>

lemma MergeSortColl_merges:
  assumes "m_vecRange ra \<noteq> []" and "m_vecMergedRange ra = []"
    and "\<forall>r \<in> set (m_vecRange ra). valid_range r"
  shows "fst (MergeSortColl ra) = 0"
    and "coll_set (m_vecMergedRange (snd (MergeSortColl ra))) = coll_set (m_vecRange ra)"
    and "\<forall>r \<in> set (m_vecRange ra). below_max r \<Longrightarrow>
           canonical (m_vecMergedRange (snd (MergeSortColl ra)))"
proof -
  obtain x xs where xs: "m_vecRange ra = x # xs"
    using assms(1) by (cases "m_vecRange ra") auto
  obtain cur rs where s: "sort_by CompareRange [] (x # xs) = cur # rs"
    and run: "MergeSortColl ra = (0, ra\<lparr>m_vecRange := cur # rs,
                                    m_vecMergedRange := merge_loop cur rs []\<rparr>)"
    by (rule MergeSortColl_run [OF xs assms(2)])
  have set: "set (cur # rs) = set (m_vecRange ra)"
    using set_sort_by [of CompareRange "[]" "x # xs"] unfolding s xs by simp
  have sorted: "starts_sorted (cur # rs)"
    using sort_result_sorted [of "x # xs"] s assms(3) xs by simp
  have val: "\<forall>r \<in> set (cur # rs). valid_range r"
    using set assms(3) by simp
  show "fst (MergeSortColl ra) = 0" using run by simp
  have "coll_set (merge_loop cur rs []) = range_set cur \<union> coll_set rs"
    using val sorted by (intro merge_loop_set) auto
  also have "\<dots> = coll_set (cur # rs)" by simp
  also have "\<dots> = coll_set (m_vecRange ra)"
    using set by (simp only: coll_set_def)
  finally show "coll_set (m_vecMergedRange (snd (MergeSortColl ra))) = coll_set (m_vecRange ra)"
    using run by simp
  assume bm: "\<forall>r \<in> set (m_vecRange ra). below_max r"
  have "canonical (merge_loop cur rs [])"
    using val sorted bm set by (intro merge_loop_canonical) auto
  then show "canonical (m_vecMergedRange (snd (MergeSortColl ra)))"
    using run by simp
qed

text \<open>
  Any permutation that orders the starts, whatever sort produced it, gives the same merge.
\<close>

lemma MergeSortColl_any_order:
  assumes "mset (c # cs) = mset (d # ds)" and "starts_sorted (c # cs)" and "starts_sorted (d # ds)"
    and "\<forall>r \<in> set (c # cs). valid_range r \<and> below_max r"
  shows "merge_loop c cs [] = merge_loop d ds []"
proof (rule canonical_unique)
  have set: "set (c # cs) = set (d # ds)"
    using assms(1) by (metis set_mset_mset)
  show "canonical (merge_loop c cs [])"
    using assms(2,4) by (rule merge_loop_canonical [rotated])
  show "canonical (merge_loop d ds [])"
    using assms(3,4) set by (intro merge_loop_canonical) auto
  have "coll_set (merge_loop c cs []) = coll_set (c # cs)"
    using assms(2,4) by (subst merge_loop_set) auto
  also have "\<dots> = coll_set (d # ds)"
    using set by (simp only: coll_set_def)
  also have "\<dots> = coll_set (merge_loop d ds [])"
    using assms(3,4) set by (subst merge_loop_set) auto
  finally show "coll_set (merge_loop c cs []) = coll_set (merge_loop d ds [])" .
qed

section \<open>Ranges in any order\<close>

text \<open>
  A range list read back from the database is the normal form in some order. Deleting needs no more
  than that: the ranges are pairwise separated.
\<close>

definition apart :: "TRange list \<Rightarrow> bool" where
  "apart rs \<longleftrightarrow>
     (\<forall>r \<in> set rs. valid_range r) \<and> sorted_wrt (\<lambda>a b. separated a b \<or> separated b a) rs"

lemma apart_simps [simp, range_simps]:
  "apart []"
  "apart (r # rs) \<longleftrightarrow>
     valid_range r \<and> (\<forall>s \<in> set rs. separated r s \<or> separated s r) \<and> apart rs"
  by (auto simp: apart_def)

lemma canonical_apart: "canonical rs \<Longrightarrow> apart rs"
  by (induction rs) auto

lemma apart_distinct: "apart rs \<Longrightarrow> distinct rs"
  by (induction rs) (auto simp: separated_def valid_range_nat)

lemma canonical_distinct: "canonical rs \<Longrightarrow> distinct rs"
  by (intro apart_distinct canonical_apart)

lemma apart_set:
  assumes "apart xs" and "distinct ys" and "set ys = set xs"
  shows "apart ys"
proof -
  have sep: "separated a b \<or> separated b a" if "a \<in> set xs" "b \<in> set xs" "a \<noteq> b" for a b
    using assms(1) that by (induction xs) auto
  have "sorted_wrt (\<lambda>a b. separated a b \<or> separated b a) ys"
    unfolding sorted_wrt_iff_nth_less
  proof (intro allI impI)
    fix i j assume ij: "i < j" "j < length ys"
    then have "ys ! i \<in> set xs" "ys ! j \<in> set xs" "ys ! i \<noteq> ys ! j"
      using assms(2,3) by (simp_all add: nth_eq_iff_index_eq flip: assms(3))
    then show "separated (ys ! i) (ys ! j) \<or> separated (ys ! j) (ys ! i)" by (rule sep)
  qed
  then show ?thesis using assms(1,3) by (simp add: apart_def)
qed

lemma apart_canonical_set: "apart rs \<Longrightarrow> \<exists>cs. canonical cs \<and> set cs = set rs"
proof (induction rs)
  case (Cons r rs)
  then obtain cs where cs: "canonical cs" "set cs = set rs" by auto
  let ?lo = "filter (\<lambda>s. separated s r) cs" and ?hi = "filter (\<lambda>s. \<not> separated s r) cs"
  have r: "valid_range r" and sep: "\<forall>s \<in> set cs. separated r s \<or> separated s r"
    using Cons.prems cs(2) by auto
  have sub: "canonical (filter P cs)" for P
    using cs(1) by (auto simp: canonical_def sorted_wrt_filter)
  have "\<forall>a \<in> set ?lo. \<forall>b \<in> set ?hi. separated a b"
    using sep r cs(1) by (fastforce simp: separated_def canonical_def valid_range_nat)
  then have "canonical (?lo @ r # ?hi)"
    using sub sep r by (auto simp: canonical_def sorted_wrt_append_iff)
  moreover have "set (?lo @ r # ?hi) = set (r # rs)"
    using cs(2) by auto
  ultimately show ?case by blast
qed auto

lemma apart_subset_iff:
  assumes "apart xs" and "valid_range r"
  shows "range_set r \<subseteq> coll_set xs \<longleftrightarrow> (\<exists>x \<in> set xs. range_set r \<subseteq> range_set x)"
proof -
  obtain cs where "canonical cs" "set cs = set xs"
    using apart_canonical_set [OF assms(1)] by blast
  then show ?thesis
    using canonical_subset_iff [of cs r] assms(2) by (simp add: coll_set_def)
qed

lemma apart_disjoint:
  assumes "apart (x # xs)"
  shows "range_set x \<inter> coll_set xs = {}"
  using assms by (fastforce simp: coll_set_def range_set_def separated_def)

lemma delete_loop_apart:
  assumes "apart xs" and "valid_range r" and "delete_loop r xs = Some out"
  shows "coll_set out = coll_set xs - range_set r \<and> apart out \<and>
           (\<forall>y \<in> set out. \<exists>x \<in> set xs. unat (dwStart x) \<le> unat (dwStart y) \<and>
                                   unat (dwEnd y) \<le> unat (dwEnd x))"
  using assms(1,3)
proof (induction xs arbitrary: out)
  case (Cons x xs)
  have x: "valid_range x" "\<forall>s \<in> set xs. separated x s \<or> separated s x" "apart xs"
    "range_set x \<inter> coll_set xs = {}"
    using Cons.prems(1) apart_disjoint by auto
  show ?case
  proof (cases "range_set r \<subseteq> range_set x")
    case True
    obtain ys where ys: "out = ys @ xs" "coll_set ys = range_set x - range_set r" "apart ys"
      and inx: "\<forall>y \<in> set ys. unat (dwStart x) \<le> unat (dwStart y) \<and>
                  unat (dwEnd y) \<le> unat (dwEnd x)"
      using delete_head [OF x(1) assms(2) True Cons.prems(2)] canonical_apart by blast
    have "apart out"
      using ys x inx
      by (fastforce simp: apart_def sorted_wrt_append_iff separated_def)
    moreover have "coll_set out = coll_set (x # xs) - range_set r"
      using ys x(4) True by auto
    ultimately show ?thesis
      using ys(1) inx by force
  next
    case False
    obtain out' where out': "delete_loop r xs = Some out'" "out = x # out'"
      using Cons.prems(2) delete_loop_notin_head [OF assms(2) False] by auto
    note ih = Cons.IH [OF x(3) out'(1)]
    have sep: "\<forall>y \<in> set out'. separated x y \<or> separated y x"
      using ih x(2) by (fastforce simp: separated_def)
    have "range_set r \<subseteq> coll_set xs"
      using out'(1) delete_loop_None_iff [OF assms(2), of xs]
      by (auto simp: coll_set_def)
    then have "coll_set out = coll_set (x # xs) - range_set r"
      using ih out'(2) x(4) by auto
    then show ?thesis
      using ih sep x(1) out'(2) by auto
  qed
qed simp

lemma DeleteRange_cases:
  assumes "apart (m_vecRange ra)" and "valid_range r" and "m_vecRange ra \<noteq> []"
  shows "DeleteRange r ra = (0, ra\<lparr>m_vecMergedRange := the (delete_loop r (m_vecRange ra))\<rparr>) \<and>
            range_set r \<subseteq> coll_set (m_vecRange ra) \<and>
            delete_loop r (m_vecRange ra) = Some (the (delete_loop r (m_vecRange ra))) \<or>
         DeleteRange r ra = (- 1, ra\<lparr>m_vecMergedRange := m_vecRange ra\<rparr>) \<and>
            \<not> range_set r \<subseteq> coll_set (m_vecRange ra)"
proof -
  have none: "delete_loop r (m_vecRange ra) = None \<longleftrightarrow> \<not> range_set r \<subseteq> coll_set (m_vecRange ra)"
    using delete_loop_None_iff [OF assms(2)] apart_subset_iff [OF assms(1,2)] by blast
  have nlt: "\<not> dwEnd r < dwStart r"
    using assms(2) by (simp add: valid_range_def not_less)
  show ?thesis
    using none nlt assms(3)
    by (cases "delete_loop r (m_vecRange ra)") (auto simp: DeleteRange_def)
qed

section \<open>The way the containers use the class\<close>

text \<open>
  Every user first empties the shared instance, so what it held before does not matter, and then
  adds its own ranges; \<open>AddRange\<close> silently drops a range whose start is behind its end.
\<close>

lemma RemoveAll_init: "snd (RemoveAll ra) = ra_init"
  by (simp add: RemoveAll_def ra_init_def)

definition ra_load :: "TRange list \<Rightarrow> range_arith" where
  "ra_load rs = foldl (\<lambda>ra r. snd (AddRange r ra)) (snd (RemoveAll ra_init)) rs"

lemma AddRange_valid:
  "valid_range r \<Longrightarrow> AddRange r ra = (0, ra\<lparr>m_vecRange := m_vecRange ra @ [r]\<rparr>)"
  by (auto simp: AddRange_def valid_range_def)

lemma ra_load_valid:
  assumes "\<forall>r \<in> set rs. valid_range r"
  shows "ra_load rs = \<lparr>m_vecRange = rs, m_vecMergedRange = []\<rparr>"
proof -
  have "foldl (\<lambda>ra r. snd (AddRange r ra)) \<lparr>m_vecRange = acc, m_vecMergedRange = []\<rparr> rs
          = \<lparr>m_vecRange = acc @ rs, m_vecMergedRange = []\<rparr>" for acc
    using assms by (induction rs arbitrary: acc) (auto simp: AddRange_valid)
  then show ?thesis
    by (simp add: ra_load_def RemoveAll_init ra_init_def)
qed

definition ra_added :: "TRange list \<Rightarrow> TRange \<Rightarrow> range_arith" where
  "ra_added rs r = snd (MergeSortColl (snd (AddRange r (ra_load rs))))"

lemma ra_added_merges:
  assumes "\<forall>x \<in> set (r # rs). valid_range x"
  shows "coll_set (GetMergedRangeColl (ra_added rs r)) = coll_set rs \<union> range_set r"
    and "GetMergedRangeColl (ra_added rs r) \<noteq> []"
    and "\<forall>x \<in> set (r # rs). below_max x \<Longrightarrow> canonical (GetMergedRangeColl (ra_added rs r))"
proof -
  let ?ra = "\<lparr>m_vecRange = rs @ [r], m_vecMergedRange = []\<rparr>"
  have ra: "ra_added rs r = snd (MergeSortColl ?ra)"
    using assms by (simp add: ra_added_def ra_load_valid AddRange_valid)
  have val: "\<forall>x \<in> set (m_vecRange ?ra). valid_range x"
    using assms by auto
  note m = MergeSortColl_merges [of ?ra, OF _ _ val]
  show set: "coll_set (GetMergedRangeColl (ra_added rs r)) = coll_set rs \<union> range_set r"
    using m(2) by (simp add: ra GetMergedRangeColl_def)
  show "GetMergedRangeColl (ra_added rs r) \<noteq> []"
    using set range_set_nonempty [of r] assms by auto
  show "canonical (GetMergedRangeColl (ra_added rs r))" if "\<forall>x \<in> set (r # rs). below_max x"
    using m(3) that by (simp add: ra GetMergedRangeColl_def)
qed

lemma DeleteRange_loaded:
  assumes "apart rs" and "valid_range r" and "rs \<noteq> []"
  shows "range_set r \<subseteq> coll_set rs \<Longrightarrow> fst (DeleteRange r (ra_load rs)) = 0"
    and "\<not> range_set r \<subseteq> coll_set rs \<Longrightarrow> fst (DeleteRange r (ra_load rs)) = - 1"
    and "range_set r \<subseteq> coll_set rs \<Longrightarrow>
           coll_set (GetMergedRangeColl (snd (DeleteRange r (ra_load rs)))) = coll_set rs - range_set r"
    and "range_set r \<subseteq> coll_set rs \<Longrightarrow>
           apart (GetMergedRangeColl (snd (DeleteRange r (ra_load rs))))"
    and "range_set r \<subseteq> coll_set rs \<Longrightarrow> canonical rs \<Longrightarrow>
           canonical (GetMergedRangeColl (snd (DeleteRange r (ra_load rs))))"
proof -
  have load: "ra_load rs = \<lparr>m_vecRange = rs, m_vecMergedRange = []\<rparr>"
    using assms(1) by (intro ra_load_valid) (simp add: apart_def)
  have c: "apart (m_vecRange (ra_load rs))" "m_vecRange (ra_load rs) \<noteq> []"
    using assms by (simp_all add: load)
  note d = DeleteRange_cases [OF c(1) assms(2) c(2)]
  show "range_set r \<subseteq> coll_set rs \<Longrightarrow> fst (DeleteRange r (ra_load rs)) = 0"
    and "\<not> range_set r \<subseteq> coll_set rs \<Longrightarrow> fst (DeleteRange r (ra_load rs)) = - 1"
    using d by (auto simp: load)
  assume sub: "range_set r \<subseteq> coll_set rs"
  obtain out where out: "delete_loop r rs = Some out"
    and merged: "GetMergedRangeColl (snd (DeleteRange r (ra_load rs))) = out"
    using d sub by (auto simp: load GetMergedRangeColl_def)
  show "coll_set (GetMergedRangeColl (snd (DeleteRange r (ra_load rs)))) = coll_set rs - range_set r"
    and "apart (GetMergedRangeColl (snd (DeleteRange r (ra_load rs))))"
    using delete_loop_apart [OF assms(1,2) out] merged by simp_all
  show "canonical (GetMergedRangeColl (snd (DeleteRange r (ra_load rs))))" if "canonical rs"
    using delete_loop_Some [OF that assms(2) out] merged by simp
qed

text \<open>A valid range whose numbers are bounded does not end at the last 32-bit number.\<close>

lemma below_max_bounded:
  assumes "valid_range x" and "range_set x \<subseteq> {lo..hi}" and "hi < 2 ^ 32 - 1"
  shows "below_max x"
proof -
  have "unat (dwEnd x) \<in> range_set x"
    using assms(1) by (simp add: range_set_def valid_range_nat)
  moreover have "unat (- 1 :: uint32) = 2 ^ 32 - 1"
    by (simp add: unsigned_minus_1_eq_mask mask_eq_exp_minus_1)
  ultimately have "unat (dwEnd x) < unat (- 1 :: uint32)"
    using assms(2,3) by (metis atLeastAtMost_iff order_le_less_trans subsetD)
  then show ?thesis
    using unat_less_neq_max by (auto simp: below_max_def)
qed

lemma coll_set_member: "x \<in> set rs \<Longrightarrow> range_set x \<subseteq> coll_set rs"
  by (auto simp: coll_set_def)

lemma added_canonical:
  assumes "apart rs" and "coll_set rs \<subseteq> {lo..hi}" and "valid_range r" and "range_set r \<subseteq> {lo..hi}"
    and "hi < 2 ^ 32 - 1"
  shows "canonical (GetMergedRangeColl (ra_added rs r))"
proof (rule ra_added_merges(3))
  have rs: "\<forall>x \<in> set rs. valid_range x" using assms(1) by (simp add: apart_def)
  then show "\<forall>x \<in> set (r # rs). valid_range x" using assms(3) by simp
  have "below_max x" if "x \<in> set (r # rs)" for x
  proof (rule below_max_bounded [where lo = lo and hi = hi])
    show "valid_range x" using that rs assms(3) by auto
    show "range_set x \<subseteq> {lo..hi}"
      using that assms(2,4) coll_set_member [of x rs] by auto
  qed (rule assms(5))
  then show "\<forall>x \<in> set (r # rs). below_max x" by blast
qed

lemma added_set:
  assumes "apart rs" and "valid_range r"
  shows "coll_set (GetMergedRangeColl (ra_added rs r)) = coll_set rs \<union> range_set r"
    and "GetMergedRangeColl (ra_added rs r) \<noteq> []"
  using assms ra_added_merges(1,2) [of r rs] by (auto simp: apart_def)

lemma GetMergedRangeColl_init [simp]: "GetMergedRangeColl ra_init = []"
  by (simp add: GetMergedRangeColl_def ra_init_def)

lemma DeleteRange_empty: "valid_range r \<Longrightarrow> DeleteRange r (ra_load []) = (0, ra_init)"
  by (auto simp: ra_load_def RemoveAll_init ra_init_def DeleteRange_def valid_range_def)

section \<open>Properties\<close>

text \<open>C36. \<open>MergeSortColl\<close> on an instance that is loaded with at least one range, where every range has its start
  not after its end and none ends at the last 32-bit number, keeps exactly the numbers of the ranges and leaves
  them in normal form: increasing, with a gap between neighbours. The normal form is unique, so the result depends on the set of numbers alone.\<close>

theorem MergeSortColl_normal_form:
  assumes "rs \<noteq> []" and "\<forall>r \<in> set rs. dwStart r \<le> dwEnd r \<and> dwEnd r \<noteq> 0xFFFFFFFF"
  shows "\<exists>out. MergeSortColl \<lparr>m_vecRange = rs, m_vecMergedRange = []\<rparr> =
                 (0, \<lparr>m_vecRange = sort_by CompareRange [] rs, m_vecMergedRange = out\<rparr>) \<and>
               coll_set out = coll_set rs \<and> canonical out \<and>
               (\<forall>ys. canonical ys \<longrightarrow> coll_set ys = coll_set rs \<longrightarrow> ys = out)"
proof -
  let ?ra = "\<lparr>m_vecRange = rs, m_vecMergedRange = []\<rparr>"
  obtain x xs where xs: "rs = x # xs" using assms(1) by (cases rs) auto
  obtain cur ts where s: "sort_by CompareRange [] (x # xs) = cur # ts"
    and run: "MergeSortColl ?ra = (0, ?ra\<lparr>m_vecRange := cur # ts,
                                      m_vecMergedRange := merge_loop cur ts []\<rparr>)"
    by (rule MergeSortColl_run [of ?ra x xs]) (simp_all add: xs)
  have max: "(- 1 :: uint32) = 0xFFFFFFFF" by simp
  have val: "\<forall>r \<in> set (m_vecRange ?ra). valid_range r" "\<forall>r \<in> set (m_vecRange ?ra). below_max r"
    using assms(2) unfolding below_max_def max valid_range_def by auto
  have m: "coll_set (merge_loop cur ts []) = coll_set rs" "canonical (merge_loop cur ts [])"
    using MergeSortColl_merges(2,3) [of ?ra, OF _ _ val(1)] val(2) assms(1) run by simp_all
  have "MergeSortColl ?ra = (0, \<lparr>m_vecRange = sort_by CompareRange [] rs,
                                 m_vecMergedRange = merge_loop cur ts []\<rparr>)"
    using run s xs by simp
  moreover have "\<forall>ys. canonical ys \<longrightarrow> coll_set ys = coll_set rs \<longrightarrow> ys = merge_loop cur ts []"
    using canonical_unique [OF _ m(2)] m(1) by simp
  ultimately show ?thesis using m by (intro exI conjI)
qed

theorem MergeSortColl_normal_form_witness:
  "\<exists>out. MergeSortColl \<lparr>m_vecRange = [\<lparr>dwStart = 7, dwEnd = 9\<rparr>, \<lparr>dwStart = 1, dwEnd = 6\<rparr>],
                          m_vecMergedRange = []\<rparr> =
           (0, \<lparr>m_vecRange = [\<lparr>dwStart = 1, dwEnd = 6\<rparr>, \<lparr>dwStart = 7, dwEnd = 9\<rparr>],
                m_vecMergedRange = out\<rparr>) \<and> out = [\<lparr>dwStart = 1, dwEnd = 9\<rparr>]"
proof -
  let ?rs = "[\<lparr>dwStart = 7, dwEnd = 9\<rparr>, \<lparr>dwStart = 1, dwEnd = 6\<rparr>] :: TRange list"
  obtain out where "MergeSortColl \<lparr>m_vecRange = ?rs, m_vecMergedRange = []\<rparr> =
      (0, \<lparr>m_vecRange = sort_by CompareRange [] ?rs, m_vecMergedRange = out\<rparr>)"
    and uniq: "\<forall>ys. canonical ys \<longrightarrow> coll_set ys = coll_set ?rs \<longrightarrow> ys = out"
    using MergeSortColl_normal_form [of ?rs] by auto
  moreover have "[\<lparr>dwStart = 1, dwEnd = 9\<rparr>] = out"
  proof -
    have "{1..9} = {7..9} \<union> {1..(6::nat)}" by auto
    then show ?thesis using uniq by (simp add: range_set_def valid_range_def)
  qed
  ultimately show ?thesis by (simp add: CompareRange_def)
qed

text \<open>C37. \<open>DeleteRange\<close> of a range whose start is not after its end, on a non-empty collection of pairwise separated
  ranges in any order: it succeeds exactly when the collection holds every number of the range, and then the merged collection holds the others and
  its ranges are again pairwise separated; otherwise it returns -1 with the collection unchanged.\<close>

theorem DeleteRange_difference:
  assumes "apart rs" and "rs \<noteq> []" and "dwStart r \<le> dwEnd r"
  shows "\<exists>out. DeleteRange r \<lparr>m_vecRange = rs, m_vecMergedRange = m\<rparr> =
                 (if range_set r \<subseteq> coll_set rs then 0 else - 1,
                  \<lparr>m_vecRange = rs, m_vecMergedRange = out\<rparr>) \<and> apart out \<and>
               coll_set out = (if range_set r \<subseteq> coll_set rs then coll_set rs - range_set r
                               else coll_set rs)"
proof -
  let ?ra = "\<lparr>m_vecRange = rs, m_vecMergedRange = m\<rparr>"
  have r: "valid_range r" using assms(3) by (simp add: valid_range_def)
  have "apart (m_vecRange ?ra)" "m_vecRange ?ra \<noteq> []" using assms by simp_all
  from DeleteRange_cases [OF this(1) r this(2)] show ?thesis
  proof
    assume d: "DeleteRange r ?ra = (0, ?ra\<lparr>m_vecMergedRange := the (delete_loop r (m_vecRange ?ra))\<rparr>) \<and>
      range_set r \<subseteq> coll_set (m_vecRange ?ra) \<and>
      delete_loop r (m_vecRange ?ra) = Some (the (delete_loop r (m_vecRange ?ra)))"
    then show ?thesis
      using delete_loop_apart [OF assms(1) r, of "the (delete_loop r rs)"]
      by (intro exI [of _ "the (delete_loop r rs)"]) simp
  next
    assume "DeleteRange r ?ra = (- 1, ?ra\<lparr>m_vecMergedRange := m_vecRange ?ra\<rparr>) \<and>
      \<not> range_set r \<subseteq> coll_set (m_vecRange ?ra)"
    then show ?thesis
      using assms(1) by (intro exI [of _ rs]) simp
  qed
qed

theorem DeleteRange_difference_witness:
  "\<exists>out. DeleteRange \<lparr>dwStart = 4, dwEnd = 5\<rparr>
           \<lparr>m_vecRange = [\<lparr>dwStart = 20, dwEnd = 30\<rparr>, \<lparr>dwStart = 1, dwEnd = 9\<rparr>],
            m_vecMergedRange = []\<rparr> =
           (0, \<lparr>m_vecRange = [\<lparr>dwStart = 20, dwEnd = 30\<rparr>, \<lparr>dwStart = 1, dwEnd = 9\<rparr>],
                m_vecMergedRange = out\<rparr>) \<and> coll_set out = {20..30} \<union> {1..3} \<union> {6..9}"
proof -
  have "{20..30} \<union> {1..9} - {4..5} = {20..30} \<union> {1..3} \<union> {6..(9::nat)}" by auto
  moreover have "{4..5} \<subseteq> {20..30} \<union> {1..(9::nat)}" by auto
  ultimately show ?thesis
    using DeleteRange_difference [of "[\<lparr>dwStart = 20, dwEnd = 30\<rparr>, \<lparr>dwStart = 1, dwEnd = 9\<rparr>]"
        "\<lparr>dwStart = 4, dwEnd = 5\<rparr>" "[]"]
    by (auto simp: range_set_def valid_range_def separated_def)
qed

text \<open>The test for touching ranges computes \<open>dwEnd + 1\<close> in 32 bits, so it misses every overlap
  with a range that ends at 0xFFFFFFFF: merging 1 to 0xFFFFFFFF with any range inside it that does not
  start at 0 leaves both in the merged collection, which then is not in normal form.\<close>

theorem MergeSortColl_wraps_around:
  assumes "1 < s" and "s \<le> e"
  shows "m_vecMergedRange (snd (MergeSortColl
           \<lparr>m_vecRange = [\<lparr>dwStart = 1, dwEnd = 0xFFFFFFFF\<rparr>, \<lparr>dwStart = s, dwEnd = e\<rparr>],
            m_vecMergedRange = []\<rparr>)) =
         [\<lparr>dwStart = 1, dwEnd = 0xFFFFFFFF\<rparr>, \<lparr>dwStart = s, dwEnd = e\<rparr>]"
proof -
  have "\<not> s \<le> 1" "\<not> e \<le> 1" "0 < s"
    using assms by (auto simp: not_le word_order_nat)
  moreover have "\<not> IsAssociationRange \<lparr>dwStart = 1, dwEnd = 0xFFFFFFFF\<rparr> \<lparr>dwStart = s, dwEnd = e\<rparr>"
  proof -
    have "dwEnd \<lparr>dwStart = 1, dwEnd = 0xFFFFFFFF\<rparr> + 1 = (0 :: uint32)" by simp
    then show ?thesis using \<open>0 < s\<close> by (simp only: IsAssociationRange_def TRange.simps simp_thms)
  qed
  ultimately show ?thesis
    by (simp add: MergeSortColl_def SortColl_def CompareRange_def Let_def)
qed

theorem MergeSortColl_wraps_around_witness:
  "m_vecMergedRange (snd (MergeSortColl
     \<lparr>m_vecRange = [\<lparr>dwStart = 1, dwEnd = 0xFFFFFFFF\<rparr>, \<lparr>dwStart = 5, dwEnd = 9\<rparr>],
      m_vecMergedRange = []\<rparr>)) =
     [\<lparr>dwStart = 1, dwEnd = 0xFFFFFFFF\<rparr>, \<lparr>dwStart = 5, dwEnd = 9\<rparr>]"
  using MergeSortColl_wraps_around [of 5 9] by simp

end
