(* ===== verification/RangeContainer.thy ===== *)
theory RangeContainer
  imports RangeArithm
begin

text \<open>
  The contract of the range containers (\<open>CVlanRange\<close>, \<open>CSegmentRange\<close>, \<open>CIPv4AddrRange\<close>,
  \<open>CMACRange\<close>): a container stands for a set of numbers, adding a range is union, deleting one is
  difference and is refused unless the container holds the whole range. The managers rely on the
  contract only, and the history lemma of the locale is proved once for all four.
\<close>

section \<open>Histories of operations\<close>

datatype 'r range_op = OpAdd 'r | OpDel 'r

fun op_arg :: "'r range_op \<Rightarrow> 'r" where
  "op_arg (OpAdd r) = r"
| "op_arg (OpDel r) = r"

text \<open>The specification: sets of numbers, where a delete that is not covered does nothing.\<close>

fun spec_op :: "('r \<Rightarrow> bool) \<Rightarrow> ('r \<Rightarrow> nat set) \<Rightarrow> 'r range_op \<Rightarrow> nat set \<Rightarrow> nat set" where
  "spec_op ok den (OpAdd r) A = (if ok r then A \<union> den r else A)"
| "spec_op ok den (OpDel r) A = (if ok r \<and> den r \<subseteq> A then A - den r else A)"

fun spec_run :: "('r \<Rightarrow> bool) \<Rightarrow> ('r \<Rightarrow> nat set) \<Rightarrow> 'r range_op list \<Rightarrow> nat set \<Rightarrow> nat set" where
  "spec_run ok den [] A = A"
| "spec_run ok den (x # xs) A = spec_run ok den xs (spec_op ok den x A)"

fun run_op ::
  "('r \<Rightarrow> 's \<Rightarrow> rc \<times> 's) \<Rightarrow> ('r \<Rightarrow> 's \<Rightarrow> rc \<times> 's) \<Rightarrow> 'r range_op \<Rightarrow> 's \<Rightarrow> 's" where
  "run_op add del (OpAdd r) s = snd (add r s)"
| "run_op add del (OpDel r) s = snd (del r s)"

fun run_ops ::
  "('r \<Rightarrow> 's \<Rightarrow> rc \<times> 's) \<Rightarrow> ('r \<Rightarrow> 's \<Rightarrow> rc \<times> 's) \<Rightarrow> 'r range_op list \<Rightarrow> 's \<Rightarrow> 's" where
  "run_ops add del [] s = s"
| "run_ops add del (x # xs) s = run_ops add del xs (run_op add del x s)"

text \<open>
  The return codes of a history, and those that the specification gives: 0 for an operation that is carried
  out, -1 for one that is refused. What the deletion from an empty container returns differs between the containers
  and is the argument \<open>e\<close>.
\<close>

fun run_codes ::
  "('r \<Rightarrow> 's \<Rightarrow> rc \<times> 's) \<Rightarrow> ('r \<Rightarrow> 's \<Rightarrow> rc \<times> 's) \<Rightarrow> 'r range_op list \<Rightarrow> 's \<Rightarrow> rc list" where
  "run_codes add del [] s = []"
| "run_codes add del (x # xs) s =
     fst (case x of OpAdd r \<Rightarrow> add r s | OpDel r \<Rightarrow> del r s) # run_codes add del xs (run_op add del x s)"

fun spec_code :: "('r \<Rightarrow> bool) \<Rightarrow> ('r \<Rightarrow> nat set) \<Rightarrow> rc \<Rightarrow> 'r range_op \<Rightarrow> nat set \<Rightarrow> rc" where
  "spec_code ok den e (OpAdd r) A = (if ok r then 0 else - 1)"
| "spec_code ok den e (OpDel r) A =
     (if \<not> ok r then - 1 else if den r \<subseteq> A then 0 else if A = {} then e else - 1)"

fun spec_codes :: "('r \<Rightarrow> bool) \<Rightarrow> ('r \<Rightarrow> nat set) \<Rightarrow> rc \<Rightarrow> 'r range_op list \<Rightarrow> nat set \<Rightarrow> rc list" where
  "spec_codes ok den e [] A = []"
| "spec_codes ok den e (x # xs) A = spec_code ok den e x A # spec_codes ok den e xs (spec_op ok den x A)"

section \<open>The contract\<close>

locale range_container =
  fixes ok :: "'r \<Rightarrow> bool"
    and den :: "'r \<Rightarrow> nat set"
    and inv :: "'s \<Rightarrow> bool"
    and abs :: "'s \<Rightarrow> nat set"
    and add :: "'r \<Rightarrow> 's \<Rightarrow> rc \<times> 's"
    and del :: "'r \<Rightarrow> 's \<Rightarrow> rc \<times> 's"
  assumes add_refused: "\<lbrakk>inv s; \<not> ok r\<rbrakk> \<Longrightarrow> add r s = (- 1, s)"
    and add_done: "\<lbrakk>inv s; ok r\<rbrakk> \<Longrightarrow>
      fst (add r s) = 0 \<and> inv (snd (add r s)) \<and> abs (snd (add r s)) = abs s \<union> den r"
    and del_refused: "\<lbrakk>inv s; \<not> ok r\<rbrakk> \<Longrightarrow> del r s = (- 1, s)"
    and del_done: "\<lbrakk>inv s; ok r; den r \<subseteq> abs s\<rbrakk> \<Longrightarrow>
      fst (del r s) = 0 \<and> inv (snd (del r s)) \<and> abs (snd (del r s)) = abs s - den r"
    and del_missing: "\<lbrakk>inv s; ok r; \<not> den r \<subseteq> abs s\<rbrakk> \<Longrightarrow>
      snd (del r s) = s \<and> (abs s \<noteq> {} \<longrightarrow> fst (del r s) = - 1)"
begin

lemma op_refines:
  "inv s \<Longrightarrow> inv (run_op add del x s) \<and> abs (run_op add del x s) = spec_op ok den x (abs s)"
proof (cases x)
  case (OpAdd r)
  then show "inv s \<Longrightarrow> ?thesis"
    by (cases "ok r") (simp_all add: add_refused add_done)
next
  case (OpDel r)
  then show "inv s \<Longrightarrow> ?thesis"
    by (cases "ok r"; cases "den r \<subseteq> abs s") (simp_all add: del_refused del_done del_missing)
qed

lemma run_refines:
  "inv s \<Longrightarrow>
     inv (run_ops add del xs s) \<and> abs (run_ops add del xs s) = spec_run ok den xs (abs s)"
  by (induction xs arbitrary: s) (simp_all add: op_refines)

lemma run_codes_refine:
  assumes "inv s" and empty: "\<And>r s. inv s \<Longrightarrow> ok r \<Longrightarrow> \<not> den r \<subseteq> abs s \<Longrightarrow> abs s = {} \<Longrightarrow> fst (del r s) = e"
  shows "run_codes add del xs s = spec_codes ok den e xs (abs s)"
  using assms(1)
proof (induction xs arbitrary: s)
  case (Cons x xs)
  have "fst (case x of OpAdd r \<Rightarrow> add r s | OpDel r \<Rightarrow> del r s) = spec_code ok den e x (abs s)"
    using Cons.prems add_refused add_done del_refused del_done del_missing empty by (cases x) auto
  then show ?case using Cons op_refines by simp
qed simp

text \<open>Deleting what was just added undoes the addition when the numbers were free before.\<close>

lemma add_then_del:
  assumes "inv s" and "ok r" and "abs s \<inter> den r = {}"
  shows "fst (del r (snd (add r s))) = 0 \<and> abs (snd (del r (snd (add r s)))) = abs s"
proof -
  note a = add_done [OF assms(1,2)]
  have "den r \<subseteq> abs (snd (add r s))" using a by simp
  from del_done [OF _ assms(2) this] a assms(3) show ?thesis by auto
qed

end

end
