(* ===== verification/VlanRange.thy ===== *)
theory VlanRange
  imports RangeContainer
begin

text \<open>
  \<open>CVlanRange\<close> (\<open>vlan_range.h/.cpp\<close>) and \<open>CSegmentRange\<close> (\<open>segment_range.h/.cpp\<close>): the
  containers of VLAN and segment ranges. The state is the vector of the class; the shared
  \<open>CRangeArithmetic\<close> instance is emptied before each use (\<open>ra_load\<close>).
\<close>

section \<open>VLAN ranges\<close>

record TVlanRangeItem =
  dwVlanIDStart :: uint32
  dwVlanIDEnd :: uint32

definition VNET_MIN_VLAN_ID :: uint32 where "VNET_MIN_VLAN_ID = 1"
definition VNET_MAX_MAP_VLAN_ID :: uint32 where "VNET_MAX_MAP_VLAN_ID = 4094"

definition IsValidVlanRange :: "TVlanRangeItem \<Rightarrow> bool" where
  "IsValidVlanRange r \<longleftrightarrow>
     \<not> (dwVlanIDStart r < VNET_MIN_VLAN_ID \<or> dwVlanIDStart r > VNET_MAX_MAP_VLAN_ID \<or>
        dwVlanIDEnd r < VNET_MIN_VLAN_ID \<or> dwVlanIDEnd r > VNET_MAX_MAP_VLAN_ID \<or>
        dwVlanIDStart r > dwVlanIDEnd r)"

definition vlan_to_range :: "TVlanRangeItem \<Rightarrow> TRange" where
  "vlan_to_range r = \<lparr>dwStart = dwVlanIDStart r, dwEnd = dwVlanIDEnd r\<rparr>"

definition vlan_of_range :: "TRange \<Rightarrow> TVlanRangeItem" where
  "vlan_of_range r = \<lparr>dwVlanIDStart = dwStart r, dwVlanIDEnd = dwEnd r\<rparr>"

definition CVlanRange_AddValidRange ::
  "TVlanRangeItem \<Rightarrow> TVlanRangeItem list \<Rightarrow> rc \<times> TVlanRangeItem list" where
  "CVlanRange_AddValidRange r s = (0, s @ [r])"

definition CVlanRange_AddRange ::
  "TVlanRangeItem \<Rightarrow> TVlanRangeItem list \<Rightarrow> rc \<times> TVlanRangeItem list" where
  "CVlanRange_AddRange r s =
     (if \<not> IsValidVlanRange r then (- 1, s)
      else if s = [] then (0, s @ [r])
      else let ra = ra_load (map vlan_to_range s);
               ra1 = snd (AddRange (vlan_to_range r) ra);
               ra2 = snd (MergeSortColl ra1)
           in if GetMergedRangeColl ra2 = [] then (- 1, s)
              else (0, map vlan_of_range (GetMergedRangeColl ra2)))"

definition CVlanRange_DelRange ::
  "TVlanRangeItem \<Rightarrow> TVlanRangeItem list \<Rightarrow> rc \<times> TVlanRangeItem list" where
  "CVlanRange_DelRange r s =
     (if \<not> IsValidVlanRange r then (- 1, s)
      else let ra = ra_load (map vlan_to_range s);
               (nRet, ra1) = DeleteRange (vlan_to_range r) ra
           in if 0 \<noteq> nRet then (- 1, s)
              else if GetMergedRangeColl ra1 = [] then (0, [])
              else (0, map vlan_of_range (GetMergedRangeColl ra1)))"

section \<open>Segment ranges\<close>

record TSegmentRangeItem =
  dwSegmentIDStart :: uint32
  dwSegmentIDEnd :: uint32

definition VNET_MIN_SEGMENT_ID :: uint32 where "VNET_MIN_SEGMENT_ID = 1"
definition VNET_MAX_MAP_SEGMENT_ID :: uint32 where "VNET_MAX_MAP_SEGMENT_ID = 16000000"

definition IsValidSegmentRange :: "TSegmentRangeItem \<Rightarrow> bool" where
  "IsValidSegmentRange r \<longleftrightarrow>
     \<not> (dwSegmentIDStart r < VNET_MIN_SEGMENT_ID \<or> dwSegmentIDStart r > VNET_MAX_MAP_SEGMENT_ID \<or>
        dwSegmentIDEnd r < VNET_MIN_SEGMENT_ID \<or> dwSegmentIDEnd r > VNET_MAX_MAP_SEGMENT_ID \<or>
        dwSegmentIDStart r > dwSegmentIDEnd r)"

definition seg_to_range :: "TSegmentRangeItem \<Rightarrow> TRange" where
  "seg_to_range r = \<lparr>dwStart = dwSegmentIDStart r, dwEnd = dwSegmentIDEnd r\<rparr>"

definition seg_of_range :: "TRange \<Rightarrow> TSegmentRangeItem" where
  "seg_of_range r = \<lparr>dwSegmentIDStart = dwStart r, dwSegmentIDEnd = dwEnd r\<rparr>"

definition CSegmentRange_AddValidRange ::
  "TSegmentRangeItem \<Rightarrow> TSegmentRangeItem list \<Rightarrow> rc \<times> TSegmentRangeItem list" where
  "CSegmentRange_AddValidRange r s = (0, s @ [r])"

definition CSegmentRange_AddRange ::
  "TSegmentRangeItem \<Rightarrow> TSegmentRangeItem list \<Rightarrow> rc \<times> TSegmentRangeItem list" where
  "CSegmentRange_AddRange r s =
     (if \<not> IsValidSegmentRange r then (- 1, s)
      else if s = [] then (0, s @ [r])
      else let ra = ra_load (map seg_to_range s);
               ra1 = snd (AddRange (seg_to_range r) ra);
               ra2 = snd (MergeSortColl ra1)
           in if GetMergedRangeColl ra2 = [] then (- 1, s)
              else (0, map seg_of_range (GetMergedRangeColl ra2)))"

definition CSegmentRange_DelRange ::
  "TSegmentRangeItem \<Rightarrow> TSegmentRangeItem list \<Rightarrow> rc \<times> TSegmentRangeItem list" where
  "CSegmentRange_DelRange r s =
     (if \<not> IsValidSegmentRange r then (- 1, s)
      else let ra = ra_load (map seg_to_range s);
               (nRet, ra1) = DeleteRange (seg_to_range r) ra
           in if 0 \<noteq> nRet then (- 1, s)
              else if GetMergedRangeColl ra1 = [] then (0, [])
              else (0, map seg_of_range (GetMergedRangeColl ra1)))"

section \<open>The numbers of a container\<close>

definition vlans :: "TVlanRangeItem list \<Rightarrow> nat set" where
  "vlans s = coll_set (map vlan_to_range s)"

definition vlan_item_set :: "TVlanRangeItem \<Rightarrow> nat set" where
  "vlan_item_set r = {unat (dwVlanIDStart r) .. unat (dwVlanIDEnd r)}"

definition vlan_inv :: "TVlanRangeItem list \<Rightarrow> bool" where
  "vlan_inv s \<longleftrightarrow> apart (map vlan_to_range s) \<and> vlans s \<subseteq> {1..4094}"

definition segments :: "TSegmentRangeItem list \<Rightarrow> nat set" where
  "segments s = coll_set (map seg_to_range s)"

definition seg_item_set :: "TSegmentRangeItem \<Rightarrow> nat set" where
  "seg_item_set r = {unat (dwSegmentIDStart r) .. unat (dwSegmentIDEnd r)}"

definition seg_inv :: "TSegmentRangeItem list \<Rightarrow> bool" where
  "seg_inv s \<longleftrightarrow> apart (map seg_to_range s) \<and> segments s \<subseteq> {1..16000000}"

lemma range_of_item [simp]:
  "vlan_to_range (vlan_of_range x) = x" "vlan_of_range (vlan_to_range r) = r"
  "seg_to_range (seg_of_range x) = x" "seg_of_range (seg_to_range t) = t"
  by (simp_all add: vlan_to_range_def vlan_of_range_def seg_to_range_def seg_of_range_def)

lemma map_range_of_item [simp]:
  "vlan_to_range \<circ> vlan_of_range = id" "seg_to_range \<circ> seg_of_range = id"
  by (auto simp: fun_eq_iff)

lemma item_set_range [simp]:
  "range_set (vlan_to_range r) = vlan_item_set r" "range_set (seg_to_range t) = seg_item_set t"
  by (simp_all add: range_set_def vlan_item_set_def vlan_to_range_def seg_item_set_def
      seg_to_range_def)

lemma IsValidVlanRange_iff:
  "IsValidVlanRange r \<longleftrightarrow> valid_range (vlan_to_range r) \<and> vlan_item_set r \<subseteq> {1..4094}"
  by (auto simp: IsValidVlanRange_def valid_range_def vlan_to_range_def vlan_item_set_def
      VNET_MIN_VLAN_ID_def VNET_MAX_MAP_VLAN_ID_def word_order_nat)

lemma IsValidSegmentRange_iff:
  "IsValidSegmentRange r \<longleftrightarrow> valid_range (seg_to_range r) \<and> seg_item_set r \<subseteq> {1..16000000}"
  by (auto simp: IsValidSegmentRange_def valid_range_def seg_to_range_def seg_item_set_def
      VNET_MIN_SEGMENT_ID_def VNET_MAX_MAP_SEGMENT_ID_def word_order_nat)

section \<open>The containers keep the contract\<close>

lemma CVlanRange_AddRange_done:
  assumes "vlan_inv s" and "IsValidVlanRange r"
  shows "fst (CVlanRange_AddRange r s) = 0 \<and> vlan_inv (snd (CVlanRange_AddRange r s)) \<and>
         vlans (snd (CVlanRange_AddRange r s)) = vlans s \<union> vlan_item_set r"
proof (cases "s = []")
  case True
  then show ?thesis
    using assms(2) by (auto simp: CVlanRange_AddRange_def IsValidVlanRange_iff vlan_inv_def vlans_def)
next
  case False
  let ?out = "GetMergedRangeColl (ra_added (map vlan_to_range s) (vlan_to_range r))"
  have s: "apart (map vlan_to_range s)" "coll_set (map vlan_to_range s) \<subseteq> {1..4094}"
    and r: "valid_range (vlan_to_range r)" "range_set (vlan_to_range r) \<subseteq> {1..4094}"
    using assms by (auto simp: vlan_inv_def vlans_def IsValidVlanRange_iff)
  note out = added_set [OF s(1) r(1)]
  have "apart ?out"
    using added_canonical [OF s r] by (intro canonical_apart) simp
  moreover have "CVlanRange_AddRange r s = (0, map vlan_of_range ?out)"
    using False assms(2) out(2) by (simp add: CVlanRange_AddRange_def ra_added_def Let_def)
  ultimately show ?thesis
    using out(1) s(2) r(2) by (simp add: vlan_inv_def vlans_def)
qed

lemma CVlanRange_DelRange_done:
  assumes "vlan_inv s" and "IsValidVlanRange r" and "vlan_item_set r \<subseteq> vlans s"
  shows "fst (CVlanRange_DelRange r s) = 0 \<and> vlan_inv (snd (CVlanRange_DelRange r s)) \<and>
         vlans (snd (CVlanRange_DelRange r s)) = vlans s - vlan_item_set r"
proof -
  have s: "apart (map vlan_to_range s)" and r: "valid_range (vlan_to_range r)"
    using assms by (auto simp: vlan_inv_def IsValidVlanRange_iff)
  have ne: "map vlan_to_range s \<noteq> []"
    using assms(3) range_set_nonempty [OF r] by (auto simp: vlans_def)
  have sub: "range_set (vlan_to_range r) \<subseteq> coll_set (map vlan_to_range s)"
    using assms(3) by (simp add: vlans_def)
  note d = DeleteRange_loaded(1,3,4) [OF s r ne sub]
  have "snd (CVlanRange_DelRange r s) =
          map vlan_of_range (GetMergedRangeColl
            (snd (DeleteRange (vlan_to_range r) (ra_load (map vlan_to_range s)))))"
    and "fst (CVlanRange_DelRange r s) = 0"
    using d(1) assms(2) by (simp_all add: CVlanRange_DelRange_def Let_def case_prod_beta)
  then show ?thesis
    using d(2,3) assms(1) by (auto simp: vlan_inv_def vlans_def)
qed

lemma CVlanRange_DelRange_missing:
  assumes "vlan_inv s" and "IsValidVlanRange r" and "\<not> vlan_item_set r \<subseteq> vlans s"
  shows "snd (CVlanRange_DelRange r s) = s \<and>
         fst (CVlanRange_DelRange r s) = (if s = [] then 0 else - 1)"
proof (cases "s = []")
  case True
  then show ?thesis
    using assms(2) by (simp add: CVlanRange_DelRange_def IsValidVlanRange_iff DeleteRange_empty)
next
  case False
  have s: "apart (map vlan_to_range s)" and r: "valid_range (vlan_to_range r)"
    using assms by (auto simp: vlan_inv_def IsValidVlanRange_iff)
  have "fst (DeleteRange (vlan_to_range r) (ra_load (map vlan_to_range s))) = - 1"
    using DeleteRange_loaded(2) [OF s r] False assms(3) by (simp add: vlans_def)
  then show ?thesis
    using False assms(2) by (simp add: CVlanRange_DelRange_def Let_def case_prod_beta)
qed

interpretation vlan_range: range_container IsValidVlanRange vlan_item_set vlan_inv vlans
  CVlanRange_AddRange CVlanRange_DelRange
proof
  show "snd (CVlanRange_DelRange r s) = s \<and> (vlans s \<noteq> {} \<longrightarrow> fst (CVlanRange_DelRange r s) = - 1)"
    if "vlan_inv s" "IsValidVlanRange r" "\<not> vlan_item_set r \<subseteq> vlans s" for s r
    using CVlanRange_DelRange_missing [OF that] by (auto simp: vlans_def)
qed (simp_all add: CVlanRange_AddRange_done CVlanRange_DelRange_done,
    simp_all add: CVlanRange_AddRange_def CVlanRange_DelRange_def)

lemma CSegmentRange_AddRange_done:
  assumes "seg_inv s" and "IsValidSegmentRange r"
  shows "fst (CSegmentRange_AddRange r s) = 0 \<and> seg_inv (snd (CSegmentRange_AddRange r s)) \<and>
         segments (snd (CSegmentRange_AddRange r s)) = segments s \<union> seg_item_set r"
proof (cases "s = []")
  case True
  then show ?thesis
    using assms(2)
    by (auto simp: CSegmentRange_AddRange_def IsValidSegmentRange_iff seg_inv_def segments_def)
next
  case False
  let ?out = "GetMergedRangeColl (ra_added (map seg_to_range s) (seg_to_range r))"
  have s: "apart (map seg_to_range s)" "coll_set (map seg_to_range s) \<subseteq> {1..16000000}"
    and r: "valid_range (seg_to_range r)" "range_set (seg_to_range r) \<subseteq> {1..16000000}"
    using assms by (auto simp: seg_inv_def segments_def IsValidSegmentRange_iff)
  note out = added_set [OF s(1) r(1)]
  have "apart ?out"
    using added_canonical [OF s r] by (intro canonical_apart) simp
  moreover have "CSegmentRange_AddRange r s = (0, map seg_of_range ?out)"
    using False assms(2) out(2) by (simp add: CSegmentRange_AddRange_def ra_added_def Let_def)
  ultimately show ?thesis
    using out(1) s(2) r(2) by (simp add: seg_inv_def segments_def)
qed

lemma CSegmentRange_DelRange_done:
  assumes "seg_inv s" and "IsValidSegmentRange r" and "seg_item_set r \<subseteq> segments s"
  shows "fst (CSegmentRange_DelRange r s) = 0 \<and> seg_inv (snd (CSegmentRange_DelRange r s)) \<and>
         segments (snd (CSegmentRange_DelRange r s)) = segments s - seg_item_set r"
proof -
  have s: "apart (map seg_to_range s)" and r: "valid_range (seg_to_range r)"
    using assms by (auto simp: seg_inv_def IsValidSegmentRange_iff)
  have ne: "map seg_to_range s \<noteq> []"
    using assms(3) range_set_nonempty [OF r] by (auto simp: segments_def)
  have sub: "range_set (seg_to_range r) \<subseteq> coll_set (map seg_to_range s)"
    using assms(3) by (simp add: segments_def)
  note d = DeleteRange_loaded(1,3,4) [OF s r ne sub]
  have "snd (CSegmentRange_DelRange r s) =
          map seg_of_range (GetMergedRangeColl
            (snd (DeleteRange (seg_to_range r) (ra_load (map seg_to_range s)))))"
    and "fst (CSegmentRange_DelRange r s) = 0"
    using d(1) assms(2) by (simp_all add: CSegmentRange_DelRange_def Let_def case_prod_beta)
  then show ?thesis
    using d(2,3) assms(1) by (auto simp: seg_inv_def segments_def)
qed

lemma CSegmentRange_DelRange_missing:
  assumes "seg_inv s" and "IsValidSegmentRange r" and "\<not> seg_item_set r \<subseteq> segments s"
  shows "snd (CSegmentRange_DelRange r s) = s \<and>
         fst (CSegmentRange_DelRange r s) = (if s = [] then 0 else - 1)"
proof (cases "s = []")
  case True
  then show ?thesis
    using assms(2) by (simp add: CSegmentRange_DelRange_def IsValidSegmentRange_iff DeleteRange_empty)
next
  case False
  have s: "apart (map seg_to_range s)" and r: "valid_range (seg_to_range r)"
    using assms by (auto simp: seg_inv_def IsValidSegmentRange_iff)
  have "fst (DeleteRange (seg_to_range r) (ra_load (map seg_to_range s))) = - 1"
    using DeleteRange_loaded(2) [OF s r] False assms(3) by (simp add: segments_def)
  then show ?thesis
    using False assms(2) by (simp add: CSegmentRange_DelRange_def Let_def case_prod_beta)
qed

interpretation seg_range: range_container IsValidSegmentRange seg_item_set seg_inv segments
  CSegmentRange_AddRange CSegmentRange_DelRange
proof
  show "snd (CSegmentRange_DelRange r s) = s \<and>
          (segments s \<noteq> {} \<longrightarrow> fst (CSegmentRange_DelRange r s) = - 1)"
    if "seg_inv s" "IsValidSegmentRange r" "\<not> seg_item_set r \<subseteq> segments s" for s r
    using CSegmentRange_DelRange_missing [OF that] by (auto simp: segments_def)
qed (simp_all add: CSegmentRange_AddRange_done CSegmentRange_DelRange_done,
    simp_all add: CSegmentRange_AddRange_def CSegmentRange_DelRange_def)

section \<open>Properties\<close>

lemma vlans_empty: "vlan_inv s \<Longrightarrow> vlans s = {} \<Longrightarrow> s = []"
  by (cases s) (auto simp: vlan_inv_def vlans_def apart_def dest: range_set_nonempty)

text \<open>C38. \<open>CVlanRange\<close> refines sets of VLAN numbers. On a container whose ranges are pairwise separated and
  lie in 1..4094 (as an empty one is), after any sequence of \<open>AddRange\<close> and \<open>DelRange\<close> calls, with whatever
  arguments, the container holds exactly the VLANs of the set specification (union; difference when covered, else
  nothing; nothing for an invalid range), its ranges are again pairwise separated and within 1..4094, and the calls
  have returned the codes of the specification: 0 when carried out, -1 when refused, and 0 for a valid deletion from
  an empty container.\<close>

theorem CVlanRange_history:
  assumes "vlan_inv s"
  shows "vlans (run_ops CVlanRange_AddRange CVlanRange_DelRange ops s) =
           spec_run IsValidVlanRange vlan_item_set ops (vlans s) \<and>
         vlan_inv (run_ops CVlanRange_AddRange CVlanRange_DelRange ops s) \<and>
         run_codes CVlanRange_AddRange CVlanRange_DelRange ops s =
           spec_codes IsValidVlanRange vlan_item_set 0 ops (vlans s)"
proof -
  have "fst (CVlanRange_DelRange r t) = 0"
    if "vlan_inv t" "IsValidVlanRange r" "\<not> vlan_item_set r \<subseteq> vlans t" "vlans t = {}" for r t
    using CVlanRange_DelRange_missing [OF that(1-3)] vlans_empty [OF that(1,4)] by simp
  from vlan_range.run_codes_refine [OF assms this] vlan_range.run_refines [OF assms] show ?thesis by simp
qed

theorem CVlanRange_history_witness:
  "vlans (run_ops CVlanRange_AddRange CVlanRange_DelRange
      [OpAdd \<lparr>dwVlanIDStart = 10, dwVlanIDEnd = 20\<rparr>, OpDel \<lparr>dwVlanIDStart = 12, dwVlanIDEnd = 13\<rparr>,
       OpAdd \<lparr>dwVlanIDStart = 0, dwVlanIDEnd = 9\<rparr>, OpDel \<lparr>dwVlanIDStart = 9, dwVlanIDEnd = 10\<rparr>] []) =
     {10..20} - {12..13} \<and>
   run_codes CVlanRange_AddRange CVlanRange_DelRange
      [OpAdd \<lparr>dwVlanIDStart = 10, dwVlanIDEnd = 20\<rparr>, OpDel \<lparr>dwVlanIDStart = 12, dwVlanIDEnd = 13\<rparr>,
       OpAdd \<lparr>dwVlanIDStart = 0, dwVlanIDEnd = 9\<rparr>, OpDel \<lparr>dwVlanIDStart = 9, dwVlanIDEnd = 10\<rparr>] [] =
     [0, 0, - 1, - 1]"
proof -
  have "vlan_inv []" "vlans [] = {}" by (simp_all add: vlan_inv_def vlans_def)
  moreover have "{12..13} \<subseteq> {10..(20::nat)}" by simp
  moreover have "9 \<in> {9..(10::nat)}" "9 \<notin> {10..20} - {12..(13::nat)}" by simp_all
  then have "\<not> {9..10} \<subseteq> {10..20} - {12..(13::nat)}" by blast
  moreover have "20 \<in> {10..20} - {12..(13::nat)}" by simp
  then have "{10..20} - {12..(13::nat)} \<noteq> {}" by blast
  ultimately show ?thesis
    using CVlanRange_history [of "[]" "[OpAdd \<lparr>dwVlanIDStart = 10, dwVlanIDEnd = 20\<rparr>,
      OpDel \<lparr>dwVlanIDStart = 12, dwVlanIDEnd = 13\<rparr>, OpAdd \<lparr>dwVlanIDStart = 0, dwVlanIDEnd = 9\<rparr>,
      OpDel \<lparr>dwVlanIDStart = 9, dwVlanIDEnd = 10\<rparr>]"]
    by (simp add: IsValidVlanRange_def VNET_MIN_VLAN_ID_def VNET_MAX_MAP_VLAN_ID_def
        vlan_item_set_def)
qed

text \<open>Every branch of \<open>CVlanRange::DelRange\<close> on a container that keeps the invariant: an invalid
  range is refused, a covered range is taken out, and a range that is not covered leaves the
  container as it was. The last case returns -1, except on an empty container, where it returns 0.\<close>

theorem CVlanRange_DelRange_branches:
  assumes "vlan_inv s"
  shows "\<exists>s'. CVlanRange_DelRange r s =
           (if \<not> IsValidVlanRange r then (- 1, s)
            else if vlan_item_set r \<subseteq> vlans s then (0, s')
            else if s = [] then (0, []) else (- 1, s)) \<and>
         (IsValidVlanRange r \<longrightarrow> vlan_item_set r \<subseteq> vlans s \<longrightarrow>
            vlans s' = vlans s - vlan_item_set r \<and> vlan_inv s')"
proof -
  have bad: "\<not> IsValidVlanRange r \<Longrightarrow> CVlanRange_DelRange r s = (- 1, s)"
    by (simp add: CVlanRange_DelRange_def)
  show ?thesis
    using bad CVlanRange_DelRange_done [OF assms, of r] CVlanRange_DelRange_missing [OF assms, of r]
    by (intro exI [of _ "snd (CVlanRange_DelRange r s)"]) (auto simp: prod_eq_iff)
qed

theorem CVlanRange_DelRange_branches_witness:
  "CVlanRange_DelRange \<lparr>dwVlanIDStart = 5, dwVlanIDEnd = 6\<rparr> [] = (0, [])"
proof -
  have "vlan_inv []" "vlans [] = {}" by (simp_all add: vlan_inv_def vlans_def)
  then show ?thesis
    using CVlanRange_DelRange_branches [of "[]" "\<lparr>dwVlanIDStart = 5, dwVlanIDEnd = 6\<rparr>"]
    by (auto simp: IsValidVlanRange_def VNET_MIN_VLAN_ID_def VNET_MAX_MAP_VLAN_ID_def
        vlan_item_set_def)
qed

text \<open>\<open>CSegmentRange\<close> refines sets of segment numbers in the same way, within 1..16000000.\<close>

theorem CSegmentRange_history:
  assumes "seg_inv s"
  shows "segments (run_ops CSegmentRange_AddRange CSegmentRange_DelRange ops s) =
           spec_run IsValidSegmentRange seg_item_set ops (segments s) \<and>
         seg_inv (run_ops CSegmentRange_AddRange CSegmentRange_DelRange ops s)"
  using seg_range.run_refines [OF assms] by simp

theorem CSegmentRange_history_witness:
  "segments (run_ops CSegmentRange_AddRange CSegmentRange_DelRange
      [OpAdd \<lparr>dwSegmentIDStart = 5000, dwSegmentIDEnd = 6000\<rparr>,
       OpDel \<lparr>dwSegmentIDStart = 5000, dwSegmentIDEnd = 5999\<rparr>] []) = {6000}"
proof -
  have "seg_inv []" "segments [] = {}" by (simp_all add: seg_inv_def segments_def)
  moreover have "{5000..5999} \<subseteq> {5000..(6000::nat)}" "{5000..6000} - {5000..5999} = {6000::nat}"
    by auto
  ultimately show ?thesis
    using CSegmentRange_history [of "[]" "[OpAdd \<lparr>dwSegmentIDStart = 5000, dwSegmentIDEnd = 6000\<rparr>,
      OpDel \<lparr>dwSegmentIDStart = 5000, dwSegmentIDEnd = 5999\<rparr>]"]
    by (simp add: IsValidSegmentRange_def VNET_MIN_SEGMENT_ID_def VNET_MAX_MAP_SEGMENT_ID_def
        seg_item_set_def)
qed

end
