(* ===== verification/RangeSync.thy ===== *)
theory RangeSync
  imports Prelude
begin

text \<open>
  The part that the pool managers share (\<open>vlan_pool_mgr.cpp\<close>, "DB Compare and save"): bring the rows
  of a table to a computed list of ranges. First every computed range without a row is added, then
  every row without a computed range is deleted; the first failure stops the run. The rows read
  before are the argument \<open>out\<close>, from which a row that matches is erased.

  The locale \<open>range_store\<close> states what the loops rely on: the rows of the table have different
  ranges, a call that succeeds has the effect that its name says, and one that fails has this effect
  or none.
\<close>

section \<open>The loops\<close>

fun erase_first :: "('r \<Rightarrow> bool) \<Rightarrow> 'r list \<Rightarrow> 'r list option" where
  "erase_first p [] = None"
| "erase_first p (x # xs) = (if p x then Some xs else map_option (\<lambda>ys. x # ys) (erase_first p xs))"

fun compare_and_save ::
  "('i \<Rightarrow> 'd \<Rightarrow> rc \<times> 'd) \<Rightarrow> ('r \<Rightarrow> 'i) \<Rightarrow> 'i list \<Rightarrow> 'r list \<Rightarrow> 'd \<Rightarrow> rc \<times> 'r list \<times> 'd" where
  "compare_and_save add key [] out d = (0, out, d)"
| "compare_and_save add key (c # cs) out d =
     (case erase_first (\<lambda>r. key r = c) out of
        Some out' \<Rightarrow> compare_and_save add key cs out' d
      | None \<Rightarrow> (case add c d of
                   (nRet, d1) \<Rightarrow> if 0 \<noteq> nRet then (nRet, out, d1)
                                 else compare_and_save add key cs out d1))"

fun delete_rows :: "('r \<Rightarrow> 'd \<Rightarrow> rc \<times> 'd) \<Rightarrow> 'r list \<Rightarrow> 'd \<Rightarrow> rc \<times> 'd" where
  "delete_rows del [] d = (0, d)"
| "delete_rows del (r # rs) d =
     (case del r d of (nRet, d1) \<Rightarrow> if 0 \<noteq> nRet then (nRet, d1) else delete_rows del rs d1)"

definition sync_rows ::
  "('i \<Rightarrow> 'd \<Rightarrow> rc \<times> 'd) \<Rightarrow> ('r \<Rightarrow> 'd \<Rightarrow> rc \<times> 'd) \<Rightarrow> ('r \<Rightarrow> 'i) \<Rightarrow> 'i list \<Rightarrow> 'r list \<Rightarrow> 'd \<Rightarrow> rc \<times> 'd"
where
  "sync_rows add del key items rows d =
     (case compare_and_save add key items rows d of
        (nRet, out, d1) \<Rightarrow> if 0 \<noteq> nRet then (nRet, d1) else delete_rows del out d1)"

text \<open>What every call keeps, the run keeps.\<close>

lemma sync_rows_keeps:
  assumes "sync_rows add del key items rows d = (ret, d')" and "P d"
    and add: "\<And>i a b r. P a \<Longrightarrow> add i a = (r, b) \<Longrightarrow> P b"
    and del: "\<And>x a b r. P a \<Longrightarrow> del x a = (r, b) \<Longrightarrow> P b"
  shows "P d'"
proof -
  have c: "P b" if "compare_and_save add key items rows d = (r, out, b)" for r out b
    using that assms(2)
    by (induction items arbitrary: rows d) (auto split: option.splits prod.splits if_splits dest: add)
  have x: "P b" if "delete_rows del xs a = (r, b)" "P a" for xs a r b
    using that by (induction xs arbitrary: a) (auto split: prod.splits if_splits dest: del)
  obtain r out d1 where s: "compare_and_save add key items rows d = (r, out, d1)" by (metis prod_cases3)
  show ?thesis
    using assms(1) c [OF s] s x [of out d1] by (auto simp: sync_rows_def split: if_splits)
qed

lemma erase_first_None: "erase_first p xs = None \<longleftrightarrow> (\<forall>x \<in> set xs. \<not> p x)"
  by (induction xs) auto

lemma erase_first_Some:
  "erase_first p xs = Some ys \<Longrightarrow> \<exists>as x bs. xs = as @ x # bs \<and> ys = as @ bs \<and> p x"
proof (induction xs arbitrary: ys)
  case (Cons x xs)
  show ?case
  proof (cases "p x")
    case True
    then show ?thesis using Cons.prems by (intro exI [of _ "[]"]) auto
  next
    case False
    then obtain zs where zs: "erase_first p xs = Some zs" "ys = x # zs"
      using Cons.prems by auto
    from Cons.IH [OF zs(1)] obtain as y bs where "xs = as @ y # bs" "zs = as @ bs" "p y"
      by blast
    then show ?thesis using zs(2) by (intro exI [of _ "x # as"]) auto
  qed
qed simp

lemma erase_first_key:
  assumes "erase_first (\<lambda>r. key r = c) xs = Some ys" and "distinct (map key xs)"
  shows "distinct (map key ys)" and "key ` set ys = key ` set xs - {c}" and "set ys \<subseteq> set xs"
    and "c \<in> key ` set xs"
  using erase_first_Some [OF assms(1)] assms(2) by (auto simp: image_iff, metis+)

section \<open>The interface of the table\<close>

locale range_store =
  fixes inv :: "'d \<Rightarrow> bool" and tab :: "'d \<Rightarrow> 'r set" and ok :: "'i \<Rightarrow> bool" and key :: "'r \<Rightarrow> 'i"
    and add :: "'i \<Rightarrow> 'd \<Rightarrow> rc \<times> 'd" and del :: "'r \<Rightarrow> 'd \<Rightarrow> rc \<times> 'd"
  assumes key_inj: "inv d \<Longrightarrow> inj_on key (tab d)"
    and add_inv: "inv d \<Longrightarrow> ok i \<Longrightarrow> i \<notin> key ` tab d \<Longrightarrow> inv (snd (add i d))"
    and add_done: "inv d \<Longrightarrow> ok i \<Longrightarrow> i \<notin> key ` tab d \<Longrightarrow> fst (add i d) = 0 \<Longrightarrow>
      \<exists>r. key r = i \<and> tab (snd (add i d)) = insert r (tab d)"
    and add_failed: "inv d \<Longrightarrow> ok i \<Longrightarrow> i \<notin> key ` tab d \<Longrightarrow>
      tab (snd (add i d)) = tab d \<or> (\<exists>r. key r = i \<and> tab (snd (add i d)) = insert r (tab d))"
    and del_inv: "inv d \<Longrightarrow> r \<in> tab d \<Longrightarrow> inv (snd (del r d))"
    and del_done: "inv d \<Longrightarrow> r \<in> tab d \<Longrightarrow> fst (del r d) = 0 \<Longrightarrow> tab (snd (del r d)) = tab d - {r}"
    and del_failed: "inv d \<Longrightarrow> r \<in> tab d \<Longrightarrow> tab (snd (del r d)) = tab d \<or> tab (snd (del r d)) = tab d - {r}"
begin

lemma key_remove: "inv d \<Longrightarrow> r \<in> tab d \<Longrightarrow> key ` (tab d - {r}) = key ` tab d - {key r}"
  using key_inj [of d] by (auto dest: inj_onD)

lemma save_result:
  assumes "inv d" and "distinct items" and "\<forall>i \<in> set items. ok i" and "distinct (map key rows)"
    and "\<forall>i \<in> set items. i \<in> key ` tab d \<longrightarrow> i \<in> key ` set rows"
    and "compare_and_save add key items rows d = (ret, out, d')"
  shows "inv d' \<and> tab d \<subseteq> tab d' \<and> key ` tab d' \<subseteq> key ` tab d \<union> set items \<and>
         set out \<subseteq> set rows \<and> distinct (map key out) \<and>
         (ret = 0 \<longrightarrow> key ` tab d' = key ` tab d \<union> (set items - key ` set rows) \<and>
                      key ` set out = key ` set rows - set items)"
  using assms
proof (induction items arbitrary: rows d)
  case (Cons c cs)
  show ?case
  proof (cases "erase_first (\<lambda>r. key r = c) rows")
    case (Some rows')
    note e = erase_first_key [OF Some Cons.prems(4)]
    have "\<forall>i \<in> set cs. i \<in> key ` tab d \<longrightarrow> i \<in> key ` set rows'"
      using Cons.prems(2,5) e(2) by auto
    moreover have "compare_and_save add key cs rows' d = (ret, out, d')"
      using Cons.prems(6) Some by simp
    ultimately show ?thesis
      using Cons.IH [of d rows'] Cons.prems(1-3) e by auto
  next
    case None
    then have c: "c \<notin> key ` set rows" by (auto simp: erase_first_None)
    then have new: "c \<notin> key ` tab d" using Cons.prems(5) by auto
    obtain r1 d1 where a: "add c d = (r1, d1)" by (cases "add c d")
    have ad: "inv d1" "r1 = 0 \<Longrightarrow> \<exists>r. key r = c \<and> tab d1 = insert r (tab d)"
      "tab d1 = tab d \<or> (\<exists>r. key r = c \<and> tab d1 = insert r (tab d))"
      using add_inv [of d c] add_done [of d c] add_failed [of d c] Cons.prems(1,3) new a by auto
    show ?thesis
    proof (cases "r1 = 0")
      case True
      then obtain r where r: "key r = c" "tab d1 = insert r (tab d)" using ad(2) by blast
      have "\<forall>i \<in> set cs. i \<in> key ` tab d1 \<longrightarrow> i \<in> key ` set rows"
        using Cons.prems(2,5) r by auto
      moreover have "compare_and_save add key cs rows d1 = (ret, out, d')"
        using Cons.prems(6) None a True by simp
      ultimately show ?thesis
        using Cons.IH [of d1 rows] Cons.prems(2-4) ad(1) r c by auto
    next
      case False
      then have "ret \<noteq> 0 \<and> out = rows \<and> d' = d1"
        using Cons.prems(6) None a by auto
      then show ?thesis using ad(1,3) Cons.prems(4) by auto
    qed
  qed
qed auto

lemma delete_result:
  assumes "inv d" and "distinct rows" and "set rows \<subseteq> tab d" and "delete_rows del rows d = (ret, d')"
  shows "inv d' \<and> key ` tab d - key ` set rows \<subseteq> key ` tab d' \<and> key ` tab d' \<subseteq> key ` tab d \<and>
         (ret = 0 \<longrightarrow> key ` tab d' = key ` tab d - key ` set rows)"
  using assms
proof (induction rows arbitrary: d)
  case (Cons r rs)
  obtain r1 d1 where a: "del r d = (r1, d1)" by (cases "del r d")
  have dd: "inv d1" "r1 = 0 \<Longrightarrow> tab d1 = tab d - {r}" "tab d1 = tab d \<or> tab d1 = tab d - {r}"
    using del_inv [of d r] del_done [of d r] del_failed [of d r] Cons.prems(1,3) a by auto
  have k: "key ` (tab d - {r}) = key ` tab d - {key r}"
    using Cons.prems(1,3) by (simp add: key_remove)
  show ?case
  proof (cases "r1 = 0")
    case True
    have "set rs \<subseteq> tab d1" using Cons.prems(2,3) dd(2) True by auto
    moreover have "delete_rows del rs d1 = (ret, d')" using Cons.prems(4) a True by simp
    ultimately show ?thesis
      using Cons.IH [of d1] Cons.prems(2) dd(1,2) k True by auto
  next
    case False
    then have "ret \<noteq> 0 \<and> d' = d1" using Cons.prems(4) a by auto
    then show ?thesis using dd(1,3) k by auto
  qed
qed auto

text \<open>
  A run that ends well leaves exactly the computed ranges. A run that fails never has a moment where
  a range is missing that is both stored and computed, and it stops either with all the old ranges
  or with all the computed ones.
\<close>

lemma sync_result:
  assumes "inv d" and "distinct items" and "\<forall>i \<in> set items. ok i" and "distinct rows" and "set rows = tab d"
    and "sync_rows add del key items rows d = (ret, d')"
  shows "inv d' \<and> key ` tab d' \<subseteq> key ` tab d \<union> set items \<and>
         (ret = 0 \<longrightarrow> key ` tab d' = set items) \<and>
         (key ` tab d \<subseteq> key ` tab d' \<or> set items \<subseteq> key ` tab d')"
proof -
  have k: "distinct (map key rows)"
    using key_inj [OF assms(1)] assms(4,5) by (simp add: distinct_map)
  obtain r1 out d1 where c: "compare_and_save add key items rows d = (r1, out, d1)"
    by (metis prod_cases3)
  have s: "inv d1 \<and> tab d \<subseteq> tab d1 \<and> key ` tab d1 \<subseteq> key ` tab d \<union> set items \<and>
           set out \<subseteq> set rows \<and> distinct (map key out) \<and>
           (r1 = 0 \<longrightarrow> key ` tab d1 = key ` tab d \<union> (set items - key ` set rows) \<and>
                       key ` set out = key ` set rows - set items)"
    using assms k by (intro save_result [OF _ _ _ _ _ c]) auto
  show ?thesis
  proof (cases "r1 = 0")
    case True
    then have st: "key ` tab d1 = key ` tab d \<union> set items" and ko: "key ` set out = key ` tab d - set items"
      using s assms(5) by auto
    have "delete_rows del out d1 = (ret, d')"
      using assms(6) c True by (simp add: sync_rows_def)
    then have "inv d' \<and> key ` tab d1 - key ` set out \<subseteq> key ` tab d' \<and> key ` tab d' \<subseteq> key ` tab d1 \<and>
               (ret = 0 \<longrightarrow> key ` tab d' = key ` tab d1 - key ` set out)"
      using s assms(5) by (intro delete_result [of d1 out]) (auto simp: distinct_map)
    then show ?thesis using st ko by auto
  next
    case False
    then have "ret \<noteq> 0" "d' = d1" using assms(6) c by (auto simp: sync_rows_def)
    then show ?thesis using s by auto
  qed
qed

end

text \<open>
  A store whose calls do not fail: then a run ends well, so that by \<open>sync_result\<close> it leaves exactly
  the computed ranges.
\<close>

locale live_store = range_store +
  fixes live :: "'a \<Rightarrow> bool"
  assumes add_live: "inv d \<Longrightarrow> live d \<Longrightarrow> ok i \<Longrightarrow> i \<notin> key ` tab d \<Longrightarrow>
      fst (add i d) = 0 \<and> live (snd (add i d))"
    and del_live: "inv d \<Longrightarrow> live d \<Longrightarrow> r \<in> tab d \<Longrightarrow> fst (del r d) = 0 \<and> live (snd (del r d))"
begin

lemma save_live:
  assumes "inv d" and "live d" and "distinct items" and "\<forall>i \<in> set items. ok i"
    and "distinct (map key rows)" and "\<forall>i \<in> set items. i \<in> key ` tab d \<longrightarrow> i \<in> key ` set rows"
    and "compare_and_save add key items rows d = (ret, out, d')"
  shows "ret = 0 \<and> live d'"
  using assms
proof (induction items arbitrary: rows d)
  case (Cons c cs)
  show ?case
  proof (cases "erase_first (\<lambda>r. key r = c) rows")
    case (Some rows')
    note e = erase_first_key [OF Some Cons.prems(5)]
    have "\<forall>i \<in> set cs. i \<in> key ` tab d \<longrightarrow> i \<in> key ` set rows'"
      using Cons.prems(3,6) e(2) by auto
    moreover have "compare_and_save add key cs rows' d = (ret, out, d')"
      using Cons.prems(7) Some by simp
    ultimately show ?thesis
      using Cons.IH [of d rows'] Cons.prems(1-4) e(1) by simp
  next
    case None
    then have "c \<notin> key ` tab d" using Cons.prems(6) by (auto simp: erase_first_None)
    moreover obtain r1 d1 where a: "add c d = (r1, d1)" by (cases "add c d")
    ultimately have ad: "inv d1" "r1 = 0" "live d1" "\<exists>r. key r = c \<and> tab d1 = insert r (tab d)"
      using add_inv [of d c] add_done [of d c] add_live [of d c] Cons.prems(1,2,4) by auto
    have "\<forall>i \<in> set cs. i \<in> key ` tab d1 \<longrightarrow> i \<in> key ` set rows"
      using Cons.prems(3,6) ad(4) by auto
    moreover have "compare_and_save add key cs rows d1 = (ret, out, d')"
      using Cons.prems(7) None a ad(2) by simp
    ultimately show ?thesis
      using Cons.IH [of d1 rows] Cons.prems(3-5) ad by simp
  qed
qed simp

lemma delete_live:
  assumes "inv d" and "live d" and "distinct rows" and "set rows \<subseteq> tab d"
    and "delete_rows del rows d = (ret, d')"
  shows "ret = 0 \<and> live d'"
  using assms
proof (induction rows arbitrary: d)
  case (Cons r rs)
  obtain r1 d1 where a: "del r d = (r1, d1)" by (cases "del r d")
  have dd: "inv d1" "r1 = 0" "live d1" "tab d1 = tab d - {r}"
    using del_inv [of d r] del_done [of d r] del_live [of d r] Cons.prems(1,2,4) a by auto
  have "set rs \<subseteq> tab d1" using Cons.prems(3,4) dd(4) by auto
  moreover have "delete_rows del rs d1 = (ret, d')" using Cons.prems(5) a dd(2) by simp
  ultimately show ?case
    using Cons.IH [of d1] Cons.prems(3) dd by simp
qed simp

lemma sync_live:
  assumes "inv d" and "live d" and "distinct items" and "\<forall>i \<in> set items. ok i"
    and "distinct rows" and "set rows = tab d" and "sync_rows add del key items rows d = (ret, d')"
  shows "ret = 0 \<and> live d'"
proof -
  have k: "distinct (map key rows)"
    using key_inj [OF assms(1)] assms(5,6) by (simp add: distinct_map)
  obtain r1 out d1 where c: "compare_and_save add key items rows d = (r1, out, d1)"
    by (metis prod_cases3)
  have "\<forall>i \<in> set items. i \<in> key ` tab d \<longrightarrow> i \<in> key ` set rows" using assms(6) by simp
  from save_result [OF assms(1,3,4) k this c]
  have s: "inv d1 \<and> tab d \<subseteq> tab d1 \<and> set out \<subseteq> set rows \<and> distinct (map key out)" by simp
  have l: "r1 = 0 \<and> live d1"
    using assms k by (intro save_live [OF _ _ _ _ _ _ c]) auto
  then have "delete_rows del out d1 = (ret, d')"
    using assms(7) c by (simp add: sync_rows_def)
  then show ?thesis
    using s l assms(6) by (intro delete_live [of d1 out]) (auto simp: distinct_map)
qed

end

end
