(* ===== verification/VlanRangeStore.thy ===== *)
theory VlanRangeStore
  imports VlanDb VlanRange RangeSync
begin

text \<open>
  The rows of table \<open>vlan_range\<close> as the store of \<open>range_store\<close>: what \<open>Add\<close> and \<open>Del\<close> of
  \<open>CDBOperateNetplaneVlanRange\<close> do to the ranges of one netplane, and that they touch nothing else.
\<close>

section \<open>Rows and ranges\<close>

text \<open>\<open>SetBeginNum(int32)\<close> and the assignment of \<open>GetBeginNum()\<close> to a \<open>uint32\<close>.\<close>

definition range_row :: "string \<Rightarrow> TVlanRangeItem \<Rightarrow> CDbNetplaneVlanRange" where
  "range_row u i = \<lparr>Uuid = u, BeginNum = sint (dwVlanIDStart i), EndNum = sint (dwVlanIDEnd i)\<rparr>"

definition row_range :: "CDbNetplaneVlanRange \<Rightarrow> TVlanRangeItem" where
  "row_range r = \<lparr>dwVlanIDStart = word_of_int (BeginNum r), dwVlanIDEnd = word_of_int (EndNum r)\<rparr>"

definition np_rows :: "string \<Rightarrow> vdb \<Rightarrow> CDbNetplaneVlanRange list" where
  "np_rows u d =
     (case np_lookup u d of
        None \<Rightarrow> []
      | Some np \<Rightarrow> map (\<lambda>r. \<lparr>Uuid = u, BeginNum = vr_begin r, EndNum = vr_end r\<rparr>)
                      (filter (\<lambda>r. vr_netplane_id r = np) (vlan_range d)))"

lemma pf_net_query_netplane_vlanrange_rows:
  "pf_net_query_netplane_vlanrange u d = Some (np_rows u d, d)"
  by (simp add: pf_net_query_netplane_vlanrange_def np_rows_def split: option.splits)

definition np_ranges :: "string \<Rightarrow> vdb \<Rightarrow> TVlanRangeItem list" where
  "np_ranges u d = map row_range (np_rows u d)"

definition good_row :: "string \<Rightarrow> CDbNetplaneVlanRange \<Rightarrow> bool" where
  "good_row u r \<longleftrightarrow> Uuid r = u \<and> 2 \<le> BeginNum r \<and> BeginNum r \<le> EndNum r \<and> EndNum r \<le> 4094"

definition good_item :: "TVlanRangeItem \<Rightarrow> bool" where
  "good_item i \<longleftrightarrow> 2 \<le> unat (dwVlanIDStart i) \<and> unat (dwVlanIDStart i) \<le> unat (dwVlanIDEnd i) \<and>
                unat (dwVlanIDEnd i) \<le> 4094"

lemma sint_small:
  assumes "unat (w :: uint32) \<le> 4094"
  shows "sint w = int (unat w)"
proof -
  have lo: "- (2 ^ 31) \<le> uint w" by (rule order_trans [of _ 0]) simp_all
  have "uint w \<le> 4094" using assms by (metis nat_le_iff of_nat_numeral unat_eq_nat_uint)
  then have "signed_take_bit 31 (uint w) = uint w"
    by (intro signed_take_bit_int_eq_self lo) simp
  then show ?thesis by (simp add: sint_uint)
qed

lemma uint_of_int_small:
  assumes "0 \<le> k" and "k \<le> 4094"
  shows "unat (word_of_int k :: uint32) = nat k"
  using assms by (simp add: unat_eq_nat_uint uint_word_of_int)

lemma row_range_row [simp]: "row_range (range_row u i) = i"
  by (simp add: row_range_def range_row_def)

lemma Uuid_range_row [simp]: "Uuid (range_row u i) = u"
  by (simp add: range_row_def)

lemma good_row_item: "good_row u r \<Longrightarrow> good_item (row_range r) \<and> range_row u (row_range r) = r"
  by (cases r) (auto simp: good_row_def good_item_def row_range_def range_row_def
      uint_of_int_small sint_small)

lemma good_item_row: "good_item i \<Longrightarrow> good_row u (range_row u i)"
  by (simp add: good_row_def good_item_def range_row_def sint_small del: of_nat_unat)

lemma row_range_inject:
  "good_row u r \<Longrightarrow> good_row u s \<Longrightarrow> row_range r = row_range s \<longleftrightarrow> r = s"
  using good_row_item by metis

section \<open>What \<open>Add\<close> and \<open>Del\<close> change\<close>

text \<open>Two databases that agree on all but the VLAN ranges of netplane \<open>u\<close>.\<close>

definition rest_same :: "string \<Rightarrow> vdb \<Rightarrow> vdb \<Rightarrow> bool" where
  "rest_same u d d' \<longleftrightarrow>
     d\<lparr>vlan_range := [], serial_vlan_range := 0, env := []\<rparr> =
       d'\<lparr>vlan_range := [], serial_vlan_range := 0, env := []\<rparr> \<and>
     filter (\<lambda>r. Some (vr_netplane_id r) \<noteq> np_lookup u d) (vlan_range d) =
       filter (\<lambda>r. Some (vr_netplane_id r) \<noteq> np_lookup u d) (vlan_range d')"

lemma rest_same_tables:
  assumes "rest_same u d d'"
  shows "netplane d' = netplane d" "vlan_pool d' = vlan_pool d" "vlan_map d' = vlan_map d"
    "port_group d' = port_group d" "np_lookup v d' = np_lookup v d"
proof -
  have e: "d'\<lparr>vlan_range := [], serial_vlan_range := 0, env := []\<rparr> =
           d\<lparr>vlan_range := [], serial_vlan_range := 0, env := []\<rparr>"
    using assms by (simp add: rest_same_def)
  show n: "netplane d' = netplane d" using arg_cong [OF e, of netplane] by simp
  show "vlan_pool d' = vlan_pool d" using arg_cong [OF e, of vlan_pool] by simp
  show "vlan_map d' = vlan_map d" using arg_cong [OF e, of vlan_map] by simp
  show "port_group d' = port_group d" using arg_cong [OF e, of port_group] by simp
  show "np_lookup v d' = np_lookup v d" using n by (simp add: np_lookup_def)
qed

lemma rest_same_refl [simp]: "rest_same u d d"
  by (simp add: rest_same_def)

lemma rest_same_trans: "rest_same u a b \<Longrightarrow> rest_same u b c \<Longrightarrow> rest_same u a c"
  using rest_same_tables(5) [of u a b u] by (simp add: rest_same_def)

lemma same_tables_ranges:
  assumes "same_tables d d'"
  shows "vlan_range d' = vlan_range d" "netplane d' = netplane d" "np_lookup u d' = np_lookup u d"
    "np_rows u d' = np_rows u d" "rest_same u d d'"
proof -
  have e: "d'\<lparr>env := []\<rparr> = d\<lparr>env := []\<rparr>" using assms by (simp add: same_tables_def)
  show r: "vlan_range d' = vlan_range d" using arg_cong [OF e, of vlan_range] by simp
  show n: "netplane d' = netplane d" using arg_cong [OF e, of netplane] by simp
  then show l: "np_lookup u d' = np_lookup u d" by (simp add: np_lookup_def)
  show "np_rows u d' = np_rows u d" by (simp add: np_rows_def r l split: option.split)
  have "d'\<lparr>vlan_range := [], serial_vlan_range := 0, env := []\<rparr> =
        d\<lparr>vlan_range := [], serial_vlan_range := 0, env := []\<rparr>"
    using arg_cong [OF e, of "\<lambda>x. x\<lparr>vlan_range := [], serial_vlan_range := 0, env := []\<rparr>"] by simp
  then show "rest_same u d d'" by (simp add: rest_same_def r l)
qed

lemma np_rows_append:
  assumes "np_lookup u d' = np_lookup u d" and "vlan_range d' = vlan_range d @ [r]"
    and "np_lookup u d = Some (vr_netplane_id r)"
  shows "np_rows u d' = np_rows u d @ [\<lparr>Uuid = u, BeginNum = vr_begin r, EndNum = vr_end r\<rparr>]"
  using assms by (simp add: np_rows_def)

lemma pf_net_add_netplane_vlanrange_effect:
  assumes "pf_net_add_netplane_vlanrange u b e d = Some (ret, d')"
  shows "rest_same u d d' \<and> 0 \<le> ret \<and> ret \<noteq> RTN_HAS_SAME_ITEM \<and>
         (if ret = 0 then np_rows u d' = np_rows u d @ [\<lparr>Uuid = u, BeginNum = b, EndNum = e\<rparr>]
          else np_rows u d' = np_rows u d)"
proof (cases "np_lookup u d")
  case None
  then show ?thesis
    using assms by (auto simp: pf_net_add_netplane_vlanrange_def rtn_defs
        pf_net_check_add_netplane_vlanrange_def)
next
  case (Some np)
  show ?thesis
  proof (cases "pf_net_check_add_netplane_vlanrange u b e d > 0")
    case True
    then show ?thesis using assms Some
      by (auto simp: pf_net_add_netplane_vlanrange_def pf_net_check_add_netplane_vlanrange_def
          rtn_defs split: if_splits)
  next
    case False
    let ?d1 = "d\<lparr>serial_vlan_range := serial_vlan_range d + 1\<rparr>"
    let ?r = "\<lparr>vr_id = serial_vlan_range d + 1, vr_netplane_id = np, vr_begin = b, vr_end = e\<rparr>"
    have i: "(case insert_vlan_range ?r ?d1 of None \<Rightarrow> Some (RTN_OPERATOR_FAILED, ?d1)
              | Some d2 \<Rightarrow> Some (0, d2)) = Some (ret, d')"
      using assms False Some by (simp add: pf_net_add_netplane_vlanrange_def Let_def)
    have same: "np_rows u ?d1 = np_rows u d" "rest_same u d ?d1"
      by (simp_all add: np_rows_def np_lookup_def rest_same_def split: option.split)
    show ?thesis
    proof (cases "insert_vlan_range ?r ?d1")
      case None
      then show ?thesis using i same by (auto simp: rtn_defs)
    next
      case (Some d2)
      then have d': "ret = 0" "d' = ?d1\<lparr>vlan_range := vlan_range d @ [?r]\<rparr>"
        using i by (auto simp: insert_vlan_range_def split: if_splits)
      have l: "np_lookup u d' = np_lookup u d" by (simp add: d'(2) np_lookup_def)
      have "rest_same u d d'"
        using d' \<open>np_lookup u d = Some np\<close> by (simp add: rest_same_def)
      moreover have "np_rows u d' = np_rows u d @ [\<lparr>Uuid = u, BeginNum = b, EndNum = e\<rparr>]"
        using d'(2) \<open>np_lookup u d = Some np\<close> np_rows_append [of u d' d ?r, OF l] by simp
      ultimately show ?thesis using d'(1) by (simp add: rtn_defs)
    qed
  qed
qed

lemma pf_net_del_netplane_vlanrange_effect:
  assumes "pf_net_del_netplane_vlanrange u b e d = Some (ret, d')"
  shows "rest_same u d d' \<and> 0 \<le> ret \<and>
         (if ret = 0
          then np_rows u d' = filter (\<lambda>s. s \<noteq> \<lparr>Uuid = u, BeginNum = b, EndNum = e\<rparr>) (np_rows u d)
          else np_rows u d' = np_rows u d)"
proof (cases "np_lookup u d")
  case None
  then show ?thesis
    using assms by (auto simp: pf_net_del_netplane_vlanrange_def rtn_defs)
next
  case (Some np)
  show ?thesis
  proof (cases "ret = 0")
    case False
    then show ?thesis using assms Some
      by (auto simp: pf_net_del_netplane_vlanrange_def rtn_defs split: if_splits)
  next
    case True
    then have d': "d' = d\<lparr>vlan_range := filter (\<lambda>r. \<not> is_range_row np b e r) (vlan_range d)\<rparr>"
      using assms Some
      by (auto simp: pf_net_del_netplane_vlanrange_def rtn_defs split: if_splits)
    have l: "np_lookup u d' = Some np" using Some by (simp add: d' np_lookup_def)
    have "np_rows u d' = filter (\<lambda>s. s \<noteq> \<lparr>Uuid = u, BeginNum = b, EndNum = e\<rparr>) (np_rows u d)"
      using l Some by (auto simp: np_rows_def d' filter_map o_def is_range_row_def
          intro!: arg_cong [where f = "map _"] filter_cong)
    moreover have "rest_same u d d'"
      using Some by (auto simp: rest_same_def d' is_range_row_def intro!: filter_cong)
    ultimately show ?thesis using True by simp
  qed
qed

text \<open>The two operations of the class, whatever happens to the call.\<close>

lemma VlanRange_Add_effect:
  assumes "VlanRange_Add r d = (ret, d')" and "Uuid r = u"
  shows "rest_same u d d'" and "ret = 0 \<Longrightarrow> np_rows u d' = np_rows u d @ [r]"
    and "np_rows u d' = np_rows u d \<or> np_rows u d' = np_rows u d @ [r]"
proof -
  have r: "\<lparr>Uuid = Uuid r, BeginNum = BeginNum r, EndNum = EndNum r\<rparr> = r" by simp
  have "rest_same u d d' \<and> (ret = 0 \<longrightarrow> np_rows u d' = np_rows u d @ [r]) \<and>
        (np_rows u d' = np_rows u d \<or> np_rows u d' = np_rows u d @ [r])"
    using assms(1) unfolding VlanRange_Add_def
  proof (cases rule: db_add_op_cases)
    case idle
    then show ?thesis using same_tables_ranges by auto
  next
    case (ran d1 a)
    note e = pf_net_add_netplane_vlanrange_effect [OF ran(2), unfolded r]
    show ?thesis
      using e ran(1,3) same_tables_ranges(4,5) [OF ran(1), of u] rest_same_trans [of u d d1 d']
        assms(2) by (auto split: if_splits)
  qed
  then show "rest_same u d d'" and "ret = 0 \<Longrightarrow> np_rows u d' = np_rows u d @ [r]"
    and "np_rows u d' = np_rows u d \<or> np_rows u d' = np_rows u d @ [r]" by auto
qed

lemma VlanRange_Del_effect:
  assumes "VlanRange_Del r d = (ret, d')" and "Uuid r = u"
  shows "rest_same u d d'" and "ret = 0 \<Longrightarrow> np_rows u d' = filter (\<lambda>s. s \<noteq> r) (np_rows u d)"
    and "np_rows u d' = np_rows u d \<or> np_rows u d' = filter (\<lambda>s. s \<noteq> r) (np_rows u d)"
proof -
  have r: "\<lparr>Uuid = Uuid r, BeginNum = BeginNum r, EndNum = EndNum r\<rparr> = r" by simp
  have "rest_same u d d' \<and> (ret = 0 \<longrightarrow> np_rows u d' = filter (\<lambda>s. s \<noteq> r) (np_rows u d)) \<and>
        (np_rows u d' = np_rows u d \<or> np_rows u d' = filter (\<lambda>s. s \<noteq> r) (np_rows u d))"
    using assms(1) unfolding VlanRange_Del_def
  proof (cases rule: db_del_op_cases)
    case idle
    then show ?thesis using same_tables_ranges by auto
  next
    case (ran d1 a)
    note e = pf_net_del_netplane_vlanrange_effect [OF ran(2), unfolded r]
    show ?thesis
      using e ran(1,3) same_tables_ranges(4,5) [OF ran(1), of u] rest_same_trans [of u d d1 d']
        assms(2) by (auto split: if_splits)
  qed
  then show "rest_same u d d'" and "ret = 0 \<Longrightarrow> np_rows u d' = filter (\<lambda>s. s \<noteq> r) (np_rows u d)"
    and "np_rows u d' = np_rows u d \<or> np_rows u d' = filter (\<lambda>s. s \<noteq> r) (np_rows u d)" by auto
qed

text \<open>Reading the rows changes nothing, and an answer is the rows of the netplane.\<close>

lemma VlanRange_Query_effect:
  assumes "VlanRange_Query u d = (ret, rows, d')"
  shows "same_tables d d'" and "ret = 0 \<Longrightarrow> rows = np_rows u d"
proof -
  have "same_tables d d' \<and> (ret = 0 \<longrightarrow> rows = np_rows u d)"
    using assms unfolding VlanRange_Query_def
  proof (cases rule: db_query_op_cases)
    case idle
    then show ?thesis by simp
  next
    case (ran d1 xs)
    have "d' = d1 \<and> xs = np_rows u d1"
      using ran(2) by (auto simp: pf_net_query_netplane_vlanrange_rows)
    then show ?thesis using ran same_tables_ranges(4) [OF ran(1)] by simp
  qed
  then show "same_tables d d'" and "ret = 0 \<Longrightarrow> rows = np_rows u d" by auto
qed

section \<open>The store of one netplane\<close>

definition rows_ok :: "string \<Rightarrow> vdb \<Rightarrow> bool" where
  "rows_ok u d \<longleftrightarrow> distinct (np_rows u d) \<and> (\<forall>r \<in> set (np_rows u d). good_row u r)"

definition range_inv :: "string \<Rightarrow> vdb \<Rightarrow> vdb \<Rightarrow> bool" where
  "range_inv u d0 d \<longleftrightarrow> rest_same u d0 d \<and> rows_ok u d"

lemma same_tables_rows_ok: "same_tables d d' \<Longrightarrow> rows_ok u d' = rows_ok u d"
  by (simp add: rows_ok_def same_tables_ranges)

lemma good_rows_items:
  assumes "\<forall>r \<in> set rs. good_row u r"
  shows "inj_on row_range (set rs)" and "distinct (map row_range rs) \<longleftrightarrow> distinct rs"
proof -
  show i: "inj_on row_range (set rs)"
    using assms row_range_inject [of u] by (auto simp: inj_on_def)
  show "distinct (map row_range rs) \<longleftrightarrow> distinct rs"
    using i by (simp add: distinct_map)
qed

lemma rows_ok_inj: "rows_ok u d \<Longrightarrow> inj_on row_range (set (np_rows u d))"
  by (intro good_rows_items(1) [of _ u]) (simp add: rows_ok_def)

interpretation vlan_store: range_store "range_inv u d0" "\<lambda>d. set (np_rows u d)" good_item row_range
  "\<lambda>i. VlanRange_Add (range_row u i)" VlanRange_Del for u d0
proof (unfold_locales, goal_cases)
  case (1 d)
  then show ?case by (simp add: range_inv_def rows_ok_inj)
next
  case (2 d i)
  obtain ret d' where a: "VlanRange_Add (range_row u i) d = (ret, d')" by fastforce
  note e = VlanRange_Add_effect [OF a, of u]
  have "range_row u i \<notin> set (np_rows u d)"
    using 2(3) row_range_row [of u i] by (auto simp: image_iff)
  then show ?case
    using 2 e(1,3) a good_item_row [OF 2(2), of u] rest_same_trans [of u d0 d d']
    by (auto simp: range_inv_def rows_ok_def range_row_def)
next
  case (3 d i)
  obtain ret d' where a: "VlanRange_Add (range_row u i) d = (ret, d')" by fastforce
  show ?case
    using VlanRange_Add_effect(2) [OF a, of u] 3(4) a by (intro exI [of _ "range_row u i"]) simp
next
  case (4 d i)
  obtain ret d' where a: "VlanRange_Add (range_row u i) d = (ret, d')" by fastforce
  show ?case
    using VlanRange_Add_effect(3) [OF a, of u] a row_range_row [of u i] by fastforce
next
  case (5 d r)
  obtain ret d' where a: "VlanRange_Del r d = (ret, d')" by fastforce
  have "Uuid r = u" using 5 by (simp add: range_inv_def rows_ok_def good_row_def)
  note e = VlanRange_Del_effect [OF a this]
  show ?case
    using 5 e(1,3) a rest_same_trans [of u d0 d d'] by (auto simp: range_inv_def rows_ok_def)
next
  case (6 d r)
  obtain ret d' where a: "VlanRange_Del r d = (ret, d')" by fastforce
  have "Uuid r = u" using 6 by (simp add: range_inv_def rows_ok_def good_row_def)
  then show ?case using VlanRange_Del_effect(2) [OF a] 6(3) a by auto
next
  case (7 d r)
  obtain ret d' where a: "VlanRange_Del r d = (ret, d')" by fastforce
  have "Uuid r = u" using 7 by (simp add: range_inv_def rows_ok_def good_row_def)
  then show ?case using VlanRange_Del_effect(3) [OF a] a by auto
qed

section \<open>Calls that do not fail\<close>

definition ranges_live :: "string \<Rightarrow> vdb \<Rightarrow> bool" where
  "ranges_live u d \<longleftrightarrow>
     env d = [] \<and> np_lookup u d \<noteq> None \<and> (\<forall>r \<in> set (vlan_range d). vr_id r \<le> serial_vlan_range d)"

lemma VlanRange_Add_live:
  assumes "ranges_live u d" and "good_item i"
  shows "fst (VlanRange_Add (range_row u i) d) = 0 \<and> ranges_live u (snd (VlanRange_Add (range_row u i) d))"
proof -
  obtain np where np: "np_lookup u d = Some np" using assms(1) by (auto simp: ranges_live_def)
  let ?r = "range_row u i"
  have g: "2 \<le> BeginNum ?r" "BeginNum ?r \<le> EndNum ?r" "EndNum ?r \<le> 4094"
    using good_item_row [OF assms(2), of u] by (simp_all add: good_row_def)
  have chk: "pf_net_check_add_netplane_vlanrange u (BeginNum ?r) (EndNum ?r) d = 0"
    using g np by (simp add: pf_net_check_add_netplane_vlanrange_def)
  let ?i = "serial_vlan_range d + 1"
  let ?row = "\<lparr>vr_id = ?i, vr_netplane_id = np, vr_begin = BeginNum ?r, vr_end = EndNum ?r\<rparr>"
  let ?d2 = "d\<lparr>serial_vlan_range := ?i, vlan_range := vlan_range d @ [?row]\<rparr>"
  have ids: "?i \<notin> vr_id ` set (vlan_range d)" using assms(1) by (force simp: ranges_live_def)
  have "pf_net_add_netplane_vlanrange u (BeginNum ?r) (EndNum ?r) d = Some (0, ?d2)"
    using chk np g ids by (simp add: pf_net_add_netplane_vlanrange_def insert_vlan_range_def Let_def)
  then have "VlanRange_Add ?r d = (0, ?d2)"
    using assms(1) by (simp add: VlanRange_Add_def db_add_op_def Handle_run ranges_live_def rtn_defs)
  moreover have "ranges_live u ?d2"
    using assms(1) by (fastforce simp: ranges_live_def np_lookup_def)
  ultimately show ?thesis by simp
qed

lemma VlanRange_Del_live:
  assumes "ranges_live u d" and "good_row u r" and "r \<in> set (np_rows u d)"
  shows "fst (VlanRange_Del r d) = 0 \<and> ranges_live u (snd (VlanRange_Del r d))"
proof -
  obtain np where np: "np_lookup u d = Some np" using assms(1) by (auto simp: ranges_live_def)
  have u: "Uuid r = u" "BeginNum r \<le> EndNum r" using assms(2) by (simp_all add: good_row_def)
  let ?d2 = "d\<lparr>vlan_range := filter (\<lambda>x. \<not> is_range_row np (BeginNum r) (EndNum r) x) (vlan_range d)\<rparr>"
  have "filter (is_range_row np (BeginNum r) (EndNum r)) (vlan_range d) \<noteq> []"
    using assms(3) np by (auto simp: np_rows_def is_range_row_def filter_empty_conv)
  then have "pf_net_del_netplane_vlanrange u (BeginNum r) (EndNum r) d = Some (0, ?d2)"
    using np u(2) by (simp add: pf_net_del_netplane_vlanrange_def)
  then have "VlanRange_Del r d = (0, ?d2)"
    using assms(1) u(1) by (simp add: VlanRange_Del_def db_del_op_def Handle_run ranges_live_def rtn_defs)
  moreover have "ranges_live u ?d2" using assms(1) by (auto simp: ranges_live_def np_lookup_def)
  ultimately show ?thesis by simp
qed

interpretation vlan_live: live_store "range_inv u d0" "\<lambda>d. set (np_rows u d)" good_item row_range
  "\<lambda>i. VlanRange_Add (range_row u i)" VlanRange_Del "ranges_live u" for u d0
proof (unfold_locales, goal_cases)
  case (1 d i)
  then show ?case using VlanRange_Add_live by blast
next
  case (2 d r)
  then have "good_row u r" by (simp add: range_inv_def rows_ok_def)
  then show ?case using VlanRange_Del_live 2(2,3) by blast
qed

end
