(* ===== verification/VlanTables.thy ===== *)
theory VlanTables
  imports VlanRangeStore
begin

text \<open>
  What the operations on \<open>vlan_pool\<close> and \<open>vlan_map\<close> do to the rows, and the two invariants of the
  tables: \<open>keys_ok\<close>, which the constraints of the schema give, and \<open>isolated\<close>, the purpose of the
  pool: a VLAN of a netplane serves one project and one isolation number, and these have one VLAN.
\<close>

section \<open>Databases with the same rows\<close>

definition same_rows :: "vdb \<Rightarrow> vdb \<Rightarrow> bool" where
  "same_rows d d' \<longleftrightarrow>
     d\<lparr>serial_vlan_range := 0, serial_vlan_pool := 0, serial_vlan_map := 0, env := []\<rparr> =
       d'\<lparr>serial_vlan_range := 0, serial_vlan_pool := 0, serial_vlan_map := 0, env := []\<rparr> \<and>
     serial_vlan_range d \<le> serial_vlan_range d' \<and> serial_vlan_pool d \<le> serial_vlan_pool d' \<and>
     serial_vlan_map d \<le> serial_vlan_map d'"

lemma same_rows_refl [simp]: "same_rows d d"
  by (simp add: same_rows_def)

lemma same_rows_trans: "same_rows a b \<Longrightarrow> same_rows b c \<Longrightarrow> same_rows a c"
  by (auto simp: same_rows_def)

lemma same_rows_eq:
  assumes "same_rows d d'"
  shows "f (d\<lparr>serial_vlan_range := 0, serial_vlan_pool := 0, serial_vlan_map := 0, env := []\<rparr>) =
         f (d'\<lparr>serial_vlan_range := 0, serial_vlan_pool := 0, serial_vlan_map := 0, env := []\<rparr>)"
  using assms by (simp only: same_rows_def)

lemma same_rows_sel:
  assumes "same_rows d d'"
  shows "m_bInit d' = m_bInit d" "netplane d' = netplane d" "port_group d' = port_group d"
    "vm_pg d' = vm_pg d" "access_isolate d' = access_isolate d" "access_vlan d' = access_vlan d"
    "trunk_vlan_range d' = trunk_vlan_range d" "vlan_range d' = vlan_range d"
    "vlan_pool d' = vlan_pool d" "vlan_map d' = vlan_map d" "vsi_profile d' = vsi_profile d"
    "vnic d' = vnic d" "vm d' = vm d" "uplink_pg d' = uplink_pg d"
  using same_rows_eq [OF assms, of m_bInit] same_rows_eq [OF assms, of netplane]
    same_rows_eq [OF assms, of port_group] same_rows_eq [OF assms, of vm_pg]
    same_rows_eq [OF assms, of access_isolate] same_rows_eq [OF assms, of access_vlan]
    same_rows_eq [OF assms, of trunk_vlan_range] same_rows_eq [OF assms, of vlan_range]
    same_rows_eq [OF assms, of vlan_pool] same_rows_eq [OF assms, of vlan_map]
    same_rows_eq [OF assms, of vsi_profile] same_rows_eq [OF assms, of vnic]
    same_rows_eq [OF assms, of vm] same_rows_eq [OF assms, of uplink_pg]
  by simp_all

lemma same_tables_rows: "same_tables d d' \<Longrightarrow> same_rows d d'"
proof -
  assume "same_tables d d'"
  then have e: "d\<lparr>env := []\<rparr> = d'\<lparr>env := []\<rparr>" by (simp add: same_tables_def)
  have "d\<lparr>serial_vlan_range := 0, serial_vlan_pool := 0, serial_vlan_map := 0, env := []\<rparr> =
        d'\<lparr>serial_vlan_range := 0, serial_vlan_pool := 0, serial_vlan_map := 0, env := []\<rparr>"
    using arg_cong [OF e, of "\<lambda>x. x\<lparr>serial_vlan_range := 0, serial_vlan_pool := 0,
                                     serial_vlan_map := 0, env := []\<rparr>"] by simp
  then show ?thesis
    using arg_cong [OF e, of serial_vlan_range] arg_cong [OF e, of serial_vlan_pool]
      arg_cong [OF e, of serial_vlan_map]
    by (simp add: same_rows_def)
qed

lemma same_rows_lookups:
  assumes "same_rows d d'"
  shows "np_lookup u d' = np_lookup u d" "vlan_pool_lookup np n d' = vlan_pool_lookup np n d"
    "is_vm_pg g d' = is_vm_pg g d" "vm_pg_lookup u d' = vm_pg_lookup u d"
    "private_pg_lookup u d' = private_pg_lookup u d" "pg_netplane_lookup u d' = pg_netplane_lookup u d"
    "isolate_lookup g d' = isolate_lookup g d" "vlanmap_args u n i d' = vlanmap_args u n i d"
    "pg_in_use p g d' = pg_in_use p g d"
    "v_net_vlanmap_netplane_pg_vlan d' = v_net_vlanmap_netplane_pg_vlan d"
    "np_rows u d' = np_rows u d"
proof -
  note s = same_rows_sel [OF assms]
  show l: "np_lookup u d' = np_lookup u d" "vlan_pool_lookup np n d' = vlan_pool_lookup np n d"
    "is_vm_pg g d' = is_vm_pg g d" "vm_pg_lookup u d' = vm_pg_lookup u d"
    "private_pg_lookup u d' = private_pg_lookup u d" "pg_netplane_lookup u d' = pg_netplane_lookup u d"
    "isolate_lookup g d' = isolate_lookup g d" "pg_in_use p g d' = pg_in_use p g d"
    "v_net_vlanmap_netplane_pg_vlan d' = v_net_vlanmap_netplane_pg_vlan d" for u n np g p
    by (simp_all add: np_lookup_def vlan_pool_lookup_def is_vm_pg_def vm_pg_lookup_def
        private_pg_lookup_def pg_netplane_lookup_def isolate_lookup_def pg_in_use_def
        v_net_vlanmap_netplane_pg_vlan_def s cong: option.case_cong)
  show "vlanmap_args u n i d' = vlanmap_args u n i d"
    unfolding vlanmap_args_def l by (rule refl)
  show "np_rows u d' = np_rows u d"
    by (simp add: np_rows_def l s split: option.split)
qed

section \<open>Operations on allocated VLANs\<close>

text \<open>A check or a query runs a procedure that changes nothing.\<close>

lemma db_add_op_readonly:
  assumes "db_add_op (\<lambda>d. Some (f d, d)) d = (ret, d')" and "\<And>e. same_tables d e \<Longrightarrow> f e = f d"
  shows "same_tables d d'" and "ret = 0 \<Longrightarrow> f d = 0 \<or> f d = RTN_HAS_SAME_ITEM \<or> f d < 0"
    and "VNET_DB_IS_ITEM_NO_EXIST ret \<Longrightarrow> f d = RTN_ITEM_NO_EXIST \<or> f d < 0"
    and "VNET_DB_IS_RESOURCE_USING ret \<Longrightarrow> f d = RTN_RESOURCE_USING"
proof -
  have "same_tables d d' \<and> (ret = 0 \<longrightarrow> f d = 0 \<or> f d = RTN_HAS_SAME_ITEM \<or> f d < 0) \<and>
        (VNET_DB_IS_ITEM_NO_EXIST ret \<longrightarrow> f d = RTN_ITEM_NO_EXIST \<or> f d < 0) \<and>
        (VNET_DB_IS_RESOURCE_USING ret \<longrightarrow> f d = RTN_RESOURCE_USING)"
    using assms(1)
  proof (cases rule: db_add_op_cases)
    case (ran d1 a)
    then show ?thesis using assms(2) [OF ran(1)] by auto
  qed auto
  then show "same_tables d d'" and "ret = 0 \<Longrightarrow> f d = 0 \<or> f d = RTN_HAS_SAME_ITEM \<or> f d < 0"
    and "VNET_DB_IS_ITEM_NO_EXIST ret \<Longrightarrow> f d = RTN_ITEM_NO_EXIST \<or> f d < 0"
    and "VNET_DB_IS_RESOURCE_USING ret \<Longrightarrow> f d = RTN_RESOURCE_USING" by auto
qed

lemma db_del_op_readonly:
  assumes "db_del_op (\<lambda>d. Some (f d, d)) d = (ret, d')" and "\<And>e. same_tables d e \<Longrightarrow> f e = f d"
  shows "same_tables d d'" and "ret = 0 \<Longrightarrow> f d = 0 \<or> f d < 0"
    and "VNET_DB_IS_ITEM_NO_EXIST ret \<Longrightarrow> f d = RTN_ITEM_NO_EXIST \<or> f d < 0"
    and "VNET_DB_IS_RESOURCE_USING ret \<Longrightarrow> f d = RTN_RESOURCE_USING"
proof -
  have "same_tables d d' \<and> (ret = 0 \<longrightarrow> f d = 0 \<or> f d < 0) \<and>
        (VNET_DB_IS_ITEM_NO_EXIST ret \<longrightarrow> f d = RTN_ITEM_NO_EXIST \<or> f d < 0) \<and>
        (VNET_DB_IS_RESOURCE_USING ret \<longrightarrow> f d = RTN_RESOURCE_USING)"
    using assms(1)
  proof (cases rule: db_del_op_cases)
    case (ran d1 a)
    then show ?thesis using assms(2) [OF ran(1)] by auto
  qed auto
  then show "same_tables d d'" and "ret = 0 \<Longrightarrow> f d = 0 \<or> f d < 0"
    and "VNET_DB_IS_ITEM_NO_EXIST ret \<Longrightarrow> f d = RTN_ITEM_NO_EXIST \<or> f d < 0"
    and "VNET_DB_IS_RESOURCE_USING ret \<Longrightarrow> f d = RTN_RESOURCE_USING" by auto
qed

lemma db_query_op_readonly:
  assumes "db_query_op (\<lambda>d. Some (f d, d)) d = (ret, rows, d')" and "\<And>e. same_tables d e \<Longrightarrow> f e = f d"
  shows "same_tables d d'" and "ret = 0 \<Longrightarrow> rows = f d"
    and "\<not> VNET_DB_IS_ITEM_NO_EXIST ret" and "\<not> VNET_DB_IS_RESOURCE_USING ret"
proof -
  have "same_tables d d' \<and> (ret = 0 \<longrightarrow> rows = f d) \<and> \<not> VNET_DB_IS_ITEM_NO_EXIST ret \<and>
        \<not> VNET_DB_IS_RESOURCE_USING ret"
    using assms(1)
  proof (cases rule: db_query_op_cases)
    case (ran d1 xs)
    then show ?thesis using assms(2) [OF ran(1)] by auto
  qed auto
  then show "same_tables d d'" and "ret = 0 \<Longrightarrow> rows = f d"
    and "\<not> VNET_DB_IS_ITEM_NO_EXIST ret" and "\<not> VNET_DB_IS_RESOURCE_USING ret" by auto
qed

text \<open>An addition to \<open>vlan_pool\<close>: nothing, or one row with the next id, checked against the ranges.\<close>

definition pool_added :: "string \<Rightarrow> int \<Rightarrow> vdb \<Rightarrow> vdb \<Rightarrow> bool" where
  "pool_added u n d d' \<longleftrightarrow>
     (\<exists>np i. np_lookup u d = Some np \<and> serial_vlan_pool d < i \<and> i \<le> serial_vlan_pool d' \<and>
        2 \<le> n \<and> n \<le> 4094 \<and> vlan_pool_lookup np n d = None \<and>
        (\<exists>r \<in> set (vlan_range d). vr_netplane_id r = np \<and> vr_begin r \<le> n \<and> n \<le> vr_end r) \<and>
        same_rows (d\<lparr>vlan_pool := vlan_pool d @ [\<lparr>vp_id = i, vp_netplane_id = np, vp_num = n\<rparr>]\<rparr>) d')"

lemma pf_net_check_add_netplane_vlanpool_nonneg:
  "0 \<le> pf_net_check_add_netplane_vlanpool u n d"
  "pf_net_check_add_netplane_vlanpool u n d \<noteq> RTN_HAS_SAME_ITEM"
  by (simp_all add: pf_net_check_add_netplane_vlanpool_def rtn_defs split: option.split)

lemma pf_net_check_add_netplane_vlanpool_ok:
  "pf_net_check_add_netplane_vlanpool u n d = 0 \<longleftrightarrow>
     (\<exists>np. np_lookup u d = Some np \<and> 2 \<le> n \<and> n \<le> 4094 \<and> vlan_pool_lookup np n d = None \<and>
        (\<exists>r \<in> set (vlan_range d). vr_netplane_id r = np \<and> vr_begin r \<le> n \<and> n \<le> vr_end r))"
  by (auto simp: pf_net_check_add_netplane_vlanpool_def rtn_defs filter_empty_conv
      split: option.splits)

lemma pf_net_add_netplane_vlanpool_effect:
  assumes "pf_net_add_netplane_vlanpool u n d = Some (a, d')"
  shows "0 \<le> a \<and> a \<noteq> RTN_HAS_SAME_ITEM \<and>
         (if a = 0 then pool_added u n d d' else same_rows d d')"
proof (cases "pf_net_check_add_netplane_vlanpool u n d > 0")
  case True
  then have "a = pf_net_check_add_netplane_vlanpool u n d \<and> d' = d"
    using assms by (auto simp: pf_net_add_netplane_vlanpool_def Let_def)
  then show ?thesis
    using True pf_net_check_add_netplane_vlanpool_nonneg [of u n d] by simp
next
  case False
  then have ok: "pf_net_check_add_netplane_vlanpool u n d = 0"
    using pf_net_check_add_netplane_vlanpool_nonneg(1) [of u n d] by linarith
  then obtain np where np: "np_lookup u d = Some np"
    and facts: "2 \<le> n" "n \<le> 4094" "vlan_pool_lookup np n d = None"
      "\<exists>r \<in> set (vlan_range d). vr_netplane_id r = np \<and> vr_begin r \<le> n \<and> n \<le> vr_end r"
    using pf_net_check_add_netplane_vlanpool_ok by blast
  let ?i = "serial_vlan_pool d + 1"
  let ?d1 = "d\<lparr>serial_vlan_pool := ?i\<rparr>"
  let ?r = "\<lparr>vp_id = ?i, vp_netplane_id = np, vp_num = n\<rparr>"
  have i: "(case insert_vlan_pool ?r ?d1 of None \<Rightarrow> Some (RTN_OPERATOR_FAILED, ?d1)
            | Some d2 \<Rightarrow> Some (0, d2)) = Some (a, d')"
    using assms ok np by (simp add: pf_net_add_netplane_vlanpool_def Let_def)
  show ?thesis
  proof (cases "insert_vlan_pool ?r ?d1")
    case None
    then show ?thesis using i by (auto simp: rtn_defs same_rows_def)
  next
    case (Some d2)
    then have "a = 0" "d' = ?d1\<lparr>vlan_pool := vlan_pool d @ [?r]\<rparr>"
      using i by (auto simp: insert_vlan_pool_def split: if_splits)
    moreover from this have "pool_added u n d d'"
      unfolding pool_added_def using np facts
      by (intro exI [of _ np] exI [of _ ?i]) (simp add: same_rows_def)
    ultimately show ?thesis by (simp add: rtn_defs)
  qed
qed

definition pool_deleted :: "string \<Rightarrow> int \<Rightarrow> vdb \<Rightarrow> vdb \<Rightarrow> bool" where
  "pool_deleted u n d d' \<longleftrightarrow>
     (\<exists>np v. np_lookup u d = Some np \<and> vlan_pool_lookup np n d = Some v \<and>
        (\<forall>m \<in> set (vlan_map d). vm_vlan_id m \<noteq> v) \<and>
        same_rows (d\<lparr>vlan_pool := filter (\<lambda>r. \<not> (vp_netplane_id r = np \<and> vp_num r = n))
                                   (vlan_pool d)\<rparr>) d')"

lemma pf_net_check_del_netplane_vlanpool_nonneg:
  "0 \<le> pf_net_check_del_netplane_vlanpool u n d"
  "pf_net_check_del_netplane_vlanpool u n d \<noteq> RTN_HAS_SAME_ITEM"
  by (simp_all add: pf_net_check_del_netplane_vlanpool_def rtn_defs split: option.split)

lemma pf_net_del_netplane_vlanpool_effect:
  assumes "pf_net_del_netplane_vlanpool u n d = Some (a, d')"
  shows "0 \<le> a \<and> (if a = 0 then pool_deleted u n d d' else same_rows d d')"
proof (cases "pf_net_check_del_netplane_vlanpool u n d > 0")
  case True
  then show ?thesis using assms by (auto simp: pf_net_del_netplane_vlanpool_def Let_def)
next
  case False
  then have "pf_net_check_del_netplane_vlanpool u n d = 0"
    using pf_net_check_del_netplane_vlanpool_nonneg(1) [of u n d] by linarith
  then obtain np v where np: "np_lookup u d = Some np" "vlan_pool_lookup np n d = Some v"
    and m: "\<forall>m \<in> set (vlan_map d). vm_vlan_id m \<noteq> v"
    by (auto simp: pf_net_check_del_netplane_vlanpool_def rtn_defs filter_empty_conv
        split: option.splits if_splits)
  have "(case delete_vlan_pool np n d of None \<Rightarrow> Some (RTN_OPERATOR_FAILED, d)
         | Some d1 \<Rightarrow> Some (0, d1)) = Some (a, d')"
    using assms False np by (simp add: pf_net_del_netplane_vlanpool_def Let_def)
  then show ?thesis
    using np m unfolding pool_deleted_def
    by (auto simp: delete_vlan_pool_def Let_def rtn_defs split: if_splits)
qed

section \<open>Operations on the map\<close>

definition map_added :: "int \<Rightarrow> string \<Rightarrow> int \<Rightarrow> int \<Rightarrow> vdb \<Rightarrow> vdb \<Rightarrow> bool" where
  "map_added proj u n ino d d' \<longleftrightarrow>
     (\<exists>g v i. vlanmap_args u n ino d = Inr (g, v) \<and> \<not> list_ex (is_map_key proj g ino) (vlan_map d) \<and>
        serial_vlan_map d < i \<and> i \<le> serial_vlan_map d' \<and>
        same_rows (d\<lparr>vlan_map := vlan_map d @ [\<lparr>vm_id = i, vm_project_id = proj, vm_pg_id = g,
                                                 vm_vlan_id = v, vm_isolate_no = ino\<rparr>]\<rparr>) d')"

definition map_has :: "int \<Rightarrow> string \<Rightarrow> int \<Rightarrow> int \<Rightarrow> vdb \<Rightarrow> bool" where
  "map_has proj u n ino d \<longleftrightarrow>
     (\<exists>g v. vlanmap_args u n ino d = Inr (g, v) \<and>
        (\<exists>m \<in> set (vlan_map d). is_map_key proj g ino m \<and> vm_vlan_id m = v))"

text \<open>The port group, its netplane and the VLAN that the tests have found.\<close>

lemma vlanmap_args_Inr:
  assumes "vlanmap_args u n ino d = Inr (g, v)" and "distinct (map pg_uuid (port_group d))"
  shows "\<exists>r np. vm_pg_lookup u d = Some r \<and> pg_id r = g \<and> r \<in> set (port_group d) \<and> pg_uuid r = u \<and>
           is_vm_pg g d \<and> pg_netplane_lookup u d = Some np \<and> pg_netplane_id r = Some np \<and>
           (\<exists>x \<in> set (netplane d). np_id x = np) \<and> vlan_pool_lookup np n d = Some v \<and>
           isolate_lookup g d = Some ino"
proof -
  obtain r np where r: "private_pg_lookup u d = Some r" "g = pg_id r" "isolate_lookup g d = Some ino"
    "pg_netplane_lookup u d = Some np" "vlan_pool_lookup np n d = Some v"
    using assms(1) by (auto simp: vlanmap_args_def split: option.splits if_splits)
  have mem: "r \<in> set (port_group d)" "pg_uuid r = u" "is_vm_pg g d"
    using find_SomeD [OF r(1) [unfolded private_pg_lookup_def]] r(2) by auto
  have uniq: "s = r" if "s \<in> set (port_group d)" "pg_uuid s = u" for s
    using assms(2) that mem by (auto simp: distinct_map inj_on_def)
  have "vm_pg_lookup u d = Some r"
  proof (cases "vm_pg_lookup u d")
    case None
    then show ?thesis using mem r(2) by (auto simp: vm_pg_lookup_def find_None_all)
  next
    case (Some s)
    from find_SomeD [OF this [unfolded vm_pg_lookup_def]] have "s = r" by (auto intro: uniq)
    then show ?thesis using Some by simp
  qed
  moreover have "pg_netplane_id r = Some np \<and> (\<exists>x \<in> set (netplane d). np_id x = np)"
  proof -
    obtain s where f: "find (\<lambda>g. pg_uuid g = u \<and> is_vm_pg (pg_id g) d \<and>
                     (case pg_netplane_id g of None \<Rightarrow> False
                      | Some np \<Rightarrow> list_ex (\<lambda>r. np_id r = np) (netplane d))) (port_group d) = Some s"
      and s: "pg_netplane_id s = Some np"
      using r(4) by (auto simp: pg_netplane_lookup_def split: option.splits)
    from find_SomeD [OF f] have "s = r" by (auto intro: uniq)
    then show ?thesis using find_SomeD [OF f] s by (auto simp: list_ex_iff)
  qed
  ultimately show ?thesis using r mem by (intro exI [of _ r] exI [of _ np]) simp
qed

lemma pf_net_check_add_vlanmap_cases:
  "0 \<le> pf_net_check_add_vlanmap proj u n ino d \<and>
   (pf_net_check_add_vlanmap proj u n ino d = RTN_HAS_SAME_ITEM \<longrightarrow> map_has proj u n ino d) \<and>
   (pf_net_check_add_vlanmap proj u n ino d = 0 \<longrightarrow>
      (\<exists>g v. vlanmap_args u n ino d = Inr (g, v) \<and> \<not> list_ex (is_map_key proj g ino) (vlan_map d)))"
proof (cases "vlanmap_args u n ino d")
  case (Inl r)
  then have "r \<in> {RTN_ITEM_NO_EXIST, RTN_PARAM_INVALID, RTN_PG_MUST_CFG_NETPLANE}"
    by (auto simp: vlanmap_args_def split: option.splits if_splits)
  then show ?thesis using Inl by (auto simp: pf_net_check_add_vlanmap_def rtn_defs)
next
  case (Inr gv)
  then show ?thesis
    by (cases gv) (auto simp: pf_net_check_add_vlanmap_def map_has_def rtn_defs list_ex_iff)
qed

lemma pf_net_add_vlanmap_effect:
  assumes "pf_net_add_vlanmap proj u n ino d = Some (a, d')"
    and "distinct (map pg_uuid (port_group d))"
  shows "0 \<le> a \<and> a \<noteq> RTN_HAS_SAME_ITEM \<and>
         (if a = 0 then map_added proj u n ino d d' \<or> same_rows d d' \<and> map_has proj u n ino d
          else same_rows d d')"
proof -
  let ?c = "pf_net_check_add_vlanmap proj u n ino d"
  note c = pf_net_check_add_vlanmap_cases [of proj u n ino d]
  consider "?c = RTN_HAS_SAME_ITEM" | "?c > 0" "?c \<noteq> RTN_HAS_SAME_ITEM" | "?c = 0"
    using c by fastforce
  then show ?thesis
  proof cases
    case 1
    then show ?thesis using assms(1) c by (auto simp: pf_net_add_vlanmap_def Let_def rtn_defs)
  next
    case 2
    then show ?thesis using assms(1) by (auto simp: pf_net_add_vlanmap_def Let_def)
  next
    case 3
    then obtain g v where gv: "vlanmap_args u n ino d = Inr (g, v)"
      and new: "\<not> list_ex (is_map_key proj g ino) (vlan_map d)"
      using c by blast
    obtain r np where r: "vm_pg_lookup u d = Some r" "pg_id r = g"
      "pg_netplane_lookup u d = Some np" "vlan_pool_lookup np n d = Some v"
      using vlanmap_args_Inr [OF gv assms(2)] by blast
    let ?i = "serial_vlan_map d + 1"
    let ?d1 = "d\<lparr>serial_vlan_map := ?i\<rparr>"
    let ?r = "\<lparr>vm_id = ?i, vm_project_id = proj, vm_pg_id = g, vm_vlan_id = v, vm_isolate_no = ino\<rparr>"
    have i: "(case insert_vlan_map ?r ?d1 of None \<Rightarrow> Some (RTN_OPERATOR_FAILED, ?d1)
              | Some d2 \<Rightarrow> Some (0, d2)) = Some (a, d')"
      using assms(1) 3 r by (simp add: pf_net_add_vlanmap_def Let_def rtn_defs)
    show ?thesis
    proof (cases "insert_vlan_map ?r ?d1")
      case None
      then show ?thesis using i by (auto simp: rtn_defs same_rows_def)
    next
      case (Some d2)
      then have "a = 0" "d' = ?d1\<lparr>vlan_map := vlan_map d @ [?r]\<rparr>"
        using i by (auto simp: insert_vlan_map_def split: if_splits)
      moreover from this have "map_added proj u n ino d d'"
        unfolding map_added_def using gv new
        by (intro exI [of _ g] exI [of _ v] exI [of _ ?i]) (simp add: same_rows_def)
      ultimately show ?thesis by (simp add: rtn_defs)
    qed
  qed
qed

definition map_deleted :: "int \<Rightarrow> string \<Rightarrow> int \<Rightarrow> int \<Rightarrow> vdb \<Rightarrow> vdb \<Rightarrow> bool" where
  "map_deleted proj u n ino d d' \<longleftrightarrow>
     (\<exists>g v. vlanmap_args u n ino d = Inr (g, v) \<and> list_ex (is_map_vlan proj g v) (vlan_map d) \<and>
        \<not> pg_in_use proj g d \<and>
        same_rows (d\<lparr>vlan_map := filter (\<lambda>m. \<not> is_map_vlan proj g v m) (vlan_map d)\<rparr>) d')"

lemma pf_net_check_del_vlanmap_cases:
  "0 \<le> pf_net_check_del_vlanmap proj u n ino d \<and>
   (pf_net_check_del_vlanmap proj u n ino d = 0 \<longrightarrow>
      (\<exists>g v. vlanmap_args u n ino d = Inr (g, v) \<and> list_ex (is_map_vlan proj g v) (vlan_map d) \<and>
         \<not> pg_in_use proj g d))"
proof (cases "vlanmap_args u n ino d")
  case (Inl r)
  then have "r \<in> {RTN_ITEM_NO_EXIST, RTN_PARAM_INVALID, RTN_PG_MUST_CFG_NETPLANE}"
    by (auto simp: vlanmap_args_def split: option.splits if_splits)
  then show ?thesis using Inl by (auto simp: pf_net_check_del_vlanmap_def rtn_defs)
next
  case (Inr gv)
  then show ?thesis
    by (cases gv) (auto simp: pf_net_check_del_vlanmap_def rtn_defs)
qed

lemma pf_net_del_vlanmap_effect:
  assumes "pf_net_del_vlanmap proj u n ino d = Some (a, d')"
    and "distinct (map pg_uuid (port_group d))"
  shows "0 \<le> a \<and> (if a = 0 then map_deleted proj u n ino d d' else same_rows d d')"
proof (cases "pf_net_check_del_vlanmap proj u n ino d > 0")
  case True
  then show ?thesis using assms(1) by (auto simp: pf_net_del_vlanmap_def Let_def)
next
  case False
  then have "pf_net_check_del_vlanmap proj u n ino d = 0"
    using pf_net_check_del_vlanmap_cases [of proj u n ino d] by linarith
  then obtain g v where gv: "vlanmap_args u n ino d = Inr (g, v)"
    and hit: "list_ex (is_map_vlan proj g v) (vlan_map d)" and free: "\<not> pg_in_use proj g d"
    using pf_net_check_del_vlanmap_cases [of proj u n ino d] by blast
  obtain r np where "vm_pg_lookup u d = Some r" "pg_id r = g"
    "pg_netplane_lookup u d = Some np" "vlan_pool_lookup np n d = Some v"
    using vlanmap_args_Inr [OF gv assms(2)] by blast
  then have "a = 0 \<and> d' = d\<lparr>vlan_map := filter (\<lambda>m. \<not> is_map_vlan proj g v m) (vlan_map d)\<rparr>"
    using assms(1) False hit by (auto simp: pf_net_del_vlanmap_def Let_def)
  then show ?thesis using gv hit free unfolding map_deleted_def by auto
qed

section \<open>The operations of the classes\<close>

text \<open>A change of the outcomes alone does not matter to any of the four effects.\<close>

lemma same_tables_env_ex: "same_tables d d1 \<Longrightarrow> \<exists>e. d1 = d\<lparr>env := e\<rparr>"
proof -
  assume "same_tables d d1"
  then have "d1\<lparr>env := []\<rparr> = d\<lparr>env := []\<rparr>" by (simp add: same_tables_def)
  from arg_cong [OF this, of "\<lambda>x. x\<lparr>env := env d1\<rparr>"] show ?thesis by auto
qed

lemma effects_env:
  "pool_added u n (d\<lparr>env := e\<rparr>) d' = pool_added u n d d'"
  "pool_deleted u n (d\<lparr>env := e\<rparr>) d' = pool_deleted u n d d'"
  "map_added proj u n ino (d\<lparr>env := e\<rparr>) d' = map_added proj u n ino d d'"
  "map_has proj u n ino (d\<lparr>env := e\<rparr>) = map_has proj u n ino d"
  "map_deleted proj u n ino (d\<lparr>env := e\<rparr>) d' = map_deleted proj u n ino d d'"
  "same_rows (d\<lparr>env := e\<rparr>) d' = same_rows d d'"
proof -
  have "same_rows d (d\<lparr>env := e\<rparr>)" by (simp add: same_rows_def)
  note l = same_rows_lookups [OF this]
  show "pool_added u n (d\<lparr>env := e\<rparr>) d' = pool_added u n d d'"
    "pool_deleted u n (d\<lparr>env := e\<rparr>) d' = pool_deleted u n d d'"
    "map_added proj u n ino (d\<lparr>env := e\<rparr>) d' = map_added proj u n ino d d'"
    "map_has proj u n ino (d\<lparr>env := e\<rparr>) = map_has proj u n ino d"
    "map_deleted proj u n ino (d\<lparr>env := e\<rparr>) d' = map_deleted proj u n ino d d'"
    "same_rows (d\<lparr>env := e\<rparr>) d' = same_rows d d'"
    by (simp_all add: pool_added_def pool_deleted_def map_added_def map_has_def map_deleted_def l
        same_rows_def)
qed

lemma checks_same_rows:
  assumes "same_rows d e"
  shows "pf_net_check_add_netplane_vlanpool u n e = pf_net_check_add_netplane_vlanpool u n d"
    "pf_net_check_del_netplane_vlanpool u n e = pf_net_check_del_netplane_vlanpool u n d"
    "pf_net_check_add_vlanmap proj u n ino e = pf_net_check_add_vlanmap proj u n ino d"
    "pf_net_check_del_vlanmap proj u n ino e = pf_net_check_del_vlanmap proj u n ino d"
  unfolding pf_net_check_add_netplane_vlanpool_def pf_net_check_del_netplane_vlanpool_def
    pf_net_check_add_vlanmap_def pf_net_check_del_vlanmap_def
    same_rows_lookups [OF assms] same_rows_sel [OF assms]
  by (rule refl)+

lemma VlanPool_CheckAdd_effect:
  "VlanPool_CheckAdd u n d = (ret, d') \<Longrightarrow> same_tables d d'"
  unfolding VlanPool_CheckAdd_def
  by (erule db_add_op_readonly(1)) (intro checks_same_rows same_tables_rows)

lemma VlanPool_Add_effect:
  assumes "VlanPool_Add u n d = (ret, d')"
  shows "ret = 0 \<Longrightarrow> pool_added u n d d'" and "same_rows d d' \<or> pool_added u n d d'"
proof -
  have "(ret = 0 \<longrightarrow> pool_added u n d d') \<and> (same_rows d d' \<or> pool_added u n d d')"
    using assms unfolding VlanPool_Add_def
  proof (cases rule: db_add_op_cases)
    case (ran d1 a)
    then show ?thesis
      using pf_net_add_netplane_vlanpool_effect [OF ran(2)] same_tables_env_ex [OF ran(1)]
      by (auto simp: effects_env split: if_splits)
  qed (auto simp: same_tables_rows)
  then show "ret = 0 \<Longrightarrow> pool_added u n d d'" and "same_rows d d' \<or> pool_added u n d d'" by auto
qed

lemma VlanPool_CheckDel_effect:
  assumes "VlanPool_CheckDel u n d = (ret, d')"
  shows "same_tables d d'"
    and "VNET_DB_IS_RESOURCE_USING ret \<Longrightarrow> pf_net_check_del_netplane_vlanpool u n d = RTN_RESOURCE_USING"
    and "VNET_DB_IS_ITEM_NO_EXIST ret \<Longrightarrow> pf_net_check_del_netplane_vlanpool u n d = RTN_ITEM_NO_EXIST"
proof -
  have e: "pf_net_check_del_netplane_vlanpool u n e = pf_net_check_del_netplane_vlanpool u n d"
    if "same_tables d e" for e
    by (intro checks_same_rows same_tables_rows that)
  note r = db_add_op_readonly [OF assms [unfolded VlanPool_CheckDel_def] e]
  show "same_tables d d'" by (rule r(1))
  show "VNET_DB_IS_RESOURCE_USING ret \<Longrightarrow>
      pf_net_check_del_netplane_vlanpool u n d = RTN_RESOURCE_USING" by (rule r(4))
  show "VNET_DB_IS_ITEM_NO_EXIST ret \<Longrightarrow>
      pf_net_check_del_netplane_vlanpool u n d = RTN_ITEM_NO_EXIST"
    using r(3) pf_net_check_del_netplane_vlanpool_nonneg(1) [of u n d] by fastforce
qed

lemma VlanPool_Del_effect:
  assumes "VlanPool_Del u n d = (ret, d')"
  shows "ret = 0 \<Longrightarrow> pool_deleted u n d d'" and "same_rows d d' \<or> pool_deleted u n d d'"
proof -
  have "(ret = 0 \<longrightarrow> pool_deleted u n d d') \<and> (same_rows d d' \<or> pool_deleted u n d d')"
    using assms unfolding VlanPool_Del_def
  proof (cases rule: db_del_op_cases)
    case (ran d1 a)
    then show ?thesis
      using pf_net_del_netplane_vlanpool_effect [OF ran(2)] same_tables_env_ex [OF ran(1)]
      by (auto simp: effects_env split: if_splits)
  qed (auto simp: same_tables_rows)
  then show "ret = 0 \<Longrightarrow> pool_deleted u n d d'" and "same_rows d d' \<or> pool_deleted u n d d'"
    by auto
qed

lemma VlanMap_CheckAdd_effect:
  "VlanMap_CheckAdd proj u n ino d = (ret, d') \<Longrightarrow> same_tables d d'"
  unfolding VlanMap_CheckAdd_def
  by (erule db_add_op_readonly(1)) (intro checks_same_rows same_tables_rows)

lemma VlanMap_Add_effect:
  assumes "VlanMap_Add proj u n ino d = (ret, d')" and "distinct (map pg_uuid (port_group d))"
  shows "ret = 0 \<Longrightarrow> map_added proj u n ino d d' \<or> same_rows d d' \<and> map_has proj u n ino d"
    and "same_rows d d' \<or> map_added proj u n ino d d'"
proof -
  have "(ret = 0 \<longrightarrow> map_added proj u n ino d d' \<or> same_rows d d' \<and> map_has proj u n ino d) \<and>
        (same_rows d d' \<or> map_added proj u n ino d d')"
    using assms(1) unfolding VlanMap_Add_def
  proof (cases rule: db_add_op_cases)
    case (ran d1 a)
    obtain e where e: "d1 = d\<lparr>env := e\<rparr>" using same_tables_env_ex [OF ran(1)] by blast
    with assms(2) have "distinct (map pg_uuid (port_group d1))" by simp
    from pf_net_add_vlanmap_effect [OF ran(2) this] show ?thesis
      using ran(3) e by (auto simp: effects_env split: if_splits)
  qed (auto simp: same_tables_rows)
  then show "ret = 0 \<Longrightarrow> map_added proj u n ino d d' \<or> same_rows d d' \<and> map_has proj u n ino d"
    and "same_rows d d' \<or> map_added proj u n ino d d'" by auto
qed

lemma VlanMap_CheckDel_effect:
  assumes "VlanMap_CheckDel proj u n ino d = (ret, d')"
  shows "same_tables d d'"
    and "VNET_DB_IS_RESOURCE_USING ret \<Longrightarrow> pf_net_check_del_vlanmap proj u n ino d = RTN_RESOURCE_USING"
    and "VNET_DB_IS_ITEM_NO_EXIST ret \<Longrightarrow> pf_net_check_del_vlanmap proj u n ino d = RTN_ITEM_NO_EXIST"
proof -
  have e: "pf_net_check_del_vlanmap proj u n ino e = pf_net_check_del_vlanmap proj u n ino d"
    if "same_tables d e" for e
    by (intro checks_same_rows same_tables_rows that)
  note r = db_del_op_readonly [OF assms [unfolded VlanMap_CheckDel_def] e]
  show "same_tables d d'" by (rule r(1))
  show "VNET_DB_IS_RESOURCE_USING ret \<Longrightarrow>
      pf_net_check_del_vlanmap proj u n ino d = RTN_RESOURCE_USING" by (rule r(4))
  show "VNET_DB_IS_ITEM_NO_EXIST ret \<Longrightarrow>
      pf_net_check_del_vlanmap proj u n ino d = RTN_ITEM_NO_EXIST"
    using r(3) pf_net_check_del_vlanmap_cases [of proj u n ino d] by fastforce
qed

lemma VlanMap_Del_effect:
  assumes "VlanMap_Del proj u n ino d = (ret, d')" and "distinct (map pg_uuid (port_group d))"
  shows "ret = 0 \<Longrightarrow> map_deleted proj u n ino d d'"
    and "same_rows d d' \<or> map_deleted proj u n ino d d'"
proof -
  have "(ret = 0 \<longrightarrow> map_deleted proj u n ino d d') \<and>
        (same_rows d d' \<or> map_deleted proj u n ino d d')"
    using assms(1) unfolding VlanMap_Del_def
  proof (cases rule: db_del_op_cases)
    case (ran d1 a)
    obtain e where e: "d1 = d\<lparr>env := e\<rparr>" using same_tables_env_ex [OF ran(1)] by blast
    with assms(2) have "distinct (map pg_uuid (port_group d1))" by simp
    from pf_net_del_vlanmap_effect [OF ran(2) this] show ?thesis
      using ran(3) e by (auto simp: effects_env split: if_splits)
  qed (auto simp: same_tables_rows)
  then show "ret = 0 \<Longrightarrow> map_deleted proj u n ino d d'"
    and "same_rows d d' \<or> map_deleted proj u n ino d d'" by auto
qed

end
