(* ===== verification/VlanTenancy.thy ===== *)
theory VlanTenancy
  imports VlanTables
begin

text \<open>
  The two invariants of the VLAN tables. \<open>keys_ok\<close> is what the keys and foreign keys of the schema
  give. \<open>isolated\<close> is the purpose of the pool: on a netplane, two users of a VLAN have the same project
  and the same isolation number, and users with the same project and isolation number have the same
  VLAN. The lemmas say how the effects of the operations change the set of users.
\<close>

section \<open>Users of a netplane\<close>

text \<open>Project, port group, isolation number and VLAN of the map entries on netplane \<open>np\<close>.\<close>

definition users :: "vdb \<Rightarrow> int \<Rightarrow> (int \<times> int \<times> int \<times> int) set" where
  "users d np =
     {(vm_project_id m, vm_pg_id m, vm_isolate_no m, vp_num v) | m v.
        m \<in> set (vlan_map d) \<and> v \<in> set (vlan_pool d) \<and> vp_id v = vm_vlan_id m \<and>
        vp_netplane_id v = np}"

definition isolated :: "vdb \<Rightarrow> bool" where
  "isolated d \<longleftrightarrow>
     (\<forall>np p g i n p' g' i' n'.
        (p, g, i, n) \<in> users d np \<longrightarrow> (p', g', i', n') \<in> users d np \<longrightarrow>
        (n = n' \<longleftrightarrow> p = p' \<and> i = i'))"

definition ids_ok :: "vdb \<Rightarrow> bool" where
  "ids_ok d \<longleftrightarrow>
     distinct (map np_id (netplane d)) \<and> distinct (map np_uuid (netplane d)) \<and>
     distinct (map pg_id (port_group d)) \<and> distinct (map pg_uuid (port_group d))"

definition pool_ok :: "vdb \<Rightarrow> bool" where
  "pool_ok d \<longleftrightarrow>
     distinct (map vp_id (vlan_pool d)) \<and>
     distinct (map (\<lambda>v. (vp_netplane_id v, vp_num v)) (vlan_pool d)) \<and>
     (\<forall>v \<in> set (vlan_pool d). vp_id v \<le> serial_vlan_pool d \<and> 2 \<le> vp_num v \<and> vp_num v \<le> 4094)"

text \<open>Every map entry refers to a VLAN and to a port group on the netplane of that VLAN.\<close>

definition map_row_ok :: "vdb \<Rightarrow> vlan_map_row \<Rightarrow> bool" where
  "map_row_ok d m \<longleftrightarrow>
     (\<exists>v \<in> set (vlan_pool d). \<exists>g \<in> set (port_group d). \<exists>x \<in> set (netplane d).
        vp_id v = vm_vlan_id m \<and> pg_id g = vm_pg_id m \<and> is_vm_pg (pg_id g) d \<and>
        np_id x = vp_netplane_id v \<and> pg_netplane_id g = Some (vp_netplane_id v))"

definition map_ok :: "vdb \<Rightarrow> bool" where
  "map_ok d \<longleftrightarrow>
     distinct (map vm_id (vlan_map d)) \<and> (\<forall>m \<in> set (vlan_map d). vm_id m \<le> serial_vlan_map d) \<and>
     (\<forall>m \<in> set (vlan_map d). map_row_ok d m)"

definition keys_ok :: "vdb \<Rightarrow> bool" where
  "keys_ok d \<longleftrightarrow> ids_ok d \<and> pool_ok d \<and> map_ok d"

lemma users_same_rows: "same_rows d d' \<Longrightarrow> users d' np = users d np"
  by (simp add: users_def same_rows_sel)

lemma isolated_same_rows: "same_rows d d' \<Longrightarrow> isolated d' = isolated d"
  by (simp add: isolated_def users_same_rows)

lemma keys_ok_same_rows:
  assumes "same_rows d d'" and "keys_ok d"
  shows "keys_ok d'"
proof -
  have s: "serial_vlan_pool d \<le> serial_vlan_pool d'" "serial_vlan_map d \<le> serial_vlan_map d'"
    using assms(1) by (simp_all add: same_rows_def)
  show ?thesis
    using assms(2) s order_trans
    by (fastforce simp: keys_ok_def ids_ok_def pool_ok_def map_ok_def map_row_ok_def
        same_rows_sel [OF assms(1)] same_rows_lookups [OF assms(1)])
qed

lemma np_lookup_iff:
  assumes "ids_ok d"
  shows "np_lookup u d = Some np \<longleftrightarrow> (\<exists>x \<in> set (netplane d). np_uuid x = u \<and> np_id x = np)"
proof
  assume "np_lookup u d = Some np"
  then show "\<exists>x \<in> set (netplane d). np_uuid x = u \<and> np_id x = np"
    by (auto simp: np_lookup_def dest: find_SomeD)
next
  assume "\<exists>x \<in> set (netplane d). np_uuid x = u \<and> np_id x = np"
  then obtain x where x: "x \<in> set (netplane d)" "np_uuid x = u" "np_id x = np" by blast
  have uniq: "y = x" if "y \<in> set (netplane d)" "np_uuid y = u" for y
    using assms x that by (auto simp: ids_ok_def distinct_map inj_on_def)
  show "np_lookup u d = Some np"
  proof (cases "find (\<lambda>r. np_uuid r = u) (netplane d)")
    case None
    then show ?thesis using x by (auto simp: find_None_all)
  next
    case (Some y)
    from find_SomeD [OF this] have "y = x" by (auto intro: uniq)
    then show ?thesis using Some x by (simp add: np_lookup_def)
  qed
qed

lemma vlan_pool_lookup_iff:
  assumes "pool_ok d"
  shows "vlan_pool_lookup np n d = Some i \<longleftrightarrow>
           (\<exists>v \<in> set (vlan_pool d). vp_netplane_id v = np \<and> vp_num v = n \<and> vp_id v = i)"
proof
  assume "vlan_pool_lookup np n d = Some i"
  then show "\<exists>v \<in> set (vlan_pool d). vp_netplane_id v = np \<and> vp_num v = n \<and> vp_id v = i"
    by (auto simp: vlan_pool_lookup_def dest: find_SomeD)
next
  assume "\<exists>v \<in> set (vlan_pool d). vp_netplane_id v = np \<and> vp_num v = n \<and> vp_id v = i"
  then obtain v where v: "v \<in> set (vlan_pool d)" "vp_netplane_id v = np" "vp_num v = n" "vp_id v = i"
    by blast
  have uniq: "w = v" if "w \<in> set (vlan_pool d)" "vp_netplane_id w = np" "vp_num w = n" for w
    using assms v that by (auto simp: pool_ok_def distinct_map inj_on_def)
  show "vlan_pool_lookup np n d = Some i"
  proof (cases "find (\<lambda>r. vp_netplane_id r = np \<and> vp_num r = n) (vlan_pool d)")
    case None
    then show ?thesis using v by (auto simp: find_None_all)
  next
    case (Some w)
    from find_SomeD [OF this] have "w = v" by (auto intro: uniq)
    then show ?thesis using Some v by (simp add: vlan_pool_lookup_def)
  qed
qed

lemma pool_row_by_id:
  assumes "pool_ok d" and "v \<in> set (vlan_pool d)" and "w \<in> set (vlan_pool d)" and "vp_id v = vp_id w"
  shows "v = w"
  using assms by (auto simp: pool_ok_def distinct_map inj_on_def)

section \<open>Effects on the users\<close>

definition allocated :: "vdb \<Rightarrow> int \<Rightarrow> int set" where
  "allocated d np = vp_num ` {v \<in> set (vlan_pool d). vp_netplane_id v = np}"

lemma allocated_same_rows: "same_rows d d' \<Longrightarrow> allocated d' np = allocated d np"
  by (simp add: allocated_def same_rows_sel)

lemma users_allocated: "(p, g, i, n) \<in> users d np \<Longrightarrow> n \<in> allocated d np"
  by (auto simp: users_def allocated_def)

lemma vlan_pool_lookup_None: "vlan_pool_lookup np n d = None \<longleftrightarrow> n \<notin> allocated d np"
  by (auto simp: vlan_pool_lookup_def allocated_def find_None_all)

lemma pool_added_effect:
  assumes "keys_ok d" and "pool_added u n d d'" and "np_lookup u d = Some np"
  shows "keys_ok d'" and "users d' = users d" and "n \<notin> allocated d np" and "2 \<le> n" and "n \<le> 4094"
    and "\<exists>r \<in> set (vlan_range d). vr_netplane_id r = np \<and> vr_begin r \<le> n \<and> n \<le> vr_end r"
    and "allocated d' = (allocated d)(np := insert n (allocated d np))"
    and "vlan_map d' = vlan_map d" and "vlan_range d' = vlan_range d" and "port_group d' = port_group d"
proof -
  obtain i where i: "serial_vlan_pool d < i" "i \<le> serial_vlan_pool d'" and n: "2 \<le> n" "n \<le> 4094"
    and new: "n \<notin> allocated d np"
    and r: "\<exists>r \<in> set (vlan_range d). vr_netplane_id r = np \<and> vr_begin r \<le> n \<and> n \<le> vr_end r"
    and same: "same_rows (d\<lparr>vlan_pool := vlan_pool d @ [\<lparr>vp_id = i, vp_netplane_id = np,
                                                          vp_num = n\<rparr>]\<rparr>) d'"
    using assms(2,3) by (auto simp: pool_added_def vlan_pool_lookup_None)
  let ?v = "\<lparr>vp_id = i, vp_netplane_id = np, vp_num = n\<rparr>"
  let ?e = "d\<lparr>vlan_pool := vlan_pool d @ [?v], serial_vlan_pool := i\<rparr>"
  have e: "same_rows ?e d'"
    using same i(2) by (simp add: same_rows_def)
  have ids: "vp_id v < i" if "v \<in> set (vlan_pool d)" for v
    using assms(1) i(1) that by (fastforce simp: keys_ok_def pool_ok_def)
  have refs: "vm_vlan_id m < i" if "m \<in> set (vlan_map d)" for m
    using assms(1) that ids by (fastforce simp: keys_ok_def map_ok_def map_row_ok_def)
  have "pool_ok ?e"
    using assms(1) ids i(1) n new
    by (fastforce simp: keys_ok_def pool_ok_def allocated_def)
  moreover have "map_ok ?e" "ids_ok ?e"
    using assms(1) by (auto simp: keys_ok_def ids_ok_def map_ok_def map_row_ok_def is_vm_pg_def)
  ultimately show "keys_ok d'"
    by (intro keys_ok_same_rows [OF e]) (simp add: keys_ok_def)
  have "users ?e = users d"
    using refs by (fastforce simp: users_def fun_eq_iff)
  then show "users d' = users d"
    using users_same_rows [OF e] by (simp add: fun_eq_iff)
  have "{v \<in> set (vlan_pool ?e). vp_netplane_id v = q} =
          (if q = np then insert ?v {v \<in> set (vlan_pool d). vp_netplane_id v = q}
           else {v \<in> set (vlan_pool d). vp_netplane_id v = q})" for q
    by auto
  then have "allocated ?e = (allocated d)(np := insert n (allocated d np))"
    by (simp add: allocated_def fun_eq_iff)
  then show "allocated d' = (allocated d)(np := insert n (allocated d np))"
    using allocated_same_rows [OF e] by (simp add: fun_eq_iff)
  show "n \<notin> allocated d np" "2 \<le> n" "n \<le> 4094"
    "\<exists>r \<in> set (vlan_range d). vr_netplane_id r = np \<and> vr_begin r \<le> n \<and> n \<le> vr_end r"
    using new n r by simp_all
  show "vlan_map d' = vlan_map d" "vlan_range d' = vlan_range d" "port_group d' = port_group d"
    using same_rows_sel [OF e] by simp_all
qed

lemma pool_deleted_effect:
  assumes "keys_ok d" and "pool_deleted u n d d'" and "np_lookup u d = Some np"
  shows "keys_ok d'" and "users d' = users d" and "n \<in> allocated d np"
    and "\<forall>(p, g, i, k) \<in> users d np. k \<noteq> n"
    and "allocated d' = (allocated d)(np := allocated d np - {n})"
    and "vlan_map d' = vlan_map d" and "vlan_range d' = vlan_range d" and "port_group d' = port_group d"
proof -
  let ?hit = "\<lambda>r. vp_netplane_id r = np \<and> vp_num r = n"
  let ?e = "d\<lparr>vlan_pool := filter (\<lambda>r. \<not> ?hit r) (vlan_pool d)\<rparr>"
  obtain v where v: "vlan_pool_lookup np n d = Some v" and free: "\<forall>m \<in> set (vlan_map d). vm_vlan_id m \<noteq> v"
    and e: "same_rows ?e d'"
    using assms(2,3) by (auto simp: pool_deleted_def)
  have pool: "pool_ok d" using assms(1) by (simp add: keys_ok_def)
  obtain w where w: "w \<in> set (vlan_pool d)" "?hit w" "vp_id w = v"
    using v vlan_pool_lookup_iff [OF pool] by blast
  have hit: "vp_id r = v" if "r \<in> set (vlan_pool d)" "?hit r" for r
    using v vlan_pool_lookup_iff [OF pool, of np n "vp_id r"] that by auto
  have "pool_ok ?e"
    using pool by (auto simp: pool_ok_def distinct_map_filter)
  moreover have "map_ok ?e" "ids_ok ?e"
    using assms(1) free hit
    by (fastforce simp: keys_ok_def ids_ok_def map_ok_def map_row_ok_def is_vm_pg_def)+
  ultimately show "keys_ok d'"
    by (intro keys_ok_same_rows [OF e]) (simp add: keys_ok_def)
  have "users ?e = users d"
    using free hit by (fastforce simp: users_def fun_eq_iff)
  then show "users d' = users d"
    using users_same_rows [OF e] by (simp add: fun_eq_iff)
  show "n \<in> allocated d np" using w by (force simp: allocated_def)
  show "\<forall>(p, g, i, k) \<in> users d np. k \<noteq> n" using free hit by (fastforce simp: users_def)
  have "allocated ?e = (allocated d)(np := allocated d np - {n})"
    by (auto simp: allocated_def fun_eq_iff)
  then show "allocated d' = (allocated d)(np := allocated d np - {n})"
    using allocated_same_rows [OF e] by (simp add: fun_eq_iff)
  show "vlan_map d' = vlan_map d" "vlan_range d' = vlan_range d" "port_group d' = port_group d"
    using same_rows_sel [OF e] by simp_all
qed

definition pg_named :: "string \<Rightarrow> int \<Rightarrow> vdb \<Rightarrow> bool" where
  "pg_named u g d \<longleftrightarrow> (\<exists>r \<in> set (port_group d). pg_uuid r = u \<and> pg_id r = g)"

lemma pg_named_unique:
  "ids_ok d \<Longrightarrow> pg_named u g d \<Longrightarrow> pg_named u' g' d \<Longrightarrow> u = u' \<longleftrightarrow> g = g'"
  by (auto simp: pg_named_def ids_ok_def distinct_map inj_on_def)

text \<open>What the tests of the map procedures establish, in terms of keys.\<close>

lemma vlanmap_args_keys:
  assumes "keys_ok d" and "vlanmap_args u n ino d = Inr (g, i)" and "pg_netplane_lookup u d = Some np"
  obtains v r x where "pg_named u g d" "v \<in> set (vlan_pool d)" "vp_id v = i" "vp_netplane_id v = np"
    "vp_num v = n" "r \<in> set (port_group d)" "pg_id r = g" "is_vm_pg g d" "pg_netplane_id r = Some np"
    "x \<in> set (netplane d)" "np_id x = np"
proof -
  have k: "distinct (map pg_uuid (port_group d))" "pool_ok d"
    using assms(1) by (simp_all add: keys_ok_def ids_ok_def)
  obtain r x where r: "r \<in> set (port_group d)" "pg_id r = g" "pg_uuid r = u" "is_vm_pg g d"
    "pg_netplane_id r = Some np" "x \<in> set (netplane d)" "np_id x = np"
    and l: "vlan_pool_lookup np n d = Some i"
    using vlanmap_args_Inr [OF assms(2) k(1)] assms(3) by auto
  obtain v where "v \<in> set (vlan_pool d)" "vp_netplane_id v = np" "vp_num v = n" "vp_id v = i"
    using l vlan_pool_lookup_iff [OF k(2)] by blast
  moreover have "pg_named u g d" using r by (auto simp: pg_named_def)
  ultimately show thesis using that r by blast
qed

definition row_users :: "vlan_pool_row list \<Rightarrow> int \<Rightarrow> vlan_map_row \<Rightarrow> (int \<times> int \<times> int \<times> int) set" where
  "row_users vs np m =
     {(vm_project_id m, vm_pg_id m, vm_isolate_no m, vp_num w) | w.
        w \<in> set vs \<and> vp_id w = vm_vlan_id m \<and> vp_netplane_id w = np}"

lemma users_rows: "users d np = (\<Union>m \<in> set (vlan_map d). row_users (vlan_pool d) np m)"
  by (auto simp: users_def row_users_def)

lemma row_users_one:
  assumes "keys_ok d" and "v \<in> set (vlan_pool d)" and "vm_vlan_id m = vp_id v"
  shows "row_users (vlan_pool d) np m =
         (if vp_netplane_id v = np then {(vm_project_id m, vm_pg_id m, vm_isolate_no m, vp_num v)} else {})"
proof -
  have "w = v" if "w \<in> set (vlan_pool d)" "vp_id w = vp_id v" for w
    using pool_row_by_id [of d w v] assms that by (simp add: keys_ok_def)
  then have "w \<in> set (vlan_pool d) \<and> vp_id w = vm_vlan_id m \<and> vp_netplane_id w = np \<longleftrightarrow>
             w = v \<and> vp_netplane_id v = np" for w
    using assms(2,3) by auto
  then show ?thesis by (simp add: row_users_def)
qed

lemma map_added_effect:
  assumes "keys_ok d" and "map_added proj u n ino d d'" and "pg_netplane_lookup u d = Some np"
  obtains g where "pg_named u g d" "keys_ok d'" "n \<in> allocated d np"
    "users d' = (users d)(np := insert (proj, g, ino, n) (users d np))"
    "vlan_pool d' = vlan_pool d" "vlan_range d' = vlan_range d" "port_group d' = port_group d"
    "allocated d' = allocated d"
proof -
  obtain g i k where gi: "vlanmap_args u n ino d = Inr (g, i)"
    and k: "serial_vlan_map d < k" "k \<le> serial_vlan_map d'"
    and same: "same_rows (d\<lparr>vlan_map := vlan_map d @ [\<lparr>vm_id = k, vm_project_id = proj, vm_pg_id = g,
                                                        vm_vlan_id = i, vm_isolate_no = ino\<rparr>]\<rparr>) d'"
    using assms(2) by (auto simp: map_added_def)
  let ?m = "\<lparr>vm_id = k, vm_project_id = proj, vm_pg_id = g, vm_vlan_id = i, vm_isolate_no = ino\<rparr>"
  let ?e = "d\<lparr>vlan_map := vlan_map d @ [?m], serial_vlan_map := k\<rparr>"
  obtain v r x where v: "pg_named u g d" "v \<in> set (vlan_pool d)" "vp_id v = i" "vp_netplane_id v = np"
    "vp_num v = n" and r: "r \<in> set (port_group d)" "pg_id r = g" "is_vm_pg g d"
    "pg_netplane_id r = Some np" "x \<in> set (netplane d)" "np_id x = np"
    by (rule vlanmap_args_keys [OF assms(1) gi assms(3)])
  have e: "same_rows ?e d'" using same k(2) by (simp add: same_rows_def)
  have "map_row_ok d ?m" using v r by (auto simp: map_row_ok_def)
  then have "map_ok ?e"
    using assms(1) k(1) by (fastforce simp: keys_ok_def map_ok_def map_row_ok_def is_vm_pg_def)
  moreover have "pool_ok ?e" "ids_ok ?e"
    using assms(1) by (auto simp: keys_ok_def ids_ok_def pool_ok_def)
  ultimately have "keys_ok d'"
    by (intro keys_ok_same_rows [OF e]) (simp add: keys_ok_def)
  moreover have "row_users (vlan_pool d) q ?m = (if q = np then {(proj, g, ino, n)} else {})" for q
    using row_users_one [OF assms(1) v(2), of ?m q] v(3-5) by auto
  then have "users ?e = (users d)(np := insert (proj, g, ino, n) (users d np))"
    by (simp add: users_rows fun_eq_iff)
  then have "users d' = (users d)(np := insert (proj, g, ino, n) (users d np))"
    using users_same_rows [OF e] by (simp add: fun_eq_iff)
  moreover have "n \<in> allocated d np" using v by (force simp: allocated_def)
  moreover have "allocated d' = allocated d"
    using allocated_same_rows [OF e] by (simp add: allocated_def fun_eq_iff)
  ultimately show thesis
    using that v(1) same_rows_sel [OF e] by simp
qed

lemma map_deleted_effect:
  assumes "keys_ok d" and "map_deleted proj u n ino d d'" and "pg_netplane_lookup u d = Some np"
  obtains g where "pg_named u g d" "keys_ok d'" "n \<in> allocated d np" "\<not> pg_in_use proj g d"
    "users d' = (users d)(np := users d np - {(proj, g, i, n) | i. True})"
    "\<exists>i. (proj, g, i, n) \<in> users d np" "vlan_pool d' = vlan_pool d" "vlan_range d' = vlan_range d"
    "port_group d' = port_group d" "allocated d' = allocated d"
proof -
  obtain g i where gi: "vlanmap_args u n ino d = Inr (g, i)"
    and hit: "list_ex (is_map_vlan proj g i) (vlan_map d)" and idle: "\<not> pg_in_use proj g d"
    and e: "same_rows (d\<lparr>vlan_map := filter (\<lambda>m. \<not> is_map_vlan proj g i m) (vlan_map d)\<rparr>) d'"
    using assms(2) by (auto simp: map_deleted_def)
  let ?e = "d\<lparr>vlan_map := filter (\<lambda>m. \<not> is_map_vlan proj g i m) (vlan_map d)\<rparr>"
  obtain v where v: "pg_named u g d" "v \<in> set (vlan_pool d)" "vp_id v = i" "vp_netplane_id v = np"
    "vp_num v = n"
    by (rule vlanmap_args_keys [OF assms(1) gi assms(3)])
  have pool: "pool_ok d" using assms(1) by (simp add: keys_ok_def)
  have "map_ok ?e"
    using assms(1) by (auto simp: keys_ok_def map_ok_def map_row_ok_def is_vm_pg_def distinct_map_filter)
  moreover have "pool_ok ?e" "ids_ok ?e"
    using assms(1) by (auto simp: keys_ok_def ids_ok_def pool_ok_def)
  ultimately have "keys_ok d'"
    by (intro keys_ok_same_rows [OF e]) (simp add: keys_ok_def)
  moreover have row: "vp_id w = i \<longleftrightarrow> vp_netplane_id w = np \<and> vp_num w = n"
    if "w \<in> set (vlan_pool d)" for w
    using pool_row_by_id [OF pool that v(2)] v that pool
    by (auto simp: pool_ok_def distinct_map inj_on_def)
  have "t \<in> users ?e q \<longleftrightarrow> t \<in> ((users d)(np := users d np - {(proj, g, i, n) | i. True})) q" for t q
  proof -
    obtain p h j k where t: "t = (p, h, j, k)" by (cases t)
    have "(p, h, j, k) \<in> users ?e q \<longleftrightarrow> (p, h, j, k) \<in> users d q \<and> \<not> (q = np \<and> p = proj \<and> h = g \<and> k = n)"
    proof
      assume "(p, h, j, k) \<in> users ?e q"
      then obtain m w where m: "m \<in> set (vlan_map d)" "\<not> is_map_vlan proj g i m"
        "w \<in> set (vlan_pool d)" "vp_id w = vm_vlan_id m" "vp_netplane_id w = q"
        "vm_project_id m = p" "vm_pg_id m = h" "vm_isolate_no m = j" "vp_num w = k"
        by (auto simp: users_def)
      then show "(p, h, j, k) \<in> users d q \<and> \<not> (q = np \<and> p = proj \<and> h = g \<and> k = n)"
        using row [OF m(3)] by (force simp: users_def is_map_vlan_def)
    next
      assume a: "(p, h, j, k) \<in> users d q \<and> \<not> (q = np \<and> p = proj \<and> h = g \<and> k = n)"
      then obtain m w where m: "m \<in> set (vlan_map d)"
        "w \<in> set (vlan_pool d)" "vp_id w = vm_vlan_id m" "vp_netplane_id w = q"
        "vm_project_id m = p" "vm_pg_id m = h" "vm_isolate_no m = j" "vp_num w = k"
        by (auto simp: users_def)
      moreover have "\<not> is_map_vlan proj g i m"
        using a m row [OF m(2)] by (auto simp: is_map_vlan_def)
      ultimately show "(p, h, j, k) \<in> users ?e q" by (force simp: users_def)
    qed
    then show ?thesis by (auto simp: t)
  qed
  then have "users ?e = (users d)(np := users d np - {(proj, g, i, n) | i. True})"
    by blast
  then have "users d' = (users d)(np := users d np - {(proj, g, i, n) | i. True})"
    using users_same_rows [OF e] by (simp add: fun_eq_iff)
  moreover have "\<exists>i. (proj, g, i, n) \<in> users d np"
    using hit v by (force simp: users_def list_ex_iff is_map_vlan_def)
  moreover have "n \<in> allocated d np" using v by (force simp: allocated_def)
  moreover have "allocated d' = allocated d"
    using allocated_same_rows [OF e] by (simp add: allocated_def fun_eq_iff)
  ultimately show thesis
    using that v(1) idle same_rows_sel [OF e] by simp
qed

section \<open>The view and the users\<close>

lemma view_row_users:
  assumes "keys_ok d" and "x \<in> set (v_net_vlanmap_netplane_pg_vlan d)"
  shows "\<exists>np g. np_lookup (NetplaneUuid x) d = Some np \<and> pg_named (PgUuid x) g d \<and>
           (ProjectId x, g, IsolateNo x, VlanNum x) \<in> users d np"
proof -
  have ids: "ids_ok d" using assms(1) by (simp add: keys_ok_def)
  obtain m v n g where m: "m \<in> set (vlan_map d)" "v \<in> set (vlan_pool d)" "vp_id v = vm_vlan_id m"
    "n \<in> set (netplane d)" "np_id n = vp_netplane_id v" "g \<in> set (port_group d)" "pg_id g = vm_pg_id m"
    and x: "x = \<lparr>NetplaneUuid = np_uuid n, PgUuid = pg_uuid g, ProjectId = vm_project_id m,
               VlanNum = vp_num v, IsolateNo = vm_isolate_no m\<rparr>"
    using assms(2) by (auto simp: v_net_vlanmap_netplane_pg_vlan_def)
  have "np_lookup (NetplaneUuid x) d = Some (vp_netplane_id v)"
    using m x np_lookup_iff [OF ids] by auto
  moreover have "pg_named (PgUuid x) (vm_pg_id m) d" using m x by (auto simp: pg_named_def)
  moreover have "(ProjectId x, vm_pg_id m, IsolateNo x, VlanNum x) \<in> users d (vp_netplane_id v)"
    using m x by (auto simp: users_def)
  ultimately show ?thesis by blast
qed

lemma users_view_row:
  assumes "keys_ok d" and "(p, g, i, n) \<in> users d np"
  shows "\<exists>x \<in> set (v_net_vlanmap_netplane_pg_vlan d). np_lookup (NetplaneUuid x) d = Some np \<and>
           pg_named (PgUuid x) g d \<and> ProjectId x = p \<and> IsolateNo x = i \<and> VlanNum x = n"
proof -
  have ids: "ids_ok d" and pool: "pool_ok d" using assms(1) by (simp_all add: keys_ok_def)
  obtain m v where m: "m \<in> set (vlan_map d)" "v \<in> set (vlan_pool d)" "vp_id v = vm_vlan_id m"
    "vp_netplane_id v = np" and k: "p = vm_project_id m" "g = vm_pg_id m" "i = vm_isolate_no m" "n = vp_num v"
    using assms(2) by (auto simp: users_def)
  have "map_row_ok d m" using assms(1) m(1) by (simp add: keys_ok_def map_ok_def)
  then obtain w r y where r: "w \<in> set (vlan_pool d)" "vp_id w = vm_vlan_id m" "r \<in> set (port_group d)"
    "pg_id r = vm_pg_id m" "is_vm_pg (pg_id r) d" "pg_netplane_id r = Some (vp_netplane_id w)"
    "y \<in> set (netplane d)" "np_id y = vp_netplane_id w"
    by (auto simp: map_row_ok_def)
  have w: "w = v" using pool_row_by_id [OF pool r(1) m(2)] r(2) m(3) by simp
  let ?x = "\<lparr>NetplaneUuid = np_uuid y, PgUuid = pg_uuid r, ProjectId = p, VlanNum = n, IsolateNo = i\<rparr>"
  have "?x \<in> set (v_net_vlanmap_netplane_pg_vlan d)"
    using m r w k by (force simp: v_net_vlanmap_netplane_pg_vlan_def)
  moreover have "np_lookup (NetplaneUuid ?x) d = Some np"
    using r w m np_lookup_iff [OF ids] by auto
  moreover have "pg_named (PgUuid ?x) g d" using r k by (auto simp: pg_named_def)
  ultimately show ?thesis by (intro bexI [of _ ?x]) simp_all
qed

section \<open>Isolation\<close>

lemma isolatedD:
  "isolated d \<Longrightarrow> (p, g, i, n) \<in> users d np \<Longrightarrow> (p', g', i', n') \<in> users d np \<Longrightarrow>
     n = n' \<longleftrightarrow> p = p' \<and> i = i'"
  unfolding isolated_def by blast

lemma isolated_users: "users d' = users d \<Longrightarrow> isolated d' = isolated d"
  by (simp add: isolated_def)

lemma isolatedI:
  assumes "\<And>np p g i n p' g' i' n'. (p, g, i, n) \<in> users d np \<Longrightarrow> (p', g', i', n') \<in> users d np \<Longrightarrow>
             n = n' \<longleftrightarrow> p = p' \<and> i = i'"
  shows "isolated d"
  unfolding isolated_def using assms by (intro allI impI)

lemma isolated_less:
  assumes "isolated d" and "\<And>np. users d' np \<subseteq> users d np"
  shows "isolated d'"
proof (rule isolatedI)
  fix np p g i n p' g' i' n'
  assume "(p, g, i, n) \<in> users d' np" "(p', g', i', n') \<in> users d' np"
  then have "(p, g, i, n) \<in> users d np" "(p', g', i', n') \<in> users d np"
    using assms(2) [of np] by (simp_all add: subset_iff)
  then show "n = n' \<longleftrightarrow> p = p' \<and> i = i'" by (rule isolatedD [OF assms(1)])
qed

text \<open>A new user shares the VLAN of its project and isolation number, or takes a new one.\<close>

lemma isolated_insert:
  assumes "isolated d" and "users d' = (users d)(np := insert (p, g, i, n) (users d np))"
    and "(\<exists>h. (p, h, i, n) \<in> users d np) \<or>
         (\<forall>h k. (p, h, i, k) \<notin> users d np) \<and> (\<forall>q h j. (q, h, j, n) \<notin> users d np)"
  shows "isolated d'"
proof -
  have new: "n = k \<longleftrightarrow> p = q \<and> i = j" if "(q, h, j, k) \<in> users d np" for q h j k
    using assms(3)
  proof
    assume "\<exists>h. (p, h, i, n) \<in> users d np"
    then obtain h where "(p, h, i, n) \<in> users d np" ..
    from isolatedD [OF assms(1) this that] show ?thesis .
  next
    assume "(\<forall>h k. (p, h, i, k) \<notin> users d np) \<and> (\<forall>q h j. (q, h, j, n) \<notin> users d np)"
    then show ?thesis using that by blast
  qed
  show ?thesis
  proof (rule isolatedI)
    fix q a h j k a' h' j' k'
    assume u: "(a, h, j, k) \<in> users d' q" "(a', h', j', k') \<in> users d' q"
    show "(k = k') = (a = a' \<and> j = j')"
    proof (cases "q = np")
      case True
      then have "(a, h, j, k) = (p, g, i, n) \<or> (a, h, j, k) \<in> users d np"
        "(a', h', j', k') = (p, g, i, n) \<or> (a', h', j', k') \<in> users d np"
        using u assms(2) by auto
      then show ?thesis using new isolatedD [OF assms(1)] by (elim disjE) (auto simp: eq_commute)
    next
      case False
      then have "(a, h, j, k) \<in> users d q" "(a', h', j', k') \<in> users d q"
        using u assms(2) by simp_all
      then show ?thesis by (rule isolatedD [OF assms(1)])
    qed
  qed
qed

end
