(* ===== verification/VlanPool.thy ===== *)
theory VlanPool
  imports VlanTenancy
begin

text \<open>
  \<open>CVlanPool\<close> (\<open>vlan_pool.h/.cpp\<close>): the allocation of VLANs. A pool is built for one call: \<open>Init\<close>
  reads the status of every VLAN, \<open>AllocVlanID\<close> reuses the VLAN that the project and isolation
  number already have on the netplane or takes the first usable one, and \<open>FreeVlanID\<close> removes the
  map entry and, when no entry is left, the VLAN.
\<close>

section \<open>State and initialisation\<close>

definition VLAN_POOL_SIZE :: nat where "VLAN_POOL_SIZE = 4096"
definition VNET_MIN_MAP_VLAN_ID :: int where "VNET_MIN_MAP_VLAN_ID = 2"
definition VNET_VLAN_STATUS_UNUSABLE :: uint8 where "VNET_VLAN_STATUS_UNUSABLE = 0"
definition VNET_VLAN_STATUS_USABLE :: uint8 where "VNET_VLAN_STATUS_USABLE = 1"
definition VNET_VLAN_STATUS_USED :: uint8 where "VNET_VLAN_STATUS_USED = 2"

lemmas status_defs [code_defs] = VLAN_POOL_SIZE_def VNET_MIN_MAP_VLAN_ID_def
  VNET_VLAN_STATUS_UNUSABLE_def VNET_VLAN_STATUS_USABLE_def VNET_VLAN_STATUS_USED_def

record CVlanPool =
  m_vecVlanStatus :: "uint8 list"
  m_pVlanRange :: "TVlanRangeItem list option"
  m_strNetplaneID :: string

definition CVlanPool_new :: CVlanPool where
  "CVlanPool_new = \<lparr>m_vecVlanStatus = [], m_pVlanRange = None, m_strNetplaneID = []\<rparr>"

definition CVlanPool_Init_free :: "string \<Rightarrow> CVlanPool \<Rightarrow> rc \<times> CVlanPool" where
  "CVlanPool_Init_free u p = (if u = [] then (- 1, p) else (0, p\<lparr>m_strNetplaneID := u\<rparr>))"

text \<open>
  The status vector: the VLANs of the ranges are usable, those of the pool used. The rows of both
  tables are within 4094, so no index is out of bounds.
\<close>

definition mark_range :: "uint8 list \<Rightarrow> TVlanRangeItem \<Rightarrow> uint8 list" where
  "mark_range st r =
     foldl (\<lambda>st i. st[i := VNET_VLAN_STATUS_USABLE]) st
       [unat (dwVlanIDStart r) ..< Suc (unat (dwVlanIDEnd r))]"

definition vlan_status :: "TVlanRangeItem list \<Rightarrow> int list \<Rightarrow> uint8 list" where
  "vlan_status ranges used =
     foldl (\<lambda>st n. st[nat n := VNET_VLAN_STATUS_USED])
       (foldl mark_range (replicate VLAN_POOL_SIZE VNET_VLAN_STATUS_UNUSABLE) ranges) used"

definition CVlanPool_Init ::
  "TVlanRangeItem list option \<Rightarrow> string \<Rightarrow> CVlanPool \<Rightarrow> vdb \<Rightarrow> rc \<times> CVlanPool \<times> vdb" where
  "CVlanPool_Init pVlanRange u p d =
     (case pVlanRange of
        None \<Rightarrow> (- 1, p, d)
      | Some ranges \<Rightarrow>
          if u = [] then (- 1, p, d)
          else let p1 = p\<lparr>m_pVlanRange := Some ranges, m_strNetplaneID := u\<rparr> in
               if \<not> m_bInit d then (- 1, p1, d)
               else (case VlanPool_Query u d of
                       (nRet, vecVlanPool, d1) \<Rightarrow>
                         if VNET_DB_SUCCESS \<noteq> nRet then (- 1, p1, d1)
                         else (0, p1\<lparr>m_vecVlanStatus := vlan_status ranges vecVlanPool\<rparr>, d1)))"

section \<open>Allocation\<close>

definition int32_of :: "uint32 \<Rightarrow> int" where "int32_of w = sint w"

text \<open>The map entry of a VLAN: a check, then the addition (lines 171-188 and 236-252).\<close>

definition add_vlan_map :: "int \<Rightarrow> string \<Rightarrow> uint32 \<Rightarrow> int \<Rightarrow> vdb \<Rightarrow> rc \<times> vdb" where
  "add_vlan_map nProjID pg dwAlloc nIso d =
     (case VlanMap_CheckAdd nProjID pg (int32_of dwAlloc) nIso d of
        (nRet, d1) \<Rightarrow>
          if VNET_DB_SUCCESS \<noteq> nRet then (- 1, d1)
          else (case VlanMap_Add nProjID pg (int32_of dwAlloc) nIso d1 of
                  (nRet, d2) \<Rightarrow> if VNET_DB_SUCCESS \<noteq> nRet then (- 1, d2) else (0, d2)))"

text \<open>The search loop (lines 198-207): the first usable VLAN from \<open>i\<close> on.\<close>

function usable_from :: "uint8 list \<Rightarrow> int \<Rightarrow> int option" where
  "usable_from st i =
     (if i > uint VNET_MAX_MAP_VLAN_ID then None
      else if st ! nat i = VNET_VLAN_STATUS_USABLE then Some i
      else usable_from st (i + 1))"
  by auto
termination
  by (relation "measure (\<lambda>(st, i). nat (uint VNET_MAX_MAP_VLAN_ID + 1 - i))") auto

declare usable_from.simps [simp del]

definition take_usable :: "CVlanPool \<Rightarrow> (uint32 \<times> CVlanPool) option" where
  "take_usable p =
     (case usable_from (m_vecVlanStatus p) VNET_MIN_MAP_VLAN_ID of
        None \<Rightarrow> None
      | Some i \<Rightarrow>
          Some (word_of_int i, p\<lparr>m_vecVlanStatus := (m_vecVlanStatus p)[nat i := VNET_VLAN_STATUS_USED]\<rparr>))"

text \<open>Allocating a VLAN that is not in use (lines 191-252).\<close>

definition alloc_new_vlan ::
  "int \<Rightarrow> string \<Rightarrow> int \<Rightarrow> uint32 \<Rightarrow> CVlanPool \<Rightarrow> vdb \<Rightarrow> rc \<times> uint32 \<times> CVlanPool \<times> vdb" where
  "alloc_new_vlan nProjID pg nIso old p d =
     (if \<not> m_bInit d then (- 1, old, p, d)
      else case take_usable p of
             None \<Rightarrow> (- 1, - 1, p, d)
           | Some (v, p1) \<Rightarrow>
               (case VlanPool_CheckAdd (m_strNetplaneID p1) (int32_of v) d of
                  (nRet, d1) \<Rightarrow>
                    if VNET_DB_SUCCESS \<noteq> nRet then (- 1, v, p1, d1)
                    else (case VlanPool_Add (m_strNetplaneID p1) (int32_of v) d1 of
                            (nRet, d2) \<Rightarrow>
                              if VNET_DB_SUCCESS \<noteq> nRet then (- 1, v, p1, d2)
                              else (case add_vlan_map nProjID pg v nIso d2 of
                                      (nRet, d3) \<Rightarrow> (nRet, v, p1, d3)))))"

definition CVlanPool_AllocVlanID ::
  "string \<Rightarrow> int \<Rightarrow> string \<Rightarrow> int \<Rightarrow> uint32 \<Rightarrow> CVlanPool \<Rightarrow> vdb \<Rightarrow> rc \<times> uint32 \<times> CVlanPool \<times> vdb"
where
  "CVlanPool_AllocVlanID np nProjID pg nIso old p d =
     (if m_pVlanRange p = None \<or> m_strNetplaneID p = [] then (- 1, old, p, d)
      else if pg = [] then (- 1, old, p, d)
      else if np = [] then (- 1, old, p, d)
      else if \<not> m_bInit d then (- 1, old, p, d)
      else case VlanMap_QueryByNpProjectIdIsolateNo np nProjID nIso d of
             (nRet, vecVlanMap, d1) \<Rightarrow>
               if VNET_DB_SUCCESS \<noteq> nRet then (- 1, old, p, d1)
               else (case vecVlanMap of
                       m # _ \<Rightarrow>
                         let v = word_of_int (VlanNum m) in
                         if list_ex (\<lambda>x. ProjectId x = nProjID \<and> PgUuid x = pg \<and> IsolateNo x = nIso)
                              vecVlanMap
                         then (0, v, p, d1)
                         else (case add_vlan_map nProjID pg v nIso d1 of
                                 (nRet, d2) \<Rightarrow> (nRet, v, p, d2))
                     | [] \<Rightarrow> alloc_new_vlan nProjID pg nIso old p d1))"

section \<open>Release\<close>

text \<open>The VLAN after its map entry is gone (lines 325-352).\<close>

definition free_pool_vlan :: "string \<Rightarrow> uint32 \<Rightarrow> vdb \<Rightarrow> rc \<times> vdb" where
  "free_pool_vlan u v d =
     (case VlanPool_CheckDel u (int32_of v) d of
        (nRet, d1) \<Rightarrow>
          if VNET_DB_SUCCESS \<noteq> nRet then
            if VNET_DB_IS_RESOURCE_USING nRet \<or> VNET_DB_IS_ITEM_NO_EXIST nRet then (0, d1)
            else (- 1, d1)
          else (case VlanPool_Del u (int32_of v) d1 of
                  (nRet, d2) \<Rightarrow> if VNET_DB_SUCCESS \<noteq> nRet then (- 1, d2) else (0, d2)))"

definition CVlanPool_FreeVlanID ::
  "int \<Rightarrow> string \<Rightarrow> int \<Rightarrow> uint32 \<Rightarrow> CVlanPool \<Rightarrow> vdb \<Rightarrow> rc \<times> uint32 \<times> vdb" where
  "CVlanPool_FreeVlanID nProjID pg nIso old p d =
     (if m_strNetplaneID p = [] then (- 1, old, d)
      else if pg = [] then (- 1, old, d)
      else if \<not> m_bInit d then (- 1, old, d)
      else case VlanMap_QueryByProjectIdPGIsolateNo nProjID pg nIso (int32_of old) d of
             (nRet, n, d1) \<Rightarrow>
               let v = word_of_int n in
               if VNET_DB_SUCCESS \<noteq> nRet then
                 if VNET_DB_IS_ITEM_NO_EXIST nRet then (0, v, d1) else (- 1, v, d1)
               else (case VlanMap_CheckDel nProjID pg (int32_of v) nIso d1 of
                       (nRet, d2) \<Rightarrow>
                         if VNET_DB_SUCCESS \<noteq> nRet then
                           if VNET_DB_IS_RESOURCE_USING nRet \<or> VNET_DB_IS_ITEM_NO_EXIST nRet
                           then (0, v, d2) else (- 1, v, d2)
                         else (case VlanMap_Del nProjID pg (int32_of v) nIso d2 of
                                 (nRet, d3) \<Rightarrow>
                                   if VNET_DB_SUCCESS \<noteq> nRet then (- 1, v, d3)
                                   else (case free_pool_vlan (m_strNetplaneID p) v d3 of
                                           (nRet, d4) \<Rightarrow> (nRet, v, d4)))))"

section \<open>The steps of an allocation\<close>

lemma int32_small: "0 \<le> n \<Longrightarrow> n \<le> 4094 \<Longrightarrow> int32_of (word_of_int n) = n"
  by (simp add: int32_of_def sint_small uint_of_int_small)

text \<open>
  A step \<open>grows\<close> the tables: the keys stay in order, users and VLANs are only added, and nothing but the
  two tables changes.
\<close>

definition rest_kept :: "vdb \<Rightarrow> vdb \<Rightarrow> bool" where
  "rest_kept d d' \<longleftrightarrow>
     vlan_range d' = vlan_range d \<and> port_group d' = port_group d \<and> netplane d' = netplane d \<and>
     vm_pg d' = vm_pg d \<and> uplink_pg d' = uplink_pg d \<and> access_isolate d' = access_isolate d \<and> m_bInit d' = m_bInit d \<and>
     vnic d' = vnic d \<and> vsi_profile d' = vsi_profile d \<and> vm d' = vm d \<and>
     access_vlan d' = access_vlan d \<and> trunk_vlan_range d' = trunk_vlan_range d \<and>
     serial_vlan_range d \<le> serial_vlan_range d'"

lemma rest_kept_refl [simp]: "rest_kept d d"
  by (simp add: rest_kept_def)

lemma rest_kept_trans: "rest_kept a b \<Longrightarrow> rest_kept b c \<Longrightarrow> rest_kept a c"
  by (auto simp: rest_kept_def)

lemma rest_kept_read: "same_tables d d1 \<Longrightarrow> rest_kept d1 d' = rest_kept d d'"
  using arg_cong [of "d\<lparr>env := []\<rparr>" "d1\<lparr>env := []\<rparr>" serial_vlan_range]
  by (simp add: same_tables_def rest_kept_def flip: same_tables_def)
    (simp add: same_rows_sel [OF same_tables_rows])

lemma rest_kept_same_rows: "same_rows d d' \<Longrightarrow> rest_kept d d'"
  by (simp add: rest_kept_def same_rows_sel) (simp add: same_rows_def)

lemma rest_kept_updates:
  "same_rows (d\<lparr>vlan_pool := vs\<rparr>) d' \<Longrightarrow> rest_kept d d'"
  "same_rows (d\<lparr>vlan_map := ms\<rparr>) d' \<Longrightarrow> rest_kept d d'"
  by (drule rest_kept_same_rows, simp add: rest_kept_def)+

lemma rest_kept_effects:
  "pool_added u n d d' \<Longrightarrow> rest_kept d d'" "pool_deleted u n d d' \<Longrightarrow> rest_kept d d'"
  "map_added proj pg n ino d d' \<Longrightarrow> rest_kept d d'" "map_deleted proj pg n ino d d' \<Longrightarrow> rest_kept d d'"
  by (auto simp: pool_added_def pool_deleted_def map_added_def map_deleted_def
      intro: rest_kept_updates)

lemma rest_kept_lookups:
  assumes "rest_kept d d'"
  shows "np_lookup u d' = np_lookup u d" "pg_netplane_lookup pg d' = pg_netplane_lookup pg d"
    "pg_named pg g d' = pg_named pg g d" "np_rows u d' = np_rows u d" "pg_in_use p g d' = pg_in_use p g d"
  using assms
  by (simp_all add: rest_kept_def np_lookup_def pg_netplane_lookup_def is_vm_pg_def pg_named_def
      np_rows_def pg_in_use_def cong: option.case_cong)

text \<open>The tables before a step, with the two invariants and the netplane of the port group.\<close>

definition pool_pre :: "string \<Rightarrow> int \<Rightarrow> vdb \<Rightarrow> bool" where
  "pool_pre pg np d \<longleftrightarrow> keys_ok d \<and> pg_netplane_lookup pg d = Some np"

lemma pool_pre_kept: "pool_pre pg np d \<Longrightarrow> rest_kept d d' \<Longrightarrow> keys_ok d' \<Longrightarrow> pool_pre pg np d'"
  by (simp add: pool_pre_def rest_kept_lookups)

lemma pool_pre_ids: "pool_pre pg np d \<Longrightarrow> distinct (map pg_uuid (port_group d))"
  by (simp add: pool_pre_def keys_ok_def ids_ok_def)

definition user_added :: "int \<Rightarrow> string \<Rightarrow> int \<Rightarrow> int \<Rightarrow> int \<Rightarrow> vdb \<Rightarrow> vdb \<Rightarrow> bool" where
  "user_added proj pg ino np n d d' \<longleftrightarrow>
     (\<exists>g. pg_named pg g d \<and> users d' = (users d)(np := insert (proj, g, ino, n) (users d np)))"

lemma map_has_user:
  assumes "pool_pre pg np d" and "map_has proj pg n ino d"
  shows "\<exists>g. pg_named pg g d \<and> (proj, g, ino, n) \<in> users d np"
proof -
  obtain g i m where gi: "vlanmap_args pg n ino d = Inr (g, i)" and m: "m \<in> set (vlan_map d)"
    "is_map_key proj g ino m" "vm_vlan_id m = i"
    using assms(2) by (auto simp: map_has_def)
  obtain v where "pg_named pg g d" "v \<in> set (vlan_pool d)" "vp_id v = i" "vp_netplane_id v = np" "vp_num v = n"
    using vlanmap_args_keys [OF _ gi] assms(1) unfolding pool_pre_def by metis
  then show ?thesis using m by (force simp: users_def is_map_key_def)
qed

lemma add_vlan_map_effect:
  assumes "pool_pre pg np d" and "add_vlan_map proj pg v ino d = (ret, d')"
  shows "keys_ok d' \<and> rest_kept d d' \<and> allocated d' = allocated d \<and>
         (users d' = users d \<or> user_added proj pg ino np (int32_of v) d d' \<and>
                               int32_of v \<in> allocated d np) \<and>
         (ret = 0 \<longrightarrow> user_added proj pg ino np (int32_of v) d d')"
proof -
  let ?n = "int32_of v"
  obtain r1 d1 where c: "VlanMap_CheckAdd proj pg ?n ino d = (r1, d1)" by fastforce
  have s1: "same_rows d d1" using VlanMap_CheckAdd_effect [OF c] by (rule same_tables_rows)
  have k1: "keys_ok d1" "rest_kept d d1" "allocated d1 = allocated d" "users d1 = users d"
    using assms(1) s1 by (auto simp: pool_pre_def fun_eq_iff allocated_same_rows users_same_rows
        rest_kept_same_rows intro: keys_ok_same_rows)
  show ?thesis
  proof (cases "r1 = 0")
    case False
    then show ?thesis using assms(2) c k1 by (auto simp: add_vlan_map_def rtn_defs)
  next
    case True
    obtain r2 d2 where a: "VlanMap_Add proj pg ?n ino d1 = (r2, d2)" by fastforce
    have d': "d' = d2" "ret = 0 \<Longrightarrow> r2 = 0"
      using assms(2) c a True by (auto simp: add_vlan_map_def rtn_defs split: if_splits)
    have pre1: "pool_pre pg np d1" by (rule pool_pre_kept [OF assms(1) k1(2,1)])
    note ad = VlanMap_Add_effect [OF a pool_pre_ids [OF pre1]]
    have named: "pg_named pg g d1 = pg_named pg g d" for g using k1(2) by (rule rest_kept_lookups)
    from ad(2) show ?thesis
    proof
      assume same: "same_rows d1 d2"
      have u: "users d2 = users d" "allocated d2 = allocated d"
        using users_same_rows [OF same] allocated_same_rows [OF same] k1 by (simp_all add: fun_eq_iff)
      have "user_added proj pg ino np ?n d d2" if "r2 = 0"
      proof -
        have "\<exists>g. pg_named pg g d1 \<and> (proj, g, ino, ?n) \<in> users d1 np"
          using ad(1) [OF that]
        proof
          assume "map_added proj pg ?n ino d1 d2"
          then obtain g where "pg_named pg g d1"
            "users d2 = (users d1)(np := insert (proj, g, ino, ?n) (users d1 np))"
            using map_added_effect [of d1 proj pg ?n ino d2 np] pre1 unfolding pool_pre_def by metis
          then show ?thesis using u k1(4) by (metis fun_upd_same insertI1)
        next
          assume "same_rows d1 d2 \<and> map_has proj pg ?n ino d1"
          then show ?thesis using map_has_user [OF pre1] by blast
        qed
        then show ?thesis using u k1(4) named by (auto simp: user_added_def insert_absorb)
      qed
      then show ?thesis
        using d' u keys_ok_same_rows [OF same k1(1)] rest_kept_trans [OF k1(2) rest_kept_same_rows [OF same]]
        by simp
    next
      assume m: "map_added proj pg ?n ino d1 d2"
      obtain g where g: "pg_named pg g d1" "keys_ok d2" "?n \<in> allocated d1 np"
        "users d2 = (users d1)(np := insert (proj, g, ino, ?n) (users d1 np))" "allocated d2 = allocated d1"
        using map_added_effect [OF k1(1) m] pre1 unfolding pool_pre_def by metis
      have "user_added proj pg ino np ?n d d2"
        using g(1,4) k1(4) named by (auto simp: user_added_def)
      then show ?thesis
        using d' g k1 rest_kept_trans [OF k1(2) rest_kept_effects(3) [OF m]] by simp
    qed
  qed
qed

text \<open>A VLAN of the netplane's ranges that no one had before.\<close>

definition vlan_taken :: "int \<Rightarrow> int \<Rightarrow> vdb \<Rightarrow> vdb \<Rightarrow> bool" where
  "vlan_taken np n d d' \<longleftrightarrow>
     n \<notin> allocated d np \<and> allocated d' = (allocated d)(np := insert n (allocated d np)) \<and>
     2 \<le> n \<and> n \<le> 4094 \<and>
     (\<exists>r \<in> set (vlan_range d). vr_netplane_id r = np \<and> vr_begin r \<le> n \<and> n \<le> vr_end r)"

lemma usable_from_Some:
  "usable_from st i = Some j \<Longrightarrow>
     i \<le> j \<and> j \<le> 4094 \<and> st ! nat j = VNET_VLAN_STATUS_USABLE \<and>
     (\<forall>k. i \<le> k \<and> k < j \<longrightarrow> st ! nat k \<noteq> VNET_VLAN_STATUS_USABLE)"
proof (induction st i rule: usable_from.induct)
  case (1 st i)
  have max: "uint VNET_MAX_MAP_VLAN_ID = 4094" by (simp add: VNET_MAX_MAP_VLAN_ID_def)
  show ?case
  proof (cases "i \<le> 4094 \<and> st ! nat i \<noteq> VNET_VLAN_STATUS_USABLE")
    case True
    then have "usable_from st (i + 1) = Some j"
      using "1.prems" by (simp add: usable_from.simps [of st i] max)
    with "1.IH" True have ih: "i + 1 \<le> j \<and> j \<le> 4094 \<and> st ! nat j = VNET_VLAN_STATUS_USABLE \<and>
       (\<forall>k. i + 1 \<le> k \<and> k < j \<longrightarrow> st ! nat k \<noteq> VNET_VLAN_STATUS_USABLE)"
      by (simp add: max)
    have "st ! nat k \<noteq> VNET_VLAN_STATUS_USABLE" if "i \<le> k" "k < j" for k
      using ih True that by (cases "k = i") auto
    then show ?thesis using ih by simp
  next
    case False
    then have "j = i \<and> i \<le> 4094 \<and> st ! nat i = VNET_VLAN_STATUS_USABLE"
      using "1.prems" by (auto simp: usable_from.simps [of st i] max split: if_splits)
    then show ?thesis by auto
  qed
qed

lemma usable_from_None:
  "usable_from st i = None \<Longrightarrow> i \<le> k \<Longrightarrow> k \<le> 4094 \<Longrightarrow> st ! nat k \<noteq> VNET_VLAN_STATUS_USABLE"
proof (induction st i rule: usable_from.induct)
  case (1 st i)
  have max: "uint VNET_MAX_MAP_VLAN_ID = 4094" by (simp add: VNET_MAX_MAP_VLAN_ID_def)
  have "i \<le> 4094" using "1.prems" by simp
  then have "st ! nat i \<noteq> VNET_VLAN_STATUS_USABLE" "usable_from st (i + 1) = None"
    using "1.prems"(1) by (simp_all add: usable_from.simps [of st i] max split: if_splits)
  then show ?case using "1.IH" "1.prems" \<open>i \<le> 4094\<close> by (cases "k = i") (simp_all add: max)
qed

lemma take_usable_SomeD:
  assumes "take_usable p = Some (v, p1)"
  shows "m_strNetplaneID p1 = m_strNetplaneID p" and "2 \<le> unat v" and "unat v \<le> 4094"
    and "m_vecVlanStatus p ! unat v = VNET_VLAN_STATUS_USABLE"
    and "\<forall>k. 2 \<le> k \<and> k < unat v \<longrightarrow> m_vecVlanStatus p ! k \<noteq> VNET_VLAN_STATUS_USABLE"
proof -
  obtain i where u: "usable_from (m_vecVlanStatus p) 2 = Some i" and v: "v = word_of_int i"
    and p1: "p1 = p\<lparr>m_vecVlanStatus := (m_vecVlanStatus p)[nat i := VNET_VLAN_STATUS_USED]\<rparr>"
    using assms by (auto simp: take_usable_def VNET_MIN_MAP_VLAN_ID_def split: option.splits)
  note i = usable_from_Some [OF u]
  have nv: "unat v = nat i" using i v by (simp add: uint_of_int_small)
  show "m_strNetplaneID p1 = m_strNetplaneID p" and "2 \<le> unat v" and "unat v \<le> 4094"
    and "m_vecVlanStatus p ! unat v = VNET_VLAN_STATUS_USABLE"
    using i p1 nv by (simp_all add: le_nat_iff nat_le_iff)
  show "\<forall>k. 2 \<le> k \<and> k < unat v \<longrightarrow> m_vecVlanStatus p ! k \<noteq> VNET_VLAN_STATUS_USABLE"
  proof (intro allI impI)
    fix k assume "2 \<le> k \<and> k < unat v"
    then have "2 \<le> int k \<and> int k < i" using nv by auto
    then show "m_vecVlanStatus p ! k \<noteq> VNET_VLAN_STATUS_USABLE" using i by fastforce
  qed
qed

lemma alloc_new_vlan_effect:
  assumes "pool_pre pg np d" and "np_lookup (m_strNetplaneID p) d = Some np"
    and "alloc_new_vlan proj pg ino old p d = (ret, v, p', d')"
  shows "keys_ok d' \<and> rest_kept d d' \<and>
         (users d' = users d \<and> (allocated d' = allocated d \<or> vlan_taken np (int32_of v) d d') \<or>
          user_added proj pg ino np (int32_of v) d d' \<and> vlan_taken np (int32_of v) d d') \<and>
         (ret = 0 \<longrightarrow> user_added proj pg ino np (int32_of v) d d' \<and> vlan_taken np (int32_of v) d d')"
proof (cases "take_usable p")
  case None
  then show ?thesis
    using assms by (auto simp: alloc_new_vlan_def pool_pre_def split: if_splits)
next
  case (Some vp)
  obtain w p1 where w: "take_usable p = Some (w, p1)" using Some by (cases vp) auto
  have k: "keys_ok d" using assms(1) by (simp add: pool_pre_def)
  show ?thesis
  proof (cases "m_bInit d")
    case False
    then show ?thesis using assms(3) k by (simp add: alloc_new_vlan_def)
  next
    case init: True
    let ?n = "int32_of w"
    obtain r1 d1 where c: "VlanPool_CheckAdd (m_strNetplaneID p) ?n d = (r1, d1)" by fastforce
    have s1: "same_rows d d1" using VlanPool_CheckAdd_effect [OF c] by (rule same_tables_rows)
    have k1: "keys_ok d1" "rest_kept d d1" "allocated d1 = allocated d" "users d1 = users d"
      using k s1 by (auto simp: fun_eq_iff allocated_same_rows users_same_rows
          rest_kept_same_rows intro: keys_ok_same_rows)
    show ?thesis
    proof (cases "r1 = 0")
      case False
      then show ?thesis using assms(3) w c k1 init take_usable_SomeD(1) [OF w]
        by (auto simp: alloc_new_vlan_def rtn_defs)
    next
      case True
      obtain r2 d2 where a: "VlanPool_Add (m_strNetplaneID p) ?n d1 = (r2, d2)" by fastforce
      have l1: "np_lookup (m_strNetplaneID p) d1 = Some np"
        using assms(2) k1(2) by (simp add: rest_kept_lookups)
      from VlanPool_Add_effect(2) [OF a] show ?thesis
      proof
        assume same: "same_rows d1 d2"
        have u: "users d2 = users d" "allocated d2 = allocated d" "keys_ok d2" "rest_kept d d2"
          using users_same_rows [OF same] allocated_same_rows [OF same] k1 keys_ok_same_rows [OF same]
            rest_kept_trans [OF k1(2) rest_kept_same_rows [OF same]] by (simp_all add: fun_eq_iff)
        have "r2 \<noteq> 0"
        proof
          assume "r2 = 0"
          then have "pool_added (m_strNetplaneID p) ?n d1 d2" using VlanPool_Add_effect(1) [OF a] by simp
          note e = pool_added_effect [OF k1(1) this l1]
          have "?n \<in> allocated d2 np" using e(7) by simp
          then show False using e(3) k1(3) u(2) by simp
        qed
        then show ?thesis using assms(3) w c a True init u take_usable_SomeD(1) [OF w]
          by (auto simp: alloc_new_vlan_def rtn_defs)
      next
        assume m: "pool_added (m_strNetplaneID p) ?n d1 d2"
        note e = pool_added_effect [OF k1(1) m l1]
        have k2: "rest_kept d d2" using rest_kept_trans [OF k1(2) rest_kept_effects(1) [OF m]] .
        have t2: "vlan_taken np ?n d d2"
          using e k1 by (simp add: vlan_taken_def rest_kept_def)
        show ?thesis
        proof (cases "r2 = 0")
          case False
          then show ?thesis using assms(3) w c a True init take_usable_SomeD(1) [OF w] e(1,2) k1(4) k2 t2
            by (auto simp: alloc_new_vlan_def rtn_defs)
        next
          case r2: True
          obtain r3 d3 where b: "add_vlan_map proj pg w ino d2 = (r3, d3)" by fastforce
          have pre2: "pool_pre pg np d2" by (rule pool_pre_kept [OF assms(1) k2 e(1)])
          note f = add_vlan_map_effect [OF pre2 b]
          have out: "ret = r3" "v = w" "d' = d3"
            using assms(3) w c a b True r2 init take_usable_SomeD(1) [OF w]
            by (auto simp: alloc_new_vlan_def rtn_defs)
          have u3: "user_added proj pg ino np ?n d2 d3 = user_added proj pg ino np ?n d d3"
            using e(2) k1(4) k2 by (simp add: user_added_def rest_kept_lookups)
          have t3: "vlan_taken np ?n d d3" using t2 f by (simp add: vlan_taken_def)
          show ?thesis
            unfolding out using f u3 t3 e(2) k1(4) rest_kept_trans [OF k2] by simp blast
        qed
      qed
    qed
  qed
qed

section \<open>The effect of \<open>AllocVlanID\<close>\<close>

lemma np_lookup_inj:
  assumes "ids_ok d" and "np_lookup u d = Some np" and "np_lookup u' d = Some np"
  shows "u = u'"
  using assms np_lookup_iff [OF assms(1)] by (auto simp: ids_ok_def distinct_map inj_on_def)

lemma allocated_bounds: "keys_ok d \<Longrightarrow> n \<in> allocated d np \<Longrightarrow> 2 \<le> n \<and> n \<le> 4094"
  by (auto simp: keys_ok_def pool_ok_def allocated_def)

lemma QueryByNpProjectIdIsolateNo_effect:
  assumes "VlanMap_QueryByNpProjectIdIsolateNo u proj ino d = (ret, rows, d')"
  shows "same_tables d d'"
    and "ret = 0 \<Longrightarrow> rows = filter (\<lambda>x. NetplaneUuid x = u \<and> ProjectId x = proj \<and> IsolateNo x = ino)
                             (v_net_vlanmap_netplane_pg_vlan d)"
proof -
  let ?f = "\<lambda>d. filter (\<lambda>x. NetplaneUuid x = u \<and> ProjectId x = proj \<and> IsolateNo x = ino)
                (v_net_vlanmap_netplane_pg_vlan d)"
  have e: "?f e = ?f d" if "same_tables d e" for e
    using same_rows_lookups(10) [OF same_tables_rows [OF that]] by simp
  have q: "db_query_op (\<lambda>d. Some (?f d, d)) d = (ret, rows, d')"
    using assms unfolding VlanMap_QueryByNpProjectIdIsolateNo_def
      pf_net_query_vlanmap_by_netplane_and_project_and_isolate_def .
  show "same_tables d d'" "ret = 0 \<Longrightarrow> rows = ?f d"
    using db_query_op_readonly(1,2) [OF q e] by simp_all
qed

text \<open>The rows of the query are the users with the project and the isolation number.\<close>

lemma query_rows_users:
  assumes "keys_ok d" and "np_lookup u d = Some np"
    and "rows = filter (\<lambda>x. NetplaneUuid x = u \<and> ProjectId x = proj \<and> IsolateNo x = ino)
                  (v_net_vlanmap_netplane_pg_vlan d)"
  shows "x \<in> set rows \<Longrightarrow> \<exists>g. pg_named (PgUuid x) g d \<and> (proj, g, ino, VlanNum x) \<in> users d np"
    and "(proj, g, ino, n) \<in> users d np \<Longrightarrow> rows \<noteq> []"
proof -
  assume x: "x \<in> set rows"
  with view_row_users [OF assms(1), of x] assms(2,3)
  show "\<exists>g. pg_named (PgUuid x) g d \<and> (proj, g, ino, VlanNum x) \<in> users d np" by auto
next
  assume "(proj, g, ino, n) \<in> users d np"
  from users_view_row [OF assms(1) this] obtain x where x: "x \<in> set (v_net_vlanmap_netplane_pg_vlan d)"
    "np_lookup (NetplaneUuid x) d = Some np" "ProjectId x = proj" "IsolateNo x = ino" by blast
  have "NetplaneUuid x = u"
    using np_lookup_inj [OF _ x(2) assms(2)] assms(1) by (simp add: keys_ok_def)
  then show "rows \<noteq> []" using x assms(3) by (auto simp: filter_empty_conv)
qed

definition alloc_done :: "int \<Rightarrow> string \<Rightarrow> int \<Rightarrow> int \<Rightarrow> int \<Rightarrow> vdb \<Rightarrow> vdb \<Rightarrow> bool" where
  "alloc_done proj pg ino np n d d' \<longleftrightarrow>
     user_added proj pg ino np n d d' \<and>
     (if \<exists>g k. (proj, g, ino, k) \<in> users d np
      then (\<exists>g. (proj, g, ino, n) \<in> users d np) \<and> allocated d' = allocated d
      else vlan_taken np n d d')"

definition alloc_safe :: "int \<Rightarrow> string \<Rightarrow> int \<Rightarrow> int \<Rightarrow> int \<Rightarrow> vdb \<Rightarrow> vdb \<Rightarrow> bool" where
  "alloc_safe proj pg ino np n d d' \<longleftrightarrow>
     keys_ok d' \<and> rest_kept d d' \<and>
     (users d' = users d \<and> (allocated d' = allocated d \<or> vlan_taken np n d d') \<or>
      alloc_done proj pg ino np n d d')"

lemma alloc_safe_kept:
  assumes "isolated d" and "alloc_safe proj pg ino np n d d'"
  shows "isolated d'" and "users d q \<subseteq> users d' q" and "allocated d q \<subseteq> allocated d' q"
    and "keys_ok d'" and "rest_kept d d'"
proof -
  have "isolated d' \<and> users d q \<subseteq> users d' q \<and> allocated d q \<subseteq> allocated d' q"
  proof (cases "users d' = users d")
    case True
    then show ?thesis
      using assms isolated_users [OF True]
      by (auto simp: alloc_safe_def alloc_done_def vlan_taken_def split: if_splits)
  next
    case False
    then have fin: "alloc_done proj pg ino np n d d'" using assms(2) by (simp add: alloc_safe_def)
    then obtain g where u: "users d' = (users d)(np := insert (proj, g, ino, n) (users d np))"
      by (auto simp: alloc_done_def user_added_def)
    have "(\<exists>h. (proj, h, ino, n) \<in> users d np) \<or>
          (\<forall>h k. (proj, h, ino, k) \<notin> users d np) \<and> (\<forall>q h j. (q, h, j, n) \<notin> users d np)"
      using fin users_allocated [of _ _ _ n d np]
      by (auto simp: alloc_done_def vlan_taken_def split: if_splits)
    then have "isolated d'" by (rule isolated_insert [OF assms(1) u])
    then show ?thesis
      using u fin by (auto simp: alloc_done_def vlan_taken_def split: if_splits)
  qed
  then show "isolated d'" "users d q \<subseteq> users d' q" "allocated d q \<subseteq> allocated d' q" by auto
  show "keys_ok d'" "rest_kept d d'" using assms(2) by (simp_all add: alloc_safe_def)
qed

lemma alloc_safe_refl: "keys_ok d \<Longrightarrow> alloc_safe proj pg ino np n d d"
  by (simp add: alloc_safe_def)

text \<open>The first step only reads, so the predicates may start before or after it.\<close>

lemma alloc_read_first:
  assumes "same_tables d d1"
  shows "alloc_safe proj pg ino np n d1 d' = alloc_safe proj pg ino np n d d'"
    and "alloc_done proj pg ino np n d1 d' = alloc_done proj pg ino np n d d'"
proof -
  have e: "users d1 = users d" "allocated d1 = allocated d" "vlan_range d1 = vlan_range d"
    "pg_named pg g d1 = pg_named pg g d" "rest_kept d1 d' = rest_kept d d'" for g
    using rest_kept_read [OF assms] same_tables_rows [OF assms]
    by (simp_all add: fun_eq_iff users_same_rows allocated_same_rows same_rows_sel
        pg_named_def)
  show "alloc_safe proj pg ino np n d1 d' = alloc_safe proj pg ino np n d d'"
    "alloc_done proj pg ino np n d1 d' = alloc_done proj pg ino np n d d'"
    by (simp_all add: alloc_safe_def alloc_done_def user_added_def vlan_taken_def e)
qed

lemma alloc_mapped_effect:
  assumes "pool_pre pg np d" and "isolated d" and "(proj, h, ino, n) \<in> users d np"
    and "add_vlan_map proj pg (word_of_int n) ino d = (ret, d')"
  shows "alloc_safe proj pg ino np n d d'" and "ret = 0 \<Longrightarrow> alloc_done proj pg ino np n d d'"
proof -
  have k: "keys_ok d" using assms(1) by (simp add: pool_pre_def)
  have n: "int32_of (word_of_int n) = n"
    using allocated_bounds [OF k users_allocated [OF assms(3)]] by (intro int32_small) auto
  note f = add_vlan_map_effect [OF assms(1,4), unfolded n]
  have d: "alloc_done proj pg ino np n d d'" if "user_added proj pg ino np n d d'"
    using that f assms(3) by (auto simp: alloc_done_def)
  show "alloc_safe proj pg ino np n d d'" using f d by (auto simp: alloc_safe_def)
  show "alloc_done proj pg ino np n d d'" if "ret = 0" using f d that by blast
qed

lemma alloc_hit_effect:
  assumes "pool_pre pg np d" and "isolated d" and "(proj, h, ino, n) \<in> users d np"
    and "pg_named pg g d" and "(proj, g, ino, k) \<in> users d np"
  shows "alloc_done proj pg ino np n d d"
proof -
  have "k = n" using isolatedD [OF assms(2,3,5)] by simp
  then show ?thesis
    using assms(3-5) by (auto simp: alloc_done_def user_added_def insert_absorb intro!: exI [of _ g])
qed

lemma AllocVlanID_effect:
  assumes "pool_pre pg np d" and "isolated d" and "np_lookup u d = Some np"
    and "m_strNetplaneID p = u" and "CVlanPool_AllocVlanID u proj pg ino old p d = (ret, v, p', d')"
  shows "alloc_safe proj pg ino np (int32_of v) d d' \<and>
         (ret = 0 \<longrightarrow> alloc_done proj pg ino np (int32_of v) d d')"
proof -
  have k: "keys_ok d" using assms(1) by (simp add: pool_pre_def)
  obtain r1 rows d1 where q: "VlanMap_QueryByNpProjectIdIsolateNo u proj ino d = (r1, rows, d1)"
    by (metis prod_cases3)
  note e = QueryByNpProjectIdIsolateNo_effect [OF q]
  have s: "same_rows d d1" using e(1) by (rule same_tables_rows)
  have pre1: "pool_pre pg np d1" "isolated d1" "keys_ok d1" "np_lookup u d1 = Some np"
    using pool_pre_kept [OF assms(1) rest_kept_same_rows [OF s] keys_ok_same_rows [OF s k]]
      isolated_same_rows [OF s] assms(2,3) same_rows_lookups [OF s] by (auto simp: pool_pre_def)
  note rd = alloc_read_first [OF e(1)]
  have safe: "alloc_safe proj pg ino np n d d1" for n
    using alloc_safe_refl [OF pre1(3)] rd(1) by blast
  show ?thesis
  proof (cases "m_pVlanRange p = None \<or> m_strNetplaneID p = [] \<or> pg = [] \<or> u = [] \<or> \<not> m_bInit d \<or> r1 \<noteq> 0")
    case True
    then have "ret = - 1 \<and> (d' = d \<or> d' = d1)"
      using assms(5) q by (auto simp: CVlanPool_AllocVlanID_def rtn_defs split: if_splits)
    then show ?thesis using safe alloc_safe_refl [OF k] by auto
  next
    case False
    then obtain rs where "m_pVlanRange p = Some rs" by auto
    with False have run: "(case rows of
         m # _ \<Rightarrow> let v = word_of_int (VlanNum m) in
                  if list_ex (\<lambda>x. ProjectId x = proj \<and> PgUuid x = pg \<and> IsolateNo x = ino) rows
                  then (0, v, p, d1)
                  else (case add_vlan_map proj pg v ino d1 of (nRet, d2) \<Rightarrow> (nRet, v, p, d2))
       | [] \<Rightarrow> alloc_new_vlan proj pg ino old p d1) = (ret, v, p', d')"
      using assms(5) q by (simp add: CVlanPool_AllocVlanID_def rtn_defs)
    have rows: "rows = filter (\<lambda>x. NetplaneUuid x = u \<and> ProjectId x = proj \<and> IsolateNo x = ino)
                  (v_net_vlanmap_netplane_pg_vlan d1)"
      using e(2) False same_rows_lookups(10) [OF s] by simp
    note ru = query_rows_users [OF pre1(3,4) rows]
    show ?thesis
    proof (cases rows)
      case Nil
      then have none: "\<not> (\<exists>g n. (proj, g, ino, n) \<in> users d1 np)" using ru(2) by blast
      have "alloc_new_vlan proj pg ino old p d1 = (ret, v, p', d')" using run Nil by simp
      with assms(4) pre1 have
        "keys_ok d' \<and> rest_kept d1 d' \<and>
         (users d' = users d1 \<and> (allocated d' = allocated d1 \<or> vlan_taken np (int32_of v) d1 d') \<or>
          user_added proj pg ino np (int32_of v) d1 d' \<and> vlan_taken np (int32_of v) d1 d') \<and>
         (ret = 0 \<longrightarrow> user_added proj pg ino np (int32_of v) d1 d' \<and> vlan_taken np (int32_of v) d1 d')"
        by (intro alloc_new_vlan_effect) simp_all
      then have "alloc_safe proj pg ino np (int32_of v) d1 d' \<and>
                 (ret = 0 \<longrightarrow> alloc_done proj pg ino np (int32_of v) d1 d')"
        using none by (simp add: alloc_safe_def alloc_done_def)
      then show ?thesis by (simp add: rd)
    next
      case (Cons m ms)
      obtain h where h: "(proj, h, ino, VlanNum m) \<in> users d1 np"
        using ru(1) [of m] Cons by auto
      have n: "int32_of (word_of_int (VlanNum m)) = VlanNum m"
        using allocated_bounds [OF pre1(3) users_allocated [OF h]] by (intro int32_small) auto
      show ?thesis
      proof (cases "list_ex (\<lambda>x. ProjectId x = proj \<and> PgUuid x = pg \<and> IsolateNo x = ino) rows")
        case True
        then obtain y where y: "y \<in> set rows" "PgUuid y = pg" by (auto simp: list_ex_iff)
        obtain g where g: "pg_named pg g d1" "(proj, g, ino, VlanNum y) \<in> users d1 np"
          using ru(1) [OF y(1)] y(2) by auto
        with run True Cons have "(0, word_of_int (VlanNum m), p, d1) = (ret, v, p', d')"
          by (simp only: list.case Let_def if_True)
        then show ?thesis
          using alloc_hit_effect [OF pre1(1,2) h g] safe n rd by simp
      next
        case False
        obtain r2 d2 where a: "add_vlan_map proj pg (word_of_int (VlanNum m)) ino d1 = (r2, d2)"
          by fastforce
        with run False Cons have "(r2, word_of_int (VlanNum m), p, d2) = (ret, v, p', d')"
          by (simp only: list.case Let_def if_False prod.case)
        then show ?thesis
          using alloc_mapped_effect [OF pre1(1,2) h a] n rd by simp
      qed
    qed
  qed
qed

section \<open>The effect of \<open>FreeVlanID\<close>\<close>

definition has_user :: "vdb \<Rightarrow> int \<Rightarrow> int \<Rightarrow> bool" where
  "has_user d np n \<longleftrightarrow> (\<exists>p g i. (p, g, i, n) \<in> users d np)"

definition vlan_released :: "int \<Rightarrow> int \<Rightarrow> vdb \<Rightarrow> vdb \<Rightarrow> bool" where
  "vlan_released np n d d' \<longleftrightarrow>
     \<not> has_user d' np n \<and> allocated d' = (allocated d)(np := allocated d np - {n})"

lemma free_pool_vlan_effect:
  assumes "keys_ok d" and "np_lookup u d = Some np" and "2 \<le> int32_of v" and "int32_of v \<le> 4094"
    and "free_pool_vlan u v d = (ret, d')"
  shows "keys_ok d' \<and> rest_kept d d' \<and> users d' = users d \<and>
         (allocated d' = allocated d \<or> vlan_released np (int32_of v) d d') \<and>
         (ret = 0 \<longrightarrow> (int32_of v \<in> allocated d' np \<longleftrightarrow> has_user d' np (int32_of v)))"
proof -
  let ?n = "int32_of v"
  obtain r1 d1 where c: "VlanPool_CheckDel u ?n d = (r1, d1)" by fastforce
  note ce = VlanPool_CheckDel_effect [OF c]
  have s1: "same_rows d d1" using ce(1) by (rule same_tables_rows)
  have k1: "keys_ok d1" "rest_kept d d1" "allocated d1 = allocated d" "users d1 = users d"
    "np_lookup u d1 = Some np"
    using assms(1,2) s1 by (auto simp: fun_eq_iff allocated_same_rows users_same_rows
        rest_kept_same_rows same_rows_lookups intro: keys_ok_same_rows)
  have used: "has_user d np ?n" if "VNET_DB_IS_RESOURCE_USING r1"
  proof -
    have pool: "pool_ok d" using assms(1) by (simp add: keys_ok_def)
    note chk = ce(2) [OF that]
    obtain i m where i: "vlan_pool_lookup np ?n d = Some i" and m: "m \<in> set (vlan_map d)" "vm_vlan_id m = i"
      using chk assms(2-4)
      by (auto simp: pf_net_check_del_netplane_vlanpool_def rtn_defs filter_empty_conv
          split: option.splits if_splits)
    then obtain w where "w \<in> set (vlan_pool d)" "vp_netplane_id w = np" "vp_num w = ?n" "vp_id w = i"
      using vlan_pool_lookup_iff [OF pool] by blast
    then show ?thesis using m by (force simp: has_user_def users_def)
  qed
  have missing: "?n \<notin> allocated d np" if "VNET_DB_IS_ITEM_NO_EXIST r1"
    using ce(3) [OF that] assms(2-4)
    by (auto simp: pf_net_check_del_netplane_vlanpool_def rtn_defs vlan_pool_lookup_None [symmetric]
        split: option.splits if_splits)
  have user_alloc: "has_user d np ?n \<Longrightarrow> ?n \<in> allocated d np"
    using users_allocated by (auto simp: has_user_def)
  show ?thesis
  proof (cases "r1 = 0")
    case False
    then have "d' = d1" "ret = 0 \<Longrightarrow> VNET_DB_IS_RESOURCE_USING r1 \<or> VNET_DB_IS_ITEM_NO_EXIST r1"
      using assms(5) c by (auto simp: free_pool_vlan_def rtn_defs split: if_splits)
    moreover have "has_user d1 np ?n = has_user d np ?n" using k1(4) by (simp add: has_user_def)
    ultimately show ?thesis using k1 used missing user_alloc by auto
  next
    case True
    obtain r2 d2 where a: "VlanPool_Del u ?n d1 = (r2, d2)" by fastforce
    have d': "d' = d2" "ret = 0 \<Longrightarrow> r2 = 0"
      using assms(5) c a True by (auto simp: free_pool_vlan_def rtn_defs split: if_splits)
    have del: "keys_ok d2 \<and> rest_kept d d2 \<and> users d2 = users d \<and> vlan_released np ?n d d2"
      if m: "pool_deleted u ?n d1 d2"
    proof -
      note e = pool_deleted_effect [OF k1(1) m k1(5)]
      have "\<not> has_user d2 np ?n" using e(2,4) by (auto simp: has_user_def)
      then show ?thesis
        using e k1 rest_kept_trans [OF k1(2) rest_kept_effects(2) [OF m]]
        by (simp add: vlan_released_def)
    qed
    from VlanPool_Del_effect(2) [OF a] show ?thesis
    proof
      assume same: "same_rows d1 d2"
      have u: "users d2 = users d" "allocated d2 = allocated d" "keys_ok d2" "rest_kept d d2"
        using users_same_rows [OF same] allocated_same_rows [OF same] k1 keys_ok_same_rows [OF same]
          rest_kept_trans [OF k1(2) rest_kept_same_rows [OF same]] by (simp_all add: fun_eq_iff)
      have "?n \<notin> allocated d2 np \<and> \<not> has_user d2 np ?n" if "r2 = 0"
        using VlanPool_Del_effect(1) [OF a that] del by (simp add: vlan_released_def)
      then show ?thesis using d' u by auto
    next
      assume "pool_deleted u ?n d1 d2"
      then show ?thesis using del d'(1) by (auto simp: vlan_released_def)
    qed
  qed
qed

lemma QueryByProjectIdPGIsolateNo_effect:
  assumes "VlanMap_QueryByProjectIdPGIsolateNo proj pg ino old d = (ret, n, d')"
  shows "same_tables d d'"
    and "ret = 0 \<Longrightarrow> \<exists>x \<in> set (v_net_vlanmap_netplane_pg_vlan d).
           ProjectId x = proj \<and> PgUuid x = pg \<and> IsolateNo x = ino \<and> VlanNum x = n"
    and "VNET_DB_IS_ITEM_NO_EXIST ret \<Longrightarrow> \<forall>x \<in> set (v_net_vlanmap_netplane_pg_vlan d).
           \<not> (ProjectId x = proj \<and> PgUuid x = pg \<and> IsolateNo x = ino)"
proof -
  let ?f = "\<lambda>d. filter (\<lambda>x. ProjectId x = proj \<and> PgUuid x = pg) (v_net_vlanmap_netplane_pg_vlan d)"
  obtain r rows d1 where q: "VlanMap_QueryByProjectIdPG proj pg d = (r, rows, d1)"
    by (metis prod_cases3)
  have e: "?f e = ?f d" if "same_tables d e" for e
    using same_rows_lookups(10) [OF same_tables_rows [OF that]] by simp
  have "db_query_op (\<lambda>d. Some (?f d, d)) d = (r, rows, d1)"
    using q unfolding VlanMap_QueryByProjectIdPG_def pf_net_query_vlanmap_by_projectid_and_pg_def .
  note qe = db_query_op_readonly [OF this e]
  show "same_tables d d'"
    using assms q qe(1) by (auto simp: VlanMap_QueryByProjectIdPGIsolateNo_def split: if_splits option.splits)
  show "\<exists>x \<in> set (v_net_vlanmap_netplane_pg_vlan d).
           ProjectId x = proj \<and> PgUuid x = pg \<and> IsolateNo x = ino \<and> VlanNum x = n" if z: "ret = 0"
  proof -
    have "r = 0" using assms q z
      by (auto simp: VlanMap_QueryByProjectIdPGIsolateNo_def rtn_defs split: if_splits)
    moreover from this obtain x where "find (\<lambda>x. IsolateNo x = ino) rows = Some x" "n = VlanNum x"
      using assms q z
      by (auto simp: VlanMap_QueryByProjectIdPGIsolateNo_def rtn_defs split: option.splits)
    ultimately show ?thesis using qe(2) find_SomeD by force
  qed
  show "\<forall>x \<in> set (v_net_vlanmap_netplane_pg_vlan d).
           \<not> (ProjectId x = proj \<and> PgUuid x = pg \<and> IsolateNo x = ino)" if i: "VNET_DB_IS_ITEM_NO_EXIST ret"
  proof -
    have "r = 0" using assms q i qe(3)
      by (auto simp: VlanMap_QueryByProjectIdPGIsolateNo_def rtn_defs split: if_splits)
    moreover from this have "find (\<lambda>x. IsolateNo x = ino) rows = None"
      using assms q i
      by (auto simp: VlanMap_QueryByProjectIdPGIsolateNo_def VNET_DB_IS_ITEM_NO_EXIST_def rtn_defs
          split: option.splits)
    ultimately show ?thesis using qe(2) by (auto simp: find_None_all)
  qed
qed

lemma find_Some_ex: "x \<in> set xs \<Longrightarrow> P x \<Longrightarrow> \<exists>y. find P xs = Some y"
  using find_None_all by fastforce

text \<open>A map entry of a port group is on the netplane of the port group.\<close>

lemma users_on_netplane:
  assumes "pool_pre pg np d" and "pg_named pg g d" and "(p, g, i, n) \<in> users d q"
  shows "q = np"
proof -
  have k: "ids_ok d" "pool_ok d" "map_ok d" using assms(1) by (simp_all add: pool_pre_def keys_ok_def)
  obtain m v where m: "m \<in> set (vlan_map d)" "v \<in> set (vlan_pool d)" "vp_id v = vm_vlan_id m"
    "vp_netplane_id v = q" "g = vm_pg_id m"
    using assms(3) by (auto simp: users_def)
  obtain w r where r: "w \<in> set (vlan_pool d)" "vp_id w = vm_vlan_id m" "r \<in> set (port_group d)"
    "pg_id r = g" "pg_netplane_id r = Some (vp_netplane_id w)"
    using k(3) m by (auto simp: map_ok_def map_row_ok_def)
  have w: "w = v" using pool_row_by_id [OF k(2) r(1) m(2)] r(2) m(3) by simp
  obtain s where f: "find (\<lambda>g. pg_uuid g = pg \<and> is_vm_pg (pg_id g) d \<and>
                     (case pg_netplane_id g of None \<Rightarrow> False
                      | Some np \<Rightarrow> list_ex (\<lambda>r. np_id r = np) (netplane d))) (port_group d) = Some s"
    and s: "pg_netplane_id s = Some np"
    using assms(1) by (auto simp: pool_pre_def pg_netplane_lookup_def split: option.splits)
  have "s \<in> set (port_group d)" "pg_uuid s = pg" using find_SomeD [OF f] by simp_all
  moreover from this have "pg_id s = g"
    using pg_named_unique [OF k(1) assms(2), of pg "pg_id s"] by (auto simp: pg_named_def)
  ultimately have "s = r" using r k(1) by (auto simp: ids_ok_def distinct_map inj_on_def)
  then show ?thesis using s r(5) w m(4) by simp
qed

text \<open>What \<open>IsNeedVlanMap\<close> has found out about the port group before a release.\<close>

definition pg_ready :: "string \<Rightarrow> int \<Rightarrow> vdb \<Rightarrow> bool" where
  "pg_ready pg ino d \<longleftrightarrow>
     (\<exists>r. private_pg_lookup pg d = Some r \<and> pg_switchport_mode r = 1 \<and>
          isolate_lookup (pg_id r) d = Some ino)"

definition free_safe :: "int \<Rightarrow> string \<Rightarrow> int \<Rightarrow> int \<Rightarrow> vdb \<Rightarrow> vdb \<Rightarrow> bool" where
  "free_safe proj pg np n d d' \<longleftrightarrow>
     keys_ok d' \<and> rest_kept d d' \<and>
     (users d' = users d \<and> allocated d' = allocated d \<or>
      (\<exists>g. pg_named pg g d \<and> \<not> pg_in_use proj g d \<and>
           users d' = (users d)(np := users d np - {(proj, g, i, n) | i. True}) \<and>
           (allocated d' = allocated d \<or> vlan_released np n d d')))"

definition free_done :: "int \<Rightarrow> string \<Rightarrow> int \<Rightarrow> int \<Rightarrow> vdb \<Rightarrow> vdb \<Rightarrow> bool" where
  "free_done proj pg ino np d d' \<longleftrightarrow>
     (\<exists>g. pg_named pg g d \<and>
        (if pg_in_use proj g d then users d' = users d \<and> allocated d' = allocated d
         else users d' = (users d)(np := users d np - {(proj, g, ino, k) | k. True}) \<and>
              (\<forall>k. (proj, g, ino, k) \<in> users d np \<longrightarrow> (k \<in> allocated d' np \<longleftrightarrow> has_user d' np k))))"

lemma free_safe_kept:
  assumes "isolated d" and "free_safe proj pg np n d d'"
  shows "isolated d'" and "users d' q \<subseteq> users d q" and "allocated d' q \<subseteq> allocated d q"
    and "keys_ok d'" and "rest_kept d d'"
proof -
  have sub: "users d' q \<subseteq> users d q" for q
    using assms(2) by (auto simp: free_safe_def split: if_splits)
  show "isolated d'" by (rule isolated_less [OF assms(1) sub])
  show "users d' q \<subseteq> users d q" by (rule sub)
  show "allocated d' q \<subseteq> allocated d q"
    using assms(2) by (auto simp: free_safe_def vlan_released_def split: if_splits)
  show "keys_ok d'" "rest_kept d d'" using assms(2) by (simp_all add: free_safe_def)
qed

lemma free_safe_refl: "keys_ok d \<Longrightarrow> free_safe proj pg np n d d"
  by (simp add: free_safe_def)

lemma free_safe_read: "same_rows d d1 \<Longrightarrow> keys_ok d \<Longrightarrow> free_safe proj pg np n d d1"
  by (simp add: free_safe_def keys_ok_same_rows rest_kept_same_rows fun_eq_iff users_same_rows
      allocated_same_rows)

lemma free_read_first:
  assumes "same_tables d d1"
  shows "free_safe proj pg np n d1 d' = free_safe proj pg np n d d'"
    and "free_done proj pg ino np d1 d' = free_done proj pg ino np d d'"
proof -
  have e: "users d1 = users d" "allocated d1 = allocated d" "pg_in_use proj g d1 = pg_in_use proj g d"
    "pg_named pg g d1 = pg_named pg g d" "rest_kept d1 d' = rest_kept d d'" for g
    using rest_kept_read [OF assms] same_tables_rows [OF assms]
    by (simp_all add: fun_eq_iff users_same_rows allocated_same_rows same_rows_sel
        pg_named_def same_rows_lookups)
  show "free_safe proj pg np n d1 d' = free_safe proj pg np n d d'"
    "free_done proj pg ino np d1 d' = free_done proj pg ino np d d'"
    by (simp_all add: free_safe_def free_done_def vlan_released_def e)
qed

lemma pg_ready_named: "pg_ready pg ino d \<Longrightarrow> \<exists>g. pg_named pg g d"
  by (auto simp: pg_ready_def private_pg_lookup_def pg_named_def dest: find_SomeD)

text \<open>The tests of the release on an entry that exists.\<close>

lemma check_del_entry:
  assumes "pool_pre pg np d" and "pg_named pg g d" and "(proj, g, ino, n) \<in> users d np"
    and "pg_ready pg ino d"
  shows "pf_net_check_del_vlanmap proj pg n ino d = (if pg_in_use proj g d then RTN_RESOURCE_USING else 0)"
proof -
  have k: "ids_ok d" "pool_ok d" "keys_ok d" using assms(1) by (simp_all add: pool_pre_def keys_ok_def)
  obtain r where r: "private_pg_lookup pg d = Some r" "pg_switchport_mode r = 1"
    "isolate_lookup (pg_id r) d = Some ino" using assms(4) by (auto simp: pg_ready_def)
  have "pg_named pg (pg_id r) d"
    using find_SomeD [OF r(1) [unfolded private_pg_lookup_def]] by (auto simp: pg_named_def)
  then have g: "pg_id r = g" using pg_named_unique [OF k(1) assms(2), of pg "pg_id r"] by simp
  obtain m v where m: "m \<in> set (vlan_map d)" "v \<in> set (vlan_pool d)" "vp_id v = vm_vlan_id m"
    "vp_netplane_id v = np" "vm_project_id m = proj" "vm_pg_id m = g" "vp_num v = n"
    using assms(3) by (auto simp: users_def)
  have l: "vlan_pool_lookup np n d = Some (vp_id v)"
    using m vlan_pool_lookup_iff [OF k(2)] by blast
  have b: "2 \<le> n" "n \<le> 4094" using allocated_bounds [OF k(3) users_allocated [OF assms(3)]] by simp_all
  have "vlanmap_args pg n ino d = Inr (g, vp_id v)"
    using r g l b assms(1) by (simp add: vlanmap_args_def pool_pre_def)
  moreover have "list_ex (is_map_vlan proj g (vp_id v)) (vlan_map d)"
    using m by (auto simp: list_ex_iff is_map_vlan_def)
  ultimately show ?thesis by (simp add: pf_net_check_del_vlanmap_def)
qed

text \<open>From the deletion of the map entry to the end.\<close>

lemma free_entry_effect:
  assumes "pool_pre pg np d" and "isolated d" and "np_lookup u d = Some np"
    and "pg_named pg g d" and "(proj, g, ino, n) \<in> users d np"
    and "VlanMap_Del proj pg n ino d = (r1, d1)"
  shows "r1 \<noteq> 0 \<Longrightarrow> free_safe proj pg np n d d1"
    and "r1 = 0 \<Longrightarrow> free_pool_vlan u (word_of_int n) d1 = (ret, d') \<Longrightarrow>
           free_safe proj pg np n d d' \<and> (ret = 0 \<longrightarrow> free_done proj pg ino np d d')"
proof -
  have k: "keys_ok d" "ids_ok d" using assms(1) by (simp_all add: pool_pre_def keys_ok_def)
  have b: "2 \<le> n" "n \<le> 4094" using allocated_bounds [OF k(1) users_allocated [OF assms(5)]] by simp_all
  then have n: "int32_of (word_of_int n) = n" by (intro int32_small) auto
  note eff = VlanMap_Del_effect [OF assms(6) pool_pre_ids [OF assms(1)]]
  have pn: "pg_netplane_lookup pg d = Some np" using assms(1) by (simp add: pool_pre_def)
  have del: "keys_ok d1 \<and> rest_kept d d1 \<and> \<not> pg_in_use proj g d \<and> allocated d1 = allocated d \<and>
             users d1 = (users d)(np := users d np - {(proj, g, i, n) | i. True})"
    if m: "map_deleted proj pg n ino d d1"
  proof -
    obtain h where h: "pg_named pg h d" "keys_ok d1" "\<not> pg_in_use proj h d"
      "users d1 = (users d)(np := users d np - {(proj, h, i, n) | i. True})" "allocated d1 = allocated d"
      by (rule map_deleted_effect [OF k(1) m pn])
    have "h = g" using pg_named_unique [OF k(2) h(1) assms(4)] by simp
    then show ?thesis using h rest_kept_effects(4) [OF m] by simp
  qed
  show "free_safe proj pg np n d d1" if "r1 \<noteq> 0"
    using eff(2)
  proof
    assume "same_rows d d1"
    from free_safe_read [OF this k(1)] show ?thesis .
  next
    assume "map_deleted proj pg n ino d d1"
    then show ?thesis using del assms(4) by (auto simp: free_safe_def)
  qed
  assume z: "r1 = 0" and f: "free_pool_vlan u (word_of_int n) d1 = (ret, d')"
  note e = del [OF eff(1) [OF z]]
  have "np_lookup u d1 = Some np" using e assms(3) rest_kept_lookups(1) by metis
  from free_pool_vlan_effect [OF _ this _ _ f] e b n
  have p: "keys_ok d' \<and> rest_kept d1 d' \<and> users d' = users d1 \<and>
         (allocated d' = allocated d1 \<or> vlan_released np n d1 d') \<and>
         (ret = 0 \<longrightarrow> (n \<in> allocated d' np \<longleftrightarrow> has_user d' np n))" by simp
  have "free_safe proj pg np n d d'"
    using p e assms(4) rest_kept_trans [of d d1 d']
    by (auto simp: free_safe_def vlan_released_def intro!: exI [of _ g])
  moreover have "free_done proj pg ino np d d'" if r: "ret = 0"
  proof -
    have uniq: "i = ino \<and> k = n" if "(proj, g, i, k) \<in> users d np" "k = n \<or> i = ino" for i k
      using isolatedD [OF assms(2,5) that(1)] that(2) by auto
    then have "{(proj, g, i, n) | i. True} \<inter> users d np = {(proj, g, ino, k) | k. True} \<inter> users d np"
      by auto
    then have "users d np - {(proj, g, i, n) | i. True} = users d np - {(proj, g, ino, k) | k. True}"
      by blast
    then show ?thesis
      using p e r uniq assms(4) unfolding free_done_def by (intro exI [of _ g]) auto
  qed
  ultimately show "free_safe proj pg np n d d' \<and> (ret = 0 \<longrightarrow> free_done proj pg ino np d d')" by blast
qed

lemma FreeVlanID_effect:
  assumes "pool_pre pg np d" and "isolated d" and "np_lookup (m_strNetplaneID p) d = Some np"
    and "CVlanPool_FreeVlanID proj pg ino old p d = (ret, v, d')"
  shows "free_safe proj pg np (int32_of v) d d' \<and>
         (ret = 0 \<and> pg_ready pg ino d \<longrightarrow> free_done proj pg ino np d d')"
proof -
  have k: "keys_ok d" "ids_ok d" using assms(1) by (simp_all add: pool_pre_def keys_ok_def)
  obtain r1 n d1 where q: "VlanMap_QueryByProjectIdPGIsolateNo proj pg ino (int32_of old) d = (r1, n, d1)"
    by (metis prod_cases3)
  note qe = QueryByProjectIdPGIsolateNo_effect [OF q]
  have s1: "same_rows d d1" using qe(1) by (rule same_tables_rows)
  have safe1: "free_safe proj pg np m d d1" for m
    using free_safe_read [OF s1 k(1)] .
  consider (guard) "ret = - 1" "d' = d"
    | (failed) "r1 \<noteq> 0" "d' = d1" "ret = 0 \<Longrightarrow> VNET_DB_IS_ITEM_NO_EXIST r1"
    | (found) "r1 = 0" "m_bInit d"
    using assms(4) q by (auto simp: CVlanPool_FreeVlanID_def Let_def rtn_defs split: if_splits)
  then show ?thesis
  proof cases
    case guard
    then show ?thesis using free_safe_refl [OF k(1)] by simp
  next
    case failed
    have "free_done proj pg ino np d d1" if r: "ret = 0" "pg_ready pg ino d"
    proof -
      obtain g where g: "pg_named pg g d" using pg_ready_named [OF r(2)] by blast
      have "(proj, g, ino, m) \<notin> users d np" for m
      proof
        assume "(proj, g, ino, m) \<in> users d np"
        from users_view_row [OF k(1) this] obtain x where "x \<in> set (v_net_vlanmap_netplane_pg_vlan d)"
          "pg_named (PgUuid x) g d" "ProjectId x = proj" "IsolateNo x = ino" by blast
        then show False
          using qe(3) failed(3) r(1) pg_named_unique [OF k(2) g] by blast
      qed
      then have "users d np - {(proj, g, ino, m) | m. True} = users d np" by auto
      then show ?thesis
        using g s1 users_same_rows [OF s1] allocated_same_rows [OF s1] users_allocated
        by (auto simp: free_done_def fun_eq_iff has_user_def \<open>\<And>m. (proj, g, ino, m) \<notin> users d np\<close>
            intro!: exI [of _ g])
    qed
    then show ?thesis using failed safe1 by auto
  next
    case found
    obtain x where x: "x \<in> set (v_net_vlanmap_netplane_pg_vlan d)" "ProjectId x = proj" "PgUuid x = pg"
      "IsolateNo x = ino" "VlanNum x = n"
      using qe(2) [OF found(1)] by blast
    obtain g q where g: "pg_named pg g d" "(proj, g, ino, n) \<in> users d q"
      using view_row_users [OF k(1) x(1)] x by auto
    have "q = np" by (rule users_on_netplane [OF assms(1) g])
    with g have u: "(proj, g, ino, n) \<in> users d np" by simp
    have b: "2 \<le> n" "n \<le> 4094" using allocated_bounds [OF k(1) users_allocated [OF u]] by simp_all
    then have n: "int32_of (word_of_int n) = n" by (intro int32_small) auto
    obtain r2 d2 where c: "VlanMap_CheckDel proj pg n ino d1 = (r2, d2)" by fastforce
    note ce = VlanMap_CheckDel_effect [OF c]
    have s2: "same_rows d d2" using same_rows_trans [OF s1 same_tables_rows [OF ce(1)]] .
    have chk: "pf_net_check_del_vlanmap proj pg n ino d1 = pf_net_check_del_vlanmap proj pg n ino d"
      by (rule checks_same_rows [OF s1])
    have safe2: "free_safe proj pg np m d d2" for m
      using free_safe_read [OF s2 k(1)] .
    have run: "m_strNetplaneID p \<noteq> [] \<Longrightarrow> pg \<noteq> [] \<Longrightarrow>
      (if VNET_DB_SUCCESS \<noteq> r2 then
         if VNET_DB_IS_RESOURCE_USING r2 \<or> VNET_DB_IS_ITEM_NO_EXIST r2
         then (0, word_of_int n, d2) else (- 1, word_of_int n, d2)
       else (case VlanMap_Del proj pg n ino d2 of
               (nRet, d3) \<Rightarrow>
                 if VNET_DB_SUCCESS \<noteq> nRet then (- 1, word_of_int n, d3)
                 else (case free_pool_vlan (m_strNetplaneID p) (word_of_int n) d3 of
                         (nRet, d4) \<Rightarrow> (nRet, word_of_int n, d4)))) = (ret, v, d')"
      using assms(4) q c found n
      by (simp add: CVlanPool_FreeVlanID_def Let_def VNET_DB_SUCCESS_def cong: if_cong)
    consider (guard) "ret = - 1" "d' = d"
      | (checked) "r2 \<noteq> 0" "d' = d2"
          "ret = 0 \<Longrightarrow> VNET_DB_IS_RESOURCE_USING r2 \<or> VNET_DB_IS_ITEM_NO_EXIST r2"
      | (del) "r2 = 0" "m_strNetplaneID p \<noteq> []" "pg \<noteq> []"
    proof (cases "m_strNetplaneID p = [] \<or> pg = []")
      case True
      then show thesis using guard assms(4) by (auto simp: CVlanPool_FreeVlanID_def split: if_splits)
    next
      case False
      then show thesis using checked del run by (auto simp: rtn_defs split: if_splits)
    qed
    then show ?thesis
    proof cases
      case guard
      then show ?thesis using free_safe_refl [OF k(1)] by simp
    next
      case checked
      have "free_done proj pg ino np d d2" if r: "ret = 0" "pg_ready pg ino d"
      proof -
        have "pf_net_check_del_vlanmap proj pg n ino d = RTN_RESOURCE_USING \<or>
              pf_net_check_del_vlanmap proj pg n ino d = RTN_ITEM_NO_EXIST"
          using checked(3) [OF r(1)] ce(2,3) chk by auto
        then have "pg_in_use proj g d"
          using check_del_entry [OF assms(1) g(1) u r(2)] by (auto simp: rtn_defs split: if_splits)
        then show ?thesis
          using g(1) users_same_rows [OF s2] allocated_same_rows [OF s2]
          by (auto simp: free_done_def fun_eq_iff)
      qed
      then show ?thesis using checked safe2 by auto
    next
      case del
      obtain r3 d3 where m: "VlanMap_Del proj pg n ino d2 = (r3, d3)" by fastforce
      have pre2: "pool_pre pg np d2" "isolated d2" "np_lookup (m_strNetplaneID p) d2 = Some np"
        "pg_named pg g d2" "(proj, g, ino, n) \<in> users d2 np"
        using pool_pre_kept [OF assms(1) rest_kept_same_rows [OF s2] keys_ok_same_rows [OF s2 k(1)]]
          isolated_same_rows [OF s2] assms(2,3) same_rows_lookups(1) [OF s2] users_same_rows [OF s2]
          rest_kept_lookups(3) [OF rest_kept_same_rows [OF s2]] g(1) u by simp_all
      note f = free_entry_effect [OF pre2 m]
      note rd = free_read_first [OF same_tables_trans [OF qe(1) ce(1)]]
      show ?thesis
      proof (cases "r3 = 0")
        case False
        then have "ret = - 1" "d' = d3" "v = word_of_int n"
          using run del m by (auto simp: rtn_defs)
        then show ?thesis using f(1) [OF False] rd n by simp
      next
        case True
        obtain r4 d4 where a: "free_pool_vlan (m_strNetplaneID p) (word_of_int n) d3 = (r4, d4)"
          by fastforce
        then have "ret = r4" "d' = d4" "v = word_of_int n"
          using run del m True by (auto simp: rtn_defs)
        then show ?thesis using f(2) [OF True a] rd n by simp
      qed
    qed
  qed
qed

section \<open>The status vector\<close>

lemma foldl_update_nth:
  "n < length st \<Longrightarrow> foldl (\<lambda>st i. st[f i := x]) st xs ! n = (if \<exists>i \<in> set xs. f i = n then x else st ! n)"
  by (induction xs arbitrary: st) (auto simp: nth_list_update)

lemma length_foldl_update [simp]: "length (foldl (\<lambda>st i. st[f i := x]) st xs) = length st"
  by (induction xs arbitrary: st) auto

lemma mark_range_nth:
  assumes "n < length st"
  shows "mark_range st r ! n = (if n \<in> vlan_item_set r then VNET_VLAN_STATUS_USABLE else st ! n)"
    and "length (mark_range st r) = length st"
proof -
  show "length (mark_range st r) = length st"
    unfolding mark_range_def by (rule length_foldl_update)
  have "mark_range st r ! n =
          (if \<exists>i \<in> set [unat (dwVlanIDStart r) ..< Suc (unat (dwVlanIDEnd r))]. i = n
           then VNET_VLAN_STATUS_USABLE else st ! n)"
    unfolding mark_range_def by (rule foldl_update_nth [OF assms])
  moreover have "(\<exists>i \<in> set [unat (dwVlanIDStart r) ..< Suc (unat (dwVlanIDEnd r))]. i = n) \<longleftrightarrow>
                 n \<in> vlan_item_set r"
    by (auto simp: vlan_item_set_def simp del: upt_Suc)
  ultimately show "mark_range st r ! n = (if n \<in> vlan_item_set r then VNET_VLAN_STATUS_USABLE else st ! n)"
    by (simp only:)
qed

lemma mark_ranges_nth:
  "n < length st \<Longrightarrow>
     foldl mark_range st rs ! n = (if n \<in> vlans rs then VNET_VLAN_STATUS_USABLE else st ! n) \<and>
     length (foldl mark_range st rs) = length st"
proof (induction rs arbitrary: st)
  case (Cons r rs)
  then show ?case
    using mark_range_nth [of n st r] by (auto simp: vlans_def)
qed (simp add: vlans_def)

lemma vlan_status_nth:
  assumes "n < VLAN_POOL_SIZE"
  shows "vlan_status ranges used ! n =
           (if \<exists>m \<in> set used. nat m = n then VNET_VLAN_STATUS_USED
            else if n \<in> vlans ranges then VNET_VLAN_STATUS_USABLE else VNET_VLAN_STATUS_UNUSABLE)"
proof -
  let ?st = "foldl mark_range (replicate VLAN_POOL_SIZE VNET_VLAN_STATUS_UNUSABLE) ranges"
  have n: "n < length (replicate VLAN_POOL_SIZE VNET_VLAN_STATUS_UNUSABLE)"
    unfolding length_replicate by (rule assms)
  note st = mark_ranges_nth [OF n, of ranges]
  have "vlan_status ranges used ! n =
          (if \<exists>m \<in> set used. nat m = n then VNET_VLAN_STATUS_USED else ?st ! n)"
    unfolding vlan_status_def using st n by (intro foldl_update_nth) simp
  then show ?thesis using st assms by simp
qed

section \<open>An example database\<close>

text \<open>
  One netplane with the range 2 to 4, two private port groups with isolation number 7, and the
  VLAN 2 given to project 5 on the first of them.
\<close>

definition example_db :: vdb where
  "example_db =
     \<lparr>m_bInit = True, env = [],
      netplane = [\<lparr>np_id = 1, np_uuid = ''np''\<rparr>],
      port_group = [\<lparr>pg_id = 10, pg_uuid = ''a'', pg_type = 21, pg_switchport_mode = 1,
                     pg_netplane_id = Some 1\<rparr>,
                    \<lparr>pg_id = 11, pg_uuid = ''b'', pg_type = 21, pg_switchport_mode = 1,
                     pg_netplane_id = Some 1\<rparr>],
      vm_pg = [\<lparr>vmpg_id = 10, vmpg_is_sdn = 0, vmpg_isolate_type = 0\<rparr>,
               \<lparr>vmpg_id = 11, vmpg_is_sdn = 0, vmpg_isolate_type = 0\<rparr>],
      uplink_pg = [], access_isolate = [(10, 7), (11, 7)], access_vlan = [], trunk_vlan_range = [],
      vlan_range = [\<lparr>vr_id = 1, vr_netplane_id = 1, vr_begin = 2, vr_end = 4\<rparr>],
      vlan_pool = [\<lparr>vp_id = 1, vp_netplane_id = 1, vp_num = 2\<rparr>],
      vlan_map = [\<lparr>vm_id = 1, vm_project_id = 5, vm_pg_id = 10, vm_vlan_id = 1, vm_isolate_no = 7\<rparr>],
      vsi_profile = [], vnic = [], vm = [],
      serial_vlan_range = 1, serial_vlan_pool = 1, serial_vlan_map = 1\<rparr>"

definition example_pool :: CVlanPool where
  "example_pool =
     \<lparr>m_vecVlanStatus = vlan_status [\<lparr>dwVlanIDStart = 2, dwVlanIDEnd = 4\<rparr>] [2],
      m_pVlanRange = Some [\<lparr>dwVlanIDStart = 2, dwVlanIDEnd = 4\<rparr>], m_strNetplaneID = ''np''\<rparr>"

lemma example_init:
  "CVlanPool_Init (Some [\<lparr>dwVlanIDStart = 2, dwVlanIDEnd = 4\<rparr>]) ''np'' CVlanPool_new example_db =
     (0, example_pool, example_db)"
  by code_simp

lemma example_users: "users example_db np = (if np = 1 then {(5, 10, 7, 2)} else {})"
  by (auto simp: users_rows row_users_def example_db_def)

lemma example_allocated: "allocated example_db np = (if np = 1 then {2} else {})"
  by (auto simp: allocated_def example_db_def)

lemma example_ok:
  "keys_ok example_db" "isolated example_db" "np_lookup ''np'' example_db = Some 1"
  "pg_netplane_lookup ''a'' example_db = Some 1" "pg_netplane_lookup ''b'' example_db = Some 1"
  "m_strNetplaneID example_pool = ''np''"
proof -
  show "keys_ok example_db" by code_simp
  show "isolated example_db" by (auto simp: isolated_def example_users split: if_splits)
  show "np_lookup ''np'' example_db = Some 1" by code_simp
  show "pg_netplane_lookup ''a'' example_db = Some 1" by code_simp
  show "pg_netplane_lookup ''b'' example_db = Some 1" by code_simp
  show "m_strNetplaneID example_pool = ''np''" by code_simp
qed

lemma example_alloc:
  "\<exists>p' d'. CVlanPool_AllocVlanID ''np'' 6 ''b'' 7 0 example_pool example_db = (0, 3, p', d')"
proof -
  have "(case CVlanPool_AllocVlanID ''np'' 6 ''b'' 7 0 example_pool example_db of
           (r, v, _) \<Rightarrow> r = 0 \<and> v = 3)"
    by code_simp
  then show ?thesis by auto
qed

section \<open>Properties\<close>

lemma VlanPool_Query_effect:
  assumes "VlanPool_Query u d = (ret, ns, d')"
  shows "same_tables d d'"
    and "ret = 0 \<Longrightarrow> np_lookup u d = Some np \<Longrightarrow> set ns = allocated d np"
proof -
  let ?f = "\<lambda>d. case np_lookup u d of None \<Rightarrow> []
                 | Some np \<Rightarrow> map vp_num (filter (\<lambda>r. vp_netplane_id r = np) (vlan_pool d))"
  have e: "?f e = ?f d" if "same_tables d e" for e
    using same_rows_lookups(1) [OF same_tables_rows [OF that]] same_rows_sel(9) [OF same_tables_rows [OF that]]
    by (simp cong: option.case_cong)
  have f: "pf_net_query_netplane_vlanpool u = (\<lambda>d. Some (?f d, d))"
    by (auto simp: pf_net_query_netplane_vlanpool_def fun_eq_iff split: option.split)
  note q = db_query_op_readonly [OF assms [unfolded VlanPool_Query_def f] e]
  show "same_tables d d'" by (rule q(1))
  show "set ns = allocated d np" if "ret = 0" "np_lookup u d = Some np"
    using q(2) that by (simp add: allocated_def)
qed

lemma Init_vector:
  assumes "CVlanPool_Init (Some ranges) u p d = (0, p', d')" and "np_lookup u d = Some np"
    and "\<forall>v \<in> set (vlan_pool d). 2 \<le> vp_num v" and "n < 4096"
  shows "m_vecVlanStatus p' ! n =
           (if int n \<in> allocated d np then VNET_VLAN_STATUS_USED
            else if n \<in> vlans ranges then VNET_VLAN_STATUS_USABLE else VNET_VLAN_STATUS_UNUSABLE) \<and>
         m_strNetplaneID p' = u \<and> same_tables d d'"
proof -
  obtain r ns d1 where q: "VlanPool_Query u d = (r, ns, d1)" by (metis prod_cases3)
  have run: "u \<noteq> []" "r = 0" "d' = d1" "m_vecVlanStatus p' = vlan_status ranges ns" "m_strNetplaneID p' = u"
    using assms(1) q by (auto simp: CVlanPool_Init_def Let_def rtn_defs split: if_splits)
  note e = VlanPool_Query_effect [OF q]
  have ns: "set ns = allocated d np" by (rule e(2) [OF run(2) assms(2)])
  have "\<forall>m \<in> set ns. 0 \<le> m" using assms(3) ns by (auto simp: allocated_def)
  then have "(\<exists>m \<in> set ns. nat m = n) \<longleftrightarrow> int n \<in> allocated d np" using ns by force
  then show ?thesis
    using vlan_status_nth [of n ranges ns] assms(4) run e(1) by (simp add: VLAN_POOL_SIZE_def)
qed

text \<open>\<open>CVlanPool::Init\<close> on a netplane, when it succeeds, leaves every VLAN below 4096 in the status
  that the database gives it: used when it is allocated, else usable when a range of the netplane holds
  it, else unusable; and it changes no table.\<close>

theorem CVlanPool_Init_status:
  assumes "CVlanPool_Init (Some ranges) u p d = (0, p', d')" and "np_lookup u d = Some np"
    and "\<forall>v \<in> set (vlan_pool d). 2 \<le> vp_num v" and "n < 4096"
  shows "m_vecVlanStatus p' ! n =
           (if int n \<in> allocated d np then VNET_VLAN_STATUS_USED
            else if n \<in> vlans ranges then VNET_VLAN_STATUS_USABLE else VNET_VLAN_STATUS_UNUSABLE) \<and>
         m_strNetplaneID p' = u \<and> same_tables d d'"
  using assms by (rule Init_vector)

theorem CVlanPool_Init_status_witness:
  "m_vecVlanStatus example_pool ! 3 = VNET_VLAN_STATUS_USABLE \<and> same_tables example_db example_db"
proof -
  have "\<forall>v \<in> set (vlan_pool example_db). 2 \<le> vp_num v" "(3::nat) < 4096"
    by (simp_all add: example_db_def)
  from CVlanPool_Init_status [OF example_init example_ok(3) this]
  show ?thesis by (auto simp: allocated_def example_db_def vlans_def vlan_item_set_def)
qed

text \<open>C29. Isolation of tenants. \<open>AllocVlanID\<close>, whatever its calls to the database do (refused, answered,
  or run with the answer lost), keeps the keys of the tables and the isolation invariant: on a netplane
  two users of a VLAN have the same project and isolation number, and users with the same project and
  isolation number have the same VLAN. It takes no VLAN from anyone, and it changes only the two
  tables.\<close>

theorem AllocVlanID_keeps_isolation:
  assumes "keys_ok d" and "isolated d" and "np_lookup u d = Some np"
    and "pg_netplane_lookup pg d = Some np" and "m_strNetplaneID p = u"
    and "CVlanPool_AllocVlanID u proj pg ino old p d = (ret, v, p', d')"
  shows "keys_ok d' \<and> isolated d' \<and> users d q \<subseteq> users d' q \<and> allocated d q \<subseteq> allocated d' q \<and>
         rest_kept d d'"
proof -
  have "pool_pre pg np d" using assms(1,4) by (simp add: pool_pre_def)
  from AllocVlanID_effect [OF this assms(2,3,5,6)]
  have "alloc_safe proj pg ino np (int32_of v) d d'" ..
  from alloc_safe_kept [OF assms(2) this] show ?thesis by blast
qed

theorem AllocVlanID_keeps_isolation_witness:
  "\<exists>p' d'. CVlanPool_AllocVlanID ''np'' 6 ''b'' 7 0 example_pool example_db = (0, 3, p', d') \<and>
     isolated d' \<and> {(5, 10, 7, 2)} \<subseteq> users d' 1"
proof -
  obtain p' d' where a: "CVlanPool_AllocVlanID ''np'' 6 ''b'' 7 0 example_pool example_db = (0, 3, p', d')"
    using example_alloc by blast
  from AllocVlanID_keeps_isolation [OF example_ok(1,2,3,5,6) this, of 1] a
  show ?thesis by (auto simp: example_users)
qed

text \<open>C30. What a successful allocation gives. The project, port group and isolation number become users
  of the VLAN returned, and no other user changes. If the project and the isolation number already had a
  VLAN on the netplane, it is that one and none is allocated; if not, it was allocated to no one
  before and a range of the netplane holds it.\<close>

theorem AllocVlanID_result:
  assumes "keys_ok d" and "isolated d" and "np_lookup u d = Some np"
    and "pg_netplane_lookup pg d = Some np" and "m_strNetplaneID p = u"
    and "CVlanPool_AllocVlanID u proj pg ino old p d = (0, v, p', d')"
  shows "(\<exists>g. pg_named pg g d \<and>
              users d' = (users d)(np := insert (proj, g, ino, int32_of v) (users d np))) \<and>
         (if \<exists>g n. (proj, g, ino, n) \<in> users d np
          then (\<exists>g. (proj, g, ino, int32_of v) \<in> users d np) \<and> allocated d' = allocated d
          else int32_of v \<notin> allocated d np \<and>
               allocated d' = (allocated d)(np := insert (int32_of v) (allocated d np)) \<and>
               (\<exists>r \<in> set (vlan_range d). vr_netplane_id r = np \<and> vr_begin r \<le> int32_of v \<and>
                                        int32_of v \<le> vr_end r))"
proof -
  have "pool_pre pg np d" using assms(1,4) by (simp add: pool_pre_def)
  from AllocVlanID_effect [OF this assms(2,3,5,6)]
  show ?thesis by (auto simp: alloc_done_def user_added_def vlan_taken_def)
qed

theorem AllocVlanID_result_witness:
  "\<exists>p' d'. CVlanPool_AllocVlanID ''np'' 6 ''b'' 7 0 example_pool example_db = (0, 3, p', d') \<and>
     allocated d' 1 = {2, 3}"
proof -
  obtain p' d' where a: "CVlanPool_AllocVlanID ''np'' 6 ''b'' 7 0 example_pool example_db = (0, 3, p', d')"
    using example_alloc by blast
  have n: "int32_of 3 = 3" by code_simp
  from AllocVlanID_result [OF example_ok(1,2,3,5,6) a] a
  show ?thesis by (auto simp: example_users n example_allocated split: if_splits)
qed

text \<open>Allocating again for the same project, port group and isolation number, through any pool of the
  netplane, returns the same VLAN and leaves users and allocated VLANs as they are.\<close>

theorem AllocVlanID_repeat:
  assumes "keys_ok d" and "isolated d" and "np_lookup u d = Some np"
    and "pg_netplane_lookup pg d = Some np" and "m_strNetplaneID p = u" and "m_strNetplaneID q = u"
    and "CVlanPool_AllocVlanID u proj pg ino old p d = (0, v, p', d')"
    and "CVlanPool_AllocVlanID u proj pg ino old' q d' = (0, v', q', d'')"
  shows "int32_of v' = int32_of v \<and> users d'' = users d' \<and> allocated d'' = allocated d'"
proof -
  have pre: "pool_pre pg np d" using assms(1,4) by (simp add: pool_pre_def)
  from AllocVlanID_effect [OF pre assms(2,3,5,7)]
  have safe: "alloc_safe proj pg ino np (int32_of v) d d'" and d1: "alloc_done proj pg ino np (int32_of v) d d'"
    by simp_all
  note kept = alloc_safe_kept [OF assms(2) safe]
  have "pool_pre pg np d'" "np_lookup u d' = Some np"
    using pool_pre_kept [OF pre kept(5,4)] assms(3) rest_kept_lookups(1) [OF kept(5)] by simp_all
  from AllocVlanID_effect [OF this(1) kept(1) this(2) assms(6,8)]
  have d2: "alloc_done proj pg ino np (int32_of v') d' d''" by simp
  obtain g where g: "pg_named pg g d" "(proj, g, ino, int32_of v) \<in> users d' np"
    using d1 by (auto simp: alloc_done_def user_added_def)
  obtain h where h: "pg_named pg h d'" "users d'' = (users d')(np := insert (proj, h, ino, int32_of v') (users d' np))"
    and old: "\<exists>k. (proj, k, ino, int32_of v') \<in> users d' np" "allocated d'' = allocated d'"
    using d2 g(2) by (auto simp: alloc_done_def user_added_def split: if_splits)
  have "int32_of v' = int32_of v" using old(1) isolatedD [OF kept(1) _ g(2)] by blast
  moreover have "h = g"
    using h(1) g(1) rest_kept_lookups(3) [OF kept(5)] pg_named_unique [of d pg g pg h] assms(1)
    by (simp add: keys_ok_def)
  ultimately show ?thesis using h(2) g(2) old(2) by (simp add: insert_absorb)
qed

lemma example_alloc_twice:
  "\<exists>p' d' q' d''. CVlanPool_AllocVlanID ''np'' 6 ''b'' 7 0 example_pool example_db = (0, 3, p', d') \<and>
     CVlanPool_AllocVlanID ''np'' 6 ''b'' 7 0 example_pool d' = (0, 3, q', d'')"
proof -
  have "(case CVlanPool_AllocVlanID ''np'' 6 ''b'' 7 0 example_pool example_db of
           (r, v, p', d') \<Rightarrow> r = 0 \<and> v = 3 \<and>
             (case CVlanPool_AllocVlanID ''np'' 6 ''b'' 7 0 example_pool d' of
                (r, v, _) \<Rightarrow> r = 0 \<and> v = 3))"
    by code_simp
  then show ?thesis by auto
qed

theorem AllocVlanID_repeat_witness:
  "\<exists>p' d' q' d''. CVlanPool_AllocVlanID ''np'' 6 ''b'' 7 0 example_pool example_db = (0, 3, p', d') \<and>
     CVlanPool_AllocVlanID ''np'' 6 ''b'' 7 0 example_pool d' = (0, 3, q', d'') \<and> users d'' = users d'"
proof -
  obtain p' d' q' d'' where a:
    "CVlanPool_AllocVlanID ''np'' 6 ''b'' 7 0 example_pool example_db = (0, 3, p', d')"
    "CVlanPool_AllocVlanID ''np'' 6 ''b'' 7 0 example_pool d' = (0, 3, q', d'')"
    using example_alloc_twice by blast
  from AllocVlanID_repeat [OF example_ok(1,2,3,5,6,6) a] a show ?thesis by blast
qed

text \<open>C31. A pool that \<open>Init\<close> has built for the ranges of a netplane hands out VLANs in order: a new
  allocation that succeeds returns the least number that a range holds and that is allocated to no one.\<close>

theorem AllocVlanID_least_free:
  assumes "keys_ok d" and "isolated d" and "np_lookup u d = Some np"
    and "pg_netplane_lookup pg d = Some np"
    and "CVlanPool_Init (Some ranges) u p0 d = (0, p, d1)" and "vlans ranges \<subseteq> {2..4094}"
    and "CVlanPool_AllocVlanID u proj pg ino old p d1 = (0, v, p', d')"
    and "\<forall>g n. (proj, g, ino, n) \<notin> users d np"
  shows "unat v \<in> vlans ranges \<and> int (unat v) \<notin> allocated d np \<and>
         (\<forall>n \<in> vlans ranges. int n \<notin> allocated d np \<longrightarrow> unat v \<le> n)"
proof -
  have pool: "\<forall>v \<in> set (vlan_pool d). 2 \<le> vp_num v"
    using assms(1) by (auto simp: keys_ok_def pool_ok_def)
  note st = Init_vector [OF assms(5,3) pool]
  have s1: "same_rows d d1" using st [of 0] by (simp add: same_tables_rows)
  obtain w q where w: "take_usable p = Some (w, q)" "v = w"
  proof -
    obtain r1 rows d2 where q: "VlanMap_QueryByNpProjectIdIsolateNo u proj ino d1 = (r1, rows, d2)"
      by (metis prod_cases3)
    note qe = QueryByNpProjectIdIsolateNo_effect [OF q]
    have "rows = []" if "r1 = 0"
    proof (rule ccontr)
      assume "rows \<noteq> []"
      then obtain x where x: "x \<in> set rows" by (cases rows) auto
      have k1: "keys_ok d1" "np_lookup u d1 = Some np"
        using keys_ok_same_rows [OF s1 assms(1)] assms(3) same_rows_lookups(1) [OF s1] by simp_all
      from query_rows_users(1) [OF k1 qe(2) [OF that] x] users_same_rows [OF s1] assms(8)
      show False by auto
    qed
    then have run: "alloc_new_vlan proj pg ino old p d2 = (0, v, p', d')"
      using assms(7) q by (auto simp: CVlanPool_AllocVlanID_def rtn_defs split: if_splits)
    then obtain w q where w: "take_usable p = Some (w, q)"
      by (cases "take_usable p") (auto simp: alloc_new_vlan_def split: if_splits)
    moreover have "v = w"
      using run w by (auto simp: alloc_new_vlan_def split: if_splits prod.splits)
    ultimately show thesis by (rule that)
  qed
  note t = take_usable_SomeD [OF w(1)]
  have stat: "m_vecVlanStatus p ! n = VNET_VLAN_STATUS_USABLE \<longleftrightarrow> n \<in> vlans ranges \<and> int n \<notin> allocated d np"
    if "n \<le> 4094" for n
    using st [of n] that by (auto simp: VNET_VLAN_STATUS_USABLE_def VNET_VLAN_STATUS_USED_def
        VNET_VLAN_STATUS_UNUSABLE_def)
  have "unat v \<le> n" if "n \<in> vlans ranges" "int n \<notin> allocated d np" for n
  proof (rule ccontr)
    assume "\<not> unat v \<le> n"
    moreover have "2 \<le> n" "n \<le> 4094" using that(1) assms(6) by auto
    ultimately show False using t(5) stat [of n] that w(2) by auto
  qed
  then show ?thesis using t(3,4) stat [of "unat w"] w(2) by simp
qed

theorem AllocVlanID_least_free_witness:
  "{n \<in> vlans [\<lparr>dwVlanIDStart = 2, dwVlanIDEnd = 4\<rparr>]. int n \<noteq> 2} \<subseteq> {n. unat (3 :: uint32) \<le> n}"
proof -
  obtain p' d' where a: "CVlanPool_AllocVlanID ''np'' 6 ''b'' 7 0 example_pool example_db = (0, 3, p', d')"
    using example_alloc by blast
  have "vlans [\<lparr>dwVlanIDStart = 2, dwVlanIDEnd = 4\<rparr>] \<subseteq> {2..4094}"
    by (auto simp: vlans_def vlan_item_set_def)
  from AllocVlanID_least_free [OF example_ok(1,2,3,5) example_init this a] show ?thesis
    by (auto simp: example_users example_allocated)
qed

text \<open>Release. \<open>FreeVlanID\<close>, whatever its calls do, keeps the keys and the isolation invariant,
  adds no user and allocates nothing; and it takes the VLAN of a project away only when no network card
  of the project is on the port group.\<close>

theorem FreeVlanID_keeps_isolation:
  assumes "keys_ok d" and "isolated d" and "np_lookup (m_strNetplaneID p) d = Some np"
    and "pg_netplane_lookup pg d = Some np"
    and "CVlanPool_FreeVlanID proj pg ino old p d = (ret, v, d')"
  shows "keys_ok d' \<and> isolated d' \<and> users d' q \<subseteq> users d q \<and> allocated d' q \<subseteq> allocated d q \<and>
         rest_kept d d' \<and>
         (users d' \<noteq> users d \<longrightarrow> (\<exists>g. pg_named pg g d \<and> \<not> pg_in_use proj g d))"
proof -
  have "pool_pre pg np d" using assms(1,4) by (simp add: pool_pre_def)
  from FreeVlanID_effect [OF this assms(2,3,5)]
  have safe: "free_safe proj pg np (int32_of v) d d'" ..
  from free_safe_kept [OF assms(2) safe] safe show ?thesis by (auto simp: free_safe_def)
qed

lemma example_free:
  "\<exists>d'. CVlanPool_FreeVlanID 5 ''a'' 7 0 example_pool example_db = (0, 2, d') \<and>
        vlan_pool d' = [] \<and> vlan_map d' = []"
proof -
  have "(case CVlanPool_FreeVlanID 5 ''a'' 7 0 example_pool example_db of
           (r, v, d') \<Rightarrow> r = 0 \<and> v = 2 \<and> vlan_pool d' = [] \<and> vlan_map d' = [])"
    by code_simp
  then show ?thesis by auto
qed

lemma example_lookup: "np_lookup (m_strNetplaneID example_pool) example_db = Some 1"
  using example_ok(3,6) by simp

theorem FreeVlanID_keeps_isolation_witness:
  "\<exists>d'. CVlanPool_FreeVlanID 5 ''a'' 7 0 example_pool example_db = (0, 2, d') \<and>
        users d' 1 \<subseteq> {(5, 10, 7, 2)} \<and> isolated d'"
proof -
  obtain d' where a: "CVlanPool_FreeVlanID 5 ''a'' 7 0 example_pool example_db = (0, 2, d')"
    using example_free by blast
  from FreeVlanID_keeps_isolation [OF example_ok(1,2) example_lookup example_ok(4) a, of 1] a
  show ?thesis by (auto simp: example_users)
qed

text \<open>What a successful release gives, on a port group for which \<open>IsNeedVlanMap\<close> holds. If a network
  card of the project is on the port group, nothing changes. If not, the entry of project, port group
  and isolation number is gone and no other, and its VLAN stays allocated exactly when another port
  group of the project still uses it.\<close>

theorem FreeVlanID_result:
  assumes "keys_ok d" and "isolated d" and "np_lookup (m_strNetplaneID p) d = Some np"
    and "pg_netplane_lookup pg d = Some np" and "pg_ready pg ino d"
    and "CVlanPool_FreeVlanID proj pg ino old p d = (0, v, d')"
  shows "\<exists>g. pg_named pg g d \<and>
           (if pg_in_use proj g d then users d' = users d \<and> allocated d' = allocated d
            else users d' = (users d)(np := users d np - {(proj, g, ino, k) | k. True}) \<and>
                 (\<forall>k. (proj, g, ino, k) \<in> users d np \<longrightarrow>
                      (k \<in> allocated d' np \<longleftrightarrow> (\<exists>p g i. (p, g, i, k) \<in> users d' np))))"
proof -
  have "pool_pre pg np d" using assms(1,4) by (simp add: pool_pre_def)
  from FreeVlanID_effect [OF this assms(2,3,6)] assms(5)
  have "free_done proj pg ino np d d'" by simp
  then show ?thesis unfolding free_done_def has_user_def .
qed

theorem FreeVlanID_result_witness:
  "\<exists>d'. CVlanPool_FreeVlanID 5 ''a'' 7 0 example_pool example_db = (0, 2, d') \<and> users d' 1 = {}"
proof -
  obtain d' where a: "CVlanPool_FreeVlanID 5 ''a'' 7 0 example_pool example_db = (0, 2, d')"
    using example_free by blast
  have "pg_ready ''a'' 7 example_db"
    by (simp add: pg_ready_def private_pg_lookup_def isolate_lookup_def is_vm_pg_def example_db_def)
  from FreeVlanID_result [OF example_ok(1,2) example_lookup example_ok(4) this a] obtain g
    where g: "pg_named ''a'' g example_db"
      "\<not> pg_in_use 5 g example_db \<Longrightarrow> users d' 1 = users example_db 1 - {(5, g, 7, k) | k. True}"
    by (auto split: if_splits)
  have "g = 10" using g(1) by (auto simp: pg_named_def example_db_def)
  moreover have "\<not> pg_in_use 5 g example_db" by (simp add: pg_in_use_def example_db_def)
  ultimately show ?thesis using g(2) a by (auto simp: example_users)
qed




text \<open>The two additions of an allocation are not one transaction. When the addition of the VLAN has
  run and the test for the map entry is refused, the allocation fails and the VLAN stays in the pool
  with no map entry, where no release finds it.\<close>

theorem AllocVlanID_leaks_vlan:
  "(case CVlanPool_AllocVlanID ''np'' 6 ''b'' 7 0 example_pool
           (example_db\<lparr>env := [Run, Run, Run, Refused EXECUTE_FAILED]\<rparr>) of
      (ret, v, p', d') \<Rightarrow>
        ret = - 1 \<and> map vp_num (vlan_pool d') = [2, 3] \<and> vlan_map d' = vlan_map example_db \<and>
        (case CVlanPool_FreeVlanID 6 ''b'' 7 0 example_pool d' of
           (ret', v', d'') \<Rightarrow> ret' = 0 \<and> map vp_num (vlan_pool d'') = [2, 3]))"
  by code_simp

end
