(* ===== verification/VlanPoolMgr.thy ===== *)
theory VlanPoolMgr
  imports VlanPool
begin

text \<open>
  \<open>CVlanPoolMgr\<close> (\<open>vlan_pool_mgr.cpp\<close>): the VLAN ranges of a netplane are loaded from the database,
  changed with \<open>CVlanRange\<close> and written back row by row, and the network cards of a virtual machine get
  and release VLANs.
  The texts of the replies are left out, their result codes kept.
\<close>

section \<open>Messages and codes\<close>

definition VLAN_RANGE_OPER_SUCCESS :: rc where "VLAN_RANGE_OPER_SUCCESS = 0"
definition VLAN_RANGE_CFG_PARAM_ERROR :: rc where "VLAN_RANGE_CFG_PARAM_ERROR = 1142"
definition VLAN_RANGE_CALC_ERROR :: rc where "VLAN_RANGE_CALC_ERROR = 1143"
definition VLAN_RANGE_NOT_EXIST :: rc where "VLAN_RANGE_NOT_EXIST = 1144"
definition VLAN_RANGE_OCCUPIED :: rc where "VLAN_RANGE_OCCUPIED = 1145"
definition VLAN_RANGE_GET_DB_INTF_ERROR :: rc where "VLAN_RANGE_GET_DB_INTF_ERROR = 1146"

lemmas mgr_codes [code_defs] = VLAN_RANGE_OPER_SUCCESS_def VLAN_RANGE_CFG_PARAM_ERROR_def
  VLAN_RANGE_CALC_ERROR_def VLAN_RANGE_NOT_EXIST_def VLAN_RANGE_OCCUPIED_def
  VLAN_RANGE_GET_DB_INTF_ERROR_def PORTGROUP_OPER_SUCCESS_def VNET_DB_SUCCESS_def

record CVlanRangeMsg =
  m_nVlanStart :: int
  m_nVlanEnd :: int
  m_strNetplaneUUID :: string
  m_dwOper :: uint32

definition EN_ADD_VLAN_RANGE :: uint32 where "EN_ADD_VLAN_RANGE = 1"
definition EN_DEL_VLAN_RANGE :: uint32 where "EN_DEL_VLAN_RANGE = 2"
definition EN_VLAN_RANGE_OPER_ALL :: uint32 where "EN_VLAN_RANGE_OPER_ALL = 3"

definition IsValidOper :: "CVlanRangeMsg \<Rightarrow> bool" where
  "IsValidOper m \<longleftrightarrow> m_dwOper m > 0 \<and> m_dwOper m < EN_VLAN_RANGE_OPER_ALL"

definition IsValidMsgRange :: "CVlanRangeMsg \<Rightarrow> bool" where
  "IsValidMsgRange m \<longleftrightarrow>
     \<not> (m_nVlanStart m > m_nVlanEnd m \<or> m_nVlanStart m < 2 \<or> m_nVlanEnd m > 4094)"

section \<open>Reading the ranges\<close>

definition load_ranges :: "CDbNetplaneVlanRange list \<Rightarrow> TVlanRangeItem list" where
  "load_ranges rows = foldl (\<lambda>s r. snd (CVlanRange_AddValidRange (row_range r) s)) [] rows"

definition GetVlanRange :: "string \<Rightarrow> vdb \<Rightarrow> rc \<times> TVlanRangeItem list \<times> vdb" where
  "GetVlanRange u d =
     (if u = [] then (- 1, [], d)
      else if \<not> m_bInit d then (- 1, [], d)
      else case VlanRange_Query u d of
             (nRet, outVInfo, d1) \<Rightarrow>
               if VNET_DB_SUCCESS \<noteq> nRet then (nRet, [], d1)
               else if outVInfo = [] then (- 1, [], d1)
               else (0, load_ranges outVInfo, d1))"

definition IsRangeCrossRanges :: "uint32 \<Rightarrow> uint32 \<Rightarrow> string \<Rightarrow> vdb \<Rightarrow> int \<times> vdb" where
  "IsRangeCrossRanges s e u d =
     (if s > e then (1, d)
      else case GetVlanRange u d of
             (nRet, ranges, d1) \<Rightarrow>
               if 0 \<noteq> nRet then (1, d1)
               else if list_ex (\<lambda>r. e \<ge> dwVlanIDStart r \<and> s \<le> dwVlanIDEnd r) ranges then (1, d1)
               else (0, d1))"

definition IsInVlanMapRanges :: "uint32 \<Rightarrow> string \<Rightarrow> vdb \<Rightarrow> int \<times> vdb" where
  "IsInVlanMapRanges n u d =
     (case GetVlanRange u d of
        (nRet, ranges, d1) \<Rightarrow>
          if 0 \<noteq> nRet then (1, d1)
          else if list_ex (\<lambda>r. n \<ge> dwVlanIDStart r \<and> n \<le> dwVlanIDEnd r) ranges then (1, d1)
          else (0, d1))"

definition IsExistVlanRange :: "string \<Rightarrow> vdb \<Rightarrow> int \<times> vdb" where
  "IsExistVlanRange u d =
     (if u = [] then (0, d)
      else if \<not> m_bInit d then (0, d)
      else case VlanRange_Query u d of
             (nRet, outVInfo, d1) \<Rightarrow>
               if VNET_DB_SUCCESS \<noteq> nRet then (0, d1)
               else if outVInfo = [] then (0, d1) else (1, d1))"

section \<open>Changing the ranges\<close>

definition IsConflictWithShareNetAccessVlan :: "CVlanRangeMsg \<Rightarrow> int \<Rightarrow> vdb \<Rightarrow> int \<times> int \<times> vdb" where
  "IsConflictWithShareNetAccessVlan m nConflictVlan d =
     (if \<not> m_bInit d then (1, nConflictVlan, d)
      else case VlanPool_QueryShareNetAccessVlan (m_strNetplaneUUID m) d of
             (nRet, outVInfo, d1) \<Rightarrow>
               if VNET_DB_SUCCESS \<noteq> nRet then (1, nConflictVlan, d1)
               else (case find (\<lambda>n. n \<ge> m_nVlanStart m \<and> n \<le> m_nVlanEnd m) outVInfo of
                       Some n \<Rightarrow> (1, n, d1)
                     | None \<Rightarrow> (0, nConflictVlan, d1)))"

definition IsConflictWithShareNetTrunkVlan ::
  "CVlanRangeMsg \<Rightarrow> int \<times> int \<Rightarrow> vdb \<Rightarrow> int \<times> (int \<times> int) \<times> vdb" where
  "IsConflictWithShareNetTrunkVlan m conflict d =
     (if \<not> m_bInit d then (1, conflict, d)
      else case VlanPool_QueryShareNetTrunkVlan (m_strNetplaneUUID m) d of
             (nRet, outVInfo, d1) \<Rightarrow>
               if VNET_DB_SUCCESS \<noteq> nRet then (1, conflict, d1)
               else (case find (\<lambda>(b, e). m_nVlanEnd m \<ge> b \<and> m_nVlanStart m \<le> e) outVInfo of
                       Some r \<Rightarrow> (1, r, d1)
                     | None \<Rightarrow> (0, conflict, d1)))"

definition GetIsolateNo :: "CVlanRangeMsg \<Rightarrow> vdb \<Rightarrow> rc \<times> int list \<times> vdb" where
  "GetIsolateNo m d =
     (if \<not> m_bInit d then (- 1, [], d)
      else case VlanPool_QueryPrivateNetIsolateNo (m_strNetplaneUUID m) d of
             (nRet, ns, d1) \<Rightarrow> if VNET_DB_SUCCESS \<noteq> nRet then (- 1, [], d1) else (0, ns, d1))"

definition msg_item :: "CVlanRangeMsg \<Rightarrow> TVlanRangeItem" where
  "msg_item m = \<lparr>dwVlanIDStart = word_of_int (m_nVlanStart m), dwVlanIDEnd = word_of_int (m_nVlanEnd m)\<rparr>"

text \<open>The common end of both operations (lines 627-690 and 832-891).\<close>

definition save_ranges ::
  "string \<Rightarrow> TVlanRangeItem list \<Rightarrow> CDbNetplaneVlanRange list \<Rightarrow> vdb \<Rightarrow> rc \<times> vdb" where
  "save_ranges u calc outVInfo d =
     sync_rows (\<lambda>i. VlanRange_Add (range_row u i)) VlanRange_Del row_range calc outVInfo d"

text \<open>From the loading of the ranges on (lines 557-690).\<close>

definition add_range_rows :: "CVlanRangeMsg \<Rightarrow> vdb \<Rightarrow> rc \<times> vdb" where
  "add_range_rows m d =
     (let u = m_strNetplaneUUID m in
      if \<not> m_bInit d then (VLAN_RANGE_GET_DB_INTF_ERROR, d)
      else case VlanRange_Query u d of
             (nRet, outVInfo, d1) \<Rightarrow>
               if VNET_DB_SUCCESS \<noteq> nRet then (nRet, d1)
               else if outVInfo = [] then
                 (case VlanRange_Add \<lparr>Uuid = u, BeginNum = m_nVlanStart m, EndNum = m_nVlanEnd m\<rparr> d1 of
                    (nRet, d2) \<Rightarrow>
                      if VNET_DB_SUCCESS \<noteq> nRet then (nRet, d2) else (VLAN_RANGE_OPER_SUCCESS, d2))
               else (case CVlanRange_AddRange (msg_item m) (load_ranges outVInfo) of
                       (nRet, calc) \<Rightarrow>
                         if 0 \<noteq> nRet then (VLAN_RANGE_CALC_ERROR, d1)
                         else save_ranges u calc outVInfo d1))"

definition AddVlanRange :: "CVlanRangeMsg \<Rightarrow> vdb \<Rightarrow> rc \<times> vdb" where
  "AddVlanRange m d =
     (if m_strNetplaneUUID m = [] then (VLAN_RANGE_CFG_PARAM_ERROR, d)
      else if \<not> IsValidMsgRange m then (VLAN_RANGE_CFG_PARAM_ERROR, d)
      else case IsConflictWithShareNetAccessVlan m 0 d of
             (c, _, d1) \<Rightarrow>
               if c \<noteq> 0 then (VLAN_RANGE_CFG_PARAM_ERROR, d1)
               else (case IsConflictWithShareNetTrunkVlan m (0, 0) d1 of
                       (c, _, d2) \<Rightarrow>
                         if c \<noteq> 0 then (VLAN_RANGE_CFG_PARAM_ERROR, d2) else add_range_rows m d2))"

text \<open>
  A computed list that is empty is only accepted when the netplane has no private port group; then
  the rows are written (lines 802-891).
\<close>

definition del_save_ranges :: "CVlanRangeMsg \<Rightarrow> TVlanRangeItem list \<Rightarrow> CDbNetplaneVlanRange list \<Rightarrow> vdb \<Rightarrow> rc \<times> vdb"
where
  "del_save_ranges m calc outVInfo d =
     (if calc = [] then
        (case GetIsolateNo m d of
           (nRet, vecIsolateNo, d1) \<Rightarrow>
             if nRet \<noteq> 0 then (VLAN_RANGE_CALC_ERROR, d1)
             else if vecIsolateNo \<noteq> [] then (VLAN_RANGE_OCCUPIED, d1)
             else save_ranges (m_strNetplaneUUID m) calc outVInfo d1)
      else save_ranges (m_strNetplaneUUID m) calc outVInfo d)"

definition DelVlanRange :: "CVlanRangeMsg \<Rightarrow> vdb \<Rightarrow> rc \<times> vdb" where
  "DelVlanRange m d =
     (let u = m_strNetplaneUUID m in
      if u = [] then (VLAN_RANGE_CFG_PARAM_ERROR, d)
      else if \<not> IsValidMsgRange m then (VLAN_RANGE_CFG_PARAM_ERROR, d)
      else if \<not> m_bInit d then (VLAN_RANGE_GET_DB_INTF_ERROR, d)
      else case VlanRange_Query u d of
             (nRet, outVInfo, d1) \<Rightarrow>
               if VNET_DB_SUCCESS \<noteq> nRet then (nRet, d1)
               else if outVInfo = [] then (VLAN_RANGE_NOT_EXIST, d1)
               else (case VlanRange_QueryAllocNum u (m_nVlanStart m) (m_nVlanEnd m) d1 of
                       (nRet, nOccNum, d2) \<Rightarrow>
                         if VNET_DB_SUCCESS \<noteq> nRet then (nRet, d2)
                         else if 0 \<noteq> nOccNum then (VLAN_RANGE_OCCUPIED, d2)
                         else (case CVlanRange_DelRange (msg_item m) (load_ranges outVInfo) of
                                 (nRet, calc) \<Rightarrow>
                                   if 0 \<noteq> nRet then (VLAN_RANGE_CALC_ERROR, d2)
                                   else del_save_ranges m calc outVInfo d2)))"

text \<open>
  The message handler: its return value and the result code of the reply, \<open>None\<close> when none is sent.
  The argument \<open>pMU\<close> tells whether the message unit is set.
\<close>

definition ProcVlanRangeMsg :: "bool \<Rightarrow> CVlanRangeMsg \<Rightarrow> vdb \<Rightarrow> rc \<times> rc option \<times> vdb" where
  "ProcVlanRangeMsg pMU m d =
     (if \<not> pMU then (- 1, None, d)
      else if \<not> IsValidOper m then (- 1, Some VLAN_RANGE_CFG_PARAM_ERROR, d)
      else if m_dwOper m = EN_ADD_VLAN_RANGE then
        (case AddVlanRange m d of (nRet, d1) \<Rightarrow> (0, Some nRet, d1))
      else if m_dwOper m = EN_DEL_VLAN_RANGE then
        (case DelVlanRange m d of (nRet, d1) \<Rightarrow> (0, Some nRet, d1))
      else (0, Some VLAN_RANGE_CFG_PARAM_ERROR, d))"

section \<open>VLANs for the network cards of a virtual machine\<close>

text \<open>The project of the machine and the port groups of its cards, in their order.\<close>

record CVNetVmMem =
  nProjectId :: int
  vecVnicPg :: "string list"

text \<open>One card: \<open>0\<close> to go on with the next one (lines 75-113).\<close>

definition alloc_for_card :: "int \<Rightarrow> string \<Rightarrow> vdb \<Rightarrow> rc \<times> vdb" where
  "alloc_for_card nProjID strPGID d =
     (case IsNeedVlanMap strPGID 0 d of
        (r, nIsolationNo, d1) \<Rightarrow>
          if r \<noteq> PORTGROUP_OPER_SUCCESS then (0, d1)
          else (case IsPortGroupSdn strPGID d1 of
                  (sdn, d2) \<Rightarrow>
                    if sdn then (0, d2)
                    else (case GetPGNetplane strPGID [] d2 of
                            (r, u, d3) \<Rightarrow>
                              if r \<noteq> PORTGROUP_OPER_SUCCESS then (- 1, d3)
                              else (case GetVlanRange u d3 of
                                      (r, ranges, d4) \<Rightarrow>
                                        if 0 \<noteq> r then (- 1, d4)
                                        else (case CVlanPool_Init (Some ranges) u CVlanPool_new d4 of
                                                (r, p, d5) \<Rightarrow>
                                                  if 0 \<noteq> r then (- 1, d5)
                                                  else (case CVlanPool_AllocVlanID u nProjID strPGID
                                                               nIsolationNo 0 p d5 of
                                                          (r, v, p', d6) \<Rightarrow>
                                                            if 0 \<noteq> r then (- 1, d6) else (0, d6)))))))"

fun alloc_cards :: "int \<Rightarrow> string list \<Rightarrow> vdb \<Rightarrow> rc \<times> vdb" where
  "alloc_cards nProjID [] d = (0, d)"
| "alloc_cards nProjID (pg # pgs) d =
     (case alloc_for_card nProjID pg d of
        (r, d1) \<Rightarrow> if r \<noteq> 0 then (r, d1) else alloc_cards nProjID pgs d1)"

definition AllocVlanForVnic :: "CVNetVmMem \<Rightarrow> vdb \<Rightarrow> rc \<times> vdb" where
  "AllocVlanForVnic x d = alloc_cards (nProjectId x) (vecVnicPg x) d"

text \<open>One card of a release (lines 136-182).\<close>

definition free_for_card :: "int \<Rightarrow> string \<Rightarrow> vdb \<Rightarrow> rc \<times> vdb" where
  "free_for_card nProjID strPGID d =
     (case IsNeedVlanMap strPGID 0 d of
        (r, nIsolationNo, d1) \<Rightarrow>
          if r \<noteq> PORTGROUP_OPER_SUCCESS then (0, d1)
          else (case GetPGNetplane strPGID [] d1 of
                  (r, u, d2) \<Rightarrow>
                    if r \<noteq> PORTGROUP_OPER_SUCCESS then (- 1, d2)
                    else (case GetVlanRange u d2 of
                            (nRet, ranges, d3) \<Rightarrow>
                              if VNET_DB_IS_ITEM_NO_EXIST nRet then (0, d3)
                              else if 0 \<noteq> nRet then (- 1, d3)
                              else (case CVlanPool_Init_free u CVlanPool_new of
                                      (r, p) \<Rightarrow>
                                        if 0 \<noteq> r then (- 1, d3)
                                        else (case CVlanPool_FreeVlanID nProjID strPGID nIsolationNo 0 p d3 of
                                                (r, v, d4) \<Rightarrow> if 0 \<noteq> r then (- 1, d4) else (0, d4))))))"

fun free_cards :: "int \<Rightarrow> string list \<Rightarrow> vdb \<Rightarrow> rc \<times> vdb" where
  "free_cards nProjID [] d = (0, d)"
| "free_cards nProjID (pg # pgs) d =
     (case free_for_card nProjID pg d of
        (r, d1) \<Rightarrow> if r \<noteq> 0 then (r, d1) else free_cards nProjID pgs d1)"

definition FreeVlanForVnic :: "CVNetVmMem \<Rightarrow> vdb \<Rightarrow> rc \<times> vdb" where
  "FreeVlanForVnic x d = free_cards (nProjectId x) (vecVnicPg x) d"

section \<open>Computing with the rows of a netplane\<close>

lemma load_ranges_rows: "load_ranges rows = map row_range rows"
proof -
  have "foldl (\<lambda>s r. snd (CVlanRange_AddValidRange (row_range r) s)) acc rows = acc @ map row_range rows"
    for acc by (induction rows arbitrary: acc) (simp_all add: CVlanRange_AddValidRange_def)
  then show ?thesis by (simp add: load_ranges_def)
qed

definition msg_vlans :: "CVlanRangeMsg \<Rightarrow> nat set" where
  "msg_vlans m = {nat (m_nVlanStart m) .. nat (m_nVlanEnd m)}"

lemma IsValidMsgRange_item:
  assumes "IsValidMsgRange m"
  shows "good_item (msg_item m)" and "vlan_item_set (msg_item m) = msg_vlans m"
    and "range_row u (msg_item m) = \<lparr>Uuid = u, BeginNum = m_nVlanStart m, EndNum = m_nVlanEnd m\<rparr>"
proof -
  have b: "2 \<le> m_nVlanStart m" "m_nVlanStart m \<le> m_nVlanEnd m" "m_nVlanEnd m \<le> 4094"
    using assms by (auto simp: IsValidMsgRange_def)
  then have u: "unat (word_of_int (m_nVlanStart m) :: uint32) = nat (m_nVlanStart m)"
    "unat (word_of_int (m_nVlanEnd m) :: uint32) = nat (m_nVlanEnd m)"
    by (intro uint_of_int_small; simp)+
  show "good_item (msg_item m)" using b by (simp add: good_item_def msg_item_def u le_nat_iff nat_le_iff)
  show "vlan_item_set (msg_item m) = msg_vlans m" by (simp add: vlan_item_set_def msg_item_def u msg_vlans_def)
  have "sint (word_of_int (m_nVlanStart m) :: uint32) = m_nVlanStart m"
    "sint (word_of_int (m_nVlanEnd m) :: uint32) = m_nVlanEnd m"
    using b u by (simp_all add: sint_small nat_le_iff)
  then show "range_row u (msg_item m) = \<lparr>Uuid = u, BeginNum = m_nVlanStart m, EndNum = m_nVlanEnd m\<rparr>"
    by (simp add: range_row_def msg_item_def)
qed

lemma good_item_iff:
  "good_item i \<longleftrightarrow> valid_range (vlan_to_range i) \<and> vlan_item_set i \<subseteq> {2..4094}"
  by (auto simp: good_item_def valid_range_nat vlan_to_range_def vlan_item_set_def)

lemma good_item_valid: "good_item i \<Longrightarrow> IsValidVlanRange i"
  using good_item_iff [of i] by (fastforce simp: IsValidVlanRange_iff)

lemma vlans_UN: "vlans s = (\<Union>i \<in> set s. vlan_item_set i)"
  by (simp add: vlans_def coll_set_def)

text \<open>Adding to ranges in any order, overlapping or not, gives the normal form.\<close>

lemma AddRange_rows:
  assumes "s \<noteq> []" and "\<forall>i \<in> set s. good_item i" and "good_item r"
  shows "\<exists>out. CVlanRange_AddRange r s = (0, out) \<and> vlans out = vlans s \<union> vlan_item_set r \<and>
           distinct out \<and> (\<forall>i \<in> set out. good_item i) \<and> apart (map vlan_to_range out)"
proof -
  let ?m = "GetMergedRangeColl (ra_added (map vlan_to_range s) (vlan_to_range r))"
  have val: "\<forall>x \<in> set (vlan_to_range r # map vlan_to_range s). valid_range x"
    using assms(2,3) by (auto simp: good_item_iff)
  have bm: "\<forall>x \<in> set (vlan_to_range r # map vlan_to_range s). below_max x"
  proof
    fix x assume "x \<in> set (vlan_to_range r # map vlan_to_range s)"
    then obtain i where i: "x = vlan_to_range i" "good_item i" using assms(2,3) by auto
    show "below_max x"
      using i by (intro below_max_bounded [where lo = 2 and hi = 4094]) (simp_all add: good_item_iff)
  qed
  note m = ra_added_merges [OF val]
  have can: "canonical ?m" by (rule m(3) [OF bm])
  have run: "CVlanRange_AddRange r s = (0, map vlan_of_range ?m)"
    using assms(1) good_item_valid [OF assms(3)] m(2)
    by (simp add: CVlanRange_AddRange_def ra_added_def Let_def)
  have vl: "vlans (map vlan_of_range ?m) = vlans s \<union> vlan_item_set r"
    using m(1) by (simp add: vlans_def)
  have inj: "inj_on vlan_of_range (set ?m)" by (rule inj_on_inverseI [of _ vlan_to_range]) simp
  have sub: "vlans s \<union> vlan_item_set r \<subseteq> {2..4094}"
    using assms(2,3) unfolding vlans_UN good_item_iff by blast
  have good: "good_item i" if i: "i \<in> set (map vlan_of_range ?m)" for i
  proof -
    obtain x where x: "x \<in> set ?m" "i = vlan_of_range x" using i by auto
    have "range_set x \<subseteq> vlans s \<union> vlan_item_set r"
      using coll_set_member [OF x(1)] m(1) by (simp add: vlans_def)
    then show ?thesis
      using sub can x by (auto simp: good_item_iff canonical_def item_set_range [symmetric]
          simp del: item_set_range)
  qed
  have "distinct (map vlan_of_range ?m)"
    using canonical_distinct [OF can] inj by (simp add: distinct_map)
  moreover have "apart (map vlan_to_range (map vlan_of_range ?m))"
    using canonical_apart [OF can] by simp
  ultimately show ?thesis using run vl good by blast
qed

text \<open>Deleting from separated ranges.\<close>

lemma DelRange_rows:
  assumes "s \<noteq> []" and "\<forall>i \<in> set s. good_item i" and "apart (map vlan_to_range s)" and "good_item r"
    and "CVlanRange_DelRange r s = (0, out)"
  shows "vlan_item_set r \<subseteq> vlans s" and "vlans out = vlans s - vlan_item_set r" and "distinct out"
    and "\<forall>i \<in> set out. good_item i" and "apart (map vlan_to_range out)"
proof -
  have sub: "vlans s \<subseteq> {2..4094}" using assms(2) unfolding vlans_UN good_item_iff by blast
  have inv: "vlan_inv s" using assms(3) sub by (fastforce simp: vlan_inv_def)
  note r = good_item_valid [OF assms(4)]
  show c: "vlan_item_set r \<subseteq> vlans s"
  proof (rule ccontr)
    assume "\<not> ?thesis"
    from CVlanRange_DelRange_missing [OF inv r this] assms(1,5) show False by simp
  qed
  from CVlanRange_DelRange_done [OF inv r c] assms(5)
  have o: "vlan_inv out" "vlans out = vlans s - vlan_item_set r" by simp_all
  show "vlans out = vlans s - vlan_item_set r" by (rule o(2))
  show ap: "apart (map vlan_to_range out)" using o(1) by (simp add: vlan_inv_def)
  show "\<forall>i \<in> set out. good_item i"
  proof
    fix i assume i: "i \<in> set out"
    have "vlan_item_set i \<subseteq> vlans out" using i by (auto simp: vlans_UN)
    moreover have "valid_range (vlan_to_range i)" using ap i by (simp add: apart_def)
    ultimately show "good_item i" using o(2) sub by (auto simp: good_item_iff)
  qed
  have "distinct (map vlan_to_range out)"
    using ap by (induction out) (auto simp: separated_def valid_range_nat)
  then show "distinct out" by (simp add: distinct_map)
qed

section \<open>The effect of \<open>AddVlanRange\<close> and \<open>DelVlanRange\<close>\<close>

definition np_vlans :: "string \<Rightarrow> vdb \<Rightarrow> nat set" where
  "np_vlans u d = vlans (np_ranges u d)"

definition rows_apart :: "string \<Rightarrow> vdb \<Rightarrow> bool" where
  "rows_apart u d \<longleftrightarrow> apart (map vlan_to_range (np_ranges u d))"

lemma np_vlans_rows:
  assumes "rows_ok u d"
  shows "np_vlans u d = (\<Union>r \<in> set (np_rows u d). {nat (BeginNum r) .. nat (EndNum r)})"
proof -
  have "vlan_item_set (row_range r) = {nat (BeginNum r) .. nat (EndNum r)}" if "r \<in> set (np_rows u d)" for r
    using assms that by (auto simp: rows_ok_def good_row_def vlan_item_set_def row_range_def uint_of_int_small)
  then show ?thesis by (simp add: np_vlans_def vlans_UN np_ranges_def)
qed

lemma same_tables_np:
  assumes "same_tables d d'"
  shows "np_vlans u d' = np_vlans u d" "rows_apart u d' = rows_apart u d" "rows_ok u d' = rows_ok u d"
    "rest_same u d d'" "np_ranges u d' = np_ranges u d"
  using assms by (simp_all add: np_vlans_def rows_apart_def np_ranges_def same_tables_ranges rows_ok_def)

lemma rows_ok_ranges:
  assumes "rows_ok u d"
  shows "distinct (np_ranges u d)" and "\<forall>i \<in> set (np_ranges u d). good_item i"
    and "\<forall>r \<in> set (np_rows u d). good_row u r"
proof -
  show g: "\<forall>r \<in> set (np_rows u d). good_row u r" using assms by (simp add: rows_ok_def)
  show "distinct (np_ranges u d)"
    using assms good_rows_items(2) [OF g] by (simp add: rows_ok_def np_ranges_def)
  show "\<forall>i \<in> set (np_ranges u d). good_item i"
    using g good_row_item by (auto simp: np_ranges_def)
qed

text \<open>Writing back a list of good ranges, by the contract of the table.\<close>

lemma save_ranges_effect:
  assumes "rows_ok u d" and "distinct calc" and "\<forall>i \<in> set calc. good_item i"
    and "apart (map vlan_to_range calc)" and "save_ranges u calc (np_rows u d) d = (ret, d')"
  shows "rest_same u d d'" and "rows_ok u d'"
    and "np_vlans u d' \<subseteq> np_vlans u d \<union> vlans calc"
    and "np_vlans u d \<inter> vlans calc \<subseteq> np_vlans u d'"
    and "np_vlans u d \<subseteq> np_vlans u d' \<or> vlans calc \<subseteq> np_vlans u d'"
    and "ret = 0 \<Longrightarrow> np_vlans u d' = vlans calc \<and> rows_apart u d'"
proof -
  note ok = rows_ok_ranges [OF assms(1)]
  have "range_inv u d d" using assms(1) by (simp add: range_inv_def)
  then have s: "range_inv u d d' \<and> set (np_ranges u d') \<subseteq> set (np_ranges u d) \<union> set calc \<and>
      (ret = 0 \<longrightarrow> set (np_ranges u d') = set calc) \<and>
      (set (np_ranges u d) \<subseteq> set (np_ranges u d') \<or> set calc \<subseteq> set (np_ranges u d'))"
    using vlan_store.sync_result [of u d d calc "np_rows u d" ret d'] assms(1-3,5)
    by (simp add: save_ranges_def rows_ok_def np_ranges_def)
  then show "rest_same u d d'" "rows_ok u d'" by (simp_all add: range_inv_def)
  show "np_vlans u d' \<subseteq> np_vlans u d \<union> vlans calc"
    using s by (auto simp: np_vlans_def vlans_UN)
  show or: "np_vlans u d \<subseteq> np_vlans u d' \<or> vlans calc \<subseteq> np_vlans u d'"
    using s by (auto simp: np_vlans_def vlans_UN)
  then show "np_vlans u d \<inter> vlans calc \<subseteq> np_vlans u d'" by blast
  assume "ret = 0"
  then have eq: "set (np_ranges u d') = set calc" using s by blast
  moreover have "distinct (np_ranges u d')" using rows_ok_ranges(1) [OF \<open>rows_ok u d'\<close>] .
  moreover have inj: "inj vlan_to_range" by (rule inj_on_inverseI [of _ vlan_of_range]) simp
  ultimately have "apart (map vlan_to_range (np_ranges u d'))"
    using inj_on_subset [OF inj subset_UNIV] by (intro apart_set [OF assms(4)]) (simp_all add: distinct_map)
  then show "np_vlans u d' = vlans calc \<and> rows_apart u d'"
    using eq by (simp add: np_vlans_def vlans_UN rows_apart_def)
qed

text \<open>What an addition guarantees, and what it gives when it returns success.\<close>

definition range_grows :: "CVlanRangeMsg \<Rightarrow> vdb \<Rightarrow> vdb \<Rightarrow> bool" where
  "range_grows m d d' \<longleftrightarrow>
     rest_same (m_strNetplaneUUID m) d d' \<and> rows_ok (m_strNetplaneUUID m) d' \<and>
     np_vlans (m_strNetplaneUUID m) d \<subseteq> np_vlans (m_strNetplaneUUID m) d' \<and>
     np_vlans (m_strNetplaneUUID m) d' \<subseteq> np_vlans (m_strNetplaneUUID m) d \<union> msg_vlans m"

definition range_added :: "CVlanRangeMsg \<Rightarrow> vdb \<Rightarrow> vdb \<Rightarrow> bool" where
  "range_added m d d' \<longleftrightarrow>
     np_vlans (m_strNetplaneUUID m) d' = np_vlans (m_strNetplaneUUID m) d \<union> msg_vlans m \<and>
     rows_apart (m_strNetplaneUUID m) d'"

lemma first_range_effect:
  assumes "np_rows u d = []" and "good_item i" and "VlanRange_Add (range_row u i) d = (ret, d')"
  shows "rest_same u d d'" and "rows_ok u d'" and "np_vlans u d = {}"
    and "np_vlans u d' = {} \<or> np_vlans u d' = vlan_item_set i"
    and "ret = 0 \<Longrightarrow> np_vlans u d' = vlan_item_set i \<and> rows_apart u d'"
proof -
  note e = VlanRange_Add_effect [OF assms(3), of u]
  have r: "np_rows u d' = [] \<or> np_rows u d' = [range_row u i]" using e(3) assms(1) by simp
  then show "rows_ok u d'" using good_item_row [OF assms(2)] by (auto simp: rows_ok_def)
  show "rest_same u d d'" using e(1) by simp
  show "np_vlans u d = {}" using assms(1) by (simp add: np_vlans_def np_ranges_def vlans_UN)
  show "np_vlans u d' = {} \<or> np_vlans u d' = vlan_item_set i"
    using r by (auto simp: np_vlans_def np_ranges_def vlans_UN)
  show "np_vlans u d' = vlan_item_set i \<and> rows_apart u d'" if "ret = 0"
    using e(2) [OF _ that] assms(1,2)
    by (simp add: np_vlans_def np_ranges_def vlans_UN rows_apart_def good_item_iff)
qed

lemma add_range_rows_effect:
  assumes "rows_ok (m_strNetplaneUUID m) d" and "IsValidMsgRange m"
    and "add_range_rows m d = (ret, d')"
  shows "range_grows m d d' \<and> (ret = 0 \<longrightarrow> range_added m d d')"
proof -
  let ?u = "m_strNetplaneUUID m"
  note it = IsValidMsgRange_item [OF assms(2)]
  have refl: "range_grows m d d1" if "same_tables d d1" for d1
    using same_tables_np [OF that, of ?u] assms(1) by (simp add: range_grows_def)
  obtain r1 rows d1 where q: "VlanRange_Query ?u d = (r1, rows, d1)" by (metis prod_cases3)
  note qe = VlanRange_Query_effect [OF q]
  note np1 = same_tables_np [OF qe(1), of ?u]
  consider (intf) "ret = VLAN_RANGE_GET_DB_INTF_ERROR" "d' = d" | (failed) "ret = r1" "r1 \<noteq> 0" "d' = d1"
    | (ok) "r1 = 0" "m_bInit d"
    using assms(3) q by (auto simp: add_range_rows_def Let_def rtn_defs split: if_splits)
  then show ?thesis
  proof cases
    case intf
    then show ?thesis using refl [of d] by (simp add: mgr_codes)
  next
    case failed
    then show ?thesis using refl [OF qe(1)] by simp
  next
    case ok
    have rows: "rows = np_rows ?u d1" using qe ok(1) same_tables_ranges(4) [OF qe(1)] by simp
    show ?thesis
    proof (cases "rows = []")
      case True
      obtain r2 d2 where a: "VlanRange_Add (range_row ?u (msg_item m)) d1 = (r2, d2)" by fastforce
      have out: "d' = d2" "ret = 0 \<Longrightarrow> r2 = 0"
        using assms(3) q ok True a [unfolded it(3)]
        by (auto simp: add_range_rows_def Let_def mgr_codes split: if_splits)
      note f = first_range_effect [OF _ it(1) a]
      have e: "np_rows ?u d1 = []" using True rows by simp
      show ?thesis
        using f [OF e] out np1 it(2) rest_same_trans [of ?u d d1 d2]
        by (auto simp: range_grows_def range_added_def)
    next
      case False
      have ne: "np_ranges ?u d1 \<noteq> []" using False rows by (simp add: np_ranges_def)
      have ok1: "rows_ok ?u d1" using assms(1) np1(3) by simp
      obtain calc where calc: "CVlanRange_AddRange (msg_item m) (np_ranges ?u d1) = (0, calc)"
        "vlans calc = vlans (np_ranges ?u d1) \<union> vlan_item_set (msg_item m)" "distinct calc"
        "\<forall>i \<in> set calc. good_item i" "apart (map vlan_to_range calc)"
        using AddRange_rows [OF ne rows_ok_ranges(2) [OF ok1] it(1)] by blast
      have "save_ranges ?u calc (np_rows ?u d1) d1 = (ret, d')"
        using assms(3) q ok False calc(1) rows
        by (simp add: add_range_rows_def Let_def VNET_DB_SUCCESS_def load_ranges_rows np_ranges_def)
      note s = save_ranges_effect [OF ok1 calc(3-5) this]
      have vl: "vlans calc = np_vlans ?u d \<union> msg_vlans m"
        using calc(2) it(2) np1(1) by (simp add: np_vlans_def)
      have "range_grows m d d'"
        using s(1-3,5) vl np1(1,4) rest_same_trans [of ?u d d1 d'] by (auto simp: range_grows_def)
      moreover have "ret = 0 \<longrightarrow> range_added m d d'" using s(6) vl by (simp add: range_added_def)
      ultimately show ?thesis by blast
    qed
  qed
qed

text \<open>The VLANs that shared port groups of a netplane have claimed.\<close>

definition share_access :: "string \<Rightarrow> vdb \<Rightarrow> int list" where
  "share_access u d =
     (case np_lookup u d of None \<Rightarrow> []
      | Some np \<Rightarrow> concat (map (\<lambda>g. map snd (filter (\<lambda>a. fst a = g) (access_vlan d))) (pgs_of_type 20 np d)))"

definition share_trunk :: "string \<Rightarrow> vdb \<Rightarrow> (int \<times> int) list" where
  "share_trunk u d =
     (case np_lookup u d of None \<Rightarrow> []
      | Some np \<Rightarrow> concat (map (\<lambda>g. map snd (filter (\<lambda>a. fst a = g) (trunk_vlan_range d)))
                             (pgs_of_type 20 np d)))"

definition no_conflict :: "CVlanRangeMsg \<Rightarrow> vdb \<Rightarrow> bool" where
  "no_conflict m d \<longleftrightarrow>
     (\<forall>n \<in> set (share_access (m_strNetplaneUUID m) d). \<not> (m_nVlanStart m \<le> n \<and> n \<le> m_nVlanEnd m)) \<and>
     (\<forall>(b, e) \<in> set (share_trunk (m_strNetplaneUUID m) d). \<not> (b \<le> m_nVlanEnd m \<and> m_nVlanStart m \<le> e))"

lemma share_same_tables:
  assumes "same_tables d e"
  shows "share_access u e = share_access u d" "share_trunk u e = share_trunk u d"
proof -
  note s = same_rows_sel [OF same_tables_rows [OF assms]]
  note l = same_rows_lookups(1) [OF same_tables_rows [OF assms]]
  show "share_access u e = share_access u d" "share_trunk u e = share_trunk u d"
    unfolding share_access_def share_trunk_def pgs_of_type_def s l by (rule refl)+
qed

lemma conflict_effects:
  shows "IsConflictWithShareNetAccessVlan m c d = (r, c', d') \<Longrightarrow> same_tables d d' \<and>
           (r = 0 \<longrightarrow> (\<forall>n \<in> set (share_access (m_strNetplaneUUID m) d).
                        \<not> (m_nVlanStart m \<le> n \<and> n \<le> m_nVlanEnd m)))"
    and "IsConflictWithShareNetTrunkVlan m t d = (r, t', d') \<Longrightarrow> same_tables d d' \<and>
           (r = 0 \<longrightarrow> (\<forall>(b, e) \<in> set (share_trunk (m_strNetplaneUUID m) d).
                        \<not> (b \<le> m_nVlanEnd m \<and> m_nVlanStart m \<le> e)))"
proof -
  let ?u = "m_strNetplaneUUID m"
  have f: "pf_net_query_vm_share_pg_access_list_by_netplane ?u = (\<lambda>d. Some (share_access ?u d, d))"
    "pf_net_query_vm_share_pg_trunk_list_by_netplane ?u = (\<lambda>d. Some (share_trunk ?u d, d))"
    by (auto simp: fun_eq_iff share_access_def share_trunk_def
        pf_net_query_vm_share_pg_access_list_by_netplane_def
        pf_net_query_vm_share_pg_trunk_list_by_netplane_def split: option.split)
  { assume a: "IsConflictWithShareNetAccessVlan m c d = (r, c', d')"
    obtain r1 ns d1 where q: "VlanPool_QueryShareNetAccessVlan ?u d = (r1, ns, d1)" by (metis prod_cases3)
    note e = db_query_op_readonly [OF q [unfolded VlanPool_QueryShareNetAccessVlan_def f] share_same_tables(1)]
    show "same_tables d d' \<and> (r = 0 \<longrightarrow> (\<forall>n \<in> set (share_access ?u d).
            \<not> (m_nVlanStart m \<le> n \<and> n \<le> m_nVlanEnd m)))"
      using a q e(1,2)
      by (auto simp: IsConflictWithShareNetAccessVlan_def rtn_defs find_None_all
          split: if_splits option.splits)
  next
    assume a: "IsConflictWithShareNetTrunkVlan m t d = (r, t', d')"
    obtain r1 ns d1 where q: "VlanPool_QueryShareNetTrunkVlan ?u d = (r1, ns, d1)" by (metis prod_cases3)
    note e = db_query_op_readonly [OF q [unfolded VlanPool_QueryShareNetTrunkVlan_def f] share_same_tables(2)]
    show "same_tables d d' \<and> (r = 0 \<longrightarrow> (\<forall>(b, e) \<in> set (share_trunk ?u d).
            \<not> (b \<le> m_nVlanEnd m \<and> m_nVlanStart m \<le> e)))"
      using a q e(1,2)
      by (fastforce simp: IsConflictWithShareNetTrunkVlan_def rtn_defs find_None_all
          split: if_splits option.splits)
  }
qed

lemma AddVlanRange_effect:
  assumes "rows_ok (m_strNetplaneUUID m) d" and "AddVlanRange m d = (ret, d')"
  shows "range_grows m d d' \<and> (ret = 0 \<longrightarrow> range_added m d d' \<and> IsValidMsgRange m \<and> no_conflict m d)"
proof -
  let ?u = "m_strNetplaneUUID m"
  have refl: "range_grows m d d1" if "same_tables d d1" for d1
    using same_tables_np [OF that, of ?u] assms(1) by (simp add: range_grows_def)
  obtain c x d1 where q1: "IsConflictWithShareNetAccessVlan m 0 d = (c, x, d1)" by (metis prod_cases3)
  obtain t y d2 where q2: "IsConflictWithShareNetTrunkVlan m (0, 0) d1 = (t, y, d2)" by (metis prod_cases3)
  note e1 = conflict_effects(1) [OF q1]
  note e2 = conflict_effects(2) [OF q2]
  have s2: "same_tables d d2" using e1 e2 same_tables_trans by blast
  consider (stop) "ret = VLAN_RANGE_CFG_PARAM_ERROR" "d' = d \<or> d' = d1 \<or> d' = d2"
    | (go) "IsValidMsgRange m" "c = 0" "t = 0" "add_range_rows m d2 = (ret, d')"
    using assms(2) q1 q2 by (auto simp: AddVlanRange_def split: if_splits)
  then show ?thesis
  proof cases
    case stop
    then show ?thesis using refl e1 s2 by (auto simp: mgr_codes)
  next
    case go
    have ok2: "rows_ok ?u d2" using assms(1) same_tables_np(3) [OF s2] by simp
    from add_range_rows_effect [OF ok2 go(1,4)]
    have f: "range_grows m d2 d'" "ret = 0 \<Longrightarrow> range_added m d2 d'" by simp_all
    have "no_conflict m d"
      using e1 e2 go(2,3) share_same_tables(2) [of d d1 ?u] by (auto simp: no_conflict_def)
    moreover have "range_grows m d d'"
      using f(1) same_tables_np [OF s2, of ?u] rest_same_trans [of ?u d d2 d'] by (simp add: range_grows_def)
    ultimately show ?thesis
      using f(2) go(1) same_tables_np [OF s2, of ?u] by (simp add: range_added_def)
  qed
qed

text \<open>What a deletion guarantees, and what it gives when it returns success.\<close>

definition msg_free :: "CVlanRangeMsg \<Rightarrow> vdb \<Rightarrow> bool" where
  "msg_free m d \<longleftrightarrow>
     (\<forall>np. np_lookup (m_strNetplaneUUID m) d = Some np \<longrightarrow>
        (\<forall>n \<in> allocated d np. \<not> (m_nVlanStart m \<le> n \<and> n \<le> m_nVlanEnd m)))"

definition range_shrinks :: "CVlanRangeMsg \<Rightarrow> vdb \<Rightarrow> vdb \<Rightarrow> bool" where
  "range_shrinks m d d' \<longleftrightarrow>
     rest_same (m_strNetplaneUUID m) d d' \<and> rows_ok (m_strNetplaneUUID m) d' \<and>
     np_vlans (m_strNetplaneUUID m) d' \<subseteq> np_vlans (m_strNetplaneUUID m) d \<and>
     np_vlans (m_strNetplaneUUID m) d - msg_vlans m \<subseteq> np_vlans (m_strNetplaneUUID m) d' \<and>
     (np_vlans (m_strNetplaneUUID m) d' \<noteq> np_vlans (m_strNetplaneUUID m) d \<longrightarrow> msg_free m d)"

definition range_removed :: "CVlanRangeMsg \<Rightarrow> vdb \<Rightarrow> vdb \<Rightarrow> bool" where
  "range_removed m d d' \<longleftrightarrow>
     msg_vlans m \<subseteq> np_vlans (m_strNetplaneUUID m) d \<and>
     np_vlans (m_strNetplaneUUID m) d' = np_vlans (m_strNetplaneUUID m) d - msg_vlans m \<and>
     rows_apart (m_strNetplaneUUID m) d' \<and> msg_free m d"

lemma QueryAllocNum_effect:
  assumes "VlanRange_QueryAllocNum u b e d = (ret, num, d')"
  shows "same_tables d d'"
    and "ret = 0 \<Longrightarrow> num = 0 \<Longrightarrow> np_lookup u d = Some np \<Longrightarrow> \<forall>n \<in> allocated d np. \<not> (b \<le> n \<and> n \<le> e)"
proof -
  let ?p = "pf_net_query_netplane_vlanrange_alloc u b e"
  have p: "x2 = x1" if "?p x1 = Some (a, x2)" for x1 x2 a
    using that by (auto simp: pf_net_query_netplane_vlanrange_alloc_def split: option.splits if_splits)
  have r: "same_tables d d' \<and> (ret = 0 \<and> num = 0 \<and> np_lookup u d = Some np \<longrightarrow>
             (\<forall>n \<in> allocated d np. \<not> (b \<le> n \<and> n \<le> e)))" for np
  proof (cases rule: Handle_cases [of ?p d])
    case (not_run c d1)
    then show ?thesis
      using assms by (auto simp: VlanRange_QueryAllocNum_def rtn_defs split: if_splits)
  next
    case (answered d1 a d2)
    have d: "d2 = d1" by (rule p [OF answered(2)])
    note l = same_tables_ranges(3) [OF answered(1), of u]
    have al: "allocated d1 np = allocated d np"
      by (rule allocated_same_rows [OF same_tables_rows [OF answered(1)]])
    have "\<forall>n \<in> allocated d1 np. \<not> (b \<le> n \<and> n \<le> e)" if "a = (0, 0)" "np_lookup u d1 = Some np"
      using answered(2) that
      by (auto simp: pf_net_query_netplane_vlanrange_alloc_def allocated_def filter_empty_conv
          split: if_splits)
    moreover have "fst a = 0 \<or> fst a = RTN_ITEM_NO_EXIST"
      using answered(2)
      by (auto simp: pf_net_query_netplane_vlanrange_alloc_def split: option.splits if_splits)
    moreover obtain x y where "a = (x, y)" by fastforce
    ultimately show ?thesis
      using assms answered d l al
      by (auto simp: VlanRange_QueryAllocNum_def rtn_defs split: if_splits)
  next
    case (lost d1 a c d2)
    then show ?thesis
      using assms p [OF lost(2)] by (auto simp: VlanRange_QueryAllocNum_def rtn_defs split: if_splits)
  qed
  show "same_tables d d'" using r by blast
  show "ret = 0 \<Longrightarrow> num = 0 \<Longrightarrow> np_lookup u d = Some np \<Longrightarrow> \<forall>n \<in> allocated d np. \<not> (b \<le> n \<and> n \<le> e)"
    using r by blast
qed

lemma GetIsolateNo_effect: "GetIsolateNo m d = (r, ns, d') \<Longrightarrow> same_tables d d'"
proof -
  assume a: "GetIsolateNo m d = (r, ns, d')"
  let ?f = "\<lambda>d. case np_lookup (m_strNetplaneUUID m) d of None \<Rightarrow> []
     | Some np \<Rightarrow> concat (map (\<lambda>g. map snd (filter (\<lambda>a. fst a = g) (access_isolate d))) (pgs_of_type 21 np d))"
  have f: "pf_net_query_vm_private_pg_isolate_no_list_by_netplane (m_strNetplaneUUID m) = (\<lambda>d. Some (?f d, d))"
    by (auto simp: fun_eq_iff pf_net_query_vm_private_pg_isolate_no_list_by_netplane_def split: option.split)
  have e: "?f e = ?f d" if "same_tables d e" for e
    unfolding pgs_of_type_def same_rows_sel [OF same_tables_rows [OF that]]
      same_rows_lookups(1) [OF same_tables_rows [OF that]] by (rule refl)
  obtain r1 xs d1 where q: "VlanPool_QueryPrivateNetIsolateNo (m_strNetplaneUUID m) d = (r1, xs, d1)"
    by (metis prod_cases3)
  have "same_tables d d1"
    using db_query_op_readonly(1) [OF q [unfolded VlanPool_QueryPrivateNetIsolateNo_def f] e] .
  then show ?thesis using a q by (auto simp: GetIsolateNo_def split: if_splits)
qed

lemma del_save_ranges_effect:
  assumes "rows_ok (m_strNetplaneUUID m) d" and "distinct calc" and "\<forall>i \<in> set calc. good_item i"
    and "apart (map vlan_to_range calc)" and "vlans calc = np_vlans (m_strNetplaneUUID m) d - msg_vlans m"
    and "msg_vlans m \<subseteq> np_vlans (m_strNetplaneUUID m) d" and "msg_free m d"
    and "del_save_ranges m calc (np_rows (m_strNetplaneUUID m) d) d = (ret, d')"
  shows "range_shrinks m d d' \<and> (ret = 0 \<longrightarrow> range_removed m d d')"
proof -
  let ?u = "m_strNetplaneUUID m"
  have saved: "range_shrinks m d d' \<and> (ret = 0 \<longrightarrow> range_removed m d d')"
    if s1: "same_tables d d1" and sv: "save_ranges ?u calc (np_rows ?u d1) d1 = (ret, d')" for d1
  proof -
    note np = same_tables_np [OF s1, of ?u]
    have "rows_ok ?u d1" using assms(1) np(3) by simp
    note s = save_ranges_effect [OF this assms(2-4) sv]
    have "range_shrinks m d d'"
      using s(1-5) np(1,4) assms(5,7) rest_same_trans [of ?u d d1 d']
      by (auto simp: range_shrinks_def)
    then show ?thesis using s(6) assms(5-7) by (simp add: range_removed_def)
  qed
  show ?thesis
  proof (cases "calc = []")
    case False
    then show ?thesis using saved [of d] assms(8) by (simp add: del_save_ranges_def)
  next
    case True
    obtain r1 ns d1 where q: "GetIsolateNo m d = (r1, ns, d1)" by (metis prod_cases3)
    have s1: "same_tables d d1" by (rule GetIsolateNo_effect [OF q])
    note np = same_tables_np [OF s1, of ?u]
    have stop: "range_shrinks m d d1" using assms(1) np by (simp add: range_shrinks_def)
    have "np_rows ?u d1 = np_rows ?u d" by (rule same_tables_ranges(4) [OF s1])
    then show ?thesis
      using assms(8) q True saved [OF s1] stop
      by (auto simp: del_save_ranges_def mgr_codes split: if_splits)
  qed
qed

lemma DelVlanRange_effect:
  assumes "rows_ok (m_strNetplaneUUID m) d" and "rows_apart (m_strNetplaneUUID m) d"
    and "DelVlanRange m d = (ret, d')"
  shows "range_shrinks m d d' \<and> (ret = 0 \<longrightarrow> range_removed m d d' \<and> IsValidMsgRange m)"
proof -
  let ?u = "m_strNetplaneUUID m"
  have refl: "range_shrinks m d d1" if "same_tables d d1" for d1
    using same_tables_np [OF that, of ?u] assms(1) by (simp add: range_shrinks_def)
  obtain r1 rows d1 where q: "VlanRange_Query ?u d = (r1, rows, d1)" by (metis prod_cases3)
  note qe = VlanRange_Query_effect [OF q]
  obtain r2 num d2 where c: "VlanRange_QueryAllocNum ?u (m_nVlanStart m) (m_nVlanEnd m) d1 = (r2, num, d2)"
    by (metis prod_cases3)
  note ce = QueryAllocNum_effect [OF c]
  have s2: "same_tables d d2" using qe(1) ce(1) by (rule same_tables_trans)
  obtain r3 calc where k: "CVlanRange_DelRange (msg_item m) (load_ranges rows) = (r3, calc)" by fastforce
  consider (stop) "ret \<noteq> 0" "d' = d \<or> d' = d1 \<or> d' = d2"
    | (go) "IsValidMsgRange m" "r1 = 0" "rows \<noteq> []" "r2 = 0" "num = 0" "r3 = 0"
        "del_save_ranges m calc rows d2 = (ret, d')"
    using assms(3) q c k by (auto simp: DelVlanRange_def Let_def mgr_codes split: if_splits)
  then show ?thesis
  proof cases
    case stop
    then show ?thesis using refl [of d] refl [OF qe(1)] refl [OF s2] by auto
  next
    case go
    note it = IsValidMsgRange_item [OF go(1)]
    note np = same_tables_np [OF s2, of ?u]
    have rows: "rows = np_rows ?u d2"
      using qe(2) [OF go(2)] same_tables_ranges(4) [OF s2] by simp
    have ne: "np_ranges ?u d2 \<noteq> []" using go(3) rows by (simp add: np_ranges_def)
    have ok2: "rows_ok ?u d2" "apart (map vlan_to_range (np_ranges ?u d2))"
      using assms(1,2) np by (simp_all add: rows_apart_def)
    have "CVlanRange_DelRange (msg_item m) (np_ranges ?u d2) = (0, calc)"
      using k go(6) rows by (simp add: load_ranges_rows np_ranges_def)
    note dr = DelRange_rows [OF ne rows_ok_ranges(2) [OF ok2(1)] ok2(2) it(1) this]
    have fr: "msg_free m d2"
    proof -
      have l: "np_lookup ?u d1 = np_lookup ?u d2" using same_tables_ranges(3) [OF ce(1)] by simp
      have al: "allocated d1 = allocated d2"
        using allocated_same_rows [OF same_tables_rows [OF ce(1)]] by (simp add: fun_eq_iff)
      show ?thesis using ce(2) [OF go(4,5)] l al by (auto simp: msg_free_def)
    qed
    have "range_shrinks m d2 d' \<and> (ret = 0 \<longrightarrow> range_removed m d2 d')"
      using ok2(1) dr fr it(2) go(7) rows
      by (intro del_save_ranges_effect) (simp_all add: np_vlans_def)
    moreover have "msg_free m d2 = msg_free m d"
      using same_tables_ranges(3) [OF s2, of ?u] allocated_same_rows [OF same_tables_rows [OF s2]]
      by (simp add: msg_free_def)
    ultimately show ?thesis
      using np go(1) rest_same_trans [of ?u d d2 d']
      by (auto simp: range_shrinks_def range_removed_def)
  qed
qed

end
