(* ===== verification/VlanRangeOps.thy ===== *)
theory VlanRangeOps
  imports VlanPoolMgr
begin

text \<open>
  The properties of the range messages of \<open>CVlanPoolMgr\<close>: what \<open>AddVlanRange\<close> and \<open>DelVlanRange\<close>
  guarantee whatever the database does, what they give when they return success, when they must
  succeed, what a failed message can leave behind, and what the two range queries answer.
\<close>

section \<open>Example messages\<close>

abbreviation range_msg :: "uint32 \<Rightarrow> int \<Rightarrow> int \<Rightarrow> CVlanRangeMsg" where
  "range_msg op b e \<equiv> \<lparr>m_nVlanStart = b, m_nVlanEnd = e, m_strNetplaneUUID = ''np'', m_dwOper = op\<rparr>"

lemma example_rows:
  "m_bInit example_db" "rows_ok ''np'' example_db" "rows_apart ''np'' example_db"
  "np_ranges ''np'' example_db = [\<lparr>dwVlanIDStart = 2, dwVlanIDEnd = 4\<rparr>]"
  by code_simp+

lemma example_vlans: "np_vlans ''np'' example_db = {2..4}"
  by (simp add: np_vlans_def example_rows(4) vlans_UN vlan_item_set_def)

section \<open>Adding a range\<close>

text \<open>C3. \<open>AddVlanRange\<close> on well-formed rows. Whatever the database does, it changes only the rows of the
  netplane of the message, keeps them well-formed, loses no VLAN and adds none outside the message. When
  it returns success, the ranges hold exactly the old VLANs and those of the message, in separated rows,
  the message was valid, and no shared port group of the netplane uses one of its VLANs.\<close>

theorem AddVlanRange_result:
  assumes "rows_ok (m_strNetplaneUUID m) d" and "AddVlanRange m d = (ret, d')"
  shows "rest_same (m_strNetplaneUUID m) d d' \<and> rows_ok (m_strNetplaneUUID m) d' \<and>
         np_vlans (m_strNetplaneUUID m) d \<subseteq> np_vlans (m_strNetplaneUUID m) d' \<and>
         np_vlans (m_strNetplaneUUID m) d' \<subseteq> np_vlans (m_strNetplaneUUID m) d \<union> msg_vlans m \<and>
         (ret = 0 \<longrightarrow>
            np_vlans (m_strNetplaneUUID m) d' = np_vlans (m_strNetplaneUUID m) d \<union> msg_vlans m \<and>
            rows_apart (m_strNetplaneUUID m) d' \<and> IsValidMsgRange m \<and> no_conflict m d)"
  using AddVlanRange_effect [OF assms] by (simp add: range_grows_def range_added_def)

lemma example_add:
  "\<exists>d'. AddVlanRange (range_msg 1 6 9) example_db = (0, d')"
proof -
  have "fst (AddVlanRange (range_msg 1 6 9) example_db) = 0" by code_simp
  then show ?thesis by (metis prod.collapse)
qed

theorem AddVlanRange_result_witness:
  "\<exists>d'. AddVlanRange (range_msg 1 6 9) example_db = (0, d') \<and> np_vlans ''np'' d' = {2..4} \<union> {6..9}"
proof -
  obtain d' where a: "AddVlanRange (range_msg 1 6 9) example_db = (0, d')" using example_add by blast
  from AddVlanRange_result [OF _ this] show ?thesis
    using a by (auto simp: example_rows example_vlans msg_vlans_def)
qed

text \<open>An addition can be repeated: after a first attempt with any outcome, however its calls to the
  database failed, a second one that succeeds leaves exactly the VLANs that one successful addition on
  the first state would have given.\<close>

theorem AddVlanRange_retry:
  assumes "rows_ok (m_strNetplaneUUID m) d" and "AddVlanRange m d = (ret, d1)"
    and "AddVlanRange m d1 = (0, d2)"
  shows "np_vlans (m_strNetplaneUUID m) d2 = np_vlans (m_strNetplaneUUID m) d \<union> msg_vlans m \<and>
         rows_apart (m_strNetplaneUUID m) d2 \<and> rest_same (m_strNetplaneUUID m) d d2"
proof -
  let ?u = "m_strNetplaneUUID m"
  have g: "range_grows m d d1" using AddVlanRange_effect [OF assms(1,2)] ..
  then have "rows_ok ?u d1" by (simp add: range_grows_def)
  from AddVlanRange_effect [OF this assms(3)] have "range_grows m d1 d2" "range_added m d1 d2" by simp_all
  then show ?thesis
    using g rest_same_trans [of ?u d d1 d2] by (auto simp: range_grows_def range_added_def)
qed

theorem AddVlanRange_retry_witness:
  "\<exists>d1 d2. AddVlanRange (range_msg 1 6 9) (example_db\<lparr>env := [Run, Run, Run, ReplyLost EXECUTE_FAILED]\<rparr>) = (3, d1) \<and>
     AddVlanRange (range_msg 1 6 9) d1 = (0, d2) \<and> np_vlans ''np'' d2 = {2..4} \<union> {6..9}"
proof -
  let ?d = "example_db\<lparr>env := [Run, Run, Run, ReplyLost EXECUTE_FAILED]\<rparr>"
  obtain r1 d1 where a: "AddVlanRange (range_msg 1 6 9) ?d = (r1, d1)" by fastforce
  obtain r2 d2 where b: "AddVlanRange (range_msg 1 6 9) d1 = (r2, d2)" by fastforce
  have "fst (AddVlanRange (range_msg 1 6 9) ?d) = 3" by code_simp
  moreover have "fst (AddVlanRange (range_msg 1 6 9) (snd (AddVlanRange (range_msg 1 6 9) ?d))) = 0"
    by code_simp
  ultimately have r: "r1 = 3" "r2 = 0" using a b by simp_all
  have "same_tables example_db ?d" by (simp add: same_tables_def)
  note same_tables_np [OF this, of "''np''"]
  then show ?thesis
    using AddVlanRange_retry [OF _ a] a b r
    by (auto simp: msg_vlans_def example_rows example_vlans)
qed

section \<open>Deleting a range\<close>

text \<open>C4. \<open>DelVlanRange\<close> on well-formed, separated rows. Whatever the database does, it changes only the
  rows of the netplane, keeps them well-formed, removes no VLAN outside the message and removes one at
  all only when no VLAN of the message is allocated. When it returns success, the message was valid, all
  its VLANs were in the ranges and exactly these are gone.\<close>

theorem DelVlanRange_result:
  assumes "rows_ok (m_strNetplaneUUID m) d" and "rows_apart (m_strNetplaneUUID m) d"
    and "DelVlanRange m d = (ret, d')"
  shows "rest_same (m_strNetplaneUUID m) d d' \<and> rows_ok (m_strNetplaneUUID m) d' \<and>
         np_vlans (m_strNetplaneUUID m) d' \<subseteq> np_vlans (m_strNetplaneUUID m) d \<and>
         np_vlans (m_strNetplaneUUID m) d - msg_vlans m \<subseteq> np_vlans (m_strNetplaneUUID m) d' \<and>
         (np_vlans (m_strNetplaneUUID m) d' \<noteq> np_vlans (m_strNetplaneUUID m) d \<longrightarrow> msg_free m d) \<and>
         (ret = 0 \<longrightarrow>
            msg_vlans m \<subseteq> np_vlans (m_strNetplaneUUID m) d \<and>
            np_vlans (m_strNetplaneUUID m) d' = np_vlans (m_strNetplaneUUID m) d - msg_vlans m \<and>
            rows_apart (m_strNetplaneUUID m) d' \<and> msg_free m d \<and> IsValidMsgRange m)"
  using DelVlanRange_effect [OF assms] by (simp add: range_shrinks_def range_removed_def)

theorem DelVlanRange_result_witness:
  "\<exists>d'. DelVlanRange (range_msg 2 3 3) example_db = (0, d') \<and> np_vlans ''np'' d' = {2, 4}"
proof -
  obtain r d' where a: "DelVlanRange (range_msg 2 3 3) example_db = (r, d')" by fastforce
  have "fst (DelVlanRange (range_msg 2 3 3) example_db) = 0" by code_simp
  then have "r = 0" using a by simp
  moreover have "{2..4} - {3 :: nat} = {2, 4}" by auto
  ultimately show ?thesis
    using DelVlanRange_result [OF _ _ a] a by (auto simp: example_rows example_vlans msg_vlans_def)
qed

text \<open>Deleting what was added: when a range that touches no VLAN of the netplane is added with success
  and then deleted with success, the ranges hold what they held before, and nothing else has changed.\<close>

theorem AddVlanRange_DelVlanRange:
  assumes "rows_ok (m_strNetplaneUUID m) d" and "msg_vlans m \<inter> np_vlans (m_strNetplaneUUID m) d = {}"
    and "AddVlanRange m d = (0, d1)" and "DelVlanRange m d1 = (0, d2)"
  shows "np_vlans (m_strNetplaneUUID m) d2 = np_vlans (m_strNetplaneUUID m) d \<and>
         rest_same (m_strNetplaneUUID m) d d2"
proof -
  let ?u = "m_strNetplaneUUID m"
  from AddVlanRange_effect [OF assms(1,3)] have a: "range_grows m d d1" "range_added m d d1" by simp_all
  then have "rows_ok ?u d1" "rows_apart ?u d1" by (simp_all add: range_grows_def range_added_def)
  from DelVlanRange_effect [OF this assms(4)]
  have "range_shrinks m d1 d2" "range_removed m d1 d2" by simp_all
  then show ?thesis
    using a assms(2) rest_same_trans [of ?u d d1 d2]
    by (auto simp: range_grows_def range_added_def range_shrinks_def range_removed_def)
qed

theorem AddVlanRange_DelVlanRange_witness:
  "\<exists>d1 d2. AddVlanRange (range_msg 1 6 9) example_db = (0, d1) \<and>
           DelVlanRange (range_msg 1 6 9) d1 = (0, d2) \<and> np_vlans ''np'' d2 = {2..4}"
proof -
  obtain d1 where a: "AddVlanRange (range_msg 1 6 9) example_db = (0, d1)" using example_add by blast
  obtain r d2 where b: "DelVlanRange (range_msg 1 6 9) d1 = (r, d2)" by fastforce
  have "fst (DelVlanRange (range_msg 1 6 9) (snd (AddVlanRange (range_msg 1 6 9) example_db))) = 0"
    by code_simp
  then have "r = 0" using a b by simp
  then show ?thesis
    using AddVlanRange_DelVlanRange [OF _ _ a] a b
    by (auto simp: example_rows example_vlans msg_vlans_def)
qed

section \<open>When a message must succeed\<close>

lemma query_live:
  "env d = [] \<Longrightarrow> db_query_op (\<lambda>d. Some (f d, d)) d = (VNET_DB_SUCCESS, f d, d)"
  by (simp add: db_query_op_def Handle_run)

lemma share_queries_live:
  assumes "env d = []"
  shows "VlanPool_QueryShareNetAccessVlan u d = (VNET_DB_SUCCESS, share_access u d, d)"
    and "VlanPool_QueryShareNetTrunkVlan u d = (VNET_DB_SUCCESS, share_trunk u d, d)"
    and "VlanRange_Query u d = (VNET_DB_SUCCESS, np_rows u d, d)"
proof -
  have "pf_net_query_vm_share_pg_access_list_by_netplane u = (\<lambda>d. Some (share_access u d, d))"
    "pf_net_query_vm_share_pg_trunk_list_by_netplane u = (\<lambda>d. Some (share_trunk u d, d))"
    by (auto simp: fun_eq_iff share_access_def share_trunk_def
        pf_net_query_vm_share_pg_access_list_by_netplane_def
        pf_net_query_vm_share_pg_trunk_list_by_netplane_def split: option.split)
  moreover have "pf_net_query_netplane_vlanrange u = (\<lambda>d. Some (np_rows u d, d))"
    by (auto simp: fun_eq_iff np_rows_def pf_net_query_netplane_vlanrange_def split: option.split)
  ultimately show "VlanPool_QueryShareNetAccessVlan u d = (VNET_DB_SUCCESS, share_access u d, d)"
    "VlanPool_QueryShareNetTrunkVlan u d = (VNET_DB_SUCCESS, share_trunk u d, d)"
    "VlanRange_Query u d = (VNET_DB_SUCCESS, np_rows u d, d)"
    using query_live [OF assms]
    by (simp_all add: VlanPool_QueryShareNetAccessVlan_def VlanPool_QueryShareNetTrunkVlan_def
        VlanRange_Query_def)
qed

lemma no_conflict_live:
  assumes "env d = []" and "m_bInit d" and "no_conflict m d"
  shows "IsConflictWithShareNetAccessVlan m c d = (0, c, d)"
    and "IsConflictWithShareNetTrunkVlan m t d = (0, t, d)"
proof -
  have "find (\<lambda>n. n \<ge> m_nVlanStart m \<and> n \<le> m_nVlanEnd m) (share_access (m_strNetplaneUUID m) d) = None"
    "find (\<lambda>(b, e). m_nVlanEnd m \<ge> b \<and> m_nVlanStart m \<le> e) (share_trunk (m_strNetplaneUUID m) d) = None"
    using assms(3) by (auto simp: find_None_all no_conflict_def)
  then show "IsConflictWithShareNetAccessVlan m c d = (0, c, d)"
    "IsConflictWithShareNetTrunkVlan m t d = (0, t, d)"
    using assms(1,2) share_queries_live(1,2) [OF assms(1)]
    by (simp_all add: IsConflictWithShareNetAccessVlan_def IsConflictWithShareNetTrunkVlan_def)
qed

lemma save_ranges_kept:
  assumes "rows_ok u d" and "ranges_live u d" and "distinct calc" and "\<forall>i \<in> set calc. good_item i"
    and "save_ranges u calc (np_rows u d) d = (ret, d')"
  shows "ret = 0 \<and> ranges_live u d'"
  using vlan_live.sync_live [of u d d calc "np_rows u d" ret d'] assms
  by (simp add: range_inv_def rows_ok_def save_ranges_def)

lemma save_ranges_live:
  "rows_ok u d \<Longrightarrow> ranges_live u d \<Longrightarrow> distinct calc \<Longrightarrow> \<forall>i \<in> set calc. good_item i \<Longrightarrow>
     fst (save_ranges u calc (np_rows u d) d) = 0"
  using save_ranges_kept by (metis prod.collapse)

text \<open>C27. Liveness. On a database whose calls do not fail, with the netplane of the message known and the
  ids of the range rows below their serial, every valid message without a conflict is accepted:
  \<open>AddVlanRange\<close> returns success, whether or not its range overlaps or touches the ranges there are.\<close>

theorem AddVlanRange_succeeds:
  assumes "m_bInit d" and "ranges_live (m_strNetplaneUUID m) d" and "rows_ok (m_strNetplaneUUID m) d"
    and "m_strNetplaneUUID m \<noteq> []" and "IsValidMsgRange m" and "no_conflict m d"
  shows "fst (AddVlanRange m d) = VLAN_RANGE_OPER_SUCCESS"
proof -
  let ?u = "m_strNetplaneUUID m"
  have e: "env d = []" using assms(2) by (simp add: ranges_live_def)
  note it = IsValidMsgRange_item [OF assms(5)]
  have "fst (add_range_rows m d) = VLAN_RANGE_OPER_SUCCESS"
  proof (cases "np_rows ?u d = []")
    case True
    have "fst (VlanRange_Add (range_row ?u (msg_item m)) d) = 0"
      using VlanRange_Add_live [OF assms(2) it(1)] ..
    then show ?thesis
      using True assms(1) share_queries_live(3) [OF e] it(3)
      by (auto simp: add_range_rows_def Let_def VNET_DB_SUCCESS_def split: prod.split)
  next
    case False
    then have "np_ranges ?u d \<noteq> []" by (simp add: np_ranges_def)
    from AddRange_rows [OF this rows_ok_ranges(2) [OF assms(3)] it(1)]
    obtain calc where calc: "CVlanRange_AddRange (msg_item m) (np_ranges ?u d) = (0, calc)"
      "distinct calc" "\<forall>i \<in> set calc. good_item i" by blast
    show ?thesis
      using False assms(1) share_queries_live(3) [OF e] calc(1) save_ranges_live [OF assms(3,2) calc(2,3)]
      by (simp add: add_range_rows_def Let_def load_ranges_rows flip: np_ranges_def)
        (simp add: mgr_codes)
  qed
  then show ?thesis
    using assms(4,5) no_conflict_live [OF e assms(1,6)] by (simp add: AddVlanRange_def)
qed

theorem AddVlanRange_succeeds_witness:
  "fst (AddVlanRange (range_msg 1 3 9) example_db) = VLAN_RANGE_OPER_SUCCESS"
proof -
  have "ranges_live ''np'' example_db" by code_simp
  moreover have "no_conflict (range_msg 1 3 9) example_db" by code_simp
  ultimately show ?thesis
    by (intro AddVlanRange_succeeds) (simp_all add: example_rows IsValidMsgRange_def)
qed

text \<open>Liveness of deletion: on such a database, with separated rows, a valid message whose VLANs are
  all in the ranges, are not all of them, and of which none is allocated, is carried out:
  \<open>DelVlanRange\<close> returns success.\<close>

theorem DelVlanRange_succeeds:
  assumes "m_bInit d" and "ranges_live (m_strNetplaneUUID m) d" and "rows_ok (m_strNetplaneUUID m) d"
    and "rows_apart (m_strNetplaneUUID m) d" and "m_strNetplaneUUID m \<noteq> []" and "IsValidMsgRange m"
    and "msg_vlans m \<subset> np_vlans (m_strNetplaneUUID m) d" and "msg_free m d"
  shows "fst (DelVlanRange m d) = VLAN_RANGE_OPER_SUCCESS"
proof -
  let ?u = "m_strNetplaneUUID m"
  have e: "env d = []" using assms(2) by (simp add: ranges_live_def)
  note it = IsValidMsgRange_item [OF assms(6)]
  note ok = rows_ok_ranges [OF assms(3)]
  obtain np where np: "np_lookup ?u d = Some np" using assms(2) by (auto simp: ranges_live_def)
  have "\<not> m_nVlanStart m > m_nVlanEnd m" using assms(6) by (auto simp: IsValidMsgRange_def)
  moreover have "filter (\<lambda>r. vp_netplane_id r = np \<and> vp_num r \<ge> m_nVlanStart m \<and> vp_num r \<le> m_nVlanEnd m)
      (vlan_pool d) = []"
    using assms(8) np by (auto simp: msg_free_def allocated_def filter_empty_conv)
  ultimately have q: "VlanRange_QueryAllocNum ?u (m_nVlanStart m) (m_nVlanEnd m) d = (0, 0, d)"
    using np by (simp add: VlanRange_QueryAllocNum_def Handle_run [OF e] rtn_defs
        pf_net_query_netplane_vlanrange_alloc_def)
  have sub: "vlans (np_ranges ?u d) \<subseteq> {2..4094}" using ok(2) unfolding vlans_UN good_item_iff by blast
  then have inv: "vlan_inv (np_ranges ?u d)"
    using assms(4) by (fastforce simp: vlan_inv_def rows_apart_def)
  obtain calc where k: "CVlanRange_DelRange (msg_item m) (np_ranges ?u d) = (0, calc)"
    using CVlanRange_DelRange_done [OF inv good_item_valid [OF it(1)]] assms(7) it(2)
    by (auto simp: np_vlans_def prod_eq_iff)
  have ne: "np_ranges ?u d \<noteq> []" using assms(7) by (auto simp: np_vlans_def vlans_UN)
  note dr = DelRange_rows [OF ne ok(2) assms(4) [unfolded rows_apart_def] it(1) k]
  have "calc \<noteq> []" using dr(2) assms(7) it(2) by (auto simp: np_vlans_def vlans_UN)
  moreover have "np_rows ?u d \<noteq> []" using ne by (simp add: np_ranges_def)
  ultimately show ?thesis
    using assms(1,5,6) share_queries_live(3) [OF e] q k save_ranges_live [OF assms(3,2) dr(3,4)]
    by (simp add: DelVlanRange_def Let_def load_ranges_rows rtn_defs del_save_ranges_def flip: np_ranges_def)
      (simp add: mgr_codes)
qed

theorem DelVlanRange_succeeds_witness:
  "fst (DelVlanRange (range_msg 2 3 4) example_db) = VLAN_RANGE_OPER_SUCCESS"
proof -
  have l: "ranges_live ''np'' example_db" by code_simp
  have "msg_free (range_msg 2 3 4) example_db"
    by (simp add: msg_free_def example_allocated)
  then show ?thesis
    using l by (intro DelVlanRange_succeeds)
      (auto simp: example_rows example_vlans msg_vlans_def IsValidMsgRange_def)
qed

section \<open>What a failed message leaves behind\<close>

text \<open>C28. The rows of a netplane have no unique key, and a failed message can make a later successful one
  lose VLANs. On the example netplane with VLANs 2 to 4, of which 2 is allocated: an addition of 5 to 9
  fails at its last call and leaves the rows 2-4 and 2-9; the deletion of 5 to 9 succeeds and leaves the row
  2-4 twice; the addition of 7 to 8 then returns success, and the ranges hold 7 and 8 only. The VLANs 2 to
  4 are gone, the allocated one among them.\<close>

theorem AddVlanRange_loses_ranges:
  "\<exists>d0 d1 d2 d3.
     same_tables example_db d0 \<and> np_vlans ''np'' d0 = {2..4} \<and> allocated d0 1 = {2} \<and>
     AddVlanRange (range_msg 1 5 9) d0 = (VNET_DB_ERROR_EXECUTE_FAILED, d1) \<and>
     DelVlanRange (range_msg 2 5 9) d1 = (VLAN_RANGE_OPER_SUCCESS, d2) \<and>
     AddVlanRange (range_msg 1 7 8) d2 = (VLAN_RANGE_OPER_SUCCESS, d3) \<and>
     np_vlans ''np'' d3 = {7, 8} \<and> allocated d3 1 = {2} \<and> \<not> distinct (np_ranges ''np'' d2)"
proof -
  let ?row = "\<lambda>i b e. \<lparr>vr_id = i, vr_netplane_id = 1, vr_begin = b, vr_end = e\<rparr>"
  let ?d0 = "example_db\<lparr>env := [Run, Run, Run, Run, Refused EXECUTE_FAILED]\<rparr>"
  let ?d1 = "example_db\<lparr>vlan_range := [?row 1 2 4, ?row 2 2 9], serial_vlan_range := 2\<rparr>"
  let ?d2 = "example_db\<lparr>vlan_range := [?row 1 2 4, ?row 3 2 4], serial_vlan_range := 3\<rparr>"
  let ?d3 = "example_db\<lparr>vlan_range := [?row 4 7 8], serial_vlan_range := 4\<rparr>"
  have same: "same_tables example_db ?d0" by (simp add: same_tables_def)
  have r: "AddVlanRange (range_msg 1 5 9) ?d0 = (VNET_DB_ERROR_EXECUTE_FAILED, ?d1)"
    "DelVlanRange (range_msg 2 5 9) ?d1 = (VLAN_RANGE_OPER_SUCCESS, ?d2)"
    "AddVlanRange (range_msg 1 7 8) ?d2 = (VLAN_RANGE_OPER_SUCCESS, ?d3)"
    by code_simp+
  have two: "\<not> distinct (np_ranges ''np'' ?d2)" by code_simp
  have "np_ranges ''np'' ?d3 = [\<lparr>dwVlanIDStart = 7, dwVlanIDEnd = 8\<rparr>]" by code_simp
  then have v: "np_vlans ''np'' ?d3 = {7, 8}"
    by (auto simp: np_vlans_def vlans_UN vlan_item_set_def)
  have "allocated ?d3 1 = {2}" "np_vlans ''np'' ?d0 = {2..4}" "allocated ?d0 1 = {2}"
    using same_tables_np(1) [OF same, of "''np''"] example_vlans example_allocated [of 1]
    by (simp_all add: allocated_def)
  then show ?thesis
    using same r two v by (intro exI [of _ ?d0] exI [of _ ?d1] exI [of _ ?d2] exI [of _ ?d3]) blast
qed

section \<open>Queries on the ranges\<close>

lemma GetVlanRange_effect:
  assumes "GetVlanRange u d = (ret, ranges, d')"
  shows "same_tables d d'" and "ret = 0 \<Longrightarrow> ranges = np_ranges u d"
    and "env d = [] \<Longrightarrow> m_bInit d \<Longrightarrow> u \<noteq> [] \<Longrightarrow> np_rows u d \<noteq> [] \<Longrightarrow> ret = 0"
proof -
  obtain r rows d1 where q: "VlanRange_Query u d = (r, rows, d1)" by (metis prod_cases3)
  note e = VlanRange_Query_effect [OF q]
  show "same_tables d d'" using assms q e(1) by (auto simp: GetVlanRange_def split: if_splits)
  show "ret = 0 \<Longrightarrow> ranges = np_ranges u d"
    using assms q e(2)
    by (auto simp: GetVlanRange_def load_ranges_rows np_ranges_def VNET_DB_SUCCESS_def split: if_splits)
  show "env d = [] \<Longrightarrow> m_bInit d \<Longrightarrow> u \<noteq> [] \<Longrightarrow> np_rows u d \<noteq> [] \<Longrightarrow> ret = 0"
    using assms share_queries_live(3) [of d u] by (simp add: GetVlanRange_def)
qed

text \<open>The two range queries are safe on the cautious side: they change no table and answer 0 or 1;
  \<open>IsInVlanMapRanges\<close> answers 0 only for a VLAN that no range of the netplane holds, and
  \<open>IsRangeCrossRanges\<close> only for an interval that no range meets. When the calls do not fail and the
  netplane has a range, the answers are exact.\<close>

theorem range_queries_cautious:
  assumes "IsInVlanMapRanges n u d = (b, d1)" and "IsRangeCrossRanges s e u d = (c, d2)"
  shows "same_tables d d1 \<and> same_tables d d2 \<and> b \<in> {0, 1} \<and> c \<in> {0, 1} \<and>
         (b = 0 \<longrightarrow> unat n \<notin> np_vlans u d) \<and>
         (c = 0 \<longrightarrow> s \<le> e \<and> {unat s .. unat e} \<inter> np_vlans u d = {}) \<and>
         (env d = [] \<and> m_bInit d \<and> u \<noteq> [] \<and> np_rows u d \<noteq> [] \<and> rows_ok u d \<and> s \<le> e \<longrightarrow>
            (b = 1 \<longleftrightarrow> unat n \<in> np_vlans u d) \<and>
            (c = 1 \<longleftrightarrow> {unat s .. unat e} \<inter> np_vlans u d \<noteq> {}))"
proof -
  obtain r ranges d' where g: "GetVlanRange u d = (r, ranges, d')" by (metis prod_cases3)
  note ge = GetVlanRange_effect [OF g]
  have inn: "list_ex (\<lambda>r. n \<ge> dwVlanIDStart r \<and> n \<le> dwVlanIDEnd r) (np_ranges u d) \<longleftrightarrow>
      unat n \<in> np_vlans u d"
    by (auto simp: np_vlans_def vlans_UN vlan_item_set_def list_ex_iff word_le_nat_alt)
  have ne: "dwVlanIDStart r \<le> dwVlanIDEnd r" if "rows_ok u d" "r \<in> set (np_ranges u d)" for r
    using rows_ok_ranges(2) [OF that(1)] that(2) by (auto simp: good_item_def word_le_nat_alt)
  have cross: "{unat s .. unat e} \<inter> np_vlans u d = {}"
    if "\<not> list_ex (\<lambda>r. e \<ge> dwVlanIDStart r \<and> s \<le> dwVlanIDEnd r) (np_ranges u d)"
    using that by (fastforce simp: np_vlans_def vlans_UN vlan_item_set_def list_ex_iff word_le_nat_alt)
  have meet: "{unat s .. unat e} \<inter> np_vlans u d \<noteq> {}"
    if le: "s \<le> e" and ok: "rows_ok u d"
      and ex: "list_ex (\<lambda>r. e \<ge> dwVlanIDStart r \<and> s \<le> dwVlanIDEnd r) (np_ranges u d)"
  proof -
    obtain r where r: "r \<in> set (np_ranges u d)" "e \<ge> dwVlanIDStart r" "s \<le> dwVlanIDEnd r"
      using ex by (auto simp: list_ex_iff)
    let ?k = "max (unat s) (unat (dwVlanIDStart r))"
    have k: "?k \<in> {unat s .. unat e}" "?k \<in> vlan_item_set r"
      using r ne [OF ok r(1)] le by (simp_all add: vlan_item_set_def word_le_nat_alt)
    then have "?k \<in> np_vlans u d" using r(1) by (unfold np_vlans_def vlans_UN) blast
    then show ?thesis using k(1) by blast
  qed
  have b: "same_tables d d1 \<and> b = (if r \<noteq> 0 then 1 else if unat n \<in> np_vlans u d then 1 else 0)"
    using assms(1) g ge(1,2) inn by (auto simp: IsInVlanMapRanges_def split: if_splits)
  have c: "same_tables d d2 \<and> c = (if s > e then 1 else if r \<noteq> 0 then 1 else
      if list_ex (\<lambda>r. e \<ge> dwVlanIDStart r \<and> s \<le> dwVlanIDEnd r) (np_ranges u d) then 1 else 0)"
    using assms(2) g ge(1,2) by (auto simp: IsRangeCrossRanges_def split: if_splits)
  show ?thesis
    using b c cross meet ge(3) by (auto split: if_splits)
qed

theorem range_queries_cautious_witness:
  "IsInVlanMapRanges 4 ''np'' example_db = (1, example_db) \<and>
   IsRangeCrossRanges 5 9 ''np'' example_db = (0, example_db) \<and> {5..9} \<inter> np_vlans ''np'' example_db = {}"
proof -
  have q: "IsInVlanMapRanges 4 ''np'' example_db = (1, example_db)"
    "IsRangeCrossRanges 5 9 ''np'' example_db = (0, example_db)" by code_simp+
  from range_queries_cautious [OF q] q show ?thesis by simp
qed

section \<open>The message handler\<close>

text \<open>C26. The reply tells the truth: when \<open>ProcVlanRangeMsg\<close> on a netplane with well-formed, separated
  rows sends a reply, one with the success code means that the ranges hold exactly the old VLANs and those
  of the message (an addition), or exactly the old VLANs without those of the message, of which none was
  allocated (a deletion); in both cases the rows are separated again. Without a message unit there is no
  reply, and a message with another operation changes nothing.\<close>

theorem ProcVlanRangeMsg_reply:
  assumes "rows_ok (m_strNetplaneUUID m) d" and "rows_apart (m_strNetplaneUUID m) d"
    and "ProcVlanRangeMsg pMU m d = (ret, reply, d')"
  shows "(reply = None \<longleftrightarrow> \<not> pMU) \<and> (\<not> pMU \<or> \<not> IsValidOper m \<longrightarrow> ret = - 1 \<and> d' = d) \<and>
         (reply = Some VLAN_RANGE_OPER_SUCCESS \<longrightarrow>
            (m_dwOper m = EN_ADD_VLAN_RANGE \<and>
             np_vlans (m_strNetplaneUUID m) d' = np_vlans (m_strNetplaneUUID m) d \<union> msg_vlans m \<or>
             m_dwOper m = EN_DEL_VLAN_RANGE \<and> msg_free m d \<and>
             np_vlans (m_strNetplaneUUID m) d' = np_vlans (m_strNetplaneUUID m) d - msg_vlans m) \<and>
            rows_apart (m_strNetplaneUUID m) d')"
proof -
  obtain ra da where a: "AddVlanRange m d = (ra, da)" by fastforce
  obtain rd dd where b: "DelVlanRange m d = (rd, dd)" by fastforce
  have "ra = 0 \<Longrightarrow> range_added m d da" using AddVlanRange_effect [OF assms(1) a] by simp
  moreover have "rd = 0 \<Longrightarrow> range_removed m d dd" using DelVlanRange_effect [OF assms(1,2) b] by simp
  ultimately show ?thesis
    using assms(3) a b
    by (auto simp: ProcVlanRangeMsg_def range_added_def range_removed_def mgr_codes split: if_splits)
qed

theorem ProcVlanRangeMsg_reply_witness:
  "\<exists>d'. ProcVlanRangeMsg True (range_msg 2 3 3) example_db = (0, Some 0, d') \<and>
        np_vlans ''np'' d' = {2..4} - {3}"
proof -
  obtain r reply d' where a: "ProcVlanRangeMsg True (range_msg 2 3 3) example_db = (r, reply, d')"
    by (metis prod_cases3)
  have "fst (ProcVlanRangeMsg True (range_msg 2 3 3) example_db) = 0"
    "fst (snd (ProcVlanRangeMsg True (range_msg 2 3 3) example_db)) = Some 0" by code_simp+
  then have "r = 0" "reply = Some 0" using a by simp_all
  then show ?thesis
    using ProcVlanRangeMsg_reply [OF _ _ a] a
    by (simp add: example_rows example_vlans msg_vlans_def VLAN_RANGE_OPER_SUCCESS_def
        EN_ADD_VLAN_RANGE_def EN_DEL_VLAN_RANGE_def)
qed

end
