(* ===== verification/VlanSystem.thy ===== *)
theory VlanSystem
  imports VlanRangeOps
begin

text \<open>
  The VLAN subsystem as a whole: the range messages and the network cards of virtual machines work on
  the same tables. The theory composes the pool and its manager, states the invariant of the tables and
  the step relation \<open>sys_step\<close>, and proves that every reachable database keeps the invariant: tenants
  stay isolated, and every allocated VLAN lies in a range of its netplane.
\<close>

section \<open>The port group of a card\<close>

text \<open>
  What the schema and the port group manager guarantee: a private port group (type 21) has its row in
  \<open>vm_pg\<close>, and its netplane exists.
\<close>

definition pgs_ok :: "vdb \<Rightarrow> bool" where
  "pgs_ok d \<longleftrightarrow>
     (\<forall>g \<in> set (port_group d). pg_type g = 21 \<longrightarrow>
        is_vm_pg (pg_id g) d \<and>
        pred_option (\<lambda>np. np \<in> np_id ` set (netplane d)) (pg_netplane_id g))"

lemma pg_view_same_rows: "same_rows d e \<Longrightarrow> pg_view u e = pg_view u d"
  by (cases "find (\<lambda>g. pg_uuid g = u) (port_group d)")
    (simp_all add: pg_view_def pf_net_query_portgroup_def Let_def same_rows_sel same_rows_lookups
      cong: option.case_cong)

text \<open>The netplane that the query finds is the one that the map procedures look up.\<close>

lemma pg_view_netplane:
  assumes "ids_ok d" and "pgs_ok d" and "pg_view u d = (0, g)" and "PgType g = 21"
    and "IsCfgNetplane g \<noteq> 0" and "PgNetplaneUuid g \<noteq> []"
  shows "\<exists>np. np_lookup (PgNetplaneUuid g) d = Some np \<and> pg_netplane_lookup u d = Some np"
proof -
  obtain r where r: "find (\<lambda>g. pg_uuid g = u) (port_group d) = Some r"
    using assms(3) by (auto simp: pg_view_def pf_net_query_portgroup_def RTN_ITEM_NO_EXIST_def split: option.splits)
  have rs: "r \<in> set (port_group d)" "pg_uuid r = u" using find_SomeD [OF r] by simp_all
  obtain np x where np: "pg_type r = 21" "pg_netplane_id r = Some np"
    "find (\<lambda>x. np_id x = np) (netplane d) = Some x" "PgNetplaneUuid g = np_uuid x"
    using assms(3-6) r
    by (auto simp: pg_view_def pf_net_query_portgroup_def Let_def split: option.splits if_splits)
  have x: "x \<in> set (netplane d)" "np_id x = np" using find_SomeD [OF np(3)] by simp_all
  have "np_lookup (PgNetplaneUuid g) d = Some np"
    using x np(4) by (auto simp: np_lookup_iff [OF assms(1)])
  moreover have "pg_netplane_lookup u d = Some np"
  proof -
    let ?P = "\<lambda>g. pg_uuid g = u \<and> is_vm_pg (pg_id g) d \<and>
      (case pg_netplane_id g of None \<Rightarrow> False | Some np \<Rightarrow> list_ex (\<lambda>r. np_id r = np) (netplane d))"
    have "?P r" using rs np(1,2) x assms(2) by (auto simp: pgs_ok_def list_ex_iff)
    then obtain q where q: "find ?P (port_group d) = Some q"
      using find_None_all [of ?P "port_group d"] rs(1) by (cases "find ?P (port_group d)") auto
    from find_SomeD [OF this] have "q \<in> set (port_group d)" "pg_uuid q = u" by simp_all
    then have "q = r" using rs assms(1) by (auto simp: ids_ok_def distinct_map inj_on_def)
    then show ?thesis using q np(2) by (simp add: pg_netplane_lookup_def)
  qed
  ultimately show ?thesis by blast
qed

text \<open>
  A card that has to have a VLAN: its port group is private, in access mode, with VLAN isolation, not
  of an SDN network, with isolation number \<open>ino\<close> on netplane \<open>np\<close>.
\<close>

definition vlan_card :: "string \<Rightarrow> int \<Rightarrow> int \<Rightarrow> vdb \<Rightarrow> bool" where
  "vlan_card pg ino np d \<longleftrightarrow>
     (\<exists>g. pg_view pg d = (0, g) \<and> SwithportMode g = 1 \<and> PgType g = 21 \<and> IsolateType g = 0 \<and>
          AccessIsolateNo g = ino \<and> IsSdn g \<noteq> 1 \<and> np_lookup (PgNetplaneUuid g) d = Some np)"

lemma GetVlanRange_named: "GetVlanRange u d = (0, ranges, d') \<Longrightarrow> u \<noteq> []"
  by (auto simp: GetVlanRange_def)

section \<open>Steps of the pool\<close>

text \<open>The VLANs that the rows of a netplane hold, by its id.\<close>

definition range_nums :: "vdb \<Rightarrow> int \<Rightarrow> int set" where
  "range_nums d np = {n. \<exists>r \<in> set (vlan_range d). vr_netplane_id r = np \<and> vr_begin r \<le> n \<and> n \<le> vr_end r}"

text \<open>What every allocation and release keeps, whatever its calls do.\<close>

definition pool_step :: "vdb \<Rightarrow> vdb \<Rightarrow> bool" where
  "pool_step d d' \<longleftrightarrow>
     keys_ok d' \<and> isolated d' \<and> rest_kept d d' \<and>
     (\<forall>q. allocated d' q \<subseteq> allocated d q \<union> range_nums d q)"

definition pool_inv :: "vdb \<Rightarrow> bool" where
  "pool_inv d \<longleftrightarrow> keys_ok d \<and> isolated d \<and> pgs_ok d"

lemma pgs_ok_kept: "rest_kept d d' \<Longrightarrow> pgs_ok d' = pgs_ok d"
  by (simp add: pgs_ok_def rest_kept_def is_vm_pg_def)

lemma pool_step_inv: "pool_inv d \<Longrightarrow> pool_step d d' \<Longrightarrow> pool_inv d'"
  using pgs_ok_kept [of d d'] by (simp add: pool_inv_def pool_step_def)

lemma pool_step_read: "pool_inv d \<Longrightarrow> same_tables d d' \<Longrightarrow> pool_step d d'"
  using same_tables_rows [of d d']
  by (auto simp: pool_inv_def pool_step_def keys_ok_same_rows isolated_same_rows rest_kept_same_rows
      allocated_same_rows)

lemma pool_step_trans: "pool_step a b \<Longrightarrow> pool_step b c \<Longrightarrow> pool_step a c"
  using rest_kept_trans [of a b c]
  by (fastforce simp: pool_step_def range_nums_def rest_kept_def)

lemma pool_inv_read:
  assumes "pool_inv d" and "same_tables d d'"
  shows "pool_inv d'" "np_lookup u d' = np_lookup u d" "pg_netplane_lookup pg d' = pg_netplane_lookup pg d"
    "pg_view pg d' = pg_view pg d" "np_ranges u d' = np_ranges u d"
  using pool_step_inv [OF assms(1) pool_step_read [OF assms]] same_rows_lookups [OF same_tables_rows [OF assms(2)]]
    pg_view_same_rows [OF same_tables_rows [OF assms(2)]] by (simp_all add: np_ranges_def)

lemma Alloc_pool_step:
  assumes "pool_inv d" and "np_lookup u d = Some np" and "pg_netplane_lookup pg d = Some np"
    and "m_strNetplaneID p = u" and "CVlanPool_AllocVlanID u proj pg ino old p d = (ret, v, p', d')"
  shows "pool_step d d'"
proof -
  have iso: "isolated d" and pre: "pool_pre pg np d"
    using assms(1,3) by (simp_all add: pool_inv_def pool_pre_def)
  have safe: "alloc_safe proj pg ino np (int32_of v) d d'"
    using AllocVlanID_effect [OF pre iso assms(2,4,5)] ..
  note k = alloc_safe_kept [OF iso safe]
  have "allocated d' q \<subseteq> allocated d q \<union> range_nums d q" for q
    using safe by (auto simp: alloc_safe_def alloc_done_def vlan_taken_def range_nums_def split: if_splits)
  then show ?thesis using k by (simp add: pool_step_def)
qed

lemma Free_pool_step:
  assumes "pool_inv d" and "np_lookup (m_strNetplaneID p) d = Some np"
    and "pg_netplane_lookup pg d = Some np" and "CVlanPool_FreeVlanID proj pg ino old p d = (ret, v, d')"
  shows "pool_step d d'"
proof -
  have iso: "isolated d" and pre: "pool_pre pg np d"
    using assms(1,3) by (simp_all add: pool_inv_def pool_pre_def)
  have "free_safe proj pg np (int32_of v) d d'" using FreeVlanID_effect [OF pre iso assms(2,4)] ..
  from free_safe_kept [OF iso this] show ?thesis by (auto simp: pool_step_def)
qed

lemma Init_effect:
  assumes "CVlanPool_Init (Some ranges) u p d = (r, p', d')"
  shows "same_tables d d'" and "r = 0 \<Longrightarrow> m_strNetplaneID p' = u \<and> m_pVlanRange p' = Some ranges"
proof -
  obtain r1 ns d1 where q: "VlanPool_Query u d = (r1, ns, d1)" by (metis prod_cases3)
  note e = VlanPool_Query_effect(1) [OF q]
  show "same_tables d d'" "r = 0 \<Longrightarrow> m_strNetplaneID p' = u \<and> m_pVlanRange p' = Some ranges"
    using assms q e by (auto simp: CVlanPool_Init_def Let_def split: if_splits)
qed

text \<open>One card: the queries find the netplane that the pool needs.\<close>

lemma alloc_for_card_step:
  assumes "pool_inv d" and "alloc_for_card proj pg d = (ret, d')"
  shows "pool_step d d'"
proof -
  obtain r1 ino d1 where q1: "IsNeedVlanMap pg 0 d = (r1, ino, d1)" by (metis prod_cases3)
  obtain sdn d2 where q2: "IsPortGroupSdn pg d1 = (sdn, d2)" by fastforce
  obtain r3 u d3 where q3: "GetPGNetplane pg [] d2 = (r3, u, d3)" by (metis prod_cases3)
  obtain r4 ranges d4 where q4: "GetVlanRange u d3 = (r4, ranges, d4)" by (metis prod_cases3)
  obtain r5 p d5 where q5: "CVlanPool_Init (Some ranges) u CVlanPool_new d4 = (r5, p, d5)"
    by (metis prod_cases3)
  obtain r6 v p' d6 where q6: "CVlanPool_AllocVlanID u proj pg ino 0 p d5 = (r6, v, p', d6)"
    by (metis prod_cases4)
  note e1 = IsNeedVlanMap_effect [OF q1]
  note e2 = IsPortGroupSdn_effect [OF q2]
  note e3 = GetPGNetplane_effect [OF q3]
  note e4 = GetVlanRange_effect [OF q4]
  note e5 = Init_effect [OF q5]
  have s: "same_tables d d1" "same_tables d d2" "same_tables d d3" "same_tables d d4" "same_tables d d5"
    using e1(1) e2 e3(1) e4(1) e5(1) same_tables_trans by blast+
  consider (stop) "d' \<in> {d1, d2, d3, d4, d5}"
    | (go) "r1 = PORTGROUP_OPER_SUCCESS" "r3 = PORTGROUP_OPER_SUCCESS" "r4 = 0" "r5 = 0" "d' = d6"
    using assms(2) q1 q2 q3 q4 q5 q6 by (auto simp: alloc_for_card_def split: if_splits)
  then show ?thesis
  proof cases
    case stop
    then show ?thesis using pool_step_read [OF assms(1)] s by blast
  next
    case go
    note i5 = pool_inv_read [OF assms(1) s(5)]
    note i2 = pool_inv_read [OF assms(1) s(2)]
    obtain g where g: "pg_view pg d = (0, g)" "PgType g = 21" using e1(2) go(1) by blast
    have u: "u = (if IsCfgNetplane g \<noteq> 0 then PgNetplaneUuid g else [])"
      using e3(2) [OF go(2)] g i2(4) by auto
    have "u \<noteq> []" using GetVlanRange_named q4 go(3) by simp
    then obtain np where np: "np_lookup u d = Some np" "pg_netplane_lookup pg d = Some np"
      using pg_view_netplane [OF _ _ g] assms(1) u
      by (auto simp: pool_inv_def keys_ok_def split: if_splits)
    have "pool_step d5 d6"
      using Alloc_pool_step [OF i5(1) _ _ _ q6] np i5(2,3) e5(2) [OF go(4)] by simp
    then show ?thesis
      using pool_step_trans [OF pool_step_read [OF assms(1) s(5)]] go(5) by simp
  qed
qed

lemma free_for_card_step:
  assumes "pool_inv d" and "free_for_card proj pg d = (ret, d')"
  shows "pool_step d d'"
proof -
  obtain r1 ino d1 where q1: "IsNeedVlanMap pg 0 d = (r1, ino, d1)" by (metis prod_cases3)
  obtain r2 u d2 where q2: "GetPGNetplane pg [] d1 = (r2, u, d2)" by (metis prod_cases3)
  obtain r3 ranges d3 where q3: "GetVlanRange u d2 = (r3, ranges, d3)" by (metis prod_cases3)
  obtain r4 p where q4: "CVlanPool_Init_free u CVlanPool_new = (r4, p)" by fastforce
  obtain r5 v d5 where q5: "CVlanPool_FreeVlanID proj pg ino 0 p d3 = (r5, v, d5)" by (metis prod_cases3)
  note e1 = IsNeedVlanMap_effect [OF q1]
  note e2 = GetPGNetplane_effect [OF q2]
  note e3 = GetVlanRange_effect [OF q3]
  have s: "same_tables d d1" "same_tables d d2" "same_tables d d3"
    using e1(1) e2(1) e3(1) same_tables_trans by blast+
  consider (stop) "d' \<in> {d1, d2, d3}"
    | (go) "r1 = PORTGROUP_OPER_SUCCESS" "r2 = PORTGROUP_OPER_SUCCESS" "r3 = 0" "r4 = 0" "d' = d5"
    using assms(2) q1 q2 q3 q4 q5 by (auto simp: free_for_card_def split: if_splits)
  then show ?thesis
  proof cases
    case stop
    then show ?thesis using pool_step_read [OF assms(1)] s by blast
  next
    case go
    note i3 = pool_inv_read [OF assms(1) s(3)]
    note i1 = pool_inv_read [OF assms(1) s(1)]
    obtain g where g: "pg_view pg d = (0, g)" "PgType g = 21" using e1(2) go(1) by blast
    have u: "u = (if IsCfgNetplane g \<noteq> 0 then PgNetplaneUuid g else [])"
      using e2(2) [OF go(2)] g i1(4) by auto
    have "u \<noteq> []" using GetVlanRange_named q3 go(3) by simp
    then obtain np where np: "np_lookup u d = Some np" "pg_netplane_lookup pg d = Some np"
      using pg_view_netplane [OF _ _ g] assms(1) u
      by (auto simp: pool_inv_def keys_ok_def split: if_splits)
    have "m_strNetplaneID p = u" using q4 go(4) by (auto simp: CVlanPool_Init_free_def split: if_splits)
    then have "pool_step d3 d5" using Free_pool_step [OF i3(1) _ _ q5] np i3(2,3) by simp
    then show ?thesis
      using pool_step_trans [OF pool_step_read [OF assms(1) s(3)]] go(5) by simp
  qed
qed

lemma alloc_cards_step: "pool_inv d \<Longrightarrow> alloc_cards proj pgs d = (ret, d') \<Longrightarrow> pool_step d d'"
proof (induction proj pgs d rule: alloc_cards.induct)
  case (1 proj d)
  then show ?case using pool_step_read [of d d] by simp
next
  case (2 proj pg pgs d)
  obtain r1 d1 where a: "alloc_for_card proj pg d = (r1, d1)" by fastforce
  have s: "pool_step d d1" by (rule alloc_for_card_step [OF 2(2) a])
  show ?case
  proof (cases "r1 = 0")
    case True
    have "pool_step d1 d'"
      using 2(1) [OF a [symmetric] _ pool_step_inv [OF 2(2) s]] 2(3) a True by simp
    then show ?thesis by (rule pool_step_trans [OF s])
  next
    case False
    then show ?thesis using 2(3) a s by simp
  qed
qed

lemma free_cards_step: "pool_inv d \<Longrightarrow> free_cards proj pgs d = (ret, d') \<Longrightarrow> pool_step d d'"
proof (induction proj pgs d rule: free_cards.induct)
  case (1 proj d)
  then show ?case using pool_step_read [of d d] by simp
next
  case (2 proj pg pgs d)
  obtain r1 d1 where a: "free_for_card proj pg d = (r1, d1)" by fastforce
  have s: "pool_step d d1" by (rule free_for_card_step [OF 2(2) a])
  show ?case
  proof (cases "r1 = 0")
    case True
    have "pool_step d1 d'"
      using 2(1) [OF a [symmetric] _ pool_step_inv [OF 2(2) s]] 2(3) a True by simp
    then show ?thesis by (rule pool_step_trans [OF s])
  next
    case False
    then show ?thesis using 2(3) a s by simp
  qed
qed

section \<open>The invariant of the tables\<close>

definition serial_ok :: "vdb \<Rightarrow> bool" where
  "serial_ok d \<longleftrightarrow> (\<forall>r \<in> set (vlan_range d). vr_id r \<le> serial_vlan_range d)"

definition sys_inv :: "vdb \<Rightarrow> bool" where
  "sys_inv d \<longleftrightarrow>
     env d = [] \<and> pool_inv d \<and> serial_ok d \<and> (\<forall>q. allocated d q \<subseteq> range_nums d q) \<and>
     (\<forall>u. rows_ok u d \<and> rows_apart u d)"

lemma ranges_live_iff: "ranges_live u d \<longleftrightarrow> env d = [] \<and> np_lookup u d \<noteq> None \<and> serial_ok d"
  by (simp add: ranges_live_def serial_ok_def)

lemma range_nums_np:
  assumes "rows_ok u d" and "np_lookup u d = Some np"
  shows "range_nums d np = int ` np_vlans u d"
proof -
  have g: "2 \<le> vr_begin r" "vr_begin r \<le> vr_end r" if "r \<in> set (vlan_range d)" "vr_netplane_id r = np" for r
    using assms that by (force simp: rows_ok_def good_row_def np_rows_def)+
  have "n \<in> range_nums d np \<longleftrightarrow> 0 \<le> n \<and> nat n \<in> np_vlans u d" for n
    using assms(2) g by (fastforce simp: range_nums_def np_vlans_rows [OF assms(1)] np_rows_def)
  then show ?thesis by (force simp: image_iff)
qed

lemma sys_inv_covered: "sys_inv d \<Longrightarrow> np_lookup u d = Some np \<Longrightarrow> allocated d np \<subseteq> int ` np_vlans u d"
  using range_nums_np [of u d np] by (metis sys_inv_def)

text \<open>A change of the ranges of one netplane that keeps the VLANs in use covered.\<close>

lemma rest_same_inv:
  assumes "rest_same u d d'"
  shows "pool_inv d' = pool_inv d" "allocated d' q = allocated d q"
proof -
  let ?f = "\<lambda>d. d\<lparr>vlan_range := [], serial_vlan_range := 0, env := []\<rparr>"
  have e: "?f d = ?f d'" using assms by (simp add: rest_same_def)
  have f: "pool_inv (?f d) = pool_inv d" "allocated (?f d) = allocated d" for d
    by (simp_all add: fun_eq_iff allocated_def pool_inv_def keys_ok_def ids_ok_def pool_ok_def map_ok_def
        map_row_ok_def is_vm_pg_def pgs_ok_def isolated_def users_def)
  show "pool_inv d' = pool_inv d" "allocated d' q = allocated d q"
    using f(1) [of d] f(1) [of d'] f(2) [of d] f(2) [of d'] e by simp_all
qed

lemma rest_same_ranges:
  assumes "rest_same u d d'" and "np_lookup u d \<noteq> Some q"
  shows "filter (\<lambda>r. vr_netplane_id r = q) (vlan_range d') = filter (\<lambda>r. vr_netplane_id r = q) (vlan_range d)"
proof -
  have *: "filter (\<lambda>r. vr_netplane_id r = q) xs =
      filter (\<lambda>r. vr_netplane_id r = q) (filter (\<lambda>r. Some (vr_netplane_id r) \<noteq> np_lookup u d) xs)" for xs
    using assms(2) by (induction xs) auto
  have "filter (\<lambda>r. Some (vr_netplane_id r) \<noteq> np_lookup u d) (vlan_range d') =
      filter (\<lambda>r. Some (vr_netplane_id r) \<noteq> np_lookup u d) (vlan_range d)"
    using assms(1) by (simp add: rest_same_def)
  then show ?thesis using * [of "vlan_range d"] * [of "vlan_range d'"] by metis
qed

lemma np_lookup_inject:
  "ids_ok d \<Longrightarrow> np_lookup u d = Some np \<Longrightarrow> np_lookup v d = Some np \<Longrightarrow> u = v"
  by (auto simp: np_lookup_iff ids_ok_def distinct_map inj_on_def)

lemma sys_inv_range_change:
  assumes "sys_inv d" and "rest_same u d d'" and "rows_ok u d'" and "rows_apart u d'" and "serial_ok d'"
    and "env d' = []" and "\<And>np. np_lookup u d = Some np \<Longrightarrow> allocated d np \<subseteq> int ` np_vlans u d'"
  shows "sys_inv d'"
proof -
  have pool: "pool_inv d'" and al: "allocated d' q = allocated d q" for q
    using rest_same_inv [OF assms(2)] assms(1) by (simp_all add: sys_inv_def)
  have ids: "ids_ok d" using assms(1) by (simp add: sys_inv_def pool_inv_def keys_ok_def)
  note l = rest_same_tables(5) [OF assms(2)]
  have cov: "allocated d' q \<subseteq> range_nums d' q" for q
  proof (cases "np_lookup u d = Some q")
    case True
    then show ?thesis using assms(7) range_nums_np [OF assms(3)] l al by simp
  next
    case False
    have "set (filter (\<lambda>r. vr_netplane_id r = q) (vlan_range d')) =
          set (filter (\<lambda>r. vr_netplane_id r = q) (vlan_range d))"
      using rest_same_ranges [OF assms(2) False] by simp
    then have "range_nums d' q = range_nums d q" by (auto simp: range_nums_def set_eq_iff)
    then show ?thesis using assms(1) al by (simp add: sys_inv_def)
  qed
  have "rows_ok v d' \<and> rows_apart v d'" for v
  proof (cases "v = u")
    case False
    have "np_rows v d' = np_rows v d"
    proof (cases "np_lookup v d")
      case (Some q)
      then have "np_lookup u d \<noteq> Some q" using np_lookup_inject [OF ids] False by blast
      then show ?thesis using rest_same_ranges [OF assms(2)] Some l by (simp add: np_rows_def)
    qed (simp add: np_rows_def l)
    then show ?thesis using assms(1) by (simp add: sys_inv_def rows_ok_def rows_apart_def np_ranges_def)
  qed (use assms(3,4) in simp)
  then show ?thesis using pool cov assms(5,6) by (simp add: sys_inv_def)
qed

section \<open>Range messages without failing calls\<close>

lemma conflict_live:
  assumes "env d = []"
  shows "snd (snd (IsConflictWithShareNetAccessVlan m c d)) = d"
    and "snd (snd (IsConflictWithShareNetTrunkVlan m t d)) = d"
  using share_queries_live(1,2) [OF assms, of "m_strNetplaneUUID m"]
  by (simp_all add: IsConflictWithShareNetAccessVlan_def IsConflictWithShareNetTrunkVlan_def
      split: option.split)

lemma rows_live: "np_rows u d \<noteq> [] \<Longrightarrow> env d = [] \<Longrightarrow> serial_ok d \<Longrightarrow> ranges_live u d"
  by (cases "np_lookup u d") (simp_all add: ranges_live_iff np_rows_def)

lemma VlanRange_Add_no_netplane:
  assumes "env d = []" and "np_lookup u d = None"
  shows "VlanRange_Add (range_row u i) d = (GET_DB_ERROR_PROC RTN_ITEM_NO_EXIST, d)"
proof -
  have "pf_net_add_netplane_vlanrange u b e d = Some (RTN_ITEM_NO_EXIST, d)" for b e
    using assms(2) by (simp add: pf_net_add_netplane_vlanrange_def
        pf_net_check_add_netplane_vlanrange_def RTN_ITEM_NO_EXIST_def)
  moreover have "Uuid (range_row u i) = u" by (simp add: range_row_def)
  ultimately show ?thesis
    using assms(1) by (simp add: VlanRange_Add_def db_add_op_def Handle_run rtn_defs)
qed

lemma AddVlanRange_live:
  assumes "env d = []" and "serial_ok d" and "rows_ok (m_strNetplaneUUID m) d"
    and "AddVlanRange m d = (ret, d')"
  shows "d' = d \<or> ret = 0 \<and> serial_ok d' \<and> env d' = []"
proof -
  let ?u = "m_strNetplaneUUID m"
  obtain c x d1 where q1: "IsConflictWithShareNetAccessVlan m 0 d = (c, x, d1)" by (metis prod_cases3)
  then have d1: "d1 = d" using conflict_live(1) [OF assms(1), of m 0] by simp
  obtain t y d2 where q2: "IsConflictWithShareNetTrunkVlan m (0, 0) d = (t, y, d2)" by (metis prod_cases3)
  then have d2: "d2 = d" using conflict_live(2) [OF assms(1), of m "(0, 0)"] by simp
  note q3 = share_queries_live(3) [OF assms(1), of ?u]
  consider (stop) "d' = d" | (go) "IsValidMsgRange m" "m_bInit d" "add_range_rows m d = (ret, d')"
    using assms(4) q1 q2 d1 d2 by (auto simp: AddVlanRange_def add_range_rows_def Let_def split: if_splits)
  then show ?thesis
  proof cases
    case go
    note it = IsValidMsgRange_item [OF go(1)]
    show ?thesis
    proof (cases "np_rows ?u d = []")
      case True
      obtain r d3 where a: "VlanRange_Add (range_row ?u (msg_item m)) d = (r, d3)" by fastforce
      have out: "d' = d3" "ret = (if r \<noteq> 0 then r else 0)"
        using go(2,3) q3 True a by (auto simp: add_range_rows_def Let_def it(3) mgr_codes split: if_splits)
      show ?thesis
      proof (cases "np_lookup ?u d = None")
        case True
        then show ?thesis using VlanRange_Add_no_netplane [OF assms(1) True] a out by simp
      next
        case False
        then have "ranges_live ?u d" using assms(1,2) by (simp add: ranges_live_iff)
        from VlanRange_Add_live [OF this it(1)] show ?thesis using a out by (simp add: ranges_live_iff)
      qed
    next
      case False
      have ne: "np_ranges ?u d \<noteq> []" using False by (simp add: np_ranges_def)
      from AddRange_rows [OF ne rows_ok_ranges(2) [OF assms(3)] it(1)]
      obtain calc where calc: "CVlanRange_AddRange (msg_item m) (np_ranges ?u d) = (0, calc)"
        "distinct calc" "\<forall>i \<in> set calc. good_item i" by blast
      have "save_ranges ?u calc (np_rows ?u d) d = (ret, d')"
        using go(2,3) q3 False calc(1)
        by (simp add: add_range_rows_def Let_def load_ranges_rows flip: np_ranges_def)
      from save_ranges_kept [OF assms(3) rows_live [OF False assms(1,2)] calc(2,3) this]
      show ?thesis by (simp add: ranges_live_iff)
    qed
  qed simp
qed

lemma GetIsolateNo_live: "env d = [] \<Longrightarrow> snd (snd (GetIsolateNo m d)) = d"
  by (simp add: GetIsolateNo_def VlanPool_QueryPrivateNetIsolateNo_def db_query_op_def Handle_run
      pf_net_query_vm_private_pg_isolate_no_list_by_netplane_def split: option.split)

lemma QueryAllocNum_live: "env d = [] \<Longrightarrow> snd (snd (VlanRange_QueryAllocNum u b e d)) = d"
  by (simp add: VlanRange_QueryAllocNum_def Handle_run pf_net_query_netplane_vlanrange_alloc_def
      split: option.split)

lemma DelVlanRange_live:
  assumes "env d = []" and "serial_ok d" and "rows_ok (m_strNetplaneUUID m) d"
    and "rows_apart (m_strNetplaneUUID m) d" and "DelVlanRange m d = (ret, d')"
  shows "d' = d \<or> ret = 0 \<and> serial_ok d' \<and> env d' = []"
proof -
  let ?u = "m_strNetplaneUUID m"
  note q1 = share_queries_live(3) [OF assms(1), of ?u]
  obtain r2 n d2 where q2: "VlanRange_QueryAllocNum ?u (m_nVlanStart m) (m_nVlanEnd m) d = (r2, n, d2)"
    by (metis prod_cases3)
  then have d2: "d2 = d" using QueryAllocNum_live [OF assms(1)] by (metis snd_conv)
  obtain r3 calc where k: "CVlanRange_DelRange (msg_item m) (np_ranges ?u d) = (r3, calc)" by fastforce
  obtain r4 ns d4 where q4: "GetIsolateNo m d = (r4, ns, d4)" by (metis prod_cases3)
  then have d4: "d4 = d" using GetIsolateNo_live [OF assms(1)] by (metis snd_conv)
  consider (stop) "d' = d" | (go) "IsValidMsgRange m" "np_rows ?u d \<noteq> []" "r3 = 0"
      "save_ranges ?u calc (np_rows ?u d) d = (ret, d')"
    using assms(5) q1 q2 d2 k q4 d4
    by (auto simp: DelVlanRange_def Let_def del_save_ranges_def load_ranges_rows VNET_DB_SUCCESS_def
        simp flip: np_ranges_def split: if_splits)
  then show ?thesis
  proof cases
    case go
    note it = IsValidMsgRange_item [OF go(1)]
    have ne: "np_ranges ?u d \<noteq> []" using go(2) by (simp add: np_ranges_def)
    note dr = DelRange_rows [OF ne rows_ok_ranges(2) [OF assms(3)] assms(4) [unfolded rows_apart_def]
        it(1) k [unfolded go(3)]]
    from save_ranges_kept [OF assms(3) rows_live [OF go(2) assms(1,2)] dr(3,4) go(4)]
    show ?thesis by (simp add: ranges_live_iff)
  qed simp
qed

lemma ProcVlanRangeMsg_sys_inv:
  assumes "sys_inv d" and "ProcVlanRangeMsg pMU m d = (ret, reply, d')"
  shows "sys_inv d'"
proof -
  let ?u = "m_strNetplaneUUID m"
  have live: "env d = []" "serial_ok d" "rows_ok ?u d" "rows_apart ?u d" "m_bInit d \<or> True"
    using assms(1) by (simp_all add: sys_inv_def)
  have cov: "allocated d np \<subseteq> int ` np_vlans ?u d" if "np_lookup ?u d = Some np" for np
    using sys_inv_covered [OF assms(1) that] .
  have add: "sys_inv d1" if a: "AddVlanRange m d = (r, d1)" for r d1
  proof (cases "d1 = d")
    case False
    with AddVlanRange_live [OF live(1-3) a] have l: "r = 0" "serial_ok d1" "env d1 = []" by simp_all
    from AddVlanRange_effect [OF live(3) a] l(1) have e: "range_grows m d d1" "range_added m d d1" by simp_all
    show ?thesis
      using e l cov by (intro sys_inv_range_change [OF assms(1)]) (auto simp: range_grows_def range_added_def image_Un)
  qed (simp add: assms(1))
  have del: "sys_inv d1" if a: "DelVlanRange m d = (r, d1)" for r d1
  proof (cases "d1 = d")
    case False
    with DelVlanRange_live [OF live(1-4) a] have l: "r = 0" "serial_ok d1" "env d1 = []" by simp_all
    from DelVlanRange_effect [OF live(3,4) a] l(1)
    have e: "range_shrinks m d d1" "range_removed m d d1" "IsValidMsgRange m" by simp_all
    have "allocated d np \<subseteq> int ` np_vlans ?u d1" if np: "np_lookup ?u d = Some np" for np
    proof
      fix n assume n: "n \<in> allocated d np"
      obtain k where k: "n = int k" "k \<in> np_vlans ?u d" using cov [OF np] n by blast
      have "\<not> (m_nVlanStart m \<le> n \<and> n \<le> m_nVlanEnd m)"
        using e(2) np n by (auto simp: range_removed_def msg_free_def)
      then have "k \<notin> msg_vlans m" using k(1) e(3) by (auto simp: msg_vlans_def IsValidMsgRange_def)
      then show "n \<in> int ` np_vlans ?u d1" using k e(2) by (auto simp: range_removed_def)
    qed
    then show ?thesis
      using e l by (intro sys_inv_range_change [OF assms(1)]) (auto simp: range_shrinks_def range_removed_def)
  qed (simp add: assms(1))
  show ?thesis
    using assms add del by (auto simp: ProcVlanRangeMsg_def split: if_splits prod.splits)
qed

lemma sys_inv_pool_step:
  assumes "sys_inv d" and "pool_step (d\<lparr>env := e\<rparr>) d'"
  shows "sys_inv (d'\<lparr>env := []\<rparr>)"
proof -
  have p: "pool_step d d'"
  proof -
    have "pool_inv d" using assms(1) by (simp add: sys_inv_def)
    from pool_step_read [OF this, of "d\<lparr>env := e\<rparr>"] have "pool_step d (d\<lparr>env := e\<rparr>)"
      by (simp add: same_tables_def)
    then show ?thesis by (rule pool_step_trans [OF _ assms(2)])
  qed
  have s: "same_tables d' (d'\<lparr>env := []\<rparr>)" by (simp add: same_tables_def)
  have i: "pool_inv d'" using assms(1) p by (auto simp: sys_inv_def intro: pool_step_inv)
  have k: "rest_kept d d'" using p by (simp add: pool_step_def)
  have rng: "range_nums d' q = range_nums d q" for q using k by (simp add: range_nums_def rest_kept_def)
  have "allocated d' q \<subseteq> range_nums d' q" for q
    using p assms(1) rng by (fastforce simp: pool_step_def sys_inv_def)
  moreover have "serial_ok d'" using assms(1) k by (fastforce simp: sys_inv_def serial_ok_def rest_kept_def)
  moreover have "rows_ok u d' \<and> rows_apart u d'" for u
    using assms(1) rest_kept_lookups(4) [OF k] by (simp add: sys_inv_def rows_ok_def rows_apart_def np_ranges_def)
  ultimately show ?thesis
    using pool_inv_read(1) [OF i s] same_tables_np [OF s] allocated_same_rows [OF same_tables_rows [OF s]]
    by (simp add: sys_inv_def serial_ok_def range_nums_def)
qed

section \<open>Reachable databases\<close>

text \<open>
  The steps of the system. Range messages run on a database whose calls do not fail (a failing one is
  the subject of \<open>AddVlanRange_loses_ranges\<close>). The calls of an allocation or a release may fail in any
  way: \<open>faults\<close> holds their outcomes.
\<close>

inductive sys_step :: "vdb \<Rightarrow> vdb \<Rightarrow> bool" where
  Message: "ProcVlanRangeMsg pMU m d = (ret, reply, d') \<Longrightarrow> sys_step d d'"
| Alloc: "AllocVlanForVnic x (d\<lparr>env := faults\<rparr>) = (ret, d') \<Longrightarrow> sys_step d (d'\<lparr>env := []\<rparr>)"
| Free: "FreeVlanForVnic x (d\<lparr>env := faults\<rparr>) = (ret, d') \<Longrightarrow> sys_step d (d'\<lparr>env := []\<rparr>)"

inductive_cases sys_stepE [elim]: "sys_step d d'"

inductive reachable :: "vdb \<Rightarrow> vdb \<Rightarrow> bool" for d0 where
  start [intro]: "reachable d0 d0"
| step [intro]: "reachable d0 d \<Longrightarrow> sys_step d d' \<Longrightarrow> reachable d0 d'"

lemma sys_step_inv: "sys_step d d' \<Longrightarrow> sys_inv d \<Longrightarrow> sys_inv d'"
proof (induction rule: sys_step.induct)
  case (Message pMU m d ret reply d')
  then show ?case using ProcVlanRangeMsg_sys_inv by blast
next
  case (Alloc x faults d ret d')
  have "pool_inv (d\<lparr>env := faults\<rparr>)"
    using Alloc.prems pool_inv_read(1) [of d "d\<lparr>env := faults\<rparr>"] by (simp add: sys_inv_def same_tables_def)
  from alloc_cards_step [OF this Alloc.hyps [unfolded AllocVlanForVnic_def]]
  show ?case by (rule sys_inv_pool_step [OF Alloc.prems])
next
  case (Free x faults d ret d')
  have "pool_inv (d\<lparr>env := faults\<rparr>)"
    using Free.prems pool_inv_read(1) [of d "d\<lparr>env := faults\<rparr>"] by (simp add: sys_inv_def same_tables_def)
  from free_cards_step [OF this Free.hyps [unfolded FreeVlanForVnic_def]]
  show ?case by (rule sys_inv_pool_step [OF Free.prems])
qed

lemma reachable_inv: "reachable d0 d \<Longrightarrow> sys_inv d0 \<Longrightarrow> sys_inv d"
  by (induction rule: reachable.induct) (auto intro: sys_step_inv)

lemma example_sys_inv: "sys_inv example_db"
proof -
  have "pgs_ok example_db" by (simp add: pgs_ok_def is_vm_pg_def example_db_def)
  moreover have "serial_ok example_db" by code_simp
  moreover have "allocated example_db q \<subseteq> range_nums example_db q" for q
    unfolding example_allocated by (simp add: range_nums_def example_db_def)
  moreover have "rows_ok u example_db \<and> rows_apart u example_db" for u
  proof (cases "u = ''np''")
    case False
    then have "np_rows u example_db = []" by (simp add: np_rows_def np_lookup_def example_db_def)
    then show ?thesis by (simp add: rows_ok_def rows_apart_def np_ranges_def apart_def)
  qed (use example_rows in simp)
  ultimately show ?thesis
    using example_ok(1,2) by (simp add: sys_inv_def pool_inv_def) (simp add: example_db_def)
qed

text \<open>C1. Safety of the VLAN subsystem. Start from a database with the keys of the schema, isolated tenants,
  well-formed ranges and every allocated VLAN in a range. After any sequence of range messages,
  allocations and releases for virtual machines, where the calls of the latter two may fail at any point
  and in any way: on each netplane two users of a VLAN have the same project and isolation number and
  users with the same project and isolation number have the same VLAN; every allocated VLAN lies in a
  range of its netplane; and the rows of every netplane are well-formed and separated.\<close>

theorem vlan_system_safe:
  assumes "sys_inv d0" and "reachable d0 d"
  shows "isolated d \<and> keys_ok d \<and>
         (\<forall>u np. np_lookup u d = Some np \<longrightarrow> allocated d np \<subseteq> int ` np_vlans u d) \<and>
         (\<forall>u. rows_ok u d \<and> rows_apart u d)"
  using reachable_inv [OF assms(2,1)] sys_inv_covered [of d]
  by (simp add: sys_inv_def pool_inv_def)

theorem vlan_system_safe_witness:
  "\<exists>d. reachable example_db d \<and> allocated d 1 \<supseteq> {2, 3} \<and> isolated d \<and> allocated d 1 \<subseteq> {2, 3, 4}"
proof -
  let ?x = "\<lparr>nProjectId = 6, vecVnicPg = [''b'']\<rparr>"
  obtain r d where a: "AllocVlanForVnic ?x (example_db\<lparr>env := []\<rparr>) = (r, d)" by fastforce
  have "map vp_num (vlan_pool (snd (AllocVlanForVnic ?x (example_db\<lparr>env := []\<rparr>)))) = [2, 3]"
    "list_all (\<lambda>v. vp_netplane_id v = 1) (vlan_pool (snd (AllocVlanForVnic ?x (example_db\<lparr>env := []\<rparr>))))"
    by code_simp+
  then have p: "vp_num ` set (vlan_pool d) = {2, 3}" "\<forall>v \<in> set (vlan_pool d). vp_netplane_id v = 1"
    using a by (simp_all add: list_all_iff flip: set_map)
  have r: "reachable example_db (d\<lparr>env := []\<rparr>)" using sys_step.Alloc [OF a] by blast
  have al: "allocated (d\<lparr>env := []\<rparr>) 1 = {2, 3}" using p by (auto simp: allocated_def)
  from vlan_system_safe [OF example_sys_inv r] show ?thesis using r al by auto
qed

section \<open>Calls that do not fail, allocation\<close>

lemma Handle_env:
  assumes "env d = []" and "\<And>a d2. p d = Some (a, d2) \<Longrightarrow> env d2 = env d"
  shows "env (snd (Handle p d)) = []"
  using assms by (auto simp: Handle_run split: option.split)

lemma add_op_env:
  assumes "db_add_op p d = (ret, d')" and "env d = []" and "\<And>a d2. p d = Some (a, d2) \<Longrightarrow> env d2 = env d"
  shows "env d' = []"
proof -
  obtain x e where h: "Handle p d = (x, e)" by fastforce
  have "env e = []" using Handle_env [of d p, OF assms(2,3)] h by simp
  then show ?thesis using assms(1) h by (auto simp: db_add_op_def split: sum.splits if_splits)
qed

lemma add_procs_env:
  "pf_net_add_vlanmap proj u n i d = Some (a, d2) \<Longrightarrow> env d2 = env d"
  "pf_net_add_netplane_vlanpool u n d = Some (a, d2) \<Longrightarrow> env d2 = env d"
  by (auto simp: pf_net_add_vlanmap_def pf_net_add_netplane_vlanpool_def insert_vlan_map_def
      insert_vlan_pool_def Let_def split: if_splits option.splits sum.splits)

lemma add_ops_env:
  "VlanMap_CheckAdd proj u n i d = (ret, d') \<Longrightarrow> env d = [] \<Longrightarrow> env d' = []"
  "VlanMap_Add proj u n i d = (ret, d') \<Longrightarrow> env d = [] \<Longrightarrow> env d' = []"
  "VlanPool_CheckAdd u n d = (ret, d') \<Longrightarrow> env d = [] \<Longrightarrow> env d' = []"
  "VlanPool_Add u n d = (ret, d') \<Longrightarrow> env d = [] \<Longrightarrow> env d' = []"
  unfolding VlanMap_CheckAdd_def VlanMap_Add_def VlanPool_CheckAdd_def VlanPool_Add_def
  by (erule add_op_env; simp add: add_procs_env)+

lemma add_vlan_map_env: "add_vlan_map proj u v i d = (ret, d') \<Longrightarrow> env d = [] \<Longrightarrow> env d' = []"
  by (auto simp: add_vlan_map_def split: prod.splits if_splits dest: add_ops_env)

lemma alloc_new_vlan_env: "alloc_new_vlan proj u i old p d = (ret, v, p', d') \<Longrightarrow> env d = [] \<Longrightarrow> env d' = []"
  by (auto simp: alloc_new_vlan_def split: prod.splits if_splits option.splits
      dest: add_ops_env add_vlan_map_env)

lemma AllocVlanID_env:
  assumes "CVlanPool_AllocVlanID u proj pg ino old p d = (ret, v, p', d')" and "env d = []"
  shows "env d' = []"
proof -
  obtain r rows d1 where q: "VlanMap_QueryByNpProjectIdIsolateNo u proj ino d = (r, rows, d1)"
    by (metis prod_cases3)
  then have "env d1 = []"
    using assms(2) by (auto simp: VlanMap_QueryByNpProjectIdIsolateNo_def db_query_op_def Handle_run
        pf_net_query_vlanmap_by_netplane_and_project_and_isolate_def)
  then show ?thesis
    using assms q by (auto simp: CVlanPool_AllocVlanID_def Let_def
        split: if_splits list.splits prod.splits dest: alloc_new_vlan_env add_vlan_map_env)
qed

lemma Init_live: "env d = [] \<Longrightarrow> CVlanPool_Init (Some rs) u p d = (r, p', d') \<Longrightarrow> d' = d"
  by (auto simp: CVlanPool_Init_def VlanPool_Query_def db_query_op_def Handle_run Let_def
      pf_net_query_netplane_vlanpool_def split: if_splits option.splits)

lemma GetVlanRange_live: "env d = [] \<Longrightarrow> GetVlanRange u d = (r, rs, d') \<Longrightarrow> d' = d"
  using share_queries_live(3) [of d u] by (auto simp: GetVlanRange_def split: if_splits)

text \<open>A card that has to have a VLAN gets one when the calls do not fail and the result is success.\<close>

lemma alloc_for_card_live:
  assumes "pool_inv d" and "env d = []" and "alloc_for_card proj pg d = (0, d')"
  shows "env d' = []"
    and "vlan_card pg ino np d \<Longrightarrow> \<exists>g n. pg_named pg g d \<and> (proj, g, ino, n) \<in> users d' np"
    and "users d q \<subseteq> users d' q"
proof -
  obtain r1 i1 d1 where q1: "IsNeedVlanMap pg 0 d = (r1, i1, d1)" by (metis prod_cases3)
  obtain sdn d2 where q2: "IsPortGroupSdn pg d = (sdn, d2)" by fastforce
  obtain r3 u d3 where q3: "GetPGNetplane pg [] d = (r3, u, d3)" by (metis prod_cases3)
  obtain r4 ranges d4 where q4: "GetVlanRange u d = (r4, ranges, d4)" by (metis prod_cases3)
  obtain r5 p d5 where q5: "CVlanPool_Init (Some ranges) u CVlanPool_new d = (r5, p, d5)"
    by (metis prod_cases3)
  obtain r6 v p' d6 where q6: "CVlanPool_AllocVlanID u proj pg i1 0 p d = (r6, v, p', d6)"
    by (metis prod_cases4)
  note l = PortGroup_Query_live [OF assms(2), of pg]
  have d: "d1 = d" "d2 = d" "d3 = d" "d4 = d" "d5 = d"
    using q1 q2 q3 GetVlanRange_live [OF assms(2) q4] Init_live [OF assms(2) q5]
    by (auto simp: IsNeedVlanMap_def IsPortGroupSdn_def GetPGNetplane_def l split: if_splits)
  consider (stop) "d' = d" "r1 \<noteq> PORTGROUP_OPER_SUCCESS \<or> sdn"
    | (go) "r1 = PORTGROUP_OPER_SUCCESS" "r3 = PORTGROUP_OPER_SUCCESS" "r4 = 0" "r5 = 0" "r6 = 0" "d' = d6"
    using assms(3) q1 q2 q3 q4 q5 q6 d by (auto simp: alloc_for_card_def split: if_splits)
  then have "env d' = [] \<and> users d q \<subseteq> users d' q \<and>
    (vlan_card pg ino np d \<longrightarrow> (\<exists>g n. pg_named pg g d \<and> (proj, g, ino, n) \<in> users d' np))" for ino np q
  proof cases
    case stop
    have "\<not> vlan_card pg ino np d"
      using stop(2) q1 q2
      by (auto simp: vlan_card_def IsNeedVlanMap_def IsPortGroupSdn_def l PORTGROUP_OPER_SUCCESS_def
          split: if_splits)
    then show ?thesis using stop(1) assms(2) by simp
  next
    case go
    obtain g where g: "pg_view pg d = (0, g)" "PgType g = 21" "AccessIsolateNo g = i1"
      using IsNeedVlanMap_effect(2) [OF q1] go(1) by blast
    have u: "u = (if IsCfgNetplane g \<noteq> 0 then PgNetplaneUuid g else [])"
      using GetPGNetplane_effect(2) [OF q3 go(2)] g by auto
    have "u \<noteq> []" using GetVlanRange_named q4 go(3) by simp
    then obtain m where m: "np_lookup u d = Some m" "pg_netplane_lookup pg d = Some m"
      "u = PgNetplaneUuid g"
      using pg_view_netplane [OF _ _ g(1,2)] assms(1) u
      by (auto simp: pool_inv_def keys_ok_def split: if_splits)
    have pre: "pool_pre pg m d" "isolated d" using assms(1) m(2) by (simp_all add: pool_inv_def pool_pre_def)
    have "m_strNetplaneID p = u" using Init_effect(2) [OF q5 go(4)] by simp
    from AllocVlanID_effect [OF pre m(1) this q6] go(5)
    have fin: "alloc_safe proj pg i1 m (int32_of v) d d6" "alloc_done proj pg i1 m (int32_of v) d d6"
      by simp_all
    have "\<exists>g n. pg_named pg g d \<and> (proj, g, ino, n) \<in> users d6 np" if "vlan_card pg ino np d"
    proof -
      have "ino = i1" "np = m" using that g(1,3) m(1,3) by (auto simp: vlan_card_def)
      moreover obtain h where "pg_named pg h d" "(proj, h, i1, int32_of v) \<in> users d6 m"
        using fin(2) by (auto simp: alloc_done_def user_added_def)
      ultimately show ?thesis by blast
    qed
    then show ?thesis
      using alloc_safe_kept(2) [OF pre(2) fin(1), of q] go(6) AllocVlanID_env [OF q6 assms(2)] by simp
  qed
  then show "env d' = []" "vlan_card pg ino np d \<Longrightarrow> \<exists>g n. pg_named pg g d \<and> (proj, g, ino, n) \<in> users d' np"
    "users d q \<subseteq> users d' q" by blast+
qed

lemma vlan_card_kept: "rest_kept d d' \<Longrightarrow> vlan_card pg ino np d' = vlan_card pg ino np d"
proof -
  assume k: "rest_kept d d'"
  have "pg_view pg d' = pg_view pg d"
    using k by (cases "find (\<lambda>g. pg_uuid g = pg) (port_group d)")
      (simp_all add: pg_view_def pf_net_query_portgroup_def Let_def rest_kept_def isolate_lookup_def
        cong: option.case_cong)
  then show ?thesis using rest_kept_lookups(1) [OF k] by (simp add: vlan_card_def)
qed

lemma alloc_cards_live:
  "pool_inv d \<Longrightarrow> env d = [] \<Longrightarrow> alloc_cards proj pgs d = (0, d') \<Longrightarrow>
     users d q \<subseteq> users d' q \<and>
     (\<forall>pg \<in> set pgs. vlan_card pg ino np d \<longrightarrow>
        (\<exists>g n. pg_named pg g d \<and> (proj, g, ino, n) \<in> users d' np))"
proof (induction proj pgs d arbitrary: ino np q rule: alloc_cards.induct)
  case (2 proj pg pgs d)
  obtain r1 d1 where a: "alloc_for_card proj pg d = (r1, d1)" by fastforce
  have r1: "r1 = 0" "alloc_cards proj pgs d1 = (0, d')" using 2(4) a by (auto split: if_splits)
  note l = alloc_for_card_live [OF 2(2,3) a [unfolded r1(1)]]
  have s: "pool_step d d1" by (rule alloc_for_card_step [OF 2(2) a])
  then have k: "rest_kept d d1" by (simp add: pool_step_def)
  note IH = 2(1) [OF a [symmetric] _ pool_step_inv [OF 2(2) s] l(1) r1(2)]
  have up: "users d1 q \<subseteq> users d' q" for q using IH r1(1) by blast
  have "\<exists>g n. pg_named c g d \<and> (proj, g, ino, n) \<in> users d' np"
    if c: "c \<in> set (pg # pgs)" "vlan_card c ino np d" for c
  proof (cases "c = pg")
    case True
    then show ?thesis using l(2) c(2) up [of np] by blast
  next
    case False
    then show ?thesis
      using IH [of q ino np] r1(1) c vlan_card_kept [OF k] rest_kept_lookups(3) [OF k] by auto
  qed
  then show ?case using l(3) up by blast
qed simp

text \<open>C2. A virtual machine gets its VLANs. When the calls to the database do not fail and
  \<open>AllocVlanForVnic\<close> returns success, then for every card whose port group has to have a VLAN (private, in
  access mode with VLAN isolation, not of an SDN network) the project, the port group and its isolation
  number are users of a VLAN of the netplane afterwards; and no user there was is lost.\<close>

theorem AllocVlanForVnic_result:
  assumes "pool_inv d" and "env d = []" and "AllocVlanForVnic x d = (0, d')"
    and "pg \<in> set (vecVnicPg x)" and "vlan_card pg ino np d"
  shows "(\<exists>g n. pg_named pg g d \<and> (nProjectId x, g, ino, n) \<in> users d' np) \<and> users d q \<subseteq> users d' q"
  using alloc_cards_live [OF assms(1,2) assms(3) [unfolded AllocVlanForVnic_def], of q ino np] assms(4,5)
  by blast

lemma example_card: "vlan_card ''b'' 7 1 example_db"
proof -
  have "(case pg_view ''b'' example_db of (r, g) \<Rightarrow> r = 0 \<and> SwithportMode g = 1 \<and> PgType g = 21 \<and>
      IsolateType g = 0 \<and> AccessIsolateNo g = 7 \<and> IsSdn g \<noteq> 1 \<and>
      np_lookup (PgNetplaneUuid g) example_db = Some 1)"
    by code_simp
  then show ?thesis by (auto simp: vlan_card_def split: prod.splits)
qed

theorem AllocVlanForVnic_result_witness:
  "\<exists>d' g n. AllocVlanForVnic \<lparr>nProjectId = 6, vecVnicPg = [''b'']\<rparr> example_db = (0, d') \<and>
            (6, g, 7, n) \<in> users d' 1 \<and> (5, 10, 7, 2) \<in> users d' 1"
proof -
  obtain r d' where a: "AllocVlanForVnic \<lparr>nProjectId = 6, vecVnicPg = [''b'']\<rparr> example_db = (r, d')"
    by fastforce
  have "fst (AllocVlanForVnic \<lparr>nProjectId = 6, vecVnicPg = [''b'']\<rparr> example_db) = 0" by code_simp
  then have r: "r = 0" using a by simp
  have i: "pool_inv example_db" "env example_db = []" using example_sys_inv by (simp_all add: sys_inv_def)
  from AllocVlanForVnic_result [OF i a [unfolded r] _ example_card, of 1]
  show ?thesis using a r by (auto simp: example_users)
qed

text \<open>Why the calls must not fail there: \<open>IsNeedVlanMap\<close> answers a failed query like a port group that
  needs no VLAN. When the first query of an allocation
  fails, with whatever code, \<open>AllocVlanForVnic\<close> returns success, the card
  whose port group has to have a VLAN gets none, and no table changes.\<close>

theorem AllocVlanForVnic_skips_card:
  "vlan_card ''b'' 7 1 (example_db\<lparr>env := [Refused f]\<rparr>) \<and>
   AllocVlanForVnic \<lparr>nProjectId = 6, vecVnicPg = [''b'']\<rparr> (example_db\<lparr>env := [Refused f]\<rparr>) =
     (0, example_db) \<and> (\<nexists>g n. (6, g, 7, n) \<in> users example_db 1)"
proof -
  have "\<forall>f. AllocVlanForVnic \<lparr>nProjectId = 6, vecVnicPg = [''b'']\<rparr> (example_db\<lparr>env := [Refused f]\<rparr>) =
      (0, example_db)"
    by code_simp
  moreover have s: "same_tables example_db (example_db\<lparr>env := [Refused f]\<rparr>)"
    by (simp add: same_tables_def)
  ultimately show ?thesis
    using example_card vlan_card_kept [OF rest_kept_same_rows [OF same_tables_rows [OF s]]]
    by (simp add: example_users)
qed

end
