(* ===== verification/AddrText.thy ===== *)
theory AddrText
  imports Prelude
begin

text \<open>
  The address scanner that \<open>CIPv4Addr::String2IP\<close> and \<open>CMACAddr::String2MAC\<close> share as a
  text: the same two loops with different digits, separators, array sizes and field readers. The
  loops are written once over these parameters; \<open>Ipv4Addr\<close> and \<open>MacAddr\<close> supply them. The locale
  \<open>addr_text\<close> states what a field reader promises and proves, from that, that the two loops
  compute the fields of the text.
\<close>

section \<open>The loops\<close>

definition c_str :: "string \<Rightarrow> string" where
  "c_str s = takeWhile (\<lambda>c. c \<noteq> CHR 0x00) s"

fun skip_blanks :: "string \<Rightarrow> string" where
  "skip_blanks [] = []"
| "skip_blanks (c # cs) = (if c = CHR '' '' \<or> c = CHR 0x09 then skip_blanks cs else c # cs)"

text \<open>
  What differs between the two scanners: the digit characters, the separator, the codes of the
  separator and of the final NUL, and the sizes of the arrays \<open>digits\<close> and \<open>punct\<close>.
\<close>

record scan_conf =
  sc_digit :: "char \<Rightarrow> nat option"
  sc_sep :: char
  sc_sep_code :: nat
  sc_nul_code :: nat
  sc_max_digits :: nat
  sc_max_punct :: nat

definition scan_full :: "scan_conf \<Rightarrow> nat list \<Rightarrow> nat list \<Rightarrow> bool" where
  "scan_full sc digits punct \<longleftrightarrow>
     length digits \<ge> sc_max_digits sc \<or> length punct \<ge> sc_max_punct sc"

text \<open>
  The scanning loop: every digit goes to \<open>digits\<close>, every separator and the NUL at the end of the C
  string to both arrays; it fails on another character and when an array is full.
\<close>

fun addr_scan :: "scan_conf \<Rightarrow> string \<Rightarrow> nat list \<Rightarrow> nat list \<Rightarrow> (nat list \<times> nat list) option" where
  "addr_scan sc [] digits punct =
     (let digits' = digits @ [sc_nul_code sc]; punct' = punct @ [sc_nul_code sc]
      in if scan_full sc digits' punct' then None else Some (digits', punct'))"
| "addr_scan sc (c # cs) digits punct =
     (case sc_digit sc c of
        Some d \<Rightarrow>
          if scan_full sc (digits @ [d]) punct then None else addr_scan sc cs (digits @ [d]) punct
      | None \<Rightarrow>
          if c = sc_sep sc then
            let digits' = digits @ [sc_sep_code sc]; punct' = punct @ [sc_sep_code sc]
            in if scan_full sc digits' punct' then None else addr_scan sc cs digits' punct'
          else None)"

text \<open>
  The reading loop: one field for each element of \<open>punct\<close>. The bytes read so far are part of the
  result also when the loop fails, since the code writes each one where it belongs at once.
\<close>

fun addr_fields ::
  "scan_conf \<Rightarrow> (nat list \<Rightarrow> (uint8 \<times> nat list) option) \<Rightarrow> nat list \<Rightarrow> nat list \<Rightarrow> uint8 list \<Rightarrow>
   bool \<times> uint8 list" where
  "addr_fields sc rd ds [] acc = (False, acc)"
| "addr_fields sc rd ds (p # ps) acc =
     (case rd ds of
        None \<Rightarrow> (False, acc)
      | Some (v, []) \<Rightarrow> (False, acc)
      | Some (v, d # ds') \<Rightarrow>
          if d \<noteq> p then (False, acc)
          else if p = sc_nul_code sc then (True, acc @ [v])
          else addr_fields sc rd ds' ps (acc @ [v]))"

section \<open>The fields of a text\<close>

lemma skip_c_str_id:
  assumes "\<forall>c \<in> set s. c \<noteq> CHR 0x00 \<and> c \<noteq> CHR '' '' \<and> c \<noteq> CHR 0x09"
  shows "skip_blanks (c_str s) = s"
proof -
  have "c_str s = s" using assms by (simp add: c_str_def)
  then show ?thesis using assms by (cases s) auto
qed

fun split_at :: "char \<Rightarrow> string \<Rightarrow> string list" where
  "split_at s [] = [[]]"
| "split_at s (c # cs) =
     (if c = s then [] # split_at s cs
      else (case split_at s cs of [] \<Rightarrow> [[c]] | f # fs \<Rightarrow> (c # f) # fs))"

lemma split_at_not_Nil [simp]: "split_at s cs \<noteq> []"
  by (cases cs) (auto split: list.split)

lemma split_at_no_sep: "s \<notin> set f \<Longrightarrow> split_at s f = [f]"
  by (induction f) auto

lemma split_at_append: "s \<notin> set f \<Longrightarrow> split_at s (f @ s # cs) = f # split_at s cs"
  by (induction f) auto

lemma split_at_fields: "f \<in> set (split_at s cs) \<Longrightarrow> set f \<subseteq> set cs - {s}"
proof (induction cs arbitrary: f)
  case (Cons c cs)
  then show ?case
    by (cases "split_at s cs") (fastforce split: if_splits)+
qed simp

definition symbol :: "scan_conf \<Rightarrow> char \<Rightarrow> nat" where
  "symbol sc c = (case sc_digit sc c of Some d \<Rightarrow> d | None \<Rightarrow> sc_sep_code sc)"

definition legal :: "scan_conf \<Rightarrow> string \<Rightarrow> bool" where
  "legal sc cs \<longleftrightarrow> (\<forall>c \<in> set cs. sc_digit sc c \<noteq> None \<or> c = sc_sep sc)"

fun enc_fields :: "scan_conf \<Rightarrow> string list \<Rightarrow> nat list" where
  "enc_fields sc [] = []"
| "enc_fields sc [f] = map (symbol sc) f @ [sc_nul_code sc]"
| "enc_fields sc (f # fs) = map (symbol sc) f @ sc_sep_code sc # enc_fields sc fs"

definition enc_punct :: "scan_conf \<Rightarrow> nat \<Rightarrow> nat list" where
  "enc_punct sc k = replicate k (sc_sep_code sc) @ [sc_nul_code sc]"

lemma enc_fields_Cons:
  "fs \<noteq> [] \<Longrightarrow> enc_fields sc (f # fs) = map (symbol sc) f @ sc_sep_code sc # enc_fields sc fs"
  by (cases fs) auto

section \<open>What a field reader promises\<close>

locale addr_text =
  fixes sc :: scan_conf
    and rd :: "nat list \<Rightarrow> (uint8 \<times> nat list) option"
    and field_ok :: "string \<Rightarrow> bool"
    and field_val :: "string \<Rightarrow> uint8"
  assumes sep_no_digit: "sc_digit sc (sc_sep sc) = None"
    and codes_differ: "sc_sep_code sc \<noteq> sc_nul_code sc"
    and rd_field: "\<lbrakk>\<forall>c \<in> set f. sc_digit sc c \<noteq> None; p = sc_sep_code sc \<or> p = sc_nul_code sc\<rbrakk> \<Longrightarrow>
      rd (map (symbol sc) f @ p # rest) = (if field_ok f then Some (field_val f, p # rest) else None)"
begin

lemma scan_result:
  "addr_scan sc cs digits punct =
     (if legal sc cs \<and> length digits + length cs + 1 < sc_max_digits sc \<and>
         length punct + length (split_at (sc_sep sc) cs) < sc_max_punct sc
      then Some (digits @ map (symbol sc) cs @ [sc_nul_code sc],
                 punct @ enc_punct sc (length (split_at (sc_sep sc) cs) - 1))
      else None)"
proof (induction cs arbitrary: digits punct)
  case (Cons c cs)
  obtain f fs where fs: "split_at (sc_sep sc) cs = f # fs"
    by (cases "split_at (sc_sep sc) cs") auto
  show ?case
  proof (cases "sc_digit sc c")
    case None
    then show ?thesis
      using Cons.IH [of "digits @ [sc_sep_code sc]" "punct @ [sc_sep_code sc]"] fs
      by (auto simp: legal_def scan_full_def symbol_def enc_punct_def Let_def)
  next
    case (Some d)
    then have "c \<noteq> sc_sep sc" using sep_no_digit by auto
    then show ?thesis
      using Some Cons.IH [of "digits @ [d]" punct] fs
      by (auto simp: legal_def scan_full_def symbol_def)
  qed
qed (simp add: legal_def scan_full_def enc_punct_def Let_def)

lemma enc_split: "legal sc cs \<Longrightarrow>
    enc_fields sc (split_at (sc_sep sc) cs) = map (symbol sc) cs @ [sc_nul_code sc]"
proof (induction cs)
  case (Cons c cs)
  obtain f fs where fs: "split_at (sc_sep sc) cs = f # fs"
    by (cases "split_at (sc_sep sc) cs") auto
  have leg: "legal sc cs" using Cons.prems by (simp add: legal_def)
  show ?case
    using Cons.IH [OF leg] fs sep_no_digit
    by (cases fs) (auto simp: enc_fields_Cons symbol_def)
qed simp

lemma fields_result:
  assumes "fs \<noteq> []" and "\<forall>f \<in> set fs. \<forall>c \<in> set f. sc_digit sc c \<noteq> None"
  shows "addr_fields sc rd (enc_fields sc fs) (enc_punct sc (length fs - 1)) acc =
           (list_all field_ok fs, acc @ map field_val (takeWhile field_ok fs))"
  using assms
proof (induction fs arbitrary: acc rule: list_nonempty_induct)
  case (single f)
  then show ?case
    using rd_field [of f "sc_nul_code sc" "[]"] by (simp add: enc_punct_def)
next
  case (cons f fs)
  have "rd (enc_fields sc (f # fs)) =
          (if field_ok f then Some (field_val f, sc_sep_code sc # enc_fields sc fs) else None)"
    using cons rd_field [of f "sc_sep_code sc" "enc_fields sc fs"] by (simp add: enc_fields_Cons)
  moreover have "enc_punct sc (length (f # fs) - 1) =
                   sc_sep_code sc # enc_punct sc (length fs - 1)"
    using cons(1) by (cases fs) (auto simp: enc_punct_def)
  ultimately show ?case
    using cons codes_differ by simp
qed

lemma split_digits:
  assumes "legal sc cs"
  shows "\<forall>f \<in> set (split_at (sc_sep sc) cs). \<forall>c \<in> set f. sc_digit sc c \<noteq> None"
  using assms split_at_fields [of _ "sc_sep sc" cs] unfolding legal_def by blast

text \<open>The two loops, one after the other, compute the fields of the text.\<close>

lemma parse_result:
  assumes "addr_scan sc cs [] [] = Some (digits, punct)"
  shows "length punct = length (split_at (sc_sep sc) cs)"
    and "addr_fields sc rd digits punct acc =
           (list_all field_ok (split_at (sc_sep sc) cs),
            acc @ map field_val (takeWhile field_ok (split_at (sc_sep sc) cs)))"
proof -
  let ?fs = "split_at (sc_sep sc) cs"
  have leg: "legal sc cs" and d: "digits = enc_fields sc ?fs"
    and p: "punct = enc_punct sc (length ?fs - 1)"
    using assms scan_result [of cs "[]" "[]"] enc_split [of cs] by (auto split: if_splits)
  show "length punct = length ?fs"
    using p by (cases ?fs) (auto simp: enc_punct_def)
  show "addr_fields sc rd digits punct acc =
          (list_all field_ok ?fs, acc @ map field_val (takeWhile field_ok ?fs))"
    unfolding d p by (rule fields_result [OF split_at_not_Nil split_digits [OF leg]])
qed

lemma scan_Some_iff:
  "addr_scan sc cs [] [] \<noteq> None \<longleftrightarrow>
     legal sc cs \<and> length cs + 1 < sc_max_digits sc \<and>
     length (split_at (sc_sep sc) cs) < sc_max_punct sc"
  by (simp add: scan_result)

end

end
