(* ===== verification/MacAddr.thy ===== *)
theory MacAddr
  imports AddrText
begin

text \<open>
  \<open>CMACAddr\<close> (\<open>mac_addr.h\<close>, \<open>mac_addr.cpp\<close>): the MAC address as six bytes, as text and as the
  pair of 24-bit numbers (OUI and data) on which the MAC pool computes. The class is the list
  \<open>aucMAC\<close> of its bytes, which always has \<open>VNET_MAC_LEN\<close> elements.
\<close>

section \<open>Data and conversions\<close>

record TUInt32MAC =
  dwOUI :: uint32
  dwData :: uint32

type_synonym mac = "uint8 list"

definition VNET_MAC_LEN :: nat where "VNET_MAC_LEN = 6"

definition mac_ok :: "mac \<Rightarrow> bool" where
  "mac_ok m \<longleftrightarrow> length m = VNET_MAC_LEN"

definition c_dwZTEOUI1 :: uint32 where
  "c_dwZTEOUI1 = (push_bit 16 0x00 OR push_bit 8 0xd0 OR 0xd0) AND 0x00FFFFFF"

definition c_dwZTEOUI2 :: uint32 where
  "c_dwZTEOUI2 = (push_bit 16 0x00 OR push_bit 8 0x19 OR 0xc6) AND 0x00FFFFFF"

definition Uint32MAC2MAC :: "TUInt32MAC \<Rightarrow> mac" where
  "Uint32MAC2MAC u =
     [ucast (drop_bit 16 (dwOUI u) AND 0xFF), ucast (drop_bit 8 (dwOUI u) AND 0xFF),
      ucast (dwOUI u AND 0xFF),
      ucast (drop_bit 16 (dwData u) AND 0xFF), ucast (drop_bit 8 (dwData u) AND 0xFF),
      ucast (dwData u AND 0xFF)]"

definition word24 :: "uint8 \<Rightarrow> uint8 \<Rightarrow> uint8 \<Rightarrow> uint32" where
  "word24 a b c = (push_bit 16 (ucast a) OR push_bit 8 (ucast b) OR ucast c) AND 0x00FFFFFF"

definition MAC2Uint32MAC :: "mac \<Rightarrow> TUInt32MAC" where
  "MAC2Uint32MAC m =
     \<lparr>dwOUI = word24 (m ! 0) (m ! 1) (m ! 2), dwData = word24 (m ! 3) (m ! 4) (m ! 5)\<rparr>"

definition IsValidOUI :: "mac \<Rightarrow> bool" where
  "IsValidOUI m =
     (let t = MAC2Uint32MAC m
      in if c_dwZTEOUI1 \<noteq> dwOUI t \<and> c_dwZTEOUI2 \<noteq> dwOUI t then False else True)"

section \<open>Text form\<close>

definition hex_char :: "nat \<Rightarrow> char" where
  "hex_char d = ''0123456789abcdef'' ! d"

definition hex2 :: "uint8 \<Rightarrow> string" where
  "hex2 b = [hex_char (unat b div 16), hex_char (unat b mod 16)]"

definition GetStringMAC :: "mac \<Rightarrow> string" where
  "GetStringMAC m =
     hex2 (m ! 0) @ '':'' @ hex2 (m ! 1) @ '':'' @ hex2 (m ! 2) @ '':'' @
     hex2 (m ! 3) @ '':'' @ hex2 (m ! 4) @ '':'' @ hex2 (m ! 5)"

definition tolower :: "char \<Rightarrow> char" where
  "tolower c =
     (let n = (of_char c :: nat) in if 65 \<le> n \<and> n \<le> 90 then char_of (n + 32) else c)"

definition hex_digit :: "char \<Rightarrow> nat option" where
  "hex_digit c =
     map_of
       [(CHR ''0'', 0x0), (CHR ''1'', 0x1), (CHR ''2'', 0x2), (CHR ''3'', 0x3), (CHR ''4'', 0x4),
        (CHR ''5'', 0x5), (CHR ''6'', 0x6), (CHR ''7'', 0x7), (CHR ''8'', 0x8), (CHR ''9'', 0x9),
        (CHR ''a'', 0xa), (CHR ''b'', 0xb), (CHR ''c'', 0xc), (CHR ''d'', 0xd), (CHR ''e'', 0xe),
        (CHR ''f'', 0xf)] c"

definition mac_conf :: scan_conf where
  "mac_conf = \<lparr>sc_digit = hex_digit, sc_sep = CHR '':'', sc_sep_code = 0x11, sc_nul_code = 0x10,
               sc_max_digits = 21, sc_max_punct = 9\<rparr>"

text \<open>The inner loop of \<open>String2MAC\<close> with its counter \<open>nMACBits\<close> and the test after it.\<close>

fun mac_byte :: "uint8 \<Rightarrow> nat \<Rightarrow> nat list \<Rightarrow> (uint8 \<times> nat list) option" where
  "mac_byte b n [] = (if n > 2 then None else Some (b, []))"
| "mac_byte b n (d # ds) =
     (if d \<le> 0xf then mac_byte (push_bit 4 b OR of_nat d) (n + 1) ds
      else if n > 2 then None else Some (b, d # ds))"

text \<open>
  A failure in the middle of the reading loop leaves the bytes read before it in the address.
\<close>

definition String2MAC :: "string \<Rightarrow> mac \<Rightarrow> rc \<times> mac" where
  "String2MAC s m =
     (if s = [] then (- 1, m)
      else case addr_scan mac_conf (skip_blanks (c_str (map tolower s))) [] [] of
             None \<Rightarrow> (- 1, m)
           | Some (digits, punct) \<Rightarrow>
               if length punct \<noteq> VNET_MAC_LEN then (- 1, m)
               else (case addr_fields mac_conf (mac_byte 0 0) digits punct [] of
                       (ok, bs) \<Rightarrow> (if ok then 0 else - 1, bs @ drop (length bs) m)))"

definition SetMAC :: "string \<Rightarrow> mac \<Rightarrow> rc \<times> mac" where
  "SetMAC s m = (if s = [] then (- 1, m) else String2MAC s m)"

definition SetMAC_bytes :: "uint8 list \<Rightarrow> mac \<Rightarrow> rc \<times> mac" where
  "SetMAC_bytes bs m = (if length bs \<noteq> VNET_MAC_LEN then (- 1, m) else (0, bs))"

definition SetMAC_uint32 :: "TUInt32MAC \<Rightarrow> mac \<Rightarrow> rc \<times> mac" where
  "SetMAC_uint32 u m = (0, Uint32MAC2MAC u)"

definition GetUInt32MAC :: "mac \<Rightarrow> TUInt32MAC" where
  "GetUInt32MAC m = MAC2Uint32MAC m"

section \<open>The 24-bit pair\<close>

lemma mask24: "(0x00FFFFFF :: uint32) = mask 24" "(0xFF :: uint32) = mask 8"
  by (simp_all add: mask_eq_exp_minus_1)

lemma bit_word24:
  assumes "n < 32"
  shows "bit (word24 a b c) n \<longleftrightarrow>
           (if n < 8 then bit c n else if n < 16 then bit b (n - 8) else n < 24 \<and> bit a (n - 16))"
  using assms byte_bit_ge [of n c] byte_bit_ge [of "n - 8" b] byte_bit_ge [of "n - 16" a]
  unfolding word24_def mask24 bit_and_iff bit_or_iff bit_push_bit_iff bit_ucast_iff bit_mask_iff
  by auto

lemma bytes_word24:
  "(ucast (word24 a b c AND 0xFF) :: uint8) = c"
  "(ucast (drop_bit 8 (word24 a b c) AND 0xFF) :: uint8) = b"
  "(ucast (drop_bit 16 (word24 a b c) AND 0xFF) :: uint8) = a"
  unfolding mask24
  by (rule bit_word_eqI;
      simp add: bit_ucast_iff bit_and_iff bit_mask_iff bit_drop_bit_eq bit_word24)+

definition word24_ok :: "uint32 \<Rightarrow> bool" where
  "word24_ok w \<longleftrightarrow> w AND NOT 0x00FFFFFF = 0"

lemma word24_bytes:
  assumes "word24_ok w"
  shows "word24 (ucast (drop_bit 16 w AND 0xFF)) (ucast (drop_bit 8 w AND 0xFF))
           (ucast (w AND 0xFF)) = w"
proof (rule bit_word_eqI)
  fix n
  assume n: "n < LENGTH(32)"
  have high: "24 \<le> n \<Longrightarrow> \<not> bit w n"
  proof
    assume "24 \<le> n" "bit w n"
    then have "bit (w AND NOT (mask 24)) n"
      using n by (simp add: bit_and_iff bit_not_iff bit_mask_iff)
    then show False using assms by (simp add: word24_ok_def mask24)
  qed
  show "bit (word24 (ucast (drop_bit 16 w AND 0xFF)) (ucast (drop_bit 8 w AND 0xFF))
           (ucast (w AND 0xFF))) n \<longleftrightarrow> bit w n"
    using n high unfolding mask24
    by (cases "n < 8"; cases "n < 16"; cases "n < 24")
      (auto simp: bit_word24 bit_ucast_iff bit_and_iff bit_mask_iff bit_drop_bit_eq)
qed

lemma mac_list:
  assumes "mac_ok m"
  obtains a b c d e f where "m = [a, b, c, d, e, f]"
  using assms by (auto simp: mac_ok_def VNET_MAC_LEN_def length_Suc_conv eval_nat_numeral)

lemma Uint32MAC2MAC_inverse: "mac_ok m \<Longrightarrow> Uint32MAC2MAC (MAC2Uint32MAC m) = m"
  by (erule mac_list) (simp add: Uint32MAC2MAC_def MAC2Uint32MAC_def bytes_word24)

lemma MAC2Uint32MAC_inverse:
  "word24_ok (dwOUI u) \<Longrightarrow> word24_ok (dwData u) \<Longrightarrow> MAC2Uint32MAC (Uint32MAC2MAC u) = u"
  by (simp add: Uint32MAC2MAC_def MAC2Uint32MAC_def word24_bytes)

lemma word24_eq_iff: "word24 a b c = word24 a' b' c' \<longleftrightarrow> a = a' \<and> b = b' \<and> c = c'"
  by (metis bytes_word24)

text \<open>The two prefixes of the vendor are the words of three bytes each.\<close>

lemma IsValidOUI_prefix:
  assumes "mac_ok m"
  shows "IsValidOUI m \<longleftrightarrow> take 3 m = [0x00, 0xd0, 0xd0] \<or> take 3 m = [0x00, 0x19, 0xc6]"
proof -
  have c: "c_dwZTEOUI1 = word24 0x00 0xd0 0xd0" "c_dwZTEOUI2 = word24 0x00 0x19 0xc6"
    by (simp_all add: c_dwZTEOUI1_def c_dwZTEOUI2_def word24_def)
  show ?thesis
    using assms by (elim mac_list) (auto simp: IsValidOUI_def MAC2Uint32MAC_def c word24_eq_iff)
qed

section \<open>Reading the text\<close>

definition mac_field_value :: "string \<Rightarrow> uint8" where
  "mac_field_value f = foldl (\<lambda>b c. push_bit 4 b OR of_nat (the (hex_digit c))) 0 f"

lemma hex_digit_le: "hex_digit c = Some d \<Longrightarrow> d \<le> 15"
  by (auto simp: hex_digit_def split: if_splits)

lemma mac_byte_field:
  assumes "\<forall>c \<in> set f. hex_digit c \<noteq> None" and "15 < p"
  shows "mac_byte b n (map (symbol mac_conf) f @ p # rest) =
           (if n + length f \<le> 2
            then Some (foldl (\<lambda>b c. push_bit 4 b OR of_nat (the (hex_digit c))) b f, p # rest)
            else None)"
  using assms
proof (induction f arbitrary: b n)
  case (Cons c f)
  obtain d where d: "hex_digit c = Some d" "d \<le> 15"
    using Cons.prems(1) hex_digit_le [of c] by auto
  then have "symbol mac_conf c = d"
    by (simp add: symbol_def mac_conf_def)
  then show ?case
    using Cons.IH [of "push_bit 4 b OR of_nat d" "n + 1"] Cons.prems d by simp
qed simp

interpretation mac: addr_text mac_conf "mac_byte 0 0" "\<lambda>f. length f \<le> 2" mac_field_value
proof
  fix f p rest
  assume "\<forall>c \<in> set f. sc_digit mac_conf c \<noteq> None"
    and "p = sc_sep_code mac_conf \<or> p = sc_nul_code mac_conf"
  then show "mac_byte 0 0 (map (symbol mac_conf) f @ p # rest) =
               (if length f \<le> 2 then Some (mac_field_value f, p # rest) else None)"
    using mac_byte_field [of f p 0 0 rest] by (auto simp: mac_conf_def mac_field_value_def)
qed (simp_all add: mac_conf_def hex_digit_def)

definition mac_text :: "string \<Rightarrow> string" where
  "mac_text s = skip_blanks (c_str (map tolower s))"

definition mac_scan_ok :: "string \<Rightarrow> bool" where
  "mac_scan_ok cs \<longleftrightarrow>
     (\<forall>c \<in> set cs. hex_digit c \<noteq> None \<or> c = CHR '':'') \<and> length cs < 20 \<and>
     length (split_at (CHR '':'') cs) = 6"

lemma String2MAC_fields:
  "String2MAC s m =
     (let cs = mac_text s; fs = split_at (CHR '':'') cs;
          bs = map mac_field_value (takeWhile (\<lambda>f. length f \<le> 2) fs) in
      if s \<noteq> [] \<and> mac_scan_ok cs
      then (if list_all (\<lambda>f. length f \<le> 2) fs then 0 else - 1, bs @ drop (length bs) m)
      else (- 1, m))"
proof -
  let ?cs = "skip_blanks (c_str (map tolower s))"
  have conf: "sc_sep mac_conf = CHR '':''" "sc_digit mac_conf = hex_digit"
    "sc_max_digits mac_conf = 21" "sc_max_punct mac_conf = 9"
    by (simp_all add: mac_conf_def)
  show ?thesis
  proof (cases "addr_scan mac_conf ?cs [] []")
    case None
    then show ?thesis
      using mac.scan_Some_iff [of ?cs]
      by (auto simp: String2MAC_def mac_scan_ok_def mac_text_def Let_def legal_def conf)
  next
    case (Some dp)
    obtain digits punct where dp: "dp = (digits, punct)" by (cases dp)
    note parse = mac.parse_result [OF Some [unfolded dp]]
    have ok: "legal mac_conf ?cs" "length ?cs + 1 < 21"
      using Some mac.scan_Some_iff [of ?cs] by (auto simp: conf)
    show ?thesis
      using Some dp ok parse(1) parse(2) [of "[]"]
      by (auto simp: String2MAC_def mac_scan_ok_def mac_text_def Let_def legal_def conf VNET_MAC_LEN_def
          split: if_splits bool.split)
  qed
qed

section \<open>Round trip\<close>

lemma nibble_cases:
  assumes "d < 16"
  obtains "d = 0" | "d = 1" | "d = 2" | "d = 3" | "d = 4" | "d = 5" | "d = 6" | "d = 7"
    | "d = 8" | "d = 9" | "d = 10" | "d = 11" | "d = 12" | "d = 13" | "d = 14" | "d = (15 :: nat)"
  using assms by atomize_elim arith

lemma hex_digit_char: "d < 16 \<Longrightarrow> hex_digit (hex_char d) = Some d"
  by (erule nibble_cases) (simp_all add: hex_char_def hex_digit_def)

lemma tolower_hex_char: "d < 16 \<Longrightarrow> tolower (hex_char d) = hex_char d"
  by (erule nibble_cases) (simp_all add: hex_char_def tolower_def)

lemma hex_digit_none:
  "hex_digit (CHR 0x00) = None" "hex_digit (CHR '' '') = None"
  "hex_digit (CHR 0x09) = None" "hex_digit (CHR '':'') = None"
  by (simp_all add: hex_digit_def)

lemma hex_digit_plain:
  "hex_digit c \<noteq> None \<Longrightarrow> c \<noteq> CHR 0x00 \<and> c \<noteq> CHR '' '' \<and> c \<noteq> CHR 0x09 \<and> c \<noteq> CHR '':''"
  using hex_digit_none by metis

lemma nibbles: "unat (b :: uint8) div 16 < 16" "unat (b :: uint8) mod 16 < 16"
proof -
  have "unat b < 2 ^ LENGTH(8)" by (rule unsigned_less)
  then show "unat b div 16 < 16" "unat b mod 16 < 16" by (simp_all add: less_mult_imp_div_less)
qed

lemma mac_field_value_hex2: "mac_field_value (hex2 b) = b"
proof -
  have "push_bit 4 (of_nat (unat b div 16) :: uint8) OR of_nat (unat b mod 16)
          = push_bit 4 (drop_bit 4 b) OR take_bit 4 b"
    by (simp add: drop_bit_eq_div take_bit_eq_mod word_arith_nat_div word_arith_nat_mod)
  also have "\<dots> = b"
    by (rule bit_word_eqI) (auto simp: bit_simps)
  finally show ?thesis
    by (simp add: mac_field_value_def hex2_def hex_digit_char nibbles)
qed

lemma hex2_chars:
  assumes "c \<in> set (hex2 b)"
  shows "hex_digit c \<noteq> None" and "tolower c = c"
  using assms by (auto simp: hex2_def hex_digit_char nibbles tolower_hex_char)

lemma hex2_no_colon: "CHR '':'' \<notin> set (hex2 b)"
  using hex2_chars(1) hex_digit_plain by blast

lemma split_hex2 [simp]:
  "split_at (CHR '':'') (hex2 b @ CHR '':'' # cs) = hex2 b # split_at (CHR '':'') cs"
  "split_at (CHR '':'') (hex2 b) = [hex2 b]"
  using hex2_no_colon by (auto intro!: split_at_append split_at_no_sep)

lemma split_GetStringMAC:
  "split_at (CHR '':'') (GetStringMAC m) =
     [hex2 (m ! 0), hex2 (m ! 1), hex2 (m ! 2), hex2 (m ! 3), hex2 (m ! 4), hex2 (m ! 5)]"
  by (simp add: GetStringMAC_def)

lemma GetStringMAC_chars:
  assumes "c \<in> set (GetStringMAC m)"
  shows "(hex_digit c \<noteq> None \<or> c = CHR '':'') \<and> tolower c = c \<and>
         c \<noteq> CHR 0x00 \<and> c \<noteq> CHR '' '' \<and> c \<noteq> CHR 0x09"
proof (cases "c = CHR '':''")
  case True
  then show ?thesis by (simp add: tolower_def)
next
  case False
  then obtain b where "c \<in> set (hex2 b)"
    using assms by (auto simp: GetStringMAC_def)
  then show ?thesis using hex2_chars [of c b] hex_digit_plain [of c] by blast
qed

lemma mac_text_GetStringMAC: "mac_text (GetStringMAC m) = GetStringMAC m"
proof -
  have "map tolower (GetStringMAC m) = GetStringMAC m"
    using GetStringMAC_chars by (intro map_idI) blast
  moreover have "skip_blanks (c_str (GetStringMAC m)) = GetStringMAC m"
    using GetStringMAC_chars by (intro skip_c_str_id) blast
  ultimately show ?thesis by (simp add: mac_text_def)
qed

lemma hex2_length [simp]: "length (hex2 b) = 2"
  by (simp add: hex2_def)

lemma String2MAC_GetStringMAC:
  assumes "mac_ok m" and "mac_ok m'"
  shows "String2MAC (GetStringMAC m) m' = (0, m)"
proof -
  have "length (GetStringMAC m) = 17" "GetStringMAC m \<noteq> []"
    by (simp_all add: GetStringMAC_def)
  moreover have "\<forall>c \<in> set (GetStringMAC m). hex_digit c \<noteq> None \<or> c = CHR '':''"
    using GetStringMAC_chars by blast
  ultimately have scan: "mac_scan_ok (GetStringMAC m)" "GetStringMAC m \<noteq> []"
    using split_GetStringMAC [of m] by (simp_all add: mac_scan_ok_def)
  obtain a b c d e f where m: "m = [a, b, c, d, e, f]"
    using assms(1) by (rule mac_list)
  show ?thesis
    using scan assms(2)
    by (simp add: String2MAC_fields Let_def mac_text_GetStringMAC split_GetStringMAC
        mac_field_value_hex2 mac_ok_def VNET_MAC_LEN_def m)
qed

lemma String2MAC_mac_ok:
  assumes "mac_ok m"
  shows "mac_ok (snd (String2MAC s m))"
proof -
  have "length (takeWhile P fs) \<le> 6" if "length fs = 6" for P and fs :: "string list"
    using length_takeWhile_le [of P fs] that by simp
  then show ?thesis
    using assms
    by (simp add: String2MAC_fields Let_def mac_ok_def VNET_MAC_LEN_def mac_scan_ok_def)
qed

section \<open>Properties\<close>

text \<open>The text form is read back: setting any address from \<open>GetStringMAC\<close> of \<open>m\<close> stores \<open>m\<close>.\<close>

theorem SetMAC_GetStringMAC:
  assumes "length m = 6" and "length m' = 6"
  shows "SetMAC (GetStringMAC m) m' = (0, m)"
proof -
  have "GetStringMAC m \<noteq> []" by (simp add: GetStringMAC_def)
  then show ?thesis
    using String2MAC_GetStringMAC [of m m'] assms
    by (simp add: SetMAC_def mac_ok_def VNET_MAC_LEN_def)
qed

theorem SetMAC_GetStringMAC_witness:
  "SetMAC (GetStringMAC [0x00, 0xd0, 0xd0, 0x0a, 0xff, 0x10]) [0, 0, 0, 0, 0, 0] =
     (0, [0x00, 0xd0, 0xd0, 0x0a, 0xff, 0x10])"
  using SetMAC_GetStringMAC [of "[0x00, 0xd0, 0xd0, 0x0a, 0xff, 0x10]" "[0, 0, 0, 0, 0, 0]"] by simp

text \<open>\<open>CMACAddr::Set\<close> on a text, on every branch: it returns 0 exactly when the text, in lower
  case, up to its first NUL and after leading blanks, has fewer than 20 characters, only hex digits
  and colons, and six colon-separated fields of at most two digits. The bytes are then the values of
  the fields; a text that fails the scan leaves the address alone, and one whose \<open>k\<close>-th field is too
  long leaves the bytes of the fields before it.\<close>

theorem SetMAC_reads_fields:
  "SetMAC s m =
     (let cs = skip_blanks (c_str (map tolower s)); fs = split_at (CHR '':'') cs;
          bs = map mac_field_value (takeWhile (\<lambda>f. length f \<le> 2) fs) in
      if s \<noteq> [] \<and> (\<forall>c \<in> set cs. hex_digit c \<noteq> None \<or> c = CHR '':'') \<and> length cs < 20 \<and> length fs = 6
      then (if list_all (\<lambda>f. length f \<le> 2) fs then 0 else - 1, bs @ drop (length bs) m)
      else (- 1, m))"
  using String2MAC_fields [of s m]
  by (auto simp: SetMAC_def mac_text_def mac_scan_ok_def Let_def)

theorem SetMAC_reads_fields_witness:
  "SetMAC ''1:2:003:4:5:6'' [9, 9, 9, 9, 9, 9] = (- 1, [1, 2, 9, 9, 9, 9])"
  using SetMAC_reads_fields [of "''1:2:003:4:5:6''" "[9, 9, 9, 9, 9, 9]"]
  by (simp add: tolower_def c_str_def hex_digit_def mac_field_value_def Let_def)

text \<open>The pair of 24-bit numbers and the six bytes are two views of one address: the conversions
  are inverse to each other, and \<open>IsValidOUI\<close> holds exactly for the two vendor prefixes.\<close>

theorem Uint32MAC_inverse:
  assumes "length m = 6" and "word24_ok (dwOUI u)" and "word24_ok (dwData u)"
  shows "SetMAC_uint32 (GetUInt32MAC m) m' = (0, m) \<and>
         GetUInt32MAC (snd (SetMAC_uint32 u m')) = u \<and>
         (IsValidOUI m \<longleftrightarrow> take 3 m = [0x00, 0xd0, 0xd0] \<or> take 3 m = [0x00, 0x19, 0xc6])"
  using assms Uint32MAC2MAC_inverse [of m] MAC2Uint32MAC_inverse [of u] IsValidOUI_prefix [of m]
  by (simp add: SetMAC_uint32_def GetUInt32MAC_def mac_ok_def VNET_MAC_LEN_def)

theorem Uint32MAC_inverse_witness:
  "SetMAC_uint32 (GetUInt32MAC [0, 25, 198, 1, 2, 255]) [] = (0, [0, 25, 198, 1, 2, 255]) \<and>
   GetUInt32MAC (snd (SetMAC_uint32 \<lparr>dwOUI = 0x0019c6, dwData = 7\<rparr> [])) =
     \<lparr>dwOUI = 0x0019c6, dwData = 7\<rparr> \<and>
   IsValidOUI [0, 25, 198, 1, 2, 255]"
  using Uint32MAC_inverse
    [of "[0, 25, 198, 1, 2, 255]" "\<lparr>dwOUI = 0x0019c6, dwData = 7\<rparr>" "[]"]
  by (simp add: word24_ok_def)

end
