(* ===== verification/MacRange.thy ===== *)
theory MacRange
  imports MacAddr RangeContainer
begin

text \<open>
  \<open>CMACRange\<close> (\<open>mac_range.h/.cpp\<close>): the container of the MAC ranges of one OUI. \<open>Init\<close> accepts one
  of the two vendor OUIs; \<open>AddRange\<close> and \<open>DelRange\<close> compare the OUI of their argument with it and
  leave the other tests to \<open>IsValidMACRange\<close>, which the managers call first.
\<close>

section \<open>State and operations\<close>

record TMACRangeItem =
  tStartMAC :: TUInt32MAC
  tEndMAC :: TUInt32MAC

record CMACRange =
  m_dwOUI :: uint32
  m_vecMACRange :: "TMACRangeItem list"

definition CMACRange_Init :: "uint32 \<Rightarrow> CMACRange \<Rightarrow> rc \<times> CMACRange" where
  "CMACRange_Init oui s =
     (if c_dwZTEOUI1 \<noteq> oui \<and> c_dwZTEOUI2 \<noteq> oui then (- 1, s) else (0, s\<lparr>m_dwOUI := oui\<rparr>))"

definition CMACRange_AddValidRange :: "TMACRangeItem \<Rightarrow> CMACRange \<Rightarrow> rc \<times> CMACRange" where
  "CMACRange_AddValidRange r s =
     (if dwOUI (tStartMAC r) \<noteq> m_dwOUI s \<or> dwOUI (tEndMAC r) \<noteq> m_dwOUI s then (- 1, s)
      else (0, s\<lparr>m_vecMACRange := m_vecMACRange s @ [r]\<rparr>))"

definition mac_to_range :: "TMACRangeItem \<Rightarrow> TRange" where
  "mac_to_range r = \<lparr>dwStart = dwData (tStartMAC r), dwEnd = dwData (tEndMAC r)\<rparr>"

definition mac_of_range :: "uint32 \<Rightarrow> TRange \<Rightarrow> TMACRangeItem" where
  "mac_of_range oui x =
     \<lparr>tStartMAC = \<lparr>dwOUI = oui, dwData = dwStart x\<rparr>, tEndMAC = \<lparr>dwOUI = oui, dwData = dwEnd x\<rparr>\<rparr>"

definition CMACRange_AddRange :: "TMACRangeItem \<Rightarrow> CMACRange \<Rightarrow> rc \<times> CMACRange" where
  "CMACRange_AddRange r s =
     (if dwOUI (tStartMAC r) \<noteq> m_dwOUI s \<or> dwOUI (tEndMAC r) \<noteq> m_dwOUI s then (- 1, s)
      else if m_vecMACRange s = [] then (0, s\<lparr>m_vecMACRange := m_vecMACRange s @ [r]\<rparr>)
      else let ra = ra_load (map mac_to_range (m_vecMACRange s));
               ra1 = snd (AddRange (mac_to_range r) ra);
               ra2 = snd (MergeSortColl ra1)
           in if GetMergedRangeColl ra2 = [] then (- 1, s)
              else (0, s\<lparr>m_vecMACRange := map (mac_of_range (m_dwOUI s)) (GetMergedRangeColl ra2)\<rparr>))"

definition CMACRange_DelRange :: "TMACRangeItem \<Rightarrow> CMACRange \<Rightarrow> rc \<times> CMACRange" where
  "CMACRange_DelRange r s =
     (if dwOUI (tStartMAC r) \<noteq> m_dwOUI s \<or> dwOUI (tEndMAC r) \<noteq> m_dwOUI s then (- 1, s)
      else if m_vecMACRange s = [] then (- 1, s)
      else let ra = ra_load (map mac_to_range (m_vecMACRange s));
               (nRet, ra1) = DeleteRange (mac_to_range r) ra
           in if 0 = nRet then
                if GetMergedRangeColl ra1 = [] then (0, s\<lparr>m_vecMACRange := []\<rparr>)
                else (0, s\<lparr>m_vecMACRange := map (mac_of_range (m_dwOUI s)) (GetMergedRangeColl ra1)\<rparr>)
              else (- 1, s))"

definition IsValidMACRange :: "TMACRangeItem \<Rightarrow> bool" where
  "IsValidMACRange r =
     (if \<not> IsValidOUI (snd (SetMAC_uint32 (tStartMAC r) [])) then False
      else if \<not> IsValidOUI (snd (SetMAC_uint32 (tEndMAC r) [])) then False
      else if dwOUI (tStartMAC r) \<noteq> dwOUI (tEndMAC r) then False
      else let t = dwData (tStartMAC r) AND 0x00FFFFFF in
        if 0 = t \<or> 0x00FFFFFF = t then False
        else let t = dwData (tEndMAC r) AND 0x00FFFFFF in
          if 0 = t \<or> 0x00FFFFFF = t then False
          else if dwData (tStartMAC r) > dwData (tEndMAC r) then False
          else True)"

section \<open>The addresses of a container\<close>

definition mac_item_set :: "TMACRangeItem \<Rightarrow> nat set" where
  "mac_item_set r = {unat (dwData (tStartMAC r)) .. unat (dwData (tEndMAC r))}"

definition macs :: "CMACRange \<Rightarrow> nat set" where
  "macs s = (\<Union>r \<in> set (m_vecMACRange s). mac_item_set r)"

definition mac_inv :: "uint32 \<Rightarrow> CMACRange \<Rightarrow> bool" where
  "mac_inv oui s \<longleftrightarrow>
     m_dwOUI s = oui \<and> apart (map mac_to_range (m_vecMACRange s)) \<and>
     (\<forall>r \<in> set (m_vecMACRange s). dwOUI (tStartMAC r) = oui \<and> dwOUI (tEndMAC r) = oui) \<and>
     macs s \<subseteq> {1..0xFFFFFFFE}"

text \<open>A range that passes the two tests of a manager and of the container.\<close>

definition mac_range_ok :: "uint32 \<Rightarrow> TMACRangeItem \<Rightarrow> bool" where
  "mac_range_ok oui r \<longleftrightarrow> IsValidMACRange r \<and> dwOUI (tStartMAC r) = oui \<and> dwOUI (tEndMAC r) = oui"

lemma range_set_mac [simp]: "range_set (mac_to_range r) = mac_item_set r"
  by (simp add: range_set_def mac_to_range_def mac_item_set_def)

lemma coll_set_macs: "coll_set (map mac_to_range (m_vecMACRange s)) = macs s"
  by (simp add: coll_set_def macs_def)

lemma mac_range_roundtrip [simp]:
  "mac_to_range (mac_of_range oui x) = x" "mac_to_range \<circ> mac_of_range oui = id"
  by (simp_all add: mac_to_range_def mac_of_range_def fun_eq_iff)

lemma macs_of_ranges [simp]:
  "macs (s\<lparr>m_vecMACRange := map (mac_of_range oui) rs\<rparr>) = coll_set rs"
  using coll_set_macs [of "s\<lparr>m_vecMACRange := map (mac_of_range oui) rs\<rparr>"] by simp

lemma IsValidMACRange_range:
  assumes "IsValidMACRange r"
  shows "valid_range (mac_to_range r)" and "mac_item_set r \<subseteq> {1..0xFFFFFFFE}"
proof -
  have s0: "dwData (tStartMAC r) \<noteq> 0" and le: "dwData (tStartMAC r) \<le> dwData (tEndMAC r)"
    and top: "dwData (tEndMAC r) AND 0x00FFFFFF \<noteq> 0x00FFFFFF"
    using assms by (auto simp: IsValidMACRange_def Let_def split: if_splits)
  show "valid_range (mac_to_range r)"
    using le by (simp add: valid_range_def mac_to_range_def)
  have "dwData (tEndMAC r) \<noteq> - 1" using top by auto
  then have "unat (dwData (tEndMAC r)) \<noteq> unat (- 1 :: uint32)"
    by (simp only: word_unat_eq_iff not_False_eq_True)
  moreover have "unat (- 1 :: uint32) = 0xFFFFFFFF"
    by (simp add: unsigned_minus_1_eq_mask mask_eq_exp_minus_1)
  ultimately have "unat (dwData (tEndMAC r)) \<le> 0xFFFFFFFE"
    using unat32_less [of "dwData (tEndMAC r)"] by simp
  moreover have "0 < unat (dwData (tStartMAC r))"
    using s0 by (simp add: unat_gt_0)
  ultimately show "mac_item_set r \<subseteq> {1..0xFFFFFFFE}"
    by (auto simp: mac_item_set_def)
qed

section \<open>The container keeps the contract\<close>

text \<open>The way \<open>CMACPoolMgr\<close> calls the container.\<close>

definition mac_add_checked :: "TMACRangeItem \<Rightarrow> CMACRange \<Rightarrow> rc \<times> CMACRange" where
  "mac_add_checked r s = (if IsValidMACRange r then CMACRange_AddRange r s else (- 1, s))"

definition mac_del_checked :: "TMACRangeItem \<Rightarrow> CMACRange \<Rightarrow> rc \<times> CMACRange" where
  "mac_del_checked r s = (if IsValidMACRange r then CMACRange_DelRange r s else (- 1, s))"

lemma CMACRange_AddRange_done:
  assumes "mac_inv oui s" and "mac_range_ok oui r"
  shows "fst (CMACRange_AddRange r s) = 0 \<and> mac_inv oui (snd (CMACRange_AddRange r s)) \<and>
         macs (snd (CMACRange_AddRange r s)) = macs s \<union> mac_item_set r"
proof (cases "m_vecMACRange s = []")
  case True
  then show ?thesis
    using assms IsValidMACRange_range [of r]
    by (auto simp: CMACRange_AddRange_def mac_inv_def macs_def mac_range_ok_def)
next
  case False
  let ?out = "GetMergedRangeColl (ra_added (map mac_to_range (m_vecMACRange s)) (mac_to_range r))"
  have s: "apart (map mac_to_range (m_vecMACRange s))"
    "coll_set (map mac_to_range (m_vecMACRange s)) \<subseteq> {1..0xFFFFFFFE}"
    and r: "valid_range (mac_to_range r)" "range_set (mac_to_range r) \<subseteq> {1..0xFFFFFFFE}"
    using assms IsValidMACRange_range [of r]
    by (auto simp: mac_inv_def mac_range_ok_def coll_set_macs)
  note out = added_set [OF s(1) r(1)]
  have "apart ?out"
    using added_canonical [OF s r] by (intro canonical_apart) simp
  moreover have "CMACRange_AddRange r s = (0, s\<lparr>m_vecMACRange := map (mac_of_range oui) ?out\<rparr>)"
    using False assms out(2)
    by (simp add: CMACRange_AddRange_def ra_added_def Let_def mac_range_ok_def mac_inv_def)
  ultimately show ?thesis
    using assms(1) out(1) s(2) r(2)
    by (auto simp: mac_inv_def coll_set_macs mac_of_range_def[of oui])
qed

lemma CMACRange_DelRange_done:
  assumes "mac_inv oui s" and "mac_range_ok oui r" and "mac_item_set r \<subseteq> macs s"
  shows "fst (CMACRange_DelRange r s) = 0 \<and> mac_inv oui (snd (CMACRange_DelRange r s)) \<and>
         macs (snd (CMACRange_DelRange r s)) = macs s - mac_item_set r"
proof -
  let ?rs = "map mac_to_range (m_vecMACRange s)"
  let ?out = "GetMergedRangeColl (snd (DeleteRange (mac_to_range r) (ra_load ?rs)))"
  have s: "apart ?rs" and r: "valid_range (mac_to_range r)"
    using assms IsValidMACRange_range [of r] by (auto simp: mac_inv_def mac_range_ok_def)
  have ne: "?rs \<noteq> []"
    using assms(3) range_set_nonempty [OF r] by (auto simp: macs_def)
  have sub: "range_set (mac_to_range r) \<subseteq> coll_set ?rs"
    using assms(3) by (simp add: coll_set_macs)
  note d = DeleteRange_loaded(1,3,4) [OF s r ne sub]
  have "CMACRange_DelRange r s = (0, s\<lparr>m_vecMACRange := map (mac_of_range oui) ?out\<rparr>)"
    using d(1) assms ne
    by (simp add: CMACRange_DelRange_def Let_def case_prod_beta mac_range_ok_def mac_inv_def)
  then show ?thesis
    using d(2,3) assms(1) by (auto simp: mac_inv_def coll_set_macs mac_of_range_def[of oui])
qed

lemma CMACRange_DelRange_missing:
  assumes "mac_inv oui s" and "mac_range_ok oui r" and "\<not> mac_item_set r \<subseteq> macs s"
  shows "CMACRange_DelRange r s = (- 1, s)"
proof (cases "m_vecMACRange s = []")
  case True
  then show ?thesis by (simp add: CMACRange_DelRange_def)
next
  case False
  let ?rs = "map mac_to_range (m_vecMACRange s)"
  have s: "apart ?rs" and r: "valid_range (mac_to_range r)"
    using assms IsValidMACRange_range [of r] by (auto simp: mac_inv_def mac_range_ok_def)
  have "fst (DeleteRange (mac_to_range r) (ra_load ?rs)) = - 1"
    using DeleteRange_loaded(2) [OF s r] False assms(3) by (simp add: coll_set_macs)
  then show ?thesis
    using False by (simp add: CMACRange_DelRange_def Let_def case_prod_beta)
qed

interpretation mac_range: range_container "mac_range_ok oui" mac_item_set "mac_inv oui" macs
  mac_add_checked mac_del_checked for oui
proof
  fix r s
  assume inv: "mac_inv oui s"
  show "mac_add_checked r s = (- 1, s)" "mac_del_checked r s = (- 1, s)" if "\<not> mac_range_ok oui r"
    using that inv
    by (auto simp: mac_add_checked_def mac_del_checked_def mac_range_ok_def mac_inv_def
        CMACRange_AddRange_def CMACRange_DelRange_def)
  assume ok: "mac_range_ok oui r"
  then have v: "IsValidMACRange r" by (simp add: mac_range_ok_def)
  show "fst (mac_add_checked r s) = 0 \<and> mac_inv oui (snd (mac_add_checked r s)) \<and>
          macs (snd (mac_add_checked r s)) = macs s \<union> mac_item_set r"
    using CMACRange_AddRange_done [OF inv ok] v by (simp add: mac_add_checked_def)
  show "fst (mac_del_checked r s) = 0 \<and> mac_inv oui (snd (mac_del_checked r s)) \<and>
          macs (snd (mac_del_checked r s)) = macs s - mac_item_set r" if "mac_item_set r \<subseteq> macs s"
    using CMACRange_DelRange_done [OF inv ok that] v by (simp add: mac_del_checked_def)
  show "snd (mac_del_checked r s) = s \<and> (macs s \<noteq> {} \<longrightarrow> fst (mac_del_checked r s) = - 1)"
    if "\<not> mac_item_set r \<subseteq> macs s"
    using CMACRange_DelRange_missing [OF inv ok that] v by (simp add: mac_del_checked_def)
qed

section \<open>Properties\<close>

text \<open>\<open>CMACRange\<close>, called the way the MAC pool manager calls it, refines sets of addresses of
  one OUI: \<open>Init\<close> with a vendor OUI gives the empty set, and after any sequence of checked additions
  and deletions the container holds exactly the addresses of the set specification, all of that OUI,
  and neither all zeros nor the last 32-bit number.\<close>

theorem CMACRange_history:
  assumes "CMACRange_Init oui s0 = (0, s)" and "m_vecMACRange s0 = []"
  shows "macs (run_ops mac_add_checked mac_del_checked ops s) =
           spec_run (mac_range_ok oui) mac_item_set ops {} \<and>
         mac_inv oui (run_ops mac_add_checked mac_del_checked ops s)"
proof -
  have "mac_inv oui s" "macs s = {}"
    using assms by (auto simp: CMACRange_Init_def mac_inv_def macs_def split: if_splits)
  then show ?thesis using mac_range.run_refines [of oui s ops] by simp
qed

theorem CMACRange_history_witness:
  "macs (run_ops mac_add_checked mac_del_checked
     [OpAdd \<lparr>tStartMAC = \<lparr>dwOUI = 0x0019c6, dwData = 1\<rparr>,
     tEndMAC = \<lparr>dwOUI = 0x0019c6, dwData = 255\<rparr>\<rparr>]
     \<lparr>m_dwOUI = 0x0019c6, m_vecMACRange = []\<rparr>) = {1..255}"
proof -
  let ?r = "\<lparr>tStartMAC = \<lparr>dwOUI = 0x0019c6, dwData = 1\<rparr>,
     tEndMAC = \<lparr>dwOUI = 0x0019c6, dwData = 255\<rparr>\<rparr>"
  have "CMACRange_Init 0x0019c6 \<lparr>m_dwOUI = 0, m_vecMACRange = []\<rparr> =
          (0, \<lparr>m_dwOUI = 0x0019c6, m_vecMACRange = []\<rparr>)"
    by (simp add: CMACRange_Init_def c_dwZTEOUI1_def c_dwZTEOUI2_def)
  moreover have "mac_range_ok 0x0019c6 ?r" by code_simp
  moreover have "mac_item_set ?r = {1..255}" by (simp add: mac_item_set_def)
  ultimately show ?thesis
    using CMACRange_history [of "0x0019c6" "\<lparr>m_dwOUI = 0, m_vecMACRange = []\<rparr>" _ "[OpAdd ?r]"] by simp
qed

text \<open>Without that check the container is not safe: the first range put into an empty container
  is stored as it is, and when its start is behind its end a later addition of any valid range silently
  drops it. The container then holds the later range alone, although both calls returned 0.\<close>

theorem CMACRange_AddRange_unchecked:
  assumes "dwData (tStartMAC r) > dwData (tEndMAC r)" and "mac_range_ok oui q"
    and "dwOUI (tStartMAC r) = oui" and "dwOUI (tEndMAC r) = oui"
  shows "CMACRange_AddRange r \<lparr>m_dwOUI = oui, m_vecMACRange = []\<rparr> =
           (0, \<lparr>m_dwOUI = oui, m_vecMACRange = [r]\<rparr>) \<and>
         CMACRange_AddRange q \<lparr>m_dwOUI = oui, m_vecMACRange = [r]\<rparr> =
           (0, \<lparr>m_dwOUI = oui, m_vecMACRange = [q]\<rparr>)"
proof -
  have q: "valid_range (mac_to_range q)" "dwOUI (tStartMAC q) = oui" "dwOUI (tEndMAC q) = oui"
    using assms(2) IsValidMACRange_range(1) [of q] by (auto simp: mac_range_ok_def)
  have "ra_load [mac_to_range r] = ra_init"
    using assms(1) by (simp add: ra_load_def AddRange_def mac_to_range_def RemoveAll_init)
  moreover have "mac_of_range oui (mac_to_range q) = q"
    using q(2,3) by (simp add: mac_of_range_def mac_to_range_def)
  ultimately show ?thesis
    using assms(3,4) q
    by (simp add: CMACRange_AddRange_def AddRange_valid MergeSortColl_def SortColl_def Let_def
        GetMergedRangeColl_def ra_init_def)
qed

theorem CMACRange_AddRange_unchecked_witness:
  "CMACRange_AddRange
     \<lparr>tStartMAC = \<lparr>dwOUI = 0x0019c6, dwData = 1\<rparr>,
     tEndMAC = \<lparr>dwOUI = 0x0019c6, dwData = 255\<rparr>\<rparr>
     \<lparr>m_dwOUI = 0x0019c6, m_vecMACRange = [
     \<lparr>tStartMAC = \<lparr>dwOUI = 0x0019c6, dwData = 9\<rparr>,
     tEndMAC = \<lparr>dwOUI = 0x0019c6, dwData = 5\<rparr>\<rparr>]\<rparr> =
   (0, \<lparr>m_dwOUI = 0x0019c6, m_vecMACRange = [
     \<lparr>tStartMAC = \<lparr>dwOUI = 0x0019c6, dwData = 1\<rparr>,
     tEndMAC = \<lparr>dwOUI = 0x0019c6, dwData = 255\<rparr>\<rparr>]\<rparr>)"
proof -
  let ?r = "\<lparr>tStartMAC = \<lparr>dwOUI = 0x0019c6, dwData = 9\<rparr>,
     tEndMAC = \<lparr>dwOUI = 0x0019c6, dwData = 5\<rparr>\<rparr>"
  let ?q = "\<lparr>tStartMAC = \<lparr>dwOUI = 0x0019c6, dwData = 1\<rparr>,
     tEndMAC = \<lparr>dwOUI = 0x0019c6, dwData = 255\<rparr>\<rparr>"
  have "mac_range_ok 0x0019c6 ?q" by code_simp
  then show ?thesis using CMACRange_AddRange_unchecked [of ?r "0x0019c6" ?q] by simp
qed

end
