(* ===== verification/MacDb.thy ===== *)
theory MacDb
  imports PortGroup MacRange
begin

text \<open>
  The MAC database: the tables \<open>mac_range\<close> and \<open>mac_pool\<close> of \<open>vnm_baseline.sql\<close>, the column of
  \<open>vsi_profile\<close> that refers to them, the stored procedures of \<open>netplane_macrange.txt\<close> and
  \<open>netplane_macpool.txt\<close>, and the operation classes \<open>CDBOperateNetplaneMacRange\<close> and
  \<open>CDBOperateNetplaneMacPool\<close>.
\<close>

section \<open>Numbers of addresses\<close>

text \<open>
  An address is stored as a 64-bit number: the OUI in the upper half, the data in the lower one. Reading
  masks both halves to 24 bits.
\<close>

definition mac_num :: "TUInt32MAC \<Rightarrow> int" where
  "mac_num t = sint (push_bit 32 (ucast (dwOUI t)) OR ucast (dwData t) :: uint64)"

definition num_mac :: "int \<Rightarrow> TUInt32MAC" where
  "num_mac n =
     (let w = (word_of_int n :: uint64) in
      \<lparr>dwOUI = ucast (drop_bit 32 w AND 0x00FFFFFF), dwData = ucast (w AND 0x00FFFFFF)\<rparr>)"

section \<open>Tables\<close>

record mac_range_row =
  mr_id :: int
  mr_netplane_id :: int
  mr_begin :: string
  mr_end :: string
  mr_begin_num :: int
  mr_end_num :: int

record mac_pool_row =
  mp_id :: int
  mp_netplane_id :: int
  mp_mac :: string
  mp_num :: int

record mdb = net_db +
  mac_range :: "mac_range_row list"
  mac_pool :: "mac_pool_row list"
  vsi_mac_id :: "int list"
  serial_mac_range :: int
  serial_mac_pool :: int

type_synonym 'a mproc = "('a, mdb) procedure"

text \<open>The columns of texts are \<open>varchar(64)\<close>.\<close>

definition VARCHAR_LEN :: nat where "VARCHAR_LEN = 64"

section \<open>Procedures on MAC ranges\<close>

record CDbNetplaneMacRange =
  Uuid :: string
  BeginNum :: int
  EndNum :: int
  BeginStr :: string
  EndStr :: string

definition pf_net_check_add_netplane_macrange :: "CDbNetplaneMacRange \<Rightarrow> mdb \<Rightarrow> int" where
  "pf_net_check_add_netplane_macrange r d =
     (case np_lookup (Uuid r) d of
        None \<Rightarrow> RTN_ITEM_NO_EXIST
      | Some np \<Rightarrow> if BeginNum r > EndNum r then RTN_PARAM_INVALID else 0)"

definition insert_mac_range :: "mac_range_row \<Rightarrow> mdb \<Rightarrow> mdb option" where
  "insert_mac_range r d =
     (if mr_id r \<in> set (map mr_id (mac_range d)) \<or> length (mr_begin r) > VARCHAR_LEN \<or>
         length (mr_end r) > VARCHAR_LEN
      then None else Some (d\<lparr>mac_range := mac_range d @ [r]\<rparr>))"

definition pf_net_add_netplane_macrange :: "CDbNetplaneMacRange \<Rightarrow> int mproc" where
  "pf_net_add_netplane_macrange r d =
     (let ret = pf_net_check_add_netplane_macrange r d in
      if ret > 0 then Some (ret, d)
      else case np_lookup (Uuid r) d of
             None \<Rightarrow> None
           | Some np \<Rightarrow>
               let i = serial_mac_range d + 1; d1 = d\<lparr>serial_mac_range := i\<rparr> in
               (case insert_mac_range \<lparr>mr_id = i, mr_netplane_id = np, mr_begin = BeginStr r,
                                       mr_end = EndStr r, mr_begin_num = BeginNum r,
                                       mr_end_num = EndNum r\<rparr> d1 of
                  None \<Rightarrow> Some (RTN_OPERATOR_FAILED, d1)
                | Some d2 \<Rightarrow> Some (0, d2)))"

definition is_mac_range_row :: "int \<Rightarrow> CDbNetplaneMacRange \<Rightarrow> mac_range_row \<Rightarrow> bool" where
  "is_mac_range_row np r x \<longleftrightarrow>
     mr_netplane_id x = np \<and> mr_begin_num x = BeginNum r \<and> mr_end_num x = EndNum r \<and>
     mr_begin x = BeginStr r \<and> mr_end x = EndStr r"

text \<open>As for VLANs, \<open>RTN_PARAM_INVALID\<close> is not declared in the next two procedures.\<close>

definition pf_net_del_netplane_macrange :: "CDbNetplaneMacRange \<Rightarrow> int mproc" where
  "pf_net_del_netplane_macrange r d =
     (case np_lookup (Uuid r) d of
        None \<Rightarrow> Some (RTN_ITEM_NO_EXIST, d)
      | Some np \<Rightarrow>
          if BeginNum r > EndNum r then None
          else if filter (is_mac_range_row np r) (mac_range d) = [] then Some (RTN_ITEM_NO_EXIST, d)
          else Some (0, d\<lparr>mac_range := filter (\<lambda>x. \<not> is_mac_range_row np r x) (mac_range d)\<rparr>))"

definition pf_net_query_netplane_macrange_alloc :: "string \<Rightarrow> int \<Rightarrow> int \<Rightarrow> (int \<times> int) mproc" where
  "pf_net_query_netplane_macrange_alloc u b e d =
     (case np_lookup u d of
        None \<Rightarrow> Some ((RTN_ITEM_NO_EXIST, 0), d)
      | Some np \<Rightarrow>
          if b > e then None
          else Some ((0, int (length (filter (\<lambda>r. mp_netplane_id r = np \<and> mp_num r \<ge> b \<and> mp_num r \<le> e)
                                        (mac_pool d)))), d))"

definition pf_net_query_netplane_macrange :: "string \<Rightarrow> CDbNetplaneMacRange list mproc" where
  "pf_net_query_netplane_macrange u d =
     (case np_lookup u d of
        None \<Rightarrow> Some ([], d)
      | Some np \<Rightarrow>
          Some (map (\<lambda>r. \<lparr>Uuid = u, BeginNum = mr_begin_num r, EndNum = mr_end_num r,
                           BeginStr = mr_begin r, EndStr = mr_end r\<rparr>)
                  (filter (\<lambda>r. mr_netplane_id r = np) (mac_range d)), d))"

section \<open>Procedures on allocated addresses\<close>

record CDbNetplaneMacPool =
  NpUuid :: string
  MacNum :: int
  MacStr :: string

definition pf_net_check_add_netplane_macpool :: "CDbNetplaneMacPool \<Rightarrow> mdb \<Rightarrow> int" where
  "pf_net_check_add_netplane_macpool m d =
     (case np_lookup (NpUuid m) d of
        None \<Rightarrow> RTN_ITEM_NO_EXIST
      | Some np \<Rightarrow>
          if filter (\<lambda>r. mr_netplane_id r = np \<and> MacNum m \<ge> mr_begin_num r \<and> MacNum m \<le> mr_end_num r)
               (mac_range d) = []
            then RTN_MUST_CFG_VALID_RANGE
          else if filter (\<lambda>r. mp_num r = MacNum m) (mac_pool d) \<noteq> [] then RTN_ITEM_CONFLICT
          else 0)"

definition insert_mac_pool :: "mac_pool_row \<Rightarrow> mdb \<Rightarrow> mdb option" where
  "insert_mac_pool r d =
     (if mp_id r \<in> set (map mp_id (mac_pool d)) \<or>
         (mp_mac r, mp_netplane_id r) \<in> set (map (\<lambda>x. (mp_mac x, mp_netplane_id x)) (mac_pool d)) \<or>
         length (mp_mac r) > VARCHAR_LEN
      then None else Some (d\<lparr>mac_pool := mac_pool d @ [r]\<rparr>))"

definition pf_net_add_netplane_macpool :: "CDbNetplaneMacPool \<Rightarrow> int mproc" where
  "pf_net_add_netplane_macpool m d =
     (let ret = pf_net_check_add_netplane_macpool m d in
      if ret > 0 then Some (ret, d)
      else case np_lookup (NpUuid m) d of
             None \<Rightarrow> None
           | Some np \<Rightarrow>
               let i = serial_mac_pool d + 1; d1 = d\<lparr>serial_mac_pool := i\<rparr> in
               (case insert_mac_pool \<lparr>mp_id = i, mp_netplane_id = np, mp_mac = MacStr m,
                                      mp_num = MacNum m\<rparr> d1 of
                  None \<Rightarrow> Some (RTN_OPERATOR_FAILED, d1)
                | Some d2 \<Rightarrow> Some (0, d2)))"

definition is_mac_row :: "int \<Rightarrow> CDbNetplaneMacPool \<Rightarrow> mac_pool_row \<Rightarrow> bool" where
  "is_mac_row np m r \<longleftrightarrow> mp_netplane_id r = np \<and> mp_num r = MacNum m \<and> mp_mac r = MacStr m"

definition pf_net_check_del_netplane_macpool :: "CDbNetplaneMacPool \<Rightarrow> mdb \<Rightarrow> int" where
  "pf_net_check_del_netplane_macpool m d =
     (case np_lookup (NpUuid m) d of
        None \<Rightarrow> RTN_ITEM_NO_EXIST
      | Some np \<Rightarrow>
          (case find (is_mac_row np m) (mac_pool d) of
             None \<Rightarrow> RTN_ITEM_NO_EXIST
           | Some r \<Rightarrow> if mp_id r \<in> set (vsi_mac_id d) then RTN_RESOURCE_USING else 0))"

text \<open>\<open>DELETE\<close> fails on a row that \<open>vsi_profile\<close> refers to (foreign key, \<open>ON DELETE RESTRICT\<close>).\<close>

definition delete_mac_pool :: "int \<Rightarrow> CDbNetplaneMacPool \<Rightarrow> mdb \<Rightarrow> mdb option" where
  "delete_mac_pool np m d =
     (if list_ex (\<lambda>r. is_mac_row np m r \<and> mp_id r \<in> set (vsi_mac_id d)) (mac_pool d) then None
      else Some (d\<lparr>mac_pool := filter (\<lambda>r. \<not> is_mac_row np m r) (mac_pool d)\<rparr>))"

definition pf_net_del_netplane_macpool :: "CDbNetplaneMacPool \<Rightarrow> int mproc" where
  "pf_net_del_netplane_macpool m d =
     (let ret = pf_net_check_del_netplane_macpool m d in
      if ret > 0 then Some (ret, d)
      else case np_lookup (NpUuid m) d of
             None \<Rightarrow> None
           | Some np \<Rightarrow> (case delete_mac_pool np m d of
                            None \<Rightarrow> Some (RTN_OPERATOR_FAILED, d)
                          | Some d1 \<Rightarrow> Some (0, d1)))"

definition pf_net_query_netplane_macpool_by_nprange ::
  "string \<Rightarrow> int \<Rightarrow> int \<Rightarrow> CDbNetplaneMacPool list mproc" where
  "pf_net_query_netplane_macpool_by_nprange u b e d =
     (case np_lookup u d of
        None \<Rightarrow> Some ([], d)
      | Some np \<Rightarrow>
          Some (map (\<lambda>r. \<lparr>NpUuid = u, MacNum = mp_num r, MacStr = mp_mac r\<rparr>)
                  (filter (\<lambda>r. mp_netplane_id r = np \<and> mp_num r \<ge> b \<and> mp_num r \<le> e) (mac_pool d)), d))"

section \<open>The operation classes\<close>

definition MacRange_Add :: "CDbNetplaneMacRange \<Rightarrow> mdb \<Rightarrow> rc \<times> mdb" where
  "MacRange_Add r = db_add_op (pf_net_add_netplane_macrange r)"

definition MacRange_Del :: "CDbNetplaneMacRange \<Rightarrow> mdb \<Rightarrow> rc \<times> mdb" where
  "MacRange_Del r = db_del_op (pf_net_del_netplane_macrange r)"

definition MacRange_Query :: "string \<Rightarrow> mdb \<Rightarrow> rc \<times> CDbNetplaneMacRange list \<times> mdb" where
  "MacRange_Query u = db_query_op (pf_net_query_netplane_macrange u)"

definition MacRange_QueryAllocNum :: "string \<Rightarrow> int \<Rightarrow> int \<Rightarrow> mdb \<Rightarrow> rc \<times> int \<times> mdb" where
  "MacRange_QueryAllocNum u b e d =
     (if b > e then (VNET_DB_ERROR_PARAM_INVALID, 0, d)
      else case Handle (pf_net_query_netplane_macrange_alloc u b e) d of
             (Inl c, d1) \<Rightarrow> (c, 0, d1)
           | (Inr (ret, num), d1) \<Rightarrow>
               if ret \<noteq> 0 then (GET_DB_ERROR_PROC ret, 0, d1) else (VNET_DB_SUCCESS, num, d1))"

definition MacPool_CheckAdd :: "CDbNetplaneMacPool \<Rightarrow> mdb \<Rightarrow> rc \<times> mdb" where
  "MacPool_CheckAdd m = db_add_op (\<lambda>d. Some (pf_net_check_add_netplane_macpool m d, d))"

definition MacPool_Add :: "CDbNetplaneMacPool \<Rightarrow> mdb \<Rightarrow> rc \<times> mdb" where
  "MacPool_Add m = db_add_op (pf_net_add_netplane_macpool m)"

definition MacPool_CheckDel :: "CDbNetplaneMacPool \<Rightarrow> mdb \<Rightarrow> rc \<times> mdb" where
  "MacPool_CheckDel m = db_del_op (\<lambda>d. Some (pf_net_check_del_netplane_macpool m d, d))"

definition MacPool_Del :: "CDbNetplaneMacPool \<Rightarrow> mdb \<Rightarrow> rc \<times> mdb" where
  "MacPool_Del m = db_del_op (pf_net_del_netplane_macpool m)"

definition MacPool_QueryByNpRange ::
  "string \<Rightarrow> int \<Rightarrow> int \<Rightarrow> mdb \<Rightarrow> rc \<times> CDbNetplaneMacPool list \<times> mdb" where
  "MacPool_QueryByNpRange u b e = db_query_op (pf_net_query_netplane_macpool_by_nprange u b e)"

section \<open>Numbers and pairs\<close>

text \<open>Both halves of an address have 24 bits; then its number is the pair, and reading is exact.\<close>

definition mac24 :: "TUInt32MAC \<Rightarrow> bool" where
  "mac24 t \<longleftrightarrow> uint (dwOUI t) < 2 ^ 24 \<and> uint (dwData t) < 2 ^ 24"

lemma mask24_below: "w AND 0x00FFFFFF = w \<longleftrightarrow> uint (w :: uint32) < 2 ^ 24"
  unfolding mask24 by (rule mask_eq_iff)

lemma uint32_less: "uint (w :: uint32) < 2 ^ 32"
proof -
  have "uint w < 2 ^ LENGTH(32)" by (rule unsigned_less)
  then show ?thesis by simp
qed

lemma mac_num_eq:
  assumes "uint (dwOUI t) < 2 ^ 24"
  shows "mac_num t = uint (dwOUI t) * 2 ^ 32 + uint (dwData t)"
proof -
  let ?a = "dwOUI t" and ?b = "dwData t"
  let ?w = "push_bit 32 (ucast ?a) OR ucast ?b :: uint64"
  have small: "uint ?a * 2 ^ 32 + uint ?b < 2 ^ 56" "0 \<le> uint ?a * 2 ^ 32 + uint ?b"
    using assms uint32_less [of ?b] by simp_all
  have u: "uint (ucast w :: uint64) = uint w" for w :: uint32
    by (simp add: unsigned_ucast_eq take_bit_int_eq_self_iff order_less_le_trans [OF uint32_less])
  have "uint (push_bit 32 (ucast ?a) :: uint64) = take_bit 64 (push_bit 32 (uint ?a))"
    by (simp only: unsigned_push_bit_eq u) simp
  also have "\<dots> = push_bit 32 (uint ?a)"
    using assms by (intro take_bit_int_eq_self) (simp_all add: push_bit_eq_mult)
  finally have p: "uint (push_bit 32 (ucast ?a) :: uint64) = push_bit 32 (uint ?a)" .
  have "uint ?w = push_bit 32 (uint ?a) OR uint ?b" by (simp only: unsigned_or_eq p u)
  also have "\<dots> = concat_bit 32 (uint ?b) (uint ?a)"
    using uint32_less [of ?b] by (simp add: concat_bit_def take_bit_int_eq_self or.commute)
  also have "\<dots> = uint ?a * 2 ^ 32 + uint ?b"
    using uint32_less [of ?b] by (simp add: concat_bit_eq take_bit_int_eq_self push_bit_eq_mult)
  finally have w: "uint ?w = uint ?a * 2 ^ 32 + uint ?b" .
  have "sint ?w = signed_take_bit 63 (uint ?w)" by (simp add: sint_uint)
  also have "\<dots> = uint ?w"
    unfolding w using small by (intro signed_take_bit_int_eq_self order_trans [OF _ small(2)]) simp_all
  finally show ?thesis using w by (simp add: mac_num_def)
qed

lemma uint_masked24: "uint (ucast (w AND 0x00FFFFFF :: uint64) :: uint32) = uint w mod 2 ^ 24"
proof -
  have m: "(0x00FFFFFF :: uint64) = mask 24" by (simp add: mask_eq_exp_minus_1)
  have c: "x mod 4294967296 mod 16777216 = x mod 16777216" "x mod 16777216 mod 4294967296 = x mod 16777216"
    for x :: int by (simp_all add: mod_mod_cancel)
  show ?thesis
    by (simp only: m take_bit_eq_mask [symmetric] unsigned_ucast_eq unsigned_take_bit_eq)
      (simp add: take_bit_eq_mod c)
qed

lemma mac24_num_mac [simp]: "mac24 (num_mac n)"
  by (simp add: mac24_def num_mac_def Let_def uint_masked24)

lemma num_mac_uint:
  assumes "0 \<le> n" and "n < 2 ^ 63"
  shows "uint (dwOUI (num_mac n)) = n div 2 ^ 32 mod 2 ^ 24" and "uint (dwData (num_mac n)) = n mod 2 ^ 24"
proof -
  have m: "n mod 18446744073709551616 = n" using assms by simp
  then have "uint (word_of_int n :: uint64) = n" by (simp add: uint_word_of_int)
  then show "uint (dwOUI (num_mac n)) = n div 2 ^ 32 mod 2 ^ 24"
    "uint (dwData (num_mac n)) = n mod 2 ^ 24"
    by (simp_all only: num_mac_def Let_def TUInt32MAC.simps uint_masked24 unsigned_drop_bit_eq)
      (simp_all add: drop_bit_eq_div take_bit_eq_mod m)
qed

lemma num_mac_mac_num:
  assumes "mac24 t"
  shows "num_mac (mac_num t) = t"
proof -
  let ?a = "uint (dwOUI t)" and ?b = "uint (dwData t)"
  have n: "mac_num t = ?a * 2 ^ 32 + ?b" using assms by (simp add: mac24_def mac_num_eq)
  have b: "0 \<le> mac_num t" "mac_num t < 2 ^ 63" using assms by (simp_all add: n mac24_def)
  have "(?a * 2 ^ 32 + ?b) div 2 ^ 32 = ?a" using assms by (simp add: mac24_def)
  moreover have "(?a * 2 ^ 32 + ?b) mod 2 ^ 24 = ?b"
  proof -
    have "(?a * 2 ^ 32 + ?b) mod 2 ^ 24 = (?b + ?a * 2 ^ 8 * 2 ^ 24) mod 2 ^ 24"
      by (simp add: algebra_simps)
    also have "\<dots> = ?b mod 2 ^ 24" by (rule mod_mult_self1)
    finally show ?thesis using assms by (simp add: mac24_def)
  qed
  ultimately have "uint (dwOUI (num_mac (mac_num t))) = ?a" "uint (dwData (num_mac (mac_num t))) = ?b"
    using assms by (simp_all only: num_mac_uint [OF b]) (simp_all add: n mac24_def)
  then show ?thesis by (cases t; cases "num_mac (mac_num t)") (simp add: word_uint_eq_iff)
qed

lemma mac_num_le_iff:
  "mac24 s \<Longrightarrow> mac24 t \<Longrightarrow> dwOUI s = dwOUI t \<Longrightarrow> mac_num s \<le> mac_num t \<longleftrightarrow> dwData s \<le> dwData t"
  by (simp add: mac_num_eq mac24_def word_le_def)

end
