(* ===== verification/UuidBytes.thy ===== *)
theory UuidBytes
  imports Prelude
begin

text \<open>
  The numbers that the address pools read out of the 16 bytes of a UUID (\<open>CMACPool::CalcMACAddr\<close> and
  \<open>CIPv4AddrPool::CalcIPv4Addr\<close>), on a host of either byte order.
\<close>

text \<open>\<open>*(int32*)p\<close> and \<open>*(int16*)p\<close> on bytes, widened to 32 bits.\<close>

definition le16 :: "uint8 \<Rightarrow> uint8 \<Rightarrow> 16 word" where
  "le16 a b = ucast a OR push_bit 8 (ucast b)"

definition int32_at :: "bool \<Rightarrow> uint8 list \<Rightarrow> nat \<Rightarrow> uint32" where
  "int32_at big u i =
     (let h = (\<lambda>k. le16 (u ! (i + (if big then 3 - k else k)))
                         (u ! (i + (if big then 3 - (k + 1) else k + 1))))
      in ucast (h 0) OR push_bit 16 (ucast (h 2)))"

definition int16_at :: "bool \<Rightarrow> uint8 list \<Rightarrow> nat \<Rightarrow> uint32" where
  "int16_at big u i =
     scast (le16 (u ! (i + (if big then 1 else 0))) (u ! (i + (if big then 0 else 1))))"

end
