(* ===== verification/MacPool.thy ===== *)
theory MacPool
  imports MacDb UuidBytes
begin

text \<open>
  \<open>CMACPool\<close> (\<open>mac_pool.h/.cpp\<close>): the allocation of MAC addresses. The pool tries the ranges with the
  most free addresses first. In a range it draws an address from a UUID and saves it; after a conflict it
  moves on from there, up to 15 times, and then scans the range.

  \<open>uuid_generate\<close> belongs to the operating system. Its value is the argument \<open>rnd\<close>: \<open>rnd r k\<close> are the
  16 bytes drawn in the \<open>r\<close>-th available range after \<open>k\<close> failed attempts, any bytes whatever. \<open>big\<close> tells
  the byte order of the host, in which the code reads integers out of these bytes. A remainder by zero
  ends the process, and a loop may run forever: such a call has the result \<open>None\<close>.
\<close>

section \<open>State and parts\<close>

record CMACPool =
  m_strNetplaneUUID :: string
  m_pOUI1MACRange :: "CMACRange option"
  m_pOUI2MACRange :: "CMACRange option"

definition CMACPool_new :: CMACPool where
  "CMACPool_new = \<lparr>m_strNetplaneUUID = [], m_pOUI1MACRange = None, m_pOUI2MACRange = None\<rparr>"

definition CMACPool_Init_free :: "string \<Rightarrow> CMACPool \<Rightarrow> rc \<times> CMACPool" where
  "CMACPool_Init_free u p = (if u = [] then (- 1, p) else (0, p\<lparr>m_strNetplaneUUID := u\<rparr>))"

definition CMACPool_Init :: "string \<Rightarrow> CMACRange option \<Rightarrow> CMACRange option \<Rightarrow> CMACPool \<Rightarrow> rc \<times> CMACPool" where
  "CMACPool_Init u p1 p2 p =
     (if p1 = None \<or> p2 = None then (- 1, p)
      else if u = [] then (- 1, p)
      else (0, p\<lparr>m_strNetplaneUUID := u, m_pOUI1MACRange := p1, m_pOUI2MACRange := p2\<rparr>))"

text \<open>A new \<open>CMACAddr\<close> holds zeros.\<close>

definition CMACAddr_new :: mac where "CMACAddr_new = replicate VNET_MAC_LEN 0"

text \<open>
  The sum wraps around at 32 bits (its operands are \<open>int32\<close>; the hosts of the program wrap around). The
  remainder is computed only when the ends differ.
\<close>

definition CalcMACAddr :: "bool \<Rightarrow> uint8 list \<Rightarrow> uint32 \<Rightarrow> uint32 \<Rightarrow> uint32 \<Rightarrow> uint32" where
  "CalcMACAddr big uuid nKey dwMACEnd dwMACStart =
     (if dwMACEnd = dwMACStart then dwMACStart
      else let key = int32_at big uuid 0 * 102317 + int32_at big uuid 4 * 8317 +
                     int32_at big uuid 8 * 3331 + int16_at big uuid 12 * 2179 +
                     int16_at big uuid 14 * 9973 + nKey * 5711 + 382457
           in key mod (dwMACEnd - dwMACStart) + dwMACStart)"

record TMACRangeUsedInfo =
  tRange :: TMACRangeItem
  nUsedCnt :: uint32
  nFreeCnt :: uint32

definition CompareMACRange :: "TMACRangeUsedInfo \<Rightarrow> TMACRangeUsedInfo \<Rightarrow> bool" where
  "CompareMACRange r1 r2 \<longleftrightarrow> nFreeCnt r1 > nFreeCnt r2"

text \<open>The count is an output parameter that keeps its old value on failure.\<close>

definition GetMACCnt :: "string \<Rightarrow> TMACRangeItem \<Rightarrow> uint32 \<Rightarrow> mdb \<Rightarrow> rc \<times> uint32 \<times> mdb" where
  "GetMACCnt u r dwCnt d =
     (if \<not> m_bInit d then (- 1, dwCnt, d)
      else if \<not> IsValidMACRange r then (- 1, dwCnt, d)
      else case MacRange_QueryAllocNum u (mac_num (tStartMAC r)) (mac_num (tEndMAC r)) d of
             (nRet, nCnt, d1) \<Rightarrow>
               if VNET_DB_SUCCESS \<noteq> nRet then (- 1, dwCnt, d1) else (0, word_of_int nCnt, d1))"

text \<open>
  \<open>std::sort\<close>, as for \<open>CRangeArithmetic\<close>: every element goes in front of the first one that it precedes.
\<close>

fun insert_available :: "TMACRangeUsedInfo \<Rightarrow> TMACRangeUsedInfo list \<Rightarrow> TMACRangeUsedInfo list" where
  "insert_available x [] = [x]"
| "insert_available x (y # ys) =
     (if CompareMACRange x y then x # y # ys else y # insert_available x ys)"

fun available_ranges :: "string \<Rightarrow> TMACRangeItem list \<Rightarrow> TMACRangeUsedInfo list \<Rightarrow> mdb \<Rightarrow>
    TMACRangeUsedInfo list \<times> mdb" where
  "available_ranges u [] out d = (out, d)"
| "available_ranges u (r # rs) out d =
     (case GetMACCnt u r 0 d of
        (nRet, nCnt, d1) \<Rightarrow>
          if 0 \<noteq> nRet then available_ranges u rs out d1
          else let nTotalCnt = dwData (tEndMAC r) - dwData (tStartMAC r) + 1 in
            if nCnt \<ge> nTotalCnt then available_ranges u rs out d1
            else available_ranges u rs
                   (out @ [\<lparr>tRange = r, nUsedCnt = nCnt, nFreeCnt = nTotalCnt - nCnt\<rparr>]) d1)"

definition GetAvailableRange :: "string \<Rightarrow> TMACRangeItem list \<Rightarrow> mdb \<Rightarrow> TMACRangeUsedInfo list \<times> mdb" where
  "GetAvailableRange u rs d =
     (case available_ranges u rs [] d of (out, d1) \<Rightarrow> (foldl (\<lambda>s x. insert_available x s) [] out, d1))"

section \<open>Saving and scanning\<close>

definition mac_row :: "string \<Rightarrow> mac \<Rightarrow> CDbNetplaneMacPool" where
  "mac_row u m = \<lparr>NpUuid = u, MacNum = mac_num (GetUInt32MAC m), MacStr = GetStringMAC m\<rparr>"

definition SaveMAC2DB :: "string \<Rightarrow> mac \<Rightarrow> mdb \<Rightarrow> rc \<times> mdb" where
  "SaveMAC2DB u m d =
     (if \<not> m_bInit d then (- 1, d)
      else case MacPool_CheckAdd (mac_row u m) d of
             (nRet, d1) \<Rightarrow>
               if VNET_DB_SUCCESS \<noteq> nRet then (- 1, d1)
               else (case MacPool_Add (mac_row u m) d1 of
                       (nRet, d2) \<Rightarrow> if VNET_DB_SUCCESS \<noteq> nRet then (- 1, d2) else (0, d2)))"

text \<open>The loop of \<open>ScanAllocMAC\<close>; \<open>i++\<close> wraps around, so it would not end when \<open>dwMACEnd\<close> is the
  largest 32-bit number.\<close>

partial_function (option) scan_free :: "uint32 \<Rightarrow> uint32 \<Rightarrow> int list \<Rightarrow> uint32 \<Rightarrow> uint32 option option" where
  "scan_free oui dwMACEnd nums i =
     (if i \<le> dwMACEnd then
        if mac_num \<lparr>dwOUI = oui, dwData = i\<rparr> \<in> set nums then scan_free oui dwMACEnd nums (i + 1)
        else Some (Some i)
      else Some None)"

definition ScanAllocMAC :: "string \<Rightarrow> uint32 \<Rightarrow> uint32 \<Rightarrow> uint32 \<Rightarrow> mdb \<Rightarrow> (uint32 option \<times> mdb) option" where
  "ScanAllocMAC u oui dwMACStart dwMACEnd d =
     (if \<not> m_bInit d then Some (None, d)
      else case MacPool_QueryByNpRange u (mac_num \<lparr>dwOUI = oui, dwData = dwMACStart\<rparr>)
                  (mac_num \<lparr>dwOUI = oui, dwData = dwMACEnd\<rparr>) d of
             (nRet, vecMACOut, d1) \<Rightarrow>
               if VNET_DB_SUCCESS \<noteq> nRet then Some (None, d1)
               else (case scan_free oui dwMACEnd (map MacNum vecMACOut) dwMACStart of
                       None \<Rightarrow> None | Some x \<Rightarrow> Some (x, d1)))"

section \<open>Allocation\<close>

text \<open>
  The loop of \<open>AllocMACAtRange\<close> over its attempts: \<open>Some (Inr m)\<close> when address \<open>m\<close> is saved, \<open>Some (Inl ())\<close>
  after 15 failures.
\<close>

function try_alloc :: "bool \<Rightarrow> (nat \<Rightarrow> uint8 list) \<Rightarrow> string \<Rightarrow> uint32 \<Rightarrow> uint32 \<Rightarrow> uint32 \<Rightarrow> uint32 \<Rightarrow>
    uint32 \<Rightarrow> nat \<Rightarrow> mdb \<Rightarrow> ((unit + mac) \<times> mdb) option" where
  "try_alloc big rnd u nKey oui dwMACStart dwMACEnd data nTryCnt d =
     (let m = snd (SetMAC_uint32 \<lparr>dwOUI = oui, dwData = data\<rparr> CMACAddr_new) in
      case SaveMAC2DB u m d of
        (nRet, d1) \<Rightarrow>
          if 0 \<noteq> nRet then
            let n = nTryCnt + 1 in
            if n > 15 then Some (Inl (), d1)
            else if n mod 5 = 0 then
              try_alloc big rnd u nKey oui dwMACStart dwMACEnd
                (CalcMACAddr big (rnd n) nKey dwMACEnd dwMACStart) n d1
            else if dwMACEnd - dwMACStart = 0 then None
            else if n > 10 then
              try_alloc big rnd u nKey oui dwMACStart dwMACEnd
                ((data + 100000) mod (dwMACEnd - dwMACStart) + dwMACStart) n d1
            else
              try_alloc big rnd u nKey oui dwMACStart dwMACEnd
                ((data + 1) mod (dwMACEnd - dwMACStart) + dwMACStart) n d1
          else Some (Inr m, d1))"
  by pat_completeness auto
termination by (relation "measure (\<lambda>(big, rnd, u, nKey, oui, s, e, data, n, d). 15 - n)") auto

declare try_alloc.simps [simp del]

fun alloc_in :: "bool \<Rightarrow> (nat \<Rightarrow> nat \<Rightarrow> uint8 list) \<Rightarrow> string \<Rightarrow> uint32 \<Rightarrow> uint32 \<Rightarrow> nat \<Rightarrow>
    TMACRangeUsedInfo list \<Rightarrow> string \<Rightarrow> mdb \<Rightarrow> (rc \<times> string \<times> mdb) option" where
  "alloc_in big rnd u nKey oui r [] strMAC d = Some (- 1, strMAC, d)"
| "alloc_in big rnd u nKey oui r (x # xs) strMAC d =
     (let dwMACStart = dwData (tStartMAC (tRange x)); dwMACEnd = dwData (tEndMAC (tRange x)) in
      case try_alloc big (rnd r) u nKey oui dwMACStart dwMACEnd
             (CalcMACAddr big (rnd r 0) nKey dwMACEnd dwMACStart) 0 d of
        None \<Rightarrow> None
      | Some (Inr m, d1) \<Rightarrow> Some (0, GetStringMAC m, d1)
      | Some (Inl _, d1) \<Rightarrow>
          (case ScanAllocMAC u oui dwMACStart dwMACEnd d1 of
             None \<Rightarrow> None
           | Some (None, d2) \<Rightarrow> alloc_in big rnd u nKey oui (r + 1) xs strMAC d2
           | Some (Some i, d2) \<Rightarrow>
               let m = snd (SetMAC_uint32 \<lparr>dwOUI = oui, dwData = i\<rparr> CMACAddr_new) in
               (case SaveMAC2DB u m d2 of
                  (nRet, d3) \<Rightarrow>
                    if 0 = nRet then Some (0, GetStringMAC m, d3)
                    else alloc_in big rnd u nKey oui (r + 1) xs strMAC d3)))"

definition AllocMACAtRange :: "bool \<Rightarrow> (nat \<Rightarrow> nat \<Rightarrow> uint8 list) \<Rightarrow> string \<Rightarrow> TMACRangeItem list \<Rightarrow> uint32 \<Rightarrow>
    uint32 \<Rightarrow> string \<Rightarrow> mdb \<Rightarrow> (rc \<times> string \<times> mdb) option" where
  "AllocMACAtRange big rnd u vecMACRange oui nKey strMAC d =
     (if vecMACRange = [] then Some (- 1, strMAC, d)
      else case GetAvailableRange u vecMACRange d of
             (vecAvailableRange, d1) \<Rightarrow>
               if vecAvailableRange = [] then Some (- 1, strMAC, d1)
               else alloc_in big rnd u nKey oui 0 vecAvailableRange strMAC d1)"

text \<open>\<open>rnd 1\<close> and \<open>rnd 2\<close> are the UUIDs drawn for the two prefixes.\<close>

definition CMACPool_AllocMAC :: "bool \<Rightarrow> (nat \<Rightarrow> nat \<Rightarrow> nat \<Rightarrow> uint8 list) \<Rightarrow> uint32 \<Rightarrow> string \<Rightarrow> CMACPool \<Rightarrow>
    mdb \<Rightarrow> (rc \<times> string \<times> mdb) option" where
  "CMACPool_AllocMAC big rnd nKey strMAC p d =
     (case (m_pOUI1MACRange p, m_pOUI2MACRange p) of
        (Some r1, Some r2) \<Rightarrow>
          let u = m_strNetplaneUUID p in
          if u = [] then Some (- 1, strMAC, d)
          else
            let second = (\<lambda>d. if m_vecMACRange r2 = [] then Some (- 1, strMAC, d)
                              else case AllocMACAtRange big (rnd 2) u (m_vecMACRange r2) (m_dwOUI r2) nKey
                                          strMAC d of
                                     None \<Rightarrow> None
                                   | Some (nRet, s, d1) \<Rightarrow>
                                       if 0 = nRet then Some (0, s, d1) else Some (- 1, strMAC, d1))
            in if m_vecMACRange r1 = [] then second d
               else (case AllocMACAtRange big (rnd 1) u (m_vecMACRange r1) (m_dwOUI r1) nKey strMAC d of
                       None \<Rightarrow> None
                     | Some (nRet, s, d1) \<Rightarrow> if 0 = nRet then Some (0, s, d1) else second d1)
      | _ \<Rightarrow> Some (- 1, strMAC, d))"

section \<open>Release\<close>

definition CMACPool_FreeMAC :: "string \<Rightarrow> CMACPool \<Rightarrow> mdb \<Rightarrow> rc \<times> mdb" where
  "CMACPool_FreeMAC strMAC p d =
     (let u = m_strNetplaneUUID p in
      if u = [] then (- 1, d)
      else if strMAC = [] then (- 1, d)
      else if \<not> m_bInit d then (- 1, d)
      else case SetMAC strMAC CMACAddr_new of
             (nRet, m) \<Rightarrow>
               if 0 \<noteq> nRet then (- 1, d)
               else
                 let row = \<lparr>NpUuid = u, MacNum = mac_num (GetUInt32MAC m), MacStr = c_str strMAC\<rparr> in
                 (case MacPool_CheckDel row d of
                    (nRet, d1) \<Rightarrow>
                      if VNET_DB_SUCCESS \<noteq> nRet then
                        if VNET_DB_IS_ITEM_NO_EXIST nRet then (0, d1) else (- 1, d1)
                      else (case MacPool_Del row d1 of
                              (nRet, d2) \<Rightarrow> if VNET_DB_SUCCESS \<noteq> nRet then (- 1, d2) else (0, d2))))"

end
