(* ===== verification/MacTables.thy ===== *)
theory MacTables
  imports MacPool
begin

text \<open>
  What the operations on \<open>mac_pool\<close> do to the rows, whatever happens to their calls, and what they
  do when the calls do not fail.
\<close>

section \<open>Addresses and their text\<close>

definition mac_text_of :: "int \<Rightarrow> string" where
  "mac_text_of n = GetStringMAC (Uint32MAC2MAC (num_mac n))"

lemma word24_ok_iff: "word24_ok w \<longleftrightarrow> uint w < 2 ^ 24"
proof -
  have "w AND NOT m = 0 \<longleftrightarrow> w AND m = w" for m by (auto simp: bit_eq_iff bit_simps)
  then show ?thesis unfolding word24_ok_def mask24_below [symmetric] by blast
qed

lemma mac24_ok: "mac24 t \<longleftrightarrow> word24_ok (dwOUI t) \<and> word24_ok (dwData t)"
  by (simp add: mac24_def word24_ok_iff)

lemma mac24_MAC2Uint32MAC: "mac24 (MAC2Uint32MAC m)"
  unfolding mac24_def mask24_below [symmetric]
  by (simp add: MAC2Uint32MAC_def word24_def and.assoc)

lemma mac_ok_Uint32MAC2MAC [simp]: "mac_ok (Uint32MAC2MAC t)"
  by (simp add: mac_ok_def Uint32MAC2MAC_def VNET_MAC_LEN_def)

lemma mac_row_text: "mac_ok m \<Longrightarrow> MacStr (mac_row u m) = mac_text_of (MacNum (mac_row u m)) \<and>
    mac_num (num_mac (MacNum (mac_row u m))) = MacNum (mac_row u m)"
  by (simp add: mac_row_def mac_text_of_def GetUInt32MAC_def num_mac_mac_num mac24_MAC2Uint32MAC
      Uint32MAC2MAC_inverse)

lemma mac_row_pair: "mac24 t \<Longrightarrow> MacNum (mac_row u (Uint32MAC2MAC t)) = mac_num t"
  by (simp add: mac_row_def GetUInt32MAC_def MAC2Uint32MAC_inverse mac24_ok)

lemma mac_text_num: "mac24 t \<Longrightarrow> mac_text_of (mac_num t) = GetStringMAC (Uint32MAC2MAC t)"
  by (simp add: mac_text_of_def num_mac_mac_num)

lemma NpUuid_mac_row [simp]: "NpUuid (mac_row u m) = u"
  by (simp add: mac_row_def)

lemma GetStringMAC_length [simp]: "length (GetStringMAC m) = 17"
  by (simp add: GetStringMAC_def)

section \<open>What a saved address is\<close>

text \<open>The numbers of the ranges of a netplane, and those allocated to it.\<close>

definition mac_nums :: "mdb \<Rightarrow> int \<Rightarrow> int set" where
  "mac_nums d np =
     {n. \<exists>r \<in> set (mac_range d). mr_netplane_id r = np \<and> mr_begin_num r \<le> n \<and> n \<le> mr_end_num r}"

definition mac_used :: "mdb \<Rightarrow> int set" where
  "mac_used d = mp_num ` set (mac_pool d)"

definition mac_alloc :: "mdb \<Rightarrow> int \<Rightarrow> int set" where
  "mac_alloc d np = mp_num ` {r \<in> set (mac_pool d). mp_netplane_id r = np}"

text \<open>Two databases that agree on everything but the allocated addresses.\<close>

definition mac_kept :: "mdb \<Rightarrow> mdb \<Rightarrow> bool" where
  "mac_kept d d' \<longleftrightarrow>
     d\<lparr>mac_pool := [], serial_mac_pool := 0, env := []\<rparr> =
       d'\<lparr>mac_pool := [], serial_mac_pool := 0, env := []\<rparr> \<and> serial_mac_pool d \<le> serial_mac_pool d'"

lemma mac_kept_refl [simp]: "mac_kept d d"
  by (simp add: mac_kept_def)

lemma mac_kept_trans: "mac_kept a b \<Longrightarrow> mac_kept b c \<Longrightarrow> mac_kept a c"
  by (auto simp: mac_kept_def)

lemma mac_kept_sel:
  assumes "mac_kept d d'"
  shows "m_bInit d' = m_bInit d" "netplane d' = netplane d" "port_group d' = port_group d"
    "vm_pg d' = vm_pg d" "access_isolate d' = access_isolate d" "mac_range d' = mac_range d"
    "vsi_mac_id d' = vsi_mac_id d" "np_lookup u d' = np_lookup u d" "mac_nums d' = mac_nums d"
    "serial_mac_range d' = serial_mac_range d" "uplink_pg d' = uplink_pg d"
proof -
  have e: "f (d\<lparr>mac_pool := [], serial_mac_pool := 0, env := []\<rparr>) =
      f (d'\<lparr>mac_pool := [], serial_mac_pool := 0, env := []\<rparr>)" for f :: "mdb \<Rightarrow> 'b"
    using assms by (simp only: mac_kept_def)
  show "m_bInit d' = m_bInit d" using e [of m_bInit] by simp
  show n: "netplane d' = netplane d" using e [of netplane] by simp
  show "port_group d' = port_group d" using e [of port_group] by simp
  show "vm_pg d' = vm_pg d" using e [of vm_pg] by simp
  show "uplink_pg d' = uplink_pg d" using e [of uplink_pg] by simp
  show "access_isolate d' = access_isolate d" using e [of access_isolate] by simp
  show r: "mac_range d' = mac_range d" using e [of mac_range] by simp
  show "vsi_mac_id d' = vsi_mac_id d" using e [of vsi_mac_id] by simp
  show "serial_mac_range d' = serial_mac_range d" using e [of serial_mac_range] by simp
  show "np_lookup u d' = np_lookup u d" using n by (simp add: np_lookup_def)
  show "mac_nums d' = mac_nums d" using r by (simp add: fun_eq_iff mac_nums_def)
qed

lemma same_tables_mac:
  assumes "same_tables d d'"
  shows "mac_kept d d'" "mac_pool d' = mac_pool d" "serial_mac_pool d' = serial_mac_pool d"
proof -
  have e: "f (d\<lparr>env := []\<rparr>) = f (d'\<lparr>env := []\<rparr>)" for f :: "mdb \<Rightarrow> 'b"
    using assms by (simp only: same_tables_def)
  show "mac_pool d' = mac_pool d" using e [of mac_pool] by simp
  show s: "serial_mac_pool d' = serial_mac_pool d" using e [of serial_mac_pool] by simp
  show "mac_kept d d'"
    using e [of "\<lambda>x. x\<lparr>mac_pool := [], serial_mac_pool := 0, env := []\<rparr>"] s by (simp add: mac_kept_def)
qed

text \<open>A row that an allocation for netplane \<open>u\<close> may add to \<open>d\<close>.\<close>

definition fresh_row :: "string \<Rightarrow> mdb \<Rightarrow> mac_pool_row \<Rightarrow> bool" where
  "fresh_row u d r \<longleftrightarrow>
     np_lookup u d = Some (mp_netplane_id r) \<and> mp_num r \<in> mac_nums d (mp_netplane_id r) \<and>
     mp_num r \<notin> mac_used d \<and> mp_mac r = mac_text_of (mp_num r) \<and> mac_num (num_mac (mp_num r)) = mp_num r \<and>
     serial_mac_pool d < mp_id r"

definition mac_grows :: "string \<Rightarrow> mdb \<Rightarrow> mdb \<Rightarrow> bool" where
  "mac_grows u d d' \<longleftrightarrow>
     mac_kept d d' \<and>
     (\<exists>new. mac_pool d' = mac_pool d @ new \<and> (\<forall>r \<in> set new. fresh_row u d r) \<and>
            distinct (map mp_num new) \<and> distinct (map mp_id new) \<and>
            (\<forall>r \<in> set new. mp_id r \<le> serial_mac_pool d'))"

lemma mac_grows_kept: "mac_kept d d' \<Longrightarrow> mac_pool d' = mac_pool d \<Longrightarrow> mac_grows u d d'"
  by (simp add: mac_grows_def)

lemma mac_grows_same: "same_tables d d' \<Longrightarrow> mac_grows u d d'"
  using same_tables_mac by (simp add: mac_grows_kept)

text \<open>The same for rows of any netplane.\<close>

definition mac_extends :: "mdb \<Rightarrow> mdb \<Rightarrow> bool" where
  "mac_extends d d' \<longleftrightarrow>
     mac_kept d d' \<and>
     (\<exists>new. mac_pool d' = mac_pool d @ new \<and> (\<forall>r \<in> set new. \<exists>u. fresh_row u d r) \<and>
            distinct (map mp_num new) \<and> distinct (map mp_id new) \<and>
            (\<forall>r \<in> set new. mp_id r \<le> serial_mac_pool d'))"

lemma mac_extends_kept: "mac_kept d d' \<Longrightarrow> mac_pool d' = mac_pool d \<Longrightarrow> mac_extends d d'"
  by (simp add: mac_extends_def)

lemma mac_extends_trans:
  assumes "mac_extends a b" and "mac_extends b c"
  shows "mac_extends a c"
proof -
  obtain new where n: "mac_pool b = mac_pool a @ new" "\<forall>r \<in> set new. \<exists>u. fresh_row u a r"
    "distinct (map mp_num new)" "distinct (map mp_id new)" "\<forall>r \<in> set new. mp_id r \<le> serial_mac_pool b"
    using assms(1) by (auto simp: mac_extends_def)
  obtain new' where m: "mac_pool c = mac_pool b @ new'" "\<forall>r \<in> set new'. \<exists>u. fresh_row u b r"
    "distinct (map mp_num new')" "distinct (map mp_id new')" "\<forall>r \<in> set new'. mp_id r \<le> serial_mac_pool c"
    using assms(2) by (auto simp: mac_extends_def)
  have k: "mac_kept a b" "mac_kept b c" using assms by (simp_all add: mac_extends_def)
  note s = mac_kept_sel [OF k(1)]
  have le: "serial_mac_pool a \<le> serial_mac_pool b" "serial_mac_pool b \<le> serial_mac_pool c"
    using k by (simp_all add: mac_kept_def)
  have used: "mac_used a \<union> mp_num ` set new = mac_used b" using n(1) by (auto simp: mac_used_def)
  have old: "fresh_row u a r" if "fresh_row u b r" for u r
    using that used s(8,9) le by (auto simp: fresh_row_def)
  have num: "mp_num x \<noteq> mp_num r" if "x \<in> set new" "r \<in> set new'" for x r
  proof -
    have "mp_num x \<in> mac_used b" using that(1) used by blast
    then show ?thesis using m(2) that(2) by (auto simp: fresh_row_def)
  qed
  have id: "mp_id x \<noteq> mp_id r" if "x \<in> set new" "r \<in> set new'" for x r
    using m(2) n(5) that by (fastforce simp: fresh_row_def)
  have "mp_num ` set new \<inter> mp_num ` set new' = {}" using num by (auto simp: disjoint_iff)
  moreover have "mp_id ` set new \<inter> mp_id ` set new' = {}" using id by (auto simp: disjoint_iff)
  ultimately have "distinct (map mp_num (new @ new'))" "distinct (map mp_id (new @ new'))"
    using m(3,4) n(3,4) by simp_all
  moreover have "\<forall>r \<in> set (new @ new'). mp_id r \<le> serial_mac_pool c" using m(5) n(5) le by fastforce
  moreover have "\<forall>r \<in> set (new @ new'). \<exists>u. fresh_row u a r" using n(2) m(2) old by (auto; blast)
  ultimately show ?thesis
    using n(1) m(1) mac_kept_trans [OF k] unfolding mac_extends_def
    by (intro conjI exI [of _ "new @ new'"]) auto
qed

lemma mac_grows_extends:
  "mac_grows u d d' \<longleftrightarrow>
     mac_extends d d' \<and>
     (\<forall>r \<in> set (drop (length (mac_pool d)) (mac_pool d')). np_lookup u d = Some (mp_netplane_id r))"
  by (auto simp: mac_grows_def mac_extends_def fresh_row_def)

lemma mac_grows_trans:
  assumes "mac_grows u a b" and "mac_grows u b c"
  shows "mac_grows u a c"
proof -
  have e: "mac_extends a c" using assms mac_extends_trans by (auto simp: mac_grows_extends)
  have l: "np_lookup u b = np_lookup u a" using assms(1) mac_kept_sel(8) by (simp add: mac_grows_def)
  obtain new where "mac_pool b = mac_pool a @ new" using assms(1) by (auto simp: mac_grows_def)
  moreover obtain new' where "mac_pool c = mac_pool b @ new'" using assms(2) by (auto simp: mac_grows_def)
  ultimately show ?thesis using e assms l by (auto simp: mac_grows_extends)
qed

section \<open>Saving an address\<close>

lemma check_add_free:
  assumes "pf_net_check_add_netplane_macpool m d = 0"
  shows "\<exists>np. np_lookup (NpUuid m) d = Some np \<and> MacNum m \<in> mac_nums d np \<and> MacNum m \<notin> mac_used d"
  using assms
  by (auto simp: pf_net_check_add_netplane_macpool_def rtn_defs mac_nums_def mac_used_def filter_empty_conv
      split: option.splits if_splits)

lemma check_add_code: "0 \<le> pf_net_check_add_netplane_macpool m d \<and>
    pf_net_check_add_netplane_macpool m d \<noteq> RTN_HAS_SAME_ITEM"
  by (auto simp: pf_net_check_add_netplane_macpool_def rtn_defs split: option.splits)

lemma pf_net_add_netplane_macpool_effect:
  assumes "pf_net_add_netplane_macpool m d = Some (ret, d')"
    and "MacStr m = mac_text_of (MacNum m) \<and> mac_num (num_mac (MacNum m)) = MacNum m"
  shows "0 \<le> ret \<and> ret \<noteq> RTN_HAS_SAME_ITEM \<and> mac_kept d d' \<and>
         (if ret = 0 then \<exists>r. mac_pool d' = mac_pool d @ [r] \<and> mp_num r = MacNum m \<and> fresh_row (NpUuid m) d r \<and>
                              mp_id r \<le> serial_mac_pool d'
          else mac_pool d' = mac_pool d)"
proof (cases "pf_net_check_add_netplane_macpool m d = 0")
  case False
  then have "ret = pf_net_check_add_netplane_macpool m d \<and> d' = d"
    using assms(1) check_add_code [of m d] by (auto simp: pf_net_add_netplane_macpool_def Let_def split: if_splits)
  then show ?thesis using False check_add_code [of m d] by simp
next
  case True
  obtain np where np: "np_lookup (NpUuid m) d = Some np" "MacNum m \<in> mac_nums d np" "MacNum m \<notin> mac_used d"
    using check_add_free [OF True] by blast
  let ?r = "\<lparr>mp_id = serial_mac_pool d + 1, mp_netplane_id = np, mp_mac = MacStr m, mp_num = MacNum m\<rparr>"
  let ?d1 = "d\<lparr>serial_mac_pool := serial_mac_pool d + 1\<rparr>"
  have i: "(case insert_mac_pool ?r ?d1 of None \<Rightarrow> Some (RTN_OPERATOR_FAILED, ?d1) | Some d2 \<Rightarrow> Some (0, d2)) =
      Some (ret, d')"
    using assms(1) True np(1) by (simp add: pf_net_add_netplane_macpool_def Let_def)
  have k: "mac_kept d ?d1" by (simp add: mac_kept_def)
  show ?thesis
  proof (cases "insert_mac_pool ?r ?d1")
    case None
    then show ?thesis using i k by (auto simp: rtn_defs)
  next
    case (Some d2)
    then have "ret = 0" "d' = ?d1\<lparr>mac_pool := mac_pool d @ [?r]\<rparr>"
      using i by (auto simp: insert_mac_pool_def split: if_splits)
    then show ?thesis
      using np assms(2) k by (simp add: fresh_row_def mac_kept_def rtn_defs)
  qed
qed

text \<open>\<open>saved\<close>: one row, that of address \<open>n\<close>, is added.\<close>

definition saved :: "string \<Rightarrow> int \<Rightarrow> mdb \<Rightarrow> mdb \<Rightarrow> bool" where
  "saved u n d d' \<longleftrightarrow>
     mac_kept d d' \<and>
     (\<exists>r. mac_pool d' = mac_pool d @ [r] \<and> mp_num r = n \<and> fresh_row u d r \<and> mp_id r \<le> serial_mac_pool d')"

lemma saved_grows: "saved u n d d' \<Longrightarrow> mac_grows u d d'"
  by (auto simp: saved_def mac_grows_def)

lemma fresh_row_kept: "mac_kept d d' \<Longrightarrow> mac_pool d' = mac_pool d \<Longrightarrow> fresh_row u d' r \<Longrightarrow> fresh_row u d r"
  using mac_kept_sel(8,9) [of d d'] by (simp add: fresh_row_def mac_used_def) (simp add: mac_kept_def)

lemma saved_kept:
  assumes "mac_kept a b" and "mac_pool b = mac_pool a" and "saved u n b c"
  shows "saved u n a c"
  using assms(2,3) mac_kept_trans [OF assms(1)] fresh_row_kept [OF assms(1,2)] by (auto simp: saved_def)

lemma MacPool_CheckAdd_effect:
  assumes "MacPool_CheckAdd m d = (ret, d')"
  shows "same_tables d d'"
  using assms unfolding MacPool_CheckAdd_def
  by (cases rule: db_add_op_cases) auto

lemma MacPool_Add_effect:
  assumes "MacPool_Add m d = (ret, d')"
    and "MacStr m = mac_text_of (MacNum m) \<and> mac_num (num_mac (MacNum m)) = MacNum m"
  shows "(mac_kept d d' \<and> mac_pool d' = mac_pool d) \<or> saved (NpUuid m) (MacNum m) d d'"
    and "ret = 0 \<Longrightarrow> saved (NpUuid m) (MacNum m) d d'"
proof -
  have "((mac_kept d d' \<and> mac_pool d' = mac_pool d) \<or> saved (NpUuid m) (MacNum m) d d') \<and>
        (ret = 0 \<longrightarrow> saved (NpUuid m) (MacNum m) d d')"
    using assms(1) unfolding MacPool_Add_def
  proof (cases rule: db_add_op_cases)
    case idle
    then show ?thesis using same_tables_mac by auto
  next
    case (ran d1 a)
    note e = pf_net_add_netplane_macpool_effect [OF ran(2) assms(2)]
    note s = same_tables_mac [OF ran(1)]
    have "a = 0 \<Longrightarrow> saved (NpUuid m) (MacNum m) d1 d'" using e by (simp add: saved_def)
    then have "a = 0 \<Longrightarrow> saved (NpUuid m) (MacNum m) d d'" using saved_kept [OF s(1,2)] by blast
    moreover have "a \<noteq> 0 \<Longrightarrow> mac_kept d d' \<and> mac_pool d' = mac_pool d"
      using e s mac_kept_trans [of d d1 d'] by simp
    ultimately show ?thesis using conjunct1 [OF e] conjunct1 [OF conjunct2 [OF e]] ran(3) by force
  qed
  then show "(mac_kept d d' \<and> mac_pool d' = mac_pool d) \<or> saved (NpUuid m) (MacNum m) d d'"
    "ret = 0 \<Longrightarrow> saved (NpUuid m) (MacNum m) d d'" by blast+
qed

lemma SaveMAC2DB_effect:
  assumes "SaveMAC2DB u m d = (ret, d')" and "mac_ok m"
  shows "mac_grows u d d'" and "ret = 0 \<Longrightarrow> saved u (MacNum (mac_row u m)) d d'"
    and "ret \<in> {0, - 1}"
proof -
  obtain r1 d1 where c: "MacPool_CheckAdd (mac_row u m) d = (r1, d1)" by fastforce
  obtain r2 d2 where a: "MacPool_Add (mac_row u m) d1 = (r2, d2)" by fastforce
  note s = same_tables_mac [OF MacPool_CheckAdd_effect [OF c]]
  note e = MacPool_Add_effect [OF a mac_row_text [OF assms(2)]]
  have g: "mac_grows u d d1" "mac_grows u d1 d2"
    using mac_grows_kept [OF s(1,2)] e(1) saved_grows mac_grows_kept by auto
  show "mac_grows u d d'" "ret \<in> {0, - 1}"
    using assms(1) c a g mac_grows_trans [OF g] by (auto simp: SaveMAC2DB_def mac_grows_kept split: if_splits)
  show "saved u (MacNum (mac_row u m)) d d'" if "ret = 0"
    using assms(1) c a that e(2) saved_kept [OF s(1,2)]
    by (auto simp: SaveMAC2DB_def VNET_DB_SUCCESS_def split: if_splits)
qed

end
