(* ===== verification/MacAlloc.thy ===== *)
theory MacAlloc
  imports MacTables
begin

text \<open>
  The properties of \<open>CMACPool\<close>: what an allocation that returns has done, whatever the database and the
  UUIDs were; when it returns and succeeds; when the process dies instead; what a release does.
\<close>

section \<open>Addresses of a range\<close>

lemma wrap_in_range:
  assumes "s < (e :: uint32)"
  shows "s \<le> x mod (e - s) + s" and "x mod (e - s) + s < e"
proof -
  have d: "unat (e - s) = unat e - unat s" using assms by (simp add: unat_sub order_less_imp_le)
  have lt: "unat (x mod (e - s)) < unat e - unat s"
    using assms by (simp add: unat_mod d word_less_nat_alt)
  have "unat (x mod (e - s) + s) = unat (x mod (e - s)) + unat s"
    using lt unat32_less [of e] by (intro unat_add_lem [THEN iffD1]) simp
  then show "s \<le> x mod (e - s) + s" "x mod (e - s) + s < e"
    using lt by (simp_all add: word_le_nat_alt word_less_nat_alt)
qed

lemma CalcMACAddr_range:
  assumes "s \<le> e"
  shows "s \<le> CalcMACAddr big uuid key e s" and "CalcMACAddr big uuid key e s \<le> e"
proof -
  have "s \<le> CalcMACAddr big uuid key e s \<and> CalcMACAddr big uuid key e s \<le> e"
  proof (cases "e = s")
    case False
    then have "s < e" using assms by simp
    from wrap_in_range [OF this] show ?thesis
      using False by (simp add: CalcMACAddr_def Let_def order_less_imp_le)
  qed (simp add: CalcMACAddr_def)
  then show "s \<le> CalcMACAddr big uuid key e s" "CalcMACAddr big uuid key e s \<le> e" by simp_all
qed

text \<open>A range as the manager loads it: of one OUI, with both ends of 24 bits.\<close>

definition loaded_range :: "uint32 \<Rightarrow> TMACRangeItem \<Rightarrow> bool" where
  "loaded_range oui r \<longleftrightarrow>
     dwOUI (tStartMAC r) = oui \<and> dwOUI (tEndMAC r) = oui \<and> mac24 (tStartMAC r) \<and> mac24 (tEndMAC r)"

definition in_item :: "uint32 \<Rightarrow> TMACRangeItem \<Rightarrow> bool" where
  "in_item i r \<longleftrightarrow> dwData (tStartMAC r) \<le> i \<and> i \<le> dwData (tEndMAC r)"

lemma loaded_range_mac24: "loaded_range oui r \<Longrightarrow> in_item i r \<Longrightarrow> mac24 \<lparr>dwOUI = oui, dwData = i\<rparr>"
  by (auto simp: loaded_range_def in_item_def mac24_def word_le_def)

lemma IsValidMACRange_le: "IsValidMACRange r \<Longrightarrow> dwData (tStartMAC r) \<le> dwData (tEndMAC r)"
  by (auto simp: IsValidMACRange_def Let_def split: if_splits)

section \<open>An allocation that returns\<close>

definition alloc_done :: "string \<Rightarrow> int \<Rightarrow> mdb \<Rightarrow> mdb \<Rightarrow> bool" where
  "alloc_done u n d d' \<longleftrightarrow>
     mac_grows u d d' \<and> (\<exists>r \<in> set (mac_pool d'). mp_num r = n \<and> fresh_row u d r)"

lemma alloc_done_after:
  assumes "mac_grows u a b" and "saved u n b c"
  shows "alloc_done u n a c"
proof -
  have g: "mac_grows u a c" using mac_grows_trans [OF assms(1) saved_grows [OF assms(2)]] .
  obtain r where r: "mac_pool c = mac_pool b @ [r]" "mp_num r = n" "fresh_row u b r"
    using assms(2) by (auto simp: saved_def)
  have k: "mac_kept a b" using assms(1) by (simp add: mac_grows_def)
  have "mac_used a \<subseteq> mac_used b" "serial_mac_pool a \<le> serial_mac_pool b"
    using assms(1) by (auto simp: mac_grows_def mac_used_def mac_kept_def)
  then have "fresh_row u a r"
    using r(3) mac_kept_sel(8,9) [OF k] by (auto simp: fresh_row_def)
  then show ?thesis using g r by (auto simp: alloc_done_def)
qed

lemma alloc_done_trans:
  assumes "mac_grows u a b" and "alloc_done u n b c"
  shows "alloc_done u n a c"
proof -
  have g: "mac_grows u a c" using mac_grows_trans [OF assms(1)] assms(2) by (simp add: alloc_done_def)
  obtain r where r: "r \<in> set (mac_pool c)" "mp_num r = n" "fresh_row u b r"
    using assms(2) by (auto simp: alloc_done_def)
  have k: "mac_kept a b" using assms(1) by (simp add: mac_grows_def)
  have "mac_used a \<subseteq> mac_used b" "serial_mac_pool a \<le> serial_mac_pool b"
    using assms(1) by (auto simp: mac_grows_def mac_used_def mac_kept_def)
  then have "fresh_row u a r"
    using r(3) mac_kept_sel(8,9) [OF k] by (auto simp: fresh_row_def)
  then show ?thesis using g r by (auto simp: alloc_done_def)
qed

text \<open>The result of the two loops: an address of the range, saved, or none.\<close>

definition got_address :: "string \<Rightarrow> uint32 \<Rightarrow> uint32 \<Rightarrow> uint32 \<Rightarrow> mac \<Rightarrow> mdb \<Rightarrow> mdb \<Rightarrow> bool" where
  "got_address u oui s e m d d' \<longleftrightarrow>
     (\<exists>i. s \<le> i \<and> i \<le> e \<and> m = Uint32MAC2MAC \<lparr>dwOUI = oui, dwData = i\<rparr> \<and>
          alloc_done u (MacNum (mac_row u m)) d d')"

lemma got_address_trans:
  "mac_grows u a b \<Longrightarrow> got_address u oui s e m b c \<Longrightarrow> got_address u oui s e m a c"
  using alloc_done_trans by (auto simp: got_address_def)

lemma try_alloc_step:
  assumes "SaveMAC2DB u (Uint32MAC2MAC \<lparr>dwOUI = oui, dwData = data\<rparr>) d = (r1, d1)"
  shows "try_alloc big rnd u key oui s e data n d =
    (if r1 = 0 then Some (Inr (Uint32MAC2MAC \<lparr>dwOUI = oui, dwData = data\<rparr>), d1)
     else if n + 1 > 15 then Some (Inl (), d1)
     else if (n + 1) mod 5 = 0
       then try_alloc big rnd u key oui s e (CalcMACAddr big (rnd (n + 1)) key e s) (n + 1) d1
     else if e - s = 0 then None
     else if n + 1 > 10
       then try_alloc big rnd u key oui s e ((data + 100000) mod (e - s) + s) (n + 1) d1
     else try_alloc big rnd u key oui s e ((data + 1) mod (e - s) + s) (n + 1) d1)"
  using assms by (subst try_alloc.simps) (simp add: Let_def SetMAC_uint32_def)

text \<open>After a failed attempt: the next address, in the range, or the end of the process.\<close>

lemma try_alloc_next:
  assumes "SaveMAC2DB u (Uint32MAC2MAC \<lparr>dwOUI = oui, dwData = data\<rparr>) d = (r1, d1)"
    and "r1 \<noteq> 0" and "\<not> n + 1 > 15" and "s \<le> e"
  obtains (again) data' where "s \<le> data'" "data' \<le> e"
      "try_alloc big rnd u key oui s e data n d = try_alloc big rnd u key oui s e data' (n + 1) d1"
  | (crash) "e = s" "try_alloc big rnd u key oui s e data n d = None"
proof -
  note eq = try_alloc_step [OF assms(1), of big rnd key s e n]
  consider (fresh) "(n + 1) mod 5 = 0" | (zero) "(n + 1) mod 5 \<noteq> 0" "e - s = 0"
    | (move) c where "(n + 1) mod 5 \<noteq> 0" "s < e"
        "try_alloc big rnd u key oui s e data n d =
         try_alloc big rnd u key oui s e ((data + c) mod (e - s) + s) (n + 1) d1"
    using eq assms(2-4) by (metis order_le_imp_less_or_eq right_minus_eq)
  then show thesis
  proof cases
    case fresh
    then show thesis using eq assms(2,3) CalcMACAddr_range [OF assms(4)] by (intro again) simp_all
  next
    case zero
    then show thesis using eq assms(2,3) by (intro crash) simp_all
  next
    case move
    then show thesis
      using wrap_in_range [of s e "data + c"] by (intro again [OF _ _ move(3)]) (simp_all add: order_less_imp_le)
  qed
qed

lemma try_alloc_effect:
  assumes "s \<le> data" and "data \<le> e" and "try_alloc big rnd u key oui s e data n d = Some (res, d')"
  shows "mac_grows u d d' \<and> (\<forall>m. res = Inr m \<longrightarrow> got_address u oui s e m d d')"
  using assms
proof (induction "15 - n" arbitrary: data n d rule: less_induct)
  case less
  let ?m = "Uint32MAC2MAC \<lparr>dwOUI = oui, dwData = data\<rparr>"
  obtain r1 d1 where a: "SaveMAC2DB u ?m d = (r1, d1)" by fastforce
  note e1 = SaveMAC2DB_effect [OF a mac_ok_Uint32MAC2MAC]
  note eq = less.prems(3) [unfolded try_alloc_step [OF a]]
  have se: "s \<le> e" using less.prems(1,2) by simp
  have loop: ?case if "\<not> n + 1 > 15" "s \<le> data'" "data' \<le> e"
    "try_alloc big rnd u key oui s e data' (n + 1) d1 = Some (res, d')" for data'
  proof -
    have "mac_grows u d1 d' \<and> (\<forall>m. res = Inr m \<longrightarrow> got_address u oui s e m d1 d')"
      using that by (intro less.hyps [of "n + 1"]) simp_all
    then show ?thesis using mac_grows_trans [OF e1(1)] got_address_trans [OF e1(1)] by blast
  qed
  consider (saved) "r1 = 0" | (out) "r1 \<noteq> 0" "n + 1 > 15" | (again) "r1 \<noteq> 0" "\<not> n + 1 > 15" by blast
  then show ?case
  proof cases
    case saved
    then have "res = Inr ?m" "d' = d1" using eq by simp_all
    moreover have "got_address u oui s e ?m d d1"
      using less.prems(1,2) alloc_done_after [OF mac_grows_kept [OF mac_kept_refl refl] e1(2) [OF saved]]
      by (auto simp: got_address_def)
    ultimately show ?thesis using e1(1) by simp
  next
    case out
    then show ?thesis using eq e1(1) by auto
  next
    case again
    show ?thesis
    proof (cases rule: try_alloc_next [OF a again se, of big rnd key, case_names again crash])
      case (again data')
      then show ?thesis using loop less.prems(3) \<open>\<not> n + 1 > 15\<close> by metis
    next
      case crash
      then show ?thesis using less.prems(3) by simp
    qed
  qed
qed

text \<open>The scan ends when the last address is not the largest number, and finds a free address if any.\<close>

lemma scan_free_result:
  assumes "e \<noteq> - 1" and "i \<le> e + 1"
  shows "\<exists>x. scan_free oui e nums i = Some x \<and>
     (case x of None \<Rightarrow> \<forall>j. i \<le> j \<and> j \<le> e \<longrightarrow> mac_num \<lparr>dwOUI = oui, dwData = j\<rparr> \<in> set nums
      | Some j \<Rightarrow> i \<le> j \<and> j \<le> e \<and> mac_num \<lparr>dwOUI = oui, dwData = j\<rparr> \<notin> set nums)"
  using assms(2)
proof (induction "unat (e + 1) - unat i" arbitrary: i rule: less_induct)
  case less
  have e1: "unat (e + 1) = Suc (unat e)" by (rule unat_plus_one [OF assms(1)])
  show ?case
  proof (cases "i \<le> e \<and> mac_num \<lparr>dwOUI = oui, dwData = i\<rparr> \<in> set nums")
    case False
    then show ?thesis by (subst scan_free.simps) auto
  next
    case True
    have i1: "unat (i + 1) = Suc (unat i)"
      using True assms(1) by (intro unat_plus_one) (metis word_order.extremum_uniqueI)
    have "\<exists>x. scan_free oui e nums (i + 1) = Some x \<and>
       (case x of None \<Rightarrow> \<forall>j. i + 1 \<le> j \<and> j \<le> e \<longrightarrow> mac_num \<lparr>dwOUI = oui, dwData = j\<rparr> \<in> set nums
        | Some j \<Rightarrow> i + 1 \<le> j \<and> j \<le> e \<and> mac_num \<lparr>dwOUI = oui, dwData = j\<rparr> \<notin> set nums)"
      using True by (intro less.hyps) (auto simp: e1 i1 word_le_nat_alt)
    then obtain x where x: "scan_free oui e nums (i + 1) = Some x"
      "case x of None \<Rightarrow> \<forall>j. i + 1 \<le> j \<and> j \<le> e \<longrightarrow> mac_num \<lparr>dwOUI = oui, dwData = j\<rparr> \<in> set nums
       | Some j \<Rightarrow> i + 1 \<le> j \<and> j \<le> e \<and> mac_num \<lparr>dwOUI = oui, dwData = j\<rparr> \<notin> set nums" by blast
    have after: "i + 1 \<le> j \<longleftrightarrow> i \<le> j \<and> j \<noteq> i" for j
      by (auto simp: word_le_nat_alt i1 word_unat_eq_iff)
    have "scan_free oui e nums i = Some x" using True x(1) by (subst scan_free.simps) simp
    then show ?thesis using x(2) True by (auto simp: after split: option.splits)
  qed
qed

lemma MacPool_QueryByNpRange_effect:
  assumes "MacPool_QueryByNpRange u b e d = (ret, rows, d')"
  shows "same_tables d d'"
    and "ret = 0 \<Longrightarrow> np_lookup u d = Some np \<Longrightarrow> MacNum ` set rows = {n \<in> mac_alloc d np. b \<le> n \<and> n \<le> e}"
proof -
  let ?rows = "\<lambda>d. case np_lookup u d of None \<Rightarrow> []
    | Some np \<Rightarrow> map (\<lambda>r. \<lparr>NpUuid = u, MacNum = mp_num r, MacStr = mp_mac r\<rparr>)
        (filter (\<lambda>r. mp_netplane_id r = np \<and> mp_num r \<ge> b \<and> mp_num r \<le> e) (mac_pool d))"
  have q: "pf_net_query_netplane_macpool_by_nprange u b e d = Some (?rows d, d)" for d
    by (simp add: pf_net_query_netplane_macpool_by_nprange_def split: option.split)
  have "same_tables d d' \<and> (ret = 0 \<longrightarrow> rows = ?rows d)"
    using assms unfolding MacPool_QueryByNpRange_def
  proof (cases rule: db_query_op_cases)
    case (ran d1 xs)
    have "np_lookup u d1 = np_lookup u d" "mac_pool d1 = mac_pool d"
      using same_tables_mac [OF ran(1)] mac_kept_sel(8) by simp_all
    then show ?thesis using ran q [of d1] by (cases "np_lookup u d") auto
  qed simp
  then show "same_tables d d'"
    and "ret = 0 \<Longrightarrow> np_lookup u d = Some np \<Longrightarrow> MacNum ` set rows = {n \<in> mac_alloc d np. b \<le> n \<and> n \<le> e}"
    by (auto simp: mac_alloc_def image_iff)
qed

lemma ScanAllocMAC_effect:
  assumes "ScanAllocMAC u oui s e d = Some (x, d')" and "e \<noteq> - 1" and "s \<le> e"
  shows "same_tables d d' \<and> (\<forall>i. x = Some i \<longrightarrow> s \<le> i \<and> i \<le> e)"
proof -
  obtain r rows d1 where q: "MacPool_QueryByNpRange u (mac_num \<lparr>dwOUI = oui, dwData = s\<rparr>)
      (mac_num \<lparr>dwOUI = oui, dwData = e\<rparr>) d = (r, rows, d1)" by (metis prod_cases3)
  have "s \<le> e + 1" using assms(2,3) by (simp add: word_le_nat_alt unat_plus_one)
  from scan_free_result [OF assms(2) this, of oui "map MacNum rows"] show ?thesis
    using assms(1) q MacPool_QueryByNpRange_effect(1) [OF q]
    by (auto simp: ScanAllocMAC_def split: if_splits)
qed

section \<open>The ranges with free addresses\<close>

lemma set_insert_available [simp]: "set (insert_available x ys) = insert x (set ys)"
  by (induction ys) auto

lemma set_sort_available: "set (foldl (\<lambda>s x. insert_available x s) acc xs) = set acc \<union> set xs"
  by (induction xs arbitrary: acc) auto

lemma MacRange_QueryAllocNum_effect:
  assumes "MacRange_QueryAllocNum u b e d = (ret, n, d')"
  shows "same_tables d d'"
proof (cases "b > e")
  case False
  have q: "\<exists>x. pf_net_query_netplane_macrange_alloc u b e d = Some (x, d)" for d
    using False by (simp add: pf_net_query_netplane_macrange_alloc_def split: option.split)
  show ?thesis
  proof (cases rule: Handle_cases [of "pf_net_query_netplane_macrange_alloc u b e" d])
    case (not_run c d1)
    then show ?thesis using assms False by (simp add: MacRange_QueryAllocNum_def)
  next
    case (answered d1 a d2)
    then show ?thesis using assms False q [of d1]
      by (auto simp: MacRange_QueryAllocNum_def split: prod.splits if_splits)
  next
    case (lost d1 a c d2)
    then show ?thesis using assms False q [of d1] by (auto simp: MacRange_QueryAllocNum_def)
  qed
qed (use assms in \<open>simp add: MacRange_QueryAllocNum_def\<close>)

lemma GetMACCnt_effect:
  assumes "GetMACCnt u r c d = (ret, n, d')"
  shows "same_tables d d' \<and> (ret = 0 \<longrightarrow> IsValidMACRange r)"
  using assms MacRange_QueryAllocNum_effect [of u "mac_num (tStartMAC r)" "mac_num (tEndMAC r)" d]
  by (auto simp: GetMACCnt_def split: if_splits prod.splits)

lemma available_ranges_effect:
  "available_ranges u rs out d = (out', d') \<Longrightarrow>
     same_tables d d' \<and> (\<forall>x \<in> set out'. x \<in> set out \<or> tRange x \<in> set rs \<and> IsValidMACRange (tRange x))"
proof (induction rs arbitrary: out d)
  case (Cons r rs)
  obtain ret n d1 where g: "GetMACCnt u r 0 d = (ret, n, d1)" by (metis prod_cases3)
  note e = GetMACCnt_effect [OF g]
  have "\<exists>out1. available_ranges u rs out1 d1 = (out', d') \<and>
      (out1 = out \<or> (\<exists>x. out1 = out @ [x] \<and> tRange x = r \<and> IsValidMACRange r))"
    using Cons.prems g e by (auto simp: Let_def split: if_splits)
  then show ?case using Cons.IH e same_tables_trans [of d d1 d'] by fastforce
qed simp

lemma GetAvailableRange_effect:
  assumes "GetAvailableRange u rs d = (out, d')"
  shows "same_tables d d' \<and> (\<forall>x \<in> set out. tRange x \<in> set rs \<and> IsValidMACRange (tRange x))"
  using assms available_ranges_effect [of u rs "[]" d]
  by (auto simp: GetAvailableRange_def set_sort_available split: prod.splits)

section \<open>The allocation as a whole\<close>

text \<open>Address text \<open>t\<close> was taken out of the ranges \<open>rs\<close>.\<close>

definition taken_from :: "string \<Rightarrow> uint32 \<Rightarrow> TMACRangeItem list \<Rightarrow> string \<Rightarrow> mdb \<Rightarrow> mdb \<Rightarrow> bool" where
  "taken_from u oui rs t d d' \<longleftrightarrow>
     (\<exists>r \<in> set rs. \<exists>i. in_item i r \<and> t = mac_text_of (mac_num \<lparr>dwOUI = oui, dwData = i\<rparr>) \<and>
        alloc_done u (mac_num \<lparr>dwOUI = oui, dwData = i\<rparr>) d d')"

lemma taken_from_trans: "mac_grows u a b \<Longrightarrow> taken_from u oui rs t b c \<Longrightarrow> taken_from u oui rs t a c"
  unfolding taken_from_def using alloc_done_trans by blast

lemma taken_from_sub: "set rs \<subseteq> set qs \<Longrightarrow> taken_from u oui rs t a c \<Longrightarrow> taken_from u oui qs t a c"
  by (auto simp: taken_from_def)

lemma got_address_taken:
  assumes "got_address u oui (dwData (tStartMAC r)) (dwData (tEndMAC r)) m d d'" and "loaded_range oui r"
    and "r \<in> set rs"
  shows "taken_from u oui rs (GetStringMAC m) d d'"
proof -
  obtain i where i: "in_item i r" "m = Uint32MAC2MAC \<lparr>dwOUI = oui, dwData = i\<rparr>"
    "alloc_done u (MacNum (mac_row u m)) d d'"
    using assms(1) by (auto simp: got_address_def in_item_def)
  have "mac24 \<lparr>dwOUI = oui, dwData = i\<rparr>" using loaded_range_mac24 [OF assms(2) i(1)] .
  then show ?thesis
    using i assms(3) unfolding taken_from_def
    by (intro bexI [of _ r] exI [of _ i]) (simp_all add: mac_row_pair mac_text_num)
qed

lemma loaded_range_end: "loaded_range oui r \<Longrightarrow> dwData (tEndMAC r) \<noteq> - 1"
proof
  assume "loaded_range oui r" "dwData (tEndMAC r) = - 1"
  then have "uint (- 1 :: uint32) < 2 ^ 24" by (simp add: loaded_range_def mac24_def)
  then show False by (simp add: unsigned_minus_1_eq_mask mask_eq_exp_minus_1)
qed

lemma alloc_in_effect:
  assumes "\<forall>x \<in> set xs. loaded_range oui (tRange x) \<and> IsValidMACRange (tRange x)"
    and "alloc_in big rnd u key oui n xs t0 d = Some (ret, t, d')"
  shows "mac_grows u d d' \<and> (ret = 0 \<longrightarrow> taken_from u oui (map tRange xs) t d d') \<and>
         (ret \<noteq> 0 \<longrightarrow> ret = - 1 \<and> t = t0)"
  using assms
proof (induction xs arbitrary: n d)
  case Nil
  then show ?case by (auto simp: mac_grows_kept)
next
  case (Cons x xs)
  let ?s = "dwData (tStartMAC (tRange x))" and ?e = "dwData (tEndMAC (tRange x))"
  have x: "loaded_range oui (tRange x)" "?s \<le> ?e" "?e \<noteq> - 1"
    using Cons.prems(1) IsValidMACRange_le loaded_range_end by auto
  have rest: ?case if g: "mac_grows u d e" and a: "alloc_in big rnd u key oui (n + 1) xs t0 e = Some (ret, t, d')"
    for e
  proof -
    have "mac_grows u e d' \<and> (ret = 0 \<longrightarrow> taken_from u oui (map tRange xs) t e d') \<and>
          (ret \<noteq> 0 \<longrightarrow> ret = - 1 \<and> t = t0)"
      using Cons.IH [OF _ a] Cons.prems(1) by simp
    moreover have "set (map tRange xs) \<subseteq> set (map tRange (x # xs))" by auto
    ultimately show ?thesis
      using mac_grows_trans [OF g] taken_from_trans [OF g] taken_from_sub by blast
  qed
  obtain res d1 where t: "try_alloc big (rnd n) u key oui ?s ?e (CalcMACAddr big (rnd n 0) key ?e ?s) 0 d =
      Some (res, d1)"
    using Cons.prems(2) by (auto simp: Let_def split: option.splits)
  note e1 = try_alloc_effect [OF CalcMACAddr_range [OF x(2)] t]
  show ?case
  proof (cases res)
    case (Inr m)
    then have "got_address u oui ?s ?e m d d1" using e1 by blast
    from got_address_taken [OF this x(1)] have "taken_from u oui (map tRange (x # xs)) (GetStringMAC m) d d1"
      by simp
    moreover have "ret = 0" "t = GetStringMAC m" "d' = d1"
      using Cons.prems(2) t Inr by (simp_all add: Let_def)
    ultimately show ?thesis using e1 by simp
  next
    case (Inl v)
    obtain y d2 where sc: "ScanAllocMAC u oui ?s ?e d1 = Some (y, d2)"
      using Cons.prems(2) t Inl by (auto simp: Let_def split: option.splits)
    note e2 = ScanAllocMAC_effect [OF sc x(3,2)]
    have g2: "mac_grows u d d2" using mac_grows_trans e1 mac_grows_same e2 by blast
    show ?thesis
    proof (cases y)
      case None
      then show ?thesis using Cons.prems(2) t Inl sc rest [OF g2] by (simp add: Let_def)
    next
      case (Some i)
      let ?m = "Uint32MAC2MAC \<lparr>dwOUI = oui, dwData = i\<rparr>"
      obtain r3 d3 where sv: "SaveMAC2DB u ?m d2 = (r3, d3)" by fastforce
      note e3 = SaveMAC2DB_effect [OF sv mac_ok_Uint32MAC2MAC]
      show ?thesis
      proof (cases "r3 = 0")
        case True
        have "got_address u oui ?s ?e ?m d d3"
          using e2 Some alloc_done_after [OF g2 e3(2) [OF True]] by (auto simp: got_address_def)
        from got_address_taken [OF this x(1)]
        have "taken_from u oui (map tRange (x # xs)) (GetStringMAC ?m) d d3" by simp
        moreover have "ret = 0" "t = GetStringMAC ?m" "d' = d3"
          using Cons.prems(2) t Inl sc Some sv True by (simp_all add: Let_def SetMAC_uint32_def)
        ultimately show ?thesis using mac_grows_trans [OF g2 e3(1)] by simp
      next
        case False
        then show ?thesis
          using Cons.prems(2) t Inl sc Some sv rest [OF mac_grows_trans [OF g2 e3(1)]]
          by (simp add: Let_def SetMAC_uint32_def)
      qed
    qed
  qed
qed

lemma AllocMACAtRange_effect:
  assumes "\<forall>r \<in> set rs. loaded_range oui r"
    and "AllocMACAtRange big rnd u rs oui key t0 d = Some (ret, t, d')"
  shows "mac_grows u d d' \<and> (ret = 0 \<longrightarrow> taken_from u oui rs t d d') \<and> (ret \<noteq> 0 \<longrightarrow> ret = - 1 \<and> t = t0)"
proof (cases "rs = []")
  case True
  then show ?thesis using assms(2) by (auto simp: AllocMACAtRange_def mac_grows_kept)
next
  case False
  obtain out d1 where g: "GetAvailableRange u rs d = (out, d1)" by fastforce
  note e = GetAvailableRange_effect [OF g]
  have g1: "mac_grows u d d1" using e mac_grows_same by blast
  show ?thesis
  proof (cases "out = []")
    case True
    then show ?thesis using assms(2) False g g1 by (auto simp: AllocMACAtRange_def)
  next
    case ne: False
    have "alloc_in big rnd u key oui 0 out t0 d1 = Some (ret, t, d')"
      using assms(2) False g ne by (simp add: AllocMACAtRange_def)
    from alloc_in_effect [OF _ this] show ?thesis
      using assms(1) e mac_grows_trans [OF g1] taken_from_trans [OF g1]
        taken_from_sub [of "map tRange out" rs] by fastforce
  qed
qed

text \<open>The containers of a pool as the manager fills them.\<close>

definition pool_loaded :: "CMACPool \<Rightarrow> bool" where
  "pool_loaded p \<longleftrightarrow>
     (\<forall>c. m_pOUI1MACRange p = Some c \<or> m_pOUI2MACRange p = Some c \<longrightarrow>
        (\<forall>r \<in> set (m_vecMACRange c). loaded_range (m_dwOUI c) r))"

text \<open>The addresses of the pool.\<close>

definition pool_addrs :: "CMACPool \<Rightarrow> int set" where
  "pool_addrs p =
     {mac_num \<lparr>dwOUI = m_dwOUI c, dwData = i\<rparr> | c r i.
        (m_pOUI1MACRange p = Some c \<or> m_pOUI2MACRange p = Some c) \<and> r \<in> set (m_vecMACRange c) \<and> in_item i r}"

lemma AllocMAC_effect:
  assumes "pool_loaded p" and "CMACPool_AllocMAC big rnd key t0 p d = Some (ret, t, d')"
  shows "mac_grows (m_strNetplaneUUID p) d d' \<and>
         (if ret = 0 then \<exists>n \<in> pool_addrs p. t = mac_text_of n \<and> alloc_done (m_strNetplaneUUID p) n d d'
          else ret = - 1 \<and> t = t0)"
proof -
  let ?u = "m_strNetplaneUUID p"
  show ?thesis
  proof (cases "m_pOUI1MACRange p = None \<or> m_pOUI2MACRange p = None \<or> ?u = []")
    case True
    then show ?thesis
      using assms(2) by (auto simp: CMACPool_AllocMAC_def Let_def mac_grows_kept split: option.splits)
  next
    case False
    then obtain c1 c2 where c: "m_pOUI1MACRange p = Some c1" "m_pOUI2MACRange p = Some c2" "?u \<noteq> []" by auto
    have taken: "\<exists>n \<in> pool_addrs p. t = mac_text_of n \<and> alloc_done ?u n a d'"
      if "taken_from ?u (m_dwOUI c) (m_vecMACRange c) t a d'" "c = c1 \<or> c = c2" for c a
      using that c by (fastforce simp: taken_from_def pool_addrs_def)
    have l: "\<forall>r \<in> set (m_vecMACRange c1). loaded_range (m_dwOUI c1) r"
      "\<forall>r \<in> set (m_vecMACRange c2). loaded_range (m_dwOUI c2) r"
      using assms(1) c by (simp_all add: pool_loaded_def)
    have second: ?thesis
      if g: "mac_grows ?u d e" and a: "(if m_vecMACRange c2 = [] then Some (- 1, t0, e)
           else case AllocMACAtRange big (rnd 2) ?u (m_vecMACRange c2) (m_dwOUI c2) key t0 e of
                  None \<Rightarrow> None
                | Some (nRet, s, d1) \<Rightarrow> if 0 = nRet then Some (0, s, d1) else Some (- 1, t0, d1)) =
         Some (ret, t, d')" for e
    proof (cases "m_vecMACRange c2 = []")
      case True
      then show ?thesis using g a by auto
    next
      case False
      obtain r s d1 where at: "AllocMACAtRange big (rnd 2) ?u (m_vecMACRange c2) (m_dwOUI c2) key t0 e =
          Some (r, s, d1)"
        using False a by (auto split: option.splits)
      note e2 = AllocMACAtRange_effect [OF l(2) at]
      have "d' = d1" "ret = (if r = 0 then 0 else - 1)" "t = (if r = 0 then s else t0)"
        using False a at by (auto split: if_splits)
      then show ?thesis
        using e2 mac_grows_trans [OF g] taken_from_trans [OF g] taken [of c2 d] by (auto split: if_splits)
    qed
    show ?thesis
    proof (cases "m_vecMACRange c1 = []")
      case True
      then show ?thesis
        using assms(2) c second [OF mac_grows_kept [OF mac_kept_refl refl]]
        by (simp add: CMACPool_AllocMAC_def Let_def)
    next
      case False
      obtain r s d1 where at: "AllocMACAtRange big (rnd 1) ?u (m_vecMACRange c1) (m_dwOUI c1) key t0 d =
          Some (r, s, d1)"
        using False assms(2) c by (auto simp: CMACPool_AllocMAC_def Let_def split: option.splits)
      note e1 = AllocMACAtRange_effect [OF l(1) at]
      show ?thesis
      proof (cases "r = 0")
        case True
        then have "ret = 0" "t = s" "d' = d1"
          using False assms(2) c at by (simp_all add: CMACPool_AllocMAC_def Let_def)
        then show ?thesis using e1 True taken [of c1 d] by simp
      next
        case r: False
        then show ?thesis
          using False assms(2) c at second [of d1] e1
          by (simp add: CMACPool_AllocMAC_def Let_def)
      qed
    qed
  qed
qed

end
