(* ===== verification/MacLive.thy ===== *)
theory MacLive
  imports MacAlloc
begin

text \<open>
  The MAC pool on a database whose calls do not fail: then an allocation returns, and it succeeds
  exactly when a range has a free address.
\<close>

section \<open>Saving\<close>

definition mac_rows_ok :: "mdb \<Rightarrow> bool" where
  "mac_rows_ok d \<longleftrightarrow>
     distinct (map mp_num (mac_pool d)) \<and>
     (\<forall>r \<in> set (mac_pool d). mp_id r \<le> serial_mac_pool d \<and> mp_mac r = mac_text_of (mp_num r) \<and>
        mac_num (num_mac (mp_num r)) = mp_num r)"

definition mac_live :: "string \<Rightarrow> int \<Rightarrow> mdb \<Rightarrow> bool" where
  "mac_live u np d \<longleftrightarrow> env d = [] \<and> m_bInit d \<and> np_lookup u d = Some np \<and> mac_rows_ok d"

lemma GetStringMAC_inject:
  assumes "mac_ok m" and "mac_ok m'" and "GetStringMAC m = GetStringMAC m'"
  shows "m = m'"
  using String2MAC_GetStringMAC [OF assms(1,1)] String2MAC_GetStringMAC [OF assms(2,1)]
  unfolding assms(3) by (metis prod.inject)

lemma mac_text_inject:
  assumes "mac_text_of n = mac_text_of k" and "mac_num (num_mac n) = n" and "mac_num (num_mac k) = k"
  shows "n = k"
proof -
  have "Uint32MAC2MAC (num_mac n) = Uint32MAC2MAC (num_mac k)"
    using assms(1) by (intro GetStringMAC_inject) (simp_all add: mac_text_of_def)
  then have "MAC2Uint32MAC (Uint32MAC2MAC (num_mac n)) = MAC2Uint32MAC (Uint32MAC2MAC (num_mac k))" by simp
  then have "num_mac n = num_mac k"
    using mac24_num_mac by (simp add: MAC2Uint32MAC_inverse mac24_ok)
  then show ?thesis using assms(2,3) by metis
qed

lemma SaveMAC2DB_live:
  assumes "mac_live u np d" and "mac24 t"
  shows "SaveMAC2DB u (Uint32MAC2MAC t) d =
    (if mac_num t \<in> mac_nums d np \<and> mac_num t \<notin> mac_used d
     then (0, d\<lparr>serial_mac_pool := serial_mac_pool d + 1, mac_pool := mac_pool d @
                [\<lparr>mp_id = serial_mac_pool d + 1, mp_netplane_id = np, mp_mac = mac_text_of (mac_num t),
                  mp_num = mac_num t\<rparr>]\<rparr>)
     else (- 1, d))"
proof -
  let ?m = "mac_row u (Uint32MAC2MAC t)"
  have e: "env d = []" "m_bInit d" "np_lookup u d = Some np" "mac_rows_ok d"
    using assms(1) by (simp_all add: mac_live_def)
  have m: "NpUuid ?m = u" "MacNum ?m = mac_num t" "MacStr ?m = mac_text_of (mac_num t)"
    using assms(2) mac_row_text [of "Uint32MAC2MAC t" u] by (simp_all add: mac_row_pair)
  let ?free = "mac_num t \<in> mac_nums d np \<and> mac_num t \<notin> mac_used d"
  have "filter (\<lambda>r. mp_num r = n) (mac_pool d) = [] \<longleftrightarrow> n \<notin> mac_used d" for n
    by (auto simp: mac_used_def filter_empty_conv)
  moreover have "filter (\<lambda>r. mr_netplane_id r = np \<and> n \<ge> mr_begin_num r \<and> n \<le> mr_end_num r) (mac_range d) = [] \<longleftrightarrow>
      n \<notin> mac_nums d np" for n
    by (auto simp: mac_nums_def filter_empty_conv)
  ultimately have chk: "pf_net_check_add_netplane_macpool ?m d = 0 \<longleftrightarrow> ?free"
    using e(3) by (simp add: pf_net_check_add_netplane_macpool_def m rtn_defs)
  let ?r = "\<lparr>mp_id = serial_mac_pool d + 1, mp_netplane_id = np, mp_mac = mac_text_of (mac_num t),
      mp_num = mac_num t\<rparr>"
  show ?thesis
  proof (cases ?free)
    case True
    have "serial_mac_pool d + 1 \<notin> mp_id ` set (mac_pool d)" using e(4) by (force simp: mac_rows_ok_def)
    moreover have "(mac_text_of (mac_num t), np) \<notin> (\<lambda>x. (mp_mac x, mp_netplane_id x)) ` set (mac_pool d)"
    proof
      assume "(mac_text_of (mac_num t), np) \<in> (\<lambda>x. (mp_mac x, mp_netplane_id x)) ` set (mac_pool d)"
      then obtain r where r: "r \<in> set (mac_pool d)" "mp_mac r = mac_text_of (mac_num t)" by auto
      then have "mp_num r = mac_num t"
        using e(4) assms(2) by - (rule mac_text_inject, auto simp: mac_rows_ok_def num_mac_mac_num)
      then have "mac_num t \<in> mac_used d" using r(1) by (force simp: mac_used_def)
      then show False using True by simp
    qed
    moreover have "length (mac_text_of (mac_num t)) \<le> VARCHAR_LEN"
      by (simp add: mac_text_of_def VARCHAR_LEN_def)
    ultimately have ins: "insert_mac_pool ?r (d\<lparr>serial_mac_pool := serial_mac_pool d + 1\<rparr>) =
        Some (d\<lparr>serial_mac_pool := serial_mac_pool d + 1, mac_pool := mac_pool d @ [?r]\<rparr>)"
      by (simp add: insert_mac_pool_def)
    have c: "pf_net_check_add_netplane_macpool ?m d = 0" using chk True by simp
    have "pf_net_add_netplane_macpool ?m d =
        Some (0, d\<lparr>serial_mac_pool := serial_mac_pool d + 1, mac_pool := mac_pool d @ [?r]\<rparr>)"
      unfolding pf_net_add_netplane_macpool_def Let_def c m e(3) option.case ins by simp
    then have "MacPool_Add ?m d =
        (0, d\<lparr>serial_mac_pool := serial_mac_pool d + 1, mac_pool := mac_pool d @ [?r]\<rparr>)"
      using e(1) by (simp add: MacPool_Add_def db_add_op_def Handle_run rtn_defs)
    moreover have "MacPool_CheckAdd ?m d = (0, d)"
      using c e(1) by (simp add: MacPool_CheckAdd_def db_add_op_def Handle_run rtn_defs)
    ultimately show ?thesis using True e(2) by (simp add: SaveMAC2DB_def VNET_DB_SUCCESS_def)
  next
    case False
    then have "pf_net_check_add_netplane_macpool ?m d \<noteq> 0" using chk by simp
    then have "MacPool_CheckAdd ?m d = (GET_DB_ERROR_PROC (pf_net_check_add_netplane_macpool ?m d), d)"
      using check_add_code [of ?m d] e(1) by (simp add: MacPool_CheckAdd_def db_add_op_def Handle_run)
    moreover have "GET_DB_ERROR_PROC (pf_net_check_add_netplane_macpool ?m d) \<noteq> 0"
      using check_add_code [of ?m d] by (simp add: rtn_defs)
    ultimately show ?thesis using False e(2) by (simp add: SaveMAC2DB_def VNET_DB_SUCCESS_def)
  qed
qed

text \<open>One row is added, and the calls still do not fail.\<close>

definition saved_live :: "string \<Rightarrow> int \<Rightarrow> mdb \<Rightarrow> mdb \<Rightarrow> bool" where
  "saved_live u n d d' \<longleftrightarrow> saved u n d d' \<and> env d' = []"

lemma SaveMAC2DB_live_cases:
  assumes "mac_live u np d" and "mac24 t"
  obtains (free) d' where "mac_num t \<in> mac_nums d np" "mac_num t \<notin> mac_used d"
      "SaveMAC2DB u (Uint32MAC2MAC t) d = (0, d')" "saved_live u (mac_num t) d d'"
  | (busy) "mac_num t \<notin> mac_nums d np \<or> mac_num t \<in> mac_used d"
      "SaveMAC2DB u (Uint32MAC2MAC t) d = (- 1, d)"
proof (cases "mac_num t \<in> mac_nums d np \<and> mac_num t \<notin> mac_used d")
  case True
  then obtain d' where d': "SaveMAC2DB u (Uint32MAC2MAC t) d = (0, d')"
    using SaveMAC2DB_live [OF assms] by simp
  have "saved u (mac_num t) d d'"
    using SaveMAC2DB_effect(2) [OF d' mac_ok_Uint32MAC2MAC refl] assms(2) by (simp add: mac_row_pair)
  moreover have "env d' = []" using SaveMAC2DB_live [OF assms] d' True assms(1) by (auto simp: mac_live_def)
  ultimately have "saved_live u (mac_num t) d d'" by (simp add: saved_live_def)
  then show thesis using True d' free by blast
next
  case False
  then show thesis using SaveMAC2DB_live [OF assms] busy by auto
qed

section \<open>One range\<close>

text \<open>What the two loops give on a range whose addresses all lie in the ranges of the netplane.\<close>

definition range_of_netplane :: "uint32 \<Rightarrow> int \<Rightarrow> mdb \<Rightarrow> TMACRangeItem \<Rightarrow> bool" where
  "range_of_netplane oui np d r \<longleftrightarrow>
     loaded_range oui r \<and> IsValidMACRange r \<and>
     (\<forall>i. in_item i r \<longrightarrow> mac_num \<lparr>dwOUI = oui, dwData = i\<rparr> \<in> mac_nums d np)"

lemma try_alloc_live:
  assumes "mac_live u np d" and "range_of_netplane oui np d r" and "in_item data r"
    and "dwData (tStartMAC r) = dwData (tEndMAC r) \<Longrightarrow> mac_num \<lparr>dwOUI = oui, dwData = data\<rparr> \<notin> mac_used d"
  shows "try_alloc big rnd u key oui (dwData (tStartMAC r)) (dwData (tEndMAC r)) data n d = Some (Inl (), d) \<or>
    (\<exists>i d'. in_item i r \<and> saved_live u (mac_num \<lparr>dwOUI = oui, dwData = i\<rparr>) d d' \<and>
       try_alloc big rnd u key oui (dwData (tStartMAC r)) (dwData (tEndMAC r)) data n d =
       Some (Inr (Uint32MAC2MAC \<lparr>dwOUI = oui, dwData = i\<rparr>), d'))"
  using assms(3,4)
proof (induction "15 - n" arbitrary: data n rule: less_induct)
  case less
  let ?s = "dwData (tStartMAC r)" and ?e = "dwData (tEndMAC r)"
  have t: "mac24 \<lparr>dwOUI = oui, dwData = data\<rparr>"
    using assms(2) less.prems(1) loaded_range_mac24 by (auto simp: range_of_netplane_def)
  have se: "?s \<le> ?e" using less.prems(1) by (auto simp: in_item_def)
  show ?case
  proof (cases rule: SaveMAC2DB_live_cases [OF assms(1) t, case_names free busy])
    case (free d')
    then show ?thesis
      using less.prems(1) try_alloc_step [OF free(3), of big rnd key ?s ?e n] by auto
  next
    case busy
    then have ne: "?s \<noteq> ?e" using assms(2) less.prems by (auto simp: range_of_netplane_def)
    have r1: "(- 1 :: int) \<noteq> 0" by simp
    show ?thesis
    proof (cases "n + 1 > 15")
      case True
      then show ?thesis using try_alloc_step [OF busy(2), of big rnd key ?s ?e n] by simp
    next
      case False
      show ?thesis
      proof (cases rule: try_alloc_next [OF busy(2) r1 False se, of big rnd key, case_names again crash])
        case (again data')
        then show ?thesis
          using less.hyps [of "n + 1" data'] False ne by (simp add: in_item_def)
      qed (use ne in simp)
    qed
  qed
qed

lemma ScanAllocMAC_live:
  assumes "mac_live u np d" and "range_of_netplane oui np d r"
    and "mac_alloc d np \<inter> S = mac_used d \<inter> S"
    and "\<And>i. in_item i r \<Longrightarrow> mac_num \<lparr>dwOUI = oui, dwData = i\<rparr> \<in> S"
    and "in_item k r" and "mac_num \<lparr>dwOUI = oui, dwData = k\<rparr> \<notin> mac_used d"
  shows "\<exists>i. ScanAllocMAC u oui (dwData (tStartMAC r)) (dwData (tEndMAC r)) d = Some (Some i, d) \<and> in_item i r \<and>
             mac_num \<lparr>dwOUI = oui, dwData = i\<rparr> \<notin> mac_used d"
proof -
  let ?s = "dwData (tStartMAC r)" and ?e = "dwData (tEndMAC r)"
  have l: "loaded_range oui r" "?e \<noteq> - 1" and se: "?s \<le> ?e"
    using assms(2,5) loaded_range_end by (auto simp: range_of_netplane_def in_item_def)
  obtain ret rows d1 where q: "MacPool_QueryByNpRange u (mac_num \<lparr>dwOUI = oui, dwData = ?s\<rparr>)
      (mac_num \<lparr>dwOUI = oui, dwData = ?e\<rparr>) d = (ret, rows, d1)" by (metis prod_cases3)
  have e: "env d = []" "m_bInit d" "np_lookup u d = Some np" using assms(1) by (simp_all add: mac_live_def)
  have r: "ret = 0" "d1 = d"
    using q e by (auto simp: MacPool_QueryByNpRange_def db_query_op_def Handle_run VNET_DB_SUCCESS_def
        pf_net_query_netplane_macpool_by_nprange_def)
  note nums = MacPool_QueryByNpRange_effect(2) [OF q r(1) e(3)]
  have known: "mac_num \<lparr>dwOUI = oui, dwData = i\<rparr> \<in> set (map MacNum rows) \<longleftrightarrow>
      mac_num \<lparr>dwOUI = oui, dwData = i\<rparr> \<in> mac_used d" if "in_item i r" for i
  proof -
    have i: "mac24 \<lparr>dwOUI = oui, dwData = j\<rparr>" if "in_item j r" for j using loaded_range_mac24 [OF l(1) that] .
    have "in_item ?s r" "in_item ?e r" using se by (simp_all add: in_item_def)
    then have "mac_num \<lparr>dwOUI = oui, dwData = ?s\<rparr> \<le> mac_num \<lparr>dwOUI = oui, dwData = i\<rparr>"
      "mac_num \<lparr>dwOUI = oui, dwData = i\<rparr> \<le> mac_num \<lparr>dwOUI = oui, dwData = ?e\<rparr>"
      using that i by (simp_all add: mac_num_le_iff) (simp_all add: in_item_def)
    then show ?thesis using nums assms(3) assms(4) [OF that] by auto
  qed
  have "?s \<le> ?e + 1" using se l(2) by (simp add: word_le_nat_alt unat_plus_one)
  from scan_free_result [OF l(2) this, of oui "map MacNum rows"] obtain x where
    x: "scan_free oui ?e (map MacNum rows) ?s = Some x"
      "case x of None \<Rightarrow> \<forall>j. ?s \<le> j \<and> j \<le> ?e \<longrightarrow> mac_num \<lparr>dwOUI = oui, dwData = j\<rparr> \<in> set (map MacNum rows)
       | Some j \<Rightarrow> ?s \<le> j \<and> j \<le> ?e \<and> mac_num \<lparr>dwOUI = oui, dwData = j\<rparr> \<notin> set (map MacNum rows)" by blast
  obtain i where "x = Some i"
    using x(2) known [OF assms(5)] assms(5,6) by (cases x) (auto simp: in_item_def)
  then show ?thesis
    using x known [of i] q r e(2) by (auto simp: ScanAllocMAC_def VNET_DB_SUCCESS_def in_item_def)
qed

section \<open>Counting\<close>

lemma uint_of_int32: "0 \<le> k \<Longrightarrow> k < 2 ^ 32 \<Longrightarrow> uint (word_of_int k :: uint32) = k"
  by (simp add: uint_word_of_int)

lemma unat_less_24:
  assumes "uint (w :: uint32) < 2 ^ 24"
  shows "unat w < 2 ^ 24"
proof -
  have "int (unat w) < int (2 ^ 24)" using assms by simp
  then show ?thesis by (simp only: of_nat_less_iff)
qed

definition item_nums :: "TMACRangeItem \<Rightarrow> int set" where
  "item_nums r = {mac_num (tStartMAC r) .. mac_num (tEndMAC r)}"

lemma item_nums_addrs:
  assumes "loaded_range oui r"
  shows "item_nums r = {mac_num \<lparr>dwOUI = oui, dwData = i\<rparr> | i. in_item i r}"
    and "card (item_nums r) = nat (uint (dwData (tEndMAC r)) - uint (dwData (tStartMAC r)) + 1)"
proof -
  let ?s = "dwData (tStartMAC r)" and ?e = "dwData (tEndMAC r)"
  have o: "dwOUI (tStartMAC r) = oui" "dwOUI (tEndMAC r) = oui" "uint oui < 2 ^ 24" "uint ?e < 2 ^ 24"
    using assms by (auto simp: loaded_range_def mac24_def)
  have num: "mac_num t = uint oui * 2 ^ 32 + uint (dwData t)" if "dwOUI t = oui" for t
    using that o(3) by (simp add: mac_num_eq)
  have n: "item_nums r = {uint oui * 2 ^ 32 + uint ?s .. uint oui * 2 ^ 32 + uint ?e}"
    using num [OF o(1)] num [OF o(2)] by (simp add: item_nums_def)
  show "card (item_nums r) = nat (uint ?e - uint ?s + 1)" by (simp add: n)
  show "item_nums r = {mac_num \<lparr>dwOUI = oui, dwData = i\<rparr> | i. in_item i r}"
  proof (intro equalityI subsetI)
    fix n assume "n \<in> {mac_num \<lparr>dwOUI = oui, dwData = i\<rparr> | i. in_item i r}"
    then show "n \<in> item_nums r"
      using num by (auto simp: n in_item_def word_le_def)
  next
    fix n assume *: "n \<in> item_nums r"
    let ?i = "word_of_int (n - uint oui * 2 ^ 32) :: uint32"
    have b: "uint ?s \<le> n - uint oui * 2 ^ 32" "n - uint oui * 2 ^ 32 \<le> uint ?e"
      using * by (simp_all add: n)
    have "0 \<le> n - uint oui * 2 ^ 32" "n - uint oui * 2 ^ 32 < 2 ^ 32"
      using order_trans [OF _ b(1), of 0] b(2) o(4) by simp_all
    then have u: "uint ?i = n - uint oui * 2 ^ 32" by (rule uint_of_int32)
    then have "in_item ?i r" using b by (simp add: in_item_def word_le_def)
    moreover have "n = mac_num \<lparr>dwOUI = oui, dwData = ?i\<rparr>" using num u by simp
    ultimately show "n \<in> {mac_num \<lparr>dwOUI = oui, dwData = i\<rparr> | i. in_item i r}" by blast
  qed
qed

lemma mac_count:
  assumes "mac_rows_ok d"
  shows "length (filter (\<lambda>r. mp_netplane_id r = np \<and> mp_num r \<ge> b \<and> mp_num r \<le> e) (mac_pool d)) =
         card (mac_alloc d np \<inter> {b..e})"
proof -
  let ?P = "\<lambda>r. mp_netplane_id r = np \<and> mp_num r \<ge> b \<and> mp_num r \<le> e"
  have "distinct (map mp_num (filter ?P (mac_pool d)))"
    using assms unfolding mac_rows_ok_def by (blast intro: distinct_map_filter)
  from distinct_card [OF this]
  have "length (filter ?P (mac_pool d)) = card (set (map mp_num (filter ?P (mac_pool d))))" by simp
  also have "set (map mp_num (filter ?P (mac_pool d))) = mac_alloc d np \<inter> {b..e}"
    by (auto simp: mac_alloc_def)
  finally show ?thesis .
qed

text \<open>The test of \<open>GetAvailableRange\<close> finds the ranges that are not full.\<close>

lemma GetMACCnt_live:
  assumes "mac_live u np d" and "loaded_range oui r" and "IsValidMACRange r"
  shows "GetMACCnt u r c d = (0, word_of_int (int (card (mac_alloc d np \<inter> item_nums r))), d)"
    and "(word_of_int (int (card (mac_alloc d np \<inter> item_nums r))) \<ge>
          dwData (tEndMAC r) - dwData (tStartMAC r) + 1) \<longleftrightarrow> item_nums r \<subseteq> mac_alloc d np"
proof -
  let ?s = "dwData (tStartMAC r)" and ?e = "dwData (tEndMAC r)" and ?A = "mac_alloc d np \<inter> item_nums r"
  have e: "env d = []" "m_bInit d" "np_lookup u d = Some np" "mac_rows_ok d"
    using assms(1) by (simp_all add: mac_live_def)
  have se: "?s \<le> ?e" by (rule IsValidMACRange_le [OF assms(3)])
  have le: "mac_num (tStartMAC r) \<le> mac_num (tEndMAC r)"
    using assms(2) se by (simp add: loaded_range_def mac_num_le_iff)
  have "MacRange_QueryAllocNum u (mac_num (tStartMAC r)) (mac_num (tEndMAC r)) d = (0, int (card ?A), d)"
    using e(1,3) le mac_count [OF e(4), of np "mac_num (tStartMAC r)" "mac_num (tEndMAC r)"]
    by (simp add: MacRange_QueryAllocNum_def Handle_run pf_net_query_netplane_macrange_alloc_def
        item_nums_def VNET_DB_SUCCESS_def)
  then show "GetMACCnt u r c d = (0, word_of_int (int (card ?A)), d)"
    using e(2) assms(3) by (simp add: GetMACCnt_def VNET_DB_SUCCESS_def)
  have fin: "finite (item_nums r)" by (simp add: item_nums_def)
  have c: "card ?A \<le> card (item_nums r)" by (intro card_mono fin) simp
  have top: "unat ?e < 2 ^ 24" using assms(2) by (intro unat_less_24) (simp add: loaded_range_def mac24_def)
  have size: "card (item_nums r) = unat ?e - unat ?s + 1"
    using item_nums_addrs(2) [OF assms(2)] nat_size [of "unat ?s" "unat ?e"] se
    by (simp add: word_le_nat_alt)
  have total: "unat (?e - ?s + 1) = card (item_nums r)"
  proof -
    have d: "unat (?e - ?s) = unat ?e - unat ?s" using se by (simp add: unat_sub)
    then have "?e - ?s \<noteq> - 1" using top by (intro unat_less_neq_max [of _ "2 ^ 24"]) simp
    from unat_plus_one [OF this] show ?thesis using d size by simp
  qed
  have "unat (word_of_int (int (card ?A)) :: uint32) = card ?A"
    using c size top by (simp add: unat_of_nat32)
  then have "(word_of_int (int (card ?A)) \<ge> ?e - ?s + 1) \<longleftrightarrow> card (item_nums r) \<le> card ?A"
    by (simp add: word_le_nat_alt total)
  also have "\<dots> \<longleftrightarrow> item_nums r \<subseteq> mac_alloc d np"
  proof
    assume "card (item_nums r) \<le> card ?A"
    then have "?A = item_nums r" using fin by (intro card_seteq) simp_all
    then show "item_nums r \<subseteq> mac_alloc d np" by blast
  next
    assume "item_nums r \<subseteq> mac_alloc d np"
    then have "?A = item_nums r" by blast
    then show "card (item_nums r) \<le> card ?A" by simp
  qed
  finally show "(word_of_int (int (card ?A)) \<ge> ?e - ?s + 1) \<longleftrightarrow> item_nums r \<subseteq> mac_alloc d np" .
qed

lemma GetAvailableRange_live:
  assumes "mac_live u np d" and "\<forall>r \<in> set rs. loaded_range oui r \<and> IsValidMACRange r"
  shows "\<exists>out. GetAvailableRange u rs d = (out, d) \<and> tRange ` set out = {r \<in> set rs. \<not> item_nums r \<subseteq> mac_alloc d np}"
proof -
  have "\<exists>out'. available_ranges u rs out d = (out', d) \<and>
      tRange ` set out' = tRange ` set out \<union> {r \<in> set rs. \<not> item_nums r \<subseteq> mac_alloc d np}" for out
    using assms(2)
  proof (induction rs arbitrary: out)
    case (Cons r rs)
    note g = GetMACCnt_live [OF assms(1), of oui r]
    have r: "loaded_range oui r" "IsValidMACRange r" "\<forall>r \<in> set rs. loaded_range oui r \<and> IsValidMACRange r"
      using Cons.prems by simp_all
    show ?case
    proof (cases "item_nums r \<subseteq> mac_alloc d np")
      case True
      then have "available_ranges u (r # rs) out d = available_ranges u rs out d"
        using g r by (simp add: Let_def)
      then show ?thesis using Cons.IH [OF r(3), of out] True by auto
    next
      case False
      then obtain x where "available_ranges u (r # rs) out d = available_ranges u rs (out @ [x]) d" "tRange x = r"
        using g r by (auto simp: Let_def)
      then show ?thesis using Cons.IH [OF r(3), of "out @ [x]"] False by auto
    qed
  qed simp
  from this [of "[]"] show ?thesis by (auto simp: GetAvailableRange_def set_sort_available)
qed

section \<open>The allocation\<close>

text \<open>
  \<open>own_addrs\<close>: the addresses \<open>S\<close> that are in use at all are in use by netplane \<open>np\<close>. The scan of a range
  only sees the rows of its netplane, so this is what it relies on.
\<close>

definition own_addrs :: "int \<Rightarrow> mdb \<Rightarrow> int set \<Rightarrow> bool" where
  "own_addrs np d S \<longleftrightarrow> mac_used d \<inter> S \<subseteq> mac_alloc d np"

lemma mac_alloc_used: "mac_alloc d np \<subseteq> mac_used d"
  by (auto simp: mac_alloc_def mac_used_def)

lemma alloc_in_live:
  assumes "mac_live u np d" and "range_of_netplane oui np d (tRange x)" and "own_addrs np d (item_nums (tRange x))"
    and "\<not> item_nums (tRange x) \<subseteq> mac_alloc d np"
  shows "\<exists>i d'. in_item i (tRange x) \<and> saved_live u (mac_num \<lparr>dwOUI = oui, dwData = i\<rparr>) d d' \<and>
    alloc_in big rnd u key oui n (x # xs) t0 d = Some (0, mac_text_of (mac_num \<lparr>dwOUI = oui, dwData = i\<rparr>), d')"
proof -
  let ?r = "tRange x"
  let ?s = "dwData (tStartMAC ?r)" and ?e = "dwData (tEndMAC ?r)" and ?N = "item_nums ?r"
  let ?num = "\<lambda>i. mac_num \<lparr>dwOUI = oui, dwData = i\<rparr>"
  have l: "loaded_range oui ?r" and se: "?s \<le> ?e"
    using assms(2) IsValidMACRange_le by (auto simp: range_of_netplane_def)
  note N = item_nums_addrs(1) [OF l]
  have str: "GetStringMAC (Uint32MAC2MAC \<lparr>dwOUI = oui, dwData = i\<rparr>) = mac_text_of (?num i)" if "in_item i ?r" for i
    using loaded_range_mac24 [OF l that] by (simp add: mac_text_num)
  have eq: "mac_alloc d np \<inter> ?N = mac_used d \<inter> ?N"
    using assms(3) mac_alloc_used [of d np] by (auto simp: own_addrs_def)
  from assms(4) obtain a where a: "a \<in> ?N" "a \<notin> mac_alloc d np" by blast
  then have "a \<notin> mac_used d" using eq by blast
  moreover obtain k where "in_item k ?r" "a = ?num k" using a(1) unfolding N by blast
  ultimately have k: "in_item k ?r" "?num k \<notin> mac_used d" by simp_all
  have sole: "?num (CalcMACAddr big (rnd n 0) key ?e ?s) \<notin> mac_used d" if "?s = ?e"
  proof -
    have "k = ?s" using k(1) that by (auto simp: in_item_def)
    moreover have "CalcMACAddr big (rnd n 0) key ?e ?s = ?s" using that by (simp add: CalcMACAddr_def)
    ultimately show ?thesis using k(2) by simp
  qed
  have "in_item (CalcMACAddr big (rnd n 0) key ?e ?s) ?r"
    using CalcMACAddr_range [OF se] by (simp add: in_item_def)
  from this sole have "try_alloc big (rnd n) u key oui ?s ?e (CalcMACAddr big (rnd n 0) key ?e ?s) 0 d = Some (Inl (), d) \<or>
    (\<exists>i d'. in_item i ?r \<and> saved_live u (?num i) d d' \<and>
       try_alloc big (rnd n) u key oui ?s ?e (CalcMACAddr big (rnd n 0) key ?e ?s) 0 d =
       Some (Inr (Uint32MAC2MAC \<lparr>dwOUI = oui, dwData = i\<rparr>), d'))"
    by (rule try_alloc_live [OF assms(1,2)])
  then show ?thesis
  proof (elim disjE exE conjE)
    fix i d'
    assume "in_item i ?r" "saved_live u (?num i) d d'"
      "try_alloc big (rnd n) u key oui ?s ?e (CalcMACAddr big (rnd n 0) key ?e ?s) 0 d =
       Some (Inr (Uint32MAC2MAC \<lparr>dwOUI = oui, dwData = i\<rparr>), d')"
    then show ?thesis using str by (intro exI [of _ i] exI [of _ d']) (simp add: Let_def)
  next
    assume t: "try_alloc big (rnd n) u key oui ?s ?e (CalcMACAddr big (rnd n 0) key ?e ?s) 0 d = Some (Inl (), d)"
    have S: "?num i \<in> ?N" if "in_item i ?r" for i using that unfolding N by blast
    obtain i where i: "ScanAllocMAC u oui ?s ?e d = Some (Some i, d)" "in_item i ?r" "?num i \<notin> mac_used d"
      using ScanAllocMAC_live [OF assms(1,2) eq S k] by blast
    have "?num i \<in> mac_nums d np" using assms(2) i(2) by (simp add: range_of_netplane_def)
    with SaveMAC2DB_live_cases [OF assms(1) loaded_range_mac24 [OF l i(2)]] i(3)
    obtain d' where "SaveMAC2DB u (Uint32MAC2MAC \<lparr>dwOUI = oui, dwData = i\<rparr>) d = (0, d')"
      "saved_live u (?num i) d d'" by metis
    then show ?thesis
      using t i str by (intro exI [of _ i] exI [of _ d']) (simp add: Let_def SetMAC_uint32_def)
  qed
qed

lemma AllocMACAtRange_live:
  assumes "mac_live u np d" and "\<forall>r \<in> set rs. range_of_netplane oui np d r \<and> own_addrs np d (item_nums r)"
  shows "if \<forall>r \<in> set rs. item_nums r \<subseteq> mac_alloc d np
    then AllocMACAtRange big rnd u rs oui key t0 d = Some (- 1, t0, d)
    else \<exists>r \<in> set rs. \<exists>i d'. in_item i r \<and> saved_live u (mac_num \<lparr>dwOUI = oui, dwData = i\<rparr>) d d' \<and>
      AllocMACAtRange big rnd u rs oui key t0 d =
        Some (0, mac_text_of (mac_num \<lparr>dwOUI = oui, dwData = i\<rparr>), d')"
proof -
  obtain out where out: "GetAvailableRange u rs d = (out, d)"
    "tRange ` set out = {r \<in> set rs. \<not> item_nums r \<subseteq> mac_alloc d np}"
    using GetAvailableRange_live [OF assms(1), of rs oui] assms(2) by (auto simp: range_of_netplane_def)
  show ?thesis
  proof (cases out)
    case Nil
    then have "\<forall>r \<in> set rs. item_nums r \<subseteq> mac_alloc d np" using out(2) by auto
    then show ?thesis using out(1) Nil by (simp add: AllocMACAtRange_def)
  next
    case (Cons x xs)
    then have x: "tRange x \<in> set rs" "\<not> item_nums (tRange x) \<subseteq> mac_alloc d np" using out(2) by auto
    have "AllocMACAtRange big rnd u rs oui key t0 d = alloc_in big rnd u key oui 0 (x # xs) t0 d"
      using x(1) out(1) Cons by (auto simp: AllocMACAtRange_def)
    with alloc_in_live [OF assms(1) _ _ x(2), of oui big rnd key 0 xs t0] assms(2) x
    show ?thesis by auto
  qed
qed

text \<open>A pool whose containers hold valid ranges of its netplane, as \<open>GetMACRange\<close> fills them.\<close>

definition pool_of_netplane :: "int \<Rightarrow> mdb \<Rightarrow> CMACPool \<Rightarrow> bool" where
  "pool_of_netplane np d p \<longleftrightarrow>
     m_pOUI1MACRange p \<noteq> None \<and> m_pOUI2MACRange p \<noteq> None \<and> m_strNetplaneUUID p \<noteq> [] \<and>
     (\<forall>c. m_pOUI1MACRange p = Some c \<or> m_pOUI2MACRange p = Some c \<longrightarrow>
        (\<forall>r \<in> set (m_vecMACRange c). range_of_netplane (m_dwOUI c) np d r))"

lemma AllocMAC_live:
  assumes "mac_live (m_strNetplaneUUID p) np d" and "pool_of_netplane np d p" and "own_addrs np d (pool_addrs p)"
  shows "if pool_addrs p \<subseteq> mac_used d then CMACPool_AllocMAC big rnd key t0 p d = Some (- 1, t0, d)
    else \<exists>n \<in> pool_addrs p. \<exists>d'. saved_live (m_strNetplaneUUID p) n d d' \<and>
           CMACPool_AllocMAC big rnd key t0 p d = Some (0, mac_text_of n, d')"
proof -
  let ?u = "m_strNetplaneUUID p"
  obtain c1 c2 where c: "m_pOUI1MACRange p = Some c1" "m_pOUI2MACRange p = Some c2" "?u \<noteq> []"
    using assms(2) by (auto simp: pool_of_netplane_def)
  have addr: "mac_num \<lparr>dwOUI = m_dwOUI c, dwData = i\<rparr> \<in> pool_addrs p"
    if "c = c1 \<or> c = c2" "r \<in> set (m_vecMACRange c)" "in_item i r" for c r i
    using that c by (auto simp: pool_addrs_def)
  have rng: "range_of_netplane (m_dwOUI c) np d r" "item_nums r \<subseteq> pool_addrs p"
    if "c = c1 \<or> c = c2" "r \<in> set (m_vecMACRange c)" for c r
  proof -
    show r: "range_of_netplane (m_dwOUI c) np d r" using that c assms(2) by (auto simp: pool_of_netplane_def)
    then have "loaded_range (m_dwOUI c) r" by (simp add: range_of_netplane_def)
    from item_nums_addrs(1) [OF this] show "item_nums r \<subseteq> pool_addrs p" using addr [OF that] by auto
  qed
  have ok: "\<forall>r \<in> set (m_vecMACRange c). range_of_netplane (m_dwOUI c) np d r \<and> own_addrs np d (item_nums r)"
    if "c = c1 \<or> c = c2" for c
    using rng [OF that] assms(3) by (force simp: own_addrs_def)
  let ?full = "\<lambda>c. \<forall>r \<in> set (m_vecMACRange c). item_nums r \<subseteq> mac_alloc d np"
  have full: "pool_addrs p \<subseteq> mac_used d \<longleftrightarrow> ?full c1 \<and> ?full c2"
  proof
    assume "pool_addrs p \<subseteq> mac_used d"
    then have "pool_addrs p \<subseteq> mac_alloc d np" using assms(3) by (auto simp: own_addrs_def)
    then show "?full c1 \<and> ?full c2" using rng(2) by blast
  next
    assume a: "?full c1 \<and> ?full c2"
    show "pool_addrs p \<subseteq> mac_used d"
    proof
      fix n assume "n \<in> pool_addrs p"
      then obtain c' r i where n: "c' = c1 \<or> c' = c2" "r \<in> set (m_vecMACRange c')" "in_item i r"
        "n = mac_num \<lparr>dwOUI = m_dwOUI c', dwData = i\<rparr>" using c by (auto simp: pool_addrs_def)
      have "loaded_range (m_dwOUI c') r" using rng(1) [OF n(1,2)] by (simp add: range_of_netplane_def)
      from item_nums_addrs(1) [OF this] have "n \<in> item_nums r" using n(3,4) by blast
      then show "n \<in> mac_used d" using a n(1,2) mac_alloc_used [of d np] by blast
    qed
  qed
  note a1 = AllocMACAtRange_live [OF assms(1) ok [of c1], of big "rnd 1" key t0]
  note a2 = AllocMACAtRange_live [OF assms(1) ok [of c2], of big "rnd 2" key t0]
  show ?thesis
  proof (cases "?full c1")
    case True
    then have one: "CMACPool_AllocMAC big rnd key t0 p d =
      (if m_vecMACRange c2 = [] then Some (- 1, t0, d)
       else case AllocMACAtRange big (rnd 2) ?u (m_vecMACRange c2) (m_dwOUI c2) key t0 d of
              None \<Rightarrow> None
            | Some (nRet, s, d1) \<Rightarrow> if 0 = nRet then Some (0, s, d1) else Some (- 1, t0, d1))"
      using c a1 by (simp add: CMACPool_AllocMAC_def Let_def)
    show ?thesis
    proof (cases "?full c2")
      case True
      then show ?thesis using one a2 full \<open>?full c1\<close> by simp
    next
      case False
      then obtain r i d' where r: "r \<in> set (m_vecMACRange c2)" "in_item i r"
        "saved_live ?u (mac_num \<lparr>dwOUI = m_dwOUI c2, dwData = i\<rparr>) d d'"
        "AllocMACAtRange big (rnd 2) ?u (m_vecMACRange c2) (m_dwOUI c2) key t0 d =
           Some (0, mac_text_of (mac_num \<lparr>dwOUI = m_dwOUI c2, dwData = i\<rparr>), d')"
        using a2 by (simp only: simp_thms if_False) blast
      then have "m_vecMACRange c2 \<noteq> []" by auto
      then show ?thesis using one r addr [OF _ r(1,2)] full False by auto
    qed
  next
    case False
    then obtain r i d' where r: "r \<in> set (m_vecMACRange c1)" "in_item i r"
      "saved_live ?u (mac_num \<lparr>dwOUI = m_dwOUI c1, dwData = i\<rparr>) d d'"
      "AllocMACAtRange big (rnd 1) ?u (m_vecMACRange c1) (m_dwOUI c1) key t0 d =
         Some (0, mac_text_of (mac_num \<lparr>dwOUI = m_dwOUI c1, dwData = i\<rparr>), d')"
      using a1 by (simp only: simp_thms if_False) blast
    then have "m_vecMACRange c1 \<noteq> []" by auto
    then have "CMACPool_AllocMAC big rnd key t0 p d =
        Some (0, mac_text_of (mac_num \<lparr>dwOUI = m_dwOUI c1, dwData = i\<rparr>), d')"
      using c r(4) by (simp add: CMACPool_AllocMAC_def Let_def)
    then show ?thesis using r(3) addr [OF _ r(1,2)] full False by auto
  qed
qed

end
