(* ===== verification/MacRangeStore.thy ===== *)
theory MacRangeStore
  imports MacLive RangeSync
begin

text \<open>
  The rows of table \<open>mac_range\<close> with one OUI as the store of \<open>range_store\<close>: what \<open>Add\<close> and \<open>Del\<close> of
  \<open>CDBOperateNetplaneMacRange\<close> do to the ranges of one netplane, and that they touch nothing else. The
  texts of a row are not determined by its numbers: the first row of an OUI keeps the texts of the
  message, the computed ones have the texts of \<open>GetStringMAC\<close>.
\<close>

section \<open>Rows and ranges\<close>

definition row_item :: "CDbNetplaneMacRange \<Rightarrow> TMACRangeItem" where
  "row_item r = \<lparr>tStartMAC = num_mac (BeginNum r), tEndMAC = num_mac (EndNum r)\<rparr>"

definition item_row :: "string \<Rightarrow> TMACRangeItem \<Rightarrow> CDbNetplaneMacRange" where
  "item_row u i =
     \<lparr>Uuid = u, BeginNum = mac_num (tStartMAC i), EndNum = mac_num (tEndMAC i),
      BeginStr = GetStringMAC (snd (SetMAC_uint32 (tStartMAC i) CMACAddr_new)),
      EndStr = GetStringMAC (snd (SetMAC_uint32 (tEndMAC i) CMACAddr_new))\<rparr>"

definition mac_np_rows :: "string \<Rightarrow> mdb \<Rightarrow> CDbNetplaneMacRange list" where
  "mac_np_rows u d =
     (case np_lookup u d of
        None \<Rightarrow> []
      | Some np \<Rightarrow> map (\<lambda>r. \<lparr>Uuid = u, BeginNum = mr_begin_num r, EndNum = mr_end_num r,
                           BeginStr = mr_begin r, EndStr = mr_end r\<rparr>)
                      (filter (\<lambda>r. mr_netplane_id r = np) (mac_range d)))"

lemma pf_net_query_netplane_macrange_rows:
  "pf_net_query_netplane_macrange u d = Some (mac_np_rows u d, d)"
  by (simp add: pf_net_query_netplane_macrange_def mac_np_rows_def split: option.splits)

text \<open>The filter of the managers: both ends have the OUI.\<close>

definition nums_of_oui :: "uint32 \<Rightarrow> int \<Rightarrow> int \<Rightarrow> bool" where
  "nums_of_oui oui b e \<longleftrightarrow> dwOUI (num_mac b) = oui \<and> dwOUI (num_mac e) = oui"

definition of_oui :: "uint32 \<Rightarrow> CDbNetplaneMacRange \<Rightarrow> bool" where
  "of_oui oui r \<longleftrightarrow> nums_of_oui oui (BeginNum r) (EndNum r)"

definition oui_rows :: "uint32 \<Rightarrow> string \<Rightarrow> mdb \<Rightarrow> CDbNetplaneMacRange list" where
  "oui_rows oui u d = filter (of_oui oui) (mac_np_rows u d)"

definition oui_ranges :: "uint32 \<Rightarrow> string \<Rightarrow> mdb \<Rightarrow> TMACRangeItem list" where
  "oui_ranges oui u d = map row_item (oui_rows oui u d)"

definition good_mac_item :: "uint32 \<Rightarrow> TMACRangeItem \<Rightarrow> bool" where
  "good_mac_item oui i \<longleftrightarrow> mac_range_ok oui i \<and> mac24 (tStartMAC i) \<and> mac24 (tEndMAC i)"

definition good_mac_row :: "string \<Rightarrow> uint32 \<Rightarrow> CDbNetplaneMacRange \<Rightarrow> bool" where
  "good_mac_row u oui r \<longleftrightarrow> Uuid r = u \<and> good_mac_item oui (row_item r) \<and>
     mac_num (num_mac (BeginNum r)) = BeginNum r \<and> mac_num (num_mac (EndNum r)) = EndNum r"

lemma row_item_row [simp]: "good_mac_item oui i \<Longrightarrow> row_item (item_row u i) = i"
  by (simp add: good_mac_item_def row_item_def item_row_def num_mac_mac_num)

lemma item_row_sel [simp]:
  "Uuid (item_row u i) = u" "BeginNum (item_row u i) = mac_num (tStartMAC i)"
  "EndNum (item_row u i) = mac_num (tEndMAC i)"
  by (simp_all add: item_row_def)

lemma good_mac_item_row:
  assumes "good_mac_item oui i"
  shows "good_mac_row u oui (item_row u i)" and "of_oui oui (item_row u i)"
proof -
  show "good_mac_row u oui (item_row u i)"
    using assms by (simp add: good_mac_row_def) (simp add: good_mac_item_def num_mac_mac_num)
  show "of_oui oui (item_row u i)"
    using assms by (simp add: of_oui_def nums_of_oui_def good_mac_item_def mac_range_ok_def num_mac_mac_num)
qed

section \<open>What \<open>Add\<close> and \<open>Del\<close> change\<close>

text \<open>Two databases that agree on all but the ranges of netplane \<open>u\<close> with one OUI.\<close>

definition other_row :: "uint32 \<Rightarrow> string \<Rightarrow> mdb \<Rightarrow> mac_range_row \<Rightarrow> bool" where
  "other_row oui u d r \<longleftrightarrow>
     Some (mr_netplane_id r) \<noteq> np_lookup u d \<or> \<not> nums_of_oui oui (mr_begin_num r) (mr_end_num r)"

definition mac_rest_same :: "uint32 \<Rightarrow> string \<Rightarrow> mdb \<Rightarrow> mdb \<Rightarrow> bool" where
  "mac_rest_same oui u d d' \<longleftrightarrow>
     d\<lparr>mac_range := [], serial_mac_range := 0, env := []\<rparr> =
       d'\<lparr>mac_range := [], serial_mac_range := 0, env := []\<rparr> \<and>
     filter (other_row oui u d) (mac_range d) = filter (other_row oui u d) (mac_range d')"

lemma mac_rest_same_tables:
  assumes "mac_rest_same oui u d d'"
  shows "netplane d' = netplane d" "mac_pool d' = mac_pool d" "vsi_mac_id d' = vsi_mac_id d"
    "port_group d' = port_group d" "np_lookup v d' = np_lookup v d" "m_bInit d' = m_bInit d"
    "serial_mac_pool d' = serial_mac_pool d"
proof -
  have e: "f (d'\<lparr>mac_range := [], serial_mac_range := 0, env := []\<rparr>) =
           f (d\<lparr>mac_range := [], serial_mac_range := 0, env := []\<rparr>)" for f :: "mdb \<Rightarrow> 'b"
    using assms by (simp add: mac_rest_same_def)
  show n: "netplane d' = netplane d" using e [of netplane] by simp
  show "mac_pool d' = mac_pool d" using e [of mac_pool] by simp
  show "vsi_mac_id d' = vsi_mac_id d" using e [of vsi_mac_id] by simp
  show "port_group d' = port_group d" using e [of port_group] by simp
  show "np_lookup v d' = np_lookup v d" using n by (simp add: np_lookup_def)
  show "m_bInit d' = m_bInit d" using e [of m_bInit] by simp
  show "serial_mac_pool d' = serial_mac_pool d" using e [of serial_mac_pool] by simp
qed

lemma mac_rest_same_refl [simp]: "mac_rest_same oui u d d"
  by (simp add: mac_rest_same_def)

lemma other_row_same: "np_lookup u d' = np_lookup u d \<Longrightarrow> other_row oui u d' = other_row oui u d"
  by (simp add: fun_eq_iff other_row_def)

lemma mac_rest_same_trans: "mac_rest_same oui u a b \<Longrightarrow> mac_rest_same oui u b c \<Longrightarrow> mac_rest_same oui u a c"
  using mac_rest_same_tables(5) [of oui u a b u] other_row_same [of u b a oui] by (simp add: mac_rest_same_def)

lemma same_tables_mac_rows:
  assumes "same_tables d d'"
  shows "mac_range d' = mac_range d" "np_lookup u d' = np_lookup u d" "mac_np_rows u d' = mac_np_rows u d"
    "oui_rows oui u d' = oui_rows oui u d" "mac_rest_same oui u d d'"
proof -
  have e: "d'\<lparr>env := []\<rparr> = d\<lparr>env := []\<rparr>" using assms by (simp add: same_tables_def)
  show r: "mac_range d' = mac_range d" using arg_cong [OF e, of mac_range] by simp
  have "netplane d' = netplane d" using arg_cong [OF e, of netplane] by simp
  then show l: "np_lookup u d' = np_lookup u d" by (simp add: np_lookup_def)
  show n: "mac_np_rows u d' = mac_np_rows u d" by (simp add: mac_np_rows_def r l split: option.split)
  then show "oui_rows oui u d' = oui_rows oui u d" by (simp add: oui_rows_def)
  have "d'\<lparr>mac_range := [], serial_mac_range := 0, env := []\<rparr> =
        d\<lparr>mac_range := [], serial_mac_range := 0, env := []\<rparr>"
    using arg_cong [OF e, of "\<lambda>x. x\<lparr>mac_range := [], serial_mac_range := 0, env := []\<rparr>"] by simp
  then show "mac_rest_same oui u d d'" by (simp add: mac_rest_same_def r l)
qed

definition to_row :: "string \<Rightarrow> mac_range_row \<Rightarrow> CDbNetplaneMacRange" where
  "to_row u r = \<lparr>Uuid = u, BeginNum = mr_begin_num r, EndNum = mr_end_num r, BeginStr = mr_begin r,
     EndStr = mr_end r\<rparr>"

lemma oui_rows_eq:
  "oui_rows oui u d = map (to_row u) (filter (\<lambda>r. \<not> other_row oui u d r) (mac_range d))"
  by (cases "np_lookup u d")
    (auto simp: oui_rows_def mac_np_rows_def filter_map o_def of_oui_def to_row_def other_row_def
      intro!: arg_cong [where f = "map _"] filter_cong)

lemma pf_net_add_netplane_macrange_effect:
  assumes "pf_net_add_netplane_macrange r d = Some (ret, d')" and "of_oui oui r"
  shows "mac_rest_same oui (Uuid r) d d' \<and> 0 \<le> ret \<and> ret \<noteq> RTN_HAS_SAME_ITEM \<and>
         (if ret = 0 then oui_rows oui (Uuid r) d' = oui_rows oui (Uuid r) d @ [r]
          else oui_rows oui (Uuid r) d' = oui_rows oui (Uuid r) d)"
proof (cases "np_lookup (Uuid r) d")
  case None
  then show ?thesis
    using assms by (auto simp: pf_net_add_netplane_macrange_def rtn_defs
        pf_net_check_add_netplane_macrange_def)
next
  case (Some np)
  show ?thesis
  proof (cases "pf_net_check_add_netplane_macrange r d > 0")
    case True
    then show ?thesis using assms Some
      by (auto simp: pf_net_add_netplane_macrange_def pf_net_check_add_netplane_macrange_def
          rtn_defs split: if_splits)
  next
    case False
    let ?d1 = "d\<lparr>serial_mac_range := serial_mac_range d + 1\<rparr>"
    let ?r = "\<lparr>mr_id = serial_mac_range d + 1, mr_netplane_id = np, mr_begin = BeginStr r,
      mr_end = EndStr r, mr_begin_num = BeginNum r, mr_end_num = EndNum r\<rparr>"
    have i: "(case insert_mac_range ?r ?d1 of None \<Rightarrow> Some (RTN_OPERATOR_FAILED, ?d1)
              | Some d2 \<Rightarrow> Some (0, d2)) = Some (ret, d')"
      using assms False Some by (simp add: pf_net_add_netplane_macrange_def Let_def)
    have o1: "other_row oui (Uuid r) ?d1 = other_row oui (Uuid r) d"
      by (rule other_row_same) (simp add: np_lookup_def)
    have same: "oui_rows oui (Uuid r) ?d1 = oui_rows oui (Uuid r) d" "mac_rest_same oui (Uuid r) d ?d1"
      by (simp_all add: oui_rows_eq o1 mac_rest_same_def)
    show ?thesis
    proof (cases "insert_mac_range ?r ?d1")
      case None
      then show ?thesis using i same by (auto simp: rtn_defs)
    next
      case (Some d2)
      then have d': "ret = 0" "d' = ?d1\<lparr>mac_range := mac_range d @ [?r]\<rparr>"
        using i by (auto simp: insert_mac_range_def split: if_splits)
      have o2: "other_row oui (Uuid r) d' = other_row oui (Uuid r) d"
        by (rule other_row_same) (simp add: d'(2) np_lookup_def)
      have mine: "\<not> other_row oui (Uuid r) d ?r"
        using assms(2) \<open>np_lookup (Uuid r) d = Some np\<close> by (simp add: other_row_def of_oui_def)
      have t: "to_row (Uuid r) ?r = r" by (simp add: to_row_def)
      have "mac_rest_same oui (Uuid r) d d'" using d' mine by (simp add: mac_rest_same_def)
      moreover have "oui_rows oui (Uuid r) d' = oui_rows oui (Uuid r) d @ [r]"
        unfolding oui_rows_eq o2 using mine t d'(2) by simp
      ultimately show ?thesis using d'(1) by (simp add: rtn_defs)
    qed
  qed
qed

lemma is_mac_range_row_eq: "is_mac_range_row np r x \<longleftrightarrow> mr_netplane_id x = np \<and> to_row (Uuid r) x = r"
  by (cases r) (auto simp: is_mac_range_row_def to_row_def)

lemma pf_net_del_netplane_macrange_effect:
  assumes "pf_net_del_netplane_macrange r d = Some (ret, d')" and "of_oui oui r"
  shows "mac_rest_same oui (Uuid r) d d' \<and> 0 \<le> ret \<and>
         (if ret = 0 then oui_rows oui (Uuid r) d' = filter (\<lambda>s. s \<noteq> r) (oui_rows oui (Uuid r) d)
          else oui_rows oui (Uuid r) d' = oui_rows oui (Uuid r) d)"
proof (cases "np_lookup (Uuid r) d")
  case None
  then show ?thesis
    using assms by (auto simp: pf_net_del_netplane_macrange_def rtn_defs)
next
  case (Some np)
  show ?thesis
  proof (cases "ret = 0")
    case False
    then show ?thesis using assms Some
      by (auto simp: pf_net_del_netplane_macrange_def rtn_defs split: if_splits)
  next
    case True
    then have d': "d' = d\<lparr>mac_range := filter (\<lambda>x. \<not> is_mac_range_row np r x) (mac_range d)\<rparr>"
      using assms Some
      by (auto simp: pf_net_del_netplane_macrange_def rtn_defs split: if_splits)
    have o2: "other_row oui (Uuid r) d' = other_row oui (Uuid r) d"
      by (rule other_row_same) (simp add: d' np_lookup_def)
    have mine: "\<not> other_row oui (Uuid r) d x" if "is_mac_range_row np r x" for x
      using that assms(2) Some by (auto simp: is_mac_range_row_def other_row_def of_oui_def)
    have "oui_rows oui (Uuid r) d' = filter (\<lambda>s. s \<noteq> r) (oui_rows oui (Uuid r) d)"
      unfolding oui_rows_eq o2 using Some
      by (auto simp: d' filter_map o_def is_mac_range_row_eq other_row_def
          intro!: arg_cong [where f = "map _"] filter_cong)
    moreover have "mac_rest_same oui (Uuid r) d d'"
      using mine by (auto simp: mac_rest_same_def d' intro!: filter_cong)
    ultimately show ?thesis using True by simp
  qed
qed

text \<open>The two operations of the class, whatever happens to the call.\<close>

lemma MacRange_Add_effect:
  assumes "MacRange_Add r d = (ret, d')" and "Uuid r = u" and "of_oui oui r"
  shows "mac_rest_same oui u d d'" and "ret = 0 \<Longrightarrow> oui_rows oui u d' = oui_rows oui u d @ [r]"
    and "oui_rows oui u d' = oui_rows oui u d \<or> oui_rows oui u d' = oui_rows oui u d @ [r]"
proof -
  have "mac_rest_same oui u d d' \<and> (ret = 0 \<longrightarrow> oui_rows oui u d' = oui_rows oui u d @ [r]) \<and>
        (oui_rows oui u d' = oui_rows oui u d \<or> oui_rows oui u d' = oui_rows oui u d @ [r])"
    using assms(1) unfolding MacRange_Add_def
  proof (cases rule: db_add_op_cases)
    case idle
    then show ?thesis using same_tables_mac_rows by auto
  next
    case (ran d1 a)
    note e = pf_net_add_netplane_macrange_effect [OF ran(2) assms(3)]
    show ?thesis
      using e ran(1,3) same_tables_mac_rows(4,5) [OF ran(1)] mac_rest_same_trans [of oui u d d1 d']
        assms(2) by (auto split: if_splits)
  qed
  then show "mac_rest_same oui u d d'" and "ret = 0 \<Longrightarrow> oui_rows oui u d' = oui_rows oui u d @ [r]"
    and "oui_rows oui u d' = oui_rows oui u d \<or> oui_rows oui u d' = oui_rows oui u d @ [r]" by auto
qed

lemma MacRange_Del_effect:
  assumes "MacRange_Del r d = (ret, d')" and "Uuid r = u" and "of_oui oui r"
  shows "mac_rest_same oui u d d'"
    and "ret = 0 \<Longrightarrow> oui_rows oui u d' = filter (\<lambda>s. s \<noteq> r) (oui_rows oui u d)"
    and "oui_rows oui u d' = oui_rows oui u d \<or> oui_rows oui u d' = filter (\<lambda>s. s \<noteq> r) (oui_rows oui u d)"
proof -
  have "mac_rest_same oui u d d' \<and> (ret = 0 \<longrightarrow> oui_rows oui u d' = filter (\<lambda>s. s \<noteq> r) (oui_rows oui u d)) \<and>
        (oui_rows oui u d' = oui_rows oui u d \<or> oui_rows oui u d' = filter (\<lambda>s. s \<noteq> r) (oui_rows oui u d))"
    using assms(1) unfolding MacRange_Del_def
  proof (cases rule: db_del_op_cases)
    case idle
    then show ?thesis using same_tables_mac_rows by auto
  next
    case (ran d1 a)
    note e = pf_net_del_netplane_macrange_effect [OF ran(2) assms(3)]
    show ?thesis
      using e ran(1,3) same_tables_mac_rows(4,5) [OF ran(1)] mac_rest_same_trans [of oui u d d1 d']
        assms(2) by (auto split: if_splits)
  qed
  then show "mac_rest_same oui u d d'"
    and "ret = 0 \<Longrightarrow> oui_rows oui u d' = filter (\<lambda>s. s \<noteq> r) (oui_rows oui u d)"
    and "oui_rows oui u d' = oui_rows oui u d \<or> oui_rows oui u d' = filter (\<lambda>s. s \<noteq> r) (oui_rows oui u d)"
    by auto
qed

text \<open>Reading the rows changes nothing, and an answer is the rows of the netplane.\<close>

lemma MacRange_Query_effect:
  assumes "MacRange_Query u d = (ret, rows, d')"
  shows "same_tables d d'" and "ret = 0 \<Longrightarrow> rows = mac_np_rows u d"
proof -
  have "same_tables d d' \<and> (ret = 0 \<longrightarrow> rows = mac_np_rows u d)"
    using assms unfolding MacRange_Query_def
  proof (cases rule: db_query_op_cases)
    case idle
    then show ?thesis by simp
  next
    case (ran d1 xs)
    have "d' = d1 \<and> xs = mac_np_rows u d1"
      using ran(2) by (auto simp: pf_net_query_netplane_macrange_rows)
    then show ?thesis using ran same_tables_mac_rows(3) [OF ran(1)] by simp
  qed
  then show "same_tables d d'" and "ret = 0 \<Longrightarrow> rows = mac_np_rows u d" by auto
qed

section \<open>The store of one netplane and one OUI\<close>

definition oui_rows_ok :: "uint32 \<Rightarrow> string \<Rightarrow> mdb \<Rightarrow> bool" where
  "oui_rows_ok oui u d \<longleftrightarrow> distinct (oui_ranges oui u d) \<and> (\<forall>r \<in> set (oui_rows oui u d). good_mac_row u oui r)"

definition mac_store_inv :: "uint32 \<Rightarrow> string \<Rightarrow> mdb \<Rightarrow> mdb \<Rightarrow> bool" where
  "mac_store_inv oui u d0 d \<longleftrightarrow> mac_rest_same oui u d0 d \<and> oui_rows_ok oui u d"

lemma same_tables_oui_rows_ok: "same_tables d d' \<Longrightarrow> oui_rows_ok oui u d' = oui_rows_ok oui u d"
  by (simp add: oui_rows_ok_def oui_ranges_def same_tables_mac_rows)

lemma mac_store_inv_row:
  "mac_store_inv oui u d0 d \<Longrightarrow> r \<in> set (oui_rows oui u d) \<Longrightarrow> Uuid r = u \<and> of_oui oui r"
  by (auto simp: mac_store_inv_def oui_rows_ok_def good_mac_row_def oui_rows_def)

interpretation mac_store: range_store "mac_store_inv oui u d0" "\<lambda>d. set (oui_rows oui u d)"
  "good_mac_item oui" row_item "\<lambda>i. MacRange_Add (item_row u i)" MacRange_Del for oui u d0
proof (unfold_locales, goal_cases)
  case (1 d)
  then show ?case by (simp add: mac_store_inv_def oui_rows_ok_def oui_ranges_def distinct_map)
next
  case (2 d i)
  obtain ret d' where a: "MacRange_Add (item_row u i) d = (ret, d')" by fastforce
  note g = good_mac_item_row [OF 2(2), of u]
  note e = MacRange_Add_effect [OF a _ g(2), of u]
  show ?case
    using 2 e(1,3) a g(1) mac_rest_same_trans [of oui u d0 d d']
    by (auto simp: mac_store_inv_def oui_rows_ok_def oui_ranges_def)
next
  case (3 d i)
  obtain ret d' where a: "MacRange_Add (item_row u i) d = (ret, d')" by fastforce
  note e = MacRange_Add_effect(2) [OF a _ good_mac_item_row(2) [OF 3(2)], of u]
  show ?case using e 3(2,4) a by (intro exI [of _ "item_row u i"]) simp
next
  case (4 d i)
  obtain ret d' where a: "MacRange_Add (item_row u i) d = (ret, d')" by fastforce
  note e = MacRange_Add_effect(3) [OF a _ good_mac_item_row(2) [OF 4(2)], of u]
  show ?case
  proof (cases "oui_rows oui u d' = oui_rows oui u d")
    case False
    then show ?thesis using e a 4(2) by (intro disjI2 exI [of _ "item_row u i"]) simp
  qed (simp add: a)
next
  case (5 d r)
  obtain ret d' where a: "MacRange_Del r d = (ret, d')" by fastforce
  note r = mac_store_inv_row [OF 5]
  note e = MacRange_Del_effect [OF a, of u oui]
  show ?case
    using 5 e(1,3) r a mac_rest_same_trans [of oui u d0 d d']
    by (auto simp: mac_store_inv_def oui_rows_ok_def oui_ranges_def intro: distinct_map_filter)
next
  case (6 d r)
  obtain ret d' where a: "MacRange_Del r d = (ret, d')" by fastforce
  show ?case using MacRange_Del_effect(2) [OF a, of u oui] mac_store_inv_row [OF 6(1,2)] 6(3) a by auto
next
  case (7 d r)
  obtain ret d' where a: "MacRange_Del r d = (ret, d')" by fastforce
  show ?case using MacRange_Del_effect(3) [OF a, of u oui] mac_store_inv_row [OF 7] a by auto
qed

section \<open>Calls that do not fail\<close>

definition mac_ranges_live :: "string \<Rightarrow> mdb \<Rightarrow> bool" where
  "mac_ranges_live u d \<longleftrightarrow>
     env d = [] \<and> np_lookup u d \<noteq> None \<and> (\<forall>r \<in> set (mac_range d). mr_id r \<le> serial_mac_range d)"

lemma good_mac_item_le: "good_mac_item oui i \<Longrightarrow> mac_num (tStartMAC i) \<le> mac_num (tEndMAC i)"
  using IsValidMACRange_le [of i] by (simp add: good_mac_item_def mac_range_ok_def mac_num_le_iff)

lemma MacRange_Add_row_live:
  assumes "mac_ranges_live (Uuid r) d" and "BeginNum r \<le> EndNum r"
    and "length (BeginStr r) \<le> VARCHAR_LEN" and "length (EndStr r) \<le> VARCHAR_LEN"
  shows "fst (MacRange_Add r d) = 0 \<and> mac_ranges_live (Uuid r) (snd (MacRange_Add r d))"
proof -
  obtain np where np: "np_lookup (Uuid r) d = Some np" using assms(1) by (auto simp: mac_ranges_live_def)
  have chk: "pf_net_check_add_netplane_macrange r d = 0"
    using assms(2) np by (simp add: pf_net_check_add_netplane_macrange_def)
  let ?i = "serial_mac_range d + 1"
  let ?row = "\<lparr>mr_id = ?i, mr_netplane_id = np, mr_begin = BeginStr r, mr_end = EndStr r,
    mr_begin_num = BeginNum r, mr_end_num = EndNum r\<rparr>"
  let ?d2 = "d\<lparr>serial_mac_range := ?i, mac_range := mac_range d @ [?row]\<rparr>"
  have ids: "?i \<notin> mr_id ` set (mac_range d)" using assms(1) by (force simp: mac_ranges_live_def)
  have "pf_net_add_netplane_macrange r d = Some (0, ?d2)"
    using chk np assms(3,4) ids by (simp add: pf_net_add_netplane_macrange_def insert_mac_range_def Let_def)
  then have "MacRange_Add r d = (0, ?d2)"
    using assms(1) by (simp add: MacRange_Add_def db_add_op_def Handle_run mac_ranges_live_def rtn_defs)
  moreover have "mac_ranges_live (Uuid r) ?d2"
    using assms(1) by (fastforce simp: mac_ranges_live_def np_lookup_def)
  ultimately show ?thesis by simp
qed

lemma MacRange_Del_live:
  assumes "mac_ranges_live u d" and "Uuid r = u" and "BeginNum r \<le> EndNum r" and "r \<in> set (oui_rows oui u d)"
  shows "fst (MacRange_Del r d) = 0 \<and> mac_ranges_live u (snd (MacRange_Del r d))"
proof -
  obtain np where np: "np_lookup u d = Some np" using assms(1) by (auto simp: mac_ranges_live_def)
  let ?d2 = "d\<lparr>mac_range := filter (\<lambda>x. \<not> is_mac_range_row np r x) (mac_range d)\<rparr>"
  have "filter (is_mac_range_row np r) (mac_range d) \<noteq> []"
    using assms(4) np by (auto simp: oui_rows_eq is_mac_range_row_def to_row_def other_row_def filter_empty_conv)
  then have "pf_net_del_netplane_macrange r d = Some (0, ?d2)"
    using np assms(2,3) by (simp add: pf_net_del_netplane_macrange_def)
  then have "MacRange_Del r d = (0, ?d2)"
    using assms(1) by (simp add: MacRange_Del_def db_del_op_def Handle_run mac_ranges_live_def rtn_defs)
  moreover have "mac_ranges_live u ?d2" using assms(1) by (auto simp: mac_ranges_live_def np_lookup_def)
  ultimately show ?thesis by simp
qed

interpretation mac_store_live: live_store "mac_store_inv oui u d0" "\<lambda>d. set (oui_rows oui u d)"
  "good_mac_item oui" row_item "\<lambda>i. MacRange_Add (item_row u i)" MacRange_Del "mac_ranges_live u" for oui u d0
proof (unfold_locales, goal_cases)
  case (1 d i)
  then show ?case
    using MacRange_Add_row_live [of "item_row u i" d] good_mac_item_le [OF 1(3)]
    by (simp add: item_row_def VARCHAR_LEN_def)
next
  case (2 d r)
  then have r: "good_mac_row u oui r" by (simp add: mac_store_inv_def oui_rows_ok_def)
  then have "BeginNum r \<le> EndNum r"
    using good_mac_item_le [of oui "row_item r"] by (simp add: good_mac_row_def row_item_def)
  then show ?case using MacRange_Del_live 2(2,3) r by (simp add: good_mac_row_def)
qed

end
