(* ===== verification/Vnic.thy ===== *)
theory Vnic
  imports Prelude
begin

text \<open>
  The network cards of a virtual machine (\<open>CVNetVnicMem\<close> in \<open>vnet_vnic.h\<close>), cut to what the pool managers read
  and write. The IPv4 manager extends the record by its own fields.
\<close>

text \<open>The index of a card, and the port group and the address in its VSI profile (\<open>GetVmPgUuid\<close>, \<open>GetMac\<close>).\<close>

record CVNetVnicMem =
  m_strVmPGID :: string
  m_nNicIndex :: uint32
  m_strMac :: string

end
