(* ===== verification/MacPoolMgr.thy ===== *)
theory MacPoolMgr
  imports MacRangeStore Vnic
begin

text \<open>
  \<open>CMACPoolMgr\<close> (\<open>mac_pool_mgr.cpp\<close>): the MAC ranges of a netplane are loaded from the database by their
  OUI, changed with \<open>CMACRange\<close> and written back row by row, and the network cards of a virtual machine
  get and release addresses. The texts of the replies are left out, their result codes kept.
\<close>

section \<open>Messages and codes\<close>

definition MAC_RANGE_OPER_SUCCESS :: rc where "MAC_RANGE_OPER_SUCCESS = 0"
definition MAC_RANGE_CFG_PARAM_ERROR :: rc where "MAC_RANGE_CFG_PARAM_ERROR = 1131"
definition MAC_RANGE_CALC_ERROR :: rc where "MAC_RANGE_CALC_ERROR = 1132"
definition MAC_RANGE_NOT_EXIST :: rc where "MAC_RANGE_NOT_EXIST = 1133"
definition MAC_RANGE_INVALID :: rc where "MAC_RANGE_INVALID = 1134"
definition MAC_OUI_INVALID :: rc where "MAC_OUI_INVALID = 1135"
definition MAC_PARSE_ERROR :: rc where "MAC_PARSE_ERROR = 1136"
definition MAC_RANGE_OCCUPIED :: rc where "MAC_RANGE_OCCUPIED = 1137"
definition MAC_RANGE_GET_DB_INTF_ERROR :: rc where "MAC_RANGE_GET_DB_INTF_ERROR = 1138"

lemmas mac_mgr_codes [code_defs] = MAC_RANGE_OPER_SUCCESS_def MAC_RANGE_CFG_PARAM_ERROR_def
  MAC_RANGE_CALC_ERROR_def MAC_RANGE_NOT_EXIST_def MAC_RANGE_INVALID_def MAC_OUI_INVALID_def
  MAC_PARSE_ERROR_def MAC_RANGE_OCCUPIED_def MAC_RANGE_GET_DB_INTF_ERROR_def
  PORTGROUP_OPER_SUCCESS_def VNET_DB_SUCCESS_def

record CMACRangeMsg =
  m_strMACStart :: string
  m_strMACEnd :: string
  m_strMsgNetplaneUUID :: string
  m_dwMACOper :: uint32

definition EN_ADD_MAC_RANGE :: uint32 where "EN_ADD_MAC_RANGE = 1"
definition EN_DEL_MAC_RANGE :: uint32 where "EN_DEL_MAC_RANGE = 2"
definition EN_MAC_RANGE_OPER_ALL :: uint32 where "EN_MAC_RANGE_OPER_ALL = 3"

definition IsValidMACOper :: "CMACRangeMsg \<Rightarrow> bool" where
  "IsValidMACOper m \<longleftrightarrow> m_dwMACOper m > 0 \<and> m_dwMACOper m < EN_MAC_RANGE_OPER_ALL"

definition IsValidMACMsgRange :: "CMACRangeMsg \<Rightarrow> bool" where
  "IsValidMACMsgRange m \<longleftrightarrow> \<not> (m_strMACStart m = [] \<or> m_strMACEnd m = [])"

section \<open>Reading the ranges\<close>

text \<open>\<open>m_dwOUI\<close> is not set by the constructor; every use of a container is behind a successful \<open>Init\<close>.\<close>

definition CMACRange_new :: CMACRange where
  "CMACRange_new = \<lparr>m_dwOUI = 0, m_vecMACRange = []\<rparr>"

text \<open>The rows of \<open>GetMACRange\<close> go to the container of their OUI; rows with another OUI are passed over.\<close>

fun load_two :: "CDbNetplaneMacRange list \<Rightarrow> CMACRange \<Rightarrow> CMACRange \<Rightarrow> rc \<times> CMACRange \<times> CMACRange" where
  "load_two [] c1 c2 = (0, c1, c2)"
| "load_two (r # rs) c1 c2 =
     (let i = row_item r in
      case (if dwOUI (tStartMAC i) = c_dwZTEOUI1 then CMACRange_AddValidRange i c1 else (0, c1)) of
        (r1, c1') \<Rightarrow>
          if 0 \<noteq> r1 then (- 1, c1', c2)
          else (case (if dwOUI (tStartMAC i) = c_dwZTEOUI2 then CMACRange_AddValidRange i c2 else (0, c2)) of
                  (r2, c2') \<Rightarrow> if 0 \<noteq> r2 then (- 1, c1', c2') else load_two rs c1' c2'))"

definition GetMACRange :: "string \<Rightarrow> mdb \<Rightarrow> rc \<times> CMACRange \<times> CMACRange \<times> mdb" where
  "GetMACRange u d =
     (if u = [] then (- 1, CMACRange_new, CMACRange_new, d)
      else if \<not> m_bInit d then (- 1, CMACRange_new, CMACRange_new, d)
      else case MacRange_Query u d of
             (nRet, outVInfo, d1) \<Rightarrow>
               if VNET_DB_SUCCESS \<noteq> nRet then (- 1, CMACRange_new, CMACRange_new, d1)
               else if outVInfo = [] then (- 1, CMACRange_new, CMACRange_new, d1)
               else (case load_two outVInfo (snd (CMACRange_Init c_dwZTEOUI1 CMACRange_new))
                            (snd (CMACRange_Init c_dwZTEOUI2 CMACRange_new)) of
                       (r, c1, c2) \<Rightarrow> (r, c1, c2, d1)))"

section \<open>Changing the ranges\<close>

text \<open>The common start of both operations (lines 273-310): the range of the message, or the error code.\<close>

definition mac_msg_item :: "CMACRangeMsg \<Rightarrow> rc + TMACRangeItem" where
  "mac_msg_item m =
     (if m_strMsgNetplaneUUID m = [] then Inl MAC_RANGE_CFG_PARAM_ERROR
      else if \<not> IsValidMACMsgRange m then Inl MAC_RANGE_CFG_PARAM_ERROR
      else case SetMAC (m_strMACStart m) CMACAddr_new of
             (r, a) \<Rightarrow>
               if 0 \<noteq> r then Inl MAC_PARSE_ERROR
               else (case SetMAC (m_strMACEnd m) a of
                       (r, b) \<Rightarrow>
                         if 0 \<noteq> r then Inl MAC_PARSE_ERROR
                         else let i = \<lparr>tStartMAC = GetUInt32MAC a, tEndMAC = GetUInt32MAC b\<rparr> in
                           if \<not> IsValidMACRange i then Inl MAC_RANGE_INVALID else Inr i))"

text \<open>The loop that erases the rows of other OUIs and loads the rest (lines 345-372).\<close>

fun filter_oui :: "uint32 \<Rightarrow> CDbNetplaneMacRange list \<Rightarrow> CMACRange \<Rightarrow> CDbNetplaneMacRange list \<times> CMACRange" where
  "filter_oui oui [] c = ([], c)"
| "filter_oui oui (r # rs) c =
     (if dwOUI (num_mac (BeginNum r)) \<noteq> oui then filter_oui oui rs c
      else if dwOUI (num_mac (EndNum r)) \<noteq> oui then filter_oui oui rs c
      else case filter_oui oui rs (snd (CMACRange_AddValidRange (row_item r) c)) of
             (out, c1) \<Rightarrow> (r # out, c1))"

text \<open>The common end of both operations (lines 426-498 and 690-760).\<close>

definition save_mac_ranges ::
  "string \<Rightarrow> TMACRangeItem list \<Rightarrow> CDbNetplaneMacRange list \<Rightarrow> mdb \<Rightarrow> rc \<times> mdb" where
  "save_mac_ranges u calc outVInfo d =
     sync_rows (\<lambda>i. MacRange_Add (item_row u i)) MacRange_Del row_item calc outVInfo d"

text \<open>The first range of an OUI is stored with the texts of the message.\<close>

definition first_mac_row :: "CMACRangeMsg \<Rightarrow> TMACRangeItem \<Rightarrow> CDbNetplaneMacRange" where
  "first_mac_row m i =
     \<lparr>Uuid = m_strMsgNetplaneUUID m, BeginNum = mac_num (tStartMAC i), EndNum = mac_num (tEndMAC i),
      BeginStr = c_str (m_strMACStart m), EndStr = c_str (m_strMACEnd m)\<rparr>"

definition AddMACRange :: "CMACRangeMsg \<Rightarrow> mdb \<Rightarrow> rc \<times> mdb" where
  "AddMACRange m d =
     (case mac_msg_item m of
        Inl c \<Rightarrow> (c, d)
      | Inr tNewItem \<Rightarrow>
          let u = m_strMsgNetplaneUUID m; oui = dwOUI (tStartMAC tNewItem) in
          if \<not> m_bInit d then (MAC_RANGE_GET_DB_INTF_ERROR, d)
          else case MacRange_Query u d of
                 (nRet, outVInfo, d1) \<Rightarrow>
                   if VNET_DB_SUCCESS \<noteq> nRet then (nRet, d1)
                   else (case CMACRange_Init oui CMACRange_new of
                           (r, c) \<Rightarrow>
                             if 0 \<noteq> r then (MAC_OUI_INVALID, d1)
                             else (case filter_oui oui outVInfo c of
                                     (out, c1) \<Rightarrow>
                                       if out = [] \<or> m_vecMACRange c1 = [] then
                                         (case MacRange_Add (first_mac_row m tNewItem) d1 of
                                            (nRet, d2) \<Rightarrow>
                                              if VNET_DB_SUCCESS \<noteq> nRet then (nRet, d2)
                                              else (MAC_RANGE_OPER_SUCCESS, d2))
                                       else (case CMACRange_AddRange tNewItem c1 of
                                               (nRet, c2) \<Rightarrow>
                                                 if 0 \<noteq> nRet then (MAC_RANGE_CALC_ERROR, d1)
                                                 else save_mac_ranges u (m_vecMACRange c2) out d1))))"

definition DelMACRange :: "CMACRangeMsg \<Rightarrow> mdb \<Rightarrow> rc \<times> mdb" where
  "DelMACRange m d =
     (case mac_msg_item m of
        Inl c \<Rightarrow> (c, d)
      | Inr tNewItem \<Rightarrow>
          let u = m_strMsgNetplaneUUID m; oui = dwOUI (tStartMAC tNewItem) in
          if \<not> m_bInit d then (MAC_RANGE_GET_DB_INTF_ERROR, d)
          else case MacRange_Query u d of
                 (nRet, outVInfo, d1) \<Rightarrow>
                   if VNET_DB_SUCCESS \<noteq> nRet then (nRet, d1)
                   else (case CMACRange_Init oui CMACRange_new of
                           (r, c) \<Rightarrow>
                             if 0 \<noteq> r then (MAC_OUI_INVALID, d1)
                             else (case filter_oui oui outVInfo c of
                                     (out, c1) \<Rightarrow>
                                       if out = [] \<or> m_vecMACRange c1 = [] then (MAC_RANGE_NOT_EXIST, d1)
                                       else (case MacRange_QueryAllocNum u (mac_num (tStartMAC tNewItem))
                                                    (mac_num (tEndMAC tNewItem)) d1 of
                                               (nRet, nOccNum, d2) \<Rightarrow>
                                                 if VNET_DB_SUCCESS \<noteq> nRet then (nRet, d2)
                                                 else if 0 \<noteq> nOccNum then (MAC_RANGE_OCCUPIED, d2)
                                                 else (case CMACRange_DelRange tNewItem c1 of
                                                         (nRet, c2) \<Rightarrow>
                                                           if 0 \<noteq> nRet then (MAC_RANGE_CALC_ERROR, d2)
                                                           else save_mac_ranges u (m_vecMACRange c2) out d2)))))"

text \<open>
  The message handler: its return value and the result code of the reply, \<open>None\<close> when none is sent.
  The argument \<open>pMU\<close> tells whether the message unit is set.
\<close>

definition ProcMACRangeMsg :: "bool \<Rightarrow> CMACRangeMsg \<Rightarrow> mdb \<Rightarrow> rc \<times> rc option \<times> mdb" where
  "ProcMACRangeMsg pMU m d =
     (if \<not> pMU then (- 1, None, d)
      else if \<not> IsValidMACOper m then (- 1, Some MAC_RANGE_CFG_PARAM_ERROR, d)
      else if m_dwMACOper m = EN_ADD_MAC_RANGE then
        (case AddMACRange m d of (nRet, d1) \<Rightarrow> (0, Some nRet, d1))
      else if m_dwMACOper m = EN_DEL_MAC_RANGE then
        (case DelMACRange m d of (nRet, d1) \<Rightarrow> (0, Some nRet, d1))
      else (0, Some MAC_RANGE_CFG_PARAM_ERROR, d))"

section \<open>Addresses for the network cards of a virtual machine\<close>

text \<open>One card without an address (lines 82-119): the address, or \<open>Inl ()\<close>.\<close>

definition alloc_mac_for_card :: "bool \<Rightarrow> (nat \<Rightarrow> nat \<Rightarrow> nat \<Rightarrow> uint8 list) \<Rightarrow> CVNetVnicMem \<Rightarrow> mdb \<Rightarrow>
    ((unit + string) \<times> mdb) option" where
  "alloc_mac_for_card big rnd c d =
     (case GetPGNetplane (m_strVmPGID c) [] d of
        (r, u, d1) \<Rightarrow>
          if PORTGROUP_OPER_SUCCESS \<noteq> r then Some (Inl (), d1)
          else (case GetMACRange u d1 of
                  (r, c1, c2, d2) \<Rightarrow>
                    if 0 \<noteq> r then Some (Inl (), d2)
                    else (case CMACPool_Init u (Some c1) (Some c2) CMACPool_new of
                            (r, p) \<Rightarrow>
                              if 0 \<noteq> r then Some (Inl (), d2)
                              else (case CMACPool_AllocMAC big rnd (m_nNicIndex c) [] p d2 of
                                      None \<Rightarrow> None
                                    | Some (r, s, d3) \<Rightarrow>
                                        if 0 \<noteq> r then Some (Inl (), d3) else Some (Inr s, d3)))))"

text \<open>
  The loop over the cards: \<open>done\<close> are the cards before the iterator. The vector of the machine is set after
  every card that gets an address, so it is the local one at every point. \<open>rnd n\<close> are the bytes drawn for
  the \<open>n\<close>-th card.
\<close>

fun alloc_mac_cards :: "bool \<Rightarrow> (nat \<Rightarrow> nat \<Rightarrow> nat \<Rightarrow> nat \<Rightarrow> uint8 list) \<Rightarrow> CVNetVnicMem list \<Rightarrow>
    CVNetVnicMem list \<Rightarrow> mdb \<Rightarrow> (rc \<times> CVNetVnicMem list \<times> mdb) option" where
  "alloc_mac_cards big rnd done [] d = Some (0, done, d)"
| "alloc_mac_cards big rnd done (c # cs) d =
     (if m_strMac c \<noteq> [] then alloc_mac_cards big rnd (done @ [c]) cs d
      else case alloc_mac_for_card big (rnd (length done)) c d of
             None \<Rightarrow> None
           | Some (Inl _, d1) \<Rightarrow> Some (- 1, done @ c # cs, d1)
           | Some (Inr s, d1) \<Rightarrow> alloc_mac_cards big rnd (done @ [c\<lparr>m_strMac := s\<rparr>]) cs d1)"

definition AllocMACForVnic :: "bool \<Rightarrow> (nat \<Rightarrow> nat \<Rightarrow> nat \<Rightarrow> nat \<Rightarrow> uint8 list) \<Rightarrow> CVNetVnicMem list \<Rightarrow> mdb \<Rightarrow>
    (rc \<times> CVNetVnicMem list \<times> mdb) option" where
  "AllocMACForVnic big rnd vm d = alloc_mac_cards big rnd [] vm d"

text \<open>One card with an address (lines 159-186).\<close>

definition free_mac_for_card :: "CVNetVnicMem \<Rightarrow> mdb \<Rightarrow> rc \<times> mdb" where
  "free_mac_for_card c d =
     (case GetPGNetplane (m_strVmPGID c) [] d of
        (r, u, d1) \<Rightarrow>
          if PORTGROUP_OPER_SUCCESS \<noteq> r then (- 1, d1)
          else (case CMACPool_Init_free u CMACPool_new of
                  (r, p) \<Rightarrow>
                    if 0 \<noteq> r then (- 1, d1)
                    else (case CMACPool_FreeMAC (m_strMac c) p d1 of
                            (r, d2) \<Rightarrow> if 0 \<noteq> r then (- 1, d2) else (0, d2))))"

fun free_mac_cards :: "CVNetVnicMem list \<Rightarrow> mdb \<Rightarrow> rc \<times> CVNetVnicMem list \<times> mdb" where
  "free_mac_cards [] d = (0, [], d)"
| "free_mac_cards (c # cs) d =
     (if m_strMac c = [] then
        (case free_mac_cards cs d of (r, cs', d1) \<Rightarrow> (r, c # cs', d1))
      else case free_mac_for_card c d of
             (r, d1) \<Rightarrow>
               if r \<noteq> 0 then (r, c # cs, d1)
               else (case free_mac_cards cs d1 of (r, cs', d2) \<Rightarrow> (r, c\<lparr>m_strMac := []\<rparr> # cs', d2)))"

text \<open>The vector of the machine is only set at the end.\<close>

definition FreeMACForVnic :: "CVNetVnicMem list \<Rightarrow> mdb \<Rightarrow> rc \<times> CVNetVnicMem list \<times> mdb" where
  "FreeMACForVnic vm d =
     (case free_mac_cards vm d of (r, vm', d1) \<Rightarrow> if r \<noteq> 0 then (r, vm, d1) else (0, vm', d1))"

end
