(* ===== verification/MacRangeOps.thy ===== *)
theory MacRangeOps
  imports MacPoolMgr
begin

text \<open>
  What \<open>AddMACRange\<close> and \<open>DelMACRange\<close> do to the addresses of a netplane with one OUI, whatever
  happens to their calls, and that they succeed when the calls do not fail.
\<close>

section \<open>Good ranges\<close>

definition vendor_oui :: "uint32 \<Rightarrow> bool" where
  "vendor_oui oui \<longleftrightarrow> oui = c_dwZTEOUI1 \<or> oui = c_dwZTEOUI2"

lemma CMACRange_Init_new:
  "CMACRange_Init oui CMACRange_new = (if vendor_oui oui then (0, \<lparr>m_dwOUI = oui, m_vecMACRange = []\<rparr>)
     else (- 1, CMACRange_new))"
  by (auto simp: CMACRange_Init_def CMACRange_new_def vendor_oui_def)

lemma vendor_oui_24: "vendor_oui oui \<Longrightarrow> uint oui < 2 ^ 24"
  by (auto simp: vendor_oui_def c_dwZTEOUI1_def c_dwZTEOUI2_def)

lemma IsValidOUI_num:
  assumes "mac24 t"
  shows "IsValidOUI (Uint32MAC2MAC t) \<longleftrightarrow> vendor_oui (dwOUI t)"
proof -
  have "MAC2Uint32MAC (Uint32MAC2MAC t) = t"
    using assms by (simp add: MAC2Uint32MAC_inverse mac24_ok)
  then show ?thesis
    by (auto simp: IsValidOUI_def vendor_oui_def)
qed

lemma data_mask:
  assumes "uint w < 2 ^ 24"
  shows "w AND 0x00FFFFFF = (w :: uint32)"
  using assms by (simp only: mask24_below)

lemma uint_less_24:
  assumes "unat (w :: uint32) < 2 ^ 24"
  shows "uint w < 2 ^ 24"
proof -
  have "int (unat w) < int (2 ^ 24)" using assms by (simp only: of_nat_less_iff)
  then show ?thesis by simp
qed

text \<open>Ranges of one vendor OUI with data between 1 and \<open>0xFFFFFE\<close>.\<close>

lemma good_mac_item_iff:
  "good_mac_item oui i \<longleftrightarrow>
     vendor_oui oui \<and> dwOUI (tStartMAC i) = oui \<and> dwOUI (tEndMAC i) = oui \<and>
     valid_range (mac_to_range i) \<and> mac_item_set i \<subseteq> {1..0xFFFFFE}"
proof (cases "mac24 (tStartMAC i) \<and> mac24 (tEndMAC i)")
  case True
  let ?s = "dwData (tStartMAC i)" and ?e = "dwData (tEndMAC i)"
  have m: "?s AND 0x00FFFFFF = ?s" "?e AND 0x00FFFFFF = ?e"
    using True by (simp_all only: mac24_def data_mask simp_thms)
  have small: "unat ?s < 2 ^ 24" "unat ?e < 2 ^ 24"
    using True by (auto simp only: mac24_def intro: unat_less_24)
  have top: "?e = 0x00FFFFFF \<longleftrightarrow> unat ?e = 0xFFFFFF" "?s = 0x00FFFFFF \<longleftrightarrow> unat ?s = 0xFFFFFF"
    by (simp_all add: word_unat_eq_iff)
  have zero: "?s = 0 \<longleftrightarrow> unat ?s = 0" "?e = 0 \<longleftrightarrow> unat ?e = 0" by (simp_all add: unat_eq_zero)
  have "IsValidMACRange i \<longleftrightarrow>
      vendor_oui (dwOUI (tStartMAC i)) \<and> vendor_oui (dwOUI (tEndMAC i)) \<and>
      dwOUI (tStartMAC i) = dwOUI (tEndMAC i) \<and> unat ?s \<noteq> 0 \<and> unat ?s \<noteq> 0xFFFFFF \<and> unat ?e \<noteq> 0 \<and>
      unat ?e \<noteq> 0xFFFFFF \<and> unat ?s \<le> unat ?e"
    unfolding IsValidMACRange_def Let_def m top [symmetric] zero [symmetric] word_le_nat_alt [symmetric]
    using True IsValidOUI_num by (auto simp: SetMAC_uint32_def not_less)
  moreover have "mac_item_set i \<subseteq> {1..0xFFFFFE} \<longleftrightarrow> unat ?s \<noteq> 0 \<and> unat ?e \<noteq> 0xFFFFFF"
    if "unat ?s \<le> unat ?e" using that small by (auto simp: mac_item_set_def)
  ultimately show ?thesis
    using True small
    by (auto simp: good_mac_item_def mac_range_ok_def valid_range_nat mac_to_range_def)
next
  case False
  have "mac24 (tStartMAC i) \<and> mac24 (tEndMAC i)"
    if "vendor_oui oui" "dwOUI (tStartMAC i) = oui" "dwOUI (tEndMAC i) = oui"
      "valid_range (mac_to_range i)" "mac_item_set i \<subseteq> {1..0xFFFFFE}"
  proof -
    have le: "unat (dwData (tStartMAC i)) \<le> unat (dwData (tEndMAC i))"
      using that(4) by (simp add: valid_range_nat mac_to_range_def)
    then have "unat (dwData (tEndMAC i)) \<le> 0xFFFFFE" using that(5) by (auto simp: mac_item_set_def)
    then have "unat (dwData (tStartMAC i)) < 2 ^ 24" "unat (dwData (tEndMAC i)) < 2 ^ 24"
      using le by simp_all
    then have "uint (dwData (tStartMAC i)) < 2 ^ 24" "uint (dwData (tEndMAC i)) < 2 ^ 24"
      by (intro uint_less_24; simp)+
    then show ?thesis using vendor_oui_24 [OF that(1)] that(2,3) by (simp add: mac24_def)
  qed
  then show ?thesis using False by (auto simp: good_mac_item_def)
qed

lemma mac_msg_item_good:
  assumes "mac_msg_item m = Inr i"
  shows "good_mac_item (dwOUI (tStartMAC i)) i" and "vendor_oui (dwOUI (tStartMAC i))"
    and "m_strMsgNetplaneUUID m \<noteq> []"
proof -
  have v: "IsValidMACRange i" "mac24 (tStartMAC i)" "mac24 (tEndMAC i)" "m_strMsgNetplaneUUID m \<noteq> []"
    using assms by (auto simp: mac_msg_item_def Let_def GetUInt32MAC_def mac24_MAC2Uint32MAC
        split: if_splits prod.splits)
  then have "dwOUI (tStartMAC i) = dwOUI (tEndMAC i)" by (simp add: IsValidMACRange_def split: if_splits)
  then show g: "good_mac_item (dwOUI (tStartMAC i)) i"
    using v by (simp add: good_mac_item_def mac_range_ok_def)
  then show "vendor_oui (dwOUI (tStartMAC i))" by (simp add: good_mac_item_iff)
  show "m_strMsgNetplaneUUID m \<noteq> []" by (rule v)
qed

text \<open>The loading loop keeps the rows of the OUI and puts their ranges into the container.\<close>

lemma filter_oui_rows:
  assumes "m_dwOUI c = oui"
  shows "filter_oui oui rows c = (filter (of_oui oui) rows,
    c\<lparr>m_vecMACRange := m_vecMACRange c @ map row_item (filter (of_oui oui) rows)\<rparr>)"
  using assms
proof (induction rows arbitrary: c)
  case (Cons r rs)
  show ?case
  proof (cases "of_oui oui r")
    case True
    then have "snd (CMACRange_AddValidRange (row_item r) c) =
        c\<lparr>m_vecMACRange := m_vecMACRange c @ [row_item r]\<rparr>"
      using Cons.prems by (simp add: CMACRange_AddValidRange_def row_item_def of_oui_def nums_of_oui_def)
    then show ?thesis
      using Cons True by (simp add: of_oui_def nums_of_oui_def)
  next
    case False
    then show ?thesis using Cons by (auto simp: of_oui_def nums_of_oui_def)
  qed
qed simp

section \<open>Adding and deleting\<close>

lemma mac_of_to_range: "dwOUI (tStartMAC i) = oui \<Longrightarrow> dwOUI (tEndMAC i) = oui \<Longrightarrow> mac_of_range oui (mac_to_range i) = i"
  by (simp add: mac_of_range_def mac_to_range_def)

text \<open>Lists of good ranges.\<close>

definition good_macs :: "uint32 \<Rightarrow> TMACRangeItem list \<Rightarrow> bool" where
  "good_macs oui s \<longleftrightarrow> (\<forall>i \<in> set s. good_mac_item oui i)"

definition list_macs :: "TMACRangeItem list \<Rightarrow> nat set" where
  "list_macs s = (\<Union>i \<in> set s. mac_item_set i)"

lemma list_macs_coll: "coll_set (map mac_to_range s) = list_macs s"
  by (simp add: coll_set_def list_macs_def)

lemma list_macs_sub: "good_macs oui s \<Longrightarrow> list_macs s \<subseteq> {1..0xFFFFFE}"
  by (fastforce simp: good_macs_def list_macs_def good_mac_item_iff)

text \<open>A result of the range arithmetic within the bounds gives good ranges.\<close>

lemma good_macs_of_ranges:
  assumes "vendor_oui oui" and "\<forall>x \<in> set out. valid_range x" and "coll_set out \<subseteq> {1..0xFFFFFE}"
  shows "good_macs oui (map (mac_of_range oui) out)"
  unfolding good_macs_def
proof
  fix i assume "i \<in> set (map (mac_of_range oui) out)"
  then obtain x where x: "x \<in> set out" "i = mac_of_range oui x" by auto
  have "range_set x \<subseteq> {1..0xFFFFFE}" using coll_set_member [OF x(1)] assms(3) by blast
  then show "good_mac_item oui i"
    using assms(1,2) x range_set_mac [of i]
    by (auto simp: good_mac_item_iff) (simp_all add: mac_of_range_def)
qed

lemma mac_of_range_inj: "inj_on (mac_of_range oui) S"
  by (rule inj_on_inverseI [of _ mac_to_range]) simp

lemma AddRange_mac_rows:
  assumes "m_vecMACRange c \<noteq> []" and "m_dwOUI c = oui" and "good_macs oui (m_vecMACRange c)"
    and "good_mac_item oui r"
  shows "\<exists>out. CMACRange_AddRange r c = (0, c\<lparr>m_vecMACRange := out\<rparr>) \<and>
           list_macs out = list_macs (m_vecMACRange c) \<union> mac_item_set r \<and>
           distinct out \<and> good_macs oui out \<and> apart (map mac_to_range out)"
proof -
  let ?s = "m_vecMACRange c"
  let ?m = "GetMergedRangeColl (ra_added (map mac_to_range ?s) (mac_to_range r))"
  have r: "valid_range (mac_to_range r)" "mac_item_set r \<subseteq> {1..0xFFFFFE}" "vendor_oui oui"
    "dwOUI (tStartMAC r) = oui" "dwOUI (tEndMAC r) = oui"
    using assms(4) by (simp_all add: good_mac_item_iff)
  have val: "\<forall>x \<in> set (mac_to_range r # map mac_to_range ?s). valid_range x"
    using assms(3) r(1) by (auto simp: good_macs_def good_mac_item_iff)
  have bm: "\<forall>x \<in> set (mac_to_range r # map mac_to_range ?s). below_max x"
  proof
    fix x assume "x \<in> set (mac_to_range r # map mac_to_range ?s)"
    then obtain i where i: "x = mac_to_range i" "good_mac_item oui i"
      using assms(3,4) by (auto simp: good_macs_def)
    show "below_max x"
      using i by (intro below_max_bounded [where lo = 1 and hi = "0xFFFFFE"])
        (simp_all add: good_mac_item_iff)
  qed
  note m = ra_added_merges [OF val]
  have can: "canonical ?m" by (rule m(3) [OF bm])
  have run: "CMACRange_AddRange r c = (0, c\<lparr>m_vecMACRange := map (mac_of_range oui) ?m\<rparr>)"
    using assms(1,2) r(4,5) m(2)
    by (simp add: CMACRange_AddRange_def ra_added_def Let_def)
  have vl: "list_macs (map (mac_of_range oui) ?m) = list_macs ?s \<union> mac_item_set r"
    using m(1) list_macs_coll [of "map (mac_of_range oui) ?m"] list_macs_coll [of ?s] by simp
  have "good_macs oui (map (mac_of_range oui) ?m)"
  proof (rule good_macs_of_ranges [OF r(3)])
    show "\<forall>x \<in> set ?m. valid_range x" using can by (simp add: canonical_def)
    show "coll_set ?m \<subseteq> {1..0xFFFFFE}"
      using vl list_macs_sub [OF assms(3)] r(2) list_macs_coll [of "map (mac_of_range oui) ?m"] by simp
  qed
  moreover have "distinct (map (mac_of_range oui) ?m)"
    using canonical_distinct [OF can] mac_of_range_inj by (simp add: distinct_map)
  moreover have "apart (map mac_to_range (map (mac_of_range oui) ?m))"
    using canonical_apart [OF can] by simp
  ultimately show ?thesis using run vl by blast
qed

lemma DelRange_mac_rows:
  assumes "m_vecMACRange c \<noteq> []" and "m_dwOUI c = oui" and "good_macs oui (m_vecMACRange c)"
    and "apart (map mac_to_range (m_vecMACRange c))" and "good_mac_item oui r"
    and "CMACRange_DelRange r c = (0, c')"
  shows "mac_item_set r \<subseteq> list_macs (m_vecMACRange c)"
    and "list_macs (m_vecMACRange c') = list_macs (m_vecMACRange c) - mac_item_set r"
    and "distinct (m_vecMACRange c')" and "good_macs oui (m_vecMACRange c')"
    and "apart (map mac_to_range (m_vecMACRange c'))"
proof -
  have sub: "list_macs (m_vecMACRange c) \<subseteq> {1..0xFFFFFE}" by (rule list_macs_sub [OF assms(3)])
  have v: "vendor_oui oui" using assms(5) by (simp add: good_mac_item_iff)
  have inv: "mac_inv oui c"
    using assms(2-4) sub by (fastforce simp: mac_inv_def macs_def list_macs_def good_macs_def good_mac_item_iff)
  have ok: "mac_range_ok oui r" using assms(5) by (simp add: good_mac_item_def)
  have m: "macs x = list_macs (m_vecMACRange x)" for x by (simp add: macs_def list_macs_def)
  show cov: "mac_item_set r \<subseteq> list_macs (m_vecMACRange c)"
  proof (rule ccontr)
    assume "\<not> ?thesis"
    from CMACRange_DelRange_missing [OF inv ok, unfolded m, OF this] assms(6) show False by simp
  qed
  from CMACRange_DelRange_done [OF inv ok, unfolded m, OF cov] assms(6)
  have o: "mac_inv oui c'" "list_macs (m_vecMACRange c') = list_macs (m_vecMACRange c) - mac_item_set r"
    by simp_all
  show "list_macs (m_vecMACRange c') = list_macs (m_vecMACRange c) - mac_item_set r" by (rule o(2))
  show ap: "apart (map mac_to_range (m_vecMACRange c'))" using o(1) by (simp add: mac_inv_def)
  show "distinct (m_vecMACRange c')" using apart_distinct [OF ap] by (simp add: distinct_map)
  have "mac_item_set i \<subseteq> {1..0xFFFFFE}" if "i \<in> set (m_vecMACRange c')" for i
    using that o(2) sub by (auto simp: list_macs_def)
  then show "good_macs oui (m_vecMACRange c')"
    using o(1) ap v by (auto simp: good_macs_def good_mac_item_iff mac_inv_def apart_def)
qed

section \<open>Writing back\<close>

text \<open>The data of the addresses that the ranges of a netplane hold for one OUI.\<close>

definition np_macs :: "uint32 \<Rightarrow> string \<Rightarrow> mdb \<Rightarrow> nat set" where
  "np_macs oui u d = list_macs (oui_ranges oui u d)"

definition mac_rows_apart :: "uint32 \<Rightarrow> string \<Rightarrow> mdb \<Rightarrow> bool" where
  "mac_rows_apart oui u d \<longleftrightarrow> apart (map mac_to_range (oui_ranges oui u d))"

lemma same_tables_np_macs:
  assumes "same_tables d d'"
  shows "np_macs oui u d' = np_macs oui u d" "mac_rows_apart oui u d' = mac_rows_apart oui u d"
    "oui_rows_ok oui u d' = oui_rows_ok oui u d" "mac_rest_same oui u d d'"
    "oui_ranges oui u d' = oui_ranges oui u d"
  using assms
  by (simp_all add: np_macs_def mac_rows_apart_def oui_ranges_def same_tables_mac_rows same_tables_oui_rows_ok)

lemma oui_rows_ok_good: "oui_rows_ok oui u d \<Longrightarrow> good_macs oui (oui_ranges oui u d)"
  by (auto simp: oui_rows_ok_def oui_ranges_def good_macs_def good_mac_row_def)

lemma oui_rows_ok_distinct: "oui_rows_ok oui u d \<Longrightarrow> distinct (oui_rows oui u d)"
  by (simp add: oui_rows_ok_def oui_ranges_def distinct_map)

lemma save_mac_ranges_effect:
  assumes "oui_rows_ok oui u d" and "distinct calc" and "good_macs oui calc"
    and "apart (map mac_to_range calc)" and "save_mac_ranges u calc (oui_rows oui u d) d = (ret, d')"
  shows "mac_rest_same oui u d d'" and "oui_rows_ok oui u d'"
    and "np_macs oui u d' \<subseteq> np_macs oui u d \<union> list_macs calc"
    and "np_macs oui u d \<subseteq> np_macs oui u d' \<or> list_macs calc \<subseteq> np_macs oui u d'"
    and "ret = 0 \<Longrightarrow> np_macs oui u d' = list_macs calc \<and> mac_rows_apart oui u d'"
proof -
  have "mac_store_inv oui u d d" using assms(1) by (simp add: mac_store_inv_def)
  then have s: "mac_store_inv oui u d d' \<and> set (oui_ranges oui u d') \<subseteq> set (oui_ranges oui u d) \<union> set calc \<and>
      (ret = 0 \<longrightarrow> set (oui_ranges oui u d') = set calc) \<and>
      (set (oui_ranges oui u d) \<subseteq> set (oui_ranges oui u d') \<or> set calc \<subseteq> set (oui_ranges oui u d'))"
    using mac_store.sync_result [of oui u d d calc "oui_rows oui u d" ret d'] assms(2,3,5)
      oui_rows_ok_distinct [OF assms(1)]
    by (simp add: save_mac_ranges_def good_macs_def oui_ranges_def)
  then show "mac_rest_same oui u d d'" and ok: "oui_rows_ok oui u d'" by (simp_all add: mac_store_inv_def)
  show "np_macs oui u d' \<subseteq> np_macs oui u d \<union> list_macs calc"
    using s by (auto simp: np_macs_def list_macs_def)
  show "np_macs oui u d \<subseteq> np_macs oui u d' \<or> list_macs calc \<subseteq> np_macs oui u d'"
    using s by (auto simp: np_macs_def list_macs_def)
  assume "ret = 0"
  then have eq: "set (oui_ranges oui u d') = set calc" using s by blast
  have "inj_on mac_to_range (set (oui_ranges oui u d'))"
    by (rule inj_on_inverseI [of _ "mac_of_range oui"])
      (use oui_rows_ok_good [OF ok] in \<open>simp add: good_macs_def good_mac_item_iff mac_of_to_range\<close>)
  then have "apart (map mac_to_range (oui_ranges oui u d'))"
    using ok eq by (intro apart_set [OF assms(4)]) (simp_all add: distinct_map oui_rows_ok_def)
  then show "np_macs oui u d' = list_macs calc \<and> mac_rows_apart oui u d'"
    using eq by (simp add: np_macs_def list_macs_def mac_rows_apart_def)
qed

section \<open>The effect of \<open>AddMACRange\<close>\<close>

text \<open>What an addition guarantees, and what it gives when it returns success.\<close>

definition mac_range_grows :: "string \<Rightarrow> TMACRangeItem \<Rightarrow> mdb \<Rightarrow> mdb \<Rightarrow> bool" where
  "mac_range_grows u i d d' \<longleftrightarrow>
     (let oui = dwOUI (tStartMAC i) in
      mac_rest_same oui u d d' \<and> oui_rows_ok oui u d' \<and> np_macs oui u d \<subseteq> np_macs oui u d' \<and>
      np_macs oui u d' \<subseteq> np_macs oui u d \<union> mac_item_set i)"

definition mac_range_added :: "string \<Rightarrow> TMACRangeItem \<Rightarrow> mdb \<Rightarrow> mdb \<Rightarrow> bool" where
  "mac_range_added u i d d' \<longleftrightarrow>
     (let oui = dwOUI (tStartMAC i) in
      np_macs oui u d' = np_macs oui u d \<union> mac_item_set i \<and> mac_rows_apart oui u d')"

lemma first_mac_row_sel:
  assumes "good_mac_item oui i"
  shows "Uuid (first_mac_row m i) = m_strMsgNetplaneUUID m" "row_item (first_mac_row m i) = i"
    "of_oui oui (first_mac_row m i)" "good_mac_row (m_strMsgNetplaneUUID m) oui (first_mac_row m i)"
  using assms good_mac_item_row [OF assms, of "m_strMsgNetplaneUUID m"]
    row_item_row [OF assms, of "m_strMsgNetplaneUUID m"]
  by (simp_all add: first_mac_row_def item_row_def of_oui_def good_mac_row_def row_item_def)

lemma first_mac_range_effect:
  assumes "oui_rows oui u d = []" and "good_mac_item oui i" and "u = m_strMsgNetplaneUUID m"
    and "MacRange_Add (first_mac_row m i) d = (ret, d')"
  shows "mac_rest_same oui u d d'" and "oui_rows_ok oui u d'" and "np_macs oui u d = {}"
    and "np_macs oui u d' = {} \<or> np_macs oui u d' = mac_item_set i"
    and "ret = 0 \<Longrightarrow> np_macs oui u d' = mac_item_set i \<and> mac_rows_apart oui u d'"
proof -
  note f = first_mac_row_sel [OF assms(2), of m, folded assms(3)]
  note e = MacRange_Add_effect [OF assms(4) f(1,3)]
  have r: "oui_rows oui u d' = [] \<or> oui_rows oui u d' = [first_mac_row m i]" using e(3) assms(1) by simp
  then show "oui_rows_ok oui u d'" using f by (auto simp: oui_rows_ok_def oui_ranges_def)
  show "mac_rest_same oui u d d'" by (rule e(1))
  show "np_macs oui u d = {}" using assms(1) by (simp add: np_macs_def oui_ranges_def list_macs_def)
  show "np_macs oui u d' = {} \<or> np_macs oui u d' = mac_item_set i"
    using r f(2) by (auto simp: np_macs_def oui_ranges_def list_macs_def)
  show "np_macs oui u d' = mac_item_set i \<and> mac_rows_apart oui u d'" if "ret = 0"
    using e(2) [OF that] assms(1,2) f(2)
    by (simp add: np_macs_def oui_ranges_def list_macs_def mac_rows_apart_def good_mac_item_iff)
qed

lemma AddMACRange_effect:
  assumes "mac_msg_item m = Inr i" and "oui_rows_ok (dwOUI (tStartMAC i)) (m_strMsgNetplaneUUID m) d"
    and "AddMACRange m d = (ret, d')"
  shows "mac_range_grows (m_strMsgNetplaneUUID m) i d d' \<and>
         (ret = 0 \<longrightarrow> mac_range_added (m_strMsgNetplaneUUID m) i d d')"
proof -
  let ?u = "m_strMsgNetplaneUUID m" and ?oui = "dwOUI (tStartMAC i)"
  note it = mac_msg_item_good [OF assms(1)]
  have still: "mac_range_grows ?u i d d1" if "same_tables d d1" for d1
    using same_tables_np_macs [OF that, of ?oui ?u] assms(2) by (simp add: mac_range_grows_def)
  obtain r1 rows d1 where q: "MacRange_Query ?u d = (r1, rows, d1)" by (metis prod_cases3)
  note qe = MacRange_Query_effect [OF q]
  note np1 = same_tables_np_macs [OF qe(1), of ?oui ?u]
  let ?out = "filter (of_oui ?oui) rows"
  let ?c = "\<lparr>m_dwOUI = ?oui, m_vecMACRange = map row_item ?out\<rparr>"
  have flt: "filter_oui ?oui rows \<lparr>m_dwOUI = ?oui, m_vecMACRange = []\<rparr> = (?out, ?c)"
    using filter_oui_rows [of "\<lparr>m_dwOUI = ?oui, m_vecMACRange = []\<rparr>" ?oui rows] by simp
  consider (intf) "ret = MAC_RANGE_GET_DB_INTF_ERROR" "d' = d" | (failed) "ret = r1" "r1 \<noteq> 0" "d' = d1"
    | (ok) "r1 = 0" "m_bInit d"
    using assms(1,3) q by (auto simp: AddMACRange_def Let_def rtn_defs split: if_splits)
  then show ?thesis
  proof cases
    case intf
    then show ?thesis using still [of d] by (simp add: mac_mgr_codes)
  next
    case failed
    then show ?thesis using still [OF qe(1)] by simp
  next
    case ok
    have out: "?out = oui_rows ?oui ?u d1"
      using qe(2) [OF ok(1)] same_tables_mac_rows(3) [OF qe(1)] by (simp add: oui_rows_def)
    have ok1: "oui_rows_ok ?oui ?u d1" using assms(2) np1(3) by simp
    show ?thesis
    proof (cases "?out = []")
      case True
      obtain r2 d2 where a: "MacRange_Add (first_mac_row m i) d1 = (r2, d2)" by fastforce
      have res: "d' = d2" "ret = 0 \<Longrightarrow> r2 = 0"
        using assms(1,3) q ok a flt True it(2)
        by (auto simp: AddMACRange_def Let_def mac_mgr_codes CMACRange_Init_new split: if_splits)
      have "oui_rows ?oui ?u d1 = []" using True out by simp
      note f = first_mac_range_effect [OF this it(1) refl a]
      show ?thesis
        using f res np1 mac_rest_same_trans [of ?oui ?u d d1 d2]
        by (auto simp: mac_range_grows_def mac_range_added_def Let_def)
    next
      case False
      have c: "m_vecMACRange ?c \<noteq> []" "m_dwOUI ?c = ?oui" "good_macs ?oui (m_vecMACRange ?c)"
        "m_vecMACRange ?c = oui_ranges ?oui ?u d1"
        using False out oui_rows_ok_good [OF ok1] by (simp_all add: oui_ranges_def)
      obtain calc where calc: "CMACRange_AddRange i ?c = (0, ?c\<lparr>m_vecMACRange := calc\<rparr>)"
        "list_macs calc = list_macs (m_vecMACRange ?c) \<union> mac_item_set i" "distinct calc"
        "good_macs ?oui calc" "apart (map mac_to_range calc)"
        using AddRange_mac_rows [OF c(1-3) it(1)] by blast
      have "save_mac_ranges ?u calc (oui_rows ?oui ?u d1) d1 = (ret, d')"
        using assms(1,3) q ok flt False calc(1) out it(2)
        by (simp add: AddMACRange_def Let_def VNET_DB_SUCCESS_def CMACRange_Init_new)
      note s = save_mac_ranges_effect [OF ok1 calc(3-5) this]
      have vl: "list_macs calc = np_macs ?oui ?u d \<union> mac_item_set i"
        using calc(2) c(4) np1(5) by (simp add: np_macs_def)
      have "mac_range_grows ?u i d d'"
        using s(1-4) vl np1(1,4) mac_rest_same_trans [of ?oui ?u d d1 d']
        by (auto simp: mac_range_grows_def Let_def)
      moreover have "ret = 0 \<longrightarrow> mac_range_added ?u i d d'"
        using s(5) vl by (simp add: mac_range_added_def Let_def)
      ultimately show ?thesis by blast
    qed
  qed
qed

section \<open>The effect of \<open>DelMACRange\<close>\<close>

definition mac_item_free :: "string \<Rightarrow> TMACRangeItem \<Rightarrow> mdb \<Rightarrow> bool" where
  "mac_item_free u i d \<longleftrightarrow> (\<forall>np. np_lookup u d = Some np \<longrightarrow> mac_alloc d np \<inter> item_nums i = {})"

definition mac_range_shrinks :: "string \<Rightarrow> TMACRangeItem \<Rightarrow> mdb \<Rightarrow> mdb \<Rightarrow> bool" where
  "mac_range_shrinks u i d d' \<longleftrightarrow>
     (let oui = dwOUI (tStartMAC i) in
      mac_rest_same oui u d d' \<and> oui_rows_ok oui u d' \<and> np_macs oui u d' \<subseteq> np_macs oui u d \<and>
      np_macs oui u d - mac_item_set i \<subseteq> np_macs oui u d' \<and>
      (np_macs oui u d' \<noteq> np_macs oui u d \<longrightarrow> mac_item_free u i d))"

definition mac_range_removed :: "string \<Rightarrow> TMACRangeItem \<Rightarrow> mdb \<Rightarrow> mdb \<Rightarrow> bool" where
  "mac_range_removed u i d d' \<longleftrightarrow>
     (let oui = dwOUI (tStartMAC i) in
      mac_item_set i \<subseteq> np_macs oui u d \<and> np_macs oui u d' = np_macs oui u d - mac_item_set i \<and>
      mac_rows_apart oui u d' \<and> mac_item_free u i d)"

lemma mac_alloc_same_tables: "same_tables d d' \<Longrightarrow> mac_alloc d' = mac_alloc d"
  by (simp add: fun_eq_iff mac_alloc_def same_tables_mac(2))

lemma mac_item_free_same_tables: "same_tables d d' \<Longrightarrow> mac_item_free u i d' = mac_item_free u i d"
  by (simp add: mac_item_free_def mac_alloc_same_tables same_tables_mac_rows(2))

lemma QueryAllocNum_free:
  assumes "MacRange_QueryAllocNum u (mac_num (tStartMAC i)) (mac_num (tEndMAC i)) d = (0, 0, d')"
  shows "mac_item_free u i d"
proof -
  let ?p = "pf_net_query_netplane_macrange_alloc u (mac_num (tStartMAC i)) (mac_num (tEndMAC i))"
  have le: "\<not> mac_num (tStartMAC i) > mac_num (tEndMAC i)"
    using assms by (auto simp: MacRange_QueryAllocNum_def rtn_defs split: if_splits)
  show ?thesis
  proof (cases rule: Handle_cases [of ?p d])
    case (not_run c d1)
    then show ?thesis using assms le by (simp add: MacRange_QueryAllocNum_def)
  next
    case (answered d1 a d2)
    have "a = (0, 0)"
      using assms le answered(2,3)
      by (cases a) (auto simp: MacRange_QueryAllocNum_def rtn_defs
          pf_net_query_netplane_macrange_alloc_def split: if_splits option.splits)
    then have "mac_item_free u i d1"
      using answered(2) le
      by (auto simp: pf_net_query_netplane_macrange_alloc_def mac_item_free_def mac_alloc_def
          item_nums_def filter_empty_conv rtn_defs split: option.splits)
    then show ?thesis using mac_item_free_same_tables [OF answered(1)] by simp
  next
    case (lost d1 a c d2)
    then show ?thesis using assms le by (auto simp: MacRange_QueryAllocNum_def split: if_splits)
  qed
qed

lemma DelMACRange_effect:
  assumes "mac_msg_item m = Inr i" and "oui_rows_ok (dwOUI (tStartMAC i)) (m_strMsgNetplaneUUID m) d"
    and "mac_rows_apart (dwOUI (tStartMAC i)) (m_strMsgNetplaneUUID m) d"
    and "DelMACRange m d = (ret, d')"
  shows "mac_range_shrinks (m_strMsgNetplaneUUID m) i d d' \<and>
         (ret = 0 \<longrightarrow> mac_range_removed (m_strMsgNetplaneUUID m) i d d')"
proof -
  let ?u = "m_strMsgNetplaneUUID m" and ?oui = "dwOUI (tStartMAC i)"
  note it = mac_msg_item_good [OF assms(1)]
  have still: "mac_range_shrinks ?u i d d1" if "same_tables d d1" for d1
    using same_tables_np_macs [OF that, of ?oui ?u] assms(2) by (simp add: mac_range_shrinks_def)
  obtain r1 rows d1 where q: "MacRange_Query ?u d = (r1, rows, d1)" by (metis prod_cases3)
  note qe = MacRange_Query_effect [OF q]
  obtain r2 num d2 where k: "MacRange_QueryAllocNum ?u (mac_num (tStartMAC i)) (mac_num (tEndMAC i)) d1 =
      (r2, num, d2)" by (metis prod_cases3)
  have s2: "same_tables d d2"
    using qe(1) MacRange_QueryAllocNum_effect [OF k] by (rule same_tables_trans)
  let ?out = "filter (of_oui ?oui) rows"
  let ?c = "\<lparr>m_dwOUI = ?oui, m_vecMACRange = map row_item ?out\<rparr>"
  have flt: "filter_oui ?oui rows \<lparr>m_dwOUI = ?oui, m_vecMACRange = []\<rparr> = (?out, ?c)"
    using filter_oui_rows [of "\<lparr>m_dwOUI = ?oui, m_vecMACRange = []\<rparr>" ?oui rows] by simp
  obtain r3 c' where dl: "CMACRange_DelRange i ?c = (r3, c')" by fastforce
  consider (stop) "ret \<noteq> 0" "d' = d \<or> d' = d1 \<or> d' = d2"
    | (go) "r1 = 0" "?out \<noteq> []" "r2 = 0" "num = 0" "r3 = 0"
        "save_mac_ranges ?u (m_vecMACRange c') ?out d2 = (ret, d')"
    using assms(1,4) q flt k dl it(2)
    by (auto simp: DelMACRange_def Let_def mac_mgr_codes CMACRange_Init_new split: if_splits)
  then show ?thesis
  proof cases
    case stop
    then show ?thesis using still [of d] still [OF qe(1)] still [OF s2] by auto
  next
    case go
    note np = same_tables_np_macs [OF s2, of ?oui ?u]
    have out: "?out = oui_rows ?oui ?u d2"
      using qe(2) [OF go(1)] same_tables_mac_rows(3) [OF s2] by (simp add: oui_rows_def)
    have ok2: "oui_rows_ok ?oui ?u d2" "apart (map mac_to_range (oui_ranges ?oui ?u d2))"
      using assms(2,3) np by (simp_all add: mac_rows_apart_def)
    have c: "m_vecMACRange ?c \<noteq> []" "m_dwOUI ?c = ?oui" "m_vecMACRange ?c = oui_ranges ?oui ?u d2"
      using go(2) out by (simp_all add: oui_ranges_def)
    have "good_macs ?oui (m_vecMACRange ?c)" "apart (map mac_to_range (m_vecMACRange ?c))"
      using ok2(2) oui_rows_ok_good [OF ok2(1)] by (simp_all only: c(3))
    note dr = DelRange_mac_rows [OF c(1,2) this it(1) dl [unfolded go(5)]]
    have fr: "mac_item_free ?u i d"
      using QueryAllocNum_free [of ?u i d1 d2] k go(3,4) mac_item_free_same_tables [OF qe(1)] by simp
    have "save_mac_ranges ?u (m_vecMACRange c') (oui_rows ?oui ?u d2) d2 = (ret, d')"
      using go(6) out by simp
    note s = save_mac_ranges_effect [OF ok2(1) dr(3-5) this]
    have vl: "list_macs (m_vecMACRange c') = np_macs ?oui ?u d - mac_item_set i"
      "mac_item_set i \<subseteq> np_macs ?oui ?u d"
      using dr(1,2) np(5) by (simp_all only: c(3) np_macs_def)
    have "mac_range_shrinks ?u i d d'"
      using s(1-4) vl np(1,4) fr mac_rest_same_trans [of ?oui ?u d d2 d']
      by (auto simp: mac_range_shrinks_def Let_def)
    then show ?thesis using s(5) vl fr by (simp add: mac_range_removed_def Let_def)
  qed
qed

section \<open>Calls that do not fail\<close>

lemma MacRange_Query_live:
  "env d = [] \<Longrightarrow> MacRange_Query u d = (0, mac_np_rows u d, d)"
  by (simp add: MacRange_Query_def db_query_op_def Handle_run pf_net_query_netplane_macrange_rows
      VNET_DB_SUCCESS_def)

lemma MacQueryAllocNum_live:
  assumes "env d = []" and "np_lookup u d = Some np" and "mac_num (tStartMAC i) \<le> mac_num (tEndMAC i)"
  shows "\<exists>n. MacRange_QueryAllocNum u (mac_num (tStartMAC i)) (mac_num (tEndMAC i)) d = (0, n, d) \<and>
             (n = 0 \<longleftrightarrow> mac_item_free u i d)"
  using assms
  by (auto simp: MacRange_QueryAllocNum_def Handle_run pf_net_query_netplane_macrange_alloc_def
      VNET_DB_SUCCESS_def mac_item_free_def mac_alloc_def item_nums_def filter_empty_conv)

lemma save_mac_ranges_live:
  assumes "oui_rows_ok oui u d" and "mac_ranges_live u d" and "distinct calc" and "good_macs oui calc"
  shows "fst (save_mac_ranges u calc (oui_rows oui u d) d) = 0"
proof -
  obtain ret d' where s: "save_mac_ranges u calc (oui_rows oui u d) d = (ret, d')" by fastforce
  have "mac_store_inv oui u d d" using assms(1) by (simp add: mac_store_inv_def)
  then have "ret = 0"
    using mac_store_live.sync_live [of oui u d d calc "oui_rows oui u d" ret d'] assms s
      oui_rows_ok_distinct [OF assms(1)]
    by (simp add: save_mac_ranges_def good_macs_def)
  then show ?thesis using s by simp
qed

lemma loaded_container:
  "filter_oui oui (mac_np_rows u d) \<lparr>m_dwOUI = oui, m_vecMACRange = []\<rparr> =
     (oui_rows oui u d, \<lparr>m_dwOUI = oui, m_vecMACRange = oui_ranges oui u d\<rparr>)"
  using filter_oui_rows [of "\<lparr>m_dwOUI = oui, m_vecMACRange = []\<rparr>" oui "mac_np_rows u d"]
  by (simp add: oui_rows_def oui_ranges_def)

end
