(* ===== verification/MacRangeMsg.thy ===== *)
theory MacRangeMsg
  imports MacRangeOps
begin

text \<open>
  The properties of the MAC range messages, on an example netplane with the addresses
  \<open>00:19:c6:00:00:01\<close> to \<open>04\<close>, of which \<open>01\<close> is allocated.
\<close>

definition example_mdb :: mdb where
  "example_mdb =
     \<lparr>m_bInit = True, env = [], netplane = [\<lparr>np_id = 1, np_uuid = ''np''\<rparr>],
      port_group = [\<lparr>pg_id = 10, pg_uuid = ''a'', pg_type = 21, pg_switchport_mode = 1,
                     pg_netplane_id = Some 1\<rparr>],
      vm_pg = [\<lparr>vmpg_id = 10, vmpg_is_sdn = 0, vmpg_isolate_type = 0\<rparr>], uplink_pg = [], access_isolate = [],
      mac_range = [\<lparr>mr_id = 1, mr_netplane_id = 1, mr_begin = ''00:19:c6:00:00:01'',
                    mr_end = ''00:19:c6:00:00:04'', mr_begin_num = 28338194219009,
                    mr_end_num = 28338194219012\<rparr>],
      mac_pool = [\<lparr>mp_id = 1, mp_netplane_id = 1, mp_mac = ''00:19:c6:00:00:01'',
                   mp_num = 28338194219009\<rparr>],
      vsi_mac_id = [], serial_mac_range = 1, serial_mac_pool = 1\<rparr>"

abbreviation mac_msg :: "uint32 \<Rightarrow> string \<Rightarrow> string \<Rightarrow> CMACRangeMsg" where
  "mac_msg op b e \<equiv> \<lparr>m_strMACStart = b, m_strMACEnd = e, m_strMsgNetplaneUUID = ''np'', m_dwMACOper = op\<rparr>"

abbreviation mac_item :: "uint32 \<Rightarrow> uint32 \<Rightarrow> TMACRangeItem" where
  "mac_item b e \<equiv> \<lparr>tStartMAC = \<lparr>dwOUI = 0x0019c6, dwData = b\<rparr>, tEndMAC = \<lparr>dwOUI = 0x0019c6, dwData = e\<rparr>\<rparr>"

lemma example_mac_rows:
  "m_bInit example_mdb" "oui_ranges 0x0019c6 ''np'' example_mdb = [mac_item 1 4]"
  "map Uuid (oui_rows 0x0019c6 ''np'' example_mdb) = [''np'']"
  by code_simp+

lemma example_mac_ok:
  "oui_rows_ok 0x0019c6 ''np'' example_mdb" "mac_rows_apart 0x0019c6 ''np'' example_mdb"
  "mac_ranges_live ''np'' example_mdb"
  by code_simp+

lemma example_np_macs: "np_macs 0x0019c6 ''np'' example_mdb = {1..4}"
  by (simp add: np_macs_def example_mac_rows list_macs_def mac_item_set_def)

lemma example_msg_items:
  "mac_msg_item (mac_msg 1 ''00:19:C6:0:0:3'' ''00:19:c6:00:00:09'') = Inr (mac_item 3 9)"
  "mac_msg_item (mac_msg 2 ''00:19:C6:0:0:3'' ''00:19:c6:00:00:04'') = Inr (mac_item 3 4)"
  "mac_msg_item (mac_msg 2 ''00:19:C6:0:0:3'' ''00:19:c6:00:00:09'') = Inr (mac_item 3 9)"
  by code_simp+

section \<open>Adding a range\<close>

text \<open>C11. \<open>AddMACRange\<close> on well-formed rows. Whatever the database does, it changes only the rows of the
  netplane and of the OUI of the message, keeps them well-formed, loses no address and adds none outside
  the message. When it returns success, the ranges hold exactly the old addresses and those of the
  message, in separated rows.\<close>

theorem AddMACRange_result:
  assumes "mac_msg_item m = Inr i" and "u = m_strMsgNetplaneUUID m" and "oui = dwOUI (tStartMAC i)"
    and "oui_rows_ok oui u d" and "AddMACRange m d = (ret, d')"
  shows "mac_rest_same oui u d d' \<and> oui_rows_ok oui u d' \<and>
         np_macs oui u d \<subseteq> np_macs oui u d' \<and> np_macs oui u d' \<subseteq> np_macs oui u d \<union> mac_item_set i \<and>
         (ret = 0 \<longrightarrow> np_macs oui u d' = np_macs oui u d \<union> mac_item_set i \<and> mac_rows_apart oui u d')"
  using AddMACRange_effect [OF assms(1) _ assms(5)] assms(2-4)
  by (simp add: mac_range_grows_def mac_range_added_def Let_def)

theorem AddMACRange_result_witness:
  "\<exists>d'. AddMACRange (mac_msg 1 ''00:19:C6:0:0:3'' ''00:19:c6:00:00:09'') example_mdb = (0, d') \<and>
        np_macs 0x0019c6 ''np'' d' = {1..9}"
proof -
  let ?m = "mac_msg 1 ''00:19:C6:0:0:3'' ''00:19:c6:00:00:09''"
  obtain r d' where a: "AddMACRange ?m example_mdb = (r, d')" by fastforce
  have "fst (AddMACRange ?m example_mdb) = 0" by code_simp
  then have r: "r = 0" using a by simp
  have "np_macs 0x0019c6 ''np'' d' = {1..4} \<union> {3..9}"
    using AddMACRange_result [OF example_msg_items(1) refl refl _ a] example_mac_ok(1) r example_np_macs
    by (simp add: mac_item_set_def)
  moreover have "{1..4} \<union> {3..9} = {1..9::nat}" by auto
  ultimately show ?thesis using a r by simp
qed

text \<open>Liveness. On a database whose calls do not fail, with a known netplane and the ids of the range
  rows below their serial, \<open>AddMACRange\<close> returns success for every message that parses to a valid range,
  when the texts of the message fit the columns of the table. Its code for the other messages is the
  one of the first failed test.\<close>

theorem AddMACRange_code:
  assumes "m_bInit d" and "u = m_strMsgNetplaneUUID m" and "mac_ranges_live u d"
    and "oui_rows_ok c_dwZTEOUI1 u d" and "oui_rows_ok c_dwZTEOUI2 u d"
    and "length (m_strMACStart m) \<le> VARCHAR_LEN" and "length (m_strMACEnd m) \<le> VARCHAR_LEN"
  shows "fst (AddMACRange m d) =
    (if u = [] \<or> m_strMACStart m = [] \<or> m_strMACEnd m = [] then MAC_RANGE_CFG_PARAM_ERROR
     else if fst (String2MAC (m_strMACStart m) CMACAddr_new) \<noteq> 0 \<or>
             fst (String2MAC (m_strMACEnd m) (snd (String2MAC (m_strMACStart m) CMACAddr_new))) \<noteq> 0
       then MAC_PARSE_ERROR
     else case mac_msg_item m of Inl c \<Rightarrow> MAC_RANGE_INVALID | Inr i \<Rightarrow> MAC_RANGE_OPER_SUCCESS)"
proof (cases "mac_msg_item m")
  case (Inl c)
  then show ?thesis
    using assms(2) by (auto simp: AddMACRange_def mac_msg_item_def IsValidMACMsgRange_def SetMAC_def Let_def
        split: if_splits prod.splits)
next
  case (Inr i)
  let ?oui = "dwOUI (tStartMAC i)"
  note it = mac_msg_item_good [OF Inr]
  have e: "env d = []" using assms(3) by (simp add: mac_ranges_live_def)
  have ok: "oui_rows_ok ?oui u d" using it(2) assms(4,5) by (auto simp: vendor_oui_def)
  have "fst (AddMACRange m d) = MAC_RANGE_OPER_SUCCESS"
  proof (cases "oui_rows ?oui u d = []")
    case True
    have "length (c_str s) \<le> length s" for s by (simp add: c_str_def length_takeWhile_le)
    then have "fst (MacRange_Add (first_mac_row m i) d) = 0"
      using MacRange_Add_row_live [of "first_mac_row m i" d] assms(2,3,6,7) good_mac_item_le [OF it(1)]
      by (simp add: first_mac_row_def) (meson le_trans)
    then show ?thesis
      using Inr True assms(1,2) it(2) MacRange_Query_live [OF e, of u] loaded_container [of ?oui u d]
      by (auto simp: AddMACRange_def Let_def CMACRange_Init_new mac_mgr_codes split: prod.splits)
  next
    case False
    let ?c = "\<lparr>m_dwOUI = ?oui, m_vecMACRange = oui_ranges ?oui u d\<rparr>"
    have ne: "m_vecMACRange ?c \<noteq> []" using False by (simp add: oui_ranges_def)
    obtain calc where calc: "CMACRange_AddRange i ?c = (0, ?c\<lparr>m_vecMACRange := calc\<rparr>)"
      "distinct calc" "good_macs ?oui calc"
      using AddRange_mac_rows [OF ne _ _ it(1)] oui_rows_ok_good [OF ok] by auto
    show ?thesis
      using Inr False ne assms(1,2) it(2) MacRange_Query_live [OF e, of u] loaded_container [of ?oui u d]
        calc(1) save_mac_ranges_live [OF ok assms(3) calc(2,3)]
      by (simp add: AddMACRange_def Let_def CMACRange_Init_new mac_mgr_codes)
  qed
  moreover have "\<not> (u = [] \<or> m_strMACStart m = [] \<or> m_strMACEnd m = [])"
    "\<not> (fst (String2MAC (m_strMACStart m) CMACAddr_new) \<noteq> 0 \<or>
        fst (String2MAC (m_strMACEnd m) (snd (String2MAC (m_strMACStart m) CMACAddr_new))) \<noteq> 0)"
    using Inr assms(2) by (auto simp: mac_msg_item_def IsValidMACMsgRange_def SetMAC_def Let_def
        split: if_splits prod.splits)
  ultimately show ?thesis using Inr by simp
qed

theorem AddMACRange_code_witness:
  "fst (AddMACRange (mac_msg 1 ''00:19:C6:0:0:3'' ''00:19:c6:00:00:09'') example_mdb) = MAC_RANGE_OPER_SUCCESS"
proof -
  let ?m = "mac_msg 1 ''00:19:C6:0:0:3'' ''00:19:c6:00:00:09''"
  have "oui_rows_ok c_dwZTEOUI1 ''np'' example_mdb" "oui_rows_ok c_dwZTEOUI2 ''np'' example_mdb"
    "fst (String2MAC ''00:19:C6:0:0:3'' CMACAddr_new) = 0"
    "fst (String2MAC ''00:19:c6:00:00:09'' (snd (String2MAC ''00:19:C6:0:0:3'' CMACAddr_new))) = 0"
    by code_simp+
  then show ?thesis
    using AddMACRange_code [of example_mdb "''np''" ?m] example_mac_ok(3) example_mac_rows(1)
      example_msg_items(1)
    by (simp add: VARCHAR_LEN_def)
qed

section \<open>Deleting a range\<close>

text \<open>C12. \<open>DelMACRange\<close> on well-formed, separated rows. Whatever the database does, it changes only the rows
  of the netplane and of the OUI, keeps them well-formed, removes no address outside the message and removes
  one at all only when no address of the message is allocated. When it returns success, all addresses of
  the message were in the ranges and exactly these are gone.\<close>

theorem DelMACRange_result:
  assumes "mac_msg_item m = Inr i" and "u = m_strMsgNetplaneUUID m" and "oui = dwOUI (tStartMAC i)"
    and "oui_rows_ok oui u d" and "mac_rows_apart oui u d" and "DelMACRange m d = (ret, d')"
  shows "mac_rest_same oui u d d' \<and> oui_rows_ok oui u d' \<and> np_macs oui u d' \<subseteq> np_macs oui u d \<and>
         np_macs oui u d - mac_item_set i \<subseteq> np_macs oui u d' \<and>
         (np_macs oui u d' \<noteq> np_macs oui u d \<longrightarrow> mac_item_free u i d) \<and>
         (ret = 0 \<longrightarrow> mac_item_set i \<subseteq> np_macs oui u d \<and>
            np_macs oui u d' = np_macs oui u d - mac_item_set i \<and> mac_rows_apart oui u d')"
  using DelMACRange_effect [OF assms(1) _ _ assms(6)] assms(2-5)
  by (simp add: mac_range_shrinks_def mac_range_removed_def Let_def)

theorem DelMACRange_result_witness:
  "\<exists>d'. DelMACRange (mac_msg 2 ''00:19:C6:0:0:3'' ''00:19:c6:00:00:04'') example_mdb = (0, d') \<and>
        np_macs 0x0019c6 ''np'' d' = {1, 2}"
proof -
  let ?m = "mac_msg 2 ''00:19:C6:0:0:3'' ''00:19:c6:00:00:04''"
  obtain r d' where a: "DelMACRange ?m example_mdb = (r, d')" by fastforce
  have "fst (DelMACRange ?m example_mdb) = 0" by code_simp
  then have r: "r = 0" using a by simp
  have "np_macs 0x0019c6 ''np'' d' = {1..4} - {3..4}"
    using DelMACRange_result [OF example_msg_items(2) refl refl _ _ a] example_mac_ok(1,2) r example_np_macs
    by (simp add: mac_item_set_def)
  moreover have "{1..4} - {3..4} = {1, 2::nat}" by auto
  ultimately show ?thesis using a r by simp
qed

text \<open>The exact code of a deletion. On a database whose calls do not fail, with well-formed and separated
  rows, a message that parses to a valid range is refused as not existing when the netplane has no range
  with its OUI, as occupied when one of its addresses is allocated, and with the calculation error when
  its addresses are not all in the ranges; otherwise it succeeds.\<close>

theorem DelMACRange_code:
  assumes "mac_msg_item m = Inr i" and "u = m_strMsgNetplaneUUID m" and "oui = dwOUI (tStartMAC i)"
    and "m_bInit d" and "mac_ranges_live u d" and "oui_rows_ok oui u d" and "mac_rows_apart oui u d"
  shows "fst (DelMACRange m d) =
    (if np_macs oui u d = {} then MAC_RANGE_NOT_EXIST
     else if \<not> mac_item_free u i d then MAC_RANGE_OCCUPIED
     else if \<not> mac_item_set i \<subseteq> np_macs oui u d then MAC_RANGE_CALC_ERROR
     else MAC_RANGE_OPER_SUCCESS)"
proof -
  note it = mac_msg_item_good [OF assms(1), folded assms(3)]
  have e: "env d = []" using assms(5) by (simp add: mac_ranges_live_def)
  obtain np where np: "np_lookup u d = Some np" using assms(5) by (auto simp: mac_ranges_live_def)
  obtain num where num: "MacRange_QueryAllocNum u (mac_num (tStartMAC i)) (mac_num (tEndMAC i)) d = (0, num, d)"
    "num = 0 \<longleftrightarrow> mac_item_free u i d"
    using MacQueryAllocNum_live [OF e np good_mac_item_le [OF it(1)]] by blast
  let ?c = "\<lparr>m_dwOUI = oui, m_vecMACRange = oui_ranges oui u d\<rparr>"
  have g: "good_macs oui (m_vecMACRange ?c)" using oui_rows_ok_good [OF assms(6)] by simp
  have "mac_item_set x \<noteq> {}" if "x \<in> set (oui_ranges oui u d)" for x
    using g that range_set_nonempty [of "mac_to_range x"] by (auto simp: good_macs_def good_mac_item_iff)
  then have none: "np_macs oui u d = {} \<longleftrightarrow> oui_rows oui u d = []"
    by (auto simp: np_macs_def list_macs_def oui_ranges_def)
  have start: "fst (DelMACRange m d) =
    (if oui_rows oui u d = [] then MAC_RANGE_NOT_EXIST
     else if num \<noteq> 0 then MAC_RANGE_OCCUPIED
     else case CMACRange_DelRange i ?c of
            (r, c') \<Rightarrow> if r \<noteq> 0 then MAC_RANGE_CALC_ERROR
                       else fst (save_mac_ranges u (m_vecMACRange c') (oui_rows oui u d) d))"
    using assms(1-4) it(2) MacRange_Query_live [OF e, of u] loaded_container [of oui u d] num(1)
    by (auto simp: DelMACRange_def Let_def CMACRange_Init_new mac_mgr_codes oui_ranges_def split: prod.splits)
  have inv: "mac_inv oui ?c"
    using assms(7) g list_macs_sub [OF g]
    by (fastforce simp: mac_inv_def macs_def list_macs_def good_macs_def good_mac_item_iff mac_rows_apart_def)
  have m: "macs ?c = np_macs oui u d" by (simp add: macs_def np_macs_def list_macs_def)
  have ok: "mac_range_ok oui i" using it(1) by (simp add: good_mac_item_def)
  have saved: "fst (save_mac_ranges u (m_vecMACRange c') (oui_rows oui u d) d) = 0"
    if "CMACRange_DelRange i ?c = (0, c')" "oui_rows oui u d \<noteq> []" for c'
  proof -
    have "m_vecMACRange ?c \<noteq> []" using that(2) by (simp add: oui_ranges_def)
    note dr = DelRange_mac_rows [OF this _ g _ it(1) that(1)]
    show ?thesis
      using dr(3,4) assms(7) by (intro save_mac_ranges_live [OF assms(6,5)]) (simp_all add: mac_rows_apart_def)
  qed
  show ?thesis
  proof (cases "mac_item_set i \<subseteq> np_macs oui u d")
    case True
    then obtain c' where "CMACRange_DelRange i ?c = (0, c')"
      using CMACRange_DelRange_done [OF inv ok] m by (auto simp: prod_eq_iff)
    then show ?thesis using True start num(2) none saved by (simp add: MAC_RANGE_OPER_SUCCESS_def)
  next
    case False
    then show ?thesis using CMACRange_DelRange_missing [OF inv ok] m start num(2) none by simp
  qed
qed

theorem DelMACRange_code_witness:
  "fst (DelMACRange (mac_msg 2 ''00:19:C6:0:0:3'' ''00:19:c6:00:00:09'') example_mdb) = MAC_RANGE_CALC_ERROR"
proof -
  have "mac_item_free ''np'' (mac_item 3 9) example_mdb"
    by (auto simp: mac_item_free_def item_nums_def mac_num_eq example_mdb_def mac_alloc_def np_lookup_def)
  then show ?thesis
    using DelMACRange_code [OF example_msg_items(3) refl refl] example_mac_ok example_mac_rows(1) example_np_macs
    by (simp add: mac_item_set_def)
qed

end
