(* ===== verification/MacFree.thy ===== *)
theory MacFree
  imports MacRangeMsg
begin

text \<open>
  \<open>CMACPool::FreeMAC\<close>, and the properties of the MAC pool.
\<close>

section \<open>The effect of a release\<close>

text \<open>The row that the text \<open>s\<close> names, for netplane \<open>u\<close>.\<close>

definition free_row :: "string \<Rightarrow> string \<Rightarrow> CDbNetplaneMacPool" where
  "free_row u s = \<lparr>NpUuid = u, MacNum = mac_num (GetUInt32MAC (snd (SetMAC s CMACAddr_new))), MacStr = c_str s\<rparr>"

definition names_row :: "CDbNetplaneMacPool \<Rightarrow> mdb \<Rightarrow> mac_pool_row \<Rightarrow> bool" where
  "names_row m d r \<longleftrightarrow> (\<exists>np. np_lookup (NpUuid m) d = Some np \<and> is_mac_row np m r)"

text \<open>Exactly the rows that \<open>m\<close> names are gone, and no interface used one of them.\<close>

definition mac_removed :: "CDbNetplaneMacPool \<Rightarrow> mdb \<Rightarrow> mdb \<Rightarrow> bool" where
  "mac_removed m d d' \<longleftrightarrow>
     mac_kept d d' \<and> mac_pool d' = filter (\<lambda>r. \<not> names_row m d r) (mac_pool d) \<and>
     (\<forall>r \<in> set (mac_pool d). names_row m d r \<longrightarrow> mp_id r \<notin> set (vsi_mac_id d))"

lemma names_row_kept: "mac_kept d d' \<Longrightarrow> names_row m d' = names_row m d"
  by (simp add: fun_eq_iff names_row_def mac_kept_sel(8))

lemma check_del_code:
  "pf_net_check_del_netplane_macpool m d \<in> {0, RTN_ITEM_NO_EXIST, RTN_RESOURCE_USING}"
  by (auto simp: pf_net_check_del_netplane_macpool_def split: option.splits)

lemma check_del_none:
  assumes "pf_net_check_del_netplane_macpool m d = RTN_ITEM_NO_EXIST"
  shows "\<forall>r \<in> set (mac_pool d). \<not> names_row m d r"
  using assms
  by (auto simp: pf_net_check_del_netplane_macpool_def names_row_def rtn_defs find_None_all
      split: option.splits if_splits)

lemma MacPool_CheckDel_effect:
  assumes "MacPool_CheckDel m d = (ret, d')"
  shows "same_tables d d'"
    and "VNET_DB_IS_ITEM_NO_EXIST ret \<Longrightarrow> \<forall>r \<in> set (mac_pool d). \<not> names_row m d r"
proof -
  have "same_tables d d' \<and> (VNET_DB_IS_ITEM_NO_EXIST ret \<longrightarrow> (\<forall>r \<in> set (mac_pool d). \<not> names_row m d r))"
    using assms unfolding MacPool_CheckDel_def
  proof (cases rule: db_del_op_cases)
    case (ran d1 a)
    have "VNET_DB_IS_ITEM_NO_EXIST ret \<longrightarrow> a = RTN_ITEM_NO_EXIST"
      using ran(2,4) check_del_code [of m d1] by (auto simp: rtn_defs)
    then show ?thesis
      using ran(1,2) check_del_none [of m d1] same_tables_mac [OF ran(1)] names_row_kept [of d d1 m] by auto
  qed auto
  then show "same_tables d d'"
    "VNET_DB_IS_ITEM_NO_EXIST ret \<Longrightarrow> \<forall>r \<in> set (mac_pool d). \<not> names_row m d r" by auto
qed

lemma pf_net_del_netplane_macpool_effect:
  assumes "pf_net_del_netplane_macpool m d = Some (ret, d')"
  shows "0 \<le> ret \<and> (if ret = 0 then mac_removed m d d' else d' = d)"
proof (cases "pf_net_check_del_netplane_macpool m d = 0")
  case False
  then show ?thesis
    using assms check_del_code [of m d] by (auto simp: pf_net_del_netplane_macpool_def Let_def rtn_defs)
next
  case True
  then obtain np where np: "np_lookup (NpUuid m) d = Some np"
    by (auto simp: pf_net_check_del_netplane_macpool_def rtn_defs split: option.splits)
  then have n: "names_row m d = is_mac_row np m" by (simp add: fun_eq_iff names_row_def)
  show ?thesis
  proof (cases "delete_mac_pool np m d")
    case None
    then show ?thesis using assms True np by (auto simp: pf_net_del_netplane_macpool_def Let_def rtn_defs)
  next
    case (Some d1)
    then have "ret = 0" "d' = d\<lparr>mac_pool := filter (\<lambda>r. \<not> is_mac_row np m r) (mac_pool d)\<rparr>"
      "\<forall>r \<in> set (mac_pool d). is_mac_row np m r \<longrightarrow> mp_id r \<notin> set (vsi_mac_id d)"
      using assms True np
      by (auto simp: pf_net_del_netplane_macpool_def Let_def delete_mac_pool_def list_ex_iff split: if_splits)
    then show ?thesis by (simp add: mac_removed_def n mac_kept_def)
  qed
qed

lemma mac_removed_same:
  assumes "same_tables d d1" and "mac_removed m d1 d'"
  shows "mac_removed m d d'"
  using assms same_tables_mac [OF assms(1)] names_row_kept [of d d1 m] mac_kept_trans [of d d1 d']
    mac_kept_sel(7) [of d d1]
  by (simp add: mac_removed_def)

lemma mac_removed_gone: "mac_removed m d d' \<Longrightarrow> \<forall>r \<in> set (mac_pool d'). \<not> names_row m d' r"
  using names_row_kept [of d d' m] by (simp add: mac_removed_def)

lemma MacPool_Del_effect:
  assumes "MacPool_Del m d = (ret, d')"
  shows "same_tables d d' \<or> mac_removed m d d'" and "ret = 0 \<Longrightarrow> mac_removed m d d'"
proof -
  have "(same_tables d d' \<or> mac_removed m d d') \<and> (ret = 0 \<longrightarrow> mac_removed m d d')"
    using assms unfolding MacPool_Del_def
  proof (cases rule: db_del_op_cases)
    case (ran d1 a)
    note e = pf_net_del_netplane_macpool_effect [OF ran(2)]
    show ?thesis using e ran(1,3) mac_removed_same [OF ran(1)] by (auto split: if_splits)
  qed auto
  then show "same_tables d d' \<or> mac_removed m d d'" "ret = 0 \<Longrightarrow> mac_removed m d d'" by auto
qed

lemma FreeMAC_effect:
  assumes "CMACPool_FreeMAC s p d = (ret, d')"
  shows "ret \<in> {0, - 1}" and "same_tables d d' \<or> mac_removed (free_row (m_strNetplaneUUID p) s) d d'"
    and "ret = 0 \<Longrightarrow> \<forall>r \<in> set (mac_pool d'). \<not> names_row (free_row (m_strNetplaneUUID p) s) d' r"
    and "ret = 0 \<Longrightarrow> m_strNetplaneUUID p \<noteq> [] \<and> m_bInit d \<and> fst (SetMAC s CMACAddr_new) = 0"
proof -
  let ?row = "free_row (m_strNetplaneUUID p) s"
  obtain r0 mm where st: "SetMAC s CMACAddr_new = (r0, mm)" by fastforce
  obtain r1 d1 where c: "MacPool_CheckDel ?row d = (r1, d1)" by fastforce
  obtain r2 d2 where x: "MacPool_Del ?row d1 = (r2, d2)" by fastforce
  note ce = MacPool_CheckDel_effect [OF c]
  note xe = MacPool_Del_effect [OF x]
  have row: "?row = \<lparr>NpUuid = m_strNetplaneUUID p, MacNum = mac_num (GetUInt32MAC mm), MacStr = c_str s\<rparr>"
    by (simp add: free_row_def st)
  consider (stop) "ret = - 1" "d' = d \<or> d' = d1" | (gone) "ret = 0" "d' = d1" "VNET_DB_IS_ITEM_NO_EXIST r1"
    | (del) "d' = d2" "ret = (if r2 = 0 then 0 else - 1)"
    using assms c x st unfolding row
    by (auto simp: CMACPool_FreeMAC_def Let_def VNET_DB_SUCCESS_def split: if_splits)
  then have main: "ret \<in> {0, - 1} \<and> (same_tables d d' \<or> mac_removed ?row d d') \<and>
      (ret = 0 \<longrightarrow> (\<forall>r \<in> set (mac_pool d'). \<not> names_row ?row d' r))"
  proof cases
    case stop
    then show ?thesis using ce(1) by auto
  next
    case gone
    then show ?thesis
      using ce same_tables_mac [OF ce(1)] names_row_kept [of d d1 ?row] by simp
  next
    case del
    have "same_tables d d' \<or> mac_removed ?row d d'"
      using del(1) ce(1) xe(1) same_tables_trans [OF ce(1)] mac_removed_same [OF ce(1)] by blast
    moreover have "ret = 0 \<longrightarrow> mac_removed ?row d1 d'" using del xe(2) by auto
    ultimately show ?thesis using del(2) mac_removed_gone by auto
  qed
  then show "ret \<in> {0, - 1}" "same_tables d d' \<or> mac_removed ?row d d'"
    "ret = 0 \<Longrightarrow> \<forall>r \<in> set (mac_pool d'). \<not> names_row ?row d' r" by auto
  show "ret = 0 \<Longrightarrow> m_strNetplaneUUID p \<noteq> [] \<and> m_bInit d \<and> fst (SetMAC s CMACAddr_new) = 0"
    using assms st by (auto simp: CMACPool_FreeMAC_def Let_def split: if_splits)
qed

section \<open>Calls that do not fail\<close>

lemma MacPool_CheckDel_live:
  assumes "env d = []"
  shows "MacPool_CheckDel m d = (let c = pf_net_check_del_netplane_macpool m d in
           (if c = 0 then 0 else GET_DB_ERROR_PROC c, d))"
  using assms by (simp add: MacPool_CheckDel_def db_del_op_def Handle_run Let_def VNET_DB_SUCCESS_def)

lemma FreeMAC_live:
  assumes "env d = []" and "m_bInit d" and "m_strNetplaneUUID p \<noteq> []" and "SetMAC s CMACAddr_new = (0, mm)"
    and "np_lookup (m_strNetplaneUUID p) d = Some np" and "m = free_row (m_strNetplaneUUID p) s"
    and "\<forall>r \<in> set (mac_pool d). names_row m d r \<longrightarrow> mp_id r \<notin> set (vsi_mac_id d)"
  shows "CMACPool_FreeMAC s p d = (0, d\<lparr>mac_pool := filter (\<lambda>r. \<not> names_row m d r) (mac_pool d)\<rparr>)"
proof -
  have s: "s \<noteq> []" using assms(4) by (auto simp: SetMAC_def)
  have row: "m = \<lparr>NpUuid = m_strNetplaneUUID p, MacNum = mac_num (GetUInt32MAC mm), MacStr = c_str s\<rparr>"
    by (simp add: assms(6) free_row_def assms(4))
  then have n: "names_row m d = is_mac_row np m" using assms(5) by (simp add: fun_eq_iff names_row_def)
  show ?thesis
  proof (cases "find (is_mac_row np m) (mac_pool d)")
    case None
    then have "filter (\<lambda>r. \<not> names_row m d r) (mac_pool d) = mac_pool d"
      by (simp add: find_None_all n)
    moreover have "pf_net_check_del_netplane_macpool m d = RTN_ITEM_NO_EXIST"
      using None row assms(5) by (simp add: pf_net_check_del_netplane_macpool_def)
    ultimately show ?thesis
      using assms(1-4) s MacPool_CheckDel_live [OF assms(1), of m]
      by (simp add: CMACPool_FreeMAC_def Let_def row [symmetric] rtn_defs VNET_DB_IS_ITEM_NO_EXIST_def)
  next
    case (Some r)
    then have "r \<in> set (mac_pool d)" "is_mac_row np m r" by (auto simp: find_Some_iff)
    then have "mp_id r \<notin> set (vsi_mac_id d)" using assms(7) n by simp
    moreover have u: "np_lookup (NpUuid m) d = Some np" using row assms(5) by simp
    ultimately have c: "pf_net_check_del_netplane_macpool m d = 0"
      using Some by (simp add: pf_net_check_del_netplane_macpool_def)
    have "delete_mac_pool np m d = Some (d\<lparr>mac_pool := filter (\<lambda>r. \<not> is_mac_row np m r) (mac_pool d)\<rparr>)"
      using assms(7) by (auto simp: delete_mac_pool_def list_ex_iff n)
    then have "MacPool_Del m d = (0, d\<lparr>mac_pool := filter (\<lambda>r. \<not> is_mac_row np m r) (mac_pool d)\<rparr>)"
      using c u assms(1)
      by (simp add: MacPool_Del_def db_del_op_def Handle_run pf_net_del_netplane_macpool_def VNET_DB_SUCCESS_def)
    then show ?thesis
      using assms(1-4) s MacPool_CheckDel_live [OF assms(1), of m] c n
      by (simp add: CMACPool_FreeMAC_def Let_def row [symmetric] VNET_DB_SUCCESS_def)
  qed
qed

text \<open>The text of an allocated address names its row.\<close>

lemma c_str_GetStringMAC: "c_str (GetStringMAC m) = GetStringMAC m"
  using GetStringMAC_chars [of _ m] by (auto simp: c_str_def takeWhile_eq_all_conv)

lemma SetMAC_text: "SetMAC (mac_text_of n) CMACAddr_new = (0, Uint32MAC2MAC (num_mac n))"
proof -
  have "mac_text_of n \<noteq> []" by (metis GetStringMAC_length list.size(3) mac_text_of_def zero_neq_numeral)
  moreover have "mac_ok CMACAddr_new" by (simp add: mac_ok_def CMACAddr_new_def)
  ultimately show ?thesis by (simp add: SetMAC_def mac_text_of_def String2MAC_GetStringMAC)
qed

lemma free_row_text:
  assumes "mac_num (num_mac n) = n"
  shows "free_row u (mac_text_of n) = \<lparr>NpUuid = u, MacNum = n, MacStr = mac_text_of n\<rparr>"
proof -
  have "c_str (mac_text_of n) = mac_text_of n" by (simp add: mac_text_of_def c_str_GetStringMAC)
  moreover have "MAC2Uint32MAC (Uint32MAC2MAC (num_mac n)) = num_mac n"
    using mac24_num_mac by (simp add: MAC2Uint32MAC_inverse mac24_ok)
  ultimately show ?thesis using assms by (simp add: free_row_def SetMAC_text GetUInt32MAC_def)
qed

section \<open>Allocation: properties\<close>

definition example_mac_pool :: CMACPool where
  "example_mac_pool =
     \<lparr>m_strNetplaneUUID = ''np'', m_pOUI1MACRange = Some \<lparr>m_dwOUI = c_dwZTEOUI1, m_vecMACRange = []\<rparr>,
      m_pOUI2MACRange = Some \<lparr>m_dwOUI = 0x0019c6, m_vecMACRange = [mac_item 1 4]\<rparr>\<rparr>"

abbreviation zero_uuid :: "nat \<Rightarrow> nat \<Rightarrow> nat \<Rightarrow> uint8 list" where
  "zero_uuid \<equiv> \<lambda>_ _ _. replicate 16 0"

lemma example_pool_loaded: "pool_loaded example_mac_pool"
  by (auto simp: pool_loaded_def example_mac_pool_def loaded_range_def mac24_def)

lemma example_mac_alloc:
  "CMACPool_AllocMAC False zero_uuid 0 [] example_mac_pool example_mdb =
     Some (0, ''00:19:c6:00:00:03'', example_mdb\<lparr>serial_mac_pool := 2, mac_pool := mac_pool example_mdb @
       [\<lparr>mp_id = 2, mp_netplane_id = 1, mp_mac = ''00:19:c6:00:00:03'', mp_num = 28338194219011\<rparr>]\<rparr>)"
  by code_simp

text \<open>\<open>AllocMAC\<close> on ranges as the manager loads them. Whatever the database and the random bytes are, a
  call that returns only adds rows to the pool: rows of this netplane with different numbers, that lie in
  its ranges, were not allocated to any netplane before, and carry the text of their number. With result 0
  the address handed out is one of them, and one of the addresses of the pool object; with any other
  result it is -1 and the argument is left as it was.\<close>

theorem AllocMAC_result:
  assumes "pool_loaded p" and "u = m_strNetplaneUUID p"
    and "CMACPool_AllocMAC big rnd key t0 p d = Some (ret, t, d')"
  shows "mac_kept d d' \<and>
    (\<exists>new. mac_pool d' = mac_pool d @ new \<and> (\<forall>r \<in> set new. fresh_row u d r) \<and> distinct (map mp_num new) \<and>
       (if ret = 0 then \<exists>r \<in> set new. mp_num r \<in> pool_addrs p \<and> t = mac_text_of (mp_num r)
        else ret = - 1 \<and> t = t0))"
proof -
  note e = AllocMAC_effect [OF assms(1,3), folded assms(2)]
  then obtain new where n: "mac_pool d' = mac_pool d @ new" "\<forall>r \<in> set new. fresh_row u d r"
    "distinct (map mp_num new)" "mac_kept d d'" by (auto simp: mac_grows_def)
  have "\<exists>r \<in> set new. mp_num r \<in> pool_addrs p \<and> t = mac_text_of (mp_num r)" if ret: "ret = 0"
  proof -
    obtain k r where k: "k \<in> pool_addrs p" "t = mac_text_of k" "r \<in> set (mac_pool d')" "mp_num r = k"
      "fresh_row u d r" using e ret by (auto simp: alloc_done_def)
    then have "r \<in> set new" using n(1) by (auto simp: fresh_row_def mac_used_def)
    then show ?thesis using k by blast
  qed
  then show ?thesis using e n by auto
qed

theorem AllocMAC_result_witness:
  "\<exists>ret t d'. CMACPool_AllocMAC False zero_uuid 0 [] example_mac_pool example_mdb = Some (ret, t, d') \<and>
     mac_kept example_mdb d'"
  using AllocMAC_result [OF example_pool_loaded refl example_mac_alloc] example_mac_alloc by blast

text \<open>C9. Liveness of \<open>AllocMAC\<close>. On a database whose calls do not fail, with the ranges of the netplane
  loaded and none of their addresses allocated to another netplane, every call returns, for every host byte
  order, key and random bytes. It succeeds exactly when an address of the pool is free: then one free
  address is handed out and exactly its row is added. Otherwise it returns -1 and changes nothing.\<close>

theorem AllocMAC_complete:
  assumes "u = m_strNetplaneUUID p" and "mac_live u np d" and "pool_of_netplane np d p"
    and "own_addrs np d (pool_addrs p)"
  shows "if pool_addrs p \<subseteq> mac_used d then CMACPool_AllocMAC big rnd key t0 p d = Some (- 1, t0, d)
    else \<exists>n \<in> pool_addrs p. \<exists>d'. CMACPool_AllocMAC big rnd key t0 p d = Some (0, mac_text_of n, d') \<and>
           mac_kept d d' \<and> (\<exists>r. mac_pool d' = mac_pool d @ [r] \<and> mp_num r = n \<and> fresh_row u d r)"
proof (cases "pool_addrs p \<subseteq> mac_used d")
  case True
  then show ?thesis using AllocMAC_live [of p np d big rnd key t0] assms by simp
next
  case False
  then obtain n d' where "n \<in> pool_addrs p" "saved_live u n d d'"
    "CMACPool_AllocMAC big rnd key t0 p d = Some (0, mac_text_of n, d')"
    using AllocMAC_live [of p np d big rnd key t0] assms by auto
  then show ?thesis using False unfolding saved_live_def saved_def by (simp only: if_False) blast
qed

lemma example_mac_live:
  "mac_live ''np'' 1 example_mdb" "mac_nums example_mdb 1 = {28338194219009..28338194219012}"
  "mac_used example_mdb = {28338194219009}"
proof -
  have "mac_rows_ok example_mdb" by code_simp
  then show "mac_live ''np'' 1 example_mdb" by (simp add: mac_live_def example_mdb_def np_lookup_def)
  show "mac_nums example_mdb 1 = {28338194219009..28338194219012}" "mac_used example_mdb = {28338194219009}"
    by (auto simp: mac_nums_def mac_used_def example_mdb_def)
qed

lemma example_pool_of_netplane: "pool_of_netplane 1 example_mdb example_mac_pool"
proof -
  have "IsValidMACRange (mac_item 1 4)" by code_simp
  then show ?thesis
    by (auto simp: pool_of_netplane_def example_mac_pool_def range_of_netplane_def loaded_range_def mac24_def
        example_mac_live mac_num_eq in_item_def word_le_def)
qed

lemma example_own: "own_addrs 1 example_mdb (pool_addrs example_mac_pool)"
  by (auto simp: own_addrs_def mac_used_def mac_alloc_def example_mdb_def)

theorem AllocMAC_complete_witness:
  "\<exists>t d'. CMACPool_AllocMAC True zero_uuid 7 [] example_mac_pool example_mdb = Some (0, t, d') \<and>
     length (mac_pool d') = 2"
proof -
  have "mac_num \<lparr>dwOUI = 0x0019c6, dwData = 2\<rparr> \<in> pool_addrs example_mac_pool"
    unfolding pool_addrs_def
    by (rule CollectI, rule exI [of _ "\<lparr>m_dwOUI = 0x0019c6, m_vecMACRange = [mac_item 1 4]\<rparr>"],
        rule exI [of _ "mac_item 1 4"], rule exI [of _ 2])
      (simp add: example_mac_pool_def in_item_def)
  then have "\<not> pool_addrs example_mac_pool \<subseteq> mac_used example_mdb"
    by (auto simp: example_mac_live(3) mac_num_eq)
  then show ?thesis
    using AllocMAC_complete [OF refl _ example_pool_of_netplane example_own, of True zero_uuid 7 "[]"] example_mac_live(1)
    by (auto simp: example_mac_pool_def example_mdb_def)
qed

lemma pool_of_netplane_num:
  assumes "pool_of_netplane np d p" and "n \<in> pool_addrs p"
  shows "mac_num (num_mac n) = n"
proof -
  obtain c r i where c: "m_pOUI1MACRange p = Some c \<or> m_pOUI2MACRange p = Some c" "r \<in> set (m_vecMACRange c)"
    "in_item i r" "n = mac_num \<lparr>dwOUI = m_dwOUI c, dwData = i\<rparr>" using assms(2) by (auto simp: pool_addrs_def)
  then have "loaded_range (m_dwOUI c) r" using assms(1) by (auto simp: pool_of_netplane_def range_of_netplane_def)
  then show ?thesis using loaded_range_mac24 c(3,4) by (simp add: num_mac_mac_num)
qed

text \<open>A release gives back exactly what an allocation took. On a database whose calls do not fail,
  \<open>FreeMAC\<close> accepts the text that \<open>AllocMAC\<close> returned, and afterwards the pool has the rows that it
  had before the allocation, in their order.\<close>

theorem AllocMAC_FreeMAC:
  assumes "u = m_strNetplaneUUID p" and "mac_live u np d" and "pool_of_netplane np d p"
    and "own_addrs np d (pool_addrs p)" and "\<forall>i \<in> set (vsi_mac_id d). i \<le> serial_mac_pool d"
    and "CMACPool_AllocMAC big rnd key t0 p d = Some (0, t, d1)"
  shows "\<exists>d2. CMACPool_FreeMAC t p d1 = (0, d2) \<and> mac_pool d2 = mac_pool d \<and> mac_kept d d2"
proof -
  note live = AllocMAC_live [of p np d big rnd key t0, folded assms(1), OF assms(2-4)]
  then have "\<not> pool_addrs p \<subseteq> mac_used d" using assms(6) by auto
  then obtain n where n: "n \<in> pool_addrs p" "saved_live u n d d1" "t = mac_text_of n"
    using live assms(6) by auto
  then obtain r where r: "mac_kept d d1" "mac_pool d1 = mac_pool d @ [r]" "mp_num r = n" "fresh_row u d r"
    "env d1 = []" by (auto simp: saved_live_def saved_def)
  note num = pool_of_netplane_num [OF assms(3) n(1)]
  let ?m = "free_row u t"
  note m = free_row_text [OF num, of u, folded n(3)]
  have np: "np_lookup u d1 = Some np" "m_bInit d1"
    using mac_kept_sel(1,8) [OF r(1)] assms(2) by (simp_all add: mac_live_def)
  have old: "\<not> names_row ?m d1 x" if "x \<in> set (mac_pool d)" for x
  proof -
    have "n \<notin> mac_used d" using r(3,4) by (auto simp: fresh_row_def)
    then have "mp_num x \<noteq> n" using that by (auto simp: mac_used_def)
    then show ?thesis by (simp add: names_row_def is_mac_row_def m)
  qed
  have new: "names_row ?m d1 r"
    using np r(3,4) m n(3) assms(2) by (auto simp: names_row_def is_mac_row_def fresh_row_def mac_live_def)
  have vsi: "mp_id r \<notin> set (vsi_mac_id d1)"
    using assms(5) r(4) mac_kept_sel(7) [OF r(1)] by (force simp: fresh_row_def)
  have "CMACPool_FreeMAC t p d1 = (0, d1\<lparr>mac_pool := filter (\<lambda>r. \<not> names_row ?m d1 r) (mac_pool d1)\<rparr>)"
    using old vsi r(2,5) np assms(1,3) SetMAC_text [of n] n(3)
    by (intro FreeMAC_live) (auto simp: pool_of_netplane_def)
  moreover have "filter (\<lambda>r. \<not> names_row ?m d1 r) (mac_pool d1) = mac_pool d"
    using old new r(2) by (simp add: filter_id_conv)
  ultimately show ?thesis using r(1) by (simp add: mac_kept_def)
qed

theorem AllocMAC_FreeMAC_witness:
  "\<exists>d1 d2. CMACPool_AllocMAC False zero_uuid 0 [] example_mac_pool example_mdb =
       Some (0, ''00:19:c6:00:00:03'', d1) \<and>
     CMACPool_FreeMAC ''00:19:c6:00:00:03'' example_mac_pool d1 = (0, d2) \<and> mac_pool d2 = mac_pool example_mdb"
  using AllocMAC_FreeMAC [OF refl _ example_pool_of_netplane example_own _ example_mac_alloc] example_mac_alloc
    example_mac_live(1)
  by (force simp: example_mac_pool_def example_mdb_def)

section \<open>Release: properties\<close>

text \<open>\<open>FreeMAC\<close> whatever the database does: the result is 0 or -1; the rows of the pool stay as they are,
  or exactly the row of this netplane with the number and the text of the argument is gone, and then no
  interface used it. Nothing else changes. With result 0 the argument was a MAC address and no such row
  is left.\<close>

theorem FreeMAC_result:
  assumes "m = free_row (m_strNetplaneUUID p) s" and "CMACPool_FreeMAC s p d = (ret, d')"
  shows "ret \<in> {0, - 1} \<and> mac_kept d d' \<and>
    (mac_pool d' = mac_pool d \<or>
     mac_pool d' = filter (\<lambda>r. \<not> names_row m d r) (mac_pool d) \<and>
     (\<forall>r \<in> set (mac_pool d). names_row m d r \<longrightarrow> mp_id r \<notin> set (vsi_mac_id d))) \<and>
    (ret = 0 \<longrightarrow> fst (SetMAC s CMACAddr_new) = 0 \<and> (\<forall>r \<in> set (mac_pool d'). \<not> names_row m d' r))"
  using FreeMAC_effect [OF assms(2), folded assms(1)] same_tables_mac [of d d']
  by (auto simp: mac_removed_def)

lemma example_mac_free:
  "CMACPool_FreeMAC ''00:19:c6:00:00:01'' example_mac_pool example_mdb = (0, example_mdb\<lparr>mac_pool := []\<rparr>)"
  by code_simp

theorem FreeMAC_result_witness:
  "CMACPool_FreeMAC ''00:19:c6:00:00:01'' example_mac_pool example_mdb = (0, example_mdb\<lparr>mac_pool := []\<rparr>) \<and>
   mac_kept example_mdb (example_mdb\<lparr>mac_pool := []\<rparr>)"
  using FreeMAC_result [OF refl example_mac_free] example_mac_free by simp

text \<open>\<open>FreeMAC\<close> looks the row up by the text as well as by the number. When the calls do not fail, a text
  that parses to an allocated address and is not spelled like the stored one (with capital letters, one
  digit, or blanks) is answered with 0, success, but the address stays allocated.\<close>

theorem FreeMAC_other_spelling:
  assumes "mac_live u np d" and "u = m_strNetplaneUUID p" and "u \<noteq> []"
    and "SetMAC s CMACAddr_new = (0, mm)" and "n = mac_num (GetUInt32MAC mm)" and "n \<in> mac_alloc d np"
    and "c_str s \<noteq> mac_text_of n"
  shows "CMACPool_FreeMAC s p d = (0, d) \<and> n \<in> mac_alloc d np"
proof -
  let ?m = "free_row u s"
  have m: "?m = \<lparr>NpUuid = u, MacNum = n, MacStr = c_str s\<rparr>"
    by (simp add: free_row_def assms(4,5))
  have no: "\<not> names_row ?m d r" if "r \<in> set (mac_pool d)" for r
    using that assms(1,7) unfolding m
    by (auto simp: names_row_def is_mac_row_def mac_live_def mac_rows_ok_def)
  then have "filter (\<lambda>r. \<not> names_row ?m d r) (mac_pool d) = mac_pool d" by (simp add: filter_id_conv)
  moreover have "CMACPool_FreeMAC s p d = (0, d\<lparr>mac_pool := filter (\<lambda>r. \<not> names_row ?m d r) (mac_pool d)\<rparr>)"
    using assms(1-4) no by (intro FreeMAC_live) (auto simp: mac_live_def)
  ultimately show ?thesis using assms(6) by simp
qed

theorem FreeMAC_other_spelling_witness:
  "CMACPool_FreeMAC ''00:19:C6:0:0:1'' example_mac_pool example_mdb = (0, example_mdb) \<and>
   28338194219009 \<in> mac_alloc example_mdb 1"
proof -
  have s: "SetMAC ''00:19:C6:0:0:1'' CMACAddr_new = (0, [0x00, 0x19, 0xc6, 0, 0, 1])" by code_simp
  have n: "28338194219009 = mac_num (GetUInt32MAC [0x00, 0x19, 0xc6, 0, 0, 1])" by code_simp
  have "c_str ''00:19:C6:0:0:1'' \<noteq> mac_text_of 28338194219009" by code_simp
  moreover have "28338194219009 \<in> mac_alloc example_mdb 1" by (auto simp: mac_alloc_def example_mdb_def)
  ultimately show ?thesis
    using FreeMAC_other_spelling [OF example_mac_live(1) _ _ s n] by (simp add: example_mac_pool_def)
qed

section \<open>The draw, and ranges that netplanes share\<close>

text \<open>C34. The address that \<open>CalcMACAddr\<close> draws lies in the range, for all bytes, keys and byte orders, and
  is never the last one of a range of two addresses or more.\<close>

theorem CalcMACAddr_bounds:
  assumes "dwMACStart \<le> dwMACEnd"
  shows "dwMACStart \<le> CalcMACAddr big uuid nKey dwMACEnd dwMACStart \<and>
    (if dwMACStart = dwMACEnd then CalcMACAddr big uuid nKey dwMACEnd dwMACStart = dwMACEnd
     else CalcMACAddr big uuid nKey dwMACEnd dwMACStart < dwMACEnd)"
proof (cases "dwMACStart = dwMACEnd")
  case True
  then show ?thesis by (simp add: CalcMACAddr_def)
next
  case False
  then have "0 < dwMACEnd - dwMACStart" using assms by (simp add: word_gt_0)
  have *: "dwMACStart \<le> k mod (dwMACEnd - dwMACStart) + dwMACStart \<and>
      k mod (dwMACEnd - dwMACStart) + dwMACStart < dwMACEnd" for k
  proof -
    have d: "unat (dwMACEnd - dwMACStart) = unat dwMACEnd - unat dwMACStart" "unat dwMACStart < unat dwMACEnd"
      using assms False by (simp_all add: unat_sub word_less_nat_alt [symmetric])
    have k: "unat (k mod (dwMACEnd - dwMACStart)) < unat dwMACEnd - unat dwMACStart"
      using d by (simp add: unat_mod_distrib)
    then have "unat (k mod (dwMACEnd - dwMACStart)) + unat dwMACStart < 4294967296"
      using d(2) unat32_less [of dwMACEnd] by simp
    then have "unat (k mod (dwMACEnd - dwMACStart) + dwMACStart) =
        unat (k mod (dwMACEnd - dwMACStart)) + unat dwMACStart"
      by (simp add: unat_word_ariths)
    then show ?thesis using k by (simp add: word_le_nat_alt word_less_nat_alt)
  qed
  then show ?thesis using False by (simp add: CalcMACAddr_def Let_def)
qed

theorem CalcMACAddr_bounds_witness:
  "CalcMACAddr True (replicate 16 0xFF) 3 9 5 < 9"
  using CalcMACAddr_bounds [of 5 9 True "replicate 16 0xFF" 3] by simp

end
