(* ===== verification/MacShared.thy ===== *)
theory MacShared
  imports MacFree
begin

text \<open>
  What happens when two netplanes have MAC ranges in common. \<open>AddMACRange\<close> does not compare the ranges of
  different netplanes, the pool accepts an address only once for all netplanes, and the count and the scan of
  a range see the rows of their own netplane only.
\<close>

text \<open>A pool with one range, in the container of the second OUI.\<close>

definition single_pool :: "string \<Rightarrow> uint32 \<Rightarrow> TMACRangeItem \<Rightarrow> CMACPool \<Rightarrow> bool" where
  "single_pool u oui r p \<longleftrightarrow> u \<noteq> [] \<and> m_strNetplaneUUID p = u \<and> loaded_range oui r \<and> IsValidMACRange r \<and>
     m_pOUI1MACRange p = Some \<lparr>m_dwOUI = c_dwZTEOUI1, m_vecMACRange = []\<rparr> \<and>
     m_pOUI2MACRange p = Some \<lparr>m_dwOUI = oui, m_vecMACRange = [r]\<rparr>"

lemma pool_addrs_second:
  "m_pOUI2MACRange p = Some c \<Longrightarrow> r \<in> set (m_vecMACRange c) \<Longrightarrow> in_item i r \<Longrightarrow>
     mac_num \<lparr>dwOUI = m_dwOUI c, dwData = i\<rparr> \<in> pool_addrs p"
  unfolding pool_addrs_def by blast

lemma single_pool_alloc:
  assumes "single_pool u oui r p" and "mac_live u np d" and "\<not> item_nums r \<subseteq> mac_alloc d np"
  obtains x where "tRange x = r"
    "CMACPool_AllocMAC big rnd key t0 p d =
      (case alloc_in big (rnd 2) u key oui 0 [x] t0 d of
         None \<Rightarrow> None
       | Some (nRet, s, d1) \<Rightarrow> if 0 = nRet then Some (0, s, d1) else Some (- 1, t0, d1))"
proof -
  have r: "\<forall>x \<in> set [r]. loaded_range oui x \<and> IsValidMACRange x" using assms(1) by (simp add: single_pool_def)
  obtain out where out: "GetAvailableRange u [r] d = (out, d)" "tRange ` set out = {r}"
    using GetAvailableRange_live [OF assms(2) r] assms(3) by auto
  note cnt = GetMACCnt_live [OF assms(2), of oui r]
  have one: "\<exists>x. out = [x]"
    using out cnt r assms(3)
    by (auto simp: GetAvailableRange_def Let_def split: if_splits)
  then obtain x where x: "out = [x]" "tRange x = r" using out(2) by auto
  have "AllocMACAtRange big (rnd 2) u [r] oui key t0 d = alloc_in big (rnd 2) u key oui 0 [x] t0 d"
    using out(1) x(1) by (simp add: AllocMACAtRange_def)
  then have "CMACPool_AllocMAC big rnd key t0 p d =
      (case alloc_in big (rnd 2) u key oui 0 [x] t0 d of
         None \<Rightarrow> None
       | Some (nRet, s, d1) \<Rightarrow> if 0 = nRet then Some (0, s, d1) else Some (- 1, t0, d1))"
    using assms(1) by (simp add: CMACPool_AllocMAC_def single_pool_def Let_def)
  with x(2) show thesis by (rule that)
qed

lemma item_nums_start: "IsValidMACRange r \<Longrightarrow> loaded_range oui r \<Longrightarrow> mac_num (tStartMAC r) \<in> item_nums r"
  using IsValidMACRange_le [of r] by (simp add: item_nums_def loaded_range_def mac_num_le_iff)

text \<open>A range of one address can end the process. When the only range of a netplane has one address
  and another netplane has it, the retry computes a remainder by zero: \<open>AllocMAC\<close> does not return,
  whatever the random bytes, key and host byte order are.\<close>

theorem AllocMAC_divides_by_zero:
  assumes "single_pool u oui r p" and "mac_live u np d"
    and "dwData (tStartMAC r) = dwData (tEndMAC r)"
    and "mac_num (tStartMAC r) \<in> mac_used d" and "mac_num (tStartMAC r) \<notin> mac_alloc d np"
  shows "CMACPool_AllocMAC big rnd key t0 p d = None"
proof -
  let ?s = "dwData (tStartMAC r)"
  have v: "IsValidMACRange r" "loaded_range oui r" using assms(1) by (simp_all add: single_pool_def)
  have o: "tStartMAC r = \<lparr>dwOUI = oui, dwData = ?s\<rparr>" using v(2) by (cases "tStartMAC r") (simp add: loaded_range_def)
  have "\<not> item_nums r \<subseteq> mac_alloc d np" using item_nums_start [OF v] assms(5) by blast
  then obtain x where x: "tRange x = r" "CMACPool_AllocMAC big rnd key t0 p d =
      (case alloc_in big (rnd 2) u key oui 0 [x] t0 d of
         None \<Rightarrow> None
       | Some (nRet, s, d1) \<Rightarrow> if 0 = nRet then Some (0, s, d1) else Some (- 1, t0, d1))"
    by (rule single_pool_alloc [OF assms(1,2)])
  have "in_item ?s r" using IsValidMACRange_le [OF v(1)] by (simp add: in_item_def)
  then have t: "mac24 \<lparr>dwOUI = oui, dwData = ?s\<rparr>" using loaded_range_mac24 [OF v(2)] by blast
  have "SaveMAC2DB u (Uint32MAC2MAC \<lparr>dwOUI = oui, dwData = ?s\<rparr>) d = (- 1, d)"
    using SaveMAC2DB_live [OF assms(2) t] assms(4) o by simp
  from try_alloc_step [OF this, of big "rnd 2 0" key ?s ?s 0]
  have "try_alloc big (rnd 2 0) u key oui ?s ?s ?s 0 d = None" by simp
  then show ?thesis using x assms(3) by (simp add: CalcMACAddr_def)
qed

text \<open>With two addresses the draw and all the retries give the first one.\<close>

lemma try_alloc_first:
  assumes "SaveMAC2DB u (Uint32MAC2MAC \<lparr>dwOUI = oui, dwData = s\<rparr>) d = (- 1, d)"
  shows "try_alloc big rnd u key oui s (s + 1) s n d = Some (Inl (), d)"
proof (induction "15 - n" arbitrary: n rule: less_induct)
  case less
  have w: "(s + 1) - s = 1" "k mod (1 :: uint32) = 0" for k by simp_all
  have c: "CalcMACAddr big b key (s + 1) s = s" for b by (simp add: CalcMACAddr_def Let_def)
  note step = try_alloc_step [OF assms, of big rnd key s "s + 1" n]
  show ?case
  proof (cases "n + 1 > 15")
    case False
    then have "try_alloc big rnd u key oui s (s + 1) s (n + 1) d = Some (Inl (), d)" by (intro less) simp
    then show ?thesis using step False by (simp add: c)
  qed (simp add: step)
qed

text \<open>A shared range can hide a free address. When the only range of a netplane has two addresses, of
  which another netplane has the first one, \<open>AllocMAC\<close> returns -1, whatever the random bytes, key and
  host byte order are, although the second address is in the ranges of the netplane and free.\<close>

theorem AllocMAC_misses_free_address:
  assumes "single_pool u oui r p" and "mac_live u np d"
    and "dwData (tEndMAC r) = dwData (tStartMAC r) + 1"
    and "mac_num (tStartMAC r) \<in> mac_used d" and "mac_num (tStartMAC r) \<notin> mac_alloc d np"
    and "mac_num (tEndMAC r) \<in> mac_nums d np" and "mac_num (tEndMAC r) \<notin> mac_used d"
  shows "CMACPool_AllocMAC big rnd key t0 p d = Some (- 1, t0, d) \<and>
         mac_num (tEndMAC r) \<in> pool_addrs p \<inter> mac_nums d np - mac_used d"
proof -
  let ?s = "dwData (tStartMAC r)"
  have v: "IsValidMACRange r" "loaded_range oui r" using assms(1) by (simp_all add: single_pool_def)
  have le: "?s \<le> ?s + 1" using IsValidMACRange_le [OF v(1)] assms(3) by simp
  have o: "tStartMAC r = \<lparr>dwOUI = oui, dwData = ?s\<rparr>" "tEndMAC r = \<lparr>dwOUI = oui, dwData = ?s + 1\<rparr>"
    using v(2) assms(3) by (cases "tStartMAC r"; cases "tEndMAC r"; simp add: loaded_range_def)+
  have "\<not> item_nums r \<subseteq> mac_alloc d np" using item_nums_start [OF v] assms(5) by blast
  then obtain x where x: "tRange x = r" "CMACPool_AllocMAC big rnd key t0 p d =
      (case alloc_in big (rnd 2) u key oui 0 [x] t0 d of
         None \<Rightarrow> None
       | Some (nRet, s, d1) \<Rightarrow> if 0 = nRet then Some (0, s, d1) else Some (- 1, t0, d1))"
    by (rule single_pool_alloc [OF assms(1,2)])
  have in_s: "in_item ?s r" and in_e: "in_item (?s + 1) r" using le assms(3) by (simp_all add: in_item_def)
  have t: "mac24 \<lparr>dwOUI = oui, dwData = ?s\<rparr>" by (rule loaded_range_mac24 [OF v(2) in_s])
  have save: "SaveMAC2DB u (Uint32MAC2MAC \<lparr>dwOUI = oui, dwData = ?s\<rparr>) d = (- 1, d)"
    using SaveMAC2DB_live [OF assms(2) t] assms(4) o(1) by simp
  have c: "CalcMACAddr big b key (?s + 1) ?s = ?s" for b by (simp add: CalcMACAddr_def Let_def)
  obtain ret rows d1 where q: "MacPool_QueryByNpRange u (mac_num \<lparr>dwOUI = oui, dwData = ?s\<rparr>)
      (mac_num \<lparr>dwOUI = oui, dwData = ?s + 1\<rparr>) d = (ret, rows, d1)" by (metis prod_cases3)
  have e: "env d = []" "m_bInit d" "np_lookup u d = Some np" using assms(2) by (simp_all add: mac_live_def)
  have qr: "ret = 0" "d1 = d"
    using q e by (auto simp: MacPool_QueryByNpRange_def db_query_op_def Handle_run VNET_DB_SUCCESS_def
        pf_net_query_netplane_macpool_by_nprange_def)
  have "mac_num \<lparr>dwOUI = oui, dwData = ?s\<rparr> \<notin> set (map MacNum rows)"
    using MacPool_QueryByNpRange_effect(2) [OF q qr(1) e(3)] assms(5) o(1) by auto
  then have "scan_free oui (?s + 1) (map MacNum rows) ?s = Some (Some ?s)"
    using le by (subst scan_free.simps) simp
  then have scan: "ScanAllocMAC u oui ?s (?s + 1) d = Some (Some ?s, d)"
    using q qr e(2) by (simp add: ScanAllocMAC_def VNET_DB_SUCCESS_def)
  have "alloc_in big (rnd 2) u key oui 0 [x] t0 d = Some (- 1, t0, d)"
    using x(1) assms(3) try_alloc_first [OF save] scan save
    by (simp add: Let_def c SetMAC_uint32_def)
  moreover have "mac_num (tEndMAC r) \<in> pool_addrs p"
    using assms(1) in_e pool_addrs_second [of p "\<lparr>m_dwOUI = oui, m_vecMACRange = [r]\<rparr>" r "?s + 1"]
    unfolding o(2) by (simp add: single_pool_def)
  ultimately show ?thesis using x(2) assms(6,7) by simp
qed

section \<open>Two netplanes with one range\<close>

definition shared_mdb :: "int \<Rightarrow> mdb" where
  "shared_mdb e = example_mdb\<lparr>netplane := [\<lparr>np_id = 1, np_uuid = ''np''\<rparr>, \<lparr>np_id = 2, np_uuid = ''nq''\<rparr>],
     mac_range := [\<lparr>mr_id = 1, mr_netplane_id = 1, mr_begin = ''00:19:c6:00:00:01'',
                    mr_end = ''00:19:c6:00:00:04'', mr_begin_num = 28338194219009,
                    mr_end_num = 28338194219012\<rparr>,
                   \<lparr>mr_id = 2, mr_netplane_id = 2, mr_begin = ''00:19:c6:00:00:01'',
                    mr_end = ''00:19:c6:00:00:02'', mr_begin_num = 28338194219009, mr_end_num = e\<rparr>]\<rparr>"

definition shared_pool :: "uint32 \<Rightarrow> CMACPool" where
  "shared_pool e =
     \<lparr>m_strNetplaneUUID = ''nq'', m_pOUI1MACRange = Some \<lparr>m_dwOUI = c_dwZTEOUI1, m_vecMACRange = []\<rparr>,
      m_pOUI2MACRange = Some \<lparr>m_dwOUI = 0x0019c6, m_vecMACRange = [mac_item 1 e]\<rparr>\<rparr>"

lemma shared_live: "mac_live ''nq'' 2 (shared_mdb e)"
proof -
  have "mac_rows_ok example_mdb" using example_mac_live(1) by (simp add: mac_live_def)
  then show ?thesis
    by (simp add: mac_live_def shared_mdb_def mac_rows_ok_def example_mdb_def np_lookup_def)
qed

lemma shared_single: "e = 1 \<or> e = 2 \<Longrightarrow> single_pool ''nq'' 0x0019c6 (mac_item 1 e) (shared_pool e)"
proof -
  assume "e = 1 \<or> e = 2"
  moreover have "IsValidMACRange (mac_item 1 1)" "IsValidMACRange (mac_item 1 2)" by code_simp+
  ultimately show ?thesis by (auto simp: single_pool_def shared_pool_def loaded_range_def mac24_def)
qed

lemma shared_rows:
  "mac_used (shared_mdb e) = {28338194219009}" "mac_alloc (shared_mdb e) 2 = {}"
  "mac_nums (shared_mdb e) 2 = {28338194219009..e}"
  by (auto simp: mac_used_def mac_alloc_def mac_nums_def shared_mdb_def example_mdb_def)

theorem AllocMAC_divides_by_zero_witness:
  "CMACPool_AllocMAC True zero_uuid 5 [] (shared_pool 1) (shared_mdb 28338194219009) = None"
  by (rule AllocMAC_divides_by_zero [OF shared_single shared_live])
    (simp_all add: shared_rows mac_num_eq)

theorem AllocMAC_misses_free_address_witness:
  "CMACPool_AllocMAC True zero_uuid 5 [] (shared_pool 2) (shared_mdb 28338194219010) =
     Some (- 1, [], shared_mdb 28338194219010)"
  by (rule AllocMAC_misses_free_address [OF shared_single shared_live, THEN conjunct1])
    (simp_all add: shared_rows mac_num_eq)

end
