(* ===== verification/MacVnic.thy ===== *)
theory MacVnic
  imports MacShared
begin

text \<open>
  The operations of the MAC pool manager on the network cards of a virtual machine: what the cards and
  the tables are after \<open>AllocMACForVnic\<close> and \<open>FreeMACForVnic\<close>, and when an allocation returns.
\<close>

section \<open>An allocation that cannot divide by zero returns\<close>

definition not_single :: "TMACRangeItem \<Rightarrow> bool" where
  "not_single r \<longleftrightarrow> dwData (tStartMAC r) \<noteq> dwData (tEndMAC r)"

lemma try_alloc_returns:
  assumes "s \<le> e" and "s \<noteq> e"
  shows "try_alloc big rnd u key oui s e data n d \<noteq> None"
proof (induction "15 - n" arbitrary: data n d rule: less_induct)
  case less
  obtain r1 d1 where sv: "SaveMAC2DB u (Uint32MAC2MAC \<lparr>dwOUI = oui, dwData = data\<rparr>) d = (r1, d1)" by fastforce
  show ?case
  proof (cases "r1 = 0 \<or> n + 1 > 15")
    case True
    then show ?thesis using try_alloc_step [OF sv, of big rnd key s e n] by auto
  next
    case False
    then have ne: "r1 \<noteq> 0" "\<not> n + 1 > 15" by simp_all
    show ?thesis
    proof (cases rule: try_alloc_next [OF sv ne assms(1), of big rnd key, case_names again crash])
      case (again data')
      then show ?thesis using less [of "n + 1" data' d1] ne(2) by simp
    qed (use assms(2) in simp)
  qed
qed

lemma ScanAllocMAC_returns:
  assumes "e \<noteq> - 1" and "s \<le> e"
  shows "ScanAllocMAC u oui s e d \<noteq> None"
proof -
  obtain r rows d1 where q: "MacPool_QueryByNpRange u (mac_num \<lparr>dwOUI = oui, dwData = s\<rparr>)
      (mac_num \<lparr>dwOUI = oui, dwData = e\<rparr>) d = (r, rows, d1)" by (metis prod_cases3)
  have "s \<le> e + 1" using assms by (simp add: word_le_nat_alt unat_plus_one)
  from scan_free_result [OF assms(1) this, of oui "map MacNum rows"] show ?thesis
    using q by (auto simp: ScanAllocMAC_def)
qed

lemma alloc_in_returns:
  assumes "\<forall>x \<in> set xs. loaded_range oui (tRange x) \<and> IsValidMACRange (tRange x) \<and> not_single (tRange x)"
  shows "alloc_in big rnd u key oui n xs t0 d \<noteq> None"
  using assms
proof (induction xs arbitrary: n d)
  case (Cons x xs)
  let ?s = "dwData (tStartMAC (tRange x))" and ?e = "dwData (tEndMAC (tRange x))"
  have x: "?s \<le> ?e" "?s \<noteq> ?e" "?e \<noteq> - 1"
    using Cons.prems IsValidMACRange_le loaded_range_end by (auto simp: not_single_def)
  have xs: "alloc_in big rnd u key oui k xs t0 d' \<noteq> None" for k d' using Cons by simp
  obtain y d1 where t: "try_alloc big (rnd n) u key oui ?s ?e (CalcMACAddr big (rnd n 0) key ?e ?s) 0 d = Some (y, d1)"
    using try_alloc_returns [OF x(1,2)] by fastforce
  obtain z d2 where z: "ScanAllocMAC u oui ?s ?e d1 = Some (z, d2)"
    using ScanAllocMAC_returns [OF x(3,1)] by fastforce
  show ?case using t z xs by (auto simp: Let_def split: sum.splits option.splits prod.splits)
qed simp

lemma AllocMACAtRange_returns:
  assumes "\<forall>r \<in> set rs. loaded_range oui r \<and> not_single r"
  shows "AllocMACAtRange big rnd u rs oui key t0 d \<noteq> None"
proof -
  obtain out d1 where g: "GetAvailableRange u rs d = (out, d1)" by fastforce
  have "\<forall>x \<in> set out. loaded_range oui (tRange x) \<and> IsValidMACRange (tRange x) \<and> not_single (tRange x)"
    using GetAvailableRange_effect [OF g] assms by blast
  from alloc_in_returns [OF this] show ?thesis using g by (simp add: AllocMACAtRange_def)
qed

text \<open>C10. Termination of \<open>AllocMAC\<close>: when the containers hold ranges as the manager loads them, none of them of
  one address only, every call returns, whatever the database answers, and for every host byte order,
  key and random bytes.\<close>

theorem AllocMAC_returns:
  assumes "pool_loaded p"
    and "\<And>c r. m_pOUI1MACRange p = Some c \<or> m_pOUI2MACRange p = Some c \<Longrightarrow> r \<in> set (m_vecMACRange c) \<Longrightarrow>
           dwData (tStartMAC r) \<noteq> dwData (tEndMAC r)"
  shows "\<exists>ret t d'. CMACPool_AllocMAC big rnd key t0 p d = Some (ret, t, d')"
proof (cases "m_pOUI1MACRange p = None \<or> m_pOUI2MACRange p = None \<or> m_strNetplaneUUID p = []")
  case True
  then show ?thesis by (auto simp: CMACPool_AllocMAC_def Let_def split: option.splits)
next
  case False
  let ?u = "m_strNetplaneUUID p"
  obtain c1 c2 where c: "m_pOUI1MACRange p = Some c1" "m_pOUI2MACRange p = Some c2" "?u \<noteq> []"
    using False by auto
  have ok: "\<forall>r \<in> set (m_vecMACRange c). loaded_range (m_dwOUI c) r \<and> not_single r" if "c = c1 \<or> c = c2" for c
  proof (intro ballI conjI)
    fix r assume r: "r \<in> set (m_vecMACRange c)"
    have at: "m_pOUI1MACRange p = Some c \<or> m_pOUI2MACRange p = Some c" using that c by auto
    show "loaded_range (m_dwOUI c) r" using at assms(1) r by (auto simp: pool_loaded_def)
    show "not_single r" using assms(2) [OF at r] by (simp add: not_single_def)
  qed
  have a1: "AllocMACAtRange big (rnd 1) ?u (m_vecMACRange c1) (m_dwOUI c1) key t0 d \<noteq> None"
    and a2: "AllocMACAtRange big (rnd 2) ?u (m_vecMACRange c2) (m_dwOUI c2) key t0 x \<noteq> None" for x
    by (rule AllocMACAtRange_returns, rule ok, simp)+
  obtain x1 where x1: "AllocMACAtRange big (rnd 1) ?u (m_vecMACRange c1) (m_dwOUI c1) key t0 d = Some x1"
    using a1 by blast
  define f where "f x = the (AllocMACAtRange big (rnd 2) ?u (m_vecMACRange c2) (m_dwOUI c2) key t0 x)" for x
  have f: "AllocMACAtRange big (rnd 2) ?u (m_vecMACRange c2) (m_dwOUI c2) key t0 x = Some (f x)" for x
    using a2 [of x] by (auto simp: f_def)
  have "CMACPool_AllocMAC big rnd key t0 p d \<noteq> None"
    using c x1 f by (simp add: CMACPool_AllocMAC_def Let_def split: prod.split)
  then show ?thesis by auto
qed

theorem AllocMAC_returns_witness:
  "\<exists>ret t d'. CMACPool_AllocMAC True zero_uuid 9 [] example_mac_pool
     (example_mdb\<lparr>env := [Refused EXECUTE_FAILED, ReplyLost EXECUTE_FAILED]\<rparr>) = Some (ret, t, d')"
  by (rule AllocMAC_returns [OF example_pool_loaded]) (auto simp: example_mac_pool_def)

section \<open>Loading the ranges\<close>

lemma load_two_rows:
  "load_two rows c1 c2 = (0, c1', c2') \<Longrightarrow> m_dwOUI c1 = c_dwZTEOUI1 \<Longrightarrow> m_dwOUI c2 = c_dwZTEOUI2 \<Longrightarrow>
     c1' = c1\<lparr>m_vecMACRange := m_vecMACRange c1 @ map row_item (filter (of_oui c_dwZTEOUI1) rows)\<rparr> \<and>
     c2' = c2\<lparr>m_vecMACRange := m_vecMACRange c2 @ map row_item (filter (of_oui c_dwZTEOUI2) rows)\<rparr>"
proof (induction rows arbitrary: c1 c2)
  case (Cons r rows)
  have ne: "c_dwZTEOUI1 \<noteq> c_dwZTEOUI2" by (simp add: c_dwZTEOUI1_def c_dwZTEOUI2_def)
  let ?i = "row_item r"
  have i: "dwOUI (tStartMAC ?i) = dwOUI (num_mac (BeginNum r))" "dwOUI (tEndMAC ?i) = dwOUI (num_mac (EndNum r))"
    by (simp_all add: row_item_def)
  consider (one) "of_oui c_dwZTEOUI1 r" "load_two rows (c1\<lparr>m_vecMACRange := m_vecMACRange c1 @ [?i]\<rparr>) c2 = (0, c1', c2')"
    | (two) "of_oui c_dwZTEOUI2 r" "load_two rows c1 (c2\<lparr>m_vecMACRange := m_vecMACRange c2 @ [?i]\<rparr>) = (0, c1', c2')"
    | (other) "\<not> of_oui c_dwZTEOUI1 r" "\<not> of_oui c_dwZTEOUI2 r" "load_two rows c1 c2 = (0, c1', c2')"
    using Cons.prems ne
    by (auto simp: Let_def CMACRange_AddValidRange_def i of_oui_def nums_of_oui_def split: if_splits)
  then show ?case
  proof cases
    case one
    then have "\<not> of_oui c_dwZTEOUI2 r" using ne by (auto simp: of_oui_def nums_of_oui_def)
    then show ?thesis using Cons.IH [OF one(2)] Cons.prems(2,3) one(1) by simp
  next
    case two
    then have "\<not> of_oui c_dwZTEOUI1 r" using ne by (auto simp: of_oui_def nums_of_oui_def)
    then show ?thesis using Cons.IH [OF two(2)] Cons.prems(2,3) two(1) by simp
  next
    case other
    then show ?thesis using Cons.IH [OF other(3)] Cons.prems(2,3) by simp
  qed
qed simp

lemma GetMACRange_effect:
  assumes "GetMACRange u d = (r, c1, c2, d')"
  shows "same_tables d d'"
    and "r = 0 \<Longrightarrow> u \<noteq> [] \<and> c1 = \<lparr>m_dwOUI = c_dwZTEOUI1, m_vecMACRange = oui_ranges c_dwZTEOUI1 u d\<rparr> \<and>
           c2 = \<lparr>m_dwOUI = c_dwZTEOUI2, m_vecMACRange = oui_ranges c_dwZTEOUI2 u d\<rparr>"
proof -
  obtain q rows d1 where q: "MacRange_Query u d = (q, rows, d1)" by (metis prod_cases3)
  note e = MacRange_Query_effect [OF q]
  show "same_tables d d'" using assms q e(1) by (auto simp: GetMACRange_def split: if_splits prod.splits)
  show "u \<noteq> [] \<and> c1 = \<lparr>m_dwOUI = c_dwZTEOUI1, m_vecMACRange = oui_ranges c_dwZTEOUI1 u d\<rparr> \<and>
      c2 = \<lparr>m_dwOUI = c_dwZTEOUI2, m_vecMACRange = oui_ranges c_dwZTEOUI2 u d\<rparr>" if "r = 0"
  proof -
    have l: "load_two rows \<lparr>m_dwOUI = c_dwZTEOUI1, m_vecMACRange = []\<rparr>
        \<lparr>m_dwOUI = c_dwZTEOUI2, m_vecMACRange = []\<rparr> = (0, c1, c2)" "q = 0" "u \<noteq> []"
      using assms q that
      by (auto simp: GetMACRange_def CMACRange_Init_new vendor_oui_def VNET_DB_SUCCESS_def
          split: if_splits prod.splits)
    from load_two_rows [OF l(1)] show ?thesis
      using e(2) [OF l(2)] l(3) by (simp add: oui_ranges_def oui_rows_def)
  qed
qed

lemma oui_ranges_loaded: "\<forall>r \<in> set (oui_ranges oui u d). loaded_range oui r"
  by (auto simp: oui_ranges_def oui_rows_def loaded_range_def row_item_def of_oui_def nums_of_oui_def)

section \<open>One card\<close>

text \<open>The netplane of a card, as its port group names it.\<close>

definition card_netplane :: "mdb \<Rightarrow> CVNetVnicMem \<Rightarrow> string" where
  "card_netplane d c =
     (case pg_view (m_strVmPGID c) d of
        (ret, g) \<Rightarrow> if ret = 0 \<and> IsCfgNetplane g \<noteq> 0 then PgNetplaneUuid g else [])"

lemma pg_view_mac_kept:
  assumes "mac_kept d d'"
  shows "pg_view u d' = pg_view u d"
  unfolding pg_view_def pf_net_query_portgroup_def isolate_lookup_def mac_kept_sel(2-5,11) [OF assms]
  by (simp add: Let_def split: option.split)

lemma card_netplane_kept: "mac_kept d d' \<Longrightarrow> card_netplane d' c = card_netplane d c"
  by (simp add: card_netplane_def pg_view_mac_kept)

lemma alloc_mac_for_card_effect:
  assumes "alloc_mac_for_card big rnd c d = Some (x, d')"
  shows "mac_grows (card_netplane d c) d d' \<and>
         (\<forall>s. x = Inr s \<longrightarrow> (\<exists>n. s = mac_text_of n \<and> mac_num (num_mac n) = n \<and> alloc_done (card_netplane d c) n d d'))"
proof -
  obtain r1 u d1 where g: "GetPGNetplane (m_strVmPGID c) [] d = (r1, u, d1)" by (metis prod_cases3)
  obtain r2 c1 c2 d2 where m: "GetMACRange u d1 = (r2, c1, c2, d2)" by (metis prod_cases4)
  note ge = GetPGNetplane_effect [OF g]
  note me = GetMACRange_effect [OF m]
  have s2: "same_tables d d2" using ge(1) me(1) same_tables_trans by blast
  have still: "mac_grows v d d1" "mac_grows v d d2" for v
    using ge(1) s2 mac_grows_same by blast+
  show ?thesis
  proof (cases "r1 = PORTGROUP_OPER_SUCCESS \<and> r2 = 0")
    case False
    then have "x = Inl ()" "d' = d1 \<or> d' = d2"
      using assms g m by (auto simp: alloc_mac_for_card_def split: if_splits)
    then show ?thesis using still by auto
  next
    case True
    have u: "u = card_netplane d c" "u \<noteq> []"
      using ge(2) me(2) True by (auto simp: card_netplane_def)
    let ?p = "CMACPool_new\<lparr>m_strNetplaneUUID := u, m_pOUI1MACRange := Some c1, m_pOUI2MACRange := Some c2\<rparr>"
    have addrs: "mac_num (num_mac n) = n" if "pool_loaded p" "n \<in> pool_addrs p" for p n
      using that loaded_range_mac24 by (fastforce simp: pool_addrs_def pool_loaded_def num_mac_mac_num)
    have load: "pool_loaded ?p"
      using me(2) True oui_ranges_loaded by (auto simp: pool_loaded_def CMACPool_new_def)
    obtain r3 s d3 where a: "CMACPool_AllocMAC big rnd (m_nNicIndex c) [] ?p d2 = Some (r3, s, d3)"
      and x: "x = (if r3 = 0 then Inr s else Inl ())" "d' = d3"
      using assms g m True u(2)
      by (auto simp: alloc_mac_for_card_def CMACPool_Init_def split: option.splits if_splits)
    note e = AllocMAC_effect [OF load a]
    have grow: "mac_grows u d d3" using e still(2) mac_grows_trans by simp blast
    have "\<exists>n. s = mac_text_of n \<and> mac_num (num_mac n) = n \<and> alloc_done u n d d3" if "r3 = 0"
    proof -
      have "\<exists>n. n \<in> pool_addrs ?p \<and> s = mac_text_of n \<and> alloc_done u n d2 d3"
        using e that by (auto simp: CMACPool_new_def)
      then obtain n where n: "n \<in> pool_addrs ?p" "s = mac_text_of n" "alloc_done u n d2 d3" by blast
      have "mac_num (num_mac n) = n"
        using addrs load n(1) by blast
      then show ?thesis using n alloc_done_trans [OF still(2)] by blast
    qed
    then show ?thesis using grow x u(1) by auto
  qed
qed

section \<open>All the cards\<close>

text \<open>Address \<open>n\<close> is in the pool of \<open>d'\<close> in a row that is new since \<open>d\<close>, for netplane \<open>u\<close>.\<close>

definition new_address :: "string \<Rightarrow> int \<Rightarrow> mdb \<Rightarrow> mdb \<Rightarrow> bool" where
  "new_address u n d d' \<longleftrightarrow>
     mac_num (num_mac n) = n \<and> (\<exists>r \<in> set (mac_pool d'). mp_num r = n \<and> fresh_row u d r)"

lemma new_address_later: "new_address u n a b \<Longrightarrow> mac_extends b c \<Longrightarrow> new_address u n a c"
  by (auto simp: new_address_def mac_extends_def)

lemma new_address_earlier:
  assumes "mac_extends a b" and "new_address u n b c"
  shows "new_address u n a c"
proof -
  have k: "mac_kept a b" using assms(1) by (simp add: mac_extends_def)
  have "mac_used a \<subseteq> mac_used b" "serial_mac_pool a \<le> serial_mac_pool b"
    using assms(1) k by (auto simp: mac_extends_def mac_used_def mac_kept_def)
  then have "fresh_row u a r" if "fresh_row u b r" for r
    using that mac_kept_sel(8,9) [OF k] by (auto simp: fresh_row_def)
  then show ?thesis using assms(2) unfolding new_address_def by blast
qed

lemma new_address_used:
  assumes "new_address u n d d'"
  shows "n \<in> mac_used d'" and "n \<notin> mac_used d"
  using assms by (auto simp: new_address_def mac_used_def fresh_row_def)

text \<open>A card as an allocation leaves it: as it was, or with a new address of its netplane.\<close>

definition card_after :: "mdb \<Rightarrow> mdb \<Rightarrow> CVNetVnicMem \<Rightarrow> CVNetVnicMem \<Rightarrow> bool" where
  "card_after d d' c c' \<longleftrightarrow>
     c' = c \<or>
     m_strMac c = [] \<and> (\<exists>n. c' = c\<lparr>m_strMac := mac_text_of n\<rparr> \<and> new_address (card_netplane d c) n d d')"

lemma card_after_later: "card_after a b c c' \<Longrightarrow> mac_extends b e \<Longrightarrow> card_after a e c c'"
  using new_address_later by (auto simp: card_after_def)

lemma card_after_earlier:
  assumes "mac_extends a b" and "card_after b e c c'"
  shows "card_after a e c c'"
proof -
  have "card_netplane b c = card_netplane a c" using assms(1) card_netplane_kept by (simp add: mac_extends_def)
  then show ?thesis using assms new_address_earlier unfolding card_after_def by metis
qed

text \<open>The addresses that the cards got.\<close>

fun assigned :: "CVNetVnicMem list \<Rightarrow> CVNetVnicMem list \<Rightarrow> string list" where
  "assigned (c # cs) (c' # cs') = (if m_strMac c = m_strMac c' then [] else [m_strMac c']) @ assigned cs cs'"
| "assigned _ _ = []"

lemma assigned_self [simp]: "assigned cs cs = []"
  by (induction cs) auto

lemma assigned_new:
  assumes "list_all2 (card_after d d') cs cs'" and "t \<in> set (assigned cs cs')"
  shows "\<exists>u n. t = mac_text_of n \<and> new_address u n d d'"
  using assms by (induction rule: list_all2_induct) (auto simp: card_after_def split: if_splits, blast+)

text \<open>An allocation went through the cards up to \<open>k\<close>, where it may have stopped.\<close>

definition cards_done :: "rc \<Rightarrow> mdb \<Rightarrow> mdb \<Rightarrow> CVNetVnicMem list \<Rightarrow> CVNetVnicMem list \<Rightarrow> bool" where
  "cards_done ret d d' cs cs' \<longleftrightarrow>
     mac_extends d d' \<and> list_all2 (card_after d d') cs cs' \<and> distinct (assigned cs cs') \<and>
     (\<exists>k \<le> length cs. (\<forall>c \<in> set (take k cs'). m_strMac c \<noteq> []) \<and> drop k cs' = drop k cs \<and>
        (if ret = 0 then k = length cs else ret = - 1 \<and> k < length cs \<and> m_strMac (cs ! k) = []))"

lemma cards_done_skip:
  assumes "m_strMac c \<noteq> []" and "cards_done ret d d' cs cs'"
  shows "cards_done ret d d' (c # cs) (c # cs')"
proof -
  obtain k where k: "k \<le> length cs" "\<forall>c \<in> set (take k cs'). m_strMac c \<noteq> []" "drop k cs' = drop k cs"
    "if ret = 0 then k = length cs else ret = - 1 \<and> k < length cs \<and> m_strMac (cs ! k) = []"
    using assms(2) by (auto simp: cards_done_def)
  have "\<exists>k \<le> length (c # cs). (\<forall>x \<in> set (take k (c # cs')). m_strMac x \<noteq> []) \<and>
      drop k (c # cs') = drop k (c # cs) \<and>
      (if ret = 0 then k = length (c # cs) else ret = - 1 \<and> k < length (c # cs) \<and> m_strMac ((c # cs) ! k) = [])"
    using assms(1) k by (intro exI [of _ "Suc k"]) simp
  then show ?thesis using assms(2) by (simp add: cards_done_def card_after_def)
qed

lemma mac_text_of_nonempty [simp]: "mac_text_of n \<noteq> []" "[] \<noteq> mac_text_of n"
  by (metis GetStringMAC_length list.size(3) mac_text_of_def zero_neq_numeral)+

lemma cards_done_cons:
  assumes "m_strMac c = []" and "mac_extends d d1" and "new_address (card_netplane d c) n d d1"
    and "cards_done ret d1 d' cs cs'"
  shows "cards_done ret d d' (c # cs) (c\<lparr>m_strMac := mac_text_of n\<rparr> # cs')"
proof -
  let ?c = "c\<lparr>m_strMac := mac_text_of n\<rparr>"
  obtain k where k: "k \<le> length cs" "\<forall>c \<in> set (take k cs'). m_strMac c \<noteq> []" "drop k cs' = drop k cs"
    "if ret = 0 then k = length cs else ret = - 1 \<and> k < length cs \<and> m_strMac (cs ! k) = []"
    using assms(4) by (auto simp: cards_done_def)
  have e: "mac_extends d1 d'" "list_all2 (card_after d1 d') cs cs'" "distinct (assigned cs cs')"
    using assms(4) by (simp_all add: cards_done_def)
  have all: "list_all2 (card_after d d') cs cs'"
    using e(2) card_after_earlier [OF assms(2)] by (rule list_all2_mono)
  have "card_after d d' c ?c"
    using assms(1) new_address_later [OF assms(3) e(1)] by (auto simp: card_after_def)
  moreover have "mac_text_of n \<notin> set (assigned cs cs')"
  proof
    assume "mac_text_of n \<in> set (assigned cs cs')"
    then obtain u m where m: "mac_text_of n = mac_text_of m" "new_address u m d1 d'"
      using assigned_new [OF e(2)] by blast
    have "n = m" using m mac_text_inject assms(3) by (simp add: new_address_def)
    then show False using new_address_used(1) [OF assms(3)] new_address_used(2) [OF m(2)] by simp
  qed
  moreover have "\<exists>k \<le> length (c # cs). (\<forall>x \<in> set (take k (?c # cs')). m_strMac x \<noteq> []) \<and>
      drop k (?c # cs') = drop k (c # cs) \<and>
      (if ret = 0 then k = length (c # cs) else ret = - 1 \<and> k < length (c # cs) \<and> m_strMac ((c # cs) ! k) = [])"
    using k by (intro exI [of _ "Suc k"]) simp
  ultimately show ?thesis
    using mac_extends_trans [OF assms(2) e(1)] all e(3) assms(1) by (simp add: cards_done_def)
qed

lemma cards_done_stop:
  "m_strMac c = [] \<Longrightarrow> mac_extends d d' \<Longrightarrow> cards_done (- 1) d d' (c # cs) (c # cs)"
  by (auto simp: cards_done_def card_after_def list_all2_same)

lemma alloc_mac_cards_effect:
  "alloc_mac_cards big rnd dn cs d = Some (ret, vm', d') \<Longrightarrow>
     \<exists>cs'. vm' = dn @ cs' \<and> cards_done ret d d' cs cs'"
proof (induction cs arbitrary: dn d)
  case Nil
  then show ?case by (auto simp: cards_done_def mac_extends_kept)
next
  case (Cons c cs)
  show ?case
  proof (cases "m_strMac c = []")
    case False
    then show ?thesis using Cons cards_done_skip [OF False] by fastforce
  next
    case True
    then obtain x d1 where a: "alloc_mac_for_card big (rnd (length dn)) c d = Some (x, d1)"
      using Cons.prems by (auto split: option.splits)
    note e = alloc_mac_for_card_effect [OF a]
    have g: "mac_extends d d1" using e by (simp add: mac_grows_extends)
    show ?thesis
    proof (cases x)
      case (Inl y)
      then show ?thesis using Cons.prems True a cards_done_stop [OF True g] by (auto simp: Let_def)
    next
      case (Inr s)
      then obtain n where n: "s = mac_text_of n" "new_address (card_netplane d c) n d d1"
        using e by (auto simp: alloc_done_def new_address_def)
      have "alloc_mac_cards big rnd (dn @ [c\<lparr>m_strMac := s\<rparr>]) cs d1 = Some (ret, vm', d')"
        using Cons.prems True a Inr by simp
      from Cons.IH [OF this] show ?thesis using cards_done_cons [OF True g n(2)] n(1) by auto
    qed
  qed
qed

text \<open>C6. \<open>AllocMACForVnic\<close>, whatever the database answers: a call that returns only adds rows to the pool, and
  changes no other table; a card that has an address keeps it, and every other card keeps all but its
  address; an address handed out belongs to a new row of the netplane of its card and was free before; no two
  cards get the same one. With result 0 every card has an address; otherwise the result is -1 and the
  call stopped at a card without one, where all the cards before it have theirs and the cards from it on are
  as they were.\<close>

theorem AllocMACForVnic_result:
  assumes "AllocMACForVnic big rnd vm d = Some (ret, vm', d')"
  shows "cards_done ret d d' vm vm'"
  using alloc_mac_cards_effect [of big rnd "[]" vm d] assms by (auto simp: AllocMACForVnic_def)

abbreviation vnic :: "string \<Rightarrow> uint32 \<Rightarrow> string \<Rightarrow> CVNetVnicMem" where
  "vnic pg i m \<equiv> \<lparr>m_strVmPGID = pg, m_nNicIndex = i, m_strMac = m\<rparr>"

theorem AllocMACForVnic_result_witness:
  "\<exists>vm' d'. AllocMACForVnic False (\<lambda>_. zero_uuid) [vnic ''a'' 0 [], vnic ''a'' 1 []] example_mdb = Some (0, vm', d') \<and>
     distinct (assigned [vnic ''a'' 0 [], vnic ''a'' 1 []] vm') \<and> length (mac_pool d') = 3"
proof -
  let ?vm = "[vnic ''a'' 0 [], vnic ''a'' 1 []]"
  have "(case AllocMACForVnic False (\<lambda>_. zero_uuid) ?vm example_mdb of
      None \<Rightarrow> False | Some (r, vm', d') \<Rightarrow> r = 0 \<and> length (mac_pool d') = 3)" by code_simp
  then obtain vm' d' where a: "AllocMACForVnic False (\<lambda>_. zero_uuid) ?vm example_mdb = Some (0, vm', d')"
    "length (mac_pool d') = 3" by (auto split: option.splits)
  then show ?thesis using AllocMACForVnic_result [OF a(1)] by (auto simp: cards_done_def)
qed

section \<open>Releasing the addresses of the cards\<close>

text \<open>The row of the pool that a card names.\<close>

definition names_card :: "mdb \<Rightarrow> CVNetVnicMem \<Rightarrow> mac_pool_row \<Rightarrow> bool" where
  "names_card d c r \<longleftrightarrow> m_strMac c \<noteq> [] \<and> names_row (free_row (card_netplane d c) (m_strMac c)) d r"

lemma names_card_kept: "mac_kept d d' \<Longrightarrow> names_card d' c = names_card d c"
  by (simp add: fun_eq_iff names_card_def card_netplane_kept names_row_kept)

text \<open>Only rows that a card names are gone, and no interface used them.\<close>

definition cards_freed :: "CVNetVnicMem list \<Rightarrow> mdb \<Rightarrow> mdb \<Rightarrow> bool" where
  "cards_freed cs d d' \<longleftrightarrow>
     mac_kept d d' \<and>
     (\<exists>P. mac_pool d' = filter P (mac_pool d) \<and>
          (\<forall>r \<in> set (mac_pool d). \<not> P r \<longrightarrow> (\<exists>c \<in> set cs. names_card d c r) \<and> mp_id r \<notin> set (vsi_mac_id d)))"

lemma cards_freed_same: "same_tables d d' \<Longrightarrow> cards_freed cs d d'"
  using same_tables_mac [of d d'] by (auto simp: cards_freed_def intro!: exI [of _ "\<lambda>_. True"])

lemma cards_freed_trans:
  assumes "cards_freed [c] a b" and "cards_freed cs b e"
  shows "cards_freed (c # cs) a e"
proof -
  obtain P where p: "mac_pool b = filter P (mac_pool a)" "mac_kept a b"
    "\<forall>r \<in> set (mac_pool a). \<not> P r \<longrightarrow> names_card a c r \<and> mp_id r \<notin> set (vsi_mac_id a)"
    using assms(1) by (auto simp: cards_freed_def)
  obtain Q where q: "mac_pool e = filter Q (mac_pool b)" "mac_kept b e"
    "\<forall>r \<in> set (mac_pool b). \<not> Q r \<longrightarrow> (\<exists>c \<in> set cs. names_card b c r) \<and> mp_id r \<notin> set (vsi_mac_id b)"
    using assms(2) by (auto simp: cards_freed_def)
  have "mac_pool e = filter (\<lambda>r. P r \<and> Q r) (mac_pool a)" using p(1) q(1) by (simp add: conj_commute)
  moreover have "\<forall>r \<in> set (mac_pool a). \<not> (P r \<and> Q r) \<longrightarrow>
      (\<exists>c \<in> set (c # cs). names_card a c r) \<and> mp_id r \<notin> set (vsi_mac_id a)"
    using p(1,3) q(3) names_card_kept [OF p(2)] mac_kept_sel(7) [OF p(2)] by auto
  ultimately show ?thesis using mac_kept_trans [OF p(2) q(2)] unfolding cards_freed_def by blast
qed

lemma cards_freed_mono: "cards_freed cs d d' \<Longrightarrow> set cs \<subseteq> set cs' \<Longrightarrow> cards_freed cs' d d'"
  unfolding cards_freed_def by blast

lemma cards_freed_rows: "cards_freed cs d d' \<Longrightarrow> set (mac_pool d') \<subseteq> set (mac_pool d)"
  by (auto simp: cards_freed_def)

lemma free_mac_for_card_effect:
  assumes "free_mac_for_card c d = (ret, d')" and "m_strMac c \<noteq> []"
  shows "ret \<in> {0, - 1} \<and> cards_freed [c] d d' \<and> (ret = 0 \<longrightarrow> (\<forall>r \<in> set (mac_pool d'). \<not> names_card d c r))"
proof -
  obtain r1 u d1 where g: "GetPGNetplane (m_strVmPGID c) [] d = (r1, u, d1)" by (metis prod_cases3)
  note ge = GetPGNetplane_effect [OF g]
  let ?p = "CMACPool_new\<lparr>m_strNetplaneUUID := u\<rparr>"
  show ?thesis
  proof (cases "r1 = PORTGROUP_OPER_SUCCESS \<and> u \<noteq> []")
    case False
    then have "ret = - 1" "d' = d1" using assms(1) g
      by (auto simp: free_mac_for_card_def CMACPool_Init_free_def split: if_splits)
    then show ?thesis using cards_freed_same [OF ge(1)] by simp
  next
    case True
    have u: "u = card_netplane d c" using ge(2) True by (auto simp: card_netplane_def)
    obtain r2 d2 where f: "CMACPool_FreeMAC (m_strMac c) ?p d1 = (r2, d2)" by fastforce
    have x: "ret = (if r2 = 0 then 0 else - 1)" "d' = d2"
      using assms(1) g True f by (auto simp: free_mac_for_card_def CMACPool_Init_free_def split: if_splits)
    note e = FreeMAC_effect [OF f, simplified, folded u]
    have n: "names_row (free_row u (m_strMac c)) d = names_card d c"
      using assms(2) u by (simp add: fun_eq_iff names_card_def)
    have "same_tables d d2 \<or> mac_removed (free_row u (m_strMac c)) d d2"
      using e(2) ge(1) u same_tables_trans mac_removed_same by blast
    then have freed: "cards_freed [c] d d2"
    proof
      assume "mac_removed (free_row u (m_strMac c)) d d2"
      then show ?thesis using n by (auto simp: cards_freed_def mac_removed_def)
    qed (rule cards_freed_same)
    moreover have "\<forall>r \<in> set (mac_pool d2). \<not> names_card d c r" if "r2 = 0"
    proof -
      have "mac_kept d d2" using freed by (simp add: cards_freed_def)
      from names_row_kept [OF this] show ?thesis using e(3) that n u by simp
    qed
    ultimately show ?thesis using x by simp
  qed
qed

definition cleared :: "CVNetVnicMem \<Rightarrow> CVNetVnicMem" where
  "cleared c = c\<lparr>m_strMac := []\<rparr>"

lemma free_mac_cards_effect:
  "free_mac_cards cs d = (ret, cs', d') \<Longrightarrow>
     ret \<in> {0, - 1} \<and> cards_freed cs d d' \<and>
     (ret = 0 \<longrightarrow> cs' = map cleared cs \<and> (\<forall>c \<in> set cs. \<forall>r \<in> set (mac_pool d'). \<not> names_card d c r))"
proof (induction cs arbitrary: d ret cs' d')
  case Nil
  then show ?case using cards_freed_same [of d d "[]"] by simp
next
  case (Cons c cs)
  show ?case
  proof (cases "m_strMac c = []")
    case True
    obtain r cs1 d1 where f: "free_mac_cards cs d = (r, cs1, d1)" by (metis prod_cases3)
    then have "cleared c = c" "cards_freed cs d d1" using True Cons.IH by (auto simp: cleared_def)
    then show ?thesis
      using Cons True f cards_freed_mono [of cs d d1 "c # cs"] by (auto simp: names_card_def)
  next
    case False
    obtain r d1 where f: "free_mac_for_card c d = (r, d1)" by fastforce
    obtain r2 cs2 d2 where g: "free_mac_cards cs d1 = (r2, cs2, d2)" by (metis prod_cases3)
    note e = free_mac_for_card_effect [OF f False] and h = Cons.IH [OF g]
    show ?thesis
    proof (cases "r = 0")
      case True
      have x: "ret = r2" "cs' = cleared c # cs2" "d' = d2"
        using Cons.prems False f g True by (simp_all add: cleared_def)
      have k: "mac_kept d d1" using e by (simp add: cards_freed_def)
      have "cards_freed (c # cs) d d2" using e h cards_freed_trans by blast
      moreover have "set (mac_pool d2) \<subseteq> set (mac_pool d1)" using h cards_freed_rows by blast
      ultimately show ?thesis using e h x True names_card_kept [OF k] by auto
    next
      case False
      then show ?thesis
        using Cons.prems \<open>m_strMac c \<noteq> []\<close> f e cards_freed_mono [of "[c]" d d1 "c # cs"] by auto
    qed
  qed
qed

text \<open>C7. \<open>FreeMACForVnic\<close>, whatever the database answers: only rows that a card names in its own netplane leave
  the pool, none of them used by an interface, and no other table changes. With result 0 no such row is left and
  the cards are the old ones without their addresses; otherwise the result is -1 and the cards are as they were,
  although rows of some of them may be gone.\<close>

theorem FreeMACForVnic_result:
  assumes "FreeMACForVnic vm d = (ret, vm', d')"
  shows "cards_freed vm d d' \<and>
         (if ret = 0 then vm' = map cleared vm \<and> (\<forall>c \<in> set vm. \<forall>r \<in> set (mac_pool d'). \<not> names_card d c r)
          else ret = - 1 \<and> vm' = vm)"
proof -
  obtain r cs' d1 where f: "free_mac_cards vm d = (r, cs', d1)" by (metis prod_cases3)
  from free_mac_cards_effect [OF this] show ?thesis
    using assms f by (auto simp: FreeMACForVnic_def split: if_splits)
qed

theorem FreeMACForVnic_result_witness:
  "\<exists>vm' d'. FreeMACForVnic [vnic ''a'' 0 ''00:19:c6:00:00:01'', vnic ''b'' 1 ''x''] example_mdb = (- 1, vm', d') \<and>
     vm' = [vnic ''a'' 0 ''00:19:c6:00:00:01'', vnic ''b'' 1 ''x''] \<and> mac_pool d' = []"
proof -
  let ?vm = "[vnic ''a'' 0 ''00:19:c6:00:00:01'', vnic ''b'' 1 ''x'']"
  have "(case FreeMACForVnic ?vm example_mdb of (r, vm', d') \<Rightarrow> r = - 1 \<and> mac_pool d' = [])" by code_simp
  then obtain vm' d' where a: "FreeMACForVnic ?vm example_mdb = (- 1, vm', d')" "mac_pool d' = []"
    by (auto split: prod.splits)
  then show ?thesis using FreeMACForVnic_result [OF a(1)] by auto
qed

text \<open>A card whose address can be released: its port group has a netplane, its address parses, and no
  interface uses the row it names.\<close>

definition can_free :: "mdb \<Rightarrow> CVNetVnicMem \<Rightarrow> bool" where
  "can_free d c \<longleftrightarrow>
     m_strMac c = [] \<or>
     fst (pg_view (m_strVmPGID c) d) = 0 \<and> card_netplane d c \<noteq> [] \<and> np_lookup (card_netplane d c) d \<noteq> None \<and>
     fst (SetMAC (m_strMac c) CMACAddr_new) = 0 \<and>
     (\<forall>r \<in> set (mac_pool d). names_card d c r \<longrightarrow> mp_id r \<notin> set (vsi_mac_id d))"

lemma can_free_kept:
  assumes "mac_kept d d'" and "set (mac_pool d') \<subseteq> set (mac_pool d)" and "can_free d c"
  shows "can_free d' c"
  using assms names_card_kept [OF assms(1)] pg_view_mac_kept [OF assms(1)] card_netplane_kept [OF assms(1)]
    mac_kept_sel(7,8) [OF assms(1)]
  by (auto simp: can_free_def)

lemma free_mac_for_card_live:
  assumes "env d = []" and "m_bInit d" and "can_free d c" and "m_strMac c \<noteq> []"
  shows "free_mac_for_card c d = (0, d\<lparr>mac_pool := filter (\<lambda>r. \<not> names_card d c r) (mac_pool d)\<rparr>)"
proof -
  let ?u = "card_netplane d c"
  have c: "fst (pg_view (m_strVmPGID c) d) = 0" "?u \<noteq> []" "\<exists>np. np_lookup ?u d = Some np"
    "fst (SetMAC (m_strMac c) CMACAddr_new) = 0"
    "\<forall>r \<in> set (mac_pool d). names_card d c r \<longrightarrow> mp_id r \<notin> set (vsi_mac_id d)"
    using assms(3,4) by (auto simp: can_free_def)
  have g: "GetPGNetplane (m_strVmPGID c) [] d = (0, ?u, d)"
    using assms(1) c(1) by (cases "pg_view (m_strVmPGID c) d")
      (simp add: GetPGNetplane_def PortGroup_Query_live card_netplane_def)
  obtain np where np: "np_lookup ?u d = Some np" using c(3) by blast
  obtain mm where st: "SetMAC (m_strMac c) CMACAddr_new = (0, mm)" using c(4) by (metis prod.collapse)
  let ?p = "CMACPool_new\<lparr>m_strNetplaneUUID := ?u\<rparr>"
  have n: "names_row (free_row ?u (m_strMac c)) d = names_card d c"
    using assms(4) by (simp add: fun_eq_iff names_card_def)
  have "CMACPool_FreeMAC (m_strMac c) ?p d = (0, d\<lparr>mac_pool := filter (\<lambda>r. \<not> names_card d c r) (mac_pool d)\<rparr>)"
    using FreeMAC_live [OF assms(1,2) _ st, of ?p np] c(2,5) np n by simp
  then show ?thesis
    using g c(2) by (simp add: free_mac_for_card_def CMACPool_Init_free_def PORTGROUP_OPER_SUCCESS_def)
qed

lemma free_mac_cards_live:
  "env d = [] \<Longrightarrow> m_bInit d \<Longrightarrow> \<forall>c \<in> set cs. can_free d c \<Longrightarrow>
     free_mac_cards cs d =
       (0, map cleared cs, d\<lparr>mac_pool := filter (\<lambda>r. \<forall>c \<in> set cs. \<not> names_card d c r) (mac_pool d)\<rparr>)"
proof (induction cs arbitrary: d)
  case (Cons c cs)
  let ?d = "d\<lparr>mac_pool := filter (\<lambda>r. \<not> names_card d c r) (mac_pool d)\<rparr>"
  have k: "mac_kept d ?d" by (simp add: mac_kept_def)
  have "\<forall>x \<in> set cs. can_free ?d x" using Cons.prems(3) by (auto intro: can_free_kept [OF k])
  then have ih: "free_mac_cards cs ?d = (0, map cleared cs,
      ?d\<lparr>mac_pool := filter (\<lambda>r. \<forall>x \<in> set cs. \<not> names_card d x r) (mac_pool ?d)\<rparr>)"
    using Cons.IH [of ?d] Cons.prems(1,2) names_card_kept [OF k] by simp
  show ?case
  proof (cases "m_strMac c = []")
    case True
    then have "cleared c = c" "\<not> names_card d c r" for r by (simp_all add: cleared_def names_card_def)
    then show ?thesis using True ih by simp
  next
    case False
    then show ?thesis
      using ih free_mac_for_card_live [OF Cons.prems(1,2) _ False] Cons.prems(3)
      by (simp add: cleared_def conj_commute)
  qed
qed simp

text \<open>C8. A release may be repeated. When the port groups, the netplanes and the texts of the cards are good and no
  interface uses their rows, a second call after any first one, failed or not and whatever the database
  answered then, succeeds if the database answers: the cards lose their addresses, and exactly the rows
  they name are gone from the pool as it was before the first call.\<close>

theorem FreeMACForVnic_again:
  assumes "FreeMACForVnic vm d = (ret, vm', d1)" and "m_bInit d" and "\<forall>c \<in> set vm. can_free d c"
  shows "\<exists>d2. FreeMACForVnic vm (d1\<lparr>env := []\<rparr>) = (0, map cleared vm, d2) \<and>
              mac_pool d2 = filter (\<lambda>r. \<forall>c \<in> set vm. \<not> names_card d c r) (mac_pool d)"
proof -
  let ?d = "d1\<lparr>env := []\<rparr>"
  obtain r cs' where f: "free_mac_cards vm d = (r, cs', d1)"
    using assms(1) by (auto simp: FreeMACForVnic_def split: prod.splits if_splits)
  then have e: "cards_freed vm d d1" using free_mac_cards_effect by blast
  then obtain P where p: "mac_pool d1 = filter P (mac_pool d)" "mac_kept d d1"
    "\<forall>r \<in> set (mac_pool d). \<not> P r \<longrightarrow> (\<exists>c \<in> set vm. names_card d c r)"
    by (auto simp: cards_freed_def)
  have k: "mac_kept d ?d" using p(2) by (simp add: mac_kept_def)
  have "can_free ?d c" if "can_free d c" for c
    using can_free_kept [OF k _ that] cards_freed_rows [OF e] by simp
  then have "\<forall>c \<in> set vm. can_free ?d c" using assms(3) by simp
  then have l: "free_mac_cards vm ?d = (0, map cleared vm,
      ?d\<lparr>mac_pool := filter (\<lambda>r. \<forall>c \<in> set vm. \<not> names_card d c r) (mac_pool ?d)\<rparr>)"
    using free_mac_cards_live [of ?d vm] assms(2) mac_kept_sel(1) [OF k] names_card_kept [OF k] by simp
  have "filter (\<lambda>r. \<forall>c \<in> set vm. \<not> names_card d c r) (mac_pool d1) =
      filter (\<lambda>r. \<forall>c \<in> set vm. \<not> names_card d c r) (mac_pool d)"
    unfolding p(1) filter_filter using p(3) by (intro filter_cong) auto
  then show ?thesis using l by (simp add: FreeMACForVnic_def)
qed

theorem FreeMACForVnic_again_witness:
  "\<exists>d1 d2. FreeMACForVnic [vnic ''a'' 0 ''00:19:c6:00:00:01''] (example_mdb\<lparr>env := [Run, Run, ReplyLost EXECUTE_FAILED]\<rparr>) =
       (- 1, [vnic ''a'' 0 ''00:19:c6:00:00:01''], d1) \<and>
     FreeMACForVnic [vnic ''a'' 0 ''00:19:c6:00:00:01''] (d1\<lparr>env := []\<rparr>) = (0, [vnic ''a'' 0 []], d2) \<and>
     mac_pool d2 = []"
proof -
  let ?c = "vnic ''a'' 0 ''00:19:c6:00:00:01''" and ?d = "example_mdb\<lparr>env := [Run, Run, ReplyLost EXECUTE_FAILED]\<rparr>"
  have "(case FreeMACForVnic [?c] ?d of (r, vm', d') \<Rightarrow> r = - 1 \<and> vm' = [?c])" by code_simp
  then obtain d1 where a: "FreeMACForVnic [?c] ?d = (- 1, [?c], d1)" by (auto split: prod.splits)
  have "fst (pg_view ''a'' ?d) = 0 \<and> card_netplane ?d ?c = ''np'' \<and> np_lookup ''np'' ?d = Some 1 \<and>
      fst (SetMAC ''00:19:c6:00:00:01'' CMACAddr_new) = 0 \<and> vsi_mac_id ?d = []" by code_simp
  then have "\<forall>c \<in> set [?c]. can_free ?d c" and np: "card_netplane ?d ?c = ''np''" by (simp_all add: can_free_def)
  moreover have "m_bInit ?d" by (simp add: example_mdb_def)
  ultimately obtain d2 where d2: "FreeMACForVnic [?c] (d1\<lparr>env := []\<rparr>) = (0, [vnic ''a'' 0 []], d2)"
    "mac_pool d2 = filter (\<lambda>r. \<forall>c \<in> set [?c]. \<not> names_card ?d c r) (mac_pool ?d)"
    using FreeMACForVnic_again [OF a] by (auto simp: cleared_def)
  have "list_all (\<lambda>r. names_row (free_row ''np'' ''00:19:c6:00:00:01'') ?d r) (mac_pool ?d)"
    by (simp add: example_mdb_def names_row_def free_row_def np_lookup_def) code_simp
  then show ?thesis using a d2 np by (auto simp: list_all_iff filter_empty_conv names_card_def)
qed

end
