(* ===== verification/MacSystem.thy ===== *)
theory MacSystem
  imports MacVnic "HOL-Library.Multiset"
begin

text \<open>
  The MAC component as a whole: range messages, allocations and releases for the network cards of many
  virtual machines, in any order and with any database faults, as a step relation. The invariant ties
  the addresses that the cards hold to the rows of the pool.
\<close>

section \<open>A range message leaves the pool alone\<close>

definition ranges_only :: "mdb \<Rightarrow> mdb \<Rightarrow> bool" where
  "ranges_only d d' \<longleftrightarrow>
     d\<lparr>mac_range := [], serial_mac_range := 0, env := []\<rparr> =
       d'\<lparr>mac_range := [], serial_mac_range := 0, env := []\<rparr>"

lemma ranges_only_trans: "ranges_only a b \<Longrightarrow> ranges_only b c \<Longrightarrow> ranges_only a c"
  by (simp add: ranges_only_def)

lemma same_tables_ranges_only:
  assumes "same_tables d d'"
  shows "ranges_only d d'"
proof -
  have e: "d\<lparr>env := []\<rparr> = d'\<lparr>env := []\<rparr>" using assms by (simp only: same_tables_def)
  show ?thesis
    using arg_cong [OF e, of "\<lambda>x. x\<lparr>mac_range := [], serial_mac_range := 0, env := []\<rparr>"] by (simp add: ranges_only_def)
qed

lemma ranges_only_refl [simp]: "ranges_only d d"
  by (simp add: ranges_only_def)

lemma ranges_only_sel:
  assumes "ranges_only d d'"
  shows "mac_pool d' = mac_pool d" "serial_mac_pool d' = serial_mac_pool d"
    "np_lookup u d' = np_lookup u d" "pg_view u d' = pg_view u d"
proof -
  have e: "f (d\<lparr>mac_range := [], serial_mac_range := 0, env := []\<rparr>) =
      f (d'\<lparr>mac_range := [], serial_mac_range := 0, env := []\<rparr>)" for f :: "mdb \<Rightarrow> 'b"
    using assms by (simp only: ranges_only_def)
  show "mac_pool d' = mac_pool d" using e [of mac_pool] by simp
  show "serial_mac_pool d' = serial_mac_pool d" using e [of serial_mac_pool] by simp
  have n: "netplane d' = netplane d" "port_group d' = port_group d" "vm_pg d' = vm_pg d"
    "access_isolate d' = access_isolate d" "uplink_pg d' = uplink_pg d"
    using e [of netplane] e [of port_group] e [of vm_pg] e [of access_isolate] e [of uplink_pg] by simp_all
  then show "np_lookup u d' = np_lookup u d" by (simp add: np_lookup_def)
  show "pg_view u d' = pg_view u d"
    unfolding pg_view_def pf_net_query_portgroup_def isolate_lookup_def n by (simp add: Let_def split: option.split)
qed

lemma MacRange_Add_only:
  assumes "MacRange_Add r d = (ret, d')"
  shows "ranges_only d d'"
  using assms unfolding MacRange_Add_def
proof (cases rule: db_add_op_cases)
  case idle
  then show ?thesis by (simp add: same_tables_ranges_only)
next
  case (ran d1 a)
  have "ranges_only d1 d'"
    using ran(2)
    by (auto simp: pf_net_add_netplane_macrange_def insert_mac_range_def ranges_only_def Let_def
        split: if_splits option.splits)
  then show ?thesis using ran(1) same_tables_ranges_only ranges_only_trans by blast
qed

lemma MacRange_Del_only:
  assumes "MacRange_Del r d = (ret, d')"
  shows "ranges_only d d'"
  using assms unfolding MacRange_Del_def
proof (cases rule: db_del_op_cases)
  case idle
  then show ?thesis by (simp add: same_tables_ranges_only)
next
  case (ran d1 a)
  have "ranges_only d1 d'"
    using ran(2) by (auto simp: pf_net_del_netplane_macrange_def ranges_only_def split: if_splits option.splits)
  then show ?thesis using ran(1) same_tables_ranges_only ranges_only_trans by blast
qed

lemma save_mac_ranges_only:
  assumes "save_mac_ranges u calc rows d = (ret, d')"
  shows "ranges_only d d'"
  using assms unfolding save_mac_ranges_def
  by (rule sync_rows_keeps)
    (auto intro: ranges_only_trans [OF _ MacRange_Add_only] ranges_only_trans [OF _ MacRange_Del_only])

lemma AddMACRange_only:
  assumes "AddMACRange m d = (ret, d')"
  shows "ranges_only d d'"
proof (cases "mac_msg_item m")
  case (Inr i)
  let ?u = "m_strMsgNetplaneUUID m"
  obtain r rows d1 where q: "MacRange_Query ?u d = (r, rows, d1)" by (metis prod_cases3)
  obtain r0 c where i: "CMACRange_Init (dwOUI (tStartMAC i)) CMACRange_new = (r0, c)" by fastforce
  obtain out c1 where f: "filter_oui (dwOUI (tStartMAC i)) rows c = (out, c1)" by fastforce
  have "ranges_only d d1" using MacRange_Query_effect(1) [OF q] by (rule same_tables_ranges_only)
  moreover have "d' = d \<or> d' = d1 \<or> ranges_only d1 d'"
    using assms Inr q i f
    by (auto simp: AddMACRange_def Let_def split: if_splits prod.splits
        dest: MacRange_Add_only save_mac_ranges_only)
  ultimately show ?thesis using ranges_only_trans by auto
qed (use assms in \<open>simp add: AddMACRange_def\<close>)

lemma DelMACRange_only:
  assumes "DelMACRange m d = (ret, d')"
  shows "ranges_only d d'"
proof (cases "mac_msg_item m")
  case (Inr i)
  let ?u = "m_strMsgNetplaneUUID m" and ?b = "mac_num (tStartMAC i)" and ?e = "mac_num (tEndMAC i)"
  obtain r rows d1 where q: "MacRange_Query ?u d = (r, rows, d1)" by (metis prod_cases3)
  obtain r0 c where i: "CMACRange_Init (dwOUI (tStartMAC i)) CMACRange_new = (r0, c)" by fastforce
  obtain out c1 where f: "filter_oui (dwOUI (tStartMAC i)) rows c = (out, c1)" by fastforce
  obtain r3 c2 where x: "CMACRange_DelRange i c1 = (r3, c2)" by fastforce
  obtain r2 n d2 where a: "MacRange_QueryAllocNum ?u ?b ?e d1 = (r2, n, d2)" by (metis prod_cases3)
  have "ranges_only d d1" "ranges_only d1 d2"
    using MacRange_Query_effect(1) [OF q] MacRange_QueryAllocNum_effect [OF a] same_tables_ranges_only by blast+
  moreover obtain r4 d4 where s: "save_mac_ranges ?u (m_vecMACRange c2) out d2 = (r4, d4)" by fastforce
  moreover have "d' = d \<or> d' = d1 \<or> d' = d2 \<or> d' = d4"
    using assms unfolding DelMACRange_def Inr sum.case Let_def q i f a x s prod.case by (simp split: if_splits)
  ultimately show ?thesis using save_mac_ranges_only [OF s] ranges_only_trans ranges_only_refl by metis
qed (use assms in \<open>simp add: DelMACRange_def\<close>)

lemma ProcMACRangeMsg_only: "ProcMACRangeMsg pMU m d = (r, rep, d') \<Longrightarrow> ranges_only d d'"
  by (auto simp: ProcMACRangeMsg_def split: if_splits prod.splits dest: AddMACRange_only DelMACRange_only)

section \<open>The system\<close>

text \<open>
  The database, the cards of every virtual machine, and the machines whose last release failed. No
  allocation runs while a release has to be repeated; \<open>FreeMACForVnic_failed_duplicates\<close> below shows that
  this order is needed.
\<close>

record mac_sys =
  sys_db :: mdb
  sys_vms :: "string \<Rightarrow> CVNetVnicMem list"
  sys_pending :: "string set"

inductive mac_step :: "mac_sys \<Rightarrow> mac_sys \<Rightarrow> bool" where
  faults: "mac_step s (s\<lparr>sys_db := (sys_db s)\<lparr>env := fs\<rparr>\<rparr>)"
| range: "ProcMACRangeMsg pMU m (sys_db s) = (r, rep, d') \<Longrightarrow> mac_step s (s\<lparr>sys_db := d'\<rparr>)"
| create: "sys_vms s v = [] \<Longrightarrow> \<forall>c \<in> set cs. m_strMac c = [] \<Longrightarrow>
    mac_step s (s\<lparr>sys_vms := (sys_vms s)(v := cs)\<rparr>)"
| alloc: "sys_pending s = {} \<Longrightarrow> AllocMACForVnic big rnd (sys_vms s v) (sys_db s) = Some (ret, vm', d') \<Longrightarrow>
    mac_step s (s\<lparr>sys_db := d', sys_vms := (sys_vms s)(v := vm')\<rparr>)"
| free: "FreeMACForVnic (sys_vms s v) (sys_db s) = (ret, vm', d') \<Longrightarrow>
    mac_step s (s\<lparr>sys_db := d', sys_vms := (sys_vms s)(v := vm'),
                  sys_pending := (if ret = 0 then sys_pending s - {v} else insert v (sys_pending s))\<rparr>)"

text \<open>At the start no card has an address and the pool is in order.\<close>

definition mac_start :: "mac_sys \<Rightarrow> bool" where
  "mac_start s \<longleftrightarrow>
     mac_rows_ok (sys_db s) \<and> sys_pending s = {} \<and> (\<forall>v. \<forall>c \<in> set (sys_vms s v). m_strMac c = [])"

text \<open>The addresses of some cards.\<close>

definition texts :: "CVNetVnicMem list \<Rightarrow> string list" where
  "texts cs = filter (\<lambda>t. t \<noteq> []) (map m_strMac cs)"

text \<open>A card without a row is one without an address: the row is in the netplane of the card.\<close>

definition card_kept :: "mdb \<Rightarrow> CVNetVnicMem \<Rightarrow> bool" where
  "card_kept d c \<longleftrightarrow>
     m_strMac c = [] \<or>
     (\<exists>r \<in> set (mac_pool d). mp_mac r = m_strMac c \<and> np_lookup (card_netplane d c) d = Some (mp_netplane_id r))"

definition mac_safe :: "mac_sys \<Rightarrow> bool" where
  "mac_safe s \<longleftrightarrow>
     (\<forall>v. distinct (texts (sys_vms s v))) \<and>
     (\<forall>v w. v \<noteq> w \<longrightarrow> set (texts (sys_vms s v)) \<inter> set (texts (sys_vms s w)) = {}) \<and>
     (\<forall>v. v \<notin> sys_pending s \<longrightarrow> (\<forall>c \<in> set (sys_vms s v). card_kept (sys_db s) c))"

definition mac_inv :: "mac_sys \<Rightarrow> bool" where
  "mac_inv s \<longleftrightarrow>
     mac_safe s \<and> mac_rows_ok (sys_db s) \<and> (\<forall>v. \<forall>t \<in> set (texts (sys_vms s v)). \<exists>n. t = mac_text_of n)"

lemma texts_none: "\<forall>c \<in> set cs. m_strMac c = [] \<Longrightarrow> texts cs = []"
  by (simp add: texts_def filter_empty_conv)

lemma texts_cleared [simp]: "texts (map cleared cs) = []"
  by (rule texts_none) (simp add: cleared_def)

lemma in_texts: "t \<in> set (texts cs) \<longleftrightarrow> t \<noteq> [] \<and> (\<exists>c \<in> set cs. m_strMac c = t)"
  by (auto simp: texts_def)

lemma mac_start_inv: "mac_start s \<Longrightarrow> mac_inv s"
  using texts_none by (simp add: mac_start_def mac_inv_def mac_safe_def card_kept_def)

subsection \<open>Range messages and faults\<close>

lemma card_kept_same:
  assumes "mac_pool d' = mac_pool d" and "\<And>u. np_lookup u d' = np_lookup u d" and "\<And>u. pg_view u d' = pg_view u d"
  shows "card_kept d' c = card_kept d c"
  using assms by (simp add: card_kept_def card_netplane_def)

lemma mac_inv_ranges:
  assumes "mac_inv s" and "ranges_only (sys_db s) d'"
  shows "mac_inv (s\<lparr>sys_db := d'\<rparr>)"
  using assms(1) ranges_only_sel [OF assms(2)] card_kept_same [OF ranges_only_sel(1,3,4) [OF assms(2)]]
  by (simp add: mac_inv_def mac_safe_def mac_rows_ok_def)

subsection \<open>Allocation\<close>

lemma texts_after:
  "list_all2 (card_after d d') cs cs' \<Longrightarrow> mset (texts cs') = mset (texts cs) + mset (assigned cs cs')"
  by (induction rule: list_all2_induct) (auto simp: card_after_def texts_def)

lemma mac_extends_rows_ok:
  assumes "mac_rows_ok d" and "mac_extends d d'"
  shows "mac_rows_ok d'"
proof -
  obtain new where n: "mac_pool d' = mac_pool d @ new" "\<forall>r \<in> set new. \<exists>u. fresh_row u d r"
    "distinct (map mp_num new)" "\<forall>r \<in> set new. mp_id r \<le> serial_mac_pool d'" "mac_kept d d'"
    using assms(2) by (auto simp: mac_extends_def)
  have old: "mp_num r \<noteq> mp_num x" if in_old: "r \<in> set (mac_pool d)" and in_new: "x \<in> set new" for r x
  proof -
    obtain u where "fresh_row u d x" using n(2) in_new by blast
    moreover have "mp_num r \<in> mac_used d" using in_old by (simp add: mac_used_def)
    ultimately show ?thesis by (auto simp: fresh_row_def)
  qed
  then have "mp_num ` set (mac_pool d) \<inter> mp_num ` set new = {}" by (auto simp: disjoint_iff)
  then have "distinct (map mp_num (mac_pool d'))"
    using assms(1) n(1,3) by (simp add: mac_rows_ok_def)
  moreover have "serial_mac_pool d \<le> serial_mac_pool d'" using n(5) by (simp add: mac_kept_def)
  then have "\<forall>r \<in> set (mac_pool d'). mp_id r \<le> serial_mac_pool d' \<and> mp_mac r = mac_text_of (mp_num r) \<and>
      mac_num (num_mac (mp_num r)) = mp_num r"
    using assms(1) n(1,2,4) unfolding mac_rows_ok_def by (fastforce simp: fresh_row_def)
  ultimately show ?thesis by (simp add: mac_rows_ok_def)
qed

lemma card_kept_later:
  assumes "mac_extends d d'" and "card_kept d c"
  shows "card_kept d' c"
proof -
  have k: "mac_kept d d'" and "set (mac_pool d) \<subseteq> set (mac_pool d')" using assms(1) by (auto simp: mac_extends_def)
  then show ?thesis using assms(2) card_netplane_kept [OF k] mac_kept_sel(8) [OF k] by (auto simp: card_kept_def)
qed

text \<open>The address of a kept card is not one that the allocation hands out.\<close>

lemma kept_not_assigned:
  assumes "mac_rows_ok d" and "card_kept d c" and "m_strMac c \<noteq> []" and "list_all2 (card_after d d') cs cs'"
  shows "m_strMac c \<notin> set (assigned cs cs')"
proof
  assume "m_strMac c \<in> set (assigned cs cs')"
  then obtain u n where n: "m_strMac c = mac_text_of n" "new_address u n d d'"
    using assigned_new [OF assms(4)] by blast
  obtain r where r: "r \<in> set (mac_pool d)" "mp_mac r = m_strMac c" using assms(2,3) by (auto simp: card_kept_def)
  then have "mac_text_of n = mac_text_of (mp_num r)" "mac_num (num_mac (mp_num r)) = mp_num r"
    using assms(1) n(1) by (auto simp: mac_rows_ok_def)
  then have "n = mp_num r" using n(2) mac_text_inject by (simp add: new_address_def)
  then show False using new_address_used(2) [OF n(2)] r(1) by (auto simp: mac_used_def)
qed

lemma mac_inv_alloc:
  assumes "mac_inv s" and "sys_pending s = {}" and "cards_done ret (sys_db s) d' (sys_vms s v) vm'"
  shows "mac_inv (s\<lparr>sys_db := d', sys_vms := (sys_vms s)(v := vm')\<rparr>)"
proof -
  let ?d = "sys_db s" and ?vm = "sys_vms s v"
  have e: "mac_extends ?d d'" "list_all2 (card_after ?d d') ?vm vm'" "distinct (assigned ?vm vm')"
    using assms(3) by (simp_all add: cards_done_def)
  have i: "mac_rows_ok ?d" "distinct (texts (sys_vms s w))" "w \<noteq> x \<Longrightarrow> set (texts (sys_vms s w)) \<inter> set (texts (sys_vms s x)) = {}"
    "c \<in> set (sys_vms s w) \<Longrightarrow> card_kept ?d c" "t \<in> set (texts (sys_vms s w)) \<Longrightarrow> \<exists>n. t = mac_text_of n" for w x c t
    using assms(1,2) unfolding mac_inv_def mac_safe_def by blast+
  have m: "mset (texts vm') = mset (texts ?vm @ assigned ?vm vm')" using texts_after [OF e(2)] by simp
  then have set: "set (texts vm') = set (texts ?vm) \<union> set (assigned ?vm vm')" by (metis mset_eq_setD set_append)
  have apart: "set (texts (sys_vms s w)) \<inter> set (assigned ?vm vm') = {}" for w
    using kept_not_assigned [OF i(1) i(4) _ e(2)] by (auto simp: disjoint_iff in_texts)
  have "distinct (texts vm')"
    using mset_eq_imp_distinct_iff [OF m] i(2) [of v] e(3) apart [of v] by simp
  moreover have "card_kept d' c'" if inv: "c' \<in> set vm'" for c'
  proof -
    obtain k where k: "k < length vm'" "c' = vm' ! k" using inv by (auto simp: in_set_conv_nth)
    define c where "c = ?vm ! k"
    have c: "c \<in> set ?vm" "card_after ?d d' c c'"
      using list_all2_nthD2 [OF e(2) k(1)] list_all2_lengthD [OF e(2)] k by (simp_all add: c_def)
    show ?thesis
    proof (cases "c' = c")
      case True
      then show ?thesis using card_kept_later [OF e(1)] i(4) c(1) by simp
    next
      case False
      then obtain n where n: "c' = c\<lparr>m_strMac := mac_text_of n\<rparr>" "new_address (card_netplane ?d c) n ?d d'"
        using c(2) by (auto simp: card_after_def)
      have k: "mac_kept ?d d'" using e(1) by (simp add: mac_extends_def)
      obtain r where r: "r \<in> set (mac_pool d')" "mp_num r = n" "fresh_row (card_netplane ?d c) ?d r"
        using n(2) by (auto simp: new_address_def)
      have "card_netplane d' c' = card_netplane ?d c"
        using card_netplane_kept [OF k, of c] n(1) by (simp add: card_netplane_def)
      then show ?thesis using r n(1) mac_kept_sel(8) [OF k] by (auto simp: card_kept_def fresh_row_def)
    qed
  qed
  moreover have "\<exists>n. t = mac_text_of n" if "t \<in> set (texts vm')" for t
    using that i(5) assigned_new [OF e(2)] unfolding set by blast
  moreover have "set (texts (sys_vms s w)) \<inter> set (texts vm') = {}" if "w \<noteq> v" for w
    using i(3) [OF that] apart [of w] set by blast
  moreover note mac_extends_rows_ok [OF i(1) e(1)] i(2,3,5) card_kept_later [OF e(1) i(4)]
  ultimately show ?thesis unfolding mac_inv_def mac_safe_def by (simp add: Int_commute)
qed

subsection \<open>Release\<close>

lemma mac_rows_ok_filter:
  "mac_rows_ok d \<Longrightarrow> mac_kept d d' \<Longrightarrow> mac_pool d' = filter P (mac_pool d) \<Longrightarrow> mac_rows_ok d'"
  by (auto simp: mac_rows_ok_def mac_kept_def distinct_map_filter)

lemma names_card_text:
  assumes "names_card d c r" and "m_strMac c = mac_text_of n"
  shows "mp_mac r = m_strMac c"
proof -
  have "c_str (mac_text_of n) = mac_text_of n" by (simp add: mac_text_of_def c_str_GetStringMAC)
  then show ?thesis using assms by (auto simp: names_card_def names_row_def free_row_def is_mac_row_def)
qed

lemma mac_inv_free:
  assumes "mac_inv s" and "FreeMACForVnic (sys_vms s v) (sys_db s) = (ret, vm', d')"
  shows "mac_inv (s\<lparr>sys_db := d', sys_vms := (sys_vms s)(v := vm'),
                    sys_pending := (if ret = 0 then sys_pending s - {v} else insert v (sys_pending s))\<rparr>)"
proof -
  let ?d = "sys_db s" and ?vm = "sys_vms s v"
  obtain r cs' where f: "free_mac_cards ?vm ?d = (r, cs', d')"
    using assms(2) by (auto simp: FreeMACForVnic_def split: prod.splits if_splits)
  note e = free_mac_cards_effect [OF f]
  have vm': "vm' = (if ret = 0 then map cleared ?vm else ?vm)"
    using assms(2) f e by (auto simp: FreeMACForVnic_def split: if_splits)
  obtain P where p: "mac_kept ?d d'" "mac_pool d' = filter P (mac_pool ?d)"
    "\<And>r. r \<in> set (mac_pool ?d) \<Longrightarrow> \<not> P r \<Longrightarrow> \<exists>c \<in> set ?vm. names_card ?d c r"
    using e unfolding cards_freed_def by blast
  have i: "mac_rows_ok ?d" "distinct (texts (sys_vms s w))" "w \<noteq> x \<Longrightarrow> set (texts (sys_vms s w)) \<inter> set (texts (sys_vms s x)) = {}"
    "w \<notin> sys_pending s \<Longrightarrow> c \<in> set (sys_vms s w) \<Longrightarrow> card_kept ?d c"
    "t \<in> set (texts (sys_vms s w)) \<Longrightarrow> \<exists>n. t = mac_text_of n" for w x c t
    using assms(1) unfolding mac_inv_def mac_safe_def by blast+
  have others: "card_kept d' c" if w: "w \<noteq> v" "w \<notin> sys_pending s" "c \<in> set (sys_vms s w)" for w c
  proof (cases "m_strMac c = []")
    case False
    then obtain r where r: "r \<in> set (mac_pool ?d)" "mp_mac r = m_strMac c"
      "np_lookup (card_netplane ?d c) ?d = Some (mp_netplane_id r)"
      using i(4) [OF w(2,3)] by (auto simp: card_kept_def)
    have "P r"
    proof (rule ccontr)
      assume "\<not> P r"
      then obtain x where x: "x \<in> set ?vm" "names_card ?d x r" using p(3) r(1) by blast
      then have "m_strMac x \<in> set (texts ?vm)" by (auto simp: in_texts names_card_def)
      moreover from i(5) [OF this] have "mp_mac r = m_strMac x" using x(2) names_card_text by blast
      moreover have "m_strMac c \<in> set (texts (sys_vms s w))" using w(3) False by (auto simp: in_texts)
      ultimately show False using i(3) [OF w(1)] r(2) by (auto simp: disjoint_iff)
    qed
    then show ?thesis
      using r p(2) card_netplane_kept [OF p(1)] mac_kept_sel(8) [OF p(1)] by (auto simp: card_kept_def)
  qed (simp add: card_kept_def)
  have "card_kept d' (cleared c)" for c by (simp add: card_kept_def cleared_def)
  then show ?thesis
    using mac_rows_ok_filter [OF i(1) p(1,2)] i others unfolding mac_inv_def mac_safe_def vm'
    by (auto simp: disjoint_iff)
qed

section \<open>Every reachable state\<close>

lemma mac_step_inv:
  assumes "mac_step s t" and "mac_inv s"
  shows "mac_inv t"
  using assms(1)
proof (cases rule: mac_step.cases)
  case (faults fs)
  have "ranges_only (sys_db s) (sys_db s\<lparr>env := fs\<rparr>)" by (simp add: ranges_only_def)
  then show ?thesis using mac_inv_ranges [OF assms(2)] faults by simp
next
  case (range pMU m r rep d')
  then show ?thesis using mac_inv_ranges [OF assms(2)] ProcMACRangeMsg_only by blast
next
  case (create v cs)
  have "texts cs = []" "\<forall>c \<in> set cs. card_kept d c" for d using create(3) texts_none by (auto simp: card_kept_def)
  then show ?thesis using assms(2) create(1) by (simp add: mac_inv_def mac_safe_def)
next
  case (alloc big rnd v ret vm' d')
  have "cards_done ret (sys_db s) d' (sys_vms s v) vm'"
    using alloc_mac_cards_effect [of big rnd "[]"] alloc(3) by (auto simp: AllocMACForVnic_def)
  then show ?thesis using mac_inv_alloc [OF assms(2) alloc(2)] alloc(1) by simp
next
  case (free v ret vm' d')
  then show ?thesis using mac_inv_free [OF assms(2)] by simp
qed

lemma mac_reach_inv: "mac_step\<^sup>*\<^sup>* s t \<Longrightarrow> mac_inv s \<Longrightarrow> mac_inv t"
  by (induction rule: rtranclp_induct) (auto intro: mac_step_inv)

text \<open>C5. Safety of the MAC component. In every state that range messages, allocations and releases reach from a
  start, in any order and whatever the database answers, as long as a failed release is repeated before the
  next allocation: no two cards, of one virtual machine or of two, hold the same address, and the
  address of every card whose machine has no release to repeat is a row of the pool, in the netplane of the
  card.\<close>

theorem mac_system_safe:
  assumes "mac_start s" and "mac_step\<^sup>*\<^sup>* s t"
  shows "mac_safe t"
  using mac_reach_inv [OF assms(2) mac_start_inv [OF assms(1)]] by (simp add: mac_inv_def)

text \<open>C33. The tables stay in order in the same runs: the rows of the pool have different numbers, identifiers that
  the sequence has passed, and the text of their number, so that an address has one row and one text.\<close>

theorem mac_pool_in_order:
  assumes "mac_start s" and "mac_step\<^sup>*\<^sup>* s t"
  shows "mac_rows_ok (sys_db t)"
  using mac_reach_inv [OF assms(2) mac_start_inv [OF assms(1)]] by (simp add: mac_inv_def)

definition example_sys :: mac_sys where
  "example_sys = \<lparr>sys_db = example_mdb, sys_vms = (\<lambda>v. if v = ''v'' then [vnic ''a'' 0 []] else []), sys_pending = {}\<rparr>"

lemma example_sys_start: "mac_start example_sys"
proof -
  have "list_all (\<lambda>r. mp_id r \<le> serial_mac_pool example_mdb \<and> mp_mac r = mac_text_of (mp_num r) \<and>
      mac_num (num_mac (mp_num r)) = mp_num r) (mac_pool example_mdb) \<and> distinct (map mp_num (mac_pool example_mdb))"
    by code_simp
  then show ?thesis by (simp add: mac_start_def example_sys_def mac_rows_ok_def list_all_iff)
qed

lemma example_sys_step:
  "\<exists>t. mac_step\<^sup>*\<^sup>* example_sys t \<and> m_strMac (hd (sys_vms t ''v'')) = ''00:19:c6:00:00:03''"
proof -
  have "(case AllocMACForVnic False (\<lambda>_. zero_uuid) [vnic ''a'' 0 []] example_mdb of
      None \<Rightarrow> False | Some (r, vm', d') \<Rightarrow> m_strMac (hd vm') = ''00:19:c6:00:00:03'')" by code_simp
  then obtain r vm' d' where a: "AllocMACForVnic False (\<lambda>_. zero_uuid) (sys_vms example_sys ''v'') (sys_db example_sys) =
      Some (r, vm', d')" "m_strMac (hd vm') = ''00:19:c6:00:00:03''"
    by (auto simp: example_sys_def split: option.splits)
  show ?thesis
    using mac_step.alloc [OF _ a(1)] a(2)
    by (intro exI [of _ "example_sys\<lparr>sys_db := d', sys_vms := (sys_vms example_sys)(''v'' := vm')\<rparr>"])
      (auto simp: example_sys_def)
qed

theorem mac_system_safe_witness:
  "\<exists>t. mac_step\<^sup>*\<^sup>* example_sys t \<and> m_strMac (hd (sys_vms t ''v'')) = ''00:19:c6:00:00:03'' \<and> mac_safe t"
  using example_sys_step mac_system_safe [OF example_sys_start] by blast

theorem mac_pool_in_order_witness:
  "\<exists>t. mac_step\<^sup>*\<^sup>* example_sys t \<and> m_strMac (hd (sys_vms t ''v'')) = ''00:19:c6:00:00:03'' \<and> mac_rows_ok (sys_db t)"
  using example_sys_step mac_pool_in_order [OF example_sys_start] by blast

section \<open>A failed release that is not repeated\<close>

text \<open>C35. A release that fails half way can give two machines the same address. The release of two cards stops at the
  second because the database refuses a call; the row of the first card is gone, but the card keeps its
  address. The next allocation hands this address out again, and when the first release is repeated after
  that it takes the row away from the second machine.\<close>

theorem FreeMACForVnic_failed_duplicates:
  "\<exists>v w d1 d2 d3 d4.
     AllocMACForVnic False (\<lambda>_. zero_uuid) [vnic ''a'' 0 [], vnic ''a'' 1 []] example_mdb = Some (0, v, d1) \<and>
     FreeMACForVnic v (d1\<lparr>env := [Run, Run, Run, Refused EXECUTE_FAILED]\<rparr>) = (- 1, v, d2) \<and>
     AllocMACForVnic False (\<lambda>_. zero_uuid) [vnic ''a'' 0 []] d2 = Some (0, w, d3) \<and>
     m_strMac (hd w) = m_strMac (hd v) \<and>
     FreeMACForVnic v d3 = (0, map cleared v, d4) \<and> m_strMac (hd w) \<notin> mp_mac ` set (mac_pool d4)"
proof -
  let ?alloc = "AllocMACForVnic False (\<lambda>_. zero_uuid)"
  have "(case ?alloc [vnic ''a'' 0 [], vnic ''a'' 1 []] example_mdb of None \<Rightarrow> False | Some (r, v, d1) \<Rightarrow> r = 0 \<and>
      (case FreeMACForVnic v (d1\<lparr>env := [Run, Run, Run, Refused EXECUTE_FAILED]\<rparr>) of (r, v', d2) \<Rightarrow> r = - 1 \<and> v' = v \<and>
      (case ?alloc [vnic ''a'' 0 []] d2 of None \<Rightarrow> False | Some (r, w, d3) \<Rightarrow> r = 0 \<and>
      m_strMac (hd w) = m_strMac (hd v) \<and>
      (case FreeMACForVnic v d3 of (r, v', d4) \<Rightarrow> r = 0 \<and> v' = map cleared v \<and>
       m_strMac (hd w) \<notin> set (map mp_mac (mac_pool d4))))))" by code_simp
  moreover obtain r1 v d1 where a1: "?alloc [vnic ''a'' 0 [], vnic ''a'' 1 []] example_mdb = Some (r1, v, d1)"
    using calculation by (auto split: option.splits)
  moreover obtain r2 v2 d2 where a2: "FreeMACForVnic v (d1\<lparr>env := [Run, Run, Run, Refused EXECUTE_FAILED]\<rparr>) = (r2, v2, d2)"
    by (metis prod_cases3)
  moreover obtain r3 w d3 where a3: "?alloc [vnic ''a'' 0 []] d2 = Some (r3, w, d3)"
    using calculation by (auto split: option.splits)
  moreover obtain r4 v4 d4 where a4: "FreeMACForVnic v d3 = (r4, v4, d4)" by (metis prod_cases3)
  ultimately have "r1 = 0" "r2 = - 1" "v2 = v" "r3 = 0" "m_strMac (hd w) = m_strMac (hd v)" "r4 = 0"
    "v4 = map cleared v" "m_strMac (hd w) \<notin> mp_mac ` set (mac_pool d4)" by auto
  then show ?thesis using a1 a2 a3 a4 by blast
qed

end
