(* ===== verification/Ipv4Addr.thy ===== *)
theory Ipv4Addr
  imports AddrText
begin

text \<open>
  \<open>CIPv4Addr\<close> (\<open>ipv4_addr.h\<close>, \<open>ipv4_addr.cpp\<close>): the IPv4 address and mask of the pools, their text
  form, byte order and validity tests. The union of a 32-bit word and four bytes is modelled by the
  four bytes in memory order; the word it shows depends on the byte order of the host, which is the
  argument \<open>big\<close> of every operation that reads or writes the word.
\<close>

section \<open>Data\<close>

record UNIPv4AddrType =
  auc0 :: uint8
  auc1 :: uint8
  auc2 :: uint8
  auc3 :: uint8

record TIPv4Addr =
  uIP :: UNIPv4AddrType
  uMask :: UNIPv4AddrType

definition uaddr_zero :: UNIPv4AddrType where
  "uaddr_zero = \<lparr>auc0 = 0, auc1 = 0, auc2 = 0, auc3 = 0\<rparr>"

definition uaddr_bytes :: "UNIPv4AddrType \<Rightarrow> uint8 list" where
  "uaddr_bytes u = [auc0 u, auc1 u, auc2 u, auc3 u]"

definition word_of_bytes :: "uint8 \<Rightarrow> uint8 \<Rightarrow> uint8 \<Rightarrow> uint8 \<Rightarrow> uint32" where
  "word_of_bytes b3 b2 b1 b0 =
     push_bit 24 (ucast b3) OR push_bit 16 (ucast b2) OR push_bit 8 (ucast b1) OR ucast b0"

definition dwAddr :: "bool \<Rightarrow> UNIPv4AddrType \<Rightarrow> uint32" where
  "dwAddr big u =
     (if big then word_of_bytes (auc0 u) (auc1 u) (auc2 u) (auc3 u)
      else word_of_bytes (auc3 u) (auc2 u) (auc1 u) (auc0 u))"

definition uaddr_of_dw :: "bool \<Rightarrow> uint32 \<Rightarrow> UNIPv4AddrType" where
  "uaddr_of_dw big w =
     (let b3 = ucast (drop_bit 24 w); b2 = ucast (drop_bit 16 w);
          b1 = ucast (drop_bit 8 w); b0 = ucast w
      in if big then \<lparr>auc0 = b3, auc1 = b2, auc2 = b1, auc3 = b0\<rparr>
         else \<lparr>auc0 = b0, auc1 = b1, auc2 = b2, auc3 = b3\<rparr>)"

section \<open>Byte order\<close>

definition IsBigendianHost :: "bool \<Rightarrow> bool" where
  "IsBigendianHost big \<longleftrightarrow>
     \<not> (dwAddr big \<lparr>auc0 = 1, auc1 = 0, auc2 = 0, auc3 = 0\<rparr> = 1)"

definition N2HL :: "bool \<Rightarrow> uint32 \<Rightarrow> uint32" where
  "N2HL big w =
     (if IsBigendianHost big then w
      else push_bit 24 (w AND 0x000000ff) OR push_bit 8 (w AND 0x0000ff00) OR
           drop_bit 8 (w AND 0x00ff0000) OR drop_bit 24 (w AND 0xff000000))"

definition H2NL :: "bool \<Rightarrow> uint32 \<Rightarrow> uint32" where
  "H2NL big w =
     (if IsBigendianHost big then w
      else push_bit 24 (w AND 0x000000ff) OR push_bit 8 (w AND 0x0000ff00) OR
           drop_bit 8 (w AND 0x00ff0000) OR drop_bit 24 (w AND 0xff000000))"

section \<open>Reading the text form\<close>

text \<open>
  \<open>String2IP\<close> first copies the digits and dots of the C string into \<open>digits\<close> and the dots and the
  final NUL into \<open>punct\<close>, and refuses a string that fills one of the two arrays (\<open>addr_scan\<close>).
\<close>

definition dec_digit :: "char \<Rightarrow> nat option" where
  "dec_digit c =
     map_of
       [(CHR ''0'', 0), (CHR ''1'', 1), (CHR ''2'', 2), (CHR ''3'', 3), (CHR ''4'', 4),
        (CHR ''5'', 5), (CHR ''6'', 6), (CHR ''7'', 7), (CHR ''8'', 8), (CHR ''9'', 9)] c"

text \<open>
  \<open>MAX_DIGITS_LENGTH\<close> and \<open>MAX_PUNCT_LENGTH\<close> are the sizes of two string literals with their NUL;
  \<open>PUNCT_DOT\<close> and \<open>PUNCT_NUL\<close> are the codes of the dot and of the end of the string.
\<close>

definition ip_conf :: scan_conf where
  "ip_conf = \<lparr>sc_digit = dec_digit, sc_sep = CHR ''.'', sc_sep_code = 0x12, sc_nul_code = 0x10,
              sc_max_digits = 46, sc_max_punct = 10\<rparr>"

text \<open>The inner loop reads one octet; \<open>value\<close> stays below 2560, so it never wraps around.\<close>

fun ip_value :: "nat \<Rightarrow> nat list \<Rightarrow> (uint8 \<times> nat list) option" where
  "ip_value v [] = Some (of_nat v, [])"
| "ip_value v (d # ds) =
     (if d \<le> 9 then (if v * 10 + d > 255 then None else ip_value (v * 10 + d) ds)
      else Some (of_nat v, d # ds))"

definition uaddr_of_bytes :: "uint8 list \<Rightarrow> UNIPv4AddrType" where
  "uaddr_of_bytes bs = \<lparr>auc0 = bs ! 0, auc1 = bs ! 1, auc2 = bs ! 2, auc3 = bs ! 3\<rparr>"

definition String2IP :: "string \<Rightarrow> UNIPv4AddrType option" where
  "String2IP s =
     (if s = [] then None
      else case addr_scan ip_conf (skip_blanks (c_str s)) [] [] of
             None \<Rightarrow> None
           | Some (digits, punct) \<Rightarrow>
               if length punct \<noteq> 4 then None
               else (case addr_fields ip_conf (ip_value 0) digits punct [] of
                       (False, bs) \<Rightarrow> None
                     | (True, bs) \<Rightarrow> Some (uaddr_of_bytes bs)))"

definition Set_text :: "string \<Rightarrow> string \<Rightarrow> TIPv4Addr \<Rightarrow> rc \<times> TIPv4Addr" where
  "Set_text ip msk a =
     (case String2IP ip of
        None \<Rightarrow> (- 1, a)
      | Some i \<Rightarrow> (case String2IP msk of
                    None \<Rightarrow> (- 1, a)
                  | Some m \<Rightarrow> (0, a\<lparr>uIP := i, uMask := m\<rparr>)))"

section \<open>Writing the text form\<close>

definition digit_char :: "nat \<Rightarrow> char" where
  "digit_char d = ''0123456789'' ! d"

fun show_dec :: "nat \<Rightarrow> string" where
  "show_dec n = (if n < 10 then [digit_char n] else show_dec (n div 10) @ [digit_char (n mod 10)])"

declare show_dec.simps [simp del]

definition show_uaddr :: "UNIPv4AddrType \<Rightarrow> string" where
  "show_uaddr u =
     show_dec (unat (auc0 u)) @ ''.'' @ show_dec (unat (auc1 u)) @ ''.'' @
     show_dec (unat (auc2 u)) @ ''.'' @ show_dec (unat (auc3 u))"

definition GetIP :: "TIPv4Addr \<Rightarrow> string" where
  "GetIP a = show_uaddr (uIP a)"

definition GetMask :: "TIPv4Addr \<Rightarrow> string" where
  "GetMask a = show_uaddr (uMask a)"

definition IP2String :: "TIPv4Addr \<Rightarrow> string \<times> string" where
  "IP2String a = (show_uaddr (uIP a), show_uaddr (uMask a))"

section \<open>Validity\<close>

datatype ENChkIPv4AddrCode =
    IPV4_ADDR_ALL_ZEROS
  | IPV4_ADDR_ALL_ONES
  | IPV4_ADDR_MULTICAST
  | IPV4_ADDR_LOOPBACK
  | IPV4_ADDR_FIRST_ZERO
  | IPV4_ADDR_LAST_ONES
  | IPV4_ADDR_RESERVED

fun CheckAddr :: "ENChkIPv4AddrCode \<Rightarrow> UNIPv4AddrType \<Rightarrow> bool" where
  "CheckAddr IPV4_ADDR_ALL_ZEROS u \<longleftrightarrow> (\<forall>b \<in> set (uaddr_bytes u). b = 0x00)"
| "CheckAddr IPV4_ADDR_ALL_ONES u \<longleftrightarrow> (\<forall>b \<in> set (uaddr_bytes u). b = 0xFF)"
| "CheckAddr IPV4_ADDR_MULTICAST u \<longleftrightarrow> 0xE0 \<le> auc0 u AND 0xF0"
| "CheckAddr IPV4_ADDR_RESERVED u \<longleftrightarrow> 0xF0 \<le> auc0 u AND 0xF0"
| "CheckAddr IPV4_ADDR_LOOPBACK u \<longleftrightarrow> auc0 u = 0x7F"
| "CheckAddr IPV4_ADDR_FIRST_ZERO u \<longleftrightarrow> auc0 u = 0x00"
| "CheckAddr IPV4_ADDR_LAST_ONES u \<longleftrightarrow> auc3 u = 0x00"

text \<open>
  The loop of \<open>IsValidMask\<close> shifts the mask left until it is zero; it runs at most 32 times, so 33
  units of fuel never run out (\<open>mask_loop_fuel\<close>).
\<close>

fun mask_loop :: "nat \<Rightarrow> uint32 \<Rightarrow> bool option" where
  "mask_loop 0 m = None"
| "mask_loop (Suc n) m =
     (if m = 0 then Some True
      else if 0x80000000 AND m = 0 then Some False
      else mask_loop n (shl1 m))"

definition IsValidMask :: "bool \<Rightarrow> TIPv4Addr \<Rightarrow> bool" where
  "IsValidMask big a =
     (if CheckAddr IPV4_ADDR_ALL_ZEROS (uMask a) \<or> CheckAddr IPV4_ADDR_ALL_ONES (uMask a)
      then False
      else the (mask_loop 33 (N2HL big (dwAddr big (uMask a)))))"

definition IsValidHostAddr :: "TIPv4Addr \<Rightarrow> bool" where
  "IsValidHostAddr a \<longleftrightarrow>
     \<not> (CheckAddr IPV4_ADDR_ALL_ZEROS (uIP a) \<or> CheckAddr IPV4_ADDR_ALL_ONES (uIP a) \<or>
        CheckAddr IPV4_ADDR_LOOPBACK (uIP a) \<or> CheckAddr IPV4_ADDR_FIRST_ZERO (uIP a) \<or>
        CheckAddr IPV4_ADDR_MULTICAST (uIP a) \<or> CheckAddr IPV4_ADDR_RESERVED (uIP a))"

definition IsValid :: "bool \<Rightarrow> TIPv4Addr \<Rightarrow> bool" where
  "IsValid big a =
     (if \<not> IsValidMask big a then False
      else if \<not> IsValidHostAddr a then False
      else let ip = N2HL big (dwAddr big (uIP a)); m = N2HL big (dwAddr big (uMask a))
           in if 0 = ip AND NOT m \<or> 0xFFFFFFFF = (ip OR NOT m) then False
              else if ip AND NOT m = NOT m then False
              else True)"

fun prefix_loop :: "nat \<Rightarrow> nat \<Rightarrow> uint32 \<Rightarrow> nat" where
  "prefix_loop 0 len m = len"
| "prefix_loop (Suc n) len m = (if m = 0 then len else prefix_loop n (Suc len) (shl1 m))"

definition GetMaskPrefixLen :: "bool \<Rightarrow> TIPv4Addr \<Rightarrow> nat" where
  "GetMaskPrefixLen big a = prefix_loop 32 0 (H2NL big (dwAddr big (uMask a)))"

definition GetIPAndMask :: "bool \<Rightarrow> TIPv4Addr \<Rightarrow> string" where
  "GetIPAndMask big a = show_uaddr (uIP a) @ ''/'' @ show_dec (GetMaskPrefixLen big a)"

section \<open>Byte order: the word of network byte order on any host\<close>

definition net_word :: "UNIPv4AddrType \<Rightarrow> uint32" where
  "net_word u = word_of_bytes (auc0 u) (auc1 u) (auc2 u) (auc3 u)"

lemma IsBigendianHost_host: "IsBigendianHost big = big"
  by (simp add: IsBigendianHost_def dwAddr_def word_of_bytes_def)

lemma byte_masks:
  "(0x000000ff :: uint32) = mask 8" "(0x0000ff00 :: uint32) = push_bit 8 (mask 8)"
  "(0x00ff0000 :: uint32) = push_bit 16 (mask 8)" "(0xff000000 :: uint32) = push_bit 24 (mask 8)"
  by (simp_all add: mask_eq_exp_minus_1 push_bit_eq_mult)

lemma bit_word_of_bytes:
  assumes "n < 32"
  shows "bit (word_of_bytes b3 b2 b1 b0) n \<longleftrightarrow>
           (if n < 8 then bit b0 n else if n < 16 then bit b1 (n - 8)
            else if n < 24 then bit b2 (n - 16) else bit b3 (n - 24))"
  using assms byte_bit_ge [of n b0] byte_bit_ge [of "n - 8" b1] byte_bit_ge [of "n - 16" b2]
  unfolding word_of_bytes_def bit_or_iff bit_push_bit_iff bit_ucast_iff by auto

definition swap_bytes :: "uint32 \<Rightarrow> uint32" where
  "swap_bytes w =
     push_bit 24 (w AND 0x000000ff) OR push_bit 8 (w AND 0x0000ff00) OR
     drop_bit 8 (w AND 0x00ff0000) OR drop_bit 24 (w AND 0xff000000)"

lemma bit_swap_bytes:
  assumes "n < 32"
  shows "bit (swap_bytes w) n \<longleftrightarrow>
           bit w (if n < 8 then n + 24 else if n < 16 then n + 8
                  else if n < 24 then n - 8 else n - 24)"
  using assms
  unfolding swap_bytes_def byte_masks bit_or_iff bit_push_bit_iff bit_drop_bit_eq bit_and_iff
    bit_mask_iff o_apply
  by (cases "n < 8"; cases "n < 16"; cases "n < 24") (auto simp: add.commute)

lemma N2HL_host: "N2HL big w = (if big then w else swap_bytes w)"
  by (simp add: N2HL_def IsBigendianHost_host swap_bytes_def)

lemma H2NL_eq_N2HL: "H2NL big w = N2HL big w"
  by (simp add: H2NL_def N2HL_def)

lemma swap_bytes_twice: "swap_bytes (swap_bytes w) = w"
proof (rule bit_word_eqI)
  fix n
  assume "n < LENGTH(32)"
  then show "bit (swap_bytes (swap_bytes w)) n \<longleftrightarrow> bit w n"
    by (cases "n < 8"; cases "n < 16"; cases "n < 24") (auto simp: bit_swap_bytes split: if_splits)
qed

lemma H2NL_N2HL: "H2NL big (N2HL big w) = w"
  by (simp add: H2NL_eq_N2HL N2HL_host swap_bytes_twice)

lemma swap_word_of_bytes: "swap_bytes (word_of_bytes b3 b2 b1 b0) = word_of_bytes b0 b1 b2 b3"
proof (rule bit_word_eqI)
  fix n
  assume "n < LENGTH(32)"
  then show "bit (swap_bytes (word_of_bytes b3 b2 b1 b0)) n \<longleftrightarrow> bit (word_of_bytes b0 b1 b2 b3) n"
    by (cases "n < 8"; cases "n < 16"; cases "n < 24")
      (auto simp: bit_swap_bytes bit_word_of_bytes split: if_splits)
qed

lemma N2HL_net_word: "N2HL big (dwAddr big u) = net_word u"
  by (simp add: N2HL_host dwAddr_def net_word_def swap_word_of_bytes)

lemma bytes_of_word_of_bytes:
  "(ucast (word_of_bytes b3 b2 b1 b0) :: uint8) = b0"
  "(ucast (drop_bit 8 (word_of_bytes b3 b2 b1 b0)) :: uint8) = b1"
  "(ucast (drop_bit 16 (word_of_bytes b3 b2 b1 b0)) :: uint8) = b2"
  "(ucast (drop_bit 24 (word_of_bytes b3 b2 b1 b0)) :: uint8) = b3"
  by (rule bit_word_eqI; simp add: bit_ucast_iff bit_drop_bit_eq bit_word_of_bytes)+

lemma uaddr_of_dw_dwAddr: "uaddr_of_dw big (dwAddr big u) = u"
  by (simp add: uaddr_of_dw_def dwAddr_def Let_def bytes_of_word_of_bytes)

section \<open>Masks\<close>

definition prefix_mask :: "nat \<Rightarrow> uint32" where
  "prefix_mask k = NOT (mask (32 - k))"

lemma bit_prefix_mask: "bit (prefix_mask k) i \<longleftrightarrow> i < 32 \<and> 32 - k \<le> i"
  by (auto simp: prefix_mask_def bit_simps)

lemma prefix_mask_0 [simp]: "prefix_mask 0 = 0"
  by (rule bit_word_eqI) (simp add: bit_prefix_mask)

lemma push_prefix_mask: "shl1 (prefix_mask (Suc k)) = prefix_mask k" if "k < 32"
  using that by (intro bit_word_eqI) (auto simp: bit_prefix_mask bit_shl1)

lemma prefix_mask_nonzero: "0 < k \<Longrightarrow> prefix_mask k \<noteq> 0"
proof
  assume "0 < k" "prefix_mask k = 0"
  moreover from \<open>0 < k\<close> have "bit (prefix_mask k) 31" by (simp add: bit_prefix_mask)
  ultimately show False by simp
qed

lemma top_bit: "0x80000000 AND (m :: uint32) = 0 \<longleftrightarrow> \<not> bit m 31"
proof -
  have "(0x80000000 :: uint32) = push_bit 31 1" by simp
  then have *: "bit (0x80000000 AND m) n \<longleftrightarrow> n = 31 \<and> bit m 31" for n
    unfolding bit_and_iff
    by (cases "n = 31") (auto simp only: bit_push_bit_iff bit_1_iff possible_bit_word, auto)
  show ?thesis
  proof
    assume "0x80000000 AND m = 0"
    with * [of 31] show "\<not> bit m 31" by simp
  next
    assume "\<not> bit m 31"
    then show "0x80000000 AND m = 0"
      by (intro bit_word_eqI) (simp only: *, simp)
  qed
qed

lemma prefix_mask_step:
  assumes "m \<noteq> 0"
  shows "(\<exists>k \<le> 32. m = prefix_mask k) \<longleftrightarrow> bit m 31 \<and> (\<exists>k \<le> 32. shl1 m = prefix_mask k)"
proof
  assume "\<exists>k \<le> 32. m = prefix_mask k"
  then obtain k where k: "k \<le> 32" "m = prefix_mask k" by blast
  with assms obtain j where "k = Suc j" by (cases k) auto
  with k have "shl1 m = prefix_mask j" "bit m 31" "j \<le> 32"
    by (auto simp: push_prefix_mask bit_prefix_mask)
  then show "bit m 31 \<and> (\<exists>k \<le> 32. shl1 m = prefix_mask k)" by blast
next
  assume "bit m 31 \<and> (\<exists>k \<le> 32. shl1 m = prefix_mask k)"
  then obtain k where k: "bit m 31" "k \<le> 32" "shl1 m = prefix_mask k" by blast
  have "\<not> bit (prefix_mask k) 0"
    using k(3) bit_shl1 [of 0 m] by simp
  then have "k < 32" using k(2) by (auto simp: bit_prefix_mask)
  have "m = prefix_mask (Suc k)"
  proof (rule bit_word_eqI)
    fix n
    assume n: "n < LENGTH(32)"
    show "bit m n \<longleftrightarrow> bit (prefix_mask (Suc k)) n"
    proof (cases "n = 31")
      case False
      then have "bit m n \<longleftrightarrow> bit (shl1 m) (Suc n)"
        using n by (simp add: bit_shl1)
      also have "\<dots> \<longleftrightarrow> bit (prefix_mask (Suc k)) n"
        using n False k(3) \<open>k < 32\<close> by (auto simp: bit_prefix_mask)
      finally show ?thesis .
    qed (use k(1) in \<open>simp add: bit_prefix_mask\<close>)
  qed
  then show "\<exists>k \<le> 32. m = prefix_mask k" using \<open>k < 32\<close> by (metis Suc_leI)
qed

lemma mask_loop_result:
  "mask_loop n m = Some b \<Longrightarrow> b \<longleftrightarrow> (\<exists>k \<le> 32. m = prefix_mask k)"
proof (induction n arbitrary: m)
  case (Suc n)
  show ?case
  proof (cases "m = 0")
    case True
    then have "m = prefix_mask 0" by simp
    then show ?thesis using Suc.prems True by auto
  next
    case False
    then show ?thesis
      using Suc prefix_mask_step [OF False] by (auto simp: top_bit split: if_splits)
  qed
qed simp

lemma mask_loop_fuel: "push_bit n m = 0 \<Longrightarrow> mask_loop (Suc n) m \<noteq> None"
proof (induction n arbitrary: m)
  case (Suc n)
  have "push_bit n (shl1 m) = 0"
    using Suc.prems by (simp add: push_bit_shl1)
  from Suc.IH [OF this] show ?case by (cases "m = 0") auto
qed simp

lemma mask_loop_total: "\<exists>b. mask_loop 33 m = Some b"
proof -
  have "push_bit 32 m = 0"
    by (rule bit_word_eqI) (auto simp: bit_simps)
  from mask_loop_fuel [OF this] show ?thesis by (simp add: eval_nat_numeral)
qed

lemma mask_loop_33: "the (mask_loop 33 m) \<longleftrightarrow> (\<exists>k \<le> 32. m = prefix_mask k)"
  using mask_loop_total [of m] mask_loop_result [of 33 m] by auto

lemma net_word_bytes:
  "net_word u = 0 \<longleftrightarrow> CheckAddr IPV4_ADDR_ALL_ZEROS u"
  "net_word u = - 1 \<longleftrightarrow> CheckAddr IPV4_ADDR_ALL_ONES u"
proof -
  have inj: "net_word u = net_word v \<longleftrightarrow> u = v" for v
    using uaddr_of_dw_dwAddr [of True] by (metis dwAddr_def net_word_def)
  have "net_word \<lparr>auc0 = 0, auc1 = 0, auc2 = 0, auc3 = 0\<rparr> = 0"
    "net_word \<lparr>auc0 = 0xFF, auc1 = 0xFF, auc2 = 0xFF, auc3 = 0xFF\<rparr> = - 1"
    by (simp_all add: net_word_def word_of_bytes_def)
  then show "net_word u = 0 \<longleftrightarrow> CheckAddr IPV4_ADDR_ALL_ZEROS u"
    "net_word u = - 1 \<longleftrightarrow> CheckAddr IPV4_ADDR_ALL_ONES u"
    using inj [of "\<lparr>auc0 = 0, auc1 = 0, auc2 = 0, auc3 = 0\<rparr>"]
      inj [of "\<lparr>auc0 = 0xFF, auc1 = 0xFF, auc2 = 0xFF, auc3 = 0xFF\<rparr>"]
    by (cases u; simp add: uaddr_bytes_def)+
qed

lemma prefix_loop_prefix_mask:
  "k \<le> 32 \<Longrightarrow> prefix_loop n len (prefix_mask k) = len + min n k"
proof (induction n arbitrary: k len)
  case (Suc n)
  then show ?case
    by (cases k) (auto simp: prefix_mask_nonzero push_prefix_mask)
qed simp

lemma prefix_mask_32: "prefix_mask 32 = - 1"
  by (rule bit_word_eqI) (simp add: bit_prefix_mask)

lemma IsValidMask_iff:
  "IsValidMask big a \<longleftrightarrow> (\<exists>k. 0 < k \<and> k < 32 \<and> net_word (uMask a) = prefix_mask k)"
proof -
  have "IsValidMask big a \<longleftrightarrow> net_word (uMask a) \<noteq> 0 \<and> net_word (uMask a) \<noteq> - 1 \<and>
          (\<exists>k \<le> 32. net_word (uMask a) = prefix_mask k)"
    unfolding IsValidMask_def mask_loop_33 N2HL_net_word net_word_bytes by auto
  also have "\<dots> \<longleftrightarrow> (\<exists>k. 0 < k \<and> k < 32 \<and> net_word (uMask a) = prefix_mask k)" (is "?l \<longleftrightarrow> ?r")
  proof
    assume ?l
    then obtain k where "k \<le> 32" "net_word (uMask a) = prefix_mask k" "k \<noteq> 0" "k \<noteq> 32"
      by (metis prefix_mask_0 prefix_mask_32)
    then show ?r by (intro exI [of _ k]) auto
  next
    assume ?r
    then obtain k where k: "0 < k" "k < 32" "net_word (uMask a) = prefix_mask k" by blast
    have "\<not> bit (prefix_mask k) 0" using k by (simp add: bit_prefix_mask)
    then have "prefix_mask k \<noteq> - 1" by auto
    then show ?l using k prefix_mask_nonzero by (metis less_imp_le)
  qed
  finally show ?thesis .
qed

section \<open>Text form\<close>

definition dec_value :: "string \<Rightarrow> nat" where
  "dec_value f = foldl (\<lambda>v c. v * 10 + the (dec_digit c)) 0 f"

lemma foldl_dec_mono: "v \<le> foldl (\<lambda>v c. v * 10 + the (dec_digit c)) v f"
proof (induction f arbitrary: v)
  case (Cons c f)
  have "v \<le> v * 10 + the (dec_digit c)" by simp
  then show ?case using Cons.IH [of "v * 10 + the (dec_digit c)"] by simp
qed simp

lemma dec_digit_le: "dec_digit c = Some d \<Longrightarrow> d \<le> 9"
  by (auto simp: dec_digit_def split: if_splits)

lemma ip_value_field:
  assumes "\<forall>c \<in> set f. dec_digit c \<noteq> None" and "9 < p" and "v \<le> 255"
  shows "ip_value v (map (symbol ip_conf) f @ p # rest) =
           (if foldl (\<lambda>v c. v * 10 + the (dec_digit c)) v f \<le> 255
            then Some (of_nat (foldl (\<lambda>v c. v * 10 + the (dec_digit c)) v f), p # rest) else None)"
  using assms
proof (induction f arbitrary: v)
  case (Cons c f)
  obtain d where d: "dec_digit c = Some d" "d \<le> 9"
    using Cons.prems(1) dec_digit_le [of c] by auto
  show ?case
    using Cons.IH [of "v * 10 + d"] Cons.prems d foldl_dec_mono [of "v * 10 + d" f]
    by (auto simp: symbol_def ip_conf_def)
qed simp

interpretation ip: addr_text ip_conf "ip_value 0" "\<lambda>f. dec_value f \<le> 255" "\<lambda>f. of_nat (dec_value f)"
proof
  fix f p rest
  assume "\<forall>c \<in> set f. sc_digit ip_conf c \<noteq> None"
    and "p = sc_sep_code ip_conf \<or> p = sc_nul_code ip_conf"
  then show "ip_value 0 (map (symbol ip_conf) f @ p # rest) =
               (if dec_value f \<le> 255 then Some (of_nat (dec_value f), p # rest) else None)"
    using ip_value_field [of f p 0 rest] by (auto simp: ip_conf_def dec_value_def)
qed (simp_all add: ip_conf_def dec_digit_def)

text \<open>The reading of a text in terms of its dot-separated fields.\<close>

definition ip_text_ok :: "string \<Rightarrow> bool" where
  "ip_text_ok cs \<longleftrightarrow>
     (\<forall>c \<in> set cs. dec_digit c \<noteq> None \<or> c = CHR ''.'') \<and> length cs < 45 \<and>
     length (split_at (CHR ''.'') cs) = 4 \<and> list_all (\<lambda>f. dec_value f \<le> 255) (split_at (CHR ''.'') cs)"

lemma String2IP_fields:
  "String2IP s =
     (let cs = skip_blanks (c_str s) in
      if s \<noteq> [] \<and> ip_text_ok cs
      then Some (uaddr_of_bytes (map (\<lambda>f. of_nat (dec_value f)) (split_at (CHR ''.'') cs)))
      else None)"
proof -
  let ?cs = "skip_blanks (c_str s)"
  have conf: "sc_sep ip_conf = CHR ''.''" "sc_digit ip_conf = dec_digit"
    "sc_max_digits ip_conf = 46" "sc_max_punct ip_conf = 10"
    by (simp_all add: ip_conf_def)
  show ?thesis
  proof (cases "addr_scan ip_conf ?cs [] []")
    case None
    then show ?thesis
      using ip.scan_Some_iff [of ?cs]
      by (auto simp: String2IP_def ip_text_ok_def Let_def legal_def conf)
  next
    case (Some dp)
    obtain digits punct where dp: "dp = (digits, punct)" by (cases dp)
    note parse = ip.parse_result [OF Some [unfolded dp]]
    have ok: "legal ip_conf ?cs" "length ?cs + 1 < 46"
      using Some ip.scan_Some_iff [of ?cs] by (auto simp: conf)
    have tw: "list_all P xs \<Longrightarrow> takeWhile P xs = xs" for P and xs :: "string list"
      by (simp add: list_all_iff)
    show ?thesis
      using Some dp ok parse(1) parse(2) [of "[]"]
      by (auto simp: String2IP_def ip_text_ok_def Let_def legal_def conf tw split: if_splits bool.split)
  qed
qed

lemma dec_digit_char: "d < 10 \<Longrightarrow> dec_digit (digit_char d) = Some d"
proof -
  assume "d < 10"
  then consider "d = 0" | "d = 1" | "d = 2" | "d = 3" | "d = 4" | "d = 5" | "d = 6" | "d = 7"
    | "d = 8" | "d = 9"
    by atomize_elim auto
  then show ?thesis by cases (simp_all add: digit_char_def dec_digit_def)
qed

lemma show_dec_digits: "c \<in> set (show_dec n) \<Longrightarrow> dec_digit c \<noteq> None"
proof (induction n rule: show_dec.induct)
  case (1 n)
  show ?case
  proof (cases "n < 10")
    case True
    then show ?thesis using 1(2) by (simp add: show_dec.simps [of n] dec_digit_char)
  next
    case False
    then have "c \<in> set (show_dec (n div 10)) \<or> c = digit_char (n mod 10)"
      using 1(2) by (auto simp: show_dec.simps [of n])
    then show ?thesis using 1(1) [OF False] by (auto simp: dec_digit_char)
  qed
qed

lemma dec_value_show_dec: "dec_value (show_dec n) = n"
proof (induction n rule: show_dec.induct)
  case (1 n)
  then show ?case
    by (cases "n < 10") (simp_all add: show_dec.simps [of n] dec_value_def dec_digit_char)
qed

lemma length_show_dec: "n < 1000 \<Longrightarrow> length (show_dec n) \<le> 3"
  by (simp add: show_dec.simps [of n] show_dec.simps [of "n div 10"]
      show_dec.simps [of "n div 10 div 10"])

lemma byte_le_255: "unat (b :: uint8) \<le> 255"
proof -
  have "unat b < 2 ^ LENGTH(8)" by (rule unsigned_less)
  then show ?thesis by simp
qed

lemma byte_less_1000: "unat (b :: uint8) < 1000"
  using byte_le_255 [of b] by simp

lemma dot_not_digit: "CHR ''.'' \<notin> set (show_dec n)"
  using show_dec_digits [of "CHR ''.''" n] by (auto simp: dec_digit_def)

lemma split_show_uaddr:
  "split_at (CHR ''.'') (show_uaddr u) =
     [show_dec (unat (auc0 u)), show_dec (unat (auc1 u)),
      show_dec (unat (auc2 u)), show_dec (unat (auc3 u))]"
  by (simp add: show_uaddr_def split_at_append split_at_no_sep dot_not_digit)

lemma show_uaddr_chars:
  assumes "c \<in> set (show_uaddr u)"
  shows "dec_digit c \<noteq> None \<or> c = CHR ''.''"
  using assms show_dec_digits by (auto simp: show_uaddr_def)

lemma length_show_uaddr: "length (show_uaddr u) \<le> 15"
  using length_show_dec [OF byte_less_1000 [of "auc0 u"]]
    length_show_dec [OF byte_less_1000 [of "auc1 u"]]
    length_show_dec [OF byte_less_1000 [of "auc2 u"]]
    length_show_dec [OF byte_less_1000 [of "auc3 u"]]
  by (simp add: show_uaddr_def)

lemma String2IP_show: "String2IP (show_uaddr u) = Some u"
proof -
  have chars: "\<forall>c \<in> set (show_uaddr u). c \<noteq> CHR 0x00 \<and> c \<noteq> CHR '' '' \<and> c \<noteq> CHR 0x09"
    using show_uaddr_chars by (fastforce simp: dec_digit_def)
  have ok: "ip_text_ok (show_uaddr u)"
    using show_uaddr_chars [of _ u] length_show_uaddr [of u] split_show_uaddr [of u]
    by (auto simp: ip_text_ok_def dec_value_show_dec byte_le_255)
  have "show_uaddr u \<noteq> []" by (simp add: show_uaddr_def)
  then show ?thesis
    using ok
    by (simp add: String2IP_fields Let_def skip_c_str_id [OF chars] split_show_uaddr
        dec_value_show_dec uaddr_of_bytes_def)
qed

section \<open>Address classes\<close>

lemma high_nibble: "unat (b AND 0xF0 :: uint8) = 16 * (unat b div 16)"
proof -
  have "(0xF0 :: uint8) = push_bit 4 (mask 4)"
    by (simp add: mask_eq_exp_minus_1 push_bit_eq_mult)
  moreover have "b AND push_bit 4 (mask 4) = push_bit 4 (drop_bit 4 b)"
    by (auto intro!: bit_word_eqI simp: bit_simps)
  ultimately have "b AND 0xF0 = push_bit 4 (drop_bit 4 b)" by simp
  then have "b AND 0xF0 = (b div 16) * 16"
    by (simp add: push_bit_eq_mult drop_bit_eq_div)
  moreover have "unat (b div 16) * unat (16 :: uint8) < 2 ^ LENGTH(8)"
    using byte_le_255 [of b] by (simp add: unat_div)
  ultimately show ?thesis
    by (simp add: unat_mult_lem [THEN iffD1] unat_div mult.commute)
qed

lemma class_checks:
  "CheckAddr IPV4_ADDR_MULTICAST u \<longleftrightarrow> 224 \<le> unat (auc0 u)"
  "CheckAddr IPV4_ADDR_RESERVED u \<longleftrightarrow> 240 \<le> unat (auc0 u)"
  by (auto simp: word_le_nat_alt high_nibble)

lemma IsValidHostAddr_iff:
  "IsValidHostAddr a \<longleftrightarrow> 0 < unat (auc0 (uIP a)) \<and> unat (auc0 (uIP a)) \<le> 223 \<and> unat (auc0 (uIP a)) \<noteq> 127"
proof -
  have n: "(auc0 (uIP a) = 0) = (unat (auc0 (uIP a)) = 0)"
     "(auc0 (uIP a) = 127) = (unat (auc0 (uIP a)) = 127)"
     "(auc0 (uIP a) = 255) = (unat (auc0 (uIP a)) = 255)"
    by (simp_all add: word_unat_eq_iff)
  show ?thesis
  unfolding IsValidHostAddr_def class_checks by (auto simp: uaddr_bytes_def n)
qed

lemma and_less: "(ip AND m) < ip \<longleftrightarrow> ip AND NOT m \<noteq> (0 :: uint32)"
proof -
  have "ip AND m = ip \<longleftrightarrow> ip AND NOT m = 0"
    by (auto simp: bit_eq_iff bit_simps)
  then show ?thesis by (metis word_and_le1 order_less_le and.commute word_le_less_eq)
qed

lemma less_or: "ip < (ip OR NOT m) \<longleftrightarrow> ip AND NOT m \<noteq> (NOT m :: uint32)"
proof -
  have "ip OR NOT m = ip \<longleftrightarrow> ip AND NOT m = NOT m"
    by (auto simp: bit_eq_iff bit_simps)
  then show ?thesis by (metis le_word_or2 order_less_le or.commute)
qed

lemma net_ones: "(ip OR NOT m) = 0xFFFFFFFF \<longleftrightarrow> ip AND m = (m :: uint32)"
proof -
  have "ip OR NOT m = - 1 \<longleftrightarrow> ip AND m = m" by (auto simp: bit_eq_iff bit_simps)
  moreover have "(0xFFFFFFFF :: uint32) = - 1" by simp
  ultimately show ?thesis by metis
qed

lemma IsValid_iff:
  "IsValid big a \<longleftrightarrow>
     (let ip = net_word (uIP a); m = net_word (uMask a); c = unat (auc0 (uIP a)) in
      (\<exists>k. 0 < k \<and> k < 32 \<and> m = prefix_mask k) \<and>
      0 < c \<and> c \<le> 223 \<and> c \<noteq> 127 \<and> ip AND m < ip \<and> ip < ip OR NOT m \<and> ip AND m \<noteq> m)"
  unfolding IsValid_def N2HL_net_word IsValidMask_iff IsValidHostAddr_iff Let_def and_less less_or
  using net_ones [of "net_word (uIP a)" "net_word (uMask a)"]
  by auto

section \<open>Properties\<close>

text \<open>The text form is read back: setting an address from the two strings that \<open>IP2String\<close>
  gives for \<open>a\<close> stores exactly \<open>a\<close>, whatever the address held before.\<close>

theorem Set_text_IP2String:
  "Set_text (fst (IP2String a)) (snd (IP2String a)) b = (0, a)"
  by (cases a; cases b) (simp add: Set_text_def IP2String_def String2IP_show)

text \<open>C39. \<open>String2IP\<close> accepts a text exactly when, up to its first NUL and after leading blanks, it
  has fewer than 45 characters, only digits and dots, and four dot-separated fields of value at most
  255; the bytes are the values of the fields. Empty fields and leading zeros are accepted.\<close>

theorem String2IP_reads_fields:
  "String2IP s = Some u \<longleftrightarrow>
     (\<exists>f0 f1 f2 f3. let cs = skip_blanks (c_str s) in
        s \<noteq> [] \<and> length cs < 45 \<and> (\<forall>c \<in> set cs. dec_digit c \<noteq> None \<or> c = CHR ''.'') \<and>
        split_at (CHR ''.'') cs = [f0, f1, f2, f3] \<and>
        dec_value f0 \<le> 255 \<and> dec_value f1 \<le> 255 \<and> dec_value f2 \<le> 255 \<and> dec_value f3 \<le> 255 \<and>
        u = \<lparr>auc0 = of_nat (dec_value f0), auc1 = of_nat (dec_value f1),
             auc2 = of_nat (dec_value f2), auc3 = of_nat (dec_value f3)\<rparr>)"
  unfolding String2IP_fields Let_def ip_text_ok_def
  by (auto simp: uaddr_of_bytes_def length_Suc_conv eval_nat_numeral)

theorem String2IP_reads_fields_witness:
  "String2IP '' 1...04'' = Some \<lparr>auc0 = 1, auc1 = 0, auc2 = 0, auc3 = 4\<rparr>"
  unfolding String2IP_reads_fields
  by (rule exI [of _ "''1''"], rule exI [of _ "[]"], rule exI [of _ "[]"], rule exI [of _ "''04''"])
    (simp add: c_str_def dec_digit_def dec_value_def)

text \<open>On a host of either byte order, \<open>N2HL\<close> of the address word is the number the four bytes
  spell in network order, and \<open>H2NL\<close> undoes it.\<close>

theorem N2HL_byte_order:
  "N2HL big (dwAddr big u) = word_of_bytes (auc0 u) (auc1 u) (auc2 u) (auc3 u) \<and>
   H2NL big (N2HL big (dwAddr big u)) = dwAddr big u \<and>
   uaddr_of_dw big (dwAddr big u) = u"
  using N2HL_net_word [of big u] H2NL_N2HL [of big "dwAddr big u"]
  by (simp add: net_word_def uaddr_of_dw_dwAddr)

text \<open>C40. \<open>IsValidMask\<close> accepts exactly the masks of \<open>k\<close> leading ones with \<open>0 < k < 32\<close>, and then
  \<open>GetMaskPrefixLen\<close> is that \<open>k\<close>; the loop behind it always ends.\<close>

theorem IsValidMask_prefix:
  "(IsValidMask big a \<longleftrightarrow> (\<exists>k. 0 < k \<and> k < 32 \<and> net_word (uMask a) = NOT (mask (32 - k)))) \<and>
   (k \<le> 32 \<longrightarrow> net_word (uMask a) = NOT (mask (32 - k)) \<longrightarrow> GetMaskPrefixLen big a = k) \<and>
   mask_loop 33 (N2HL big (dwAddr big (uMask a))) \<noteq> None"
  using IsValidMask_iff [of big a] prefix_loop_prefix_mask [of k 32 0] mask_loop_total
  by (auto simp: prefix_mask_def GetMaskPrefixLen_def H2NL_eq_N2HL N2HL_net_word)

theorem IsValidMask_prefix_witness:
  "GetMaskPrefixLen False
     \<lparr>uIP = uaddr_zero, uMask = \<lparr>auc0 = 255, auc1 = 255, auc2 = 240, auc3 = 0\<rparr>\<rparr> = 20"
  using IsValidMask_prefix
    [of False "\<lparr>uIP = uaddr_zero, uMask = \<lparr>auc0 = 255, auc1 = 255, auc2 = 240, auc3 = 0\<rparr>\<rparr>" 20]
  by (simp add: net_word_def word_of_bytes_def mask_eq_exp_minus_1)

text \<open>\<open>IsValid\<close> accepts exactly the host addresses: a proper mask, first byte 1 to 223 and not
  127, the address strictly between the network address and the broadcast address of its subnet, and
  a network part that is not all ones.\<close>

theorem IsValid_host_address:
  "IsValid big a \<longleftrightarrow>
     (let ip = net_word (uIP a); m = net_word (uMask a); c = unat (auc0 (uIP a)) in
      (\<exists>k. 0 < k \<and> k < 32 \<and> m = NOT (mask (32 - k))) \<and>
      0 < c \<and> c \<le> 223 \<and> c \<noteq> 127 \<and> ip AND m < ip \<and> ip < ip OR NOT m \<and> ip AND m \<noteq> m)"
  using IsValid_iff [of big a] by (simp add: prefix_mask_def)

end
