(* ===== verification/Ipv4AddrRange.thy ===== *)
theory Ipv4AddrRange
  imports Ipv4Addr RangeContainer
begin

text \<open>
  \<open>CIPv4AddrRange\<close> (\<open>ipv4_addr_range.h/.cpp\<close>): the container of IPv4 address ranges. Addresses
  are stored in network byte order and computed on as host numbers, so every operation takes the
  byte order \<open>big\<close> of the host.
\<close>

section \<open>State and operations\<close>

record TIPV4AddrRangeItem =
  tIPStart :: TIPv4Addr
  tIPEnd :: TIPv4Addr

definition IsValidIPv4Range :: "bool \<Rightarrow> TIPV4AddrRangeItem \<Rightarrow> bool" where
  "IsValidIPv4Range big r =
     (if \<not> IsValid big (tIPStart r) then False
      else if \<not> IsValid big (tIPEnd r) then False
      else if GetMaskPrefixLen big (tIPStart r) \<noteq> GetMaskPrefixLen big (tIPEnd r) then False
      else let s = N2HL big (dwAddr big (uIP (tIPStart r)));
               e = N2HL big (dwAddr big (uIP (tIPEnd r)))
           in if s > e then False else True)"

definition IsSameSubnet :: "bool \<Rightarrow> TIPV4AddrRangeItem \<Rightarrow> bool" where
  "IsSameSubnet big r \<longleftrightarrow>
     (dwAddr big (uIP (tIPStart r)) AND dwAddr big (uMask (tIPStart r))) =
     (dwAddr big (uIP (tIPEnd r)) AND dwAddr big (uMask (tIPEnd r)))"

definition ip_to_range :: "bool \<Rightarrow> TIPV4AddrRangeItem \<Rightarrow> TRange" where
  "ip_to_range big r =
     \<lparr>dwStart = N2HL big (dwAddr big (uIP (tIPStart r))),
      dwEnd = N2HL big (dwAddr big (uIP (tIPEnd r)))\<rparr>"

text \<open>Every merged range takes the masks of the range that was added or deleted.\<close>

definition ip_of_range :: "bool \<Rightarrow> TIPV4AddrRangeItem \<Rightarrow> TRange \<Rightarrow> TIPV4AddrRangeItem" where
  "ip_of_range big r x =
     \<lparr>tIPStart = \<lparr>uIP = uaddr_of_dw big (H2NL big (dwStart x)), uMask = uMask (tIPStart r)\<rparr>,
      tIPEnd = \<lparr>uIP = uaddr_of_dw big (H2NL big (dwEnd x)), uMask = uMask (tIPEnd r)\<rparr>\<rparr>"

definition CIPv4AddrRange_AddValidRange ::
  "TIPV4AddrRangeItem \<Rightarrow> TIPV4AddrRangeItem list \<Rightarrow> rc \<times> TIPV4AddrRangeItem list" where
  "CIPv4AddrRange_AddValidRange r s = (0, s @ [r])"

definition CIPv4AddrRange_AddRange ::
  "bool \<Rightarrow> TIPV4AddrRangeItem \<Rightarrow> TIPV4AddrRangeItem list \<Rightarrow> rc \<times> TIPV4AddrRangeItem list" where
  "CIPv4AddrRange_AddRange big r s =
     (if \<not> IsValidIPv4Range big r then (- 1, s)
      else if s = [] then (0, s @ [r])
      else let ra = ra_load (map (ip_to_range big) s);
               ra1 = snd (AddRange (ip_to_range big r) ra);
               ra2 = snd (MergeSortColl ra1)
           in if GetMergedRangeColl ra2 = [] then (- 1, s)
              else (0, map (ip_of_range big r) (GetMergedRangeColl ra2)))"

definition CIPv4AddrRange_DelRange ::
  "bool \<Rightarrow> TIPV4AddrRangeItem \<Rightarrow> TIPV4AddrRangeItem list \<Rightarrow> rc \<times> TIPV4AddrRangeItem list" where
  "CIPv4AddrRange_DelRange big r s =
     (if \<not> IsValidIPv4Range big r then (- 1, s)
      else let ra = ra_load (map (ip_to_range big) s);
               (nRet, ra1) = DeleteRange (ip_to_range big r) ra
           in if 0 \<noteq> nRet then (- 1, s)
              else if GetMergedRangeColl ra1 = [] then (0, [])
              else (0, map (ip_of_range big r) (GetMergedRangeColl ra1)))"

section \<open>The addresses of a container\<close>

text \<open>Addresses as numbers in network order; the set does not depend on the host.\<close>

definition ip_num :: "UNIPv4AddrType \<Rightarrow> nat" where
  "ip_num u = unat (net_word u)"

definition ip_item_set :: "TIPV4AddrRangeItem \<Rightarrow> nat set" where
  "ip_item_set r = {ip_num (uIP (tIPStart r)) .. ip_num (uIP (tIPEnd r))}"

definition ips :: "TIPV4AddrRangeItem list \<Rightarrow> nat set" where
  "ips s = (\<Union>r \<in> set s. ip_item_set r)"

text \<open>The addresses of a valid range lie in 1.0.0.0 to 223.255.255.255.\<close>

definition ip_bound :: "nat set" where
  "ip_bound = {0x01000000..0xDFFFFFFF}"

definition ip_inv :: "TIPV4AddrRangeItem list \<Rightarrow> bool" where
  "ip_inv s \<longleftrightarrow> apart (map (ip_to_range False) s) \<and> ips s \<subseteq> ip_bound"

lemma ip_to_range_net:
  "ip_to_range big r = \<lparr>dwStart = net_word (uIP (tIPStart r)), dwEnd = net_word (uIP (tIPEnd r))\<rparr>"
  by (simp add: ip_to_range_def N2HL_net_word)

lemma range_set_ip [simp]: "range_set (ip_to_range big r) = ip_item_set r"
  by (simp add: range_set_def ip_to_range_net ip_item_set_def ip_num_def)

lemma coll_set_ips [simp]: "coll_set (map (ip_to_range big) s) = ips s"
  by (simp add: coll_set_def ips_def)

lemma ip_inv_host: "ip_inv s \<longleftrightarrow> apart (map (ip_to_range big) s) \<and> ips s \<subseteq> ip_bound"
proof -
  have "ip_to_range big = ip_to_range False"
    by (auto simp: fun_eq_iff ip_to_range_net)
  then show ?thesis by (simp add: ip_inv_def)
qed

lemma dwAddr_uaddr_of_dw: "dwAddr big (uaddr_of_dw big w) = w"
proof (rule bit_word_eqI)
  fix n
  assume "n < LENGTH(32)"
  then show "bit (dwAddr big (uaddr_of_dw big w)) n \<longleftrightarrow> bit w n"
    by (cases "n < 8"; cases "n < 16"; cases "n < 24")
      (auto simp: dwAddr_def uaddr_of_dw_def Let_def bit_word_of_bytes bit_ucast_iff bit_drop_bit_eq)
qed

lemma ip_range_roundtrip [simp]: "ip_to_range big (ip_of_range big r x) = x"
  using H2NL_N2HL [of big]
  by (simp add: ip_to_range_def ip_of_range_def dwAddr_uaddr_of_dw H2NL_eq_N2HL)

lemma ip_range_roundtrip_map [simp]: "ip_to_range big \<circ> ip_of_range big r = id"
  by (simp add: fun_eq_iff)

lemma ips_of_ranges: "ips (map (ip_of_range big r) rs) = coll_set rs"
  using coll_set_ips [of big "map (ip_of_range big r) rs"] by simp

lemma net_word_high: "unat (net_word u) div 2 ^ 24 = unat (auc0 u)"
proof -
  have small: "unat (net_word u) div 2 ^ 24 < 2 ^ 8"
  proof -
    have "unat (net_word u) < 2 ^ LENGTH(32)" by (rule unsigned_less)
    then show ?thesis by (simp add: less_mult_imp_div_less)
  qed
  have "unat (auc0 u) = unat (ucast (drop_bit 24 (net_word u)) :: uint8)"
    by (simp add: net_word_def bytes_of_word_of_bytes)
  also have "\<dots> = unat (net_word u) div 2 ^ 24"
    using small by (simp add: unsigned_ucast_eq unsigned_drop_bit_eq drop_bit_eq_div
        take_bit_nat_eq_self unsigned_take_bit_eq unat_div)
  finally show ?thesis by simp
qed

lemma IsValid_bound: "IsValid big a \<Longrightarrow> ip_num (uIP a) \<in> ip_bound"
  using net_word_high [of "uIP a"] by (auto simp: IsValid_iff Let_def ip_bound_def ip_num_def)

lemma IsValidIPv4Range_range:
  assumes "IsValidIPv4Range big r"
  shows "valid_range (ip_to_range big' r)" and "ip_item_set r \<subseteq> ip_bound"
proof -
  have "IsValid big (tIPStart r)" "IsValid big (tIPEnd r)"
    and le: "net_word (uIP (tIPStart r)) \<le> net_word (uIP (tIPEnd r))"
    using assms by (auto simp: IsValidIPv4Range_def Let_def N2HL_net_word split: if_splits)
  then have "ip_num (uIP (tIPStart r)) \<in> ip_bound" "ip_num (uIP (tIPEnd r)) \<in> ip_bound"
    using IsValid_bound by blast+
  then show "ip_item_set r \<subseteq> ip_bound"
    by (auto simp: ip_item_set_def ip_bound_def)
  show "valid_range (ip_to_range big' r)"
    using le by (simp add: valid_range_def ip_to_range_net)
qed

section \<open>The container keeps the contract\<close>

lemma CIPv4AddrRange_AddRange_done:
  assumes "ip_inv s" and "IsValidIPv4Range big r"
  shows "fst (CIPv4AddrRange_AddRange big r s) = 0 \<and> ip_inv (snd (CIPv4AddrRange_AddRange big r s)) \<and>
         ips (snd (CIPv4AddrRange_AddRange big r s)) = ips s \<union> ip_item_set r"
proof (cases "s = []")
  case True
  then show ?thesis
    using assms(2) IsValidIPv4Range_range [OF assms(2)]
    by (auto simp: CIPv4AddrRange_AddRange_def ip_inv_def ips_def)
next
  case False
  let ?out = "GetMergedRangeColl (ra_added (map (ip_to_range big) s) (ip_to_range big r))"
  have s: "apart (map (ip_to_range big) s)" "coll_set (map (ip_to_range big) s) \<subseteq> ip_bound"
    and r: "valid_range (ip_to_range big r)" "range_set (ip_to_range big r) \<subseteq> ip_bound"
    using assms IsValidIPv4Range_range [OF assms(2)] by (auto simp: ip_inv_host [of s big])
  note out = added_set [OF s(1) r(1)]
  have "apart ?out"
    using added_canonical [OF s(1) s(2) [unfolded ip_bound_def] r(1) r(2) [unfolded ip_bound_def]]
    by (intro canonical_apart) simp
  moreover have "CIPv4AddrRange_AddRange big r s = (0, map (ip_of_range big r) ?out)"
    using False assms(2) out(2) by (simp add: CIPv4AddrRange_AddRange_def ra_added_def Let_def)
  ultimately show ?thesis
    using out(1) s(2) r(2) by (simp add: ip_inv_host [of _ big] ips_of_ranges)
qed

lemma CIPv4AddrRange_DelRange_done:
  assumes "ip_inv s" and "IsValidIPv4Range big r" and "ip_item_set r \<subseteq> ips s"
  shows "fst (CIPv4AddrRange_DelRange big r s) = 0 \<and> ip_inv (snd (CIPv4AddrRange_DelRange big r s)) \<and>
         ips (snd (CIPv4AddrRange_DelRange big r s)) = ips s - ip_item_set r"
proof -
  have s: "apart (map (ip_to_range big) s)" and r: "valid_range (ip_to_range big r)"
    using assms IsValidIPv4Range_range [OF assms(2)] by (auto simp: ip_inv_host [of s big])
  have ne: "map (ip_to_range big) s \<noteq> []"
    using assms(3) range_set_nonempty [OF r] by (auto simp: ips_def)
  have sub: "range_set (ip_to_range big r) \<subseteq> coll_set (map (ip_to_range big) s)"
    using assms(3) by simp
  note d = DeleteRange_loaded(1,3,4) [OF s r ne sub]
  have "snd (CIPv4AddrRange_DelRange big r s) =
          map (ip_of_range big r) (GetMergedRangeColl
            (snd (DeleteRange (ip_to_range big r) (ra_load (map (ip_to_range big) s)))))"
    and "fst (CIPv4AddrRange_DelRange big r s) = 0"
    using d(1) assms(2) by (simp_all add: CIPv4AddrRange_DelRange_def Let_def case_prod_beta)
  then show ?thesis
    using d(2,3) assms(1) by (auto simp: ip_inv_host [of _ big] ips_of_ranges)
qed

lemma CIPv4AddrRange_DelRange_missing:
  assumes "ip_inv s" and "IsValidIPv4Range big r" and "\<not> ip_item_set r \<subseteq> ips s"
  shows "snd (CIPv4AddrRange_DelRange big r s) = s \<and>
         fst (CIPv4AddrRange_DelRange big r s) = (if s = [] then 0 else - 1)"
proof (cases "s = []")
  case True
  then show ?thesis
    using assms(2) IsValidIPv4Range_range(1) [OF assms(2)]
    by (simp add: CIPv4AddrRange_DelRange_def DeleteRange_empty)
next
  case False
  have s: "apart (map (ip_to_range big) s)" and r: "valid_range (ip_to_range big r)"
    using assms IsValidIPv4Range_range [OF assms(2)] by (auto simp: ip_inv_host [of s big])
  have "fst (DeleteRange (ip_to_range big r) (ra_load (map (ip_to_range big) s))) = - 1"
    using DeleteRange_loaded(2) [OF s r] False assms(3) by simp
  then show ?thesis
    using False assms(2) by (simp add: CIPv4AddrRange_DelRange_def Let_def case_prod_beta)
qed

interpretation ip_range: range_container "IsValidIPv4Range big" ip_item_set ip_inv ips
  "CIPv4AddrRange_AddRange big" "CIPv4AddrRange_DelRange big" for big
proof
  show "snd (CIPv4AddrRange_DelRange big r s) = s \<and>
          (ips s \<noteq> {} \<longrightarrow> fst (CIPv4AddrRange_DelRange big r s) = - 1)"
    if "ip_inv s" "IsValidIPv4Range big r" "\<not> ip_item_set r \<subseteq> ips s" for s r
    using CIPv4AddrRange_DelRange_missing [OF that] by (auto simp: ips_def)
qed (simp_all add: CIPv4AddrRange_AddRange_done CIPv4AddrRange_DelRange_done,
    simp_all add: CIPv4AddrRange_AddRange_def CIPv4AddrRange_DelRange_def)

lemma IsValidIPv4Range_host: "IsValidIPv4Range big r = IsValidIPv4Range False r"
  by (simp add: IsValidIPv4Range_def IsValid_iff N2HL_net_word GetMaskPrefixLen_def H2NL_eq_N2HL)

lemma IsValidMask_prefix_len:
  assumes "IsValid big a"
  shows "0 < GetMaskPrefixLen big a" and "net_word (uMask a) = prefix_mask (GetMaskPrefixLen big a)"
proof -
  obtain k where k: "0 < k" "k < 32" "net_word (uMask a) = prefix_mask k"
    using assms by (auto simp: IsValid_iff Let_def)
  then have "GetMaskPrefixLen big a = k"
    using prefix_loop_prefix_mask [of k 32 0]
    by (simp add: GetMaskPrefixLen_def H2NL_eq_N2HL N2HL_net_word)
  with k show "0 < GetMaskPrefixLen big a" "net_word (uMask a) = prefix_mask (GetMaskPrefixLen big a)"
    by simp_all
qed

section \<open>Subnets\<close>

lemma and_prefix_mask: "(w AND prefix_mask k) = push_bit (32 - k) (drop_bit (32 - k) w)"
  by (rule bit_word_eqI) (auto simp: prefix_mask_def bit_simps)

lemma and_prefix_mask_eq:
  "(a AND prefix_mask k) = (b AND prefix_mask k) \<longleftrightarrow> unat a div 2 ^ (32 - k) = unat b div 2 ^ (32 - k)"
proof -
  have "(a AND prefix_mask k) = (b AND prefix_mask k) \<longleftrightarrow> drop_bit (32 - k) a = drop_bit (32 - k) b"
    (is "?l \<longleftrightarrow> ?r")
  proof
    assume ?l
    then have "drop_bit (32 - k) (push_bit (32 - k) (drop_bit (32 - k) a))
        = drop_bit (32 - k) (push_bit (32 - k) (drop_bit (32 - k) b))"
      by (simp add: and_prefix_mask)
    moreover have "drop_bit (32 - k) (push_bit (32 - k) (drop_bit (32 - k) w)) = drop_bit (32 - k) w" for w :: uint32
      by (rule bit_word_eqI) (auto simp: bit_simps dest: bit_imp_le_length)
    ultimately show ?r by simp
  qed (simp add: and_prefix_mask)
  also have "\<dots> \<longleftrightarrow> unat (drop_bit (32 - k) a) = unat (drop_bit (32 - k) b)"
    by (simp add: word_unat_eq_iff)
  finally show ?thesis unfolding unat_drop_bit_eq by (simp only: drop_bit_eq_div)
qed

lemma swap_bytes_and: "swap_bytes (a AND b) = (swap_bytes a AND swap_bytes b)"
  by (rule bit_word_eqI) (simp add: bit_swap_bytes bit_and_iff)

lemma IsSameSubnet_net:
  "IsSameSubnet big r \<longleftrightarrow>
     (net_word (uIP (tIPStart r)) AND net_word (uMask (tIPStart r))) =
     (net_word (uIP (tIPEnd r)) AND net_word (uMask (tIPEnd r)))"
proof -
  have d: "dwAddr big u = (if big then net_word u else swap_bytes (net_word u))" for u
    using N2HL_net_word [of big u] swap_bytes_twice [of "dwAddr False u"] by (auto simp: N2HL_host)
  show ?thesis
    by (auto simp: IsSameSubnet_def d simp flip: swap_bytes_and) (metis swap_bytes_twice)
qed

section \<open>Properties\<close>

text \<open>\<open>CIPv4AddrRange\<close> refines sets of addresses: on a host of either byte order, after any
  sequence of \<open>AddRange\<close> and \<open>DelRange\<close> calls the container holds exactly the addresses of the set
  specification, its ranges are pairwise separated, and all addresses are unicast.\<close>

theorem CIPv4AddrRange_history:
  assumes "ip_inv s"
  shows "ips (run_ops (CIPv4AddrRange_AddRange big) (CIPv4AddrRange_DelRange big) ops s) =
           spec_run (IsValidIPv4Range big) ip_item_set ops (ips s) \<and>
         ip_inv (run_ops (CIPv4AddrRange_AddRange big) (CIPv4AddrRange_DelRange big) ops s) \<and>
         spec_run (IsValidIPv4Range big) ip_item_set ops (ips s) =
           spec_run (IsValidIPv4Range (\<not> big)) ip_item_set ops (ips s)"
proof -
  have "IsValidIPv4Range big = IsValidIPv4Range (\<not> big)"
    using IsValidIPv4Range_host [of big] IsValidIPv4Range_host [of "\<not> big"] by (auto simp: fun_eq_iff)
  then show ?thesis
    using ip_range.run_refines [OF assms] by simp
qed

theorem CIPv4AddrRange_history_witness:
  "ips (run_ops (CIPv4AddrRange_AddRange False) (CIPv4AddrRange_DelRange False)
     [OpAdd \<lparr>tIPStart = \<lparr>uIP = \<lparr>auc0 = 10, auc1 = 0, auc2 = 0, auc3 = 5\<rparr>,
                  uMask = \<lparr>auc0 = 255, auc1 = 255, auc2 = 255, auc3 = 0\<rparr>\<rparr>,
      tIPEnd = \<lparr>uIP = \<lparr>auc0 = 10, auc1 = 0, auc2 = 0, auc3 = 9\<rparr>,
                uMask = \<lparr>auc0 = 255, auc1 = 255, auc2 = 255, auc3 = 0\<rparr>\<rparr>\<rparr>] []) =
   {0x0A000005..0x0A000009}"
proof -
  let ?r = "\<lparr>tIPStart = \<lparr>uIP = \<lparr>auc0 = 10, auc1 = 0, auc2 = 0, auc3 = 5\<rparr>,
                  uMask = \<lparr>auc0 = 255, auc1 = 255, auc2 = 255, auc3 = 0\<rparr>\<rparr>,
      tIPEnd = \<lparr>uIP = \<lparr>auc0 = 10, auc1 = 0, auc2 = 0, auc3 = 9\<rparr>,
                uMask = \<lparr>auc0 = 255, auc1 = 255, auc2 = 255, auc3 = 0\<rparr>\<rparr>\<rparr>"
  have "ip_inv []" "ips [] = {}" by (simp_all add: ip_inv_def ips_def)
  moreover have "IsValidIPv4Range False ?r" by code_simp
  moreover have "ip_item_set ?r = {0x0A000005..0x0A000009}"
    by (simp add: ip_item_set_def ip_num_def net_word_def word_of_bytes_def)
  ultimately show ?thesis
    using CIPv4AddrRange_history [of "[]" False "[OpAdd ?r]"] by simp
qed

text \<open>A valid range whose ends are in the same subnet lies in that subnet: \<open>IsSameSubnet\<close> on the
  two ends is enough for every address between them, on a host of either byte order.\<close>

theorem IsSameSubnet_covers:
  assumes "IsValidIPv4Range big r" and "IsSameSubnet big r" and "n \<in> ip_item_set r"
  shows "(of_nat n AND net_word (uMask (tIPStart r))) =
         (net_word (uIP (tIPStart r)) AND net_word (uMask (tIPStart r)))"
proof -
  let ?a = "net_word (uIP (tIPStart r))" and ?b = "net_word (uIP (tIPEnd r))"
  have v: "IsValid big (tIPStart r)" "IsValid big (tIPEnd r)"
    and eq: "GetMaskPrefixLen big (tIPStart r) = GetMaskPrefixLen big (tIPEnd r)"
    using assms(1) by (auto simp: IsValidIPv4Range_def Let_def split: if_splits)
  obtain k where k: "net_word (uMask (tIPStart r)) = prefix_mask k"
    "net_word (uMask (tIPEnd r)) = prefix_mask k"
    using IsValidMask_prefix_len(2) [OF v(1)] IsValidMask_prefix_len(2) [OF v(2)] eq by metis
  have ab: "unat ?a \<le> n" "n \<le> unat ?b"
    using assms(3) by (auto simp: ip_item_set_def ip_num_def)
  then have n: "unat (of_nat n :: uint32) = n"
    using unat32_less [of ?b] by (intro unat_of_nat32) simp
  have "unat ?a div 2 ^ (32 - k) = unat ?b div 2 ^ (32 - k)"
    using assms(2) by (simp add: IsSameSubnet_net k and_prefix_mask_eq)
  with div_le_mono [OF ab(1), of "2 ^ (32 - k)"] div_le_mono [OF ab(2), of "2 ^ (32 - k)"]
  have "n div 2 ^ (32 - k) = unat ?a div 2 ^ (32 - k)"
    by linarith
  then show ?thesis
    by (simp add: k and_prefix_mask_eq n)
qed

theorem IsSameSubnet_covers_witness:
  "(0x0A000007 AND 0xFFFFFF00 :: uint32) = 0x0A000000 AND 0xFFFFFF00"
proof -
  let ?r = "\<lparr>tIPStart = \<lparr>uIP = \<lparr>auc0 = 10, auc1 = 0, auc2 = 0, auc3 = 5\<rparr>,
                  uMask = \<lparr>auc0 = 255, auc1 = 255, auc2 = 255, auc3 = 0\<rparr>\<rparr>,
      tIPEnd = \<lparr>uIP = \<lparr>auc0 = 10, auc1 = 0, auc2 = 0, auc3 = 9\<rparr>,
                uMask = \<lparr>auc0 = 255, auc1 = 255, auc2 = 255, auc3 = 0\<rparr>\<rparr>\<rparr>"
  have "IsValidIPv4Range False ?r" "IsSameSubnet False ?r" by code_simp+
  moreover have "0x0A000007 \<in> ip_item_set ?r"
    by (simp add: ip_item_set_def ip_num_def net_word_def word_of_bytes_def)
  ultimately show ?thesis
    using IsSameSubnet_covers [of False ?r "0x0A000007"]
    by (simp add: net_word_def word_of_bytes_def)
qed

end
