(* ===== verification/Ipv4Db.thy ===== *)
theory Ipv4Db
  imports NetDb Ipv4AddrRange
begin

text \<open>
  The database of the IPv4 pools: the tables \<open>logic_network_ip_range\<close>, \<open>logic_network_ip_pool\<close>, \<open>ip_range\<close> and
  \<open>ip_pool\<close>, their procedures (\<open>db/sql/procedure/logicnetwork_iprange.txt\<close>, \<open>logicnetwork_ippool.txt\<close>; for
  netplanes \<open>config/sql/updates/vnm/update_01.01.10.0013.sql\<close>, with \<open>pf_net_query_netplane_iprange_is_using\<close> as of
  \<open>update_01.01.10.0017.sql\<close> and \<open>pf_net_del_netplane_iprange\<close> as of \<open>update_01.01.10.0022.sql\<close>) and the operation classes \<open>CDBOperateLogicNetworkIpRange\<close>,
  \<open>CDBOperateLogicNetworkIpPool\<close>, \<open>CDBOperateNetplaneIpRange\<close> and \<open>CDBOperateNetplaneIpPool\<close>.

  Logic networks and netplanes have the same tables and nearly the same procedures. The argument \<open>t\<close>
  (the class member \<open>m_tNetType\<close>) tells the two apart, and a procedure names its kind where they differ.
\<close>

section \<open>Tables\<close>

datatype T_Ipv4NetType = LOGIC_NET | NETPLANE

record ip_range_row =
  ir_id :: int
  ir_net_id :: int
  ir_begin :: string
  ir_end :: string
  ir_mask :: string
  ir_begin_num :: int
  ir_end_num :: int
  ir_mask_num :: int

record ip_pool_row =
  ia_id :: int
  ia_net_id :: int
  ia_ip :: string
  ia_mask :: string
  ia_num :: int
  ia_mask_num :: int

record ip_tables =
  ip_range :: "ip_range_row list"
  ip_pool :: "ip_pool_row list"
  serial_ip_range :: int
  serial_ip_pool :: int

record logic_network_row =
  ln_id :: int
  ln_uuid :: string
  ln_vm_pg_id :: int
  ln_ip_mode :: int

record ipdb = net_db +
  logic_network :: "logic_network_row list"
  ln_tables :: ip_tables
  np_tables :: ip_tables
  vsi_ip_id :: "int list"

type_synonym 'a iproc = "('a, ipdb) procedure"

fun tabs :: "T_Ipv4NetType \<Rightarrow> ipdb \<Rightarrow> ip_tables" where
  "tabs LOGIC_NET d = ln_tables d"
| "tabs NETPLANE d = np_tables d"

fun set_tabs :: "T_Ipv4NetType \<Rightarrow> ip_tables \<Rightarrow> ipdb \<Rightarrow> ipdb" where
  "set_tabs LOGIC_NET x d = d\<lparr>ln_tables := x\<rparr>"
| "set_tabs NETPLANE x d = d\<lparr>np_tables := x\<rparr>"

text \<open>\<open>SELECT id INTO x FROM logic_network WHERE uuid = in_uuid\<close>, or from \<open>netplane\<close>.\<close>

definition ln_lookup :: "string \<Rightarrow> ipdb \<Rightarrow> int option" where
  "ln_lookup u d = map_option ln_id (find (\<lambda>r. ln_uuid r = u) (logic_network d))"

fun net_lookup :: "T_Ipv4NetType \<Rightarrow> string \<Rightarrow> ipdb \<Rightarrow> int option" where
  "net_lookup LOGIC_NET u d = ln_lookup u d"
| "net_lookup NETPLANE u d = np_lookup u d"

text \<open>The columns of texts are \<open>varchar(64)\<close>.\<close>

definition IP_TEXT_LEN :: nat where "IP_TEXT_LEN = 64"

section \<open>Procedures on allocated addresses\<close>

record CDbIpPool =
  IpUuid :: string
  IpNum :: int
  MaskNum :: int
  IpStr :: string
  MaskStr :: string

definition pf_net_check_add_ippool :: "T_Ipv4NetType \<Rightarrow> CDbIpPool \<Rightarrow> ipdb \<Rightarrow> int" where
  "pf_net_check_add_ippool t m d =
     (case net_lookup t (IpUuid m) d of
        None \<Rightarrow> RTN_ITEM_NO_EXIST
      | Some n \<Rightarrow>
          if filter (\<lambda>r. ir_net_id r = n \<and> IpNum m \<ge> ir_begin_num r \<and> IpNum m \<le> ir_end_num r)
               (ip_range (tabs t d)) = []
            then RTN_MUST_CFG_VALID_RANGE
          else if filter (\<lambda>r. ia_net_id r = n \<and> ia_num r = IpNum m) (ip_pool (tabs t d)) \<noteq> []
            then RTN_ITEM_CONFLICT
          else 0)"

text \<open>Both tables have a primary key; \<open>logic_network_ip_pool\<close> also has \<open>UNIQUE (ip, logic_network_id)\<close>.\<close>

definition insert_ip_pool :: "T_Ipv4NetType \<Rightarrow> ip_pool_row \<Rightarrow> ipdb \<Rightarrow> ipdb option" where
  "insert_ip_pool t r d =
     (let x = tabs t d in
      if ia_id r \<in> set (map ia_id (ip_pool x)) \<or>
         t = LOGIC_NET \<and> (ia_ip r, ia_net_id r) \<in> set (map (\<lambda>y. (ia_ip y, ia_net_id y)) (ip_pool x)) \<or>
         length (ia_ip r) > IP_TEXT_LEN \<or> length (ia_mask r) > IP_TEXT_LEN
      then None else Some (set_tabs t (x\<lparr>ip_pool := ip_pool x @ [r]\<rparr>) d))"

definition pf_net_add_ippool :: "T_Ipv4NetType \<Rightarrow> CDbIpPool \<Rightarrow> int iproc" where
  "pf_net_add_ippool t m d =
     (let ret = pf_net_check_add_ippool t m d in
      if ret > 0 then Some (ret, d)
      else case net_lookup t (IpUuid m) d of
             None \<Rightarrow> None
           | Some n \<Rightarrow>
               let x = tabs t d; i = serial_ip_pool x + 1; d1 = set_tabs t (x\<lparr>serial_ip_pool := i\<rparr>) d in
               (case insert_ip_pool t \<lparr>ia_id = i, ia_net_id = n, ia_ip = IpStr m, ia_mask = MaskStr m,
                                       ia_num = IpNum m, ia_mask_num = MaskNum m\<rparr> d1 of
                  None \<Rightarrow> Some (RTN_OPERATOR_FAILED, d1)
                | Some d2 \<Rightarrow> Some (0, d2)))"

definition is_ip_row :: "int \<Rightarrow> CDbIpPool \<Rightarrow> ip_pool_row \<Rightarrow> bool" where
  "is_ip_row n m r \<longleftrightarrow>
     ia_net_id r = n \<and> ia_num r = IpNum m \<and> ia_mask_num r = MaskNum m \<and> ia_ip r = IpStr m \<and>
     ia_mask r = MaskStr m"

text \<open>Only addresses of logic networks are used by interfaces (\<open>vsi_profile\<close>).\<close>

definition pf_net_check_del_ippool :: "T_Ipv4NetType \<Rightarrow> CDbIpPool \<Rightarrow> ipdb \<Rightarrow> int" where
  "pf_net_check_del_ippool t m d =
     (case net_lookup t (IpUuid m) d of
        None \<Rightarrow> RTN_ITEM_NO_EXIST
      | Some n \<Rightarrow>
          (case find (is_ip_row n m) (ip_pool (tabs t d)) of
             None \<Rightarrow> RTN_ITEM_NO_EXIST
           | Some r \<Rightarrow> if t = LOGIC_NET \<and> ia_id r \<in> set (vsi_ip_id d) then RTN_RESOURCE_USING else 0))"

text \<open>\<open>DELETE\<close> fails on a row that \<open>vsi_profile\<close> refers to (foreign key, \<open>ON DELETE RESTRICT\<close>).\<close>

definition delete_ip_pool :: "T_Ipv4NetType \<Rightarrow> int \<Rightarrow> CDbIpPool \<Rightarrow> ipdb \<Rightarrow> ipdb option" where
  "delete_ip_pool t n m d =
     (let x = tabs t d in
      if t = LOGIC_NET \<and> list_ex (\<lambda>r. is_ip_row n m r \<and> ia_id r \<in> set (vsi_ip_id d)) (ip_pool x) then None
      else Some (set_tabs t (x\<lparr>ip_pool := filter (\<lambda>r. \<not> is_ip_row n m r) (ip_pool x)\<rparr>) d))"

definition pf_net_del_ippool :: "T_Ipv4NetType \<Rightarrow> CDbIpPool \<Rightarrow> int iproc" where
  "pf_net_del_ippool t m d =
     (case net_lookup t (IpUuid m) d of
        None \<Rightarrow> Some (RTN_ITEM_NO_EXIST, d)
      | Some n \<Rightarrow>
          if filter (is_ip_row n m) (ip_pool (tabs t d)) = [] then Some (RTN_ITEM_NO_EXIST, d)
          else (case delete_ip_pool t n m d of
                  None \<Rightarrow> Some (RTN_OPERATOR_FAILED, d)
                | Some d1 \<Rightarrow> Some (0, d1)))"

definition pf_net_query_ippool_by_range ::
  "T_Ipv4NetType \<Rightarrow> string \<Rightarrow> int \<Rightarrow> int \<Rightarrow> CDbIpPool list iproc" where
  "pf_net_query_ippool_by_range t u b e d =
     (case net_lookup t u d of
        None \<Rightarrow> Some ([], d)
      | Some n \<Rightarrow>
          Some (map (\<lambda>r. \<lparr>IpUuid = u, IpNum = ia_num r, MaskNum = ia_mask_num r, IpStr = ia_ip r,
                           MaskStr = ia_mask r\<rparr>)
                  (filter (\<lambda>r. ia_net_id r = n \<and> ia_num r \<ge> b \<and> ia_num r \<le> e) (ip_pool (tabs t d))), d))"

text \<open>\<open>RTN_PARAM_INVALID\<close> is not declared in the procedures on allocated addresses of a range.\<close>

definition pf_net_query_iprange_alloc :: "T_Ipv4NetType \<Rightarrow> string \<Rightarrow> int \<Rightarrow> int \<Rightarrow> (int \<times> int) iproc" where
  "pf_net_query_iprange_alloc t u b e d =
     (case net_lookup t u d of
        None \<Rightarrow> Some ((RTN_ITEM_NO_EXIST, 0), d)
      | Some n \<Rightarrow>
          if b > e then None
          else Some ((0, int (length (filter (\<lambda>r. ia_net_id r = n \<and> ia_num r \<ge> b \<and> ia_num r \<le> e)
                                        (ip_pool (tabs t d))))), d))"

section \<open>The operation classes for allocated addresses\<close>

definition IpPool_CheckAdd :: "T_Ipv4NetType \<Rightarrow> CDbIpPool \<Rightarrow> ipdb \<Rightarrow> rc \<times> ipdb" where
  "IpPool_CheckAdd t m = db_add_op (\<lambda>d. Some (pf_net_check_add_ippool t m d, d))"

definition IpPool_Add :: "T_Ipv4NetType \<Rightarrow> CDbIpPool \<Rightarrow> ipdb \<Rightarrow> rc \<times> ipdb" where
  "IpPool_Add t m = db_add_op (pf_net_add_ippool t m)"

definition IpPool_CheckDel :: "T_Ipv4NetType \<Rightarrow> CDbIpPool \<Rightarrow> ipdb \<Rightarrow> rc \<times> ipdb" where
  "IpPool_CheckDel t m = db_del_op (\<lambda>d. Some (pf_net_check_del_ippool t m d, d))"

definition IpPool_Del :: "T_Ipv4NetType \<Rightarrow> CDbIpPool \<Rightarrow> ipdb \<Rightarrow> rc \<times> ipdb" where
  "IpPool_Del t m = db_del_op (pf_net_del_ippool t m)"

definition IpPool_QueryByRange ::
  "T_Ipv4NetType \<Rightarrow> string \<Rightarrow> int \<Rightarrow> int \<Rightarrow> ipdb \<Rightarrow> rc \<times> CDbIpPool list \<times> ipdb" where
  "IpPool_QueryByRange t u b e = db_query_op (pf_net_query_ippool_by_range t u b e)"

definition IpRange_QueryAllocNum :: "T_Ipv4NetType \<Rightarrow> string \<Rightarrow> int \<Rightarrow> int \<Rightarrow> ipdb \<Rightarrow> rc \<times> int \<times> ipdb" where
  "IpRange_QueryAllocNum t u b e d =
     (if b > e then (VNET_DB_ERROR_PARAM_INVALID, 0, d)
      else case Handle (pf_net_query_iprange_alloc t u b e) d of
             (Inl c, d1) \<Rightarrow> (c, 0, d1)
           | (Inr (ret, num), d1) \<Rightarrow>
               if ret \<noteq> 0 then (GET_DB_ERROR_PROC ret, 0, d1) else (VNET_DB_SUCCESS, num, d1))"

section \<open>Procedures on ranges\<close>

record CDbIpRange =
  RgUuid :: string
  RgBeginNum :: int
  RgEndNum :: int
  RgMaskNum :: int
  RgBeginStr :: string
  RgEndStr :: string
  RgMaskStr :: string

text \<open>
  The rows of the view \<open>v_net_logicnetwork_portgroup_netplane\<close>: the logic networks with the netplane of their
  port group.
\<close>

definition v_net_ln_np :: "ipdb \<Rightarrow> (logic_network_row \<times> netplane_row) list" where
  "v_net_ln_np d =
     [(l, n). l \<leftarrow> logic_network d, g \<leftarrow> port_group d, v \<leftarrow> vm_pg d, n \<leftarrow> netplane d,
              pg_id g = vmpg_id v \<and> vmpg_id v = ln_vm_pg_id l \<and> pg_netplane_id g = Some (np_id n)]"

definition pf_net_check_add_iprange :: "T_Ipv4NetType \<Rightarrow> CDbIpRange \<Rightarrow> ipdb \<Rightarrow> int" where
  "pf_net_check_add_iprange t r d =
     (case net_lookup t (RgUuid r) d of
        None \<Rightarrow> RTN_ITEM_NO_EXIST
      | Some n \<Rightarrow>
          if RgBeginNum r > RgEndNum r then RTN_PARAM_INVALID
          else if t = NETPLANE then 0
          else (case find (\<lambda>x. ln_uuid (fst x) = RgUuid r) (v_net_ln_np d) of
                  None \<Rightarrow> RTN_ITEM_NO_EXIST
                | Some x \<Rightarrow>
                    if list_ex (\<lambda>a. list_ex (\<lambda>b. np_uuid (snd b) = np_uuid (snd x) \<and>
                              ir_net_id a = ln_id (fst b) \<and> ln_uuid (fst b) \<noteq> RgUuid r)
                           (v_net_ln_np d) \<and>
                         ir_begin_num a \<le> RgEndNum r \<and> ir_end_num a \<ge> RgBeginNum r \<and>
                         ir_mask_num a = RgMaskNum r) (ip_range (ln_tables d))
                    then RTN_MUST_CFG_VALID_RANGE else 0))"

definition insert_ip_range :: "T_Ipv4NetType \<Rightarrow> ip_range_row \<Rightarrow> ipdb \<Rightarrow> ipdb option" where
  "insert_ip_range t r d =
     (let x = tabs t d in
      if ir_id r \<in> set (map ir_id (ip_range x)) \<or> length (ir_begin r) > IP_TEXT_LEN \<or>
         length (ir_end r) > IP_TEXT_LEN \<or> length (ir_mask r) > IP_TEXT_LEN
      then None else Some (set_tabs t (x\<lparr>ip_range := ip_range x @ [r]\<rparr>) d))"

definition pf_net_add_iprange :: "T_Ipv4NetType \<Rightarrow> CDbIpRange \<Rightarrow> int iproc" where
  "pf_net_add_iprange t r d =
     (let ret = pf_net_check_add_iprange t r d in
      if ret > 0 then Some (ret, d)
      else case net_lookup t (RgUuid r) d of
             None \<Rightarrow> None
           | Some n \<Rightarrow>
               let x = tabs t d; i = serial_ip_range x + 1; d1 = set_tabs t (x\<lparr>serial_ip_range := i\<rparr>) d in
               (case insert_ip_range t \<lparr>ir_id = i, ir_net_id = n, ir_begin = RgBeginStr r,
                                        ir_end = RgEndStr r, ir_mask = RgMaskStr r,
                                        ir_begin_num = RgBeginNum r, ir_end_num = RgEndNum r,
                                        ir_mask_num = RgMaskNum r\<rparr> d1 of
                  None \<Rightarrow> Some (RTN_OPERATOR_FAILED, d1)
                | Some d2 \<Rightarrow> Some (0, d2)))"

definition is_ip_range_row :: "int \<Rightarrow> CDbIpRange \<Rightarrow> ip_range_row \<Rightarrow> bool" where
  "is_ip_range_row n r x \<longleftrightarrow>
     ir_net_id x = n \<and> ir_begin_num x = RgBeginNum r \<and> ir_end_num x = RgEndNum r \<and>
     ir_mask_num x = RgMaskNum r \<and> ir_begin x = RgBeginStr r \<and> ir_end x = RgEndStr r \<and>
     ir_mask x = RgMaskStr r"

text \<open>
  For a netplane, an unknown name and a reversed range raise an exception (a number or an
  undeclared name is assigned to the result record). \<open>pf_net_force_del_netplane_iprange\<close> is the same procedure.
\<close>

definition pf_net_del_iprange :: "T_Ipv4NetType \<Rightarrow> CDbIpRange \<Rightarrow> int iproc" where
  "pf_net_del_iprange t r d =
     (case net_lookup t (RgUuid r) d of
        None \<Rightarrow> if t = NETPLANE then None else Some (RTN_ITEM_NO_EXIST, d)
      | Some n \<Rightarrow>
          if t = NETPLANE \<and> RgBeginNum r > RgEndNum r then None
          else let x = tabs t d in
            if filter (is_ip_range_row n r) (ip_range x) = [] then Some (RTN_ITEM_NO_EXIST, d)
            else Some (0, set_tabs t (x\<lparr>ip_range := filter (\<lambda>y. \<not> is_ip_range_row n r y) (ip_range x)\<rparr>) d))"

definition pf_net_query_iprange :: "T_Ipv4NetType \<Rightarrow> string \<Rightarrow> CDbIpRange list iproc" where
  "pf_net_query_iprange t u d =
     (case net_lookup t u d of
        None \<Rightarrow> Some ([], d)
      | Some n \<Rightarrow>
          Some (map (\<lambda>r. \<lparr>RgUuid = u, RgBeginNum = ir_begin_num r, RgEndNum = ir_end_num r,
                           RgMaskNum = ir_mask_num r, RgBeginStr = ir_begin r, RgEndStr = ir_end r,
                           RgMaskStr = ir_mask r\<rparr>)
                  (filter (\<lambda>r. ir_net_id r = n) (ip_range (tabs t d))), d))"

text \<open>
  The number of allocated addresses of a netplane in a range, as \<open>update_01.01.10.0017.sql\<close> defines it; the
  version before it counted the ranges of the logic networks of the netplane.
\<close>

definition pf_net_query_netplane_iprange_is_using :: "string \<Rightarrow> int \<Rightarrow> int \<Rightarrow> (int \<times> int) iproc" where
  "pf_net_query_netplane_iprange_is_using u b e d =
     (case np_lookup u d of
        None \<Rightarrow> Some ((RTN_ITEM_NO_EXIST, 0), d)
      | Some n \<Rightarrow>
          if b > e then Some ((RTN_PARAM_INVALID, 0), d)
          else Some ((0, int (length (filter (\<lambda>r. ia_net_id r = n \<and> ia_num r \<ge> b \<and> ia_num r \<le> e)
                                        (ip_pool (np_tables d))))), d))"

section \<open>The operation classes for ranges\<close>

definition IpRange_Add :: "T_Ipv4NetType \<Rightarrow> CDbIpRange \<Rightarrow> ipdb \<Rightarrow> rc \<times> ipdb" where
  "IpRange_Add t r = db_add_op (pf_net_add_iprange t r)"

definition IpRange_Del :: "T_Ipv4NetType \<Rightarrow> CDbIpRange \<Rightarrow> ipdb \<Rightarrow> rc \<times> ipdb" where
  "IpRange_Del t r = db_del_op (pf_net_del_iprange t r)"

text \<open>\<open>CDBOperateNetplaneIpRange::ForceDel\<close>; its procedure is a copy of the one of \<open>Del\<close>.\<close>

definition IpRange_ForceDel :: "CDbIpRange \<Rightarrow> ipdb \<Rightarrow> rc \<times> ipdb" where
  "IpRange_ForceDel r = db_del_op (pf_net_del_iprange NETPLANE r)"

definition IpRange_Query :: "T_Ipv4NetType \<Rightarrow> string \<Rightarrow> ipdb \<Rightarrow> rc \<times> CDbIpRange list \<times> ipdb" where
  "IpRange_Query t u = db_query_op (pf_net_query_iprange t u)"

definition IpRange_QueryIsUsing :: "string \<Rightarrow> int \<Rightarrow> int \<Rightarrow> ipdb \<Rightarrow> rc \<times> int \<times> ipdb" where
  "IpRange_QueryIsUsing u b e d =
     (case Handle (pf_net_query_netplane_iprange_is_using u b e) d of
        (Inl c, d1) \<Rightarrow> (c, 0, d1)
      | (Inr (ret, num), d1) \<Rightarrow>
          if ret \<noteq> 0 then (GET_DB_ERROR_PROC ret, 0, d1)
          else (VNET_DB_SUCCESS, if num > 0 then 1 else 0, d1))"

section \<open>Logic networks\<close>

text \<open>\<open>CDBOperateLogicNetwork::Query\<close> and its procedure, cut to the mode of the addresses.\<close>

definition pf_net_query_logicnetwork :: "string \<Rightarrow> (int \<times> int) iproc" where
  "pf_net_query_logicnetwork u d =
     (case find (\<lambda>l. ln_uuid l = u) (logic_network d) of
        None \<Rightarrow> Some ((RTN_ITEM_NO_EXIST, 0), d)
      | Some l \<Rightarrow> Some ((0, ln_ip_mode l), d))"

definition LogicNetwork_Query :: "string \<Rightarrow> ipdb \<Rightarrow> (rc + int) \<times> ipdb" where
  "LogicNetwork_Query u d =
     (case Handle (pf_net_query_logicnetwork u) d of
        (Inl c, d1) \<Rightarrow> (Inl c, d1)
      | (Inr (ret, mode), d1) \<Rightarrow> if ret \<noteq> 0 then (Inl (GET_DB_ERROR_PROC ret), d1) else (Inr mode, d1))"

end
