(* ===== verification/Ipv4Pool.thy ===== *)
theory Ipv4Pool
  imports Ipv4Db UuidBytes "HOL-Library.Signed_Division"
begin

text \<open>
  \<open>CIPv4AddrPool\<close> (\<open>ipv4_addr_pool.h/.cpp\<close>): the allocation of addresses to a logic network or a netplane. The
  pool tries the ranges with the most free addresses first. In a range it draws an address octet by octet
  from a UUID and saves it; after a failure it moves on from there, up to 15 times, and then scans the range.

  As for MAC addresses, \<open>rnd r k\<close> are the 16 bytes of the UUID drawn in the \<open>r\<close>-th available range after \<open>k\<close>
  failed attempts, \<open>big\<close> is the byte order of the host, and the result \<open>None\<close> is a call that does not return:
  a division that traps, or a loop without end.
\<close>

section \<open>State and parts\<close>

record CIPv4AddrPool =
  m_pIPv4AddrRange :: "TIPV4AddrRangeItem list option"
  m_strNetworkUUID :: string
  m_tNetType :: T_Ipv4NetType

definition CIPv4AddrPool_new :: CIPv4AddrPool where
  "CIPv4AddrPool_new = \<lparr>m_pIPv4AddrRange = None, m_strNetworkUUID = [], m_tNetType = LOGIC_NET\<rparr>"

definition CIPv4AddrPool_Init_free :: "string \<Rightarrow> T_Ipv4NetType \<Rightarrow> CIPv4AddrPool \<Rightarrow> rc \<times> CIPv4AddrPool" where
  "CIPv4AddrPool_Init_free u t p =
     (if u = [] then (- 1, p) else (0, p\<lparr>m_strNetworkUUID := u, m_tNetType := t\<rparr>))"

definition CIPv4AddrPool_Init ::
  "string \<Rightarrow> TIPV4AddrRangeItem list option \<Rightarrow> T_Ipv4NetType \<Rightarrow> CIPv4AddrPool \<Rightarrow> rc \<times> CIPv4AddrPool" where
  "CIPv4AddrPool_Init u pr t p =
     (if pr = None then (- 1, p)
      else if u = [] then (- 1, p)
      else (0, p\<lparr>m_pIPv4AddrRange := pr, m_strNetworkUUID := u, m_tNetType := t\<rparr>))"

text \<open>
  \<open>%\<close> on \<open>int32\<close>: the remainder has the sign of the dividend. The division traps when the divisor is 0, and for
  the least number and -1.
\<close>

definition int32_rem :: "int \<Rightarrow> int \<Rightarrow> int option" where
  "int32_rem a b = (if b = 0 \<or> a = - (2 ^ 31) \<and> b = - 1 then None else Some (a smod b))"

text \<open>One octet: an offset from the first one, of the sum only the low eight bits.\<close>

definition calc_octet :: "uint32 \<Rightarrow> uint8 \<Rightarrow> uint8 \<Rightarrow> uint8 option" where
  "calc_octet nFactor s e =
     map_option (\<lambda>r. s + word_of_int r) (int32_rem (sint nFactor) (uint e - uint s + 1))"

definition CalcIPv4Addr :: "bool \<Rightarrow> uint8 list \<Rightarrow> uint32 \<Rightarrow> TIPV4AddrRangeItem \<Rightarrow> TIPv4Addr option" where
  "CalcIPv4Addr big uuid nKey r =
     (let a = int32_at big uuid 0; b = int32_at big uuid 4; c = int32_at big uuid 8;
          dd = int16_at big uuid 12 * 102317 + int16_at big uuid 14 * 8317 + a * 3331 + b * 2179 +
               c * 9973 + nKey * 5711 + 382457;
          s = uIP (tIPStart r); e = uIP (tIPEnd r)
      in case (calc_octet a (auc0 s) (auc0 e), calc_octet b (auc1 s) (auc1 e),
               calc_octet c (auc2 s) (auc2 e), calc_octet dd (auc3 s) (auc3 e)) of
           (Some n0, Some n1, Some n2, Some n3) \<Rightarrow>
             Some \<lparr>uIP = \<lparr>auc0 = n0, auc1 = n1, auc2 = n2, auc3 = n3\<rparr>, uMask = uMask (tIPStart r)\<rparr>
         | _ \<Rightarrow> None)"

record TIPv4RangeUsedInfo =
  tIpRange :: TIPV4AddrRangeItem
  nIpUsedCnt :: uint32
  nIpFreeCnt :: uint32

definition CompareIpRange :: "TIPv4RangeUsedInfo \<Rightarrow> TIPv4RangeUsedInfo \<Rightarrow> bool" where
  "CompareIpRange r1 r2 \<longleftrightarrow> nIpFreeCnt r1 > nIpFreeCnt r2"

definition range_begin :: "bool \<Rightarrow> TIPV4AddrRangeItem \<Rightarrow> uint32" where
  "range_begin big r = N2HL big (dwAddr big (uIP (tIPStart r)))"

definition range_end :: "bool \<Rightarrow> TIPV4AddrRangeItem \<Rightarrow> uint32" where
  "range_end big r = N2HL big (dwAddr big (uIP (tIPEnd r)))"

definition range_mask :: "bool \<Rightarrow> TIPV4AddrRangeItem \<Rightarrow> uint32" where
  "range_mask big r = N2HL big (dwAddr big (uMask (tIPStart r)))"

text \<open>The count is an output parameter that keeps its old value on failure.\<close>

definition GetIPv4AddrCnt :: "bool \<Rightarrow> T_Ipv4NetType \<Rightarrow> string \<Rightarrow> TIPV4AddrRangeItem \<Rightarrow> uint32 \<Rightarrow> ipdb \<Rightarrow>
    rc \<times> uint32 \<times> ipdb" where
  "GetIPv4AddrCnt big t u r dwCnt d =
     (if \<not> m_bInit d then (- 1, dwCnt, d)
      else case IpRange_QueryAllocNum t u (uint (range_begin big r)) (uint (range_end big r)) d of
             (nRet, nNum, d1) \<Rightarrow>
               if VNET_DB_SUCCESS \<noteq> nRet then (nRet, dwCnt, d1) else (0, word_of_int nNum, d1))"

fun insert_available_ip :: "TIPv4RangeUsedInfo \<Rightarrow> TIPv4RangeUsedInfo list \<Rightarrow> TIPv4RangeUsedInfo list" where
  "insert_available_ip x [] = [x]"
| "insert_available_ip x (y # ys) =
     (if CompareIpRange x y then x # y # ys else y # insert_available_ip x ys)"

fun available_ip_ranges :: "bool \<Rightarrow> T_Ipv4NetType \<Rightarrow> string \<Rightarrow> TIPV4AddrRangeItem list \<Rightarrow>
    TIPv4RangeUsedInfo list \<Rightarrow> ipdb \<Rightarrow> TIPv4RangeUsedInfo list \<times> ipdb" where
  "available_ip_ranges big t u [] out d = (out, d)"
| "available_ip_ranges big t u (r # rs) out d =
     (case GetIPv4AddrCnt big t u r 0 d of
        (nRet, nCnt, d1) \<Rightarrow>
          if 0 \<noteq> nRet then available_ip_ranges big t u rs out d1
          else let nTotalCnt = range_end big r - range_begin big r + 1 in
            if nCnt \<ge> nTotalCnt then available_ip_ranges big t u rs out d1
            else available_ip_ranges big t u rs
                   (out @ [\<lparr>tIpRange = r, nIpUsedCnt = nCnt, nIpFreeCnt = nTotalCnt - nCnt\<rparr>]) d1)"

definition GetAvailableIpRange :: "bool \<Rightarrow> T_Ipv4NetType \<Rightarrow> string \<Rightarrow> TIPV4AddrRangeItem list \<Rightarrow> ipdb \<Rightarrow>
    TIPv4RangeUsedInfo list \<times> ipdb" where
  "GetAvailableIpRange big t u rs d =
     (case available_ip_ranges big t u rs [] d of
        (out, d1) \<Rightarrow> (foldl (\<lambda>s x. insert_available_ip x s) [] out, d1))"

section \<open>Saving and scanning\<close>

definition ip_row :: "bool \<Rightarrow> string \<Rightarrow> TIPv4Addr \<Rightarrow> CDbIpPool" where
  "ip_row big u a =
     \<lparr>IpUuid = u, IpNum = uint (N2HL big (dwAddr big (uIP a))),
      MaskNum = uint (N2HL big (dwAddr big (uMask a))), IpStr = GetIP a, MaskStr = GetMask a\<rparr>"

definition SaveIPv4Addr2DB :: "bool \<Rightarrow> T_Ipv4NetType \<Rightarrow> string \<Rightarrow> TIPv4Addr \<Rightarrow> ipdb \<Rightarrow> rc \<times> ipdb" where
  "SaveIPv4Addr2DB big t u a d =
     (if \<not> m_bInit d then (- 1, d)
      else case IpPool_CheckAdd t (ip_row big u a) d of
             (nRet, d1) \<Rightarrow>
               if VNET_DB_SUCCESS \<noteq> nRet then (- 1, d1)
               else (case IpPool_Add t (ip_row big u a) d1 of
                       (nRet, d2) \<Rightarrow> if VNET_DB_SUCCESS \<noteq> nRet then (- 1, d2) else (0, d2)))"

text \<open>The loop of \<open>ScanAllocIP\<close>; a row is that of address \<open>i\<close> only if its mask is that of the range.\<close>

partial_function (option) scan_free_ip :: "uint32 \<Rightarrow> uint32 \<Rightarrow> CDbIpPool list \<Rightarrow> uint32 \<Rightarrow> uint32 option option" where
  "scan_free_ip dwMask dwIPEnd rows i =
     (if i \<le> dwIPEnd then
        if find (\<lambda>r. IpNum r = uint i \<and> MaskNum r = uint dwMask) rows \<noteq> None
        then scan_free_ip dwMask dwIPEnd rows (i + 1)
        else Some (Some i)
      else Some None)"

definition ScanAllocIP :: "bool \<Rightarrow> T_Ipv4NetType \<Rightarrow> string \<Rightarrow> TIPV4AddrRangeItem \<Rightarrow> ipdb \<Rightarrow>
    (TIPv4Addr option \<times> ipdb) option" where
  "ScanAllocIP big t u r d =
     (if \<not> m_bInit d then Some (None, d)
      else case IpPool_QueryByRange t u (uint (range_begin big r)) (uint (range_end big r)) d of
             (nRet, vecIPOut, d1) \<Rightarrow>
               if VNET_DB_SUCCESS \<noteq> nRet then Some (None, d1)
               else (case scan_free_ip (range_mask big r) (range_end big r) vecIPOut (range_begin big r) of
                       None \<Rightarrow> None
                     | Some x \<Rightarrow>
                         Some (map_option (\<lambda>i. \<lparr>uIP = uaddr_of_dw big (H2NL big i),
                                                uMask = uMask (tIPStart r)\<rparr>) x, d1)))"

section \<open>Allocation\<close>

definition next_ip :: "bool \<Rightarrow> TIPV4AddrRangeItem \<Rightarrow> uint32 \<Rightarrow> TIPv4Addr \<Rightarrow> TIPv4Addr" where
  "next_ip big r k a =
     (let w = N2HL big (dwAddr big (uIP a)) + k;
          x = w mod (range_end big r - range_begin big r + 1) + range_begin big r
      in a\<lparr>uIP := uaddr_of_dw big (H2NL big x)\<rparr>)"

text \<open>
  The loop over the attempts in one range: \<open>Some (Inr a)\<close> when address \<open>a\<close> is saved, \<open>Some (Inl ())\<close> after 15
  failures.
\<close>

function try_alloc_ip :: "bool \<Rightarrow> (nat \<Rightarrow> uint8 list) \<Rightarrow> T_Ipv4NetType \<Rightarrow> string \<Rightarrow> uint32 \<Rightarrow>
    TIPV4AddrRangeItem \<Rightarrow> TIPv4Addr \<Rightarrow> nat \<Rightarrow> ipdb \<Rightarrow> ((unit + TIPv4Addr) \<times> ipdb) option" where
  "try_alloc_ip big rnd t u nKey r a nTryCnt d =
     (case SaveIPv4Addr2DB big t u a d of
        (nRet, d1) \<Rightarrow>
          if 0 \<noteq> nRet then
            let n = nTryCnt + 1 in
            if n > 15 then Some (Inl (), d1)
            else if n mod 5 = 0 then
              (case CalcIPv4Addr big (rnd n) nKey r of
                 None \<Rightarrow> None
               | Some b \<Rightarrow> try_alloc_ip big rnd t u nKey r b n d1)
            else if range_end big r - range_begin big r + 1 = 0 then None
            else if n > 10 then try_alloc_ip big rnd t u nKey r (next_ip big r 100000 a) n d1
            else try_alloc_ip big rnd t u nKey r (next_ip big r 1 a) n d1
          else Some (Inr a, d1))"
  by pat_completeness auto
termination by (relation "measure (\<lambda>(big, rnd, t, u, nKey, r, a, n, d). 15 - n)") auto

declare try_alloc_ip.simps [simp del]

fun alloc_ip_in :: "bool \<Rightarrow> (nat \<Rightarrow> nat \<Rightarrow> uint8 list) \<Rightarrow> T_Ipv4NetType \<Rightarrow> string \<Rightarrow> uint32 \<Rightarrow> nat \<Rightarrow>
    TIPv4RangeUsedInfo list \<Rightarrow> TIPv4Addr \<Rightarrow> ipdb \<Rightarrow> (rc \<times> TIPv4Addr \<times> ipdb) option" where
  "alloc_ip_in big rnd t u nKey k [] tItem d = Some (- 1, tItem, d)"
| "alloc_ip_in big rnd t u nKey k (x # xs) tItem d =
     (case CalcIPv4Addr big (rnd k 0) nKey (tIpRange x) of
        None \<Rightarrow> None
      | Some a \<Rightarrow>
          (case try_alloc_ip big (rnd k) t u nKey (tIpRange x) a 0 d of
             None \<Rightarrow> None
           | Some (Inr b, d1) \<Rightarrow> Some (0, b, d1)
           | Some (Inl _, d1) \<Rightarrow>
               (case ScanAllocIP big t u (tIpRange x) d1 of
                  None \<Rightarrow> None
                | Some (None, d2) \<Rightarrow> alloc_ip_in big rnd t u nKey (k + 1) xs tItem d2
                | Some (Some b, d2) \<Rightarrow>
                    (case SaveIPv4Addr2DB big t u b d2 of
                       (nRet, d3) \<Rightarrow>
                         if 0 = nRet then Some (0, b, d3)
                         else alloc_ip_in big rnd t u nKey (k + 1) xs tItem d3))))"

definition AllocIPv4Addr :: "bool \<Rightarrow> (nat \<Rightarrow> nat \<Rightarrow> uint8 list) \<Rightarrow> uint32 \<Rightarrow> TIPv4Addr \<Rightarrow> CIPv4AddrPool \<Rightarrow> ipdb \<Rightarrow>
    (rc \<times> TIPv4Addr \<times> ipdb) option" where
  "AllocIPv4Addr big rnd nKey tItem p d =
     (case m_pIPv4AddrRange p of
        None \<Rightarrow> Some (- 1, tItem, d)
      | Some rs \<Rightarrow>
          if m_strNetworkUUID p = [] then Some (- 1, tItem, d)
          else case GetAvailableIpRange big (m_tNetType p) (m_strNetworkUUID p) rs d of
                 (vecAvailableRange, d1) \<Rightarrow>
                   if vecAvailableRange = [] then Some (- 1, tItem, d1)
                   else alloc_ip_in big rnd (m_tNetType p) (m_strNetworkUUID p) nKey 0 vecAvailableRange
                          tItem d1)"

section \<open>Release\<close>

definition FreeIPv4Addr :: "bool \<Rightarrow> TIPv4Addr \<Rightarrow> CIPv4AddrPool \<Rightarrow> ipdb \<Rightarrow> rc \<times> ipdb" where
  "FreeIPv4Addr big tItem p d =
     (let u = m_strNetworkUUID p; t = m_tNetType p in
      if u = [] then (- 1, d)
      else if \<not> m_bInit d then (- 1, d)
      else case IpPool_CheckDel t (ip_row big u tItem) d of
             (nRet, d1) \<Rightarrow>
               if VNET_DB_SUCCESS \<noteq> nRet then
                 if VNET_DB_IS_ITEM_NO_EXIST nRet then (0, d1) else (- 1, d1)
               else (case IpPool_Del t (ip_row big u tItem) d1 of
                       (nRet, d2) \<Rightarrow> if VNET_DB_SUCCESS \<noteq> nRet then (- 1, d2) else (0, d2)))"

end
