(* ===== verification/Ipv4PoolMgr.thy ===== *)
theory Ipv4PoolMgr
  imports Ipv4Pool RangeSync Vnic
begin

text \<open>
  \<open>CIPv4PoolMgr\<close> (\<open>ipv4_pool_mgr.cpp\<close>) with \<open>CLogicNetworkMgr::GetLogicNetwork\<close>
  (\<open>logic_network_mgr.cpp\<close>): the ranges of a logic network or a netplane are changed by messages, and
  addresses are handed to the network cards of a virtual machine and to netplanes. The texts of the
  replies are left out, their result codes kept.

  The functions for logic networks and for netplanes are the same but for one query, so the
  definitions take the kind \<open>t\<close> and name it where the two differ. \<open>big\<close> is the byte order of the host.
\<close>

section \<open>Messages and codes\<close>

definition IPV4_RANGE_OPER_SUCCESS :: rc where "IPV4_RANGE_OPER_SUCCESS = 0"
definition IPV4_RANGE_CFG_PARAM_ERROR :: rc where "IPV4_RANGE_CFG_PARAM_ERROR = 1121"
definition IPV4_RANGE_GET_LG_NET_DB_INTF_ERROR :: rc where "IPV4_RANGE_GET_LG_NET_DB_INTF_ERROR = 1122"
definition IPV4_RANGE_CALC_ERROR :: rc where "IPV4_RANGE_CALC_ERROR = 1123"
definition IPV4_RANGE_NOT_EXIST :: rc where "IPV4_RANGE_NOT_EXIST = 1124"
definition IPV4_RANGE_NOT_SAME_SUBNET :: rc where "IPV4_RANGE_NOT_SAME_SUBNET = 1125"
definition IPV4_RANGE_INVALID :: rc where "IPV4_RANGE_INVALID = 1126"
definition IPV4_RANGE_OCCUPIED :: rc where "IPV4_RANGE_OCCUPIED = 1127"
definition IPV4_RANGE_GET_NET_PLANE_DB_INTF_ERROR :: rc where "IPV4_RANGE_GET_NET_PLANE_DB_INTF_ERROR = 1128"

lemmas ip_mgr_codes = IPV4_RANGE_OPER_SUCCESS_def IPV4_RANGE_CFG_PARAM_ERROR_def
  IPV4_RANGE_GET_LG_NET_DB_INTF_ERROR_def IPV4_RANGE_CALC_ERROR_def IPV4_RANGE_NOT_EXIST_def
  IPV4_RANGE_NOT_SAME_SUBNET_def IPV4_RANGE_INVALID_def IPV4_RANGE_OCCUPIED_def
  IPV4_RANGE_GET_NET_PLANE_DB_INTF_ERROR_def VNET_DB_SUCCESS_def

text \<open>\<open>CNetplaneIPv4RangeMsg\<close> and \<open>CLogicNetworkIPv4RangeMsg\<close>, with the UUID of the netplane or logic network.\<close>

record CIPv4RangeMsg =
  m_strIPv4Start :: string
  m_strIPv4StartMask :: string
  m_strIPv4End :: string
  m_strIPv4EndMask :: string
  m_strNetUUID :: string
  m_dwIPv4Oper :: uint32

definition EN_ADD_IPV4_RANGE :: uint32 where "EN_ADD_IPV4_RANGE = 1"
definition EN_DEL_IPV4_RANGE :: uint32 where "EN_DEL_IPV4_RANGE = 2"
definition EN_IPV4_RANGE_OPER_ALL :: uint32 where "EN_IPV4_RANGE_OPER_ALL = 3"

definition IsValidIPv4Oper :: "CIPv4RangeMsg \<Rightarrow> bool" where
  "IsValidIPv4Oper m \<longleftrightarrow> m_dwIPv4Oper m > 0 \<and> m_dwIPv4Oper m < EN_IPV4_RANGE_OPER_ALL"

definition IsValidIPv4MsgRange :: "CIPv4RangeMsg \<Rightarrow> bool" where
  "IsValidIPv4MsgRange m \<longleftrightarrow>
     \<not> (m_strIPv4Start m = [] \<or> m_strIPv4End m = [] \<or> m_strIPv4StartMask m = [] \<or> m_strIPv4EndMask m = [] \<or>
        m_strNetUUID m = [])"

section \<open>Rows and ranges\<close>

text \<open>\<open>H2NL((int32)n)\<close>: a number of a row as an address. Both ends get the mask of the row.\<close>

definition num_uaddr :: "bool \<Rightarrow> int \<Rightarrow> UNIPv4AddrType" where
  "num_uaddr big n = uaddr_of_dw big (H2NL big (word_of_int n))"

definition ip_row_item :: "bool \<Rightarrow> CDbIpRange \<Rightarrow> TIPV4AddrRangeItem" where
  "ip_row_item big r =
     \<lparr>tIPStart = \<lparr>uIP = num_uaddr big (RgBeginNum r), uMask = num_uaddr big (RgMaskNum r)\<rparr>,
      tIPEnd = \<lparr>uIP = num_uaddr big (RgEndNum r), uMask = num_uaddr big (RgMaskNum r)\<rparr>\<rparr>"

definition ip_item_row :: "bool \<Rightarrow> string \<Rightarrow> TIPV4AddrRangeItem \<Rightarrow> CDbIpRange" where
  "ip_item_row big u i =
     \<lparr>RgUuid = u, RgBeginNum = uint (range_begin big i), RgEndNum = uint (range_end big i),
      RgMaskNum = uint (N2HL big (dwAddr big (uMask (tIPEnd i)))),
      RgBeginStr = GetIP (tIPStart i), RgEndStr = GetIP (tIPEnd i), RgMaskStr = GetMask (tIPEnd i)\<rparr>"

text \<open>The first range of a subnet is stored with the texts of the message.\<close>

definition first_ip_row :: "bool \<Rightarrow> CIPv4RangeMsg \<Rightarrow> TIPV4AddrRangeItem \<Rightarrow> CDbIpRange" where
  "first_ip_row big m i =
     (ip_item_row big (c_str (m_strNetUUID m)) i)
       \<lparr>RgBeginStr := c_str (m_strIPv4Start m), RgEndStr := c_str (m_strIPv4End m),
        RgMaskStr := c_str (m_strIPv4EndMask m)\<rparr>"

text \<open>The range of a message, or the code of the first test that it fails.\<close>

definition ip_msg_item :: "bool \<Rightarrow> CIPv4RangeMsg \<Rightarrow> rc + TIPV4AddrRangeItem" where
  "ip_msg_item big m =
     (let zero = \<lparr>uIP = uaddr_zero, uMask = uaddr_zero\<rparr>;
          (r1, a) = Set_text (m_strIPv4Start m) (m_strIPv4StartMask m) zero;
          (r2, b) = Set_text (m_strIPv4End m) (m_strIPv4EndMask m) zero
      in if 0 \<noteq> r1 \<or> 0 \<noteq> r2 then Inl IPV4_RANGE_CFG_PARAM_ERROR
         else let i = \<lparr>tIPStart = a, tIPEnd = b\<rparr> in
           if \<not> IsValidIPv4Range big i then Inl IPV4_RANGE_INVALID
           else if \<not> IsSameSubnet big i then Inl IPV4_RANGE_NOT_SAME_SUBNET
           else Inr i)"

text \<open>
  The loop that loads the rows of the subnet of the new range ("shortest mask match network segment"); \<open>None\<close>
  when a row with another mask has a subnet that contains the new range or is contained in its subnet.
\<close>

fun related_ip_rows :: "bool \<Rightarrow> TIPV4AddrRangeItem \<Rightarrow> CDbIpRange list \<Rightarrow> CDbIpRange list \<Rightarrow>
    TIPV4AddrRangeItem list \<Rightarrow> (CDbIpRange list \<times> TIPV4AddrRangeItem list) option" where
  "related_ip_rows big new [] rel c = Some (rel, c)"
| "related_ip_rows big new (r # rs) rel c =
     (let i = ip_row_item big r;
          mi = dwAddr big (uMask (tIPStart i)); mn = dwAddr big (uMask (tIPStart new));
          si = dwAddr big (uIP (tIPStart i)); sn = dwAddr big (uIP (tIPStart new))
      in if mi \<noteq> dwAddr big (uMask (tIPEnd new)) then
           (let dwMinMask = (if mi < mn then mi else mn) in
            if sn AND dwMinMask = si AND dwMinMask then None else related_ip_rows big new rs rel c)
         else if (sn AND mn) \<noteq> (si AND mi) then related_ip_rows big new rs rel c
         else related_ip_rows big new rs (rel @ [r]) (snd (CIPv4AddrRange_AddValidRange i c)))"

section \<open>Changing the ranges\<close>

definition ip_intf_error :: "T_Ipv4NetType \<Rightarrow> rc" where
  "ip_intf_error t =
     (if t = NETPLANE then IPV4_RANGE_GET_NET_PLANE_DB_INTF_ERROR else IPV4_RANGE_GET_LG_NET_DB_INTF_ERROR)"

text \<open>The common end of all four operations; \<open>del\<close> is the operation that removes the old rows.\<close>

definition save_ip_ranges :: "(CDbIpRange \<Rightarrow> ipdb \<Rightarrow> rc \<times> ipdb) \<Rightarrow> bool \<Rightarrow> T_Ipv4NetType \<Rightarrow> string \<Rightarrow>
    TIPV4AddrRangeItem list \<Rightarrow> CDbIpRange list \<Rightarrow> ipdb \<Rightarrow> rc \<times> ipdb" where
  "save_ip_ranges del big t u calc related d =
     sync_rows (\<lambda>i. IpRange_Add t (ip_item_row big u i)) del (ip_row_item big) calc related d"

definition AddIPv4Range :: "bool \<Rightarrow> T_Ipv4NetType \<Rightarrow> CIPv4RangeMsg \<Rightarrow> ipdb \<Rightarrow> rc \<times> ipdb" where
  "AddIPv4Range big t m d =
     (let u = c_str (m_strNetUUID m) in
      if \<not> IsValidIPv4MsgRange m then (IPV4_RANGE_CFG_PARAM_ERROR, d)
      else if \<not> m_bInit d then (ip_intf_error t, d)
      else case ip_msg_item big m of
             Inl c \<Rightarrow> (c, d)
           | Inr tNewItem \<Rightarrow>
               (case IpRange_Query t u d of
                  (nRet, outVInfo, d1) \<Rightarrow>
                    if VNET_DB_SUCCESS \<noteq> nRet then (nRet, d1)
                    else (case related_ip_rows big tNewItem outVInfo [] [] of
                            None \<Rightarrow> (IPV4_RANGE_INVALID, d1)
                          | Some (related, c) \<Rightarrow>
                              if outVInfo = [] \<or> c = [] then
                                (case IpRange_Add t (first_ip_row big m tNewItem) d1 of
                                   (nRet, d2) \<Rightarrow>
                                     if VNET_DB_SUCCESS \<noteq> nRet then (nRet, d2)
                                     else (IPV4_RANGE_OPER_SUCCESS, d2))
                              else (case CIPv4AddrRange_AddRange big tNewItem c of
                                      (nRet, c1) \<Rightarrow>
                                        if 0 \<noteq> nRet then (IPV4_RANGE_CALC_ERROR, d1)
                                        else save_ip_ranges
                                               (if t = NETPLANE then IpRange_ForceDel else IpRange_Del t)
                                               big t u c1 related d1))))"

text \<open>Whether addresses of a range are in use: the only query in which the two kinds call different classes.\<close>

definition ip_occupied :: "bool \<Rightarrow> T_Ipv4NetType \<Rightarrow> string \<Rightarrow> TIPV4AddrRangeItem \<Rightarrow> ipdb \<Rightarrow> rc \<times> int \<times> ipdb" where
  "ip_occupied big t u i =
     (if t = NETPLANE then IpRange_QueryIsUsing u (uint (range_begin big i)) (uint (range_end big i))
      else IpRange_QueryAllocNum t u (uint (range_begin big i)) (uint (range_end big i)))"

definition DelIPv4Range :: "bool \<Rightarrow> T_Ipv4NetType \<Rightarrow> CIPv4RangeMsg \<Rightarrow> ipdb \<Rightarrow> rc \<times> ipdb" where
  "DelIPv4Range big t m d =
     (let u = c_str (m_strNetUUID m) in
      if \<not> IsValidIPv4MsgRange m then (IPV4_RANGE_CFG_PARAM_ERROR, d)
      else if \<not> m_bInit d then (ip_intf_error t, d)
      else case ip_msg_item big m of
             Inl c \<Rightarrow> (c, d)
           | Inr tNewItem \<Rightarrow>
               (case IpRange_Query t u d of
                  (nRet, outVInfo, d1) \<Rightarrow>
                    if VNET_DB_SUCCESS \<noteq> nRet then (nRet, d1)
                    else if outVInfo = [] then (IPV4_RANGE_NOT_EXIST, d1)
                    else (case ip_occupied big t u tNewItem d1 of
                            (nRet, nOccNum, d2) \<Rightarrow>
                              if VNET_DB_SUCCESS \<noteq> nRet then (nRet, d2)
                              else if 0 \<noteq> nOccNum then (IPV4_RANGE_OCCUPIED, d2)
                              else (case related_ip_rows big tNewItem outVInfo [] [] of
                                      None \<Rightarrow> (IPV4_RANGE_INVALID, d2)
                                    | Some (related, c) \<Rightarrow>
                                        if c = [] then (IPV4_RANGE_NOT_EXIST, d2)
                                        else (case CIPv4AddrRange_DelRange big tNewItem c of
                                                (nRet, c1) \<Rightarrow>
                                                  if 0 \<noteq> nRet then (IPV4_RANGE_CALC_ERROR, d2)
                                                  else save_ip_ranges (IpRange_Del t) big t u c1 related d2)))))"

text \<open>
  The message handlers: the return value and the result code of the reply, \<open>None\<close> when none is sent. The
  argument \<open>pMU\<close> tells whether the message unit is set.
\<close>

definition ProcIPv4RangeMsg :: "bool \<Rightarrow> bool \<Rightarrow> T_Ipv4NetType \<Rightarrow> CIPv4RangeMsg \<Rightarrow> ipdb \<Rightarrow> rc \<times> rc option \<times> ipdb" where
  "ProcIPv4RangeMsg pMU big t m d =
     (if \<not> pMU then (- 1, None, d)
      else if \<not> IsValidIPv4Oper m then (- 1, Some IPV4_RANGE_CFG_PARAM_ERROR, d)
      else if m_dwIPv4Oper m = EN_ADD_IPV4_RANGE then
        (case AddIPv4Range big t m d of (nRet, d1) \<Rightarrow> (0, Some nRet, d1))
      else if m_dwIPv4Oper m = EN_DEL_IPV4_RANGE then
        (case DelIPv4Range big t m d of (nRet, d1) \<Rightarrow> (0, Some nRet, d1))
      else (0, Some IPV4_RANGE_CFG_PARAM_ERROR, d))"

section \<open>Reading\<close>

fun load_ip_ranges :: "bool \<Rightarrow> CDbIpRange list \<Rightarrow> TIPV4AddrRangeItem list \<Rightarrow> TIPV4AddrRangeItem list" where
  "load_ip_ranges big [] c = c"
| "load_ip_ranges big (r # rs) c = load_ip_ranges big rs (snd (CIPv4AddrRange_AddValidRange (ip_row_item big r) c))"

definition GetIPv4Range :: "bool \<Rightarrow> T_Ipv4NetType \<Rightarrow> string \<Rightarrow> ipdb \<Rightarrow> rc \<times> TIPV4AddrRangeItem list \<times> ipdb" where
  "GetIPv4Range big t u d =
     (if u = [] then (- 1, [], d)
      else if \<not> m_bInit d then (- 1, [], d)
      else case IpRange_Query t u d of
             (nRet, outVInfo, d1) \<Rightarrow>
               if VNET_DB_SUCCESS \<noteq> nRet then (nRet, [], d1)
               else (0, load_ip_ranges big outVInfo [], d1))"

text \<open>A logic network, cut to the fields that the pool manager reads.\<close>

record CLogicNetwork =
  m_nIPBootProtoMode :: int
  m_cIPv4Range :: "TIPV4AddrRangeItem list"

definition EN_IP_BP_MODE_STATIC :: int where "EN_IP_BP_MODE_STATIC = 0"

text \<open>The caller reads the logic network only after success; \<open>None\<close> stands for a failure.\<close>

definition GetLogicNetwork :: "bool \<Rightarrow> string \<Rightarrow> ipdb \<Rightarrow> CLogicNetwork option \<times> ipdb" where
  "GetLogicNetwork big u d =
     (if u = [] then (None, d)
      else if \<not> m_bInit d then (None, d)
      else case LogicNetwork_Query u d of
             (Inl _, d1) \<Rightarrow> (None, d1)
           | (Inr mode, d1) \<Rightarrow>
               (case IpRange_Query LOGIC_NET u d1 of
                  (nRet, outVInfo, d2) \<Rightarrow>
                    if VNET_DB_SUCCESS \<noteq> nRet then (None, d2)
                    else (Some \<lparr>m_nIPBootProtoMode = mode, m_cIPv4Range = load_ip_ranges big outVInfo []\<rparr>, d2)))"

section \<open>Addresses for the network cards of a virtual machine\<close>

text \<open>The logic network of a card, and the address and mask in its VSI profile (\<open>GetIp\<close>, \<open>GetMask\<close>).\<close>

record CVNetVnicIp = CVNetVnicMem +
  m_strLogicNetworkID :: string
  m_strIP :: string
  m_strMask :: string

text \<open>One static card without an address (lines 89-116). \<open>tItem\<close> is not initialised; it is read after success only.\<close>

definition alloc_ip_for_card :: "bool \<Rightarrow> (nat \<Rightarrow> nat \<Rightarrow> uint8 list) \<Rightarrow> CVNetVnicIp \<Rightarrow> ipdb \<Rightarrow>
    ((unit + TIPv4Addr) \<times> ipdb) option" where
  "alloc_ip_for_card big rnd c d =
     (case GetIPv4Range big LOGIC_NET (m_strLogicNetworkID c) d of
        (nRet, cIPv4AddrRange, d1) \<Rightarrow>
          if 0 \<noteq> nRet then Some (Inl (), d1)
          else if cIPv4AddrRange = [] then Some (Inl (), d1)
          else case AllocIPv4Addr big rnd (m_nNicIndex c) \<lparr>uIP = uaddr_zero, uMask = uaddr_zero\<rparr>
                      (snd (CIPv4AddrPool_Init (m_strLogicNetworkID c) (Some cIPv4AddrRange) LOGIC_NET
                         CIPv4AddrPool_new)) d1 of
                 None \<Rightarrow> None
               | Some (nRet, tItem, d2) \<Rightarrow>
                   if 0 \<noteq> nRet then Some (Inl (), d2) else Some (Inr tItem, d2))"

text \<open>
  The loop over the cards: \<open>seen\<close> are the cards before the iterator. The vector of the machine is set after every
  card that gets an address, so it is the local one at every point. \<open>rnd n\<close> are the bytes drawn for the
  \<open>n\<close>-th card.
\<close>

fun alloc_ip_cards :: "bool \<Rightarrow> (nat \<Rightarrow> nat \<Rightarrow> nat \<Rightarrow> uint8 list) \<Rightarrow> CVNetVnicIp list \<Rightarrow> CVNetVnicIp list \<Rightarrow>
    ipdb \<Rightarrow> (rc \<times> CVNetVnicIp list \<times> ipdb) option" where
  "alloc_ip_cards big rnd seen [] d = Some (0, seen, d)"
| "alloc_ip_cards big rnd seen (c # cs) d =
     (case GetLogicNetwork big (m_strLogicNetworkID c) d of
        (None, d1) \<Rightarrow> Some (- 1, seen @ c # cs, d1)
      | (Some ln, d1) \<Rightarrow>
          if EN_IP_BP_MODE_STATIC \<noteq> m_nIPBootProtoMode ln then alloc_ip_cards big rnd (seen @ [c]) cs d1
          else if m_strIP c \<noteq> [] then alloc_ip_cards big rnd (seen @ [c]) cs d1
          else case alloc_ip_for_card big (rnd (length seen)) c d1 of
                 None \<Rightarrow> None
               | Some (Inl _, d2) \<Rightarrow> Some (- 1, seen @ c # cs, d2)
               | Some (Inr a, d2) \<Rightarrow>
                   alloc_ip_cards big rnd (seen @ [c\<lparr>m_strIP := GetIP a, m_strMask := GetMask a\<rparr>]) cs d2)"

definition AllocIPAddrForVnic :: "bool \<Rightarrow> (nat \<Rightarrow> nat \<Rightarrow> nat \<Rightarrow> uint8 list) \<Rightarrow> CVNetVnicIp list \<Rightarrow> ipdb \<Rightarrow>
    (rc \<times> CVNetVnicIp list \<times> ipdb) option" where
  "AllocIPAddrForVnic big rnd vm d = alloc_ip_cards big rnd [] vm d"

text \<open>
  The release of texts to a pool: a text that \<open>Set\<close> refuses is only logged, and the pool is asked to free the
  address of the fresh \<open>CIPv4Addr\<close>, 0.0.0.0.
\<close>

definition free_ip_text :: "bool \<Rightarrow> T_Ipv4NetType \<Rightarrow> string \<Rightarrow> string \<Rightarrow> string \<Rightarrow> ipdb \<Rightarrow> rc \<times> ipdb" where
  "free_ip_text big t u ip msk d =
     FreeIPv4Addr big (snd (Set_text ip msk \<lparr>uIP = uaddr_zero, uMask = uaddr_zero\<rparr>))
       (snd (CIPv4AddrPool_Init_free u t CIPv4AddrPool_new)) d"

fun free_ip_cards :: "bool \<Rightarrow> CVNetVnicIp list \<Rightarrow> ipdb \<Rightarrow> rc \<times> CVNetVnicIp list \<times> ipdb" where
  "free_ip_cards big [] d = (0, [], d)"
| "free_ip_cards big (c # cs) d =
     (case GetLogicNetwork big (m_strLogicNetworkID c) d of
        (None, d1) \<Rightarrow> (- 1, c # cs, d1)
      | (Some ln, d1) \<Rightarrow>
          if EN_IP_BP_MODE_STATIC \<noteq> m_nIPBootProtoMode ln \<or> m_strIP c = [] \<or> m_strMask c = [] then
            (case free_ip_cards big cs d1 of (r, cs', d2) \<Rightarrow> (r, c # cs', d2))
          else case free_ip_text big LOGIC_NET (m_strLogicNetworkID c) (m_strIP c) (m_strMask c) d1 of
                 (r, d2) \<Rightarrow>
                   if 0 \<noteq> r then (- 1, c # cs, d2)
                   else (case free_ip_cards big cs d2 of
                           (r, cs', d3) \<Rightarrow> (r, c\<lparr>m_strIP := [], m_strMask := []\<rparr> # cs', d3)))"

text \<open>The vector of the machine is only set at the end.\<close>

definition FreeIPAddrForVnic :: "bool \<Rightarrow> CVNetVnicIp list \<Rightarrow> ipdb \<Rightarrow> rc \<times> CVNetVnicIp list \<times> ipdb" where
  "FreeIPAddrForVnic big vm d =
     (case free_ip_cards big vm d of (r, vm', d1) \<Rightarrow> if r \<noteq> 0 then (r, vm, d1) else (0, vm', d1))"

section \<open>Addresses for netplanes\<close>

text \<open>The key is \<open>random()\<close>. On success the texts of the address, otherwise the return code only.\<close>

definition NetplaneAllocIPAddr :: "bool \<Rightarrow> (nat \<Rightarrow> nat \<Rightarrow> uint8 list) \<Rightarrow> uint32 \<Rightarrow> string \<Rightarrow> ipdb \<Rightarrow>
    (rc \<times> (string \<times> string) option \<times> ipdb) option" where
  "NetplaneAllocIPAddr big rnd random u d =
     (case GetIPv4Range big NETPLANE u d of
        (nRet, cIPv4AddrRange, d1) \<Rightarrow>
          if 0 \<noteq> nRet then Some (- 1, None, d1)
          else if cIPv4AddrRange = [] then Some (- 1, None, d1)
          else case AllocIPv4Addr big rnd random \<lparr>uIP = uaddr_zero, uMask = uaddr_zero\<rparr>
                      (snd (CIPv4AddrPool_Init u (Some cIPv4AddrRange) NETPLANE CIPv4AddrPool_new)) d1 of
                 None \<Rightarrow> None
               | Some (nRet, tItem, d2) \<Rightarrow>
                   if 0 \<noteq> nRet then Some (- 1, None, d2)
                   else Some (0, Some (GetIP tItem, GetMask tItem), d2))"

definition NetplaneFreeIPAddr :: "bool \<Rightarrow> string \<Rightarrow> string \<Rightarrow> string \<Rightarrow> ipdb \<Rightarrow> rc \<times> ipdb" where
  "NetplaneFreeIPAddr big u ip msk d =
     (if ip = [] \<or> msk = [] then (- 1, d)
      else case free_ip_text big NETPLANE u ip msk d of
             (r, d1) \<Rightarrow> if 0 \<noteq> r then (- 1, d1) else (0, d1))"

end
