(* ===== verification/Ipv4Subnet.thy ===== *)
theory Ipv4Subnet
  imports Ipv4PoolMgr
begin

text \<open>
  Subnets: the ranges that the IPv4 manager works on at one time have one mask and one network part. What the
  container does to them, and when two subnets meet. A subnet is a pair of words in network order.
\<close>

section \<open>The hosts of a subnet\<close>

type_synonym subnet = "uint32 \<times> uint32"

text \<open>The address with a number.\<close>

definition net_uaddr :: "uint32 \<Rightarrow> UNIPv4AddrType" where
  "net_uaddr w = uaddr_of_dw True w"

lemma net_word_uaddr [simp]: "net_word (net_uaddr w) = w"
  using dwAddr_uaddr_of_dw [of True w] by (simp add: net_uaddr_def dwAddr_def net_word_def)

lemma net_uaddr_word [simp]: "net_uaddr (net_word u) = u"
  using uaddr_of_dw_dwAddr [of True u] by (simp add: net_uaddr_def dwAddr_def net_word_def)

lemma net_word_inject [simp]: "net_word u = net_word v \<longleftrightarrow> u = v"
  by (metis net_uaddr_word)

lemma uaddr_of_dw_H2NL: "uaddr_of_dw big (H2NL big w) = net_uaddr w"
proof -
  have "net_word (uaddr_of_dw big (H2NL big w)) = w"
    using N2HL_net_word [of big "uaddr_of_dw big (H2NL big w)"] H2NL_N2HL [of big w]
    by (simp add: dwAddr_uaddr_of_dw H2NL_eq_N2HL)
  then show ?thesis by (metis net_uaddr_word)
qed

lemma TIPv4Addr_eta [simp]: "\<lparr>uIP = uIP a, uMask = uMask a\<rparr> = (a :: TIPv4Addr)"
  by (cases a) simp

definition subnet_of :: "TIPV4AddrRangeItem \<Rightarrow> subnet" where
  "subnet_of i = (let m = net_word (uMask (tIPStart i)) in (m, net_word (uIP (tIPStart i)) AND m))"

definition hosts :: "subnet \<Rightarrow> nat set" where
  "hosts s = {n. n < 2 ^ 32 \<and> (of_nat n AND fst s) = snd s \<and>
                 IsValid False \<lparr>uIP = net_uaddr (of_nat n), uMask = net_uaddr (fst s)\<rparr>}"

lemma IsValid_host: "IsValid big a = IsValid False a"
  by (simp add: IsValid_iff)

lemma hosts_word:
  "unat w \<in> hosts (m, s) \<longleftrightarrow> (w AND m) = s \<and> IsValid False \<lparr>uIP = net_uaddr w, uMask = net_uaddr m\<rparr>"
  using unat32_less [of w] by (simp add: hosts_def)

text \<open>The hosts of a subnet are all the addresses between any two of them.\<close>

lemma hosts_between:
  fixes a b w :: uint32
  assumes "unat a \<in> hosts s" and "unat b \<in> hosts s" and "a \<le> w" and "w \<le> b"
  shows "unat w \<in> hosts s"
proof -
  obtain m t where s: "s = (m, t)" by (cases s)
  have "IsValid False \<lparr>uIP = net_uaddr a, uMask = net_uaddr m\<rparr>"
    and "IsValid False \<lparr>uIP = net_uaddr b, uMask = net_uaddr m\<rparr>"
    and am: "(a AND m) = t" and bm: "(b AND m) = t" using assms(1,2) by (simp_all add: s hosts_word)
  note v = this(1,2) [unfolded IsValid_iff Let_def net_word_high [symmetric], simplified]
  obtain k where k: "0 < k" "k < 32" "m = prefix_mask k" using v(1) by blast
  note q = and_prefix_mask_eq [of _ k]
  have ab: "unat a div 2 ^ (32 - k) = unat b div 2 ^ (32 - k)" using am bm q [of a b] by (simp add: k(3))
  have le: "unat a \<le> unat w" "unat w \<le> unat b" using assms(3,4) by (simp_all add: word_le_nat_alt)
  have "unat w div 2 ^ (32 - k) = unat a div 2 ^ (32 - k)"
    using ab div_le_mono [OF le(1), of "2 ^ (32 - k)"] div_le_mono [OF le(2), of "2 ^ (32 - k)"] by linarith
  then have wm: "(w AND m) = t" using am q [of w a] by (simp add: k(3))
  have half: "x div 2 ^ 31 = x div 2 ^ (32 - k) div 2 ^ (k - 1)" for x :: nat
    using k(1,2) by (simp add: div_mult2_eq [symmetric] power_add [symmetric])
  have ab31: "unat a div 2 ^ 31 = unat b div 2 ^ 31" unfolding half ab ..
  have c: "unat a div 2 ^ 24 \<le> unat w div 2 ^ 24" "unat w div 2 ^ 24 \<le> unat b div 2 ^ 24"
    using le by (intro div_le_mono; simp)+
  have "unat w div 2 ^ 24 \<noteq> 127"
  proof
    assume w: "unat w div 2 ^ 24 = 127"
    have "unat a div 2 ^ 24 \<noteq> 127" "unat b div 2 ^ 24 \<noteq> 127" using v by simp_all
    then have "unat a div 2 ^ 24 < 127" "127 < unat b div 2 ^ 24" using c w by simp_all
    then have "unat a div 2 ^ 24 div 2 ^ 7 = 0" "unat b div 2 ^ 24 div 2 ^ 7 \<noteq> 0" by simp_all
    then show False using ab31 by (simp add: div_mult2_eq [symmetric])
  qed
  moreover have "(x OR NOT m) = (t OR NOT m)" if "(x AND m) = t" for x
    using that by (auto simp: bit_eq_iff bit_simps)
  note this [OF bm] this [OF wm]
  ultimately have "IsValid False \<lparr>uIP = net_uaddr w, uMask = net_uaddr m\<rparr>"
    unfolding IsValid_iff Let_def net_word_high [symmetric] using v c k am bm wm assms(3,4) by auto
  then show ?thesis using wm by (simp add: s hosts_word)
qed

lemma hosts_bound: "hosts s \<subseteq> ip_bound"
proof
  fix n assume n: "n \<in> hosts s"
  then have "ip_num (net_uaddr (of_nat n)) \<in> ip_bound" using IsValid_bound by (fastforce simp: hosts_def)
  moreover have "unat (of_nat n :: uint32) = n" using n by (intro unat_of_nat32) (simp add: hosts_def)
  ultimately show "n \<in> ip_bound" by (simp add: ip_num_def)
qed

section \<open>Ranges of one subnet\<close>

definition good_ip_item :: "subnet \<Rightarrow> TIPV4AddrRangeItem \<Rightarrow> bool" where
  "good_ip_item s i \<longleftrightarrow> IsValidIPv4Range False i \<and> IsSameSubnet False i \<and> subnet_of i = s"

lemma IsValidIPv4Range_masks:
  assumes "IsValidIPv4Range big i"
  shows "uMask (tIPEnd i) = uMask (tIPStart i)"
proof -
  have v: "IsValid big (tIPStart i)" "IsValid big (tIPEnd i)"
    and "GetMaskPrefixLen big (tIPStart i) = GetMaskPrefixLen big (tIPEnd i)"
    using assms by (auto simp: IsValidIPv4Range_def Let_def split: if_splits)
  then have "net_word (uMask (tIPEnd i)) = net_word (uMask (tIPStart i))"
    using IsValidMask_prefix_len(2) [OF v(1)] IsValidMask_prefix_len(2) [OF v(2)] by simp
  then show ?thesis by simp
qed

lemma IsSameSubnet_host: "IsSameSubnet big i = IsSameSubnet False i"
  by (simp add: IsSameSubnet_net)

lemma good_ip_item_host:
  "IsValidIPv4Range big i \<Longrightarrow> IsSameSubnet big i \<Longrightarrow> good_ip_item (subnet_of i) i"
  by (simp add: good_ip_item_def IsValidIPv4Range_host [of big] IsSameSubnet_host [of big])

text \<open>A good range: both masks are that of the subnet, and all its addresses are hosts of the subnet.\<close>

lemma good_ip_item_iff:
  "good_ip_item s i \<longleftrightarrow>
     uMask (tIPStart i) = net_uaddr (fst s) \<and> uMask (tIPEnd i) = net_uaddr (fst s) \<and>
     valid_range (ip_to_range False i) \<and> ip_item_set i \<subseteq> hosts s"
    (is "_ \<longleftrightarrow> ?R")
proof
  let ?a = "net_word (uIP (tIPStart i))" and ?b = "net_word (uIP (tIPEnd i))"
  assume g: "good_ip_item s i"
  have v: "IsValidIPv4Range False i" "IsSameSubnet False i" "subnet_of i = s" using g by (simp_all add: good_ip_item_def)
  note mk = IsValidIPv4Range_masks [OF v(1)]
  have f: "net_word (uMask (tIPStart i)) = fst s" using v(3) by (auto simp: subnet_of_def Let_def)
  then have ms: "uMask (tIPStart i) = net_uaddr (fst s)" by (metis net_uaddr_word)
  have an: "(?a AND fst s) = snd s" "(?b AND fst s) = snd s"
    using v(2,3) f by (cases s; simp add: subnet_of_def Let_def IsSameSubnet_net mk)+
  have "IsValid False (tIPStart i)" "IsValid False (tIPEnd i)"
    using v(1) by (auto simp: IsValidIPv4Range_def Let_def split: if_splits)
  then have "IsValid False \<lparr>uIP = net_uaddr ?a, uMask = net_uaddr (fst s)\<rparr>"
    "IsValid False \<lparr>uIP = net_uaddr ?b, uMask = net_uaddr (fst s)\<rparr>"
    by (simp add: ms [symmetric], simp only: ms [symmetric] mk [symmetric] net_uaddr_word TIPv4Addr_eta)
  then have h: "unat ?a \<in> hosts s" "unat ?b \<in> hosts s" using an hosts_word [of _ "fst s" "snd s"] by simp_all
  have "ip_item_set i \<subseteq> hosts s"
  proof
    fix n assume n: "n \<in> ip_item_set i"
    then have un: "unat (of_nat n :: uint32) = n"
      using unat32_less [of ?b] by (intro unat_of_nat32) (simp add: ip_item_set_def ip_num_def)
    have "unat (of_nat n :: uint32) \<in> hosts s"
      using n by (intro hosts_between [OF h]) (simp_all add: word_le_nat_alt un ip_item_set_def ip_num_def)
    then show "n \<in> hosts s" by (simp add: un)
  qed
  then show ?R using ms mk IsValidIPv4Range_range(1) [OF v(1)] by simp
next
  let ?a = "net_word (uIP (tIPStart i))" and ?b = "net_word (uIP (tIPEnd i))"
  assume r: ?R
  have le: "unat ?a \<le> unat ?b" using r by (simp add: valid_range_nat ip_to_range_net)
  then have h: "unat ?a \<in> hosts s" "unat ?b \<in> hosts s" using r by (auto simp: ip_item_set_def ip_num_def)
  have an: "(?a AND fst s) = snd s" "(?b AND fst s) = snd s"
    "IsValid False \<lparr>uIP = uIP (tIPStart i), uMask = net_uaddr (fst s)\<rparr>"
    "IsValid False \<lparr>uIP = uIP (tIPEnd i), uMask = net_uaddr (fst s)\<rparr>"
    using h hosts_word [of _ "fst s" "snd s"] by simp_all
  have "tIPStart i = \<lparr>uIP = uIP (tIPStart i), uMask = net_uaddr (fst s)\<rparr>"
    "tIPEnd i = \<lparr>uIP = uIP (tIPEnd i), uMask = net_uaddr (fst s)\<rparr>"
    using r TIPv4Addr_eta by metis+
  then have "IsValid False (tIPStart i)" "IsValid False (tIPEnd i)" using an(3,4) by simp_all
  moreover have "GetMaskPrefixLen False (tIPStart i) = GetMaskPrefixLen False (tIPEnd i)"
    using r by (simp add: GetMaskPrefixLen_def)
  ultimately have "IsValidIPv4Range False i"
    using le by (simp add: IsValidIPv4Range_def Let_def N2HL_net_word word_le_nat_alt not_less)
  then show "good_ip_item s i"
    using r an(1,2) by (simp add: good_ip_item_def IsSameSubnet_net subnet_of_def Let_def)
qed

text \<open>Lists of ranges of one subnet.\<close>

definition good_ips :: "subnet \<Rightarrow> TIPV4AddrRangeItem list \<Rightarrow> bool" where
  "good_ips s c \<longleftrightarrow> (\<forall>i \<in> set c. good_ip_item s i)"

lemma good_ips_sub: "good_ips s c \<Longrightarrow> ips c \<subseteq> hosts s"
  by (fastforce simp: good_ips_def ips_def good_ip_item_iff)

text \<open>A result of the range arithmetic within the hosts gives good ranges.\<close>

lemma ip_to_range_host: "ip_to_range big = ip_to_range False"
  by (simp add: fun_eq_iff ip_to_range_net)

lemma good_ips_of_ranges:
  assumes "good_ip_item s r" and "\<forall>x \<in> set out. valid_range x" and "coll_set out \<subseteq> hosts s"
  shows "good_ips s (map (ip_of_range big r) out)"
  unfolding good_ips_def
proof
  fix i assume "i \<in> set (map (ip_of_range big r) out)"
  then obtain x where x: "x \<in> set out" "i = ip_of_range big r x" by auto
  have b: "ip_to_range False i = x" using ip_range_roundtrip [of big r x] x(2) ip_to_range_host [of big] by simp
  have "range_set x \<subseteq> hosts s" using coll_set_member [OF x(1)] assms(3) by blast
  then have "ip_item_set i \<subseteq> hosts s" using range_set_ip [of False i] by (simp add: b)
  then show "good_ip_item s i"
    using assms(1,2) x b by (simp add: good_ip_item_iff) (simp add: ip_of_range_def)
qed

lemma ip_of_range_inj: "inj_on (ip_of_range big r) S"
  by (rule inj_on_inverseI [of _ "ip_to_range big"]) simp

text \<open>Ranges of one subnet are determined by their bounds.\<close>

lemma good_ip_item_eq:
  assumes "good_ip_item s i" and "good_ip_item s j" and "ip_to_range big i = ip_to_range big j"
  shows "i = j"
proof -
  have "uIP (tIPStart i) = uIP (tIPStart j)" "uIP (tIPEnd i) = uIP (tIPEnd j)"
    using assms(3) by (simp_all add: ip_to_range_net)
  then show ?thesis
    using assms(1,2) by (cases i; cases j; cases "tIPStart i"; cases "tIPStart j"; cases "tIPEnd i"; cases "tIPEnd j")
      (simp add: good_ip_item_iff)
qed

section \<open>Adding and deleting in one subnet\<close>

lemma AddRange_ip_rows:
  assumes "c \<noteq> []" and "good_ips s c" and "good_ip_item s r"
  shows "\<exists>out. CIPv4AddrRange_AddRange big r c = (0, out) \<and> ips out = ips c \<union> ip_item_set r \<and>
           distinct out \<and> good_ips s out \<and> apart (map (ip_to_range False) out)"
proof -
  let ?f = "ip_to_range big"
  let ?m = "GetMergedRangeColl (ra_added (map ?f c) (?f r))"
  have r: "IsValidIPv4Range big r" "valid_range (?f r)" "ip_item_set r \<subseteq> hosts s"
    using assms(3) by (simp add: good_ip_item_def IsValidIPv4Range_host [of big],
        simp_all add: good_ip_item_iff ip_to_range_host [of big])
  have val: "\<forall>x \<in> set (?f r # map ?f c). valid_range x"
    using assms(2) r(2) by (auto simp: good_ips_def good_ip_item_iff ip_to_range_host [of big])
  have bm: "\<forall>x \<in> set (?f r # map ?f c). below_max x"
  proof
    fix x assume x: "x \<in> set (?f r # map ?f c)"
    then obtain i where i: "x = ?f i" "good_ip_item s i" using assms(2,3) by (auto simp: good_ips_def)
    then have "ip_item_set i \<subseteq> {0x01000000..0xDFFFFFFF}"
      using hosts_bound [of s] by (auto simp: good_ip_item_iff ip_bound_def)
    moreover have "valid_range x" using val x by blast
    ultimately show "below_max x"
      using i(1) by (intro below_max_bounded [where lo = "0x01000000" and hi = "0xDFFFFFFF"]) simp_all
  qed
  note m = ra_added_merges [OF val]
  have can: "canonical ?m" by (rule m(3) [OF bm])
  have run: "CIPv4AddrRange_AddRange big r c = (0, map (ip_of_range big r) ?m)"
    using assms(1) r(1) m(2) by (simp add: CIPv4AddrRange_AddRange_def ra_added_def Let_def)
  have vl: "ips (map (ip_of_range big r) ?m) = ips c \<union> ip_item_set r"
    using m(1) by (simp add: ips_of_ranges)
  have "good_ips s (map (ip_of_range big r) ?m)"
  proof (rule good_ips_of_ranges [OF assms(3)])
    show "\<forall>x \<in> set ?m. valid_range x" using can by (simp add: canonical_def)
    show "coll_set ?m \<subseteq> hosts s" using m(1) good_ips_sub [OF assms(2)] r(3) by simp
  qed
  moreover have "distinct (map (ip_of_range big r) ?m)"
    using canonical_distinct [OF can] ip_of_range_inj by (simp add: distinct_map)
  moreover have "apart (map (ip_to_range False) (map (ip_of_range big r) ?m))"
    using canonical_apart [OF can] by (simp flip: ip_to_range_host [of big])
  ultimately show ?thesis using run vl by blast
qed

lemma DelRange_ip_rows:
  assumes "c \<noteq> []" and "good_ips s c" and "apart (map (ip_to_range False) c)" and "good_ip_item s r"
    and "CIPv4AddrRange_DelRange big r c = (0, c')"
  shows "ip_item_set r \<subseteq> ips c" and "ips c' = ips c - ip_item_set r" and "distinct c'" and "good_ips s c'"
    and "apart (map (ip_to_range False) c')"
proof -
  have v: "IsValidIPv4Range big r" using assms(4) by (simp add: good_ip_item_def IsValidIPv4Range_host [of big])
  have inv: "ip_inv c"
    using assms(3) good_ips_sub [OF assms(2)] hosts_bound [of s] by (auto simp: ip_inv_def)
  show cov: "ip_item_set r \<subseteq> ips c"
  proof (rule ccontr)
    assume "\<not> ?thesis"
    from CIPv4AddrRange_DelRange_missing [OF inv v this] assms(1,5) show False by simp
  qed
  from CIPv4AddrRange_DelRange_done [OF inv v cov] assms(5)
  have o: "ip_inv c'" "ips c' = ips c - ip_item_set r" by simp_all
  show "ips c' = ips c - ip_item_set r" by (rule o(2))
  show ap: "apart (map (ip_to_range False) c')" using o(1) by (simp add: ip_inv_def)
  show "distinct c'" using apart_distinct [OF ap] by (simp add: distinct_map)
  obtain out where out: "c' = map (ip_of_range big r) out"
    using assms(5) by (auto simp: CIPv4AddrRange_DelRange_def Let_def split: if_splits prod.splits)
  have "map (ip_to_range False) c' = out" by (simp add: out flip: ip_to_range_host [of big])
  then have "\<forall>x \<in> set out. valid_range x" using ap by (simp add: apart_def)
  moreover have "coll_set out \<subseteq> hosts s"
    using o(2) good_ips_sub [OF assms(2)] by (simp add: out ips_of_ranges) blast
  ultimately show "good_ips s c'" unfolding out using good_ips_of_ranges [OF assms(4)] by simp
qed

end
