(* ===== verification/Ipv4Tables.thy ===== *)
theory Ipv4Tables
  imports Ipv4Pool
begin

text \<open>
  What the operations on the tables of allocated IPv4 addresses do to the rows, whatever happens to their
  calls: the relation \<open>ip_run\<close> lists the rows that a sequence of calls has added.
\<close>

section \<open>One kind of network\<close>

lemma tabs_set_tabs [simp]:
  "tabs t (set_tabs t' x d) = (if t = t' then x else tabs t d)" "set_tabs t x (set_tabs t y d) = set_tabs t x d"
  "set_tabs t (tabs t d) d = d"
  by (cases t; cases t'; simp)+

lemma set_tabs_sel [simp]:
  "env (set_tabs t x d) = env d" "m_bInit (set_tabs t x d) = m_bInit d" "vsi_ip_id (set_tabs t x d) = vsi_ip_id d"
  "netplane (set_tabs t x d) = netplane d" "logic_network (set_tabs t x d) = logic_network d"
  "net_lookup t' u (set_tabs t x d) = net_lookup t' u d" "port_group (set_tabs t x d) = port_group d"
  "vm_pg (set_tabs t x d) = vm_pg d"
  by (cases t; cases t'; simp add: ln_lookup_def np_lookup_def)+

lemma env_tabs [simp]:
  "tabs t (d\<lparr>env := e\<rparr>) = tabs t d" "net_lookup t u (d\<lparr>env := e\<rparr>) = net_lookup t u d"
  "(set_tabs t x d)\<lparr>env := e\<rparr> = set_tabs t x (d\<lparr>env := e\<rparr>)"
  by (cases t; simp add: ln_lookup_def np_lookup_def)+

section \<open>What changes and what does not\<close>

text \<open>The database without the outcomes to come and without the allocated addresses of one kind.\<close>

definition ip_rest :: "T_Ipv4NetType \<Rightarrow> ipdb \<Rightarrow> ipdb" where
  "ip_rest t d = (set_tabs t ((tabs t d)\<lparr>ip_pool := [], serial_ip_pool := 0\<rparr>) d)\<lparr>env := []\<rparr>"

definition ip_kept :: "T_Ipv4NetType \<Rightarrow> ipdb \<Rightarrow> ipdb \<Rightarrow> bool" where
  "ip_kept t d d' \<longleftrightarrow>
     ip_rest t d = ip_rest t d' \<and> serial_ip_pool (tabs t d) \<le> serial_ip_pool (tabs t d')"

abbreviation pool_of :: "T_Ipv4NetType \<Rightarrow> ipdb \<Rightarrow> ip_pool_row list" where
  "pool_of t d \<equiv> ip_pool (tabs t d)"

abbreviation ranges_of :: "T_Ipv4NetType \<Rightarrow> ipdb \<Rightarrow> ip_range_row list" where
  "ranges_of t d \<equiv> ip_range (tabs t d)"

text \<open>The numbers of the ranges of a network, and those allocated to it.\<close>

definition ip_nums :: "T_Ipv4NetType \<Rightarrow> ipdb \<Rightarrow> int \<Rightarrow> int set" where
  "ip_nums t d n =
     {k. \<exists>r \<in> set (ranges_of t d). ir_net_id r = n \<and> ir_begin_num r \<le> k \<and> k \<le> ir_end_num r}"

definition ip_alloc :: "T_Ipv4NetType \<Rightarrow> ipdb \<Rightarrow> int \<Rightarrow> int set" where
  "ip_alloc t d n = ia_num ` {r \<in> set (pool_of t d). ia_net_id r = n}"

lemma ip_kept_refl [simp]: "ip_kept t d d"
  by (simp add: ip_kept_def)

lemma ip_kept_trans: "ip_kept t a b \<Longrightarrow> ip_kept t b c \<Longrightarrow> ip_kept t a c"
  by (auto simp: ip_kept_def)

lemma ip_kept_sel:
  assumes "ip_kept t d d'"
  shows "m_bInit d' = m_bInit d" "vsi_ip_id d' = vsi_ip_id d" "ranges_of t d' = ranges_of t d"
    "t' \<noteq> t \<Longrightarrow> tabs t' d' = tabs t' d" "net_lookup t' u d' = net_lookup t' u d"
    "ip_nums t' d' = ip_nums t' d" "logic_network d' = logic_network d" "ranges_of t' d' = ranges_of t' d"
    "serial_ip_range (tabs t' d') = serial_ip_range (tabs t' d)" "netplane d' = netplane d"
    "port_group d' = port_group d" "vm_pg d' = vm_pg d"
proof -
  have e: "f (ip_rest t d) = f (ip_rest t d')" for f :: "ipdb \<Rightarrow> 'b" using assms by (simp only: ip_kept_def)
  show "m_bInit d' = m_bInit d" using e [of m_bInit] by (simp add: ip_rest_def)
  show "vsi_ip_id d' = vsi_ip_id d" using e [of vsi_ip_id] by (simp add: ip_rest_def)
  show r: "ranges_of t d' = ranges_of t d" using e [of "ranges_of t"] by (simp add: ip_rest_def)
  show o: "t' \<noteq> t \<Longrightarrow> tabs t' d' = tabs t' d" for t' using e [of "tabs t'"] by (simp add: ip_rest_def)
  show "net_lookup t' u d' = net_lookup t' u d" using e [of "net_lookup t' u"] by (simp add: ip_rest_def)
  show s: "ranges_of t' d' = ranges_of t' d" using r o [of t'] by (cases "t' = t") simp_all
  show "ip_nums t' d' = ip_nums t' d" using s by (simp add: fun_eq_iff ip_nums_def)
  have "serial_ip_range (tabs t d') = serial_ip_range (tabs t d)"
    using e [of "\<lambda>d. serial_ip_range (tabs t d)"] by (simp add: ip_rest_def)
  then show "serial_ip_range (tabs t' d') = serial_ip_range (tabs t' d)" using o [of t'] by (cases "t' = t") simp_all
  show "logic_network d' = logic_network d" using e [of logic_network] by (simp add: ip_rest_def)
  show "netplane d' = netplane d" using e [of netplane] by (simp add: ip_rest_def)
  show "port_group d' = port_group d" using e [of port_group] by (simp add: ip_rest_def)
  show "vm_pg d' = vm_pg d" using e [of vm_pg] by (simp add: ip_rest_def)
qed

lemma same_tables_ip:
  assumes "same_tables d d'"
  shows "ip_kept t d d'" and "tabs t d' = tabs t d"
proof -
  have e: "f (d\<lparr>env := []\<rparr>) = f (d'\<lparr>env := []\<rparr>)" for f :: "ipdb \<Rightarrow> 'b" using assms by (simp only: same_tables_def)
  show "tabs t d' = tabs t d" using e [of "tabs t"] by simp
  then show "ip_kept t d d'" using e [of "ip_rest t"] by (simp add: ip_kept_def ip_rest_def)
qed

section \<open>Rows that are added\<close>

definition ip_text_of :: "int \<Rightarrow> string" where
  "ip_text_of n = show_uaddr (uaddr_of_dw True (word_of_int n))"

text \<open>A row that an allocation for network \<open>u\<close>, from ranges with the masks \<open>M\<close>, may add to \<open>d\<close>.\<close>

definition fresh_ip :: "T_Ipv4NetType \<Rightarrow> string \<Rightarrow> int set \<Rightarrow> ipdb \<Rightarrow> ip_pool_row \<Rightarrow> bool" where
  "fresh_ip t u M d r \<longleftrightarrow>
     net_lookup t u d = Some (ia_net_id r) \<and> ia_num r \<in> ip_nums t d (ia_net_id r) \<and>
     ia_num r \<notin> ip_alloc t d (ia_net_id r) \<and> 0 \<le> ia_num r \<and> ia_num r < 2 ^ 32 \<and> ia_mask_num r \<in> M \<and>
     ia_ip r = ip_text_of (ia_num r) \<and> ia_mask r = ip_text_of (ia_mask_num r) \<and>
     serial_ip_pool (tabs t d) < ia_id r"

inductive ip_run :: "T_Ipv4NetType \<Rightarrow> string \<Rightarrow> int set \<Rightarrow> ipdb \<Rightarrow> ip_pool_row list \<Rightarrow> ipdb \<Rightarrow> bool"
  for t u M where
  idle: "ip_kept t d d' \<Longrightarrow> pool_of t d' = pool_of t d \<Longrightarrow> ip_run t u M d [] d'"
| save: "ip_run t u M d rs d1 \<Longrightarrow> fresh_ip t u M d1 r \<Longrightarrow> ip_kept t d1 d2 \<Longrightarrow>
     pool_of t d2 = pool_of t d1 @ [r] \<Longrightarrow> ia_id r \<le> serial_ip_pool (tabs t d2) \<Longrightarrow> ip_run t u M d (rs @ [r]) d2"

lemma ip_run_same: "same_tables d d' \<Longrightarrow> ip_run t u M d [] d'"
  using same_tables_ip [of d d' t] by (auto intro: ip_run.idle)

lemma ip_run_idle_after:
  assumes "ip_run t u M a rs b" and "ip_kept t b c" and "pool_of t c = pool_of t b"
  shows "ip_run t u M a rs c"
  using assms
proof (cases rule: ip_run.cases)
  case idle
  then show ?thesis using assms ip_kept_trans by (auto intro: ip_run.idle)
next
  case (save rs' d1 r)
  have "serial_ip_pool (tabs t b) \<le> serial_ip_pool (tabs t c)" using assms(2) by (simp add: ip_kept_def)
  then show ?thesis unfolding save(1)
    using ip_run.save [OF save(2,3) ip_kept_trans [OF save(4) assms(2)]] save(5,6) assms(3) by simp
qed

lemma ip_run_trans: "ip_run t u M b rs' c \<Longrightarrow> ip_run t u M a rs b \<Longrightarrow> ip_run t u M a (rs @ rs') c"
proof (induction rule: ip_run.induct)
  case (idle d d')
  then show ?case using ip_run_idle_after by simp
next
  case (save d rs' d1 r d2)
  then show ?case using ip_run.save [of t u M a "rs @ rs'" d1 r d2] by simp
qed

text \<open>The rows of a run, seen from its start.\<close>

lemma ip_run_rows:
  "ip_run t u M d rs d' \<Longrightarrow>
     ip_kept t d d' \<and> pool_of t d' = pool_of t d @ rs \<and> (\<forall>r \<in> set rs. fresh_ip t u M d r) \<and>
     distinct (map ia_num rs) \<and> distinct (map ia_id rs) \<and> (\<forall>r \<in> set rs. ia_id r \<le> serial_ip_pool (tabs t d'))"
proof (induction rule: ip_run.induct)
  case (save d rs d1 r d2)
  note ih = save.IH and k = save.hyps(3) and f = save.hyps(2)
  have kd: "ip_kept t d d1" and p: "pool_of t d1 = pool_of t d @ rs" using ih by simp_all
  have s: "serial_ip_pool (tabs t d) \<le> serial_ip_pool (tabs t d1)" "serial_ip_pool (tabs t d1) \<le> serial_ip_pool (tabs t d2)"
    using kd k by (simp_all add: ip_kept_def)
  have sub: "ip_alloc t d n \<subseteq> ip_alloc t d1 n" for n using p by (auto simp: ip_alloc_def)
  have "fresh_ip t u M d r" using f s(1) sub ip_kept_sel(5,6) [OF kd] by (auto simp: fresh_ip_def)
  moreover have "ia_num x \<noteq> ia_num r" if "x \<in> set rs" for x
  proof -
    have "ia_net_id x = ia_net_id r" using ih f that ip_kept_sel(5) [OF kd] by (auto simp: fresh_ip_def)
    then have "ia_num x \<in> ip_alloc t d1 (ia_net_id r)" using p that by (auto simp: ip_alloc_def)
    then show ?thesis using f by (auto simp: fresh_ip_def)
  qed
  moreover have "ia_id x \<noteq> ia_id r" if "x \<in> set rs" for x using ih f that by (fastforce simp: fresh_ip_def)
  ultimately show ?case
    using ih save.hyps(4,5) p s ip_kept_trans [OF kd k] by (fastforce simp: image_iff)
qed simp

section \<open>Saving an address\<close>

lemma check_add_ip_free:
  assumes "pf_net_check_add_ippool t m d = 0"
  shows "\<exists>n. net_lookup t (IpUuid m) d = Some n \<and> IpNum m \<in> ip_nums t d n \<and> IpNum m \<notin> ip_alloc t d n"
  using assms
  by (auto simp: pf_net_check_add_ippool_def rtn_defs ip_nums_def ip_alloc_def filter_empty_conv
      split: option.splits if_splits)

lemma check_add_ip_code: "0 \<le> pf_net_check_add_ippool t m d \<and>
    pf_net_check_add_ippool t m d \<noteq> RTN_HAS_SAME_ITEM"
  by (auto simp: pf_net_check_add_ippool_def rtn_defs split: option.splits)

text \<open>A row as \<open>SaveIPv4Addr2DB\<close> builds it.\<close>

definition ip_texts :: "CDbIpPool \<Rightarrow> bool" where
  "ip_texts m \<longleftrightarrow> IpStr m = ip_text_of (IpNum m) \<and> MaskStr m = ip_text_of (MaskNum m) \<and> 0 \<le> IpNum m \<and> IpNum m < 2 ^ 32"

lemma word_of_addr: "uaddr_of_dw True (net_word u) = u"
  using uaddr_of_dw_dwAddr [of True u] by (simp add: dwAddr_def net_word_def)

lemma ip_texts_row: "ip_texts (ip_row big u a)"
  using uint_lt2p [of "net_word (uIP a)"]
  by (simp add: ip_texts_def ip_row_def N2HL_net_word ip_text_of_def word_of_addr GetIP_def GetMask_def)

lemma IpUuid_ip_row [simp]: "IpUuid (ip_row big u a) = u"
  by (simp add: ip_row_def)

definition saved_ip :: "T_Ipv4NetType \<Rightarrow> CDbIpPool \<Rightarrow> ipdb \<Rightarrow> ipdb \<Rightarrow> bool" where
  "saved_ip t m d d' \<longleftrightarrow>
     (\<exists>r. ip_run t (IpUuid m) {MaskNum m} d [r] d' \<and> ia_num r = IpNum m \<and> ia_mask_num r = MaskNum m)"

lemma saved_ipI:
  assumes "ip_kept t d d'" and "pool_of t d' = pool_of t d @ [r]" and "fresh_ip t (IpUuid m) {MaskNum m} d r"
    and "ia_id r \<le> serial_ip_pool (tabs t d')" and "ia_num r = IpNum m"
  shows "saved_ip t m d d'"
  using ip_run.save [OF ip_run.idle [of t d d "IpUuid m" "{MaskNum m}"] assms(3) assms(1,2,4)] assms(3,5)
  by (auto simp: saved_ip_def fresh_ip_def)

lemma pf_net_add_ippool_effect:
  assumes "pf_net_add_ippool t m d = Some (ret, d')" and "ip_texts m"
  shows "0 \<le> ret \<and> ret \<noteq> RTN_HAS_SAME_ITEM \<and>
         (if ret = 0 then saved_ip t m d d' else ip_kept t d d' \<and> pool_of t d' = pool_of t d)"
proof (cases "pf_net_check_add_ippool t m d = 0")
  case False
  then have "ret = pf_net_check_add_ippool t m d \<and> d' = d"
    using assms(1) check_add_ip_code [of t m d] by (auto simp: pf_net_add_ippool_def Let_def split: if_splits)
  then show ?thesis using False check_add_ip_code [of t m d] by simp
next
  case True
  obtain n where n: "net_lookup t (IpUuid m) d = Some n" "IpNum m \<in> ip_nums t d n" "IpNum m \<notin> ip_alloc t d n"
    using check_add_ip_free [OF True] by blast
  let ?x = "(tabs t d)\<lparr>serial_ip_pool := serial_ip_pool (tabs t d) + 1\<rparr>"
  let ?r = "\<lparr>ia_id = serial_ip_pool (tabs t d) + 1, ia_net_id = n, ia_ip = IpStr m, ia_mask = MaskStr m,
             ia_num = IpNum m, ia_mask_num = MaskNum m\<rparr>"
  let ?d1 = "set_tabs t ?x d"
  have i: "(case insert_ip_pool t ?r ?d1 of None \<Rightarrow> Some (RTN_OPERATOR_FAILED, ?d1) | Some d2 \<Rightarrow> Some (0, d2)) =
      Some (ret, d')"
    using assms(1) True n(1) by (simp add: pf_net_add_ippool_def Let_def)
  have k: "ip_kept t d ?d1" by (simp add: ip_kept_def ip_rest_def)
  show ?thesis
  proof (cases "insert_ip_pool t ?r ?d1")
    case None
    then show ?thesis using i k by (auto simp: rtn_defs)
  next
    case (Some d2)
    then have e: "ret = 0" "d' = set_tabs t (?x\<lparr>ip_pool := pool_of t d @ [?r]\<rparr>) d"
      using i by (auto simp: insert_ip_pool_def Let_def split: if_splits)
    have "ip_kept t d d'" by (simp add: e ip_kept_def ip_rest_def)
    moreover have "fresh_ip t (IpUuid m) {MaskNum m} d ?r"
      using n assms(2) by (simp add: fresh_ip_def ip_texts_def)
    ultimately show ?thesis by (auto simp: e rtn_defs intro!: saved_ipI [where r = ?r])
  qed
qed

lemma saved_ip_after:
  assumes "ip_kept t a b" and "pool_of t b = pool_of t a" and "saved_ip t m b c"
  shows "saved_ip t m a c"
  using assms ip_run_trans [OF _ ip_run.idle [OF assms(1,2)]] by (fastforce simp: saved_ip_def)

lemma IpPool_CheckAdd_effect:
  assumes "IpPool_CheckAdd t m d = (ret, d')"
  shows "same_tables d d'"
  using assms unfolding IpPool_CheckAdd_def by (cases rule: db_add_op_cases) auto

lemma IpPool_Add_effect:
  assumes "IpPool_Add t m d = (ret, d')" and "ip_texts m"
  shows "(ip_kept t d d' \<and> pool_of t d' = pool_of t d \<and> ret \<noteq> 0) \<or> saved_ip t m d d'"
  using assms(1) unfolding IpPool_Add_def
proof (cases rule: db_add_op_cases)
  case idle
  then show ?thesis using same_tables_ip [of d d' t] by auto
next
  case (ran d1 a)
  note e = pf_net_add_ippool_effect [OF ran(2) assms(2)] and s = same_tables_ip [OF ran(1), of t]
  have s2: "pool_of t d1 = pool_of t d" using s(2) by simp
  show ?thesis
  proof (cases "a = 0")
    case True
    then show ?thesis using e saved_ip_after [OF s(1) s2] by simp
  next
    case False
    then have "ip_kept t d1 d'" "pool_of t d' = pool_of t d1" "ret \<noteq> 0" using e ran(3) by auto
    then show ?thesis using ip_kept_trans [OF s(1)] s2 by simp
  qed
qed

lemma SaveIPv4Addr2DB_effect:
  assumes "SaveIPv4Addr2DB big t u a d = (ret, d')"
  shows "ret \<in> {0, - 1}"
    and "\<exists>rs. ip_run t u {MaskNum (ip_row big u a)} d rs d'"
    and "ret = 0 \<Longrightarrow> saved_ip t (ip_row big u a) d d'"
proof -
  let ?m = "ip_row big u a"
  obtain r1 d1 where c: "IpPool_CheckAdd t ?m d = (r1, d1)" by fastforce
  obtain r2 d2 where f: "IpPool_Add t ?m d1 = (r2, d2)" by fastforce
  note s = same_tables_ip [OF IpPool_CheckAdd_effect [OF c], of t]
  have s2: "pool_of t d1 = pool_of t d" using s(2) by simp
  have e: "(ip_kept t d d2 \<and> pool_of t d2 = pool_of t d \<and> r2 \<noteq> 0) \<or> saved_ip t ?m d d2"
    using IpPool_Add_effect [OF f ip_texts_row] s2 ip_kept_trans [OF s(1)] saved_ip_after [OF s(1) s2] by auto
  have i: "\<exists>rs. ip_run t u {MaskNum ?m} d rs x" if "ip_kept t d x" "pool_of t x = pool_of t d" for x
    using ip_run.idle [OF that] by blast
  have g: "\<exists>rs. ip_run t u {MaskNum ?m} d rs d" "\<exists>rs. ip_run t u {MaskNum ?m} d rs d1"
    using i s(1) s2 by simp_all
  have g2: "\<exists>rs. ip_run t u {MaskNum ?m} d rs d2" using e i by (auto simp: saved_ip_def)
  show "ret \<in> {0, - 1}" "\<exists>rs. ip_run t u {MaskNum ?m} d rs d'" "ret = 0 \<Longrightarrow> saved_ip t ?m d d'"
    using assms c f e g g2 by (auto simp: SaveIPv4Addr2DB_def VNET_DB_SUCCESS_def split: if_splits)
qed

lemma fresh_ip_mono: "fresh_ip t u M d r \<Longrightarrow> M \<subseteq> M' \<Longrightarrow> fresh_ip t u M' d r"
  by (auto simp: fresh_ip_def)

lemma ip_run_mono: "ip_run t u M d rs d' \<Longrightarrow> M \<subseteq> M' \<Longrightarrow> ip_run t u M' d rs d'"
  by (induction rule: ip_run.induct) (auto intro: ip_run.idle ip_run.save fresh_ip_mono)

end
