(* ===== verification/Ipv4RangeStore.thy ===== *)
theory Ipv4RangeStore
  imports Ipv4Subnet Ipv4Tables
begin

text \<open>
  The rows of one subnet in a table of IPv4 ranges as the store of \<open>range_store\<close>: what \<open>Add\<close>, \<open>Del\<close> and \<open>ForceDel\<close> of
  the operation classes do to the ranges of one logic network or netplane, and that they touch nothing else.
  The texts of a row are not determined by its numbers: the first row of a subnet keeps the texts of the message.
\<close>

section \<open>Rows and ranges\<close>

lemma num_uaddr_net: "num_uaddr big n = net_uaddr (word_of_int n)"
  by (simp add: num_uaddr_def uaddr_of_dw_H2NL)

lemma ip_row_item_host: "ip_row_item big = ip_row_item False"
  by (simp add: fun_eq_iff ip_row_item_def num_uaddr_net)

lemma ip_item_row_host: "ip_item_row big u = ip_item_row False u"
  by (simp add: fun_eq_iff ip_item_row_def range_begin_def range_end_def N2HL_net_word)

definition row_subnet :: "CDbIpRange \<Rightarrow> subnet" where
  "row_subnet r = (word_of_int (RgMaskNum r), word_of_int (RgBeginNum r) AND word_of_int (RgMaskNum r))"

lemma subnet_of_row: "subnet_of (ip_row_item big r) = row_subnet r"
  by (simp add: subnet_of_def Let_def ip_row_item_def num_uaddr_net row_subnet_def)

definition to_ip_row :: "string \<Rightarrow> ip_range_row \<Rightarrow> CDbIpRange" where
  "to_ip_row u r = \<lparr>RgUuid = u, RgBeginNum = ir_begin_num r, RgEndNum = ir_end_num r, RgMaskNum = ir_mask_num r,
     RgBeginStr = ir_begin r, RgEndStr = ir_end r, RgMaskStr = ir_mask r\<rparr>"

text \<open>The rows of a network, those of one subnet of it, and their ranges.\<close>

definition ip_net_rows :: "T_Ipv4NetType \<Rightarrow> string \<Rightarrow> ipdb \<Rightarrow> CDbIpRange list" where
  "ip_net_rows t u d = map (to_ip_row u) (filter (\<lambda>r. Some (ir_net_id r) = net_lookup t u d) (ip_range (tabs t d)))"

definition subnet_rows :: "subnet \<Rightarrow> T_Ipv4NetType \<Rightarrow> string \<Rightarrow> ipdb \<Rightarrow> CDbIpRange list" where
  "subnet_rows s t u d = filter (\<lambda>r. row_subnet r = s) (ip_net_rows t u d)"

definition subnet_ranges :: "subnet \<Rightarrow> T_Ipv4NetType \<Rightarrow> string \<Rightarrow> ipdb \<Rightarrow> TIPV4AddrRangeItem list" where
  "subnet_ranges s t u d = map (ip_row_item False) (subnet_rows s t u d)"

lemma pf_net_query_iprange_rows: "pf_net_query_iprange t u d = Some (ip_net_rows t u d, d)"
  by (auto simp: pf_net_query_iprange_def ip_net_rows_def to_ip_row_def split: option.splits)

definition num32 :: "int \<Rightarrow> bool" where "num32 n \<longleftrightarrow> 0 \<le> n \<and> n < 2 ^ 32"

lemma num32_word: "num32 n \<Longrightarrow> uint (word_of_int n :: uint32) = n"
  by (simp add: num32_def uint_word_of_int)

lemma num32_uint [simp]: "num32 (uint (w :: uint32))"
  using uint_lt2p [of w] by (simp add: num32_def)

definition good_ip_row :: "string \<Rightarrow> subnet \<Rightarrow> CDbIpRange \<Rightarrow> bool" where
  "good_ip_row u s r \<longleftrightarrow> RgUuid r = u \<and> good_ip_item s (ip_row_item False r) \<and>
     num32 (RgBeginNum r) \<and> num32 (RgEndNum r) \<and> num32 (RgMaskNum r)"

lemma ip_item_row_sel [simp]:
  "RgUuid (ip_item_row big u i) = u" "RgBeginNum (ip_item_row big u i) = uint (net_word (uIP (tIPStart i)))"
  "RgEndNum (ip_item_row big u i) = uint (net_word (uIP (tIPEnd i)))"
  "RgMaskNum (ip_item_row big u i) = uint (net_word (uMask (tIPEnd i)))"
  by (simp_all add: ip_item_row_def range_begin_def range_end_def N2HL_net_word)

lemma ip_row_item_row [simp]:
  assumes "good_ip_item s i"
  shows "ip_row_item big (ip_item_row big' u i) = i"
  using assms by (cases i; cases "tIPStart i"; cases "tIPEnd i") (simp add: ip_row_item_def num_uaddr_net good_ip_item_iff)

lemma good_ip_item_row:
  assumes "good_ip_item s i"
  shows "good_ip_row u s (ip_item_row big u i)" and "row_subnet (ip_item_row big u i) = s"
proof -
  show "good_ip_row u s (ip_item_row big u i)" using assms by (simp add: good_ip_row_def)
  show "row_subnet (ip_item_row big u i) = s"
    using assms subnet_of_row [of False "ip_item_row big u i"] by (simp add: good_ip_item_def)
qed

section \<open>What \<open>Add\<close> and \<open>Del\<close> change\<close>

text \<open>Two databases that agree on all but the ranges of network \<open>u\<close> in one subnet.\<close>

definition other_ip_row :: "subnet \<Rightarrow> T_Ipv4NetType \<Rightarrow> string \<Rightarrow> ipdb \<Rightarrow> ip_range_row \<Rightarrow> bool" where
  "other_ip_row s t u d r \<longleftrightarrow> Some (ir_net_id r) \<noteq> net_lookup t u d \<or> row_subnet (to_ip_row u r) \<noteq> s"

definition range_rest :: "T_Ipv4NetType \<Rightarrow> ipdb \<Rightarrow> ipdb" where
  "range_rest t d = (set_tabs t ((tabs t d)\<lparr>ip_range := [], serial_ip_range := 0\<rparr>) d)\<lparr>env := []\<rparr>"

definition ip_rest_same :: "subnet \<Rightarrow> T_Ipv4NetType \<Rightarrow> string \<Rightarrow> ipdb \<Rightarrow> ipdb \<Rightarrow> bool" where
  "ip_rest_same s t u d d' \<longleftrightarrow> range_rest t d = range_rest t d' \<and>
     filter (other_ip_row s t u d) (ranges_of t d) = filter (other_ip_row s t u d) (ranges_of t d')"

lemma range_rest_sel:
  assumes "range_rest t d = range_rest t d'"
  shows "net_lookup t' v d' = net_lookup t' v d" "pool_of t' d' = pool_of t' d" "m_bInit d' = m_bInit d"
    "t' \<noteq> t \<Longrightarrow> tabs t' d' = tabs t' d" "vsi_ip_id d' = vsi_ip_id d" "logic_network d' = logic_network d"
    "serial_ip_pool (tabs t' d') = serial_ip_pool (tabs t' d)" "netplane d' = netplane d"
    "port_group d' = port_group d" "vm_pg d' = vm_pg d"
proof -
  have e: "f (range_rest t d) = f (range_rest t d')" for f :: "ipdb \<Rightarrow> 'b" using assms by (rule arg_cong)
  show "net_lookup t' v d' = net_lookup t' v d" using e [of "net_lookup t' v"] by (simp add: range_rest_def)
  show o: "t' \<noteq> t \<Longrightarrow> tabs t' d' = tabs t' d" for t' using e [of "tabs t'"] by (simp add: range_rest_def)
  have "pool_of t d' = pool_of t d" using e [of "pool_of t"] by (simp add: range_rest_def)
  then show "pool_of t' d' = pool_of t' d" using o [of t'] by (cases "t' = t") simp_all
  have "serial_ip_pool (tabs t d') = serial_ip_pool (tabs t d)"
    using e [of "\<lambda>d. serial_ip_pool (tabs t d)"] by (simp add: range_rest_def)
  then show "serial_ip_pool (tabs t' d') = serial_ip_pool (tabs t' d)" using o [of t'] by (cases "t' = t") simp_all
  show "m_bInit d' = m_bInit d" using e [of m_bInit] by (simp add: range_rest_def)
  show "vsi_ip_id d' = vsi_ip_id d" using e [of vsi_ip_id] by (simp add: range_rest_def)
  show "logic_network d' = logic_network d" using e [of logic_network] by (simp add: range_rest_def)
  show "netplane d' = netplane d" using e [of netplane] by (simp add: range_rest_def)
  show "port_group d' = port_group d" using e [of port_group] by (simp add: range_rest_def)
  show "vm_pg d' = vm_pg d" using e [of vm_pg] by (simp add: range_rest_def)
qed

lemma ip_rest_same_range_rest: "ip_rest_same s t u d d' \<Longrightarrow> range_rest t d = range_rest t d'"
  by (simp add: ip_rest_same_def)

lemmas ip_rest_same_sel = range_rest_sel [OF ip_rest_same_range_rest]

lemma ip_rest_same_refl [simp]: "ip_rest_same s t u d d"
  by (simp add: ip_rest_same_def)

lemma other_ip_row_same: "net_lookup t u d' = net_lookup t u d \<Longrightarrow> other_ip_row s t u d' = other_ip_row s t u d"
  by (simp add: fun_eq_iff other_ip_row_def)

lemma ip_rest_same_trans: "ip_rest_same s t u a b \<Longrightarrow> ip_rest_same s t u b c \<Longrightarrow> ip_rest_same s t u a c"
  using ip_rest_same_sel(1) [of s t u a b t u] other_ip_row_same [of t u b a s] by (simp add: ip_rest_same_def)

lemma same_tables_ip_ranges:
  assumes "same_tables d d'"
  shows "ranges_of t d' = ranges_of t d" "net_lookup t u d' = net_lookup t u d" "ip_net_rows t u d' = ip_net_rows t u d"
    "subnet_rows s t u d' = subnet_rows s t u d" "ip_rest_same s t u d d'" "range_rest t d = range_rest t d'"
proof -
  note k = same_tables_ip [OF assms, of t]
  show r: "ranges_of t d' = ranges_of t d" and l: "net_lookup t u d' = net_lookup t u d"
    using k(2) ip_kept_sel(5) [OF k(1)] by simp_all
  show n: "ip_net_rows t u d' = ip_net_rows t u d" by (simp only: ip_net_rows_def r l)
  then show "subnet_rows s t u d' = subnet_rows s t u d" by (simp add: subnet_rows_def)
  have "(set_tabs t x d)\<lparr>env := []\<rparr> = (set_tabs t x d')\<lparr>env := []\<rparr>" for x
    using arg_cong [OF assms [unfolded same_tables_def], of "set_tabs t x"] by simp
  then show rr: "range_rest t d = range_rest t d'" by (simp add: range_rest_def k(2))
  then show "ip_rest_same s t u d d'" by (simp add: ip_rest_same_def r)
qed

lemma subnet_rows_eq:
  "subnet_rows s t u d = map (to_ip_row u) (filter (\<lambda>r. \<not> other_ip_row s t u d r) (ranges_of t d))"
  by (auto simp: subnet_rows_def ip_net_rows_def filter_map o_def other_ip_row_def intro!: arg_cong [where f = "map _"] filter_cong)

lemma check_add_iprange_code: "0 \<le> pf_net_check_add_iprange t r d \<and> pf_net_check_add_iprange t r d \<noteq> RTN_HAS_SAME_ITEM"
  by (auto simp: pf_net_check_add_iprange_def rtn_defs split: option.splits)

lemma pf_net_add_iprange_effect:
  assumes "pf_net_add_iprange t r d = Some (ret, d')" and "row_subnet r = s"
  shows "ip_rest_same s t (RgUuid r) d d' \<and> 0 \<le> ret \<and> ret \<noteq> RTN_HAS_SAME_ITEM \<and>
         (if ret = 0 then subnet_rows s t (RgUuid r) d' = subnet_rows s t (RgUuid r) d @ [r] \<and>
                          pf_net_check_add_iprange t r d = 0
          else subnet_rows s t (RgUuid r) d' = subnet_rows s t (RgUuid r) d)"
proof (cases "pf_net_check_add_iprange t r d = 0")
  case False
  then have "ret = pf_net_check_add_iprange t r d \<and> d' = d"
    using assms(1) check_add_iprange_code [of t r d] by (auto simp: pf_net_add_iprange_def Let_def split: if_splits)
  then show ?thesis using False check_add_iprange_code [of t r d] by simp
next
  case True
  then obtain n where n: "net_lookup t (RgUuid r) d = Some n"
    by (auto simp: pf_net_check_add_iprange_def rtn_defs split: option.splits)
  let ?u = "RgUuid r"
  let ?x = "(tabs t d)\<lparr>serial_ip_range := serial_ip_range (tabs t d) + 1\<rparr>"
  let ?d1 = "set_tabs t ?x d"
  let ?r = "\<lparr>ir_id = serial_ip_range (tabs t d) + 1, ir_net_id = n, ir_begin = RgBeginStr r, ir_end = RgEndStr r,
    ir_mask = RgMaskStr r, ir_begin_num = RgBeginNum r, ir_end_num = RgEndNum r, ir_mask_num = RgMaskNum r\<rparr>"
  have i: "(case insert_ip_range t ?r ?d1 of None \<Rightarrow> Some (RTN_OPERATOR_FAILED, ?d1)
            | Some d2 \<Rightarrow> Some (0, d2)) = Some (ret, d')"
    using assms(1) True n by (simp add: pf_net_add_iprange_def Let_def)
  have o1: "other_ip_row s t ?u ?d1 = other_ip_row s t ?u d" by (rule other_ip_row_same) simp
  have same: "subnet_rows s t ?u ?d1 = subnet_rows s t ?u d" "ip_rest_same s t ?u d ?d1"
    by (simp_all add: subnet_rows_eq o1 ip_rest_same_def range_rest_def)
  show ?thesis
  proof (cases "insert_ip_range t ?r ?d1")
    case None
    then show ?thesis using i same by (auto simp: rtn_defs)
  next
    case (Some d2)
    then have d': "ret = 0" "d' = set_tabs t (?x\<lparr>ip_range := ranges_of t d @ [?r]\<rparr>) d"
      using i by (auto simp: insert_ip_range_def Let_def split: if_splits)
    have o2: "other_ip_row s t ?u d' = other_ip_row s t ?u d" by (rule other_ip_row_same) (simp add: d'(2))
    have tr: "to_ip_row ?u ?r = r" by (simp add: to_ip_row_def)
    then have mine: "\<not> other_ip_row s t ?u d ?r" using assms(2) n by (simp add: other_ip_row_def)
    have "ip_rest_same s t ?u d d'" using d' mine by (simp add: ip_rest_same_def range_rest_def)
    moreover have "subnet_rows s t ?u d' = subnet_rows s t ?u d @ [r]"
      unfolding subnet_rows_eq o2 using mine tr d'(2) by simp
    ultimately show ?thesis using d'(1) True by (simp add: rtn_defs)
  qed
qed

lemma is_ip_range_row_eq: "is_ip_range_row n r x \<longleftrightarrow> ir_net_id x = n \<and> to_ip_row (RgUuid r) x = r"
  by (cases r) (auto simp: is_ip_range_row_def to_ip_row_def)

lemma pf_net_del_iprange_effect:
  assumes "pf_net_del_iprange t r d = Some (ret, d')" and "row_subnet r = s"
  shows "ip_rest_same s t (RgUuid r) d d' \<and> 0 \<le> ret \<and>
         (if ret = 0 then subnet_rows s t (RgUuid r) d' = filter (\<lambda>x. x \<noteq> r) (subnet_rows s t (RgUuid r) d)
          else subnet_rows s t (RgUuid r) d' = subnet_rows s t (RgUuid r) d)"
proof (cases "ret = 0")
  case False
  then show ?thesis using assms(1)
    by (auto simp: pf_net_del_iprange_def rtn_defs Let_def split: if_splits option.splits)
next
  case True
  let ?u = "RgUuid r"
  obtain n where n: "net_lookup t ?u d = Some n"
    and d': "d' = set_tabs t ((tabs t d)\<lparr>ip_range := filter (\<lambda>y. \<not> is_ip_range_row n r y) (ranges_of t d)\<rparr>) d"
    using assms(1) True by (auto simp: pf_net_del_iprange_def rtn_defs Let_def split: if_splits option.splits)
  have o2: "other_ip_row s t ?u d' = other_ip_row s t ?u d" by (rule other_ip_row_same) (simp add: d')
  have mine: "\<not> other_ip_row s t ?u d x" if "is_ip_range_row n r x" for x
    using that assms(2) n by (auto simp: is_ip_range_row_eq other_ip_row_def)
  have "subnet_rows s t ?u d' = filter (\<lambda>x. x \<noteq> r) (subnet_rows s t ?u d)"
    unfolding subnet_rows_eq o2 using n
    by (auto simp: d' filter_map o_def is_ip_range_row_eq other_ip_row_def
        intro!: arg_cong [where f = "map _"] filter_cong)
  moreover have "ip_rest_same s t ?u d d'"
    using mine by (auto simp: ip_rest_same_def range_rest_def d' intro!: filter_cong)
  ultimately show ?thesis using True by simp
qed

text \<open>The operations of the classes, whatever happens to the call.\<close>

lemma IpRange_Add_effect:
  assumes "IpRange_Add t r d = (ret, d')" and "RgUuid r = u" and "row_subnet r = s"
  shows "ip_rest_same s t u d d'" and "ret = 0 \<Longrightarrow> subnet_rows s t u d' = subnet_rows s t u d @ [r]"
    and "subnet_rows s t u d' = subnet_rows s t u d \<or>
         subnet_rows s t u d' = subnet_rows s t u d @ [r] \<and> (\<exists>d1. same_tables d d1 \<and> pf_net_check_add_iprange t r d1 = 0)"
proof -
  have "ip_rest_same s t u d d' \<and> (ret = 0 \<longrightarrow> subnet_rows s t u d' = subnet_rows s t u d @ [r]) \<and>
        (subnet_rows s t u d' = subnet_rows s t u d \<or>
         subnet_rows s t u d' = subnet_rows s t u d @ [r] \<and> (\<exists>d1. same_tables d d1 \<and> pf_net_check_add_iprange t r d1 = 0))"
    using assms(1) unfolding IpRange_Add_def
  proof (cases rule: db_add_op_cases)
    case idle
    then show ?thesis using same_tables_ip_ranges by auto
  next
    case (ran d1 a)
    note e = pf_net_add_iprange_effect [OF ran(2) assms(3), unfolded assms(2)]
    have "ip_rest_same s t u d d'" using e same_tables_ip_ranges(5) [OF ran(1)] ip_rest_same_trans by blast
    moreover have "subnet_rows s t u d1 = subnet_rows s t u d" by (rule same_tables_ip_ranges(4) [OF ran(1)])
    ultimately show ?thesis using e ran(1,3) by (cases "a = 0") auto
  qed
  then show "ip_rest_same s t u d d'" and "ret = 0 \<Longrightarrow> subnet_rows s t u d' = subnet_rows s t u d @ [r]"
    and "subnet_rows s t u d' = subnet_rows s t u d \<or>
         subnet_rows s t u d' = subnet_rows s t u d @ [r] \<and> (\<exists>d1. same_tables d d1 \<and> pf_net_check_add_iprange t r d1 = 0)"
    by auto
qed

lemma db_del_iprange_effect:
  assumes "db_del_op (pf_net_del_iprange t r) d = (ret, d')" and "RgUuid r = u" and "row_subnet r = s"
  shows "ip_rest_same s t u d d' \<and> (ret = 0 \<longrightarrow> subnet_rows s t u d' = filter (\<lambda>x. x \<noteq> r) (subnet_rows s t u d)) \<and>
         (subnet_rows s t u d' = subnet_rows s t u d \<or>
          subnet_rows s t u d' = filter (\<lambda>x. x \<noteq> r) (subnet_rows s t u d))"
  using assms(1)
proof (cases rule: db_del_op_cases)
  case idle
  then show ?thesis using same_tables_ip_ranges by auto
next
  case (ran d1 a)
  note e = pf_net_del_iprange_effect [OF ran(2) assms(3)]
  show ?thesis
    using e ran(1,3) same_tables_ip_ranges(4,5) [OF ran(1)] ip_rest_same_trans [of s t u d d1 d']
      assms(2) by (auto split: if_splits)
qed

lemma IpRange_ForceDel_Del: "IpRange_ForceDel = IpRange_Del NETPLANE"
  by (simp add: fun_eq_iff IpRange_ForceDel_def IpRange_Del_def)

text \<open>Reading the rows changes nothing, and an answer is the rows of the network.\<close>

lemma IpRange_Query_effect:
  assumes "IpRange_Query t u d = (ret, rows, d')"
  shows "same_tables d d'" and "ret = 0 \<Longrightarrow> rows = ip_net_rows t u d"
proof -
  have "same_tables d d' \<and> (ret = 0 \<longrightarrow> rows = ip_net_rows t u d)"
    using assms unfolding IpRange_Query_def
  proof (cases rule: db_query_op_cases)
    case (ran d1 xs)
    have "d' = d1 \<and> xs = ip_net_rows t u d1" using ran(2) by (auto simp: pf_net_query_iprange_rows)
    then show ?thesis using ran same_tables_ip_ranges(3) [OF ran(1)] by simp
  qed auto
  then show "same_tables d d'" and "ret = 0 \<Longrightarrow> rows = ip_net_rows t u d" by auto
qed

section \<open>The store of one network and one subnet\<close>

definition subnet_rows_ok :: "subnet \<Rightarrow> T_Ipv4NetType \<Rightarrow> string \<Rightarrow> ipdb \<Rightarrow> bool" where
  "subnet_rows_ok s t u d \<longleftrightarrow> distinct (subnet_ranges s t u d) \<and> (\<forall>r \<in> set (subnet_rows s t u d). good_ip_row u s r)"

definition ip_store_inv :: "subnet \<Rightarrow> T_Ipv4NetType \<Rightarrow> string \<Rightarrow> ipdb \<Rightarrow> ipdb \<Rightarrow> bool" where
  "ip_store_inv s t u d0 d \<longleftrightarrow> ip_rest_same s t u d0 d \<and> subnet_rows_ok s t u d"

lemma ip_store_inv_row:
  "ip_store_inv s t u d0 d \<Longrightarrow> r \<in> set (subnet_rows s t u d) \<Longrightarrow> RgUuid r = u \<and> row_subnet r = s"
  by (auto simp: ip_store_inv_def subnet_rows_ok_def good_ip_row_def subnet_rows_def)

interpretation ip_store: range_store "ip_store_inv s t u d0" "\<lambda>d. set (subnet_rows s t u d)"
  "good_ip_item s" "ip_row_item big" "\<lambda>i. IpRange_Add t (ip_item_row big u i)" "IpRange_Del t" for s t u d0 big
proof (unfold_locales, goal_cases)
  case (1 d)
  then show ?case
    by (simp add: ip_row_item_host [of big] ip_store_inv_def subnet_rows_ok_def subnet_ranges_def distinct_map)
next
  case (2 d i)
  obtain ret d' where a: "IpRange_Add t (ip_item_row big u i) d = (ret, d')" by fastforce
  note g = good_ip_item_row [OF 2(2), where u = u and big = big]
  note e = IpRange_Add_effect [OF a _ g(2), where u = u]
  have "ip_row_item False (ip_item_row big u i) = i" using 2(2) by simp
  then show ?case
    using 2 e(1,3) a g(1) ip_rest_same_trans [of s t u d0 d d']
    by (auto simp: ip_row_item_host [of big] ip_store_inv_def subnet_rows_ok_def subnet_ranges_def)
next
  case (3 d i)
  obtain ret d' where a: "IpRange_Add t (ip_item_row big u i) d = (ret, d')" by fastforce
  note e = IpRange_Add_effect(2) [OF a _ good_ip_item_row(2) [OF 3(2)], where u = u]
  show ?case using e 3(2,4) a by (intro exI [of _ "ip_item_row big u i"]) simp
next
  case (4 d i)
  obtain ret d' where a: "IpRange_Add t (ip_item_row big u i) d = (ret, d')" by fastforce
  note e = IpRange_Add_effect(3) [OF a _ good_ip_item_row(2) [OF 4(2)], where u = u]
  show ?case
  proof (cases "subnet_rows s t u d' = subnet_rows s t u d")
    case False
    then show ?thesis using e a 4(2) by (intro disjI2 exI [of _ "ip_item_row big u i"]) simp
  qed (simp add: a)
next
  case (5 d r)
  obtain ret d' where a: "IpRange_Del t r d = (ret, d')" by fastforce
  note r = ip_store_inv_row [OF 5]
  note e = db_del_iprange_effect [OF a [unfolded IpRange_Del_def], where u = u and s = s]
  show ?case
    using 5 e r a ip_rest_same_trans [of s t u d0 d d']
    by (auto simp: ip_store_inv_def subnet_rows_ok_def subnet_ranges_def intro: distinct_map_filter)
next
  case (6 d r)
  obtain ret d' where a: "IpRange_Del t r d = (ret, d')" by fastforce
  show ?case
    using db_del_iprange_effect [OF a [unfolded IpRange_Del_def], where u = u and s = s] ip_store_inv_row [OF 6(1,2)] 6(3) a by auto
next
  case (7 d r)
  obtain ret d' where a: "IpRange_Del t r d = (ret, d')" by fastforce
  show ?case
    using db_del_iprange_effect [OF a [unfolded IpRange_Del_def], where u = u and s = s] ip_store_inv_row [OF 7] a by auto
qed

end
