(* ===== verification/Ipv4Alloc.thy ===== *)
theory Ipv4Alloc
  imports Ipv4Tables
begin

text \<open>
  The properties of \<open>CIPv4AddrPool\<close>: what an allocation that returns has done, whatever the database and the
  UUIDs were; where a drawn address lies; which ranges make the process trap.
\<close>

section \<open>A run of calls\<close>

text \<open>
  Calls from \<open>d\<close> to \<open>d'\<close> that only added rows for network \<open>u\<close> with masks in \<open>M\<close>; when an address is handed out,
  one of the new rows is its row.
\<close>

definition ip_done :: "T_Ipv4NetType \<Rightarrow> string \<Rightarrow> int set \<Rightarrow> ipdb \<Rightarrow> ipdb \<Rightarrow> CDbIpPool option \<Rightarrow> bool" where
  "ip_done t u M d d' x \<longleftrightarrow>
     (\<exists>rs. ip_run t u M d rs d' \<and>
           (\<forall>m. x = Some m \<longrightarrow> (\<exists>r \<in> set rs. ia_num r = IpNum m \<and> ia_mask_num r = MaskNum m)))"

lemma ip_done_trans:
  assumes "ip_done t u M a b y" and "ip_done t u M b c x"
  shows "ip_done t u M a c x"
proof -
  obtain rs where "ip_run t u M a rs b" using assms(1) by (auto simp: ip_done_def)
  moreover obtain rs' where "ip_run t u M b rs' c"
    "\<forall>m. x = Some m \<longrightarrow> (\<exists>r \<in> set rs'. ia_num r = IpNum m \<and> ia_mask_num r = MaskNum m)"
    using assms(2) by (auto simp: ip_done_def)
  ultimately show ?thesis
    using ip_run_trans unfolding ip_done_def by (intro exI [of _ "rs @ rs'"]) auto
qed

lemma ip_done_mono: "ip_done t u M a b x \<Longrightarrow> M \<subseteq> M' \<Longrightarrow> ip_done t u M' a b x"
  unfolding ip_done_def using ip_run_mono by blast

lemma ip_done_same: "same_tables d d' \<Longrightarrow> ip_done t u M d d' None"
  unfolding ip_done_def using ip_run_same by blast

lemma ip_done_refl: "ip_done t u M d d None"
  by (simp add: ip_done_same)

lemma SaveIPv4Addr2DB_done:
  assumes "SaveIPv4Addr2DB big t u a d = (ret, d')" and "uMask a = mk"
  shows "ip_done t u {uint (net_word mk)} d d' (if ret = 0 then Some (ip_row big u a) else None)"
proof -
  have m: "MaskNum (ip_row big u a) = uint (net_word mk)" using assms(2) by (simp add: ip_row_def N2HL_net_word)
  show ?thesis
  proof (cases "ret = 0")
    case True
    then obtain r where "ip_run t u {uint (net_word mk)} d [r] d'" "ia_num r = IpNum (ip_row big u a)"
      "ia_mask_num r = MaskNum (ip_row big u a)"
      using SaveIPv4Addr2DB_effect(3) [OF assms(1)] by (auto simp: saved_ip_def m)
    then show ?thesis using True unfolding ip_done_def by (intro exI [of _ "[r]"]) simp
  next
    case False
    then show ?thesis using SaveIPv4Addr2DB_effect(2) [OF assms(1)] by (simp add: ip_done_def m)
  qed
qed

section \<open>The attempts in one range\<close>

lemma try_alloc_ip_step:
  assumes "SaveIPv4Addr2DB big t u a d = (r1, d1)"
  shows "try_alloc_ip big rnd t u key r a n d =
    (if r1 = 0 then Some (Inr a, d1)
     else if n + 1 > 15 then Some (Inl (), d1)
     else if (n + 1) mod 5 = 0 then
       (case CalcIPv4Addr big (rnd (n + 1)) key r of
          None \<Rightarrow> None | Some b \<Rightarrow> try_alloc_ip big rnd t u key r b (n + 1) d1)
     else if range_end big r - range_begin big r + 1 = 0 then None
     else try_alloc_ip big rnd t u key r (next_ip big r (if n + 1 > 10 then 100000 else 1) a) (n + 1) d1)"
  using assms by (subst try_alloc_ip.simps) (simp add: Let_def split: option.split)

lemma CalcIPv4Addr_mask: "CalcIPv4Addr big uuid key r = Some a \<Longrightarrow> uMask a = uMask (tIPStart r)"
  by (auto simp: CalcIPv4Addr_def Let_def split: option.splits)

lemma next_ip_mask [simp]: "uMask (next_ip big r k a) = uMask a"
  by (simp add: next_ip_def Let_def)

text \<open>After a failed attempt: the next address, with the mask of the range, or no return.\<close>

lemma try_alloc_ip_next:
  assumes "SaveIPv4Addr2DB big t u a d = (r1, d1)" and "r1 \<noteq> 0" and "\<not> n + 1 > 15"
    and "uMask a = uMask (tIPStart r)"
    and "try_alloc_ip big rnd t u key r a n d = Some z"
  obtains b where "uMask b = uMask (tIPStart r)" "try_alloc_ip big rnd t u key r b (n + 1) d1 = Some z"
proof -
  note eq = assms(5) [unfolded try_alloc_ip_step [OF assms(1)]]
  show thesis
  proof (cases "(n + 1) mod 5 = 0")
    case True
    then obtain b where "CalcIPv4Addr big (rnd (n + 1)) key r = Some b"
      "try_alloc_ip big rnd t u key r b (n + 1) d1 = Some z"
      using eq assms(2,3) by (auto split: option.splits)
    then show thesis using that CalcIPv4Addr_mask by blast
  next
    case False
    then show thesis
      using eq assms(2-4) that [of "next_ip big r (if n + 1 > 10 then 100000 else 1) a"]
      by (simp split: if_splits)
  qed
qed

lemma try_alloc_ip_effect:
  assumes "try_alloc_ip big rnd t u key r a n d = Some (res, d')" and "uMask a = uMask (tIPStart r)"
  shows "ip_done t u {uint (net_word (uMask (tIPStart r)))} d d'
           (case res of Inl _ \<Rightarrow> None | Inr b \<Rightarrow> Some (ip_row big u b)) \<and>
         (\<forall>b. res = Inr b \<longrightarrow> uMask b = uMask (tIPStart r))"
  using assms
proof (induction "15 - n" arbitrary: a n d rule: less_induct)
  case less
  obtain r1 d1 where s: "SaveIPv4Addr2DB big t u a d = (r1, d1)" by fastforce
  note e1 = SaveIPv4Addr2DB_done [OF s less.prems(2)]
  note eq = less.prems(1) [unfolded try_alloc_ip_step [OF s]]
  consider (saved) "r1 = 0" | (out) "r1 \<noteq> 0" "n + 1 > 15" | (again) "r1 \<noteq> 0" "\<not> n + 1 > 15" by blast
  then show ?case
  proof cases
    case saved
    then have "res = Inr a" "d' = d1" using eq by simp_all
    then show ?thesis using e1 saved less.prems(2) by simp
  next
    case out
    then show ?thesis using eq e1 by auto
  next
    case again
    obtain b where b: "uMask b = uMask (tIPStart r)" "try_alloc_ip big rnd t u key r b (n + 1) d1 = Some (res, d')"
      using try_alloc_ip_next [OF s again less.prems(2,1)] .
    have "15 - (n + 1) < 15 - n" using again by simp
    from less.hyps [OF this b(2,1)] show ?thesis using e1 again ip_done_trans by simp
  qed
qed

section \<open>The scan\<close>

lemma IpPool_QueryByRange_effect:
  assumes "IpPool_QueryByRange t u b e d = (ret, rows, d')"
  shows "same_tables d d'"
  using assms unfolding IpPool_QueryByRange_def
  by (cases rule: db_query_op_cases)
    (auto simp: pf_net_query_ippool_by_range_def split: option.splits)

lemma ScanAllocIP_effect:
  assumes "ScanAllocIP big t u r d = Some (x, d')"
  shows "same_tables d d' \<and> (\<forall>b. x = Some b \<longrightarrow> uMask b = uMask (tIPStart r))"
  using assms IpPool_QueryByRange_effect [of t u "uint (range_begin big r)" "uint (range_end big r)" d]
  by (auto simp: ScanAllocIP_def split: if_splits prod.splits option.splits)

section \<open>The ranges with free addresses\<close>

lemma set_insert_available_ip [simp]: "set (insert_available_ip x ys) = insert x (set ys)"
  by (induction ys) auto

lemma set_sort_available_ip: "set (foldl (\<lambda>s x. insert_available_ip x s) acc xs) = set acc \<union> set xs"
  by (induction xs arbitrary: acc) auto

lemma IpRange_QueryAllocNum_effect:
  assumes "IpRange_QueryAllocNum t u b e d = (ret, n, d')"
  shows "same_tables d d'"
proof (cases "b > e")
  case False
  have q: "\<exists>x. pf_net_query_iprange_alloc t u b e d = Some (x, d)" for d
    using False by (simp add: pf_net_query_iprange_alloc_def split: option.split)
  show ?thesis
  proof (cases rule: Handle_cases [of "pf_net_query_iprange_alloc t u b e" d])
    case (not_run c d1)
    then show ?thesis using assms False by (simp add: IpRange_QueryAllocNum_def)
  next
    case (answered d1 a d2)
    then show ?thesis using assms False q [of d1]
      by (auto simp: IpRange_QueryAllocNum_def split: prod.splits if_splits)
  next
    case (lost d1 a c d2)
    then show ?thesis using assms False q [of d1] by (auto simp: IpRange_QueryAllocNum_def)
  qed
qed (use assms in \<open>simp add: IpRange_QueryAllocNum_def\<close>)

lemma GetIPv4AddrCnt_effect:
  assumes "GetIPv4AddrCnt big t u r c d = (ret, n, d')"
  shows "same_tables d d'"
  using assms IpRange_QueryAllocNum_effect [of t u "uint (range_begin big r)" "uint (range_end big r)" d]
  by (auto simp: GetIPv4AddrCnt_def split: if_splits prod.splits)

lemma available_ip_ranges_effect:
  "available_ip_ranges big t u rs out d = (out', d') \<Longrightarrow>
     same_tables d d' \<and> (\<forall>x \<in> set out'. x \<in> set out \<or> tIpRange x \<in> set rs)"
proof (induction rs arbitrary: out d)
  case (Cons r rs)
  obtain ret n d1 where g: "GetIPv4AddrCnt big t u r 0 d = (ret, n, d1)" by (metis prod_cases3)
  note e = GetIPv4AddrCnt_effect [OF g]
  have "\<exists>out1. available_ip_ranges big t u rs out1 d1 = (out', d') \<and>
      (out1 = out \<or> (\<exists>x. out1 = out @ [x] \<and> tIpRange x = r))"
    using Cons.prems g e by (auto simp: Let_def split: if_splits)
  then show ?case using Cons.IH e same_tables_trans [of d d1 d'] by fastforce
qed simp

lemma GetAvailableIpRange_effect:
  assumes "GetAvailableIpRange big t u rs d = (out, d')"
  shows "same_tables d d' \<and> (\<forall>x \<in> set out. tIpRange x \<in> set rs)"
  using assms available_ip_ranges_effect [of big t u rs "[]" d]
  by (auto simp: GetAvailableIpRange_def set_sort_available_ip split: prod.splits)

section \<open>The allocation as a whole\<close>

definition range_masks :: "TIPV4AddrRangeItem list \<Rightarrow> int set" where
  "range_masks rs = (\<lambda>r. uint (net_word (uMask (tIPStart r)))) ` set rs"

lemma alloc_ip_in_effect:
  assumes "alloc_ip_in big rnd t u key k xs t0 d = Some (ret, a, d')"
  shows "ip_done t u (range_masks (map tIpRange xs)) d d' (if ret = 0 then Some (ip_row big u a) else None) \<and>
         (ret \<noteq> 0 \<longrightarrow> ret = - 1 \<and> a = t0)"
  using assms
proof (induction xs arbitrary: k d)
  case Nil
  then show ?case by (auto simp: ip_done_refl)
next
  case (Cons x xs)
  let ?r = "tIpRange x" and ?M = "range_masks (map tIpRange (x # xs))"
  have sub: "range_masks (map tIpRange xs) \<subseteq> ?M" "{uint (net_word (uMask (tIPStart ?r)))} \<subseteq> ?M"
    by (auto simp: range_masks_def)
  have rest: ?case if g: "ip_done t u ?M d e y" and s: "alloc_ip_in big rnd t u key (k + 1) xs t0 e = Some (ret, a, d')"
    for e y
    using Cons.IH [OF s] ip_done_mono [OF _ sub(1)] ip_done_trans [OF g] by blast
  obtain a0 where c: "CalcIPv4Addr big (rnd k 0) key ?r = Some a0"
    using Cons.prems by (auto split: option.splits)
  obtain res d1 where ta: "try_alloc_ip big (rnd k) t u key ?r a0 0 d = Some (res, d1)"
    using Cons.prems c by (auto split: option.splits)
  note e1 = try_alloc_ip_effect [OF ta CalcIPv4Addr_mask [OF c]]
  show ?case
  proof (cases res)
    case (Inr b)
    then show ?thesis using Cons.prems c ta e1 ip_done_mono [OF _ sub(2)] by auto
  next
    case (Inl v)
    have g1: "ip_done t u ?M d d1 None" using e1 Inl ip_done_mono [OF _ sub(2)] by simp
    obtain y d2 where sc: "ScanAllocIP big t u ?r d1 = Some (y, d2)"
      using Cons.prems c ta Inl by (auto split: option.splits)
    note e2 = ScanAllocIP_effect [OF sc]
    have g2: "ip_done t u ?M d d2 None" using ip_done_trans [OF g1] ip_done_same e2 by blast
    show ?thesis
    proof (cases y)
      case None
      then show ?thesis using Cons.prems c ta Inl sc rest [OF g2] by simp
    next
      case (Some b)
      obtain r3 d3 where sv: "SaveIPv4Addr2DB big t u b d2 = (r3, d3)" by fastforce
      have "uMask b = uMask (tIPStart ?r)" using e2 Some by simp
      note e3 = ip_done_trans [OF g2 ip_done_mono [OF SaveIPv4Addr2DB_done [OF sv this] sub(2)]]
      show ?thesis
      proof (cases "r3 = 0")
        case True
        then show ?thesis using Cons.prems c ta Inl sc Some sv e3 by auto
      next
        case False
        then show ?thesis using Cons.prems c ta Inl sc Some sv rest [OF e3] by simp
      qed
    qed
  qed
qed

lemma AllocIPv4Addr_effect:
  assumes "AllocIPv4Addr big rnd key t0 p d = Some (ret, a, d')"
  shows "ip_done (m_tNetType p) (m_strNetworkUUID p)
           (range_masks (case m_pIPv4AddrRange p of None \<Rightarrow> [] | Some rs \<Rightarrow> rs)) d d'
           (if ret = 0 then Some (ip_row big (m_strNetworkUUID p) a) else None) \<and>
         (ret \<noteq> 0 \<longrightarrow> ret = - 1 \<and> a = t0)"
proof (cases "m_pIPv4AddrRange p = None \<or> m_strNetworkUUID p = []")
  case True
  then show ?thesis using assms by (auto simp: AllocIPv4Addr_def ip_done_refl split: option.splits)
next
  case False
  then obtain rs where rs: "m_pIPv4AddrRange p = Some rs" by auto
  let ?t = "m_tNetType p" and ?u = "m_strNetworkUUID p"
  obtain out d1 where g: "GetAvailableIpRange big ?t ?u rs d = (out, d1)" by fastforce
  note e = GetAvailableIpRange_effect [OF g]
  have sub: "range_masks (map tIpRange out) \<subseteq> range_masks rs" using e by (auto simp: range_masks_def)
  have g1: "ip_done ?t ?u (range_masks rs) d d1 None" using e ip_done_same by blast
  show ?thesis
  proof (cases "out = []")
    case True
    then show ?thesis using assms False rs g g1 by (auto simp: AllocIPv4Addr_def)
  next
    case ne: False
    have "alloc_ip_in big rnd ?t ?u key 0 out t0 d1 = Some (ret, a, d')"
      using assms False rs g ne by (simp add: AllocIPv4Addr_def)
    from alloc_ip_in_effect [OF this] show ?thesis
      using rs ip_done_mono [OF _ sub] ip_done_trans [OF g1] by simp
  qed
qed

end
