(* ===== verification/Ipv4RangeOps.thy ===== *)
theory Ipv4RangeOps
  imports Ipv4RangeStore Ipv4Alloc
begin

text \<open>
  What \<open>AddIPv4Range\<close> and \<open>DelIPv4Range\<close> do to the addresses of a logic network or netplane, whatever happens to
  their calls: the subnet that a message works on, the invariant of the rows of a network, the effect of each.
\<close>

section \<open>The subnet of a message\<close>

text \<open>Two subnets meet when they agree on the shorter of their masks.\<close>

definition subnets_meet :: "subnet \<Rightarrow> subnet \<Rightarrow> bool" where
  "subnets_meet s s' \<longleftrightarrow> (snd s AND fst s') = (snd s' AND fst s)"

lemma subnets_meet_sym: "subnets_meet s s' \<longleftrightarrow> subnets_meet s' s"
  by (auto simp: subnets_meet_def)

lemma hosts_disjoint:
  assumes "\<not> subnets_meet s s'"
  shows "hosts s \<inter> hosts s' = {}"
proof (rule ccontr)
  assume "\<not> ?thesis"
  then obtain n where n: "(of_nat n AND fst s) = snd s" "(of_nat n AND fst s') = snd s'" by (auto simp: hosts_def)
  have "((w :: uint32) AND a) AND b = (w AND b) AND a" for w a b by (simp add: ac_simps)
  from this [of "of_nat n" "fst s" "fst s'"] n assms show False by (simp add: subnets_meet_def)
qed

lemma swap_bytes_inject [simp]: "swap_bytes a = swap_bytes b \<longleftrightarrow> a = b"
  by (metis swap_bytes_twice)

lemma dwAddr_host: "dwAddr big u = (if big then net_word u else swap_bytes (net_word u))"
  using N2HL_net_word [of big u] swap_bytes_twice [of "dwAddr False u"] by (auto simp: N2HL_host)

lemma dwAddr_inject: "dwAddr big u = dwAddr big v \<longleftrightarrow> net_word u = net_word v"
  by (simp add: dwAddr_host)

lemma dwAddr_and_eq:
  "(dwAddr big a AND dwAddr big b) = (dwAddr big c AND dwAddr big d) \<longleftrightarrow>
     (net_word a AND net_word b) = (net_word c AND net_word d)"
  "(dwAddr big a AND (dwAddr big b AND dwAddr big c)) = (dwAddr big d AND (dwAddr big b AND dwAddr big c)) \<longleftrightarrow>
     (net_word a AND (net_word b AND net_word c)) = (net_word d AND (net_word b AND net_word c))"
  by (simp_all add: dwAddr_host swap_bytes_and [symmetric])

text \<open>The smaller of two nested masks is their meet, in both byte orders.\<close>

lemma prefix_masks_nested: "(prefix_mask j AND prefix_mask k) = prefix_mask (min j k)"
proof (rule bit_eqI)
  fix n
  show "bit (prefix_mask j AND prefix_mask k) n \<longleftrightarrow> bit (prefix_mask (min j k)) n"
    by (auto simp: bit_prefix_mask bit_simps min_def)
qed

lemma min_mask_meet:
  assumes "net_word p = prefix_mask j" and "net_word q = prefix_mask k"
  shows "(if dwAddr big p < dwAddr big q then dwAddr big p else dwAddr big q) = (dwAddr big p AND dwAddr big q)"
proof -
  have "(net_word p AND net_word q) = net_word p \<or> (net_word p AND net_word q) = net_word q"
    using assms by (auto simp: prefix_masks_nested min_def)
  then have "(dwAddr big p AND dwAddr big q) = dwAddr big p \<or> (dwAddr big p AND dwAddr big q) = dwAddr big q"
    by (auto simp: dwAddr_host swap_bytes_and [symmetric])
  moreover have "(dwAddr big p AND dwAddr big q) \<le> dwAddr big p" "(dwAddr big p AND dwAddr big q) \<le> dwAddr big q"
    by (rule word_and_le2, rule word_and_le1)
  ultimately show ?thesis by (auto simp: not_less)
qed

lemma good_ip_item_sel:
  assumes "good_ip_item s i"
  shows "net_word (uMask (tIPStart i)) = fst s" "net_word (uMask (tIPEnd i)) = fst s"
    "(net_word (uIP (tIPStart i)) AND fst s) = snd s" "\<exists>k. fst s = prefix_mask k" "ip_item_set i \<noteq> {}"
    "(snd s AND fst s) = snd s"
proof -
  have v: "IsValidIPv4Range False i" "subnet_of i = s" using assms by (simp_all add: good_ip_item_def)
  show m: "net_word (uMask (tIPStart i)) = fst s" "net_word (uMask (tIPEnd i)) = fst s"
    using assms by (simp_all add: good_ip_item_iff)
  show n: "(net_word (uIP (tIPStart i)) AND fst s) = snd s"
    using v(2) m(1) by (cases s) (auto simp: subnet_of_def Let_def)
  show "(snd s AND fst s) = snd s" unfolding n [symmetric] by (simp add: ac_simps)
  have "IsValid False (tIPStart i)" using v(1) by (auto simp: IsValidIPv4Range_def Let_def split: if_splits)
  from IsValidMask_prefix_len(2) [OF this] show "\<exists>k. fst s = prefix_mask k" unfolding m(1) by blast
  show "ip_item_set i \<noteq> {}"
    using assms range_set_nonempty [of "ip_to_range False i"] by (simp add: good_ip_item_iff)
qed

definition crossing :: "subnet \<Rightarrow> CDbIpRange \<Rightarrow> bool" where
  "crossing s r \<longleftrightarrow> row_subnet r \<noteq> s \<and> subnets_meet s (row_subnet r)"

lemma related_ip_rows_good:
  assumes "good_ip_item s new" and "\<forall>r \<in> set rows. good_ip_row u (row_subnet r) r"
  shows "related_ip_rows big new rows rel c =
    (if \<exists>r \<in> set rows. crossing s r then None
     else Some (rel @ filter (\<lambda>r. row_subnet r = s) rows,
                c @ map (ip_row_item big) (filter (\<lambda>r. row_subnet r = s) rows)))"
  using assms(2)
proof (induction rows arbitrary: rel c)
  case (Cons r rs)
  let ?i = "ip_row_item big r" and ?t = "row_subnet r"
  note n = good_ip_item_sel [OF assms(1)]
  have g: "good_ip_item ?t ?i" using Cons.prems by (simp add: good_ip_row_def ip_row_item_host [of big])
  note w = good_ip_item_sel [OF g]
  obtain j k where jk: "net_word (uMask (tIPStart ?i)) = prefix_mask j" "net_word (uMask (tIPStart new)) = prefix_mask k"
    using n(1,4) w(1,4) by metis
  note mn = min_mask_meet [OF jk, of big]
  have masks: "dwAddr big (uMask (tIPStart ?i)) = dwAddr big (uMask (tIPEnd new)) \<longleftrightarrow> fst ?t = fst s"
    by (simp only: dwAddr_inject n(2) w(1))
  have meet: "((dwAddr big (uIP (tIPStart new)) AND (dwAddr big (uMask (tIPStart ?i)) AND dwAddr big (uMask (tIPStart new)))) =
      (dwAddr big (uIP (tIPStart ?i)) AND (dwAddr big (uMask (tIPStart ?i)) AND dwAddr big (uMask (tIPStart new))))) \<longleftrightarrow>
      subnets_meet s ?t"
  proof -
    have a: "(x AND (y AND z)) = ((x AND z) AND y)" "(x AND (y AND z)) = ((x AND y) AND z)" for x y z :: uint32
      by (simp_all add: ac_simps)
    have "((net_word (uIP (tIPStart new)) AND (fst ?t AND fst s)) = (net_word (uIP (tIPStart ?i)) AND (fst ?t AND fst s))) \<longleftrightarrow>
        subnets_meet s ?t"
      unfolding a(1) [of "net_word (uIP (tIPStart new))"] a(2) [of "net_word (uIP (tIPStart ?i))"] n(3) w(3)
      by (simp add: subnets_meet_def)
    then show ?thesis by (simp only: dwAddr_and_eq n(1) w(1))
  qed
  have same: "((dwAddr big (uIP (tIPStart new)) AND dwAddr big (uMask (tIPStart new))) =
      (dwAddr big (uIP (tIPStart ?i)) AND dwAddr big (uMask (tIPStart ?i)))) \<longleftrightarrow> snd ?t = snd s"
    using n(3) w(3) by (auto simp: dwAddr_and_eq n(1) w(1))
  have add: "snd (CIPv4AddrRange_AddValidRange ?i c) = c @ [?i]" for c
    using g by (simp add: CIPv4AddrRange_AddValidRange_def good_ip_item_def IsValidIPv4Range_host [of big])
  note step = related_ip_rows.simps(2) [of big new r rs rel c, unfolded Let_def mn masks meet same add]
  show ?case
  proof (cases "fst ?t = fst s")
    case True
    then have x: "snd ?t = snd s \<longleftrightarrow> ?t = s" "\<not> crossing s r"
      using n(6) w(6) by (auto simp: crossing_def prod_eq_iff subnets_meet_def)
    show ?thesis using Cons step True x by auto
  next
    case False
    then have x: "crossing s r \<longleftrightarrow> subnets_meet s ?t" "?t \<noteq> s" by (auto simp: crossing_def)
    show ?thesis using Cons step False x by auto
  qed
qed simp

section \<open>The rows of a network\<close>

text \<open>
  The rows of a network are good, no range is stored twice, and the subnets of rows with different subnets do not
  meet. Its addresses are those of its rows.
\<close>

definition ip_net_ok :: "T_Ipv4NetType \<Rightarrow> string \<Rightarrow> ipdb \<Rightarrow> bool" where
  "ip_net_ok t u d \<longleftrightarrow>
     distinct (map (ip_row_item False) (ip_net_rows t u d)) \<and>
     (\<forall>r \<in> set (ip_net_rows t u d). good_ip_row u (row_subnet r) r) \<and>
     (\<forall>r \<in> set (ip_net_rows t u d). \<forall>q \<in> set (ip_net_rows t u d).
        row_subnet r = row_subnet q \<or> \<not> subnets_meet (row_subnet r) (row_subnet q))"

definition net_ips :: "T_Ipv4NetType \<Rightarrow> string \<Rightarrow> ipdb \<Rightarrow> nat set" where
  "net_ips t u d = ips (map (ip_row_item False) (ip_net_rows t u d))"

definition subnet_ips :: "subnet \<Rightarrow> T_Ipv4NetType \<Rightarrow> string \<Rightarrow> ipdb \<Rightarrow> nat set" where
  "subnet_ips s t u d = ips (subnet_ranges s t u d)"

definition ip_rows_apart :: "subnet \<Rightarrow> T_Ipv4NetType \<Rightarrow> string \<Rightarrow> ipdb \<Rightarrow> bool" where
  "ip_rows_apart s t u d \<longleftrightarrow> apart (map (ip_to_range False) (subnet_ranges s t u d))"

text \<open>The rows of the other subnets.\<close>

definition other_rows :: "subnet \<Rightarrow> T_Ipv4NetType \<Rightarrow> string \<Rightarrow> ipdb \<Rightarrow> CDbIpRange list" where
  "other_rows s t u d = filter (\<lambda>r. row_subnet r \<noteq> s) (ip_net_rows t u d)"

lemma other_rows_eq:
  "other_rows s t u d =
     map (to_ip_row u) (filter (\<lambda>r. Some (ir_net_id r) = net_lookup t u d) (filter (other_ip_row s t u d) (ranges_of t d)))"
  by (auto simp: other_rows_def ip_net_rows_def filter_map o_def other_ip_row_def
      intro!: arg_cong [where f = "map _"] filter_cong)

lemma ip_rest_same_other:
  assumes "ip_rest_same s t u d d'"
  shows "other_rows s t u d' = other_rows s t u d"
proof -
  note k = ip_rest_same_sel(1) [OF assms, of t u]
  show ?thesis
    unfolding other_rows_eq k other_ip_row_same [OF k] using assms by (simp only: ip_rest_same_def)
qed

lemma net_rows_split: "set (ip_net_rows t u d) = set (subnet_rows s t u d) \<union> set (other_rows s t u d)"
  by (auto simp: subnet_rows_def other_rows_def)

lemma net_ips_split:
  "net_ips t u d = subnet_ips s t u d \<union> ips (map (ip_row_item False) (other_rows s t u d))"
  by (simp add: net_ips_def subnet_ips_def subnet_ranges_def ips_def net_rows_split [of t u d s] image_Un)

lemma distinct_map_two:
  assumes "\<And>x y. f x = f y \<Longrightarrow> P x = P y"
  shows "distinct (map f xs) \<longleftrightarrow> distinct (map f (filter P xs)) \<and> distinct (map f (filter (\<lambda>x. \<not> P x) xs))"
proof (induction xs)
  case (Cons x xs)
  have same: "f x = f y \<Longrightarrow> P y = P x" for y using assms by metis
  have "f x \<in> f ` set xs \<longleftrightarrow> f x \<in> f ` {y \<in> set xs. P y = P x}"
    unfolding image_iff Bex_def mem_Collect_eq using same by blast
  then show ?case using Cons.IH by (cases "P x") auto
qed simp

lemma ip_net_ok_split:
  "ip_net_ok t u d \<longleftrightarrow>
     subnet_rows_ok s t u d \<and> distinct (map (ip_row_item False) (other_rows s t u d)) \<and>
     (\<forall>r \<in> set (other_rows s t u d). good_ip_row u (row_subnet r) r) \<and>
     (\<forall>r \<in> set (other_rows s t u d). \<forall>q \<in> set (other_rows s t u d).
        row_subnet r = row_subnet q \<or> \<not> subnets_meet (row_subnet r) (row_subnet q)) \<and>
     (subnet_rows s t u d \<noteq> [] \<longrightarrow> (\<forall>r \<in> set (other_rows s t u d). \<not> subnets_meet s (row_subnet r)))"
proof -
  let ?S = "set (subnet_rows s t u d)" and ?O = "set (other_rows s t u d)"
  have mine: "row_subnet r = s" if "r \<in> ?S" for r using that by (simp add: subnet_rows_def)
  have theirs: "row_subnet r \<noteq> s" if "r \<in> ?O" for r using that by (simp add: other_rows_def)
  have item: "row_subnet x = row_subnet y" if "ip_row_item False x = ip_row_item False y" for x y
    using that subnet_of_row [of False x] subnet_of_row [of False y] by simp
  have dist: "distinct (map (ip_row_item False) (ip_net_rows t u d)) \<longleftrightarrow>
      distinct (subnet_ranges s t u d) \<and> distinct (map (ip_row_item False) (other_rows s t u d))"
    unfolding subnet_ranges_def subnet_rows_def other_rows_def
    by (rule distinct_map_two) (drule item, simp)
  have good: "(\<forall>r \<in> set (ip_net_rows t u d). good_ip_row u (row_subnet r) r) \<longleftrightarrow>
      (\<forall>r \<in> ?S. good_ip_row u s r) \<and> (\<forall>r \<in> ?O. good_ip_row u (row_subnet r) r)"
    unfolding net_rows_split [of t u d s] ball_Un using mine by simp
  have cross: "(\<forall>r \<in> ?S. \<forall>q \<in> ?O. row_subnet r = row_subnet q \<or> \<not> subnets_meet (row_subnet r) (row_subnet q)) \<longleftrightarrow>
      (?S \<noteq> {} \<longrightarrow> (\<forall>r \<in> ?O. \<not> subnets_meet s (row_subnet r)))"
    using mine theirs by force
  have cross': "(\<forall>r \<in> ?O. \<forall>q \<in> ?S. row_subnet r = row_subnet q \<or> \<not> subnets_meet (row_subnet r) (row_subnet q)) \<longleftrightarrow>
      (\<forall>r \<in> ?S. \<forall>q \<in> ?O. row_subnet r = row_subnet q \<or> \<not> subnets_meet (row_subnet r) (row_subnet q))"
    using subnets_meet_sym by metis
  have own: "\<forall>r \<in> ?S. \<forall>q \<in> ?S. row_subnet r = row_subnet q \<or> \<not> subnets_meet (row_subnet r) (row_subnet q)"
    using mine by simp
  have meet: "(\<forall>r \<in> set (ip_net_rows t u d). \<forall>q \<in> set (ip_net_rows t u d).
        row_subnet r = row_subnet q \<or> \<not> subnets_meet (row_subnet r) (row_subnet q)) \<longleftrightarrow>
      (\<forall>r \<in> ?O. \<forall>q \<in> ?O. row_subnet r = row_subnet q \<or> \<not> subnets_meet (row_subnet r) (row_subnet q)) \<and>
      (?S \<noteq> {} \<longrightarrow> (\<forall>r \<in> ?O. \<not> subnets_meet s (row_subnet r)))"
    unfolding net_rows_split [of t u d s] ball_Un ball_conj_distrib using own cross cross' by blast
  show ?thesis
    unfolding ip_net_ok_def dist good meet subnet_rows_ok_def by auto
qed

lemma ip_net_ok_rows: "ip_net_ok t u d \<Longrightarrow> subnet_rows_ok s t u d"
  using ip_net_ok_split [of t u d s] by simp

lemma ip_net_ok_good: "ip_net_ok t u d \<Longrightarrow> \<forall>r \<in> set (ip_net_rows t u d). good_ip_row u (row_subnet r) r"
  by (simp add: ip_net_ok_def)

text \<open>What a change of one subnet keeps.\<close>

lemma ip_net_ok_change:
  assumes "ip_rest_same s t u d d'" and "ip_net_ok t u d" and "subnet_rows_ok s t u d'"
    and "\<forall>r \<in> set (ip_net_rows t u d). \<not> crossing s r"
  shows "ip_net_ok t u d'"
proof -
  have "\<not> subnets_meet s (row_subnet r)" if "r \<in> set (other_rows s t u d)" for r
    using that assms(4) by (auto simp: other_rows_def crossing_def)
  then show ?thesis
    using assms(2,3) ip_net_ok_split [of t u d s] ip_net_ok_split [of t u d' s] ip_rest_same_other [OF assms(1)] by simp
qed

section \<open>Writing back\<close>

lemma same_tables_subnet:
  assumes "same_tables d d'"
  shows "subnet_ranges s t u d' = subnet_ranges s t u d" "subnet_ips s t u d' = subnet_ips s t u d"
    "ip_rows_apart s t u d' = ip_rows_apart s t u d" "subnet_rows_ok s t u d' = subnet_rows_ok s t u d"
    "ip_net_ok t u d' = ip_net_ok t u d" "net_ips t u d' = net_ips t u d"
  using same_tables_ip_ranges(3,4) [OF assms]
  by (simp_all add: subnet_ranges_def subnet_ips_def ip_rows_apart_def subnet_rows_ok_def ip_net_ok_def net_ips_def)

lemma subnet_rows_ok_good: "subnet_rows_ok s t u d \<Longrightarrow> good_ips s (subnet_ranges s t u d)"
  by (auto simp: subnet_rows_ok_def good_ips_def subnet_ranges_def good_ip_row_def)

lemma subnet_rows_ok_distinct: "subnet_rows_ok s t u d \<Longrightarrow> distinct (subnet_rows s t u d)"
  by (simp add: subnet_rows_ok_def subnet_ranges_def distinct_map)

lemma set_subnet_ranges: "set (subnet_ranges s t u d) = ip_row_item big ` set (subnet_rows s t u d)"
  by (simp add: subnet_ranges_def ip_row_item_host [of big])

lemma save_ip_ranges_effect:
  assumes "subnet_rows_ok s t u d" and "distinct calc" and "good_ips s calc"
    and "apart (map (ip_to_range False) calc)"
    and "save_ip_ranges (IpRange_Del t) big t u calc (subnet_rows s t u d) d = (ret, d')"
  shows "ip_rest_same s t u d d'" and "subnet_rows_ok s t u d'"
    and "subnet_ips s t u d' \<subseteq> subnet_ips s t u d \<union> ips calc"
    and "subnet_ips s t u d \<subseteq> subnet_ips s t u d' \<or> ips calc \<subseteq> subnet_ips s t u d'"
    and "ret = 0 \<Longrightarrow> subnet_ips s t u d' = ips calc \<and> ip_rows_apart s t u d'"
proof -
  have "ip_store_inv s t u d d" using assms(1) by (simp add: ip_store_inv_def)
  then have "ip_store_inv s t u d d' \<and>
      set (subnet_ranges s t u d') \<subseteq> set (subnet_ranges s t u d) \<union> set calc \<and>
      (ret = 0 \<longrightarrow> set (subnet_ranges s t u d') = set calc) \<and>
      (set (subnet_ranges s t u d) \<subseteq> set (subnet_ranges s t u d') \<or> set calc \<subseteq> set (subnet_ranges s t u d'))"
    unfolding set_subnet_ranges [of _ _ _ _ big] using assms(2,3,5) subnet_rows_ok_distinct [OF assms(1)]
    by (intro ip_store.sync_result) (simp_all add: save_ip_ranges_def good_ips_def)
  note s = this
  then show "ip_rest_same s t u d d'" and ok: "subnet_rows_ok s t u d'" by (simp_all add: ip_store_inv_def)
  show "subnet_ips s t u d' \<subseteq> subnet_ips s t u d \<union> ips calc"
    using s unfolding subnet_ips_def ips_def by blast
  show "subnet_ips s t u d \<subseteq> subnet_ips s t u d' \<or> ips calc \<subseteq> subnet_ips s t u d'"
    using s unfolding subnet_ips_def ips_def by blast
  assume "ret = 0"
  then have eq: "set (subnet_ranges s t u d') = set calc" using s by blast
  have "inj_on (ip_to_range False) (set (subnet_ranges s t u d'))"
    using subnet_rows_ok_good [OF ok] by (intro inj_onI) (auto simp: good_ips_def intro: good_ip_item_eq)
  then have "apart (map (ip_to_range False) (subnet_ranges s t u d'))"
    using ok eq by (intro apart_set [OF assms(4)]) (simp_all add: distinct_map subnet_rows_ok_def)
  then show "subnet_ips s t u d' = ips calc \<and> ip_rows_apart s t u d'"
    using eq by (simp add: subnet_ips_def ips_def ip_rows_apart_def)
qed

section \<open>The effect of \<open>AddIPv4Range\<close>\<close>

text \<open>In one subnet: what an addition guarantees, and what it gives when it returns success.\<close>

definition ip_range_grows :: "T_Ipv4NetType \<Rightarrow> string \<Rightarrow> TIPV4AddrRangeItem \<Rightarrow> ipdb \<Rightarrow> ipdb \<Rightarrow> bool" where
  "ip_range_grows t u i d d' \<longleftrightarrow>
     (let s = subnet_of i in
      ip_rest_same s t u d d' \<and> subnet_rows_ok s t u d' \<and> subnet_ips s t u d \<subseteq> subnet_ips s t u d' \<and>
      subnet_ips s t u d' \<subseteq> subnet_ips s t u d \<union> ip_item_set i)"

definition ip_range_added :: "T_Ipv4NetType \<Rightarrow> string \<Rightarrow> TIPV4AddrRangeItem \<Rightarrow> ipdb \<Rightarrow> ipdb \<Rightarrow> bool" where
  "ip_range_added t u i d d' \<longleftrightarrow>
     (let s = subnet_of i in
      subnet_ips s t u d' = subnet_ips s t u d \<union> ip_item_set i \<and> ip_rows_apart s t u d')"

lemma ip_msg_item_good:
  assumes "ip_msg_item big m = Inr i"
  shows "good_ip_item (subnet_of i) i"
proof -
  have "IsValidIPv4Range big i \<and> IsSameSubnet big i"
    using assms by (auto simp: ip_msg_item_def Let_def split: if_splits prod.splits)
  then show ?thesis using good_ip_item_host by blast
qed

lemma first_ip_row_sel:
  assumes "good_ip_item s i"
  shows "RgUuid (first_ip_row big m i) = c_str (m_strNetUUID m)" "ip_row_item big' (first_ip_row big m i) = i"
    "row_subnet (first_ip_row big m i) = s" "good_ip_row (c_str (m_strNetUUID m)) s (first_ip_row big m i)"
proof -
  let ?r = "first_ip_row big m i" and ?q = "ip_item_row big (c_str (m_strNetUUID m)) i"
  have "ip_row_item big' ?r = ip_row_item big' ?q" by (simp add: first_ip_row_def ip_row_item_def)
  then show it: "ip_row_item big' ?r = i" using assms by simp
  show "RgUuid ?r = c_str (m_strNetUUID m)" by (simp add: first_ip_row_def)
  have "row_subnet ?r = row_subnet ?q" by (simp add: first_ip_row_def row_subnet_def)
  then show "row_subnet ?r = s" using good_ip_item_row(2) [OF assms] by simp
  show "good_ip_row (c_str (m_strNetUUID m)) s ?r"
    using assms it by (simp add: good_ip_row_def ip_row_item_host [of big']) (simp add: first_ip_row_def)
qed

lemma first_ip_range_effect:
  assumes "subnet_rows s t u d = []" and "good_ip_item s i" and "u = c_str (m_strNetUUID m)"
    and "IpRange_Add t (first_ip_row big m i) d = (ret, d')"
  shows "ip_rest_same s t u d d'" and "subnet_rows_ok s t u d'" and "subnet_ips s t u d = {}"
    and "subnet_ips s t u d' = {} \<or> subnet_ips s t u d' = ip_item_set i"
    and "ret = 0 \<Longrightarrow> subnet_ips s t u d' = ip_item_set i \<and> ip_rows_apart s t u d'"
proof -
  note f = first_ip_row_sel [OF assms(2), where m = m and big = big, folded assms(3)]
  note e = IpRange_Add_effect [OF assms(4) f(1,3)]
  have r: "subnet_rows s t u d' = [] \<or> subnet_rows s t u d' = [first_ip_row big m i]" using e(3) assms(1) by auto
  then show "subnet_rows_ok s t u d'" using f by (auto simp: subnet_rows_ok_def subnet_ranges_def)
  show "ip_rest_same s t u d d'" by (rule e(1))
  show "subnet_ips s t u d = {}" using assms(1) by (simp add: subnet_ips_def subnet_ranges_def ips_def)
  show "subnet_ips s t u d' = {} \<or> subnet_ips s t u d' = ip_item_set i"
    using r f(2) by (auto simp: subnet_ips_def subnet_ranges_def ips_def)
  show "subnet_ips s t u d' = ip_item_set i \<and> ip_rows_apart s t u d'" if "ret = 0"
    using e(2) [OF that] assms(1,2) f(2)
    by (simp add: subnet_ips_def subnet_ranges_def ips_def ip_rows_apart_def good_ip_item_iff)
qed

lemma AddIPv4Range_effect:
  assumes "ip_msg_item big m = Inr i" and "u = c_str (m_strNetUUID m)" and "ip_net_ok t u d"
    and "AddIPv4Range big t m d = (ret, d')"
  shows "ip_range_grows t u i d d' \<and> ip_net_ok t u d' \<and> (ret = 0 \<longrightarrow> ip_range_added t u i d d')"
proof -
  let ?s = "subnet_of i"
  note g = ip_msg_item_good [OF assms(1)]
  note ok = ip_net_ok_rows [OF assms(3), of ?s]
  have still: "ip_range_grows t u i d d1 \<and> ip_net_ok t u d1" if "same_tables d d1" for d1
    using same_tables_subnet [OF that] same_tables_ip_ranges(5) [OF that] ok assms(3)
    by (simp add: ip_range_grows_def Let_def)
  obtain r1 rows d1 where q: "IpRange_Query t u d = (r1, rows, d1)" by (metis prod_cases3)
  note qe = IpRange_Query_effect [OF q]
  note st = same_tables_subnet [OF qe(1)] same_tables_ip_ranges(5) [OF qe(1)]
  show ?thesis
  proof (cases "r1 = 0 \<and> m_bInit d \<and> (\<forall>r \<in> set (ip_net_rows t u d). \<not> crossing ?s r) \<and> IsValidIPv4MsgRange m")
    case False
    have "(d' = d \<or> d' = d1) \<and> ret \<noteq> 0"
    proof (cases "r1 = 0 \<and> m_bInit d \<and> IsValidIPv4MsgRange m")
      case True
      then have "rows = ip_net_rows t u d" using qe(2) by simp
      then have "related_ip_rows big i rows [] [] = None"
        using False True related_ip_rows_good [OF g] ip_net_ok_good [OF assms(3)] by auto
      then show ?thesis using assms(1,2,4) q True by (auto simp: AddIPv4Range_def Let_def ip_mgr_codes)
    next
      case bad: False
      then show ?thesis
        using assms(1,2,4) q by (auto simp: AddIPv4Range_def Let_def ip_mgr_codes ip_intf_error_def split: if_splits)
    qed
    then show ?thesis using still [of d] still [OF qe(1)] by auto
  next
    case True
    let ?rel = "subnet_rows ?s t u d1" and ?c = "subnet_ranges ?s t u d1"
    have rows: "rows = ip_net_rows t u d" "ip_net_rows t u d1 = ip_net_rows t u d"
      using qe(2) True same_tables_ip_ranges(3) [OF qe(1)] by simp_all
    have rel: "related_ip_rows big i rows [] [] = Some (?rel, ?c)"
      using True related_ip_rows_good [OF g, of "ip_net_rows t u d" u] ip_net_ok_good [OF assms(3)]
      by (simp add: rows subnet_rows_def subnet_ranges_def ip_row_item_host [of big])
    have ok1: "subnet_rows_ok ?s t u d1" using ok st(4) by simp
    have main: "ip_range_grows t u i d d' \<and> (ret = 0 \<longrightarrow> ip_range_added t u i d d')"
    proof (cases "?rel = []")
      case empty: True
      obtain r2 d2 where a: "IpRange_Add t (first_ip_row big m i) d1 = (r2, d2)" by fastforce
      have res: "d' = d2" "ret = 0 \<Longrightarrow> r2 = 0"
        using assms(1,2,4) q True a empty rel
        by (auto simp: AddIPv4Range_def Let_def ip_mgr_codes subnet_ranges_def split: if_splits)
      note f = first_ip_range_effect [OF empty g assms(2) a]
      show ?thesis
        using f res st ip_rest_same_trans [of ?s t u d d1 d2]
        by (auto simp: ip_range_grows_def ip_range_added_def Let_def)
    next
      case False
      have c: "?c \<noteq> []" using False by (simp add: subnet_ranges_def)
      obtain calc where calc: "CIPv4AddrRange_AddRange big i ?c = (0, calc)"
        "ips calc = ips ?c \<union> ip_item_set i" "distinct calc" "good_ips ?s calc"
        "apart (map (ip_to_range False) calc)"
        using AddRange_ip_rows [OF c subnet_rows_ok_good [OF ok1] g, of big] by blast
      have ne: "rows \<noteq> []" using False by (auto simp: rows subnet_rows_def)
      have "(if t = NETPLANE then IpRange_ForceDel else IpRange_Del t) = IpRange_Del t"
        by (simp add: IpRange_ForceDel_Del)
      then have "save_ip_ranges (IpRange_Del t) big t u calc ?rel d1 = (ret, d')"
        using assms(1,2,4) q True rel c ne calc(1) by (simp add: AddIPv4Range_def Let_def VNET_DB_SUCCESS_def)
      note s = save_ip_ranges_effect [OF ok1 calc(3-5) this]
      have vl: "ips calc = subnet_ips ?s t u d \<union> ip_item_set i" using calc(2) st(2) by (simp add: subnet_ips_def)
      have "ip_range_grows t u i d d'"
        using s(1-4) vl st ip_rest_same_trans [of ?s t u d d1 d'] by (auto simp: ip_range_grows_def Let_def)
      then show ?thesis using s(5) vl by (simp add: ip_range_added_def Let_def)
    qed
    moreover have "ip_net_ok t u d'"
      using main True assms(3) by (intro ip_net_ok_change [of ?s t u d d']) (simp_all add: ip_range_grows_def Let_def)
    ultimately show ?thesis by blast
  qed
qed

section \<open>The effect of \<open>DelIPv4Range\<close>\<close>

text \<open>No address of the range is allocated to the network.\<close>

definition ip_item_free :: "T_Ipv4NetType \<Rightarrow> string \<Rightarrow> TIPV4AddrRangeItem \<Rightarrow> ipdb \<Rightarrow> bool" where
  "ip_item_free t u i d \<longleftrightarrow> (\<forall>n. net_lookup t u d = Some n \<longrightarrow> ip_alloc t d n \<inter> int ` ip_item_set i = {})"

lemma ip_item_free_same_tables:
  assumes "same_tables d d'"
  shows "ip_item_free t u i d' = ip_item_free t u i d"
  using same_tables_ip(2) [OF assms] same_tables_ip_ranges(2) [OF assms]
  by (simp add: ip_item_free_def ip_alloc_def)

definition ip_range_shrinks :: "T_Ipv4NetType \<Rightarrow> string \<Rightarrow> TIPV4AddrRangeItem \<Rightarrow> ipdb \<Rightarrow> ipdb \<Rightarrow> bool" where
  "ip_range_shrinks t u i d d' \<longleftrightarrow>
     (let s = subnet_of i in
      ip_rest_same s t u d d' \<and> subnet_rows_ok s t u d' \<and> subnet_ips s t u d' \<subseteq> subnet_ips s t u d \<and>
      subnet_ips s t u d - ip_item_set i \<subseteq> subnet_ips s t u d' \<and>
      (subnet_ips s t u d' \<noteq> subnet_ips s t u d \<longrightarrow> ip_item_free t u i d))"

definition ip_range_removed :: "T_Ipv4NetType \<Rightarrow> string \<Rightarrow> TIPV4AddrRangeItem \<Rightarrow> ipdb \<Rightarrow> ipdb \<Rightarrow> bool" where
  "ip_range_removed t u i d d' \<longleftrightarrow>
     (let s = subnet_of i in
      ip_item_set i \<subseteq> subnet_ips s t u d \<and> subnet_ips s t u d' = subnet_ips s t u d - ip_item_set i \<and>
      ip_rows_apart s t u d' \<and> ip_item_free t u i d)"

lemma int_item_set: "int ` ip_item_set i = {int (ip_num (uIP (tIPStart i)))..int (ip_num (uIP (tIPEnd i)))}"
  by (simp add: ip_item_set_def image_int_atLeastAtMost)

lemma range_bounds_num:
  "uint (range_begin big i) = int (ip_num (uIP (tIPStart i)))" "uint (range_end big i) = int (ip_num (uIP (tIPEnd i)))"
  by (simp_all add: range_begin_def range_end_def N2HL_net_word ip_num_def)

text \<open>A procedure that only reads.\<close>

lemma Handle_reads:
  assumes "Handle p d = (x, d')" and "\<And>a y b. p a = Some (y, b) \<Longrightarrow> b = a"
  shows "same_tables d d'" and "x = Inr a \<Longrightarrow> p d' = Some (a, d')" and "x = Inl c \<Longrightarrow> c \<noteq> 0"
proof -
  have "same_tables d d' \<and> (\<forall>a. x = Inr a \<longrightarrow> p d' = Some (a, d')) \<and> (\<forall>c. x = Inl c \<longrightarrow> c \<noteq> 0)"
  proof (cases rule: Handle_cases [of p d])
    case (answered d1 a d2)
    then show ?thesis using assms(1) assms(2) [OF answered(2)] by simp
  next
    case (lost d1 a c d2)
    then show ?thesis using assms(1) assms(2) [OF lost(2)] by simp
  qed (use assms in simp)
  then show "same_tables d d'" and "x = Inr a \<Longrightarrow> p d' = Some (a, d')" and "x = Inl c \<Longrightarrow> c \<noteq> 0" by simp_all
qed

lemma IpRange_QueryIsUsing_tables: "IpRange_QueryIsUsing u b e d = (ret, num, d') \<Longrightarrow> same_tables d d'"
proof -
  let ?p = "pf_net_query_netplane_iprange_is_using u b e"
  obtain x d1 where h: "Handle ?p d = (x, d1)" by fastforce
  have "b' = a" if "?p a = Some (y, b')" for a y b'
    using that by (auto simp: pf_net_query_netplane_iprange_is_using_def split: option.splits if_splits)
  then have "same_tables d d1" using Handle_reads(1) [OF h] by blast
  then show "same_tables d d'" if "IpRange_QueryIsUsing u b e d = (ret, num, d')"
    using that h by (auto simp: IpRange_QueryIsUsing_def split: sum.splits prod.splits if_splits)
qed

lemma IpRange_QueryIsUsing_free:
  assumes "IpRange_QueryIsUsing u b e d = (0, 0, d')" and "np_lookup u d = Some n"
  shows "ip_alloc NETPLANE d n \<inter> {b..e} = {}"
proof -
  let ?p = "pf_net_query_netplane_iprange_is_using u b e"
  obtain x d1 where h: "Handle ?p d = (x, d1)" by fastforce
  have rd: "b' = a" if "?p a = Some (y, b')" for a y b'
    using that by (auto simp: pf_net_query_netplane_iprange_is_using_def split: option.splits if_splits)
  have r: "same_tables d d1" "\<And>a. x = Inr a \<Longrightarrow> ?p d1 = Some (a, d1)" "\<And>c. x = Inl c \<Longrightarrow> c \<noteq> 0"
    using Handle_reads [OF h] rd by blast+
  have l: "np_lookup u d1 = Some n" using same_tables_ip_ranges(2) [OF r(1), of NETPLANE u] assms(2) by simp
  have "\<exists>k. x = Inr k" using assms(1) h r(3) by (cases x) (auto simp: IpRange_QueryIsUsing_def)
  then obtain k where k: "x = Inr k" ..
  have "\<not> b > e \<and> length (filter (\<lambda>r. ia_net_id r = n \<and> ia_num r \<ge> b \<and> ia_num r \<le> e) (pool_of NETPLANE d1)) = 0"
    using r(2) [OF k] l k h assms(1)
    by (cases k) (auto simp: pf_net_query_netplane_iprange_is_using_def IpRange_QueryIsUsing_def rtn_defs
        split: if_splits)
  then show ?thesis
    using same_tables_ip(2) [OF r(1), of NETPLANE] by (auto simp: ip_alloc_def filter_empty_conv)
qed

lemma IpRange_QueryAllocNum_free:
  assumes "IpRange_QueryAllocNum t u b e d = (0, 0, d')" and "net_lookup t u d = Some n"
  shows "ip_alloc t d n \<inter> {b..e} = {}"
proof -
  let ?p = "pf_net_query_iprange_alloc t u b e"
  obtain x d1 where h: "Handle ?p d = (x, d1)" by fastforce
  have rd: "b' = a" if "?p a = Some (y, b')" for a y b'
    using that by (auto simp: pf_net_query_iprange_alloc_def split: option.splits if_splits)
  have r: "same_tables d d1" "\<And>a. x = Inr a \<Longrightarrow> ?p d1 = Some (a, d1)" "\<And>c. x = Inl c \<Longrightarrow> c \<noteq> 0"
    using Handle_reads [OF h] rd by blast+
  have le: "\<not> b > e" using assms(1) by (auto simp: IpRange_QueryAllocNum_def rtn_defs split: if_splits)
  have l: "net_lookup t u d1 = Some n" using same_tables_ip_ranges(2) [OF r(1)] assms(2) by simp
  have "\<exists>k. x = Inr k" using assms(1) h le r(3) by (cases x) (auto simp: IpRange_QueryAllocNum_def)
  then obtain k where k: "x = Inr k" ..
  note a = r(2) [OF k]
  have "length (filter (\<lambda>r. ia_net_id r = n \<and> ia_num r \<ge> b \<and> ia_num r \<le> e) (pool_of t d1)) = 0"
    using a l le k h assms(1) by (cases k) (auto simp: pf_net_query_iprange_alloc_def IpRange_QueryAllocNum_def)
  then show ?thesis
    using same_tables_ip(2) [OF r(1), of t] by (auto simp: ip_alloc_def filter_empty_conv)
qed

lemma ip_occupied_tables: "ip_occupied big t u i d = (ret, num, d') \<Longrightarrow> same_tables d d'"
  using IpRange_QueryIsUsing_tables IpRange_QueryAllocNum_effect
  by (auto simp: ip_occupied_def split: if_splits)

lemma ip_occupied_free: "ip_occupied big t u i d = (0, 0, d') \<Longrightarrow> ip_item_free t u i d"
  using IpRange_QueryAllocNum_free [of t u _ _ d d'] IpRange_QueryIsUsing_free [of u _ _ d d']
  by (cases t) (auto simp: ip_item_free_def int_item_set ip_occupied_def range_bounds_num)

lemma DelIPv4Range_effect:
  assumes "ip_msg_item big m = Inr i" and "u = c_str (m_strNetUUID m)" and "ip_net_ok t u d"
    and "ip_rows_apart (subnet_of i) t u d" and "DelIPv4Range big t m d = (ret, d')"
  shows "ip_range_shrinks t u i d d' \<and> ip_net_ok t u d' \<and> (ret = 0 \<longrightarrow> ip_range_removed t u i d d')"
proof -
  let ?s = "subnet_of i"
  note g = ip_msg_item_good [OF assms(1)]
  note ok = ip_net_ok_rows [OF assms(3), of ?s]
  have still: "ip_range_shrinks t u i d d1 \<and> ip_net_ok t u d1" if "same_tables d d1" for d1
    using same_tables_subnet [OF that] same_tables_ip_ranges(5) [OF that] ok assms(3)
    by (simp add: ip_range_shrinks_def Let_def)
  obtain r1 rows d1 where q: "IpRange_Query t u d = (r1, rows, d1)" by (metis prod_cases3)
  note qe = IpRange_Query_effect [OF q]
  obtain r2 num d2 where k: "ip_occupied big t u i d1 = (r2, num, d2)" by (metis prod_cases3)
  have s2: "same_tables d d2" using qe(1) ip_occupied_tables [OF k] by (rule same_tables_trans)
  note st = same_tables_subnet [OF s2] same_tables_ip_ranges(5) [OF s2]
  let ?rel = "subnet_rows ?s t u d2" and ?c = "subnet_ranges ?s t u d2"
  obtain r3 c' where dl: "CIPv4AddrRange_DelRange big i ?c = (r3, c')" by fastforce
  have rel: "related_ip_rows big i rows [] [] = (if \<exists>r \<in> set (ip_net_rows t u d). crossing ?s r then None else Some (?rel, ?c))"
    if "r1 = 0"
    using qe(2) [OF that] same_tables_ip_ranges(3) [OF s2] related_ip_rows_good [OF g, of "ip_net_rows t u d" u]
      ip_net_ok_good [OF assms(3)]
    by (simp add: subnet_rows_def subnet_ranges_def ip_row_item_host [of big])
  consider (stop) "ret \<noteq> 0" "d' = d \<or> d' = d1 \<or> d' = d2"
    | (go) "r1 = 0" "\<forall>r \<in> set (ip_net_rows t u d). \<not> crossing ?s r" "?c \<noteq> []" "r2 = 0" "num = 0" "r3 = 0"
        "save_ip_ranges (IpRange_Del t) big t u c' ?rel d2 = (ret, d')"
    using assms(1,2,5) q k dl rel
    by (auto simp: DelIPv4Range_def Let_def ip_mgr_codes ip_intf_error_def split: if_splits)
  then show ?thesis
  proof cases
    case stop
    then show ?thesis using still [of d] still [OF qe(1)] still [OF s2] by auto
  next
    case go
    have ok2: "subnet_rows_ok ?s t u d2" "apart (map (ip_to_range False) ?c)"
      using ok st(3,4) assms(4) by (simp_all add: ip_rows_apart_def)
    note dr = DelRange_ip_rows [OF go(3) subnet_rows_ok_good [OF ok2(1)] ok2(2) g dl [unfolded go(6)]]
    have fr: "ip_item_free t u i d"
      using ip_occupied_free [of big t u i d1 d2] k go(4,5) ip_item_free_same_tables [OF qe(1)] by simp
    note s = save_ip_ranges_effect [OF ok2(1) dr(3-5) go(7)]
    have vl: "ips c' = subnet_ips ?s t u d - ip_item_set i" "ip_item_set i \<subseteq> subnet_ips ?s t u d"
      using dr(1,2) st(2) by (simp_all add: subnet_ips_def)
    have sh: "ip_range_shrinks t u i d d'"
      using s(1-4) vl st fr ip_rest_same_trans [of ?s t u d d2 d'] by (auto simp: ip_range_shrinks_def Let_def)
    moreover have "ip_net_ok t u d'"
      using sh go(2) assms(3) by (intro ip_net_ok_change [of ?s t u d d']) (simp_all add: ip_range_shrinks_def Let_def)
    ultimately show ?thesis using s(5) vl fr by (simp add: ip_range_removed_def Let_def)
  qed
qed

end
