(* ===== verification/Ipv4Networks.thy ===== *)
theory Ipv4Networks
  imports Ipv4RangeOps
begin

text \<open>
  Several logic networks on one netplane: the procedure that adds a range compares it with the ranges of the other
  logic networks of the netplane, so that ranges of two of them with the same mask never overlap, whatever
  messages arrive and whatever the database answers.
\<close>

section \<open>Keys and the ranges of the networks\<close>

text \<open>The primary keys of the schema and the uniqueness of the UUIDs, for the tables behind the view.\<close>

definition ln_keys :: "ipdb \<Rightarrow> bool" where
  "ln_keys d \<longleftrightarrow>
     distinct (map ln_id (logic_network d)) \<and> distinct (map ln_uuid (logic_network d)) \<and>
     distinct (map pg_id (port_group d)) \<and> distinct (map np_id (netplane d))"

definition ranges_overlap :: "ip_range_row \<Rightarrow> ip_range_row \<Rightarrow> bool" where
  "ranges_overlap a b \<longleftrightarrow>
     ir_mask_num a = ir_mask_num b \<and> ir_begin_num a \<le> ir_end_num b \<and> ir_begin_num b \<le> ir_end_num a"

definition ln_apart :: "ipdb \<Rightarrow> bool" where
  "ln_apart d \<longleftrightarrow>
     (\<forall>x \<in> set (v_net_ln_np d). \<forall>y \<in> set (v_net_ln_np d).
        np_uuid (snd x) = np_uuid (snd y) \<and> ln_uuid (fst x) \<noteq> ln_uuid (fst y) \<longrightarrow>
        (\<forall>a \<in> set (ranges_of LOGIC_NET d). \<forall>b \<in> set (ranges_of LOGIC_NET d).
           ir_net_id a = ln_id (fst x) \<and> ir_net_id b = ln_id (fst y) \<longrightarrow> \<not> ranges_overlap a b))"

lemma ranges_overlap_sym: "ranges_overlap a b \<longleftrightarrow> ranges_overlap b a"
  by (auto simp: ranges_overlap_def)

lemma in_view:
  "x \<in> set (v_net_ln_np d) \<longleftrightarrow>
     fst x \<in> set (logic_network d) \<and> snd x \<in> set (netplane d) \<and>
     (\<exists>g \<in> set (port_group d). \<exists>v \<in> set (vm_pg d).
        pg_id g = vmpg_id v \<and> vmpg_id v = ln_vm_pg_id (fst x) \<and> pg_netplane_id g = Some (np_id (snd x)))"
  by (cases x) (auto simp: v_net_ln_np_def)

lemma key_eq: "distinct (map f xs) \<Longrightarrow> x \<in> set xs \<Longrightarrow> y \<in> set xs \<Longrightarrow> f x = f y \<Longrightarrow> x = y"
  by (auto simp: distinct_map dest: inj_onD)

lemma find_in: "find P xs = Some x \<Longrightarrow> x \<in> set xs \<and> P x"
  by (auto simp: find_Some_iff)

text \<open>A logic network is on one netplane, and its id and its UUID determine each other.\<close>

lemma view_keys:
  assumes "ln_keys d" and "x \<in> set (v_net_ln_np d)" and "y \<in> set (v_net_ln_np d)"
  shows "ln_id (fst x) = ln_id (fst y) \<longleftrightarrow> ln_uuid (fst x) = ln_uuid (fst y)"
    and "ln_uuid (fst x) = ln_uuid (fst y) \<Longrightarrow> x = y"
proof -
  have k: "distinct (map ln_id (logic_network d))" "distinct (map ln_uuid (logic_network d))"
    "distinct (map pg_id (port_group d))" "distinct (map np_id (netplane d))" using assms(1) by (simp_all add: ln_keys_def)
  have m: "fst x \<in> set (logic_network d)" "fst y \<in> set (logic_network d)" "snd x \<in> set (netplane d)" "snd y \<in> set (netplane d)"
    using assms(2,3) by (simp_all add: in_view)
  show "ln_id (fst x) = ln_id (fst y) \<longleftrightarrow> ln_uuid (fst x) = ln_uuid (fst y)"
    using key_eq [OF k(1) m(1,2)] key_eq [OF k(2) m(1,2)] by auto
  assume "ln_uuid (fst x) = ln_uuid (fst y)"
  then have f: "fst x = fst y" by (rule key_eq [OF k(2) m(1,2)])
  obtain g v where g: "g \<in> set (port_group d)" "v \<in> set (vm_pg d)" "pg_id g = vmpg_id v" "vmpg_id v = ln_vm_pg_id (fst x)"
    "pg_netplane_id g = Some (np_id (snd x))" using assms(2) unfolding in_view by blast
  obtain h w where h: "h \<in> set (port_group d)" "w \<in> set (vm_pg d)" "pg_id h = vmpg_id w" "vmpg_id w = ln_vm_pg_id (fst y)"
    "pg_netplane_id h = Some (np_id (snd y))" using assms(3) unfolding in_view by blast
  have "g = h" using key_eq [OF k(3) g(1) h(1)] g h f by simp
  then have "snd x = snd y" using key_eq [OF k(4) m(3,4)] g(5) h(5) by simp
  then show "x = y" using f by (simp add: prod_eq_iff)
qed

lemma ln_lookup_view:
  assumes "ln_keys d" and "ln_lookup u d = Some n" and "x \<in> set (v_net_ln_np d)" and "ln_id (fst x) = n"
  shows "ln_uuid (fst x) = u"
proof -
  obtain l where f: "find (\<lambda>r. ln_uuid r = u) (logic_network d) = Some l" "ln_id l = n"
    using assms(2) by (auto simp: ln_lookup_def)
  have l: "l \<in> set (logic_network d)" "ln_uuid l = u" using find_in [OF f(1)] by simp_all
  have "fst x = l"
    using assms(1,3,4) l(1) f(2) key_eq [of ln_id "logic_network d" "fst x" l] by (simp add: ln_keys_def in_view)
  then show ?thesis using l(2) by simp
qed

section \<open>Every call keeps them apart\<close>

text \<open>Databases with the same tables but for the ranges, where the new ones are among the old ones.\<close>

lemma ln_apart_fewer:
  assumes "ln_apart d" and "v_net_ln_np d' = v_net_ln_np d" and "set (ranges_of LOGIC_NET d') \<subseteq> set (ranges_of LOGIC_NET d)"
  shows "ln_apart d'"
  using assms(1) subsetD [OF assms(3)] unfolding ln_apart_def assms(2) by blast

lemma range_rest_keys:
  assumes "range_rest t d = range_rest t d'"
  shows "ln_keys d' = ln_keys d" "v_net_ln_np d' = v_net_ln_np d"
  using range_rest_sel(6,8-10) [OF assms] by (simp_all add: ln_keys_def v_net_ln_np_def)

lemma same_tables_apart: "ln_keys d \<and> ln_apart d \<Longrightarrow> same_tables d d' \<Longrightarrow> ln_keys d' \<and> ln_apart d'"
  using range_rest_keys [OF same_tables_ip_ranges(6)] same_tables_ip_ranges(1) [of d d' LOGIC_NET] ln_apart_fewer [of d d']
  by simp

text \<open>A range that passes the check overlaps no range of another network of its netplane.\<close>

lemma check_add_iprange_apart:
  assumes "pf_net_check_add_iprange LOGIC_NET r d = 0" and "ln_keys d" and "ln_lookup (RgUuid r) d = Some n"
    and "x \<in> set (v_net_ln_np d)" and "ln_id (fst x) = n" and "y \<in> set (v_net_ln_np d)"
    and "np_uuid (snd x) = np_uuid (snd y)" and "ln_uuid (fst x) \<noteq> ln_uuid (fst y)"
    and "b \<in> set (ranges_of LOGIC_NET d)" and "ir_net_id b = ln_id (fst y)"
  shows "\<not> (ir_begin_num b \<le> RgEndNum r \<and> ir_end_num b \<ge> RgBeginNum r \<and> ir_mask_num b = RgMaskNum r)"
proof -
  have u: "ln_uuid (fst x) = RgUuid r" by (rule ln_lookup_view [OF assms(2,3,4,5)])
  obtain z where z: "find (\<lambda>x. ln_uuid (fst x) = RgUuid r) (v_net_ln_np d) = Some z"
    and c: "\<not> list_ex (\<lambda>a. list_ex (\<lambda>b. np_uuid (snd b) = np_uuid (snd z) \<and> ir_net_id a = ln_id (fst b) \<and>
          ln_uuid (fst b) \<noteq> RgUuid r) (v_net_ln_np d) \<and>
        ir_begin_num a \<le> RgEndNum r \<and> ir_end_num a \<ge> RgBeginNum r \<and> ir_mask_num a = RgMaskNum r)
      (ranges_of LOGIC_NET d)"
    using assms(1) by (auto simp: pf_net_check_add_iprange_def rtn_defs split: option.splits if_splits)
  have "z \<in> set (v_net_ln_np d)" "ln_uuid (fst z) = RgUuid r" using find_in [OF z] by simp_all
  then have "z = x" using view_keys(2) [OF assms(2) _ assms(4)] u by simp
  then have np: "np_uuid (snd y) = np_uuid (snd z)" and ne: "ln_uuid (fst y) \<noteq> RgUuid r" using assms(7,8) u by simp_all
  show ?thesis using c np ne assms(6,9,10) unfolding list_ex_iff by blast
qed

lemma IpRange_Add_apart:
  assumes "IpRange_Add LOGIC_NET r d = (ret, d')" and "ln_keys d" and "ln_apart d"
  shows "ln_keys d' \<and> ln_apart d'"
  using assms(1) unfolding IpRange_Add_def
proof (cases rule: db_add_op_cases)
  case idle
  then show ?thesis using same_tables_apart assms(2,3) by blast
next
  case (ran d1 a)
  have k1: "ln_keys d1" "ln_apart d1" using same_tables_apart [OF _ ran(1)] assms(2,3) by simp_all
  note e = pf_net_add_iprange_effect [OF ran(2) refl]
  have rr: "range_rest LOGIC_NET d1 = range_rest LOGIC_NET d'" using e ip_rest_same_range_rest by blast
  note kk = range_rest_keys [OF rr]
  have "\<exists>n q. set (ranges_of LOGIC_NET d') \<subseteq> set (ranges_of LOGIC_NET d1) \<or>
      pf_net_check_add_iprange LOGIC_NET r d1 = 0 \<and> ln_lookup (RgUuid r) d1 = Some n \<and>
      set (ranges_of LOGIC_NET d') = insert q (set (ranges_of LOGIC_NET d1)) \<and> ir_net_id q = n \<and>
      ir_begin_num q = RgBeginNum r \<and> ir_end_num q = RgEndNum r \<and> ir_mask_num q = RgMaskNum r"
  proof (cases "pf_net_check_add_iprange LOGIC_NET r d1 > 0")
    case True
    then show ?thesis using ran(2) by (auto simp: pf_net_add_iprange_def Let_def)
  next
    case False
    then have c: "pf_net_check_add_iprange LOGIC_NET r d1 = 0" using check_add_iprange_code [of LOGIC_NET r d1] by simp
    then obtain n where n: "ln_lookup (RgUuid r) d1 = Some n"
      by (auto simp: pf_net_check_add_iprange_def rtn_defs split: option.splits)
    show ?thesis
      using ran(2) c n by (auto simp: pf_net_add_iprange_def insert_ip_range_def Let_def split: if_splits option.splits)
  qed
  then consider (same) "set (ranges_of LOGIC_NET d') \<subseteq> set (ranges_of LOGIC_NET d1)"
    | (new) n q where "pf_net_check_add_iprange LOGIC_NET r d1 = 0" "ln_lookup (RgUuid r) d1 = Some n"
      "set (ranges_of LOGIC_NET d') = insert q (set (ranges_of LOGIC_NET d1))" "ir_net_id q = n"
      "ir_begin_num q = RgBeginNum r" "ir_end_num q = RgEndNum r" "ir_mask_num q = RgMaskNum r" by blast
  then show ?thesis
  proof cases
    case same
    then show ?thesis using kk k1 ln_apart_fewer [OF k1(2)] by simp
  next
    case new
    have fresh: "\<not> ranges_overlap q b"
      if "x \<in> set (v_net_ln_np d1)" "y \<in> set (v_net_ln_np d1)" "np_uuid (snd x) = np_uuid (snd y)"
        "ln_uuid (fst x) \<noteq> ln_uuid (fst y)" "ir_net_id q = ln_id (fst x)" "b \<in> set (ranges_of LOGIC_NET d1)"
        "ir_net_id b = ln_id (fst y)" for x y b
      using check_add_iprange_apart [OF new(1) k1(1) new(2) that(1) _ that(2,3,4,6,7)] that(5) new(4-7)
      by (auto simp: ranges_overlap_def)
    have "ln_apart d'"
      unfolding ln_apart_def kk(2) new(3)
    proof (intro ballI impI)
      fix x y a b
      assume v: "x \<in> set (v_net_ln_np d1)" "y \<in> set (v_net_ln_np d1)"
        and ne: "np_uuid (snd x) = np_uuid (snd y) \<and> ln_uuid (fst x) \<noteq> ln_uuid (fst y)"
        and ab: "a \<in> insert q (set (ranges_of LOGIC_NET d1))" "b \<in> insert q (set (ranges_of LOGIC_NET d1))"
        and id: "ir_net_id a = ln_id (fst x) \<and> ir_net_id b = ln_id (fst y)"
      have "a \<noteq> b" using view_keys(1) [OF k1(1) v] ne id by auto
      then consider "a = q" "b \<in> set (ranges_of LOGIC_NET d1)" | "b = q" "a \<in> set (ranges_of LOGIC_NET d1)"
        | "a \<in> set (ranges_of LOGIC_NET d1)" "b \<in> set (ranges_of LOGIC_NET d1)" using ab by blast
      then show "\<not> ranges_overlap a b"
      proof cases
        case 1
        then show ?thesis using fresh [OF v] ne id by simp
      next
        case 2
        then have "\<not> ranges_overlap q a" using fresh [OF v(2,1), of a] ne id by auto
        then show ?thesis using ranges_overlap_sym [of a b] 2(1) by simp
      next
        case 3
        then show ?thesis using k1(2) v ne id unfolding ln_apart_def by blast
      qed
    qed
    then show ?thesis using kk k1(1) by simp
  qed
qed

lemma IpRange_Del_apart:
  assumes "IpRange_Del t r d = (ret, d')" and "ln_keys d" and "ln_apart d"
  shows "ln_keys d' \<and> ln_apart d'"
proof -
  have e: "range_rest t d = range_rest t d'"
    using db_del_iprange_effect [OF assms(1) [unfolded IpRange_Del_def] refl refl] ip_rest_same_range_rest by blast
  have "set (ranges_of LOGIC_NET d') \<subseteq> set (ranges_of LOGIC_NET d)"
    using assms(1) unfolding IpRange_Del_def
  proof (cases rule: db_del_op_cases)
    case idle
    then show ?thesis using same_tables_ip_ranges(1) [of d d' LOGIC_NET] by simp
  next
    case (ran d1 a)
    have "set (ranges_of LOGIC_NET d') \<subseteq> set (ranges_of LOGIC_NET d1)"
      using ran(2) by (cases t) (auto simp: pf_net_del_iprange_def Let_def split: option.splits if_splits)
    then show ?thesis using same_tables_ip_ranges(1) [OF ran(1), of LOGIC_NET] by simp
  qed
  then show ?thesis using range_rest_keys [OF e] assms(2,3) ln_apart_fewer [OF assms(3)] by simp
qed

section \<open>Every message keeps them apart\<close>

text \<open>What the calls of a message keep, the message keeps.\<close>

lemma AddIPv4Range_keeps:
  assumes "AddIPv4Range big t m d = (ret, d')" and "P d"
    and same: "\<And>a b. P a \<Longrightarrow> same_tables a b \<Longrightarrow> P b"
    and add: "\<And>r a b c. P a \<Longrightarrow> IpRange_Add t r a = (c, b) \<Longrightarrow> P b"
    and del: "\<And>r a b c. P a \<Longrightarrow> IpRange_Del t r a = (c, b) \<Longrightarrow> P b"
  shows "P d'"
proof (cases "ip_msg_item big m")
  case (Inr i)
  let ?u = "c_str (m_strNetUUID m)"
  obtain r rows d1 where q: "IpRange_Query t ?u d = (r, rows, d1)" by (metis prod_cases3)
  have p1: "P d1" using same assms(2) IpRange_Query_effect(1) [OF q] by blast
  have save: "P e" if "save_ip_ranges (IpRange_Del t) big t ?u calc rel d1 = (x, e)" for calc rel x e
    using that unfolding save_ip_ranges_def by (rule sync_rows_keeps [where P = P]) (fact p1, rule add, assumption+, rule del)
  have fd: "(if t = NETPLANE then IpRange_ForceDel else IpRange_Del t) = IpRange_Del t" by (simp add: IpRange_ForceDel_Del)
  show ?thesis
    using assms(1) [unfolded AddIPv4Range_def Let_def fd] assms(2) Inr q p1
    by (auto split: if_splits option.splits prod.splits dest: add [OF p1] save)
qed (use assms(1,2) in \<open>auto simp: AddIPv4Range_def Let_def split: if_splits\<close>)

lemma DelIPv4Range_keeps:
  assumes "DelIPv4Range big t m d = (ret, d')" and "P d"
    and same: "\<And>a b. P a \<Longrightarrow> same_tables a b \<Longrightarrow> P b"
    and add: "\<And>r a b c. P a \<Longrightarrow> IpRange_Add t r a = (c, b) \<Longrightarrow> P b"
    and del: "\<And>r a b c. P a \<Longrightarrow> IpRange_Del t r a = (c, b) \<Longrightarrow> P b"
  shows "P d'"
proof (cases "ip_msg_item big m")
  case (Inr i)
  let ?u = "c_str (m_strNetUUID m)"
  obtain r rows d1 where q: "IpRange_Query t ?u d = (r, rows, d1)" by (metis prod_cases3)
  have p1: "P d1" using same assms(2) IpRange_Query_effect(1) [OF q] by blast
  obtain r2 num d2 where k: "ip_occupied big t ?u i d1 = (r2, num, d2)" by (metis prod_cases3)
  have p2: "P d2" using same p1 ip_occupied_tables [OF k] by blast
  have save: "P e" if "save_ip_ranges (IpRange_Del t) big t ?u calc rel d2 = (x, e)" for calc rel x e
    using that unfolding save_ip_ranges_def by (rule sync_rows_keeps [where P = P]) (fact p2, rule add, assumption+, rule del)
  show ?thesis
    using assms(1,2) Inr q p1 k p2
    by (auto simp: DelIPv4Range_def Let_def split: if_splits option.splits prod.splits dest: save)
qed (use assms(1,2) in \<open>auto simp: DelIPv4Range_def Let_def split: if_splits\<close>)

lemma ProcIPv4RangeMsg_keeps:
  assumes "ProcIPv4RangeMsg pMU big t m d = (ret, rep, d')" and "P d"
    and same: "\<And>a b. P a \<Longrightarrow> same_tables a b \<Longrightarrow> P b"
    and add: "\<And>r a b c. P a \<Longrightarrow> IpRange_Add t r a = (c, b) \<Longrightarrow> P b"
    and del: "\<And>r a b c. P a \<Longrightarrow> IpRange_Del t r a = (c, b) \<Longrightarrow> P b"
  shows "P d'"
proof -
  have "P x" if "AddIPv4Range big t m d = (r, x)" for r x
    using that assms(2) same add del by (rule AddIPv4Range_keeps)
  moreover have "P x" if "DelIPv4Range big t m d = (r, x)" for r x
    using that assms(2) same add del by (rule DelIPv4Range_keeps)
  ultimately show ?thesis
    using assms(1,2) by (auto simp: ProcIPv4RangeMsg_def split: if_splits prod.splits)
qed

lemma IpRange_Add_apart_any:
  assumes "IpRange_Add t r d = (ret, d')" and "ln_keys d \<and> ln_apart d"
  shows "ln_keys d' \<and> ln_apart d'"
proof (cases t)
  case LOGIC_NET
  then show ?thesis using IpRange_Add_apart assms by blast
next
  case NETPLANE
  have e: "range_rest NETPLANE d = range_rest NETPLANE d'"
    using IpRange_Add_effect(1) [OF assms(1) [unfolded NETPLANE] refl refl] by (rule ip_rest_same_range_rest)
  then show ?thesis
    using range_rest_keys [OF e] range_rest_sel(4) [OF e, of LOGIC_NET] assms(2) ln_apart_fewer [of d d'] by simp
qed

lemma ranges_keep_networks_apart:
  assumes "ProcIPv4RangeMsg pMU big t m d = (ret, rep, d')" and "ln_keys d" and "ln_apart d"
  shows "ln_keys d' \<and> ln_apart d'"
  using assms(1) conjI [OF assms(2,3)]
proof (rule ProcIPv4RangeMsg_keeps [where P = "\<lambda>d. ln_keys d \<and> ln_apart d"])
  show "ln_keys b \<and> ln_apart b" if "ln_keys a \<and> ln_apart a" "same_tables a b" for a b
    using that by (rule same_tables_apart)
  show "ln_keys b \<and> ln_apart b" if "ln_keys a \<and> ln_apart a" "IpRange_Add t r a = (c, b)" for r a b c
    by (rule IpRange_Add_apart_any [OF that(2,1)])
  show "ln_keys b \<and> ln_apart b" if "ln_keys a \<and> ln_apart a" "IpRange_Del t r a = (c, b)" for r a b c
    using IpRange_Del_apart [OF that(2)] that(1) by blast
qed

text \<open>C18. The ranges of the logic networks of one netplane stay apart: when the keys of the tables hold and no two logic
  networks of one netplane have overlapping ranges with the same mask, no range message, for a logic network or for a
  netplane, changes that, whatever it asks for and whatever the database answers, also when it fails half way.\<close>

theorem ProcIPv4RangeMsg_keeps_networks_apart:
  assumes "ProcIPv4RangeMsg pMU big t m d = (ret, rep, d')" and "ln_keys d" and "ln_apart d"
  shows "ln_keys d' \<and> ln_apart d'"
  using assms by (rule ranges_keep_networks_apart)

end
