(* ===== verification/Ipv4RangeLive.thy ===== *)
theory Ipv4RangeLive
  imports Ipv4RangeOps
begin

text \<open>
  The IPv4 ranges on a database whose calls do not fail: the store of one subnet is one of \<open>live_store\<close> as long as its
  ranges stay clear of those of the other logic networks, and the exact codes of the range messages follow.
\<close>

section \<open>Calls that do not fail\<close>

definition ip_ranges_live :: "T_Ipv4NetType \<Rightarrow> string \<Rightarrow> ipdb \<Rightarrow> bool" where
  "ip_ranges_live t u d \<longleftrightarrow>
     env d = [] \<and> net_lookup t u d \<noteq> None \<and> (\<forall>r \<in> set (ranges_of t d). ir_id r \<le> serial_ip_range (tabs t d))"

text \<open>The ranges of the other logic networks of the netplane of \<open>x\<close>.\<close>

definition foreign_range :: "ipdb \<Rightarrow> string \<Rightarrow> netplane_row \<Rightarrow> ip_range_row \<Rightarrow> bool" where
  "foreign_range d u n a \<longleftrightarrow>
     list_ex (\<lambda>b. np_uuid (snd b) = np_uuid n \<and> ir_net_id a = ln_id (fst b) \<and> ln_uuid (fst b) \<noteq> u) (v_net_ln_np d)"

text \<open>
  The addresses \<open>A\<close> of subnet \<open>s\<close> are clear for the network: for a logic network, no other logic network
  of its netplane has a range with the same mask that holds one of them.
\<close>

definition clear_of_others :: "T_Ipv4NetType \<Rightarrow> string \<Rightarrow> subnet \<Rightarrow> nat set \<Rightarrow> ipdb \<Rightarrow> bool" where
  "clear_of_others t u s A d \<longleftrightarrow>
     (t = LOGIC_NET \<longrightarrow>
       (\<exists>x. find (\<lambda>x. ln_uuid (fst x) = u) (v_net_ln_np d) = Some x \<and>
          (\<forall>b \<in> set (v_net_ln_np d). net_lookup t u d = Some (ln_id (fst b)) \<longrightarrow> ln_uuid (fst b) = u) \<and>
          (\<forall>a \<in> set (ranges_of t d). foreign_range d u (snd x) a \<and> ir_mask_num a = uint (fst s) \<longrightarrow>
             ir_begin_num a \<le> ir_end_num a \<and> {ir_begin_num a..ir_end_num a} \<inter> int ` A = {})))"

lemma v_net_ln_np_tabs [simp]: "v_net_ln_np (set_tabs t x d) = v_net_ln_np d" "v_net_ln_np (d\<lparr>env := e\<rparr>) = v_net_ln_np d"
  by (cases t; simp add: v_net_ln_np_def)+

lemma foreign_range_tabs [simp]: "foreign_range (set_tabs t x d) u n a = foreign_range d u n a"
  by (simp add: foreign_range_def)

lemma clear_of_others_ranges:
  assumes "clear_of_others t u s A d" and "\<forall>r \<in> set (ip_range x). r \<in> set (ranges_of t d) \<or> net_lookup t u d = Some (ir_net_id r)"
  shows "clear_of_others t u s A (set_tabs t x d)"
proof (cases t)
  case LOGIC_NET
  note c = assms(1) [unfolded clear_of_others_def, rule_format, OF LOGIC_NET]
  then obtain y where y: "find (\<lambda>x. ln_uuid (fst x) = u) (v_net_ln_np d) = Some y"
    "\<forall>b \<in> set (v_net_ln_np d). net_lookup t u d = Some (ln_id (fst b)) \<longrightarrow> ln_uuid (fst b) = u"
    "\<forall>a \<in> set (ranges_of t d). foreign_range d u (snd y) a \<and> ir_mask_num a = uint (fst s) \<longrightarrow>
       ir_begin_num a \<le> ir_end_num a \<and> {ir_begin_num a..ir_end_num a} \<inter> int ` A = {}" by blast
  have "\<not> foreign_range d u (snd y) a" if "net_lookup t u d = Some (ir_net_id a)" for a
    using that y(2) by (auto simp: foreign_range_def list_ex_iff)
  then have "\<forall>a \<in> set (ip_range x). foreign_range d u (snd y) a \<and> ir_mask_num a = uint (fst s) \<longrightarrow>
       ir_begin_num a \<le> ir_end_num a \<and> {ir_begin_num a..ir_end_num a} \<inter> int ` A = {}"
    using y(3) assms(2) by blast
  then show ?thesis
    unfolding clear_of_others_def v_net_ln_np_tabs foreign_range_tabs set_tabs_sel tabs_set_tabs simp_thms if_True
    using y(1,2) by blast
qed (simp add: clear_of_others_def)

lemma check_add_iprange_live:
  assumes "ip_ranges_live t u d" and "clear_of_others t u s A d" and "good_ip_row u s r"
    and "ip_item_set (ip_row_item False r) \<subseteq> A"
  shows "pf_net_check_add_iprange t r d = 0"
proof -
  have g: "RgUuid r = u" "good_ip_item s (ip_row_item False r)" "num32 (RgBeginNum r)" "num32 (RgEndNum r)"
    "num32 (RgMaskNum r)" using assms(3) by (simp_all add: good_ip_row_def)
  have iv: "int ` ip_item_set (ip_row_item False r) = {RgBeginNum r..RgEndNum r}"
    using g(3,4) by (simp add: int_item_set ip_row_item_def num_uaddr_net ip_num_def num32_word)
  have le: "RgBeginNum r \<le> RgEndNum r" using good_ip_item_sel(5) [OF g(2)] iv by auto
  have mk: "RgMaskNum r = uint (fst s)"
    using good_ip_item_sel(1) [OF g(2)] num32_word [OF g(5)] by (simp add: ip_row_item_def num_uaddr_net)
  have sub: "{RgBeginNum r..RgEndNum r} \<subseteq> int ` A" using assms(4) iv by (metis image_mono)
  obtain n where n: "net_lookup t u d = Some n" using assms(1) by (auto simp: ip_ranges_live_def)
  show ?thesis
  proof (cases t)
    case NETPLANE
    then show ?thesis using n le g(1) by (simp add: pf_net_check_add_iprange_def)
  next
    case LOGIC_NET
    obtain y where y: "find (\<lambda>x. ln_uuid (fst x) = u) (v_net_ln_np d) = Some y"
      "\<forall>a \<in> set (ranges_of t d). foreign_range d u (snd y) a \<and> ir_mask_num a = uint (fst s) \<longrightarrow>
         ir_begin_num a \<le> ir_end_num a \<and> {ir_begin_num a..ir_end_num a} \<inter> int ` A = {}"
      using assms(2) LOGIC_NET unfolding clear_of_others_def by blast
    have "\<not> (ir_begin_num a \<le> RgEndNum r \<and> ir_end_num a \<ge> RgBeginNum r)"
      if a: "a \<in> set (ranges_of t d)" "foreign_range d u (snd y) a" "ir_mask_num a = RgMaskNum r" for a
    proof
      assume o: "ir_begin_num a \<le> RgEndNum r \<and> ir_end_num a \<ge> RgBeginNum r"
      have "ir_begin_num a \<le> ir_end_num a" "{ir_begin_num a..ir_end_num a} \<inter> int ` A = {}" using y(2) a mk by auto
      moreover have "max (ir_begin_num a) (RgBeginNum r) \<in> {RgBeginNum r..RgEndNum r}" using o le by simp
      moreover have "max (ir_begin_num a) (RgBeginNum r) \<in> {ir_begin_num a..ir_end_num a}" using o calculation(1) by simp
      ultimately show False using sub by blast
    qed
    then show ?thesis
      using n le g(1) y(1) LOGIC_NET
      by (auto simp: pf_net_check_add_iprange_def list_ex_iff foreign_range_def)
  qed
qed

lemma IpRange_Add_row_live:
  assumes "ip_ranges_live t u d" and "clear_of_others t u s A d" and "good_ip_row u s r"
    and "ip_item_set (ip_row_item False r) \<subseteq> A" and "length (RgBeginStr r) \<le> IP_TEXT_LEN"
    and "length (RgEndStr r) \<le> IP_TEXT_LEN" and "length (RgMaskStr r) \<le> IP_TEXT_LEN"
  shows "fst (IpRange_Add t r d) = 0 \<and> ip_ranges_live t u (snd (IpRange_Add t r d)) \<and>
         clear_of_others t u s A (snd (IpRange_Add t r d))"
proof -
  obtain n where n: "net_lookup t u d = Some n" using assms(1) by (auto simp: ip_ranges_live_def)
  have u: "RgUuid r = u" using assms(3) by (simp add: good_ip_row_def)
  let ?i = "serial_ip_range (tabs t d) + 1"
  let ?row = "\<lparr>ir_id = ?i, ir_net_id = n, ir_begin = RgBeginStr r, ir_end = RgEndStr r, ir_mask = RgMaskStr r,
    ir_begin_num = RgBeginNum r, ir_end_num = RgEndNum r, ir_mask_num = RgMaskNum r\<rparr>"
  let ?x = "(tabs t d)\<lparr>serial_ip_range := ?i, ip_range := ranges_of t d @ [?row]\<rparr>"
  have "?i \<notin> ir_id ` set (ranges_of t d)" using assms(1) by (force simp: ip_ranges_live_def)
  then have "pf_net_add_iprange t r d = Some (0, set_tabs t ?x d)"
    using check_add_iprange_live [OF assms(1-4)] n u assms(5-7)
    by (simp add: pf_net_add_iprange_def Let_def insert_ip_range_def)
  then have "IpRange_Add t r d = (0, set_tabs t ?x d)"
    using assms(1) by (simp add: IpRange_Add_def db_add_op_def Handle_run ip_ranges_live_def rtn_defs)
  moreover have "ip_ranges_live t u (set_tabs t ?x d)" using assms(1) by (fastforce simp: ip_ranges_live_def)
  moreover have "clear_of_others t u s A (set_tabs t ?x d)"
    using n by (intro clear_of_others_ranges [OF assms(2)]) auto
  ultimately show ?thesis by simp
qed

lemma IpRange_Del_live:
  assumes "ip_ranges_live t u d" and "clear_of_others t u s A d" and "good_ip_row u s r"
    and "r \<in> set (subnet_rows s t u d)"
  shows "fst (IpRange_Del t r d) = 0 \<and> ip_ranges_live t u (snd (IpRange_Del t r d)) \<and>
         clear_of_others t u s A (snd (IpRange_Del t r d))"
proof -
  obtain n where n: "net_lookup t u d = Some n" using assms(1) by (auto simp: ip_ranges_live_def)
  have g: "RgUuid r = u" "good_ip_item s (ip_row_item False r)" "num32 (RgBeginNum r)" "num32 (RgEndNum r)"
    using assms(3) by (simp_all add: good_ip_row_def)
  have "int ` ip_item_set (ip_row_item False r) = {RgBeginNum r..RgEndNum r}"
    using g(3,4) by (simp add: int_item_set ip_row_item_def num_uaddr_net ip_num_def num32_word)
  then have le: "\<not> RgBeginNum r > RgEndNum r" using good_ip_item_sel(5) [OF g(2)] by auto
  let ?x = "(tabs t d)\<lparr>ip_range := filter (\<lambda>y. \<not> is_ip_range_row n r y) (ranges_of t d)\<rparr>"
  have "filter (is_ip_range_row n r) (ranges_of t d) \<noteq> []"
    using assms(4) n g(1) by (auto simp: subnet_rows_eq is_ip_range_row_eq other_ip_row_def filter_empty_conv)
  then have "pf_net_del_iprange t r d = Some (0, set_tabs t ?x d)"
    using n le g(1) by (simp add: pf_net_del_iprange_def Let_def)
  then have "IpRange_Del t r d = (0, set_tabs t ?x d)"
    using assms(1) by (simp add: IpRange_Del_def db_del_op_def Handle_run ip_ranges_live_def rtn_defs)
  moreover have "ip_ranges_live t u (set_tabs t ?x d)" using assms(1) by (simp add: ip_ranges_live_def)
  moreover have "clear_of_others t u s A (set_tabs t ?x d)" by (intro clear_of_others_ranges [OF assms(2)]) auto
  ultimately show ?thesis by simp
qed

text \<open>The store of one subnet with its ranges inside \<open>A\<close>.\<close>

interpretation ip_store_live: live_store "ip_store_inv s t u d0" "\<lambda>d. set (subnet_rows s t u d)"
  "\<lambda>i. good_ip_item s i \<and> ip_item_set i \<subseteq> A" "ip_row_item big" "\<lambda>i. IpRange_Add t (ip_item_row big u i)"
  "IpRange_Del t" "\<lambda>d. ip_ranges_live t u d \<and> clear_of_others t u s A d" for s t u d0 A big
proof (unfold_locales, goal_cases)
  case (1 d)
  then show ?case by (rule ip_store.key_inj)
next
  case (2 d i)
  then show ?case using ip_store.add_inv [of s t u d0 d i big] by simp
next
  case (3 d i)
  then show ?case using ip_store.add_done [of s t u d0 d i big] by simp
next
  case (4 d i)
  then show ?case using ip_store.add_failed [of s t u d0 d i big] by simp
next
  case (5 d r)
  then show ?case by (rule ip_store.del_inv)
next
  case (6 d r)
  then show ?case by (rule ip_store.del_done)
next
  case (7 d r)
  then show ?case by (rule ip_store.del_failed)
next
  case (8 d i)
  have "length (show_uaddr a) \<le> IP_TEXT_LEN" for a using length_show_uaddr [of a] by (simp add: IP_TEXT_LEN_def)
  then have t: "length (RgBeginStr (ip_item_row big u i)) \<le> IP_TEXT_LEN"
    "length (RgEndStr (ip_item_row big u i)) \<le> IP_TEXT_LEN" "length (RgMaskStr (ip_item_row big u i)) \<le> IP_TEXT_LEN"
    by (simp_all add: ip_item_row_def GetIP_def GetMask_def)
  have g: "good_ip_item s i" "ip_ranges_live t u d" "clear_of_others t u s A d" using 8(2,3) by simp_all
  have sub: "ip_item_set (ip_row_item False (ip_item_row big u i)) \<subseteq> A" using 8(3) g(1) by simp
  show ?case using IpRange_Add_row_live [OF g(2,3) good_ip_item_row(1) [OF g(1)] sub t] by simp
next
  case (9 d r)
  then have "good_ip_row u s r" by (simp add: ip_store_inv_def subnet_rows_ok_def)
  then show ?case using IpRange_Del_live [of t u d s A r] 9(2,3) by simp
qed

section \<open>The managers\<close>

lemma IpRange_Query_live: "env d = [] \<Longrightarrow> IpRange_Query t u d = (0, ip_net_rows t u d, d)"
  by (simp add: IpRange_Query_def db_query_op_def Handle_run pf_net_query_iprange_rows VNET_DB_SUCCESS_def)

lemma good_ip_item_le: "good_ip_item s i \<Longrightarrow> ip_num (uIP (tIPStart i)) \<le> ip_num (uIP (tIPEnd i))"
  using good_ip_item_sel(5) [of s i] by (simp add: ip_item_set_def)

lemma ip_occupied_live:
  assumes "ip_ranges_live t u d" and "good_ip_item s i"
  shows "\<exists>num. ip_occupied big t u i d = (0, num, d) \<and> (num = 0 \<longleftrightarrow> ip_item_free t u i d)"
proof -
  have e: "env d = []" using assms(1) by (simp add: ip_ranges_live_def)
  obtain n where n: "net_lookup t u d = Some n" using assms(1) by (auto simp: ip_ranges_live_def)
  let ?b = "int (ip_num (uIP (tIPStart i)))" and ?e = "int (ip_num (uIP (tIPEnd i)))"
  have le: "\<not> ?b > ?e" using good_ip_item_le [OF assms(2)] by simp
  let ?k = "int (length (filter (\<lambda>r. ia_net_id r = n \<and> ia_num r \<ge> ?b \<and> ia_num r \<le> ?e) (pool_of t d)))"
  define num where "num = (if t = NETPLANE then if ?k > 0 then 1 else 0 else ?k)"
  have "ip_occupied big t u i d = (0, num, d)"
    unfolding num_def using e n le
    by (cases t) (simp_all add: ip_occupied_def range_bounds_num IpRange_QueryAllocNum_def IpRange_QueryIsUsing_def
        Handle_run pf_net_query_iprange_alloc_def pf_net_query_netplane_iprange_is_using_def VNET_DB_SUCCESS_def)
  moreover have "?k = 0 \<longleftrightarrow> ip_item_free t u i d"
    using n by (auto simp: ip_item_free_def ip_alloc_def int_item_set filter_empty_conv)
  moreover have "num = 0 \<longleftrightarrow> ?k = 0" by (simp add: num_def)
  ultimately show ?thesis by blast
qed

lemma save_ip_ranges_live:
  assumes "subnet_rows_ok s t u d" and "ip_ranges_live t u d" and "clear_of_others t u s A d" and "distinct calc"
    and "good_ips s calc" and "ips calc \<subseteq> A"
  shows "fst (save_ip_ranges (IpRange_Del t) big t u calc (subnet_rows s t u d) d) = 0"
proof -
  obtain ret d' where s: "save_ip_ranges (IpRange_Del t) big t u calc (subnet_rows s t u d) d = (ret, d')" by fastforce
  have "ip_store_inv s t u d d" using assms(1) by (simp add: ip_store_inv_def)
  moreover have "\<forall>i \<in> set calc. good_ip_item s i \<and> ip_item_set i \<subseteq> A"
    using assms(5,6) by (auto simp: good_ips_def ips_def)
  moreover have "sync_rows (\<lambda>i. IpRange_Add t (ip_item_row big u i)) (IpRange_Del t) (ip_row_item big) calc
      (subnet_rows s t u d) d = (ret, d')" using s by (simp add: save_ip_ranges_def)
  ultimately have "ret = 0 \<and> (ip_ranges_live t u d' \<and> clear_of_others t u s A d')"
    using assms(2-4) subnet_rows_ok_distinct [OF assms(1)]
    by (intro ip_store_live.sync_live [of s t u d d A calc "subnet_rows s t u d" big ret d']) simp_all
  then show ?thesis using s by simp
qed

lemma related_live:
  assumes "good_ip_item s new" and "ip_net_ok t u d"
  shows "related_ip_rows big new (ip_net_rows t u d) [] [] =
    (if \<exists>r \<in> set (ip_net_rows t u d). crossing s r then None else Some (subnet_rows s t u d, subnet_ranges s t u d))"
  using related_ip_rows_good [OF assms(1) ip_net_ok_good [OF assms(2)], of big]
  by (simp add: subnet_rows_def subnet_ranges_def ip_row_item_host [of big])

section \<open>The codes of the range messages\<close>

lemma AddIPv4Range_live_code:
  assumes "m_bInit d" and "u = c_str (m_strNetUUID m)" and "ip_ranges_live t u d" and "ip_net_ok t u d"
    and "\<And>i. ip_msg_item big m = Inr i \<Longrightarrow>
      clear_of_others t u (subnet_of i) (subnet_ips (subnet_of i) t u d \<union> ip_item_set i) d"
    and "length (m_strIPv4Start m) \<le> IP_TEXT_LEN" and "length (m_strIPv4End m) \<le> IP_TEXT_LEN"
    and "length (m_strIPv4EndMask m) \<le> IP_TEXT_LEN"
  shows "fst (AddIPv4Range big t m d) =
    (if \<not> IsValidIPv4MsgRange m then IPV4_RANGE_CFG_PARAM_ERROR
     else case ip_msg_item big m of
            Inl c \<Rightarrow> c
          | Inr i \<Rightarrow> if \<exists>r \<in> set (ip_net_rows t u d). crossing (subnet_of i) r then IPV4_RANGE_INVALID
                     else IPV4_RANGE_OPER_SUCCESS)"
proof (cases "\<exists>i. IsValidIPv4MsgRange m \<and> ip_msg_item big m = Inr i \<and>
    \<not> (\<exists>r \<in> set (ip_net_rows t u d). crossing (subnet_of i) r)")
  case False
  have e: "env d = []" using assms(3) by (simp add: ip_ranges_live_def)
  show ?thesis
  proof (cases "ip_msg_item big m")
    case (Inr i)
    then show ?thesis
      using False assms(1,2) IpRange_Query_live [OF e, of t u] related_live [OF ip_msg_item_good [OF Inr] assms(4), of big]
      by (auto simp: AddIPv4Range_def Let_def VNET_DB_SUCCESS_def)
  qed (use assms(1) in \<open>simp add: AddIPv4Range_def\<close>)
next
  case True
  then obtain i where i: "IsValidIPv4MsgRange m" "ip_msg_item big m = Inr i"
    "\<not> (\<exists>r \<in> set (ip_net_rows t u d). crossing (subnet_of i) r)" by blast
  let ?s = "subnet_of i"
  note g = ip_msg_item_good [OF i(2)] and cl = assms(5) [OF i(2)] and ok = ip_net_ok_rows [OF assms(4), of "subnet_of i"]
  have e: "env d = []" using assms(3) by (simp add: ip_ranges_live_def)
  note run = i assms(1,2) IpRange_Query_live [OF e, of t u] related_live [OF g assms(4), of big]
  have "fst (AddIPv4Range big t m d) = IPV4_RANGE_OPER_SUCCESS"
  proof (cases "subnet_rows ?s t u d = []")
    case empty: True
    have len: "length (c_str x) \<le> IP_TEXT_LEN" if "length x \<le> IP_TEXT_LEN" for x
      using that le_trans [OF length_takeWhile_le] by (simp add: c_str_def)
    note f = first_ip_row_sel [OF g, where m = m and big = big, folded assms(2)]
    have "fst (IpRange_Add t (first_ip_row big m i) d) = 0"
      using IpRange_Add_row_live [OF assms(3) cl f(4)] f(2) len assms(6-8) by (simp add: first_ip_row_def)
    then show ?thesis
      using run empty by (auto simp: AddIPv4Range_def Let_def ip_mgr_codes subnet_ranges_def split: prod.splits)
  next
    case False
    have c: "subnet_ranges ?s t u d \<noteq> []" and ne: "ip_net_rows t u d \<noteq> []"
      using False by (auto simp: subnet_ranges_def subnet_rows_def)
    obtain calc where calc: "CIPv4AddrRange_AddRange big i (subnet_ranges ?s t u d) = (0, calc)"
      "ips calc = ips (subnet_ranges ?s t u d) \<union> ip_item_set i" "distinct calc" "good_ips ?s calc"
      using AddRange_ip_rows [OF c subnet_rows_ok_good [OF ok] g, of big] by blast
    have del: "(if t = NETPLANE then IpRange_ForceDel else IpRange_Del t) = IpRange_Del t"
      by (simp add: IpRange_ForceDel_Del)
    show ?thesis
      using run c ne calc(1) save_ip_ranges_live [OF ok assms(3) cl calc(3,4), of big] calc(2)
      by (simp add: AddIPv4Range_def Let_def ip_mgr_codes del subnet_ips_def)
  qed
  then show ?thesis using i by auto
qed

lemma DelIPv4Range_live_code:
  assumes "m_bInit d" and "u = c_str (m_strNetUUID m)" and "ip_ranges_live t u d" and "ip_net_ok t u d"
    and "ip_msg_item big m = Inr i" and "s = subnet_of i" and "IsValidIPv4MsgRange m"
    and "clear_of_others t u s (subnet_ips s t u d) d" and "ip_rows_apart s t u d"
  shows "fst (DelIPv4Range big t m d) =
    (if ip_net_rows t u d = [] then IPV4_RANGE_NOT_EXIST
     else if \<not> ip_item_free t u i d then IPV4_RANGE_OCCUPIED
     else if \<exists>r \<in> set (ip_net_rows t u d). crossing s r then IPV4_RANGE_INVALID
     else if subnet_rows s t u d = [] then IPV4_RANGE_NOT_EXIST
     else if \<not> ip_item_set i \<subseteq> subnet_ips s t u d then IPV4_RANGE_CALC_ERROR
     else IPV4_RANGE_OPER_SUCCESS)"
proof -
  note g = ip_msg_item_good [OF assms(5), folded assms(6)]
  note ok = ip_net_ok_rows [OF assms(4), of s]
  have e: "env d = []" using assms(3) by (simp add: ip_ranges_live_def)
  obtain num where num: "ip_occupied big t u i d = (0, num, d)" "num = 0 \<longleftrightarrow> ip_item_free t u i d"
    using ip_occupied_live [OF assms(3) g] by blast
  let ?c = "subnet_ranges s t u d"
  have none: "?c = [] \<longleftrightarrow> subnet_rows s t u d = []" by (simp add: subnet_ranges_def)
  have start: "fst (DelIPv4Range big t m d) =
    (if ip_net_rows t u d = [] then IPV4_RANGE_NOT_EXIST
     else if num \<noteq> 0 then IPV4_RANGE_OCCUPIED
     else if \<exists>r \<in> set (ip_net_rows t u d). crossing s r then IPV4_RANGE_INVALID
     else if ?c = [] then IPV4_RANGE_NOT_EXIST
     else case CIPv4AddrRange_DelRange big i ?c of
            (r, c') \<Rightarrow> if r \<noteq> 0 then IPV4_RANGE_CALC_ERROR
                       else fst (save_ip_ranges (IpRange_Del t) big t u c' (subnet_rows s t u d) d))"
    using assms(1,2,5,7) IpRange_Query_live [OF e, of t u] related_live [OF g assms(4), of big] num(1)
    by (simp add: DelIPv4Range_def Let_def VNET_DB_SUCCESS_def split: prod.splits)
  have ap: "apart (map (ip_to_range False) ?c)" using assms(9) by (simp add: ip_rows_apart_def)
  have inv: "ip_inv ?c"
    using ap good_ips_sub [OF subnet_rows_ok_good [OF ok]] hosts_bound [of s] by (auto simp: ip_inv_def)
  have v: "IsValidIPv4Range big i" using g by (simp add: good_ip_item_def IsValidIPv4Range_host [of big])
  show ?thesis
  proof (cases "ip_item_set i \<subseteq> subnet_ips s t u d")
    case True
    then obtain c' where c': "CIPv4AddrRange_DelRange big i ?c = (0, c')"
      using CIPv4AddrRange_DelRange_done [OF inv v] by (auto simp: prod_eq_iff subnet_ips_def)
    have "fst (save_ip_ranges (IpRange_Del t) big t u c' (subnet_rows s t u d) d) = 0" if "?c \<noteq> []"
    proof -
      note dr = DelRange_ip_rows [OF that subnet_rows_ok_good [OF ok] ap g c']
      show ?thesis
        using dr(2) by (intro save_ip_ranges_live [OF ok assms(3,8) dr(3,4)]) (auto simp: subnet_ips_def)
    qed
    then show ?thesis using True start num(2) none c' by (simp add: IPV4_RANGE_OPER_SUCCESS_def)
  next
    case False
    then show ?thesis
      using CIPv4AddrRange_DelRange_missing [OF inv v] start num(2) none
      by (auto simp: subnet_ips_def split: prod.splits)
  qed
qed

end
