(* ===== verification/Ipv4Draw.thy ===== *)
theory Ipv4Draw
  imports Ipv4Alloc
begin

text \<open>
  \<open>CIPv4AddrPool::CalcIPv4Addr\<close>, the address that is drawn from a UUID: when the division traps, where the
  drawn address lies, and when an allocation returns at all.
\<close>

section \<open>Octets\<close>

definition octets :: "TIPV4AddrRangeItem \<Rightarrow> (uint8 \<times> uint8) list" where
  "octets r = zip (uaddr_bytes (uIP (tIPStart r))) (uaddr_bytes (uIP (tIPEnd r)))"

text \<open>The last octet is one below the first: the divisor is 0 whatever the UUID is.\<close>

definition traps :: "TIPV4AddrRangeItem \<Rightarrow> bool" where
  "traps r \<longleftrightarrow> list_ex (\<lambda>(s, e). uint s = uint e + 1) (octets r)"

text \<open>No divisor is 0 or -1.\<close>

definition drawable :: "TIPV4AddrRangeItem \<Rightarrow> bool" where
  "drawable r \<longleftrightarrow> list_all (\<lambda>(s, e). uint s \<noteq> uint e + 1 \<and> uint s \<noteq> uint e + 2) (octets r)"

definition octets_ordered :: "TIPV4AddrRangeItem \<Rightarrow> bool" where
  "octets_ordered r \<longleftrightarrow> list_all (\<lambda>(s, e). s \<le> e) (octets r)"

lemma octets_list:
  "octets r = [(auc0 (uIP (tIPStart r)), auc0 (uIP (tIPEnd r))), (auc1 (uIP (tIPStart r)), auc1 (uIP (tIPEnd r))),
     (auc2 (uIP (tIPStart r)), auc2 (uIP (tIPEnd r))), (auc3 (uIP (tIPStart r)), auc3 (uIP (tIPEnd r)))]"
  by (simp add: octets_def uaddr_bytes_def)

lemma octets_ordered_drawable: "octets_ordered r \<Longrightarrow> drawable r"
  by (auto simp: octets_ordered_def drawable_def octets_list word_le_def)

lemma calc_octet_trap: "uint s = uint e + 1 \<Longrightarrow> calc_octet f s e = None"
  by (simp add: calc_octet_def int32_rem_def)

lemma calc_octet_some: "uint s \<noteq> uint e + 1 \<Longrightarrow> uint s \<noteq> uint e + 2 \<Longrightarrow> \<exists>x. calc_octet f s e = Some x"
  by (auto simp: calc_octet_def int32_rem_def)

text \<open>The numbers that the four octets are computed from.\<close>

definition draw_factors :: "bool \<Rightarrow> uint8 list \<Rightarrow> uint32 \<Rightarrow> uint32 list" where
  "draw_factors big uuid key =
     [int32_at big uuid 0, int32_at big uuid 4, int32_at big uuid 8,
      int16_at big uuid 12 * 102317 + int16_at big uuid 14 * 8317 + int32_at big uuid 0 * 3331 +
        int32_at big uuid 4 * 2179 + int32_at big uuid 8 * 9973 + key * 5711 + 382457]"

lemma CalcIPv4Addr_factors:
  "CalcIPv4Addr big uuid key r =
     (let f = draw_factors big uuid key; s = uIP (tIPStart r); e = uIP (tIPEnd r)
      in case (calc_octet (f ! 0) (auc0 s) (auc0 e), calc_octet (f ! 1) (auc1 s) (auc1 e),
               calc_octet (f ! 2) (auc2 s) (auc2 e), calc_octet (f ! 3) (auc3 s) (auc3 e)) of
           (Some n0, Some n1, Some n2, Some n3) \<Rightarrow>
             Some \<lparr>uIP = \<lparr>auc0 = n0, auc1 = n1, auc2 = n2, auc3 = n3\<rparr>, uMask = uMask (tIPStart r)\<rparr>
         | _ \<Rightarrow> None)"
proof -
  have "draw_factors big uuid key ! 0 = int32_at big uuid 0" "draw_factors big uuid key ! 1 = int32_at big uuid 4"
    "draw_factors big uuid key ! 2 = int32_at big uuid 8"
    "draw_factors big uuid key ! 3 =
       int16_at big uuid 12 * 102317 + int16_at big uuid 14 * 8317 + int32_at big uuid 0 * 3331 +
       int32_at big uuid 4 * 2179 + int32_at big uuid 8 * 9973 + key * 5711 + 382457"
    by (simp_all add: draw_factors_def)
  then show ?thesis by (simp only: CalcIPv4Addr_def Let_def)
qed

lemma CalcIPv4Addr_traps: "traps r \<Longrightarrow> CalcIPv4Addr big uuid key r = None"
  by (auto simp: traps_def octets_list CalcIPv4Addr_def Let_def calc_octet_trap split: option.split)

lemma CalcIPv4Addr_drawable:
  assumes "drawable r"
  shows "\<exists>a. CalcIPv4Addr big uuid key r = Some a"
proof -
  let ?s = "uIP (tIPStart r)" and ?e = "uIP (tIPEnd r)"
  let ?f = "\<lambda>i. draw_factors big uuid key ! i"
  obtain x0 x1 x2 x3 where "calc_octet (?f 0) (auc0 ?s) (auc0 ?e) = Some x0"
    "calc_octet (?f 1) (auc1 ?s) (auc1 ?e) = Some x1" "calc_octet (?f 2) (auc2 ?s) (auc2 ?e) = Some x2"
    "calc_octet (?f 3) (auc3 ?s) (auc3 ?e) = Some x3"
    using assms calc_octet_some [of "auc0 ?s" "auc0 ?e"] calc_octet_some [of "auc1 ?s" "auc1 ?e"]
      calc_octet_some [of "auc2 ?s" "auc2 ?e"] calc_octet_some [of "auc3 ?s" "auc3 ?e"]
    unfolding drawable_def octets_list by (simp only: list.pred_inject prod.case) blast
  then show ?thesis by (simp add: CalcIPv4Addr_factors)
qed

section \<open>Where a drawn address lies\<close>

text \<open>With a factor that is not negative, an octet lies between the first and the last one.\<close>

lemma calc_octet_range:
  assumes "calc_octet f s e = Some x" and "s \<le> e" and "0 \<le> sint f"
  shows "s \<le> x \<and> x \<le> e"
proof -
  let ?n = "uint e - uint s + 1" and ?k = "sint f smod (uint e - uint s + 1)"
  have se: "uint s \<le> uint e" using assms(2) by (simp add: word_le_def)
  have "?n \<noteq> 0" "?n \<noteq> - 1" using se by simp_all
  then have x: "x = s + word_of_int ?k" using assms(1) by (simp add: calc_octet_def int32_rem_def)
  have "?k = sint f mod ?n" using assms(3) se by (simp add: signed_modulo_int_def sgn_if abs_if)
  then have k: "0 \<le> ?k" "?k \<le> uint e - uint s"
    using se pos_mod_bound [of ?n "sint f"] by simp_all
  have b: "uint e < 256" "0 \<le> uint s" using uint_lt2p [of e] by simp_all
  have k2: "?k < 256" "uint s + ?k < 256" "0 \<le> uint s + ?k" using k b by linarith+
  have "uint (word_of_int ?k :: uint8) = ?k" using k(1) k2(1) by (simp only: uint_word_of_int) simp
  then have "uint x = uint s + ?k" using k2(2,3) by (simp only: x uint_word_ariths) simp
  then show ?thesis using k by (simp add: word_le_def)
qed

text \<open>An address as the sum of its octets; the order of addresses is that of their octets, if it is one.\<close>

lemma or_plus_word:
  assumes "\<And>n. \<not> bit a n \<or> \<not> bit (b :: uint32) n"
  shows "a OR b = a + b"
  using disjunctive_add [of a b] assms by simp

lemma word_of_bytes_unat:
  "unat (word_of_bytes b3 b2 b1 b0) = unat b3 * 2 ^ 24 + unat b2 * 2 ^ 16 + unat b1 * 2 ^ 8 + unat b0"
proof -
  let ?u = "\<lambda>b. ucast b :: uint32"
  have z: "\<not> bit (b :: uint8) n" if "8 \<le> n" for b n using byte_bit_ge [OF that] .
  have "push_bit 8 (?u b1) OR ?u b0 = push_bit 8 (?u b1) + ?u b0"
    by (rule or_plus_word) (auto simp: bit_simps z)
  moreover have "push_bit 16 (?u b2) OR (push_bit 8 (?u b1) OR ?u b0) =
      push_bit 16 (?u b2) + (push_bit 8 (?u b1) OR ?u b0)"
    by (rule or_plus_word) (auto simp: bit_simps z)
  moreover have "push_bit 24 (?u b3) OR (push_bit 16 (?u b2) OR (push_bit 8 (?u b1) OR ?u b0)) =
      push_bit 24 (?u b3) + (push_bit 16 (?u b2) OR (push_bit 8 (?u b1) OR ?u b0))"
    by (rule or_plus_word) (auto simp: bit_simps z)
  ultimately have "word_of_bytes b3 b2 b1 b0 =
      push_bit 24 (?u b3) + (push_bit 16 (?u b2) + (push_bit 8 (?u b1) + ?u b0))"
    by (simp only: word_of_bytes_def)
  also have "\<dots> = of_nat (unat b3 * 2 ^ 24 + unat b2 * 2 ^ 16 + unat b1 * 2 ^ 8 + unat b0)"
    by (simp add: push_bit_eq_mult)
  finally have w: "word_of_bytes b3 b2 b1 b0 =
      of_nat (unat b3 * 2 ^ 24 + unat b2 * 2 ^ 16 + unat b1 * 2 ^ 8 + unat b0)" .
  have "unat b3 * 2 ^ 24 + unat b2 * 2 ^ 16 + unat b1 * 2 ^ 8 + unat b0 < 4294967296"
    using byte_le_255 [of b3] byte_le_255 [of b2] byte_le_255 [of b1] byte_le_255 [of b0] by simp
  then show ?thesis unfolding w by (rule unat_of_nat32)
qed

lemma net_word_le:
  assumes "auc0 u \<le> auc0 v" and "auc1 u \<le> auc1 v" and "auc2 u \<le> auc2 v" and "auc3 u \<le> auc3 v"
  shows "net_word u \<le> net_word v"
  using assms by (simp add: word_le_nat_alt net_word_def word_of_bytes_unat)

text \<open>Whatever the UUID: when the four numbers are not negative and the octets of the range are in order, the
  drawn address is in the range.\<close>

lemma CalcIPv4Addr_in_range:
  assumes "CalcIPv4Addr big uuid key r = Some a" and "octets_ordered r"
    and "\<forall>f \<in> set (draw_factors big uuid key). 0 \<le> sint f"
  shows "net_word (uIP (tIPStart r)) \<le> net_word (uIP a) \<and> net_word (uIP a) \<le> net_word (uIP (tIPEnd r))"
proof -
  let ?s = "uIP (tIPStart r)" and ?e = "uIP (tIPEnd r)" and ?f = "\<lambda>i. draw_factors big uuid key ! i"
  have f: "0 \<le> sint (?f 0)" "0 \<le> sint (?f 1)" "0 \<le> sint (?f 2)" "0 \<le> sint (?f 3)"
    using assms(3) by (simp_all add: draw_factors_def)
  have o: "auc0 ?s \<le> auc0 ?e" "auc1 ?s \<le> auc1 ?e" "auc2 ?s \<le> auc2 ?e" "auc3 ?s \<le> auc3 ?e"
    using assms(2) by (simp_all add: octets_ordered_def octets_list)
  have x: "calc_octet (?f 0) (auc0 ?s) (auc0 ?e) = Some (auc0 (uIP a))"
    "calc_octet (?f 1) (auc1 ?s) (auc1 ?e) = Some (auc1 (uIP a))"
    "calc_octet (?f 2) (auc2 ?s) (auc2 ?e) = Some (auc2 (uIP a))"
    "calc_octet (?f 3) (auc3 ?s) (auc3 ?e) = Some (auc3 (uIP a))"
    using assms(1) by (auto simp: CalcIPv4Addr_factors Let_def split: option.splits)
  note c = calc_octet_range [OF x(1) o(1) f(1)] calc_octet_range [OF x(2) o(2) f(2)]
    calc_octet_range [OF x(3) o(3) f(3)] calc_octet_range [OF x(4) o(4) f(4)]
  show ?thesis using c by (simp add: net_word_le)
qed

section \<open>Returning\<close>

text \<open>A range from which every call returns: no division traps and the scan ends.\<close>

definition usable :: "bool \<Rightarrow> TIPV4AddrRangeItem \<Rightarrow> bool" where
  "usable big r \<longleftrightarrow> drawable r \<and> range_begin big r \<le> range_end big r \<and> range_end big r \<noteq> - 1"

lemma usable_interval:
  assumes "usable big r"
  shows "range_end big r - range_begin big r + 1 \<noteq> 0"
proof
  assume "range_end big r - range_begin big r + 1 = 0"
  then have z: "range_end big r + 1 = range_begin big r" by (simp add: algebra_simps)
  have "unat (range_end big r + 1) = Suc (unat (range_end big r))"
    using assms by (intro unat_plus_one) (simp add: usable_def)
  then show False using assms by (simp add: z usable_def word_le_nat_alt)
qed

lemma try_alloc_ip_returns: "usable big r \<Longrightarrow> \<exists>z. try_alloc_ip big rnd t u key r a n d = Some z"
proof (induction "15 - n" arbitrary: a n d rule: less_induct)
  case less
  obtain r1 d1 where s: "SaveIPv4Addr2DB big t u a d = (r1, d1)" by fastforce
  obtain b where b: "CalcIPv4Addr big (rnd (n + 1)) key r = Some b"
    using CalcIPv4Addr_drawable [of r big "rnd (n + 1)" key] less.prems by (auto simp: usable_def)
  have ih: "\<exists>z. try_alloc_ip big rnd t u key r x (n + 1) d1 = Some z" if "\<not> n + 1 > 15" for x
    using that less.prems by (intro less.hyps) simp_all
  show ?case
    unfolding try_alloc_ip_step [OF s] using b ih usable_interval [OF less.prems] by simp
qed

lemma scan_free_ip_result:
  assumes "e \<noteq> - 1" and "i \<le> e + 1"
  shows "\<exists>x. scan_free_ip mk e rows i = Some x \<and>
     (case x of None \<Rightarrow> \<forall>j. i \<le> j \<and> j \<le> e \<longrightarrow> (\<exists>r \<in> set rows. IpNum r = uint j \<and> MaskNum r = uint mk)
      | Some j \<Rightarrow> i \<le> j \<and> j \<le> e \<and> \<not> (\<exists>r \<in> set rows. IpNum r = uint j \<and> MaskNum r = uint mk))"
  using assms(2)
proof (induction "unat (e + 1) - unat i" arbitrary: i rule: less_induct)
  case less
  let ?P = "\<lambda>j. \<exists>r \<in> set rows. IpNum r = uint j \<and> MaskNum r = uint mk"
  have p: "find (\<lambda>r. IpNum r = uint j \<and> MaskNum r = uint mk) rows \<noteq> None \<longleftrightarrow> ?P j" for j
    by (auto simp: find_None_iff)
  have e1: "unat (e + 1) = Suc (unat e)" by (rule unat_plus_one [OF assms(1)])
  show ?case
  proof (cases "i \<le> e \<and> ?P i")
    case False
    then show ?thesis by (subst scan_free_ip.simps) (auto simp: p [simplified])
  next
    case True
    have i1: "unat (i + 1) = Suc (unat i)"
      using True assms(1) by (intro unat_plus_one) (metis word_order.extremum_uniqueI)
    have "\<exists>x. scan_free_ip mk e rows (i + 1) = Some x \<and>
       (case x of None \<Rightarrow> \<forall>j. i + 1 \<le> j \<and> j \<le> e \<longrightarrow> ?P j | Some j \<Rightarrow> i + 1 \<le> j \<and> j \<le> e \<and> \<not> ?P j)"
      using True by (intro less.hyps) (auto simp: e1 i1 word_le_nat_alt)
    then obtain x where x: "scan_free_ip mk e rows (i + 1) = Some x"
      "case x of None \<Rightarrow> \<forall>j. i + 1 \<le> j \<and> j \<le> e \<longrightarrow> ?P j | Some j \<Rightarrow> i + 1 \<le> j \<and> j \<le> e \<and> \<not> ?P j" by blast
    have after: "i + 1 \<le> j \<longleftrightarrow> i \<le> j \<and> j \<noteq> i" for j
      by (auto simp: word_le_nat_alt i1 word_unat_eq_iff)
    have "scan_free_ip mk e rows i = Some x" using True x(1) p [of i] by (subst scan_free_ip.simps) simp
    then show ?thesis using x(2) True by (auto simp: after split: option.splits)
  qed
qed

lemma usable_scan_start: "usable big r \<Longrightarrow> range_begin big r \<le> range_end big r + 1"
  by (simp add: usable_def word_le_nat_alt unat_plus_one)

lemma ScanAllocIP_returns:
  assumes "usable big r"
  shows "\<exists>z. ScanAllocIP big t u r d = Some z"
proof -
  obtain ret rows d1 where q: "IpPool_QueryByRange t u (uint (range_begin big r)) (uint (range_end big r)) d =
      (ret, rows, d1)" by (metis prod_cases3)
  have "range_end big r \<noteq> - 1" using assms by (simp add: usable_def)
  from scan_free_ip_result [OF this usable_scan_start [OF assms], of "range_mask big r" rows]
  show ?thesis using q by (auto simp: ScanAllocIP_def)
qed

lemma alloc_ip_in_returns:
  "\<forall>x \<in> set xs. usable big (tIpRange x) \<Longrightarrow> \<exists>z. alloc_ip_in big rnd t u key k xs t0 d = Some z"
proof (induction xs arbitrary: k d)
  case (Cons x xs)
  have x: "usable big (tIpRange x)" and xs: "\<forall>x \<in> set xs. usable big (tIpRange x)" using Cons.prems by simp_all
  obtain a where a: "CalcIPv4Addr big (rnd k 0) key (tIpRange x) = Some a"
    using CalcIPv4Addr_drawable [of "tIpRange x" big "rnd k 0" key] x by (auto simp: usable_def)
  obtain z where z: "try_alloc_ip big (rnd k) t u key (tIpRange x) a 0 d = Some z"
    using try_alloc_ip_returns [OF x] by blast
  obtain w where w: "ScanAllocIP big t u (tIpRange x) (snd z) = Some w" using ScanAllocIP_returns [OF x] by blast
  show ?case
    using a z w Cons.IH [OF xs] by (cases z; cases "fst z"; cases w; cases "fst w") (auto split: prod.split)
qed simp

text \<open>C24. Whatever the database answers and whatever the UUIDs are: from ranges whose octets are not reversed
  by one or two, and that end below 255.255.255.255, an allocation returns.\<close>

theorem AllocIPv4Addr_returns:
  assumes "\<forall>rs. m_pIPv4AddrRange p = Some rs \<longrightarrow> (\<forall>r \<in> set rs. usable big r)"
  shows "AllocIPv4Addr big rnd key t0 p d \<noteq> None"
proof (cases "m_pIPv4AddrRange p = None \<or> m_strNetworkUUID p = []")
  case False
  then obtain rs where rs: "m_pIPv4AddrRange p = Some rs" by auto
  obtain out d1 where g: "GetAvailableIpRange big (m_tNetType p) (m_strNetworkUUID p) rs d = (out, d1)" by fastforce
  have "\<forall>x \<in> set out. usable big (tIpRange x)" using GetAvailableIpRange_effect [OF g] assms rs by blast
  from alloc_ip_in_returns [OF this] show ?thesis using False rs g by (fastforce simp: AllocIPv4Addr_def)
qed (auto simp: AllocIPv4Addr_def split: option.split)

end
