(* ===== verification/Ipv4Live.thy ===== *)
theory Ipv4Live
  imports Ipv4Draw
begin

text \<open>
  The IPv4 pool on a database whose calls do not fail: when an allocation succeeds, when it ends the process,
  and what the masks of the rows have to do with it.
\<close>

section \<open>Saving\<close>

definition ip_rows_ok :: "T_Ipv4NetType \<Rightarrow> int \<Rightarrow> ipdb \<Rightarrow> bool" where
  "ip_rows_ok t n d \<longleftrightarrow>
     distinct (map ia_num (filter (\<lambda>r. ia_net_id r = n) (pool_of t d))) \<and>
     (\<forall>r \<in> set (pool_of t d). ia_id r \<le> serial_ip_pool (tabs t d) \<and> ia_ip r = ip_text_of (ia_num r) \<and>
        0 \<le> ia_num r \<and> ia_num r < 2 ^ 32)"

definition ip_live :: "T_Ipv4NetType \<Rightarrow> string \<Rightarrow> int \<Rightarrow> ipdb \<Rightarrow> bool" where
  "ip_live t u n d \<longleftrightarrow> env d = [] \<and> m_bInit d \<and> net_lookup t u d = Some n \<and> ip_rows_ok t n d"

lemma ip_text_inject:
  assumes "ip_text_of n = ip_text_of k" and "0 \<le> n" "n < 2 ^ 32" and "0 \<le> k" "k < 2 ^ 32"
  shows "n = k"
proof -
  have tx: "String2IP (ip_text_of x) = Some (uaddr_of_dw True (word_of_int x))" for x
    by (simp add: ip_text_of_def String2IP_show)
  have "uaddr_of_dw True (word_of_int n) = uaddr_of_dw True (word_of_int k)"
    using tx [of n] tx [of k] unfolding assms(1) by (metis option.inject)
  then have "dwAddr True (uaddr_of_dw True (word_of_int n)) = dwAddr True (uaddr_of_dw True (word_of_int k))"
    by (rule arg_cong)
  then have "(word_of_int n :: uint32) = word_of_int k" by (simp only: dwAddr_uaddr_of_dw)
  then have "uint (word_of_int n :: uint32) = uint (word_of_int k :: uint32)" by simp
  then show ?thesis using assms(2-5) by (simp add: uint_word_of_int)
qed

lemma ip_text_length: "length (ip_text_of n) \<le> IP_TEXT_LEN"
  using length_show_uaddr [of "uaddr_of_dw True (word_of_int n)"] by (simp add: ip_text_of_def IP_TEXT_LEN_def)

lemma pf_net_add_ippool_live:
  assumes "net_lookup t (IpUuid m) d = Some n" and "ip_rows_ok t n d" and "ip_texts m"
    and "IpNum m \<in> ip_nums t d n" and "IpNum m \<notin> ip_alloc t d n"
  shows "pf_net_check_add_ippool t m d = 0 \<and> (\<exists>d'. pf_net_add_ippool t m d = Some (0, d') \<and> env d' = env d)"
proof -
  have c: "pf_net_check_add_ippool t m d = 0"
  proof -
    have "filter (\<lambda>r. ia_net_id r = n \<and> ia_num r = IpNum m) (pool_of t d) = []"
      using assms(5) by (force simp: ip_alloc_def filter_empty_conv)
    moreover have "filter (\<lambda>r. ir_net_id r = n \<and> IpNum m \<ge> ir_begin_num r \<and> IpNum m \<le> ir_end_num r) (ranges_of t d) \<noteq> []"
      using assms(4) by (auto simp: ip_nums_def filter_empty_conv)
    ultimately show ?thesis using assms(1) by (simp add: pf_net_check_add_ippool_def)
  qed
  let ?s = "serial_ip_pool (tabs t d)"
  have "?s + 1 \<notin> ia_id ` set (pool_of t d)" using assms(2) by (force simp: ip_rows_ok_def)
  moreover have "(IpStr m, n) \<notin> (\<lambda>y. (ia_ip y, ia_net_id y)) ` set (pool_of t d)"
  proof
    assume "(IpStr m, n) \<in> (\<lambda>y. (ia_ip y, ia_net_id y)) ` set (pool_of t d)"
    then obtain r where r: "r \<in> set (pool_of t d)" "ia_ip r = IpStr m" "ia_net_id r = n" by auto
    then have "ia_num r = IpNum m"
      using assms(2,3) by - (rule ip_text_inject, auto simp: ip_rows_ok_def ip_texts_def)
    then have "IpNum m \<in> ip_alloc t d n" using r by (force simp: ip_alloc_def)
    then show False using assms(5) by simp
  qed
  moreover have "length (IpStr m) \<le> IP_TEXT_LEN" "length (MaskStr m) \<le> IP_TEXT_LEN"
    using assms(3) by (simp_all add: ip_texts_def ip_text_length)
  ultimately have "\<exists>d'. pf_net_add_ippool t m d = Some (0, d') \<and> env d' = env d"
    using c assms(1) by (simp add: pf_net_add_ippool_def Let_def insert_ip_pool_def)
  then show ?thesis using c by simp
qed

text \<open>One row is added, and the calls still do not fail.\<close>

definition saved_ip_live :: "T_Ipv4NetType \<Rightarrow> CDbIpPool \<Rightarrow> ipdb \<Rightarrow> ipdb \<Rightarrow> bool" where
  "saved_ip_live t m d d' \<longleftrightarrow> saved_ip t m d d' \<and> env d' = []"

lemma SaveIPv4Addr2DB_live_cases:
  assumes "ip_live t u n d"
  obtains (free) d' where "IpNum (ip_row big u a) \<in> ip_nums t d n" "IpNum (ip_row big u a) \<notin> ip_alloc t d n"
      "SaveIPv4Addr2DB big t u a d = (0, d')" "saved_ip_live t (ip_row big u a) d d'"
  | (busy) "IpNum (ip_row big u a) \<notin> ip_nums t d n \<or> IpNum (ip_row big u a) \<in> ip_alloc t d n"
      "SaveIPv4Addr2DB big t u a d = (- 1, d)"
proof -
  let ?m = "ip_row big u a"
  have e: "env d = []" "m_bInit d" "net_lookup t u d = Some n" "ip_rows_ok t n d"
    using assms by (simp_all add: ip_live_def)
  show thesis
  proof (cases "IpNum ?m \<in> ip_nums t d n \<and> IpNum ?m \<notin> ip_alloc t d n")
    case True
    have u: "net_lookup t (IpUuid ?m) d = Some n" using e(3) by simp
    obtain d' where p: "pf_net_check_add_ippool t ?m d = 0" "pf_net_add_ippool t ?m d = Some (0, d')" "env d' = []"
      using pf_net_add_ippool_live [OF u e(4) ip_texts_row] True e(1) by auto
    have s: "SaveIPv4Addr2DB big t u a d = (0, d')"
      using p(1,2) e(1,2)
      by (simp add: SaveIPv4Addr2DB_def IpPool_CheckAdd_def IpPool_Add_def db_add_op_def Handle_run rtn_defs)
    have "saved_ip_live t ?m d d'"
      using SaveIPv4Addr2DB_effect(3) [OF s refl] p(3) by (simp add: saved_ip_live_def)
    then show thesis using True s free by blast
  next
    case False
    then have "pf_net_check_add_ippool t ?m d \<noteq> 0" using check_add_ip_free [of t ?m d] e(3) by auto
    then have "SaveIPv4Addr2DB big t u a d = (- 1, d)"
      using check_add_ip_code [of t ?m d] e(1,2)
      by (simp add: SaveIPv4Addr2DB_def IpPool_CheckAdd_def db_add_op_def Handle_run rtn_defs)
    then show thesis using False busy by blast
  qed
qed

section \<open>One range\<close>

definition range_nums :: "TIPV4AddrRangeItem \<Rightarrow> int set" where
  "range_nums r = {uint (net_word (uIP (tIPStart r))) .. uint (net_word (uIP (tIPEnd r)))}"

lemma range_bounds:
  "range_begin big r = net_word (uIP (tIPStart r))" "range_end big r = net_word (uIP (tIPEnd r))"
  "range_mask big r = net_word (uMask (tIPStart r))"
  by (simp_all add: range_begin_def range_end_def range_mask_def N2HL_net_word)

lemma try_alloc_ip_live:
  assumes "ip_live t u n d" and "usable big r"
  shows "try_alloc_ip big rnd t u key r a k d = Some (Inl (), d) \<or>
    (\<exists>b d'. try_alloc_ip big rnd t u key r a k d = Some (Inr b, d') \<and> saved_ip_live t (ip_row big u b) d d')"
proof (induction "15 - k" arbitrary: a k rule: less_induct)
  case less
  show ?case
  proof (cases rule: SaveIPv4Addr2DB_live_cases [OF assms(1), of big a, case_names free busy])
    case (free d')
    then show ?thesis using try_alloc_ip_step [OF free(3), of rnd key r k] by auto
  next
    case busy
    note eq = try_alloc_ip_step [OF busy(2), of rnd key r k]
    show ?thesis
    proof (cases "k + 1 > 15")
      case True
      then show ?thesis using eq by simp
    next
      case False
      obtain b where "CalcIPv4Addr big (rnd (k + 1)) key r = Some b"
        using CalcIPv4Addr_drawable [of r big "rnd (k + 1)" key] assms(2) by (auto simp: usable_def)
      then have "\<exists>b. try_alloc_ip big rnd t u key r a k d = try_alloc_ip big rnd t u key r b (k + 1) d"
        using eq False usable_interval [OF assms(2)] by (cases "(k + 1) mod 5 = 0") auto
      then obtain b where b: "try_alloc_ip big rnd t u key r a k d = try_alloc_ip big rnd t u key r b (k + 1) d" ..
      have "15 - (k + 1) < 15 - k" using False by simp
      from less.hyps [OF this, of b] show ?thesis by (simp only: b)
    qed
  qed
qed

text \<open>
  \<open>own_masks\<close>: the rows of the network inside the range carry the mask of the range. The scan of a range sees no
  other rows.
\<close>

definition own_masks :: "T_Ipv4NetType \<Rightarrow> int \<Rightarrow> ipdb \<Rightarrow> TIPV4AddrRangeItem \<Rightarrow> bool" where
  "own_masks t n d r \<longleftrightarrow>
     (\<forall>x \<in> set (pool_of t d). ia_net_id x = n \<and> ia_num x \<in> range_nums r \<longrightarrow>
        ia_mask_num x = uint (net_word (uMask (tIPStart r))))"

lemma IpPool_QueryByRange_live:
  assumes "env d = []" and "net_lookup t u d = Some n"
  shows "IpPool_QueryByRange t u b e d =
    (0, map (\<lambda>r. \<lparr>IpUuid = u, IpNum = ia_num r, MaskNum = ia_mask_num r, IpStr = ia_ip r, MaskStr = ia_mask r\<rparr>)
          (filter (\<lambda>r. ia_net_id r = n \<and> ia_num r \<ge> b \<and> ia_num r \<le> e) (pool_of t d)), d)"
  using assms by (simp add: IpPool_QueryByRange_def db_query_op_def Handle_run VNET_DB_SUCCESS_def
      pf_net_query_ippool_by_range_def)

lemma ScanAllocIP_live:
  assumes "ip_live t u n d" and "usable big r" and "own_masks t n d r"
    and "\<not> range_nums r \<subseteq> ip_alloc t d n"
  shows "\<exists>a. ScanAllocIP big t u r d = Some (Some a, d) \<and> IpNum (ip_row big u a) \<in> range_nums r \<and>
             IpNum (ip_row big u a) \<notin> ip_alloc t d n"
proof -
  let ?b = "range_begin big r" and ?e = "range_end big r" and ?mk = "range_mask big r"
  have e: "env d = []" "m_bInit d" "net_lookup t u d = Some n" using assms(1) by (simp_all add: ip_live_def)
  note q = IpPool_QueryByRange_live [OF e(1,3), of "uint ?b" "uint ?e"]
  let ?rows = "map (\<lambda>r. \<lparr>IpUuid = u, IpNum = ia_num r, MaskNum = ia_mask_num r, IpStr = ia_ip r,
      MaskStr = ia_mask r\<rparr>) (filter (\<lambda>r. ia_net_id r = n \<and> ia_num r \<ge> uint ?b \<and> ia_num r \<le> uint ?e) (pool_of t d))"
  define P where "P j \<longleftrightarrow> (\<exists>x \<in> set ?rows. IpNum x = uint j \<and> MaskNum x = uint ?mk)" for j :: uint32
  have known: "P j \<longleftrightarrow> uint j \<in> ip_alloc t d n" if "?b \<le> j" "j \<le> ?e" for j
  proof -
    have j: "uint j \<in> range_nums r" using that by (simp add: range_nums_def range_bounds word_le_def)
    have "uint ?b \<le> uint j" "uint j \<le> uint ?e" using that by (simp_all add: word_le_def)
    then show ?thesis
      using assms(3) j by (auto simp: P_def own_masks_def ip_alloc_def range_bounds image_iff)
  qed
  have end1: "?e \<noteq> - 1" using assms(2) by (simp add: usable_def)
  from scan_free_ip_result [OF end1 usable_scan_start [OF assms(2)], of ?mk ?rows] obtain x where
    x: "scan_free_ip ?mk ?e ?rows ?b = Some x"
      "case x of None \<Rightarrow> \<forall>j. ?b \<le> j \<and> j \<le> ?e \<longrightarrow> P j | Some j \<Rightarrow> ?b \<le> j \<and> j \<le> ?e \<and> \<not> P j"
    unfolding P_def by blast
  obtain k where k: "k \<in> range_nums r" "k \<notin> ip_alloc t d n" using assms(4) by blast
  let ?k = "word_of_int k :: uint32"
  have kb: "uint ?b \<le> k" "k \<le> uint ?e" using k(1) by (simp_all add: range_nums_def range_bounds)
  have "0 \<le> k" "k < 2 ^ 32" using kb uint_lt2p [of ?e] order_trans [OF _ kb(1), of 0] by simp_all
  then have uk: "uint ?k = k" by (simp add: uint_word_of_int)
  have "?b \<le> ?k" "?k \<le> ?e" using kb by (simp_all only: word_le_def uk)
  then have "\<not> P ?k" "?b \<le> ?k \<and> ?k \<le> ?e" using known [of ?k] k(2) by (simp_all add: uk)
  then obtain j where j0: "x = Some j" "?b \<le> j" "j \<le> ?e" "\<not> P j" using x(2) by (cases x) auto
  then have j: "x = Some j" "?b \<le> j" "j \<le> ?e" "uint j \<notin> ip_alloc t d n" using known [of j] by simp_all
  let ?a = "\<lparr>uIP = uaddr_of_dw big (H2NL big j), uMask = uMask (tIPStart r)\<rparr>"
  have "IpNum (ip_row big u ?a) = uint j"
    using H2NL_N2HL [of big j] by (simp add: ip_row_def dwAddr_uaddr_of_dw H2NL_eq_N2HL)
  moreover have "uint j \<in> range_nums r" using j(2,3) by (simp add: range_nums_def range_bounds word_le_def)
  moreover have "ScanAllocIP big t u r d = Some (Some ?a, d)"
    using x(1) j(1) e(2) by (simp add: ScanAllocIP_def q VNET_DB_SUCCESS_def)
  ultimately show ?thesis using j(4) by (intro exI [of _ ?a]) simp
qed

section \<open>Counting\<close>

lemma ip_count:
  assumes "ip_rows_ok t n d"
  shows "length (filter (\<lambda>r. ia_net_id r = n \<and> ia_num r \<ge> b \<and> ia_num r \<le> e) (pool_of t d)) =
         card (ip_alloc t d n \<inter> {b .. e})"
proof -
  let ?P = "\<lambda>r. ia_net_id r = n \<and> ia_num r \<ge> b \<and> ia_num r \<le> e"
  let ?own = "filter (\<lambda>r. ia_net_id r = n) (pool_of t d)"
  have f: "filter ?P (pool_of t d) = filter (\<lambda>r. ia_num r \<ge> b \<and> ia_num r \<le> e) ?own"
    by (simp add: conj_commute)
  have "distinct (map ia_num ?own)" using assms by (simp add: ip_rows_ok_def)
  then have "distinct (map ia_num (filter ?P (pool_of t d)))" unfolding f by (rule distinct_map_filter)
  from distinct_card [OF this]
  have "length (filter ?P (pool_of t d)) = card (set (map ia_num (filter ?P (pool_of t d))))" by simp
  also have "set (map ia_num (filter ?P (pool_of t d))) = ip_alloc t d n \<inter> {b .. e}"
    by (auto simp: ip_alloc_def)
  finally show ?thesis .
qed

lemma GetIPv4AddrCnt_live:
  assumes "ip_live t u n d" and "range_begin big r \<le> range_end big r" and "range_end big r \<noteq> - 1"
  shows "\<exists>w. GetIPv4AddrCnt big t u r c d = (0, w, d) \<and>
    (w \<ge> range_end big r - range_begin big r + 1 \<longleftrightarrow> range_nums r \<subseteq> ip_alloc t d n)"
proof -
  let ?b = "range_begin big r" and ?e = "range_end big r" and ?A = "ip_alloc t d n \<inter> range_nums r"
  have e: "env d = []" "m_bInit d" "net_lookup t u d = Some n" "ip_rows_ok t n d"
    using assms(1) by (simp_all add: ip_live_def)
  have rn: "range_nums r = {uint ?b .. uint ?e}" by (simp add: range_nums_def range_bounds)
  have le: "uint ?b \<le> uint ?e" using assms(2) by (simp add: word_le_def)
  have "IpRange_QueryAllocNum t u (uint ?b) (uint ?e) d = (0, int (card ?A), d)"
    using e(1,3) le ip_count [OF e(4), of "uint ?b" "uint ?e"]
    by (simp add: IpRange_QueryAllocNum_def Handle_run pf_net_query_iprange_alloc_def VNET_DB_SUCCESS_def rn)
  then have g: "GetIPv4AddrCnt big t u r c d = (0, word_of_int (int (card ?A)), d)"
    using e(2) by (simp add: GetIPv4AddrCnt_def VNET_DB_SUCCESS_def)
  have fin: "finite (range_nums r)" by (simp add: rn)
  have c: "card ?A \<le> card (range_nums r)" by (intro card_mono fin) simp
  have size: "card (range_nums r) = unat ?e - unat ?b + 1"
  proof -
    have "card (range_nums r) = nat (int (unat ?e) - int (unat ?b) + 1)" by (simp add: rn)
    also have "\<dots> = unat ?e - unat ?b + 1" using assms(2) by (intro nat_size) (simp add: word_le_nat_alt)
    finally show ?thesis .
  qed
  have total: "unat (?e - ?b + 1) = card (range_nums r)"
  proof -
    have d: "unat (?e - ?b) = unat ?e - unat ?b" using assms(2) by (simp add: unat_sub)
    have m: "unat (- 1 :: uint32) = 4294967295" by (simp add: unsigned_minus_1_eq_mask mask_eq_exp_minus_1)
    have "?e - ?b \<noteq> - 1"
    proof
      assume "?e - ?b = - 1"
      then have "unat ?e - unat ?b = 4294967295" using d m by simp
      then have "unat ?e = 4294967295" using unat32_less [of ?e] by simp
      then show False using assms(3) m by (simp add: word_unat_eq_iff)
    qed
    from unat_plus_one [OF this] show ?thesis using d size by simp
  qed
  have "card ?A < 4294967296" using c total unat32_less [of "?e - ?b + 1"] by simp
  then have "unat (word_of_int (int (card ?A)) :: uint32) = card ?A" by (simp add: unat_of_nat32)
  then have "(word_of_int (int (card ?A)) \<ge> ?e - ?b + 1) \<longleftrightarrow> card (range_nums r) \<le> card ?A"
    by (simp add: word_le_nat_alt total)
  also have "\<dots> \<longleftrightarrow> range_nums r \<subseteq> ip_alloc t d n"
  proof
    assume "card (range_nums r) \<le> card ?A"
    then have "?A = range_nums r" using fin by (intro card_seteq) simp_all
    then show "range_nums r \<subseteq> ip_alloc t d n" by blast
  next
    assume "range_nums r \<subseteq> ip_alloc t d n"
    then have "?A = range_nums r" by blast
    then show "card (range_nums r) \<le> card ?A" by simp
  qed
  finally show ?thesis using g by blast
qed

text \<open>A range as the manager loads it for network \<open>n\<close>: all its addresses lie in ranges of the network.\<close>

definition range_of_net :: "bool \<Rightarrow> T_Ipv4NetType \<Rightarrow> int \<Rightarrow> ipdb \<Rightarrow> TIPV4AddrRangeItem \<Rightarrow> bool" where
  "range_of_net big t n d r \<longleftrightarrow>
     range_begin big r \<le> range_end big r \<and> range_end big r \<noteq> - 1 \<and> range_nums r \<subseteq> ip_nums t d n"

lemma GetAvailableIpRange_live:
  assumes "ip_live t u n d" and "\<forall>r \<in> set rs. range_of_net big t n d r"
  shows "\<exists>out. GetAvailableIpRange big t u rs d = (out, d) \<and>
               tIpRange ` set out = {r \<in> set rs. \<not> range_nums r \<subseteq> ip_alloc t d n}"
proof -
  have "\<exists>out'. available_ip_ranges big t u rs out d = (out', d) \<and>
      tIpRange ` set out' = tIpRange ` set out \<union> {r \<in> set rs. \<not> range_nums r \<subseteq> ip_alloc t d n}" for out
    using assms(2)
  proof (induction rs arbitrary: out)
    case (Cons r rs)
    have rs: "\<forall>r \<in> set rs. range_of_net big t n d r" and r: "range_of_net big t n d r" using Cons.prems by simp_all
    obtain w where w: "GetIPv4AddrCnt big t u r 0 d = (0, w, d)"
      "w \<ge> range_end big r - range_begin big r + 1 \<longleftrightarrow> range_nums r \<subseteq> ip_alloc t d n"
      using GetIPv4AddrCnt_live [OF assms(1), of big r 0] r by (auto simp: range_of_net_def)
    show ?case
    proof (cases "range_nums r \<subseteq> ip_alloc t d n")
      case True
      then have "available_ip_ranges big t u (r # rs) out d = available_ip_ranges big t u rs out d"
        using w by (simp add: Let_def)
      then show ?thesis using Cons.IH [OF rs, of out] True by auto
    next
      case False
      then obtain x where "available_ip_ranges big t u (r # rs) out d = available_ip_ranges big t u rs (out @ [x]) d"
        "tIpRange x = r" using w by (auto simp: Let_def)
      then show ?thesis using Cons.IH [OF rs, of "out @ [x]"] False by auto
    qed
  qed simp
  from this [of "[]"] show ?thesis by (auto simp: GetAvailableIpRange_def set_sort_available_ip)
qed

section \<open>The allocation\<close>

lemma alloc_ip_in_live:
  assumes "ip_live t u n d" and "range_of_net big t n d (tIpRange x)" and "drawable (tIpRange x)"
    and "own_masks t n d (tIpRange x)" and "\<not> range_nums (tIpRange x) \<subseteq> ip_alloc t d n"
  shows "\<exists>a d'. alloc_ip_in big rnd t u key k (x # xs) t0 d = Some (0, a, d') \<and>
                saved_ip_live t (ip_row big u a) d d'"
proof -
  let ?r = "tIpRange x"
  have us: "usable big ?r" using assms(2,3) by (simp add: usable_def range_of_net_def)
  obtain a where a: "CalcIPv4Addr big (rnd k 0) key ?r = Some a"
    using CalcIPv4Addr_drawable [OF assms(3)] by blast
  consider (failed) "try_alloc_ip big (rnd k) t u key ?r a 0 d = Some (Inl (), d)"
    | (hit) b d' where "try_alloc_ip big (rnd k) t u key ?r a 0 d = Some (Inr b, d')"
        "saved_ip_live t (ip_row big u b) d d'"
    using try_alloc_ip_live [OF assms(1) us] by blast
  then show ?thesis
  proof cases
    case hit
    then show ?thesis using a by auto
  next
    case failed
    obtain b where b: "ScanAllocIP big t u ?r d = Some (Some b, d)" "IpNum (ip_row big u b) \<in> range_nums ?r"
      "IpNum (ip_row big u b) \<notin> ip_alloc t d n"
      using ScanAllocIP_live [OF assms(1) us assms(4,5)] by blast
    have "IpNum (ip_row big u b) \<in> ip_nums t d n" using b(2) assms(2) by (auto simp: range_of_net_def)
    then obtain d' where "SaveIPv4Addr2DB big t u b d = (0, d')" "saved_ip_live t (ip_row big u b) d d'"
      using SaveIPv4Addr2DB_live_cases [OF assms(1), of big b] b(3) by metis
    then show ?thesis using a failed b(1) by auto
  qed
qed

lemma AllocIPv4Addr_step:
  assumes "ip_live (m_tNetType p) (m_strNetworkUUID p) n d" and "m_pIPv4AddrRange p = Some rs"
    and "m_strNetworkUUID p \<noteq> []" and "\<forall>r \<in> set rs. range_of_net big (m_tNetType p) n d r"
  obtains (full) "\<forall>r \<in> set rs. range_nums r \<subseteq> ip_alloc (m_tNetType p) d n"
      "AllocIPv4Addr big rnd key t0 p d = Some (- 1, t0, d)"
  | (first) x xs where "tIpRange x \<in> set rs" "\<not> range_nums (tIpRange x) \<subseteq> ip_alloc (m_tNetType p) d n"
      "AllocIPv4Addr big rnd key t0 p d =
         alloc_ip_in big rnd (m_tNetType p) (m_strNetworkUUID p) key 0 (x # xs) t0 d"
proof -
  obtain out where out: "GetAvailableIpRange big (m_tNetType p) (m_strNetworkUUID p) rs d = (out, d)"
    "tIpRange ` set out = {r \<in> set rs. \<not> range_nums r \<subseteq> ip_alloc (m_tNetType p) d n}"
    using GetAvailableIpRange_live [OF assms(1,4)] by blast
  show thesis
  proof (cases out)
    case Nil
    then show thesis using out assms(2,3) full by (auto simp: AllocIPv4Addr_def)
  next
    case (Cons x xs)
    then have "tIpRange x \<in> set rs" "\<not> range_nums (tIpRange x) \<subseteq> ip_alloc (m_tNetType p) d n"
      using out(2) by auto
    then show thesis using out(1) Cons assms(2,3) first by (simp add: AllocIPv4Addr_def)
  qed
qed

text \<open>C22. When the database answers, the ranges are loaded from it, no octet of a range is reversed by one or two, and the rows
  of the network carry the masks of the ranges they lie in: an allocation fails, changing nothing, if every
  address of the ranges is taken; otherwise it succeeds and adds exactly one row, that of an address which
  the network did not have.\<close>

theorem AllocIPv4Addr_succeeds:
  assumes "ip_live (m_tNetType p) (m_strNetworkUUID p) n d" and "m_pIPv4AddrRange p = Some rs"
    and "m_strNetworkUUID p \<noteq> []"
    and "\<forall>r \<in> set rs. range_of_net big (m_tNetType p) n d r \<and> drawable r \<and> own_masks (m_tNetType p) n d r"
  shows "if \<forall>r \<in> set rs. range_nums r \<subseteq> ip_alloc (m_tNetType p) d n
         then AllocIPv4Addr big rnd key t0 p d = Some (- 1, t0, d)
         else \<exists>a d' r. AllocIPv4Addr big rnd key t0 p d = Some (0, a, d') \<and>
                pool_of (m_tNetType p) d' = pool_of (m_tNetType p) d @ [r] \<and>
                ia_num r = uint (net_word (uIP a)) \<and> ia_net_id r = n \<and>
                ia_num r \<in> ip_nums (m_tNetType p) d n \<and> ia_num r \<notin> ip_alloc (m_tNetType p) d n"
proof -
  have rs: "\<forall>r \<in> set rs. range_of_net big (m_tNetType p) n d r" using assms(4) by blast
  show ?thesis
  proof (cases rule: AllocIPv4Addr_step [OF assms(1-3) rs, of rnd key t0, case_names full first])
    case (first x xs)
    obtain a d' where a: "AllocIPv4Addr big rnd key t0 p d = Some (0, a, d')"
      "saved_ip_live (m_tNetType p) (ip_row big (m_strNetworkUUID p) a) d d'"
      using alloc_ip_in_live [OF assms(1) _ _ _ first(2), of big rnd key 0 xs t0] assms(4) first by auto
    then obtain r where r: "ip_run (m_tNetType p) (m_strNetworkUUID p) {MaskNum (ip_row big (m_strNetworkUUID p) a)} d [r] d'"
      "ia_num r = IpNum (ip_row big (m_strNetworkUUID p) a)"
      by (auto simp: saved_ip_live_def saved_ip_def)
    note f = ip_run_rows [OF r(1)]
    have "ia_net_id r = n" using f assms(1) by (simp add: fresh_ip_def ip_live_def)
    then show ?thesis
      using a(1) f r(2) first(1,2) by (auto simp: fresh_ip_def ip_row_def N2HL_net_word)
  qed simp
qed

text \<open>C25. The process ends. When the database answers, an address is free, and in every range some last octet is one
  below the first octet (as in 10.0.0.200 - 10.0.1.199), no allocation returns, whatever the UUID is: the
  remainder by the size of that octet divides by zero.\<close>

theorem AllocIPv4Addr_divides_by_zero:
  assumes "ip_live (m_tNetType p) (m_strNetworkUUID p) n d" and "m_pIPv4AddrRange p = Some rs"
    and "m_strNetworkUUID p \<noteq> []"
    and "\<forall>r \<in> set rs. range_of_net big (m_tNetType p) n d r \<and> traps r"
    and "\<exists>r \<in> set rs. \<not> range_nums r \<subseteq> ip_alloc (m_tNetType p) d n"
  shows "AllocIPv4Addr big rnd key t0 p d = None"
proof -
  have rs: "\<forall>r \<in> set rs. range_of_net big (m_tNetType p) n d r" using assms(4) by blast
  show ?thesis
  proof (cases rule: AllocIPv4Addr_step [OF assms(1-3) rs, of rnd key t0, case_names full first])
    case (first x xs)
    then show ?thesis using CalcIPv4Addr_traps assms(4) by simp
  qed (use assms(5) in blast)
qed

section \<open>Examples\<close>

declare scan_free_ip.simps [code]

definition ip4 :: "uint8 \<Rightarrow> uint8 \<Rightarrow> uint8 \<Rightarrow> uint8 \<Rightarrow> UNIPv4AddrType" where
  "ip4 a b c d = \<lparr>auc0 = a, auc1 = b, auc2 = c, auc3 = d\<rparr>"

definition ip_item :: "UNIPv4AddrType \<Rightarrow> UNIPv4AddrType \<Rightarrow> UNIPv4AddrType \<Rightarrow> TIPV4AddrRangeItem" where
  "ip_item s e m = \<lparr>tIPStart = \<lparr>uIP = s, uMask = m\<rparr>, tIPEnd = \<lparr>uIP = e, uMask = m\<rparr>\<rparr>"

definition ip_range_row_of :: "int \<Rightarrow> int \<Rightarrow> TIPV4AddrRangeItem \<Rightarrow> ip_range_row" where
  "ip_range_row_of i n r =
     \<lparr>ir_id = i, ir_net_id = n, ir_begin = show_uaddr (uIP (tIPStart r)), ir_end = show_uaddr (uIP (tIPEnd r)),
      ir_mask = show_uaddr (uMask (tIPStart r)), ir_begin_num = uint (net_word (uIP (tIPStart r))),
      ir_end_num = uint (net_word (uIP (tIPEnd r))), ir_mask_num = uint (net_word (uMask (tIPStart r)))\<rparr>"

text \<open>A database with logic network \<open>ln\<close>, its ranges and no allocated address.\<close>

definition example_ipdb :: "TIPV4AddrRangeItem list \<Rightarrow> ipdb" where
  "example_ipdb rs =
     \<lparr>m_bInit = True, env = [], netplane = [\<lparr>np_id = 1, np_uuid = ''np''\<rparr>],
      port_group = [\<lparr>pg_id = 5, pg_uuid = ''pg'', pg_type = 21, pg_switchport_mode = 1, pg_netplane_id = Some 1\<rparr>],
      vm_pg = [\<lparr>vmpg_id = 5, vmpg_is_sdn = 0, vmpg_isolate_type = 1\<rparr>], uplink_pg = [], access_isolate = [],
      logic_network = [\<lparr>ln_id = 7, ln_uuid = ''ln'', ln_vm_pg_id = 5, ln_ip_mode = 0\<rparr>],
      ln_tables = \<lparr>ip_range = map (\<lambda>(i, r). ip_range_row_of (int i) 7 r) (enumerate 1 rs), ip_pool = [],
                   serial_ip_range = int (length rs), serial_ip_pool = 0\<rparr>,
      np_tables = \<lparr>ip_range = [], ip_pool = [], serial_ip_range = 0, serial_ip_pool = 0\<rparr>, vsi_ip_id = []\<rparr>"

definition example_pool :: "TIPV4AddrRangeItem list \<Rightarrow> CIPv4AddrPool" where
  "example_pool rs = \<lparr>m_pIPv4AddrRange = Some rs, m_strNetworkUUID = ''ln'', m_tNetType = LOGIC_NET\<rparr>"

definition no_addr :: TIPv4Addr where "no_addr = \<lparr>uIP = uaddr_zero, uMask = uaddr_zero\<rparr>"

text \<open>10.0.2.1 - 10.0.3.254 with a mask of 23 bits, and 10.0.1.3 - 10.0.1.5 with a mask of 24 bits.\<close>

definition range_23 :: TIPV4AddrRangeItem where
  "range_23 = ip_item (ip4 10 0 2 1) (ip4 10 0 3 254) (ip4 255 255 254 0)"

definition range_24 :: TIPV4AddrRangeItem where
  "range_24 = ip_item (ip4 10 0 1 3) (ip4 10 0 1 5) (ip4 255 255 255 0)"

definition uuid_23 :: "uint8 list" where
  "uuid_23 = 66 # replicate 7 0 @ replicate 4 255 @ replicate 4 0"

definition uuid_24 :: "uint8 list" where
  "uuid_24 = 1 # replicate 15 0"

definition range_rev :: TIPV4AddrRangeItem where
  "range_rev = ip_item (ip4 10 0 0 200) (ip4 10 0 1 199) (ip4 255 255 254 0)"

definition range_two :: TIPV4AddrRangeItem where
  "range_two = ip_item (ip4 10 0 0 1) (ip4 10 0 0 2) (ip4 255 255 255 0)"

lemma try_alloc_ip_stuck:
  assumes "SaveIPv4Addr2DB big t u a d = (r1, d)" and "r1 \<noteq> 0"
    and "next_ip big r 1 a = a" and "next_ip big r 100000 a = a"
    and "\<And>k. CalcIPv4Addr big (rnd k) key r = Some a" and "range_end big r - range_begin big r + 1 \<noteq> 0"
  shows "try_alloc_ip big rnd t u key r a n d = Some (Inl (), d)"
proof (induction "15 - n" arbitrary: n rule: less_induct)
  case less
  show ?case
  proof (cases "n + 1 > 15")
    case True
    then show ?thesis using try_alloc_ip_step [OF assms(1), of rnd key r n] assms(2) by simp
  next
    case False
    then have "15 - (n + 1) < 15 - n" by simp
    from less.hyps [OF this] show ?thesis
      using try_alloc_ip_step [OF assms(1), of rnd key r n] assms(2-6) False by simp
  qed
qed

text \<open>The database after 10.0.1.3 was handed out.\<close>

definition addr_23 :: TIPv4Addr where
  "addr_23 = \<lparr>uIP = ip4 10 0 1 3, uMask = ip4 255 255 254 0\<rparr>"

definition addr_24 :: TIPv4Addr where
  "addr_24 = \<lparr>uIP = ip4 10 0 1 3, uMask = ip4 255 255 255 0\<rparr>"

definition ipdb_23 :: ipdb where
  "ipdb_23 = set_tabs LOGIC_NET ((ln_tables (example_ipdb [range_23, range_24]))\<lparr>serial_ip_pool := 1,
     ip_pool := [\<lparr>ia_id = 1, ia_net_id = 7, ia_ip = ''10.0.1.3'', ia_mask = ''255.255.254.0'',
                  ia_num = uint (net_word (ip4 10 0 1 3)), ia_mask_num = uint (net_word (ip4 255 255 254 0))\<rparr>]\<rparr>)
     (example_ipdb [range_23, range_24])"

lemma AllocIPv4Addr_23:
  "AllocIPv4Addr False (\<lambda>_ _. uuid_23) 0 no_addr (example_pool [range_23, range_24])
     (example_ipdb [range_23, range_24]) = Some (0, addr_23, ipdb_23)"
  by code_simp

lemma AllocIPv4Addr_24:
  "AllocIPv4Addr False (\<lambda>_ _. uuid_24) 0 no_addr (example_pool [range_24]) ipdb_23 = Some (- 1, no_addr, ipdb_23)"
proof -
  have s: "SaveIPv4Addr2DB False LOGIC_NET ''ln'' addr_24 ipdb_23 = (- 1, ipdb_23)" by code_simp
  have n: "next_ip False range_24 1 addr_24 = addr_24" "next_ip False range_24 100000 addr_24 = addr_24"
    "range_end False range_24 - range_begin False range_24 + 1 \<noteq> 0" by code_simp+
  have c: "CalcIPv4Addr False uuid_24 0 range_24 = Some addr_24" by code_simp
  have t: "try_alloc_ip False (\<lambda>_. uuid_24) LOGIC_NET ''ln'' 0 range_24 addr_24 0 ipdb_23 = Some (Inl (), ipdb_23)"
    by (rule try_alloc_ip_stuck [OF s _ n(1,2) c n(3)]) simp
  have sc: "ScanAllocIP False LOGIC_NET ''ln'' range_24 ipdb_23 = Some (Some addr_24, ipdb_23)" by code_simp
  have "GetAvailableIpRange False LOGIC_NET ''ln'' [range_24] ipdb_23 =
      ([\<lparr>tIpRange = range_24, nIpUsedCnt = 1, nIpFreeCnt = 2\<rparr>], ipdb_23)" by code_simp
  then show ?thesis by (simp add: AllocIPv4Addr_def example_pool_def c t sc s)
qed

text \<open>C23. An allocation that returns, whatever the database answers and whatever the UUIDs are: the other tables are
  as they were, and the pool of the network has only new rows at its end. Each new row is that of an address
  of the network's ranges which the network did not have, with one of the masks of the ranges and the right
  texts; no two are the same. With result 0 the address that is handed out is that of a new row, otherwise the result
  is -1 and none is handed out.\<close>

theorem AllocIPv4Addr_result:
  assumes "AllocIPv4Addr big rnd key t0 p d = Some (ret, a, d')"
  shows "\<exists>rs. ip_kept (m_tNetType p) d d' \<and> pool_of (m_tNetType p) d' = pool_of (m_tNetType p) d @ rs \<and>
     distinct (map ia_num rs) \<and>
     (\<forall>r \<in> set rs. fresh_ip (m_tNetType p) (m_strNetworkUUID p)
        (range_masks (case m_pIPv4AddrRange p of None \<Rightarrow> [] | Some rs \<Rightarrow> rs)) d r) \<and>
     (if ret = 0 then \<exists>r \<in> set rs. ia_num r = uint (net_word (uIP a)) \<and> ia_mask_num r = uint (net_word (uMask a))
      else ret = - 1 \<and> a = t0)"
proof -
  note e = AllocIPv4Addr_effect [OF assms]
  then obtain rs where rs: "ip_run (m_tNetType p) (m_strNetworkUUID p)
      (range_masks (case m_pIPv4AddrRange p of None \<Rightarrow> [] | Some rs \<Rightarrow> rs)) d rs d'"
    "ret = 0 \<longrightarrow> (\<exists>r \<in> set rs. ia_num r = IpNum (ip_row big (m_strNetworkUUID p) a) \<and>
       ia_mask_num r = MaskNum (ip_row big (m_strNetworkUUID p) a))"
    by (auto simp: ip_done_def split: if_splits)
  show ?thesis
    using ip_run_rows [OF rs(1)] rs(2) e by (intro exI [of _ rs]) (simp add: ip_row_def N2HL_net_word)
qed

theorem AllocIPv4Addr_result_witness:
  "\<exists>a d'. AllocIPv4Addr False (\<lambda>_ _. uuid_23) 0 no_addr (example_pool [range_23, range_24])
            (example_ipdb [range_23, range_24]) = Some (0, a, d') \<and>
          ip_kept LOGIC_NET (example_ipdb [range_23, range_24]) d' \<and>
          length (pool_of LOGIC_NET d') = 1"
proof -
  have "ip_kept LOGIC_NET (example_ipdb [range_23, range_24]) ipdb_23"
    using AllocIPv4Addr_result [OF AllocIPv4Addr_23] by (auto simp: example_pool_def)
  then show ?thesis
    using AllocIPv4Addr_23 by (intro exI [of _ addr_23] exI [of _ ipdb_23]) (simp add: ipdb_23_def)
qed

text \<open>The mask that is handed out need not be that of the subnet. Both ranges are valid and lie in subnets of their own,
  10.0.2.0/23 and 10.0.1.0/24. A UUID with negative numbers makes the pool draw 10.0.1.3 out of the first one and
  hand it out with the mask of 23 bits. That address then blocks the second range: with the UUID below every one of
  the 15 attempts and the scan arrive at 10.0.1.3 again, and the allocation fails although 10.0.1.4 and
  10.0.1.5 are free.\<close>

theorem AllocIPv4Addr_foreign_mask:
  "IsValidIPv4Range False range_23 \<and> IsSameSubnet False range_23 \<and>
   IsValidIPv4Range False range_24 \<and> IsSameSubnet False range_24 \<and>
   (\<exists>a d d'. AllocIPv4Addr False (\<lambda>_ _. uuid_23) 0 no_addr (example_pool [range_23, range_24])
               (example_ipdb [range_23, range_24]) = Some (0, a, d) \<and>
      GetIP a = ''10.0.1.3'' \<and> GetMask a = ''255.255.254.0'' \<and>
      map ia_ip (pool_of LOGIC_NET d) = [''10.0.1.3''] \<and>
      AllocIPv4Addr False (\<lambda>_ _. uuid_24) 0 no_addr (example_pool [range_24]) d = Some (- 1, no_addr, d'))"
proof -
  have v: "IsValidIPv4Range False range_23" "IsSameSubnet False range_23" "IsValidIPv4Range False range_24"
    "IsSameSubnet False range_24" by code_simp+
  have "GetIP addr_23 = ''10.0.1.3''" "GetMask addr_23 = ''255.255.254.0''" by code_simp+
  moreover have "map ia_ip (pool_of LOGIC_NET ipdb_23) = [''10.0.1.3'']" by (simp add: ipdb_23_def)
  ultimately show ?thesis
    using v AllocIPv4Addr_23 AllocIPv4Addr_24
    by (intro conjI exI [of _ addr_23] exI [of _ ipdb_23]) assumption+
qed

lemma range_nums_range:
  "range_nums (ip_item s e m) = {uint (net_word s) .. uint (net_word e)}"
  by (simp add: range_nums_def ip_item_def)

lemma example_ip_nums:
  assumes "r \<in> set rs"
  shows "range_nums r \<subseteq> ip_nums LOGIC_NET (example_ipdb rs) 7"
proof -
  obtain i where "i < length rs" "rs ! i = r" using assms by (auto simp: in_set_conv_nth)
  then have "(1 + i, r) \<in> set (enumerate 1 rs)" by (auto simp: in_set_enumerate_eq)
  then have "ip_range_row_of (int (1 + i)) 7 r \<in> set (ranges_of LOGIC_NET (example_ipdb rs))"
    by (force simp: example_ipdb_def)
  then show ?thesis
    by (force simp: ip_nums_def ip_range_row_of_def range_nums_def)
qed

lemma example_ip_alloc: "ip_alloc LOGIC_NET (example_ipdb rs) 7 = {}"
  by (simp add: ip_alloc_def example_ipdb_def)

lemma example_ip_live: "ip_live LOGIC_NET ''ln'' 7 (example_ipdb rs)"
  by (simp add: ip_live_def ip_rows_ok_def example_ipdb_def ln_lookup_def)

theorem AllocIPv4Addr_succeeds_witness:
  "\<exists>a d' r. AllocIPv4Addr False (\<lambda>_ _. uuid_23) 0 no_addr (example_pool [range_two]) (example_ipdb [range_two]) =
       Some (0, a, d') \<and> pool_of LOGIC_NET d' = [r] \<and> ia_num r = uint (net_word (uIP a))"
proof -
  let ?p = "example_pool [range_two]" and ?d = "example_ipdb [range_two]"
  have p: "m_tNetType ?p = LOGIC_NET" "m_strNetworkUUID ?p = ''ln''" "m_pIPv4AddrRange ?p = Some [range_two]"
    by (simp_all add: example_pool_def)
  have "range_begin False range_two \<le> range_end False range_two \<and> range_end False range_two \<noteq> - 1" "drawable range_two"
    by code_simp+
  then have "range_of_net False LOGIC_NET 7 ?d range_two \<and> drawable range_two \<and> own_masks LOGIC_NET 7 ?d range_two"
    using example_ip_nums [of range_two "[range_two]"]
    by (simp add: range_of_net_def own_masks_def example_ipdb_def)
  moreover have "uint (net_word (ip4 10 0 0 1)) \<in> range_nums range_two"
    by (simp add: range_two_def range_nums_range) code_simp
  then have "\<not> range_nums range_two \<subseteq> ip_alloc LOGIC_NET ?d 7" by (auto simp: example_ip_alloc)
  ultimately obtain a d' r where "AllocIPv4Addr False (\<lambda>_ _. uuid_23) 0 no_addr ?p ?d = Some (0, a, d')"
    "pool_of LOGIC_NET d' = pool_of LOGIC_NET ?d @ [r]" "ia_num r = uint (net_word (uIP a))"
    using AllocIPv4Addr_succeeds [of ?p 7 ?d "[range_two]" False "\<lambda>_ _. uuid_23" 0 no_addr]
    by (auto simp: p example_ip_live)
  moreover have "pool_of LOGIC_NET ?d = []" by (simp add: example_ipdb_def)
  ultimately show ?thesis by auto
qed

theorem AllocIPv4Addr_divides_by_zero_witness:
  "IsValidIPv4Range False range_rev \<and> IsSameSubnet False range_rev \<and>
   AllocIPv4Addr False (\<lambda>_ _. uuid_23) 0 no_addr (example_pool [range_rev]) (example_ipdb [range_rev]) = None"
proof -
  let ?p = "example_pool [range_rev]" and ?d = "example_ipdb [range_rev]"
  have p: "m_tNetType ?p = LOGIC_NET" "m_strNetworkUUID ?p = ''ln''" "m_pIPv4AddrRange ?p = Some [range_rev]"
    by (simp_all add: example_pool_def)
  have "range_begin False range_rev \<le> range_end False range_rev \<and> range_end False range_rev \<noteq> - 1" "traps range_rev"
    by code_simp+
  then have "range_of_net False LOGIC_NET 7 ?d range_rev \<and> traps range_rev"
    using example_ip_nums [of range_rev "[range_rev]"] by (simp add: range_of_net_def)
  moreover have "uint (net_word (ip4 10 0 0 200)) \<in> range_nums range_rev"
    by (simp add: range_rev_def range_nums_range) code_simp
  then have "\<not> range_nums range_rev \<subseteq> ip_alloc LOGIC_NET ?d 7" by (auto simp: example_ip_alloc)
  ultimately have "AllocIPv4Addr False (\<lambda>_ _. uuid_23) 0 no_addr ?p ?d = None"
    using AllocIPv4Addr_divides_by_zero [of ?p 7 ?d "[range_rev]" False "\<lambda>_ _. uuid_23" 0 no_addr]
    by (auto simp: p example_ip_live)
  moreover have "IsValidIPv4Range False range_rev" "IsSameSubnet False range_rev" by code_simp+
  ultimately show ?thesis by simp
qed

theorem AllocIPv4Addr_returns_witness:
  "usable False range_two \<and>
   AllocIPv4Addr False (\<lambda>_ _. uuid_23) 0 no_addr (example_pool [range_two])
     ((example_ipdb [range_two])\<lparr>env := [Refused EXECUTE_FAILED, Run, ReplyLost EXECUTE_FAILED]\<rparr>) \<noteq> None"
proof -
  have u: "usable False range_two" by code_simp
  then show ?thesis using AllocIPv4Addr_returns [of "example_pool [range_two]"] by (simp add: example_pool_def)
qed

end
