(* ===== verification/Ipv4RangeMsg.thy ===== *)
theory Ipv4RangeMsg
  imports Ipv4RangeLive Ipv4Live
begin

text \<open>
  The properties of the IPv4 range messages, on the logic network \<open>ln\<close> of \<open>Ipv4Live\<close> with its ranges
  10.0.2.1 - 10.0.3.254 (mask of 23 bits) and 10.0.1.3 - 10.0.1.5 (24 bits).
\<close>

section \<open>The addresses of a network\<close>

lemma ip_rest_same_net_ips:
  assumes "ip_rest_same s t u d d'"
  shows "\<exists>X. net_ips t u d = subnet_ips s t u d \<union> X \<and> net_ips t u d' = subnet_ips s t u d' \<union> X"
  using net_ips_split [of t u d s] net_ips_split [of t u d' s] ip_rest_same_other [OF assms] by auto

lemma subnet_ips_empty: "subnet_rows s t u d = [] \<Longrightarrow> subnet_ips s t u d = {}"
  by (simp add: subnet_ips_def subnet_ranges_def ips_def)

text \<open>The addresses of the other rows are no hosts of a subnet that has rows.\<close>

lemma other_rows_hosts:
  assumes "ip_net_ok t u d" and "subnet_ips s t u d \<noteq> {}"
  shows "ips (map (ip_row_item False) (other_rows s t u d)) \<inter> hosts s = {}"
proof -
  have no: "\<not> subnets_meet s (row_subnet r)" if "r \<in> set (other_rows s t u d)" for r
    using assms that ip_net_ok_split [of t u d s] subnet_ips_empty [of s t u d] by auto
  have "ip_item_set (ip_row_item False r) \<inter> hosts s = {}" if r: "r \<in> set (other_rows s t u d)" for r
  proof -
    have "good_ip_item (row_subnet r) (ip_row_item False r)"
      using r ip_net_ok_good [OF assms(1)] by (auto simp: other_rows_def good_ip_row_def)
    then show ?thesis using hosts_disjoint [OF no [OF r]] by (auto simp: good_ip_item_iff)
  qed
  then show ?thesis by (auto simp: ips_def)
qed

text \<open>A network whose rows are those of a list of ranges.\<close>

lemma ip_net_rows_items:
  assumes "ip_net_rows t u d = map (ip_item_row big u) is" and "\<forall>i \<in> set is. good_ip_item (subnet_of i) i"
  shows "subnet_rows s t u d = map (ip_item_row big u) (filter (\<lambda>i. subnet_of i = s) is)"
    and "subnet_ranges s t u d = filter (\<lambda>i. subnet_of i = s) is"
    and "distinct is \<Longrightarrow> \<forall>i \<in> set is. \<forall>j \<in> set is. subnet_of i = subnet_of j \<or> \<not> subnets_meet (subnet_of i) (subnet_of j) \<Longrightarrow>
      ip_net_ok t u d"
proof -
  have row: "row_subnet (ip_item_row big u i) = subnet_of i" "ip_row_item False (ip_item_row big u i) = i"
    "good_ip_row u (subnet_of i) (ip_item_row big u i)" if "i \<in> set is" for i
    using good_ip_item_row [of "subnet_of i" i] ip_row_item_row [of "subnet_of i" i] assms(2) that by auto
  show s: "subnet_rows s t u d = map (ip_item_row big u) (filter (\<lambda>i. subnet_of i = s) is)"
    using row(1) by (auto simp: subnet_rows_def assms(1) filter_map o_def intro!: arg_cong [where f = "map _"] filter_cong)
  show "subnet_ranges s t u d = filter (\<lambda>i. subnet_of i = s) is"
    unfolding subnet_ranges_def s using row(2) by (auto simp: o_def intro!: map_idI)
  have m: "map (ip_row_item False) (ip_net_rows t u d) = is"
    using row(2) by (auto simp: assms(1) o_def intro!: map_idI)
  show "ip_net_ok t u d" if "distinct is"
    "\<forall>i \<in> set is. \<forall>j \<in> set is. subnet_of i = subnet_of j \<or> \<not> subnets_meet (subnet_of i) (subnet_of j)"
    using that row by (simp add: ip_net_ok_def m) (simp add: assms(1))
qed

section \<open>Adding a range\<close>

text \<open>C16. \<open>AddLogicNetworkIPv4Range\<close> and \<open>AddNetplaneIPv4Range\<close> on well-formed rows. Whatever the database does, an
  addition changes only the rows of the network in the subnet of the message and keeps the rows of the network
  well-formed, so that the subnets of its rows never overlap; it loses no address of the network and adds none
  outside the message. When it returns success, the network has exactly its old addresses and those of the message,
  and the rows of the subnet are separated.\<close>

theorem AddIPv4Range_result:
  assumes "ip_msg_item big m = Inr i" and "u = c_str (m_strNetUUID m)" and "ip_net_ok t u d"
    and "AddIPv4Range big t m d = (ret, d')"
  shows "ip_rest_same (subnet_of i) t u d d' \<and> ip_net_ok t u d' \<and> net_ips t u d \<subseteq> net_ips t u d' \<and>
         net_ips t u d' \<subseteq> net_ips t u d \<union> ip_item_set i \<and>
         (ret = 0 \<longrightarrow> net_ips t u d' = net_ips t u d \<union> ip_item_set i \<and> ip_rows_apart (subnet_of i) t u d')"
proof -
  let ?s = "subnet_of i"
  have g: "ip_range_grows t u i d d'" and k: "ip_net_ok t u d'" and f: "ret = 0 \<Longrightarrow> ip_range_added t u i d d'"
    using AddIPv4Range_effect [OF assms] by simp_all
  have e: "ip_rest_same ?s t u d d'" "subnet_ips ?s t u d \<subseteq> subnet_ips ?s t u d'"
    "subnet_ips ?s t u d' \<subseteq> subnet_ips ?s t u d \<union> ip_item_set i"
    using g by (simp_all add: ip_range_grows_def Let_def)
  have f: "ret = 0 \<Longrightarrow> subnet_ips ?s t u d' = subnet_ips ?s t u d \<union> ip_item_set i \<and> ip_rows_apart ?s t u d'"
    using f by (simp add: ip_range_added_def Let_def)
  obtain X where X: "net_ips t u d = subnet_ips ?s t u d \<union> X" "net_ips t u d' = subnet_ips ?s t u d' \<union> X"
    using ip_rest_same_net_ips [OF e(1)] by blast
  show ?thesis unfolding X using e f k by blast
qed

abbreviation ip_msg :: "string \<Rightarrow> uint32 \<Rightarrow> string \<Rightarrow> string \<Rightarrow> string \<Rightarrow> CIPv4RangeMsg" where
  "ip_msg u op b e mk \<equiv> \<lparr>m_strIPv4Start = b, m_strIPv4StartMask = mk, m_strIPv4End = e, m_strIPv4EndMask = mk,
     m_strNetUUID = u, m_dwIPv4Oper = op\<rparr>"

abbreviation example_ln :: ipdb where "example_ln \<equiv> example_ipdb [range_23, range_24]"

definition range_59 :: TIPV4AddrRangeItem where
  "range_59 = ip_item (ip4 10 0 1 5) (ip4 10 0 1 9) (ip4 255 255 255 0)"

lemma example_ln_net: "ip_net_rows LOGIC_NET ''ln'' example_ln = map (ip_item_row False ''ln'') [range_23, range_24]"
  by (simp add: ip_net_rows_def example_ipdb_def ln_lookup_def to_ip_row_def ip_range_row_of_def ip_item_row_def
      range_bounds GetIP_def GetMask_def N2HL_net_word range_23_def range_24_def ip_item_def)

lemma example_ln_valid: "\<forall>i \<in> set [range_23, range_24]. good_ip_item (subnet_of i) i"
  by code_simp

lemma example_ln_subnets: "\<not> subnets_meet (subnet_of range_23) (subnet_of range_24)"
    "subnet_of range_23 \<noteq> subnet_of range_24" "subnet_of range_59 = subnet_of range_24" "range_23 \<noteq> range_24"
  by code_simp+

lemma example_ln_ok: "ip_net_ok LOGIC_NET ''ln'' example_ln"
  using ip_net_rows_items(3) [OF example_ln_net example_ln_valid] example_ln_subnets subnets_meet_sym by auto

lemma example_ln_ranges: "subnet_ranges (subnet_of range_24) LOGIC_NET ''ln'' example_ln = [range_24]"
  using ip_net_rows_items(2) [OF example_ln_net example_ln_valid] example_ln_subnets by simp

lemma example_ip_items:
  "ip_msg_item False (ip_msg ''ln'' 1 ''10.0.1.5'' ''10.0.1.9'' ''255.255.255.0'') = Inr range_59"
  "ip_msg_item False (ip_msg ''ln'' 2 ''10.0.1.3'' ''10.0.1.5'' ''255.255.255.0'') = Inr range_24"
  by code_simp+

lemma example_no_others: "clear_of_others LOGIC_NET ''ln'' s A example_ln"
proof -
  have v: "v_net_ln_np example_ln = [(\<lparr>ln_id = 7, ln_uuid = ''ln'', ln_vm_pg_id = 5, ln_ip_mode = 0\<rparr>,
      \<lparr>np_id = 1, np_uuid = ''np''\<rparr>)]"
    by (simp add: v_net_ln_np_def example_ipdb_def)
  show ?thesis by (simp add: clear_of_others_def foreign_range_def v)
qed

lemma example_ln_live: "m_bInit example_ln" "ip_ranges_live LOGIC_NET ''ln'' example_ln"
  by (simp_all add: ip_ranges_live_def example_ipdb_def ln_lookup_def ip_range_row_of_def)

lemma example_ln_rows:
  "\<not> (\<exists>r \<in> set (ip_net_rows LOGIC_NET ''ln'' example_ln). crossing (subnet_of range_24) r)"
proof -
  have "row_subnet (ip_item_row False ''ln'' range_23) = subnet_of range_23"
    "row_subnet (ip_item_row False ''ln'' range_24) = subnet_of range_24"
    using example_ln_valid good_ip_item_row(2) by simp_all
  then show ?thesis using example_ln_subnets(1) subnets_meet_sym [of "subnet_of range_23"]
    by (simp add: example_ln_net crossing_def)
qed

lemma example_ip_sets: "ip_item_set range_59 = {0x0A000105..0x0A000109}" "ip_item_set range_24 = {0x0A000103..0x0A000105}"
  by (simp_all add: range_59_def range_24_def ip_item_def ip_item_set_def ip_num_def net_word_def word_of_bytes_def ip4_def)

lemma example_add_code:
  "fst (AddIPv4Range False LOGIC_NET (ip_msg ''ln'' 1 ''10.0.1.5'' ''10.0.1.9'' ''255.255.255.0'') example_ln) = 0"
  using AddIPv4Range_live_code [OF example_ln_live(1) _ example_ln_live(2) example_ln_ok example_no_others,
      of "ip_msg ''ln'' 1 ''10.0.1.5'' ''10.0.1.9'' ''255.255.255.0''" False] example_ip_items(1) example_ln_rows
  by (simp add: c_str_def IP_TEXT_LEN_def IsValidIPv4MsgRange_def IPV4_RANGE_OPER_SUCCESS_def example_ln_subnets(3))

lemma example_ln_apart: "ip_rows_apart (subnet_of range_24) LOGIC_NET ''ln'' example_ln"
  using example_ln_valid by (simp add: ip_rows_apart_def example_ln_ranges good_ip_item_iff)

lemma example_ln_free: "ip_item_free LOGIC_NET ''ln'' i example_ln"
  by (simp add: ip_item_free_def ip_item_free_def ip_alloc_def example_ipdb_def)

lemma example_del_code:
  "fst (DelIPv4Range False LOGIC_NET (ip_msg ''ln'' 2 ''10.0.1.3'' ''10.0.1.5'' ''255.255.255.0'') example_ln) = 0"
proof -
  have "subnet_rows (subnet_of range_24) LOGIC_NET ''ln'' example_ln \<noteq> []"
    using example_ln_ranges by (auto simp: subnet_ranges_def)
  moreover have "ip_item_set range_24 \<subseteq> subnet_ips (subnet_of range_24) LOGIC_NET ''ln'' example_ln"
    by (simp add: subnet_ips_def ips_def example_ln_ranges)
  ultimately show ?thesis
    using DelIPv4Range_live_code [OF example_ln_live(1) _ example_ln_live(2) example_ln_ok example_ip_items(2) refl _
        example_no_others example_ln_apart] example_ln_rows example_ln_free
    by (simp add: c_str_def IsValidIPv4MsgRange_def IPV4_RANGE_OPER_SUCCESS_def example_ln_net)
qed

theorem AddIPv4Range_result_witness:
  "\<exists>d'. AddIPv4Range False LOGIC_NET (ip_msg ''ln'' 1 ''10.0.1.5'' ''10.0.1.9'' ''255.255.255.0'') example_ln = (0, d') \<and>
        {0x0A000106..0x0A000109} \<subseteq> net_ips LOGIC_NET ''ln'' d'"
proof -
  let ?m = "ip_msg ''ln'' 1 ''10.0.1.5'' ''10.0.1.9'' ''255.255.255.0''"
  obtain r d' where a: "AddIPv4Range False LOGIC_NET ?m example_ln = (r, d')" by fastforce
  have r: "r = 0" using a example_add_code by simp
  have "ip_item_set range_59 \<subseteq> net_ips LOGIC_NET ''ln'' d'"
    using AddIPv4Range_result [OF example_ip_items(1) _ example_ln_ok a] r by (simp add: c_str_def)
  then show ?thesis using a r example_ip_sets(1) by (intro exI [of _ d']) auto
qed

text \<open>C19. The code of an addition that meets no other logic network. On a database whose calls do not fail, with well-formed rows and texts that
  fit the columns: a message with an empty text, one whose texts, addresses or subnets fail a test, and one whose
  subnet overlaps a subnet of the network with another mask are refused with the code of the first test that fails.
  Every other message is accepted, provided that, for a logic network, no other logic network of the netplane has a
  range with the same mask that meets the addresses of the subnet.\<close>

theorem AddIPv4Range_code:
  assumes "m_bInit d" and "u = c_str (m_strNetUUID m)" and "ip_ranges_live t u d" and "ip_net_ok t u d"
    and "\<And>i. ip_msg_item big m = Inr i \<Longrightarrow>
      clear_of_others t u (subnet_of i) (subnet_ips (subnet_of i) t u d \<union> ip_item_set i) d"
    and "length (m_strIPv4Start m) \<le> IP_TEXT_LEN" and "length (m_strIPv4End m) \<le> IP_TEXT_LEN"
    and "length (m_strIPv4EndMask m) \<le> IP_TEXT_LEN"
  shows "fst (AddIPv4Range big t m d) =
    (if \<not> IsValidIPv4MsgRange m then IPV4_RANGE_CFG_PARAM_ERROR
     else case ip_msg_item big m of
            Inl c \<Rightarrow> c
          | Inr i \<Rightarrow> if \<exists>r \<in> set (ip_net_rows t u d). crossing (subnet_of i) r then IPV4_RANGE_INVALID
                     else IPV4_RANGE_OPER_SUCCESS)"
  using assms by (rule AddIPv4Range_live_code)

theorem AddIPv4Range_code_witness:
  "fst (AddIPv4Range False LOGIC_NET (ip_msg ''ln'' 1 ''10.0.1.5'' ''10.0.1.9'' ''255.255.255.0'') example_ln) =
     IPV4_RANGE_OPER_SUCCESS"
  using AddIPv4Range_code [OF example_ln_live(1) _ example_ln_live(2) example_ln_ok example_no_others,
      of "ip_msg ''ln'' 1 ''10.0.1.5'' ''10.0.1.9'' ''255.255.255.0''" False] example_ip_items(1) example_ln_rows
  by (simp add: c_str_def IP_TEXT_LEN_def IsValidIPv4MsgRange_def example_ln_subnets(3))

section \<open>Deleting a range\<close>

text \<open>C17. \<open>DelLogicNetworkIPv4Range\<close> and \<open>DelNetplaneIPv4Range\<close> on well-formed rows that are separated in the subnet of
  the message. Whatever the database does, a deletion changes only the rows of the network in that subnet, keeps the
  rows of the network well-formed, removes no address outside the message, and removes one at all only when no
  address of the message is allocated in the network. When it returns success, all addresses of the
  message were in the ranges and exactly these are gone.\<close>

theorem DelIPv4Range_result:
  assumes "ip_msg_item big m = Inr i" and "u = c_str (m_strNetUUID m)" and "ip_net_ok t u d"
    and "ip_rows_apart (subnet_of i) t u d" and "DelIPv4Range big t m d = (ret, d')"
  shows "ip_rest_same (subnet_of i) t u d d' \<and> ip_net_ok t u d' \<and> net_ips t u d' \<subseteq> net_ips t u d \<and>
         net_ips t u d - ip_item_set i \<subseteq> net_ips t u d' \<and>
         (net_ips t u d' \<noteq> net_ips t u d \<longrightarrow> ip_item_free t u i d) \<and>
         (ret = 0 \<longrightarrow> ip_item_set i \<subseteq> net_ips t u d \<and> net_ips t u d' = net_ips t u d - ip_item_set i \<and>
            ip_rows_apart (subnet_of i) t u d')"
proof -
  let ?s = "subnet_of i"
  have g: "ip_range_shrinks t u i d d'" and k: "ip_net_ok t u d'" and f: "ret = 0 \<Longrightarrow> ip_range_removed t u i d d'"
    using DelIPv4Range_effect [OF assms] by simp_all
  have e: "ip_rest_same ?s t u d d'" "subnet_ips ?s t u d' \<subseteq> subnet_ips ?s t u d"
    "subnet_ips ?s t u d - ip_item_set i \<subseteq> subnet_ips ?s t u d'"
    "subnet_ips ?s t u d' \<noteq> subnet_ips ?s t u d \<Longrightarrow> ip_item_free t u i d"
    using g by (simp_all add: ip_range_shrinks_def Let_def)
  have f: "ret = 0 \<Longrightarrow> ip_item_set i \<subseteq> subnet_ips ?s t u d \<and>
      subnet_ips ?s t u d' = subnet_ips ?s t u d - ip_item_set i \<and> ip_rows_apart ?s t u d'"
    using f by (simp add: ip_range_removed_def Let_def)
  have it: "ip_item_set i \<subseteq> hosts ?s" "ip_item_set i \<noteq> {}"
    using ip_msg_item_good [OF assms(1)] good_ip_item_sel(5) [OF ip_msg_item_good [OF assms(1)]]
    by (simp_all add: good_ip_item_iff)
  let ?X = "ips (map (ip_row_item False) (other_rows ?s t u d))"
  have X: "net_ips t u d = subnet_ips ?s t u d \<union> ?X" "net_ips t u d' = subnet_ips ?s t u d' \<union> ?X"
    using net_ips_split [of t u d ?s] net_ips_split [of t u d' ?s] ip_rest_same_other [OF e(1)] by simp_all
  have "?X \<inter> ip_item_set i = {}" if "subnet_ips ?s t u d \<noteq> {}"
    using other_rows_hosts [OF assms(3) that] it(1) by blast
  then have "net_ips t u d' = net_ips t u d - ip_item_set i" if "ret = 0"
    using f [OF that] it(2) unfolding X by blast
  then show ?thesis using X e f k by blast
qed

theorem DelIPv4Range_result_witness:
  "\<exists>d'. DelIPv4Range False LOGIC_NET (ip_msg ''ln'' 2 ''10.0.1.3'' ''10.0.1.5'' ''255.255.255.0'') example_ln = (0, d') \<and>
        net_ips LOGIC_NET ''ln'' d' = net_ips LOGIC_NET ''ln'' example_ln - {0x0A000103..0x0A000105}"
proof -
  let ?m = "ip_msg ''ln'' 2 ''10.0.1.3'' ''10.0.1.5'' ''255.255.255.0''"
  obtain r d' where a: "DelIPv4Range False LOGIC_NET ?m example_ln = (r, d')" by fastforce
  have r: "r = 0" using a example_del_code by simp
  have "net_ips LOGIC_NET ''ln'' d' = net_ips LOGIC_NET ''ln'' example_ln - ip_item_set range_24"
    using DelIPv4Range_result [OF example_ip_items(2) _ example_ln_ok example_ln_apart a] r by (simp add: c_str_def)
  then show ?thesis using a r example_ip_sets(2) by (intro exI [of _ d']) simp
qed

text \<open>C20. The code of a deletion, on a database whose calls do not fail, with well-formed, separated rows and, for a
  logic network, no other logic network of the netplane that has a range with the same mask that meets its own in the
  subnet: a message that parses to a range of one subnet is refused as not existing when the network has no range at
  all or none in that subnet, as occupied when an address of the message is allocated in the network, as invalid when its subnet
  overlaps another one of the network, and with the calculation error when its addresses are not all in the ranges;
  otherwise it succeeds.\<close>

theorem DelIPv4Range_code:
  assumes "m_bInit d" and "u = c_str (m_strNetUUID m)" and "ip_ranges_live t u d" and "ip_net_ok t u d"
    and "ip_msg_item big m = Inr i" and "s = subnet_of i" and "IsValidIPv4MsgRange m"
    and "clear_of_others t u s (subnet_ips s t u d) d" and "ip_rows_apart s t u d"
  shows "fst (DelIPv4Range big t m d) =
    (if ip_net_rows t u d = [] then IPV4_RANGE_NOT_EXIST
     else if \<not> ip_item_free t u i d then IPV4_RANGE_OCCUPIED
     else if \<exists>r \<in> set (ip_net_rows t u d). crossing s r then IPV4_RANGE_INVALID
     else if subnet_rows s t u d = [] then IPV4_RANGE_NOT_EXIST
     else if \<not> ip_item_set i \<subseteq> subnet_ips s t u d then IPV4_RANGE_CALC_ERROR
     else IPV4_RANGE_OPER_SUCCESS)"
  using assms by (rule DelIPv4Range_live_code)

theorem DelIPv4Range_code_witness:
  "fst (DelIPv4Range False LOGIC_NET (ip_msg ''ln'' 1 ''10.0.1.5'' ''10.0.1.9'' ''255.255.255.0'') example_ln) =
     IPV4_RANGE_CALC_ERROR"
proof -
  have "subnet_rows (subnet_of range_24) LOGIC_NET ''ln'' example_ln \<noteq> []"
    using example_ln_ranges by (auto simp: subnet_ranges_def)
  moreover have "\<not> ip_item_set range_59 \<subseteq> subnet_ips (subnet_of range_24) LOGIC_NET ''ln'' example_ln"
    by (simp add: subnet_ips_def ips_def example_ln_ranges example_ip_sets)
  ultimately show ?thesis
    using DelIPv4Range_code [OF example_ln_live(1) _ example_ln_live(2) example_ln_ok example_ip_items(1)
        example_ln_subnets(3) [symmetric] _ example_no_others example_ln_apart] example_ln_rows example_ln_free
    by (simp add: c_str_def IsValidIPv4MsgRange_def example_ln_net)
qed

end
