(* ===== verification/Ipv4Vnic.thy ===== *)
theory Ipv4Vnic
  imports Ipv4RangeMsg
begin

text \<open>
  The operations of the IPv4 pool manager on the network cards of a virtual machine and on netplanes: what the
  cards and the tables are after \<open>AllocIPAddrForVnic\<close>, \<open>FreeIPAddrForVnic\<close>, \<open>NetplaneAllocIPAddr\<close> and
  \<open>NetplaneFreeIPAddr\<close>, whatever the database answers.
\<close>

section \<open>The effect of a release\<close>

definition names_ip :: "T_Ipv4NetType \<Rightarrow> CDbIpPool \<Rightarrow> ipdb \<Rightarrow> ip_pool_row \<Rightarrow> bool" where
  "names_ip t m d r \<longleftrightarrow> (\<exists>n. net_lookup t (IpUuid m) d = Some n \<and> is_ip_row n m r)"

text \<open>Exactly the rows that \<open>m\<close> names are gone, and no interface used one of them.\<close>

definition ip_removed :: "T_Ipv4NetType \<Rightarrow> CDbIpPool \<Rightarrow> ipdb \<Rightarrow> ipdb \<Rightarrow> bool" where
  "ip_removed t m d d' \<longleftrightarrow>
     ip_kept t d d' \<and> pool_of t d' = filter (\<lambda>r. \<not> names_ip t m d r) (pool_of t d) \<and>
     (t = LOGIC_NET \<longrightarrow> (\<forall>r \<in> set (pool_of t d). names_ip t m d r \<longrightarrow> ia_id r \<notin> set (vsi_ip_id d)))"

lemma names_ip_kept: "ip_kept t' d d' \<Longrightarrow> names_ip t m d' = names_ip t m d"
  by (simp add: fun_eq_iff names_ip_def ip_kept_sel(5))

lemma check_del_ip_code: "pf_net_check_del_ippool t m d \<in> {0, RTN_ITEM_NO_EXIST, RTN_RESOURCE_USING}"
  by (auto simp: pf_net_check_del_ippool_def split: option.splits)

lemma check_del_ip_none:
  assumes "pf_net_check_del_ippool t m d = RTN_ITEM_NO_EXIST"
  shows "\<forall>r \<in> set (pool_of t d). \<not> names_ip t m d r"
  using assms
  by (auto simp: pf_net_check_del_ippool_def names_ip_def rtn_defs find_None_all split: option.splits if_splits)

lemma IpPool_CheckDel_effect:
  assumes "IpPool_CheckDel t m d = (ret, d')"
  shows "same_tables d d'" and "VNET_DB_IS_ITEM_NO_EXIST ret \<Longrightarrow> \<forall>r \<in> set (pool_of t d). \<not> names_ip t m d r"
proof -
  have "same_tables d d' \<and> (VNET_DB_IS_ITEM_NO_EXIST ret \<longrightarrow> (\<forall>r \<in> set (pool_of t d). \<not> names_ip t m d r))"
    using assms unfolding IpPool_CheckDel_def
  proof (cases rule: db_del_op_cases)
    case (ran d1 a)
    have "VNET_DB_IS_ITEM_NO_EXIST ret \<longrightarrow> a = RTN_ITEM_NO_EXIST"
      using ran(2,4) check_del_ip_code [of t m d1] by (auto simp: rtn_defs)
    then show ?thesis
      using ran(1,2) check_del_ip_none [of t m d1] same_tables_ip [OF ran(1), of t] names_ip_kept [of t d d1 t m] by auto
  qed auto
  then show "same_tables d d'" "VNET_DB_IS_ITEM_NO_EXIST ret \<Longrightarrow> \<forall>r \<in> set (pool_of t d). \<not> names_ip t m d r" by auto
qed

lemma ip_kept_pool: "ip_kept t d (set_tabs t ((tabs t d)\<lparr>ip_pool := p\<rparr>) d)"
  by (simp add: ip_kept_def ip_rest_def)

lemma pf_net_del_ippool_effect:
  assumes "pf_net_del_ippool t m d = Some (ret, d')"
  shows "0 \<le> ret \<and> (if ret = 0 then ip_removed t m d d' else d' = d)"
proof (cases "ret = 0")
  case False
  then show ?thesis
    using assms by (auto simp: pf_net_del_ippool_def rtn_defs split: option.splits if_splits)
next
  case True
  then obtain n where n: "net_lookup t (IpUuid m) d = Some n" and x: "delete_ip_pool t n m d = Some d'"
    using assms by (auto simp: pf_net_del_ippool_def rtn_defs split: option.splits if_splits)
  then have "names_ip t m d = is_ip_row n m" by (simp add: fun_eq_iff names_ip_def)
  then show ?thesis
    using x True ip_kept_pool [of t d] by (auto simp: delete_ip_pool_def Let_def list_ex_iff ip_removed_def split: if_splits)
qed

lemma ip_removed_same:
  assumes "same_tables d d1" and "ip_removed t m d1 d'"
  shows "ip_removed t m d d'"
  using assms(2) same_tables_ip [OF assms(1), of t] names_ip_kept [of t d d1 t m] ip_kept_trans [of t d d1 d']
    ip_kept_sel(2) [of t d d1]
  by (cases t) (simp_all add: ip_removed_def)

lemma IpPool_Del_effect:
  assumes "IpPool_Del t m d = (ret, d')"
  shows "same_tables d d' \<or> ip_removed t m d d'" and "ret = 0 \<Longrightarrow> ip_removed t m d d'"
proof -
  have "(same_tables d d' \<or> ip_removed t m d d') \<and> (ret = 0 \<longrightarrow> ip_removed t m d d')"
    using assms unfolding IpPool_Del_def
  proof (cases rule: db_del_op_cases)
    case (ran d1 a)
    note e = pf_net_del_ippool_effect [OF ran(2)]
    show ?thesis using e ran(1,3) ip_removed_same [OF ran(1)] by (auto split: if_splits)
  qed auto
  then show "same_tables d d' \<or> ip_removed t m d d'" "ret = 0 \<Longrightarrow> ip_removed t m d d'" by auto
qed

lemma FreeIPv4Addr_effect:
  assumes "FreeIPv4Addr big a p d = (ret, d')" and "m = ip_row big (m_strNetworkUUID p) a" and "t = m_tNetType p"
  shows "ret \<in> {0, - 1}" and "same_tables d d' \<or> ip_removed t m d d'"
    and "ret = 0 \<Longrightarrow> \<forall>r \<in> set (pool_of t d'). \<not> names_ip t m d r"
proof -
  obtain r1 d1 where c: "IpPool_CheckDel t m d = (r1, d1)" by fastforce
  obtain r2 d2 where x: "IpPool_Del t m d1 = (r2, d2)" by fastforce
  note ce = IpPool_CheckDel_effect [OF c] and xe = IpPool_Del_effect [OF x]
  note s1 = same_tables_ip [OF ce(1), of t]
  consider (stop) "ret = - 1" "d' = d \<or> d' = d1" | (gone) "ret = 0" "d' = d1" "VNET_DB_IS_ITEM_NO_EXIST r1"
    | (del) "d' = d2" "ret = (if r2 = 0 then 0 else - 1)"
    using assms c x by (auto simp: FreeIPv4Addr_def Let_def VNET_DB_SUCCESS_def split: if_splits)
  then have "ret \<in> {0, - 1} \<and> (same_tables d d' \<or> ip_removed t m d d') \<and>
      (ret = 0 \<longrightarrow> (\<forall>r \<in> set (pool_of t d'). \<not> names_ip t m d r))"
  proof cases
    case stop
    then show ?thesis using ce(1) by auto
  next
    case gone
    then show ?thesis using ce s1 by simp
  next
    case del
    have "same_tables d d' \<or> ip_removed t m d d'"
      using del(1) xe(1) same_tables_trans [OF ce(1)] ip_removed_same [OF ce(1)] by blast
    moreover have "\<forall>r \<in> set (pool_of t d'). \<not> names_ip t m d r" if "ret = 0"
      using that del xe(2) names_ip_kept [OF s1(1), of t m] by (auto simp: ip_removed_def split: if_splits)
    ultimately show ?thesis using del(2) by auto
  qed
  then show "ret \<in> {0, - 1}" "same_tables d d' \<or> ip_removed t m d d'"
    "ret = 0 \<Longrightarrow> \<forall>r \<in> set (pool_of t d'). \<not> names_ip t m d r" by auto
qed

section \<open>Reading a network\<close>

lemma load_ip_ranges_eq: "load_ip_ranges big rs c = c @ map (ip_row_item big) rs"
  by (induction rs arbitrary: c) (simp_all add: CIPv4AddrRange_AddValidRange_def)

lemma GetIPv4Range_effect:
  assumes "GetIPv4Range big t u d = (ret, c, d')"
  shows "same_tables d d'" and "ret = 0 \<Longrightarrow> u \<noteq> [] \<and> c = map (ip_row_item big) (ip_net_rows t u d)"
proof -
  obtain r1 rows d1 where q: "IpRange_Query t u d = (r1, rows, d1)" by (metis prod_cases3)
  note e = IpRange_Query_effect [OF q]
  show "same_tables d d'" using assms q e(1) by (auto simp: GetIPv4Range_def split: if_splits)
  show "u \<noteq> [] \<and> c = map (ip_row_item big) (ip_net_rows t u d)" if "ret = 0"
    using assms q e(2) that by (auto simp: GetIPv4Range_def VNET_DB_SUCCESS_def load_ip_ranges_eq split: if_splits)
qed

definition ln_mode :: "string \<Rightarrow> ipdb \<Rightarrow> int option" where
  "ln_mode u d = map_option ln_ip_mode (find (\<lambda>l. ln_uuid l = u) (logic_network d))"

lemma ln_mode_kept: "ip_kept t d d' \<Longrightarrow> ln_mode u d' = ln_mode u d"
  by (simp add: ln_mode_def ip_kept_sel(7))

lemma LogicNetwork_Query_effect:
  assumes "LogicNetwork_Query u d = (x, d')"
  shows "same_tables d d'" and "x = Inr mode \<Longrightarrow> ln_mode u d = Some mode"
proof -
  let ?p = "pf_net_query_logicnetwork u"
  obtain y d1 where h: "Handle ?p d = (y, d1)" by fastforce
  have rd: "b = a" if "?p a = Some (z, b)" for a z b
    using that by (auto simp: pf_net_query_logicnetwork_def split: option.splits)
  have r: "same_tables d d1" "\<And>a. y = Inr a \<Longrightarrow> ?p d1 = Some (a, d1)" using Handle_reads [OF h] rd by blast+
  have m: "ln_mode u d1 = ln_mode u d" using ln_mode_kept same_tables_ip(1) [OF r(1)] by blast
  show "same_tables d d'" using assms h r(1) by (auto simp: LogicNetwork_Query_def split: sum.splits if_splits)
  show "ln_mode u d = Some mode" if "x = Inr mode"
    unfolding m [symmetric] using assms h r(2) that
    by (auto simp: LogicNetwork_Query_def pf_net_query_logicnetwork_def ln_mode_def rtn_defs
        split: sum.splits if_splits option.splits)
qed

lemma GetLogicNetwork_effect:
  assumes "GetLogicNetwork big u d = (x, d')"
  shows "same_tables d d'" and "x = Some l \<Longrightarrow> ln_mode u d = Some (m_nIPBootProtoMode l)"
proof -
  obtain y d1 where q: "LogicNetwork_Query u d = (y, d1)" by fastforce
  obtain r rows d2 where i: "IpRange_Query LOGIC_NET u d1 = (r, rows, d2)" by (metis prod_cases3)
  note e = LogicNetwork_Query_effect [OF q]
  have s2: "same_tables d d2" using e(1) IpRange_Query_effect(1) [OF i] by (rule same_tables_trans)
  show "same_tables d d'" using assms q i e(1) s2 by (auto simp: GetLogicNetwork_def split: sum.splits if_splits)
  show "ln_mode u d = Some (m_nIPBootProtoMode l)" if "x = Some l"
    using assms q i e(2) that by (auto simp: GetLogicNetwork_def split: sum.splits if_splits)
qed

section \<open>Addresses for one card\<close>

lemma show_uaddr_nonempty [simp]: "show_uaddr u \<noteq> []"
proof
  assume "show_uaddr u = []"
  then have "String2IP [] = Some u" using String2IP_show [of u] by simp
  moreover have "String2IP [] = None" by code_simp
  ultimately show False by simp
qed

lemma ip_text_of_row: "GetIP a = ip_text_of (uint (net_word (uIP a)))" "GetMask a = ip_text_of (uint (net_word (uMask a)))"
  by (simp_all add: GetIP_def GetMask_def ip_text_of_def word_of_addr)

lemma ip_row_nums: "IpNum (ip_row big u a) = uint (net_word (uIP a))" "MaskNum (ip_row big u a) = uint (net_word (uMask a))"
  by (simp_all add: ip_row_def N2HL_net_word)

text \<open>An allocation from the ranges of a network, as both managers make it.\<close>

lemma AllocIPv4Addr_rows:
  assumes "AllocIPv4Addr big rnd key t0 p d = Some (ret, a, d')" and "t = m_tNetType p" and "u = m_strNetworkUUID p"
  shows "\<exists>rs. ip_run t u UNIV d rs d' \<and>
           (if ret = 0 then \<exists>r \<in> set rs. ia_ip r = GetIP a \<and> ia_mask r = GetMask a else ret = - 1)"
proof -
  note e = AllocIPv4Addr_effect [OF assms(1), folded assms(2,3)]
  then obtain rs where rs: "ip_run t u (range_masks (case m_pIPv4AddrRange p of None \<Rightarrow> [] | Some rs \<Rightarrow> rs)) d rs d'"
    "ret = 0 \<longrightarrow> (\<exists>r \<in> set rs. ia_num r = IpNum (ip_row big u a) \<and> ia_mask_num r = MaskNum (ip_row big u a))"
    by (auto simp: ip_done_def split: if_splits)
  have "ia_ip r = ip_text_of (ia_num r) \<and> ia_mask r = ip_text_of (ia_mask_num r)" if "r \<in> set rs" for r
    using ip_run_rows [OF rs(1)] that by (auto simp: fresh_ip_def)
  then have "if ret = 0 then \<exists>r \<in> set rs. ia_ip r = GetIP a \<and> ia_mask r = GetMask a else ret = - 1"
    using rs(2) e by (fastforce simp: ip_text_of_row ip_row_nums)
  then show ?thesis using ip_run_mono [OF rs(1) subset_UNIV] by blast
qed

lemma alloc_ip_for_card_effect:
  assumes "alloc_ip_for_card big rnd c d = Some (x, d')" and "u = m_strLogicNetworkID c"
  shows "\<exists>rs. ip_run LOGIC_NET u UNIV d rs d' \<and>
           (\<forall>a. x = Inr a \<longrightarrow> (\<exists>r \<in> set rs. ia_ip r = GetIP a \<and> ia_mask r = GetMask a))"
proof -
  obtain r1 rs d1 where g: "GetIPv4Range big LOGIC_NET u d = (r1, rs, d1)" by (metis prod_cases3)
  note ge = GetIPv4Range_effect [OF g]
  note run = ip_run_same [OF ge(1), of LOGIC_NET u UNIV]
  show ?thesis
  proof (cases "r1 = 0 \<and> rs \<noteq> []")
    case False
    then have "x = Inl () \<and> d' = d1" using assms g by (auto simp: alloc_ip_for_card_def split: if_splits)
    then show ?thesis using run by (intro exI [of _ "[]"]) simp
  next
    case True
    let ?p = "snd (CIPv4AddrPool_Init u (Some rs) LOGIC_NET CIPv4AddrPool_new)"
    have p: "m_tNetType ?p = LOGIC_NET" "m_strNetworkUUID ?p = u" using ge(2) True by (simp_all add: CIPv4AddrPool_Init_def)
    obtain r2 a d2 where a: "AllocIPv4Addr big rnd (m_nNicIndex c) \<lparr>uIP = uaddr_zero, uMask = uaddr_zero\<rparr> ?p d1 = Some (r2, a, d2)"
      "x = (if r2 = 0 then Inr a else Inl ())" "d' = d2"
      using assms g True by (auto simp: alloc_ip_for_card_def split: option.splits if_splits)
    obtain qs where "ip_run LOGIC_NET u UNIV d1 qs d2"
      "if r2 = 0 then \<exists>r \<in> set qs. ia_ip r = GetIP a \<and> ia_mask r = GetMask a else r2 = - 1"
      using AllocIPv4Addr_rows [OF a(1) p(1) [symmetric] p(2) [symmetric]] by blast
    then show ?thesis using ip_run_trans [OF _ run] a(2,3) by (intro exI [of _ qs]) auto
  qed
qed

section \<open>Rows for several networks\<close>

text \<open>Rows that runs for several networks add to the pool of logic networks.\<close>

definition ip_grows :: "ipdb \<Rightarrow> ip_pool_row list \<Rightarrow> ipdb \<Rightarrow> bool" where
  "ip_grows d rs d' \<longleftrightarrow>
     ip_kept LOGIC_NET d d' \<and> pool_of LOGIC_NET d' = pool_of LOGIC_NET d @ rs \<and>
     (\<forall>r \<in> set rs. (\<exists>u. fresh_ip LOGIC_NET u UNIV d r) \<and> ia_id r \<le> serial_ip_pool (tabs LOGIC_NET d')) \<and>
     distinct (map (\<lambda>r. (ia_net_id r, ia_num r)) rs) \<and> distinct (map ia_id rs)"

lemma ip_run_grows: "ip_run LOGIC_NET u UNIV d rs d' \<Longrightarrow> ip_grows d rs d'"
  using ip_run_rows [of LOGIC_NET u UNIV d rs d'] by (auto simp: ip_grows_def distinct_map inj_on_def)

lemma ip_grows_same: "same_tables d d' \<Longrightarrow> ip_grows d [] d'"
  using same_tables_ip [of d d' LOGIC_NET] by (simp add: ip_grows_def)

lemma fresh_ip_earlier:
  assumes "ip_kept t a b" and "pool_of t b = pool_of t a @ rs" and "fresh_ip t u M b r"
  shows "fresh_ip t u M a r"
proof -
  have "ip_alloc t a n \<subseteq> ip_alloc t b n" for n using assms(2) by (auto simp: ip_alloc_def)
  moreover have "serial_ip_pool (tabs t a) \<le> serial_ip_pool (tabs t b)" using assms(1) by (simp add: ip_kept_def)
  ultimately show ?thesis using assms(3) ip_kept_sel(5,6) [OF assms(1)] by (auto simp: fresh_ip_def)
qed

lemma ip_grows_trans:
  assumes "ip_grows a rs b" and "ip_grows b qs c"
  shows "ip_grows a (rs @ qs) c"
proof -
  have k: "ip_kept LOGIC_NET a b" "ip_kept LOGIC_NET b c" and p: "pool_of LOGIC_NET b = pool_of LOGIC_NET a @ rs"
    using assms by (simp_all add: ip_grows_def)
  have s: "serial_ip_pool (tabs LOGIC_NET b) \<le> serial_ip_pool (tabs LOGIC_NET c)" using k(2) by (simp add: ip_kept_def)
  have new: "(ia_net_id r, ia_num r) \<noteq> (ia_net_id q, ia_num q) \<and> ia_id r \<noteq> ia_id q"
    if "r \<in> set rs" "q \<in> set qs" for r q
  proof -
    have q: "ia_num q \<notin> ip_alloc LOGIC_NET b (ia_net_id q)" "serial_ip_pool (tabs LOGIC_NET b) < ia_id q"
      using assms(2) that(2) by (auto simp: ip_grows_def fresh_ip_def)
    have "ia_num r \<in> ip_alloc LOGIC_NET b (ia_net_id r)" using p that(1) by (auto simp: ip_alloc_def)
    moreover have "ia_id r \<le> serial_ip_pool (tabs LOGIC_NET b)" using assms(1) that(1) by (auto simp: ip_grows_def)
    ultimately show ?thesis using q by auto
  qed
  have "\<exists>u. fresh_ip LOGIC_NET u UNIV a q" if "q \<in> set qs" for q
    using assms(2) that fresh_ip_earlier [OF k(1) p] unfolding ip_grows_def by blast
  moreover have "ia_id r \<le> serial_ip_pool (tabs LOGIC_NET c)" if "r \<in> set rs" for r
    using assms(1) that s by (fastforce simp: ip_grows_def)
  moreover have "distinct (map (\<lambda>r. (ia_net_id r, ia_num r)) (rs @ qs))" "distinct (map ia_id (rs @ qs))"
    using assms new by (auto simp: ip_grows_def)
  ultimately show ?thesis
    using assms ip_kept_trans [OF k] unfolding ip_grows_def by auto
qed

section \<open>All the cards\<close>

definition static_card :: "ipdb \<Rightarrow> CVNetVnicIp \<Rightarrow> bool" where
  "static_card d c \<longleftrightarrow> ln_mode (m_strLogicNetworkID c) d = Some EN_IP_BP_MODE_STATIC"

lemma static_card_kept: "ip_kept t d d' \<Longrightarrow> static_card d' c = static_card d c"
  by (simp add: static_card_def ln_mode_kept)

text \<open>A card as an allocation leaves it: as it was, or with the texts of a new row of its own logic network.\<close>

definition ip_card_after :: "ipdb \<Rightarrow> ip_pool_row list \<Rightarrow> CVNetVnicIp \<Rightarrow> CVNetVnicIp \<Rightarrow> bool" where
  "ip_card_after d rs c c' \<longleftrightarrow>
     c' = c \<or>
     static_card d c \<and> m_strIP c = [] \<and>
       (\<exists>r \<in> set rs. fresh_ip LOGIC_NET (m_strLogicNetworkID c) UNIV d r \<and>
                     c' = c\<lparr>m_strIP := ia_ip r, m_strMask := ia_mask r\<rparr>)"

lemma ip_card_after_earlier:
  assumes "ip_grows a rs b" and "ip_card_after b qs c c'"
  shows "ip_card_after a (rs @ qs) c c'"
proof -
  have k: "ip_kept LOGIC_NET a b" "pool_of LOGIC_NET b = pool_of LOGIC_NET a @ rs" using assms(1) by (simp_all add: ip_grows_def)
  show ?thesis
  proof (cases "c' = c")
    case False
    then obtain r where "r \<in> set qs" "fresh_ip LOGIC_NET (m_strLogicNetworkID c) UNIV b r" "static_card b c" "m_strIP c = []"
      "c' = c\<lparr>m_strIP := ia_ip r, m_strMask := ia_mask r\<rparr>" using assms(2) by (auto simp: ip_card_after_def)
    then show ?thesis
      using static_card_kept [OF k(1)] fresh_ip_earlier [OF k]
      by (intro ip_card_after_def [THEN iffD2] disjI2 conjI bexI [of _ r]) auto
  qed (simp add: ip_card_after_def)
qed

text \<open>The logic networks and addresses that the cards got.\<close>

fun assigned_ips :: "CVNetVnicIp list \<Rightarrow> CVNetVnicIp list \<Rightarrow> (string \<times> string) list" where
  "assigned_ips (c # cs) (c' # cs') =
     (if m_strIP c = m_strIP c' then [] else [(m_strLogicNetworkID c, m_strIP c')]) @ assigned_ips cs cs'"
| "assigned_ips _ _ = []"

lemma assigned_ips_self [simp]: "assigned_ips cs cs = []"
  by (induction cs) auto

lemma assigned_ips_new:
  assumes "list_all2 (ip_card_after d rs) cs cs'" and "(u, t) \<in> set (assigned_ips cs cs')"
  shows "\<exists>r \<in> set rs. t = ia_ip r \<and> fresh_ip LOGIC_NET u UNIV d r"
  using assms
proof (induction rule: list_all2_induct)
  case (Cons x xs y ys)
  show ?case
  proof (cases "(u, t) \<in> set (assigned_ips xs ys)")
    case False
    then have "u = m_strLogicNetworkID x" "t = m_strIP y" "y \<noteq> x" using Cons.prems by (auto split: if_splits)
    then show ?thesis using Cons.hyps(1) by (auto simp: ip_card_after_def)
  qed (rule Cons.IH)
qed simp

definition ip_cards_done :: "rc \<Rightarrow> ipdb \<Rightarrow> ipdb \<Rightarrow> CVNetVnicIp list \<Rightarrow> CVNetVnicIp list \<Rightarrow> bool" where
  "ip_cards_done ret d d' cs cs' \<longleftrightarrow>
     (\<exists>rs. ip_grows d rs d' \<and> list_all2 (ip_card_after d rs) cs cs') \<and> distinct (assigned_ips cs cs') \<and>
     (\<exists>k \<le> length cs. (\<forall>c \<in> set (take k cs'). static_card d c \<longrightarrow> m_strIP c \<noteq> []) \<and> drop k cs' = drop k cs \<and>
        (if ret = 0 then k = length cs else ret = - 1 \<and> k < length cs))"

lemma ip_cards_done_stop: "ip_grows d rs d' \<Longrightarrow> ip_cards_done (- 1) d d' (c # cs) (c # cs)"
  by (auto simp: ip_cards_done_def ip_card_after_def list_all2_same)

lemma ip_cards_done_cons:
  assumes "ip_grows d rs d1" and "ip_card_after d rs c c'" and "static_card d c \<longrightarrow> m_strIP c' \<noteq> []"
    and "ip_cards_done ret d1 d' cs cs'"
  shows "ip_cards_done ret d d' (c # cs) (c' # cs')"
proof -
  obtain qs k where q: "ip_grows d1 qs d'" "list_all2 (ip_card_after d1 qs) cs cs'" "distinct (assigned_ips cs cs')"
    and k: "k \<le> length cs" "\<forall>c \<in> set (take k cs'). static_card d1 c \<longrightarrow> m_strIP c \<noteq> []" "drop k cs' = drop k cs"
    "if ret = 0 then k = length cs else ret = - 1 \<and> k < length cs"
    using assms(4) by (auto simp: ip_cards_done_def)
  have kd: "ip_kept LOGIC_NET d d1" and p: "pool_of LOGIC_NET d1 = pool_of LOGIC_NET d @ rs"
    using assms(1) by (simp_all add: ip_grows_def)
  have "list_all2 (ip_card_after d (rs @ qs)) cs cs'"
    using q(2) ip_card_after_earlier [OF assms(1)] by (rule list_all2_mono)
  moreover have "ip_card_after d (rs @ qs) c c'" using assms(2) by (auto simp: ip_card_after_def)
  ultimately have all: "\<exists>rs. ip_grows d rs d' \<and> list_all2 (ip_card_after d rs) (c # cs) (c' # cs')"
    using ip_grows_trans [OF assms(1) q(1)] by auto
  have "(m_strLogicNetworkID c, m_strIP c') \<notin> set (assigned_ips cs cs')" if ne: "m_strIP c \<noteq> m_strIP c'"
  proof
    assume "(m_strLogicNetworkID c, m_strIP c') \<in> set (assigned_ips cs cs')"
    then obtain r where r: "m_strIP c' = ia_ip r" "fresh_ip LOGIC_NET (m_strLogicNetworkID c) UNIV d1 r"
      using assigned_ips_new [OF q(2)] by blast
    obtain x where x: "x \<in> set rs" "fresh_ip LOGIC_NET (m_strLogicNetworkID c) UNIV d x" "m_strIP c' = ia_ip x"
      using assms(2) ne by (auto simp: ip_card_after_def)
    have "ia_num x = ia_num r" using r x by (intro ip_text_inject) (auto simp: fresh_ip_def)
    moreover have "ia_net_id x = ia_net_id r" using r(2) x(2) ip_kept_sel(5) [OF kd] by (auto simp: fresh_ip_def)
    moreover have "ia_num x \<in> ip_alloc LOGIC_NET d1 (ia_net_id x)" using x(1) p by (auto simp: ip_alloc_def)
    ultimately have "ia_num r \<in> ip_alloc LOGIC_NET d1 (ia_net_id r)" by simp
    then show False using r(2) by (simp add: fresh_ip_def)
  qed
  then have dist: "distinct (assigned_ips (c # cs) (c' # cs'))" using q(3) by simp
  have sc: "static_card d1 = static_card d" using static_card_kept [OF kd] by (simp add: fun_eq_iff)
  have "static_card d c' = static_card d c" using assms(2) by (auto simp: ip_card_after_def static_card_def)
  then have "\<exists>k \<le> length (c # cs). (\<forall>x \<in> set (take k (c' # cs')). static_card d x \<longrightarrow> m_strIP x \<noteq> []) \<and>
      drop k (c' # cs') = drop k (c # cs) \<and>
      (if ret = 0 then k = length (c # cs) else ret = - 1 \<and> k < length (c # cs))"
    using k assms(3) sc by (intro exI [of _ "Suc k"]) simp
  then show ?thesis using all dist unfolding ip_cards_done_def by blast
qed

lemma alloc_ip_cards_effect:
  "alloc_ip_cards big rnd seen cs d = Some (ret, vm', d') \<Longrightarrow>
     \<exists>cs'. vm' = seen @ cs' \<and> ip_cards_done ret d d' cs cs'"
proof (induction cs arbitrary: seen d)
  case Nil
  then show ?case using ip_grows_same [of d d] by (auto simp: ip_cards_done_def)
next
  case (Cons c cs)
  obtain x d1 where g: "GetLogicNetwork big (m_strLogicNetworkID c) d = (x, d1)" by fastforce
  note ge = GetLogicNetwork_effect [OF g]
  note s1 = ip_grows_same [OF ge(1)]
  show ?case
  proof (cases x)
    case None
    then show ?thesis using Cons.prems g ip_cards_done_stop [OF s1] by auto
  next
    case (Some ln)
    have mode: "static_card d c \<longleftrightarrow> m_nIPBootProtoMode ln = EN_IP_BP_MODE_STATIC"
      using ge(2) [OF Some] by (simp add: static_card_def)
    show ?thesis
    proof (cases "static_card d c \<and> m_strIP c = []")
      case False
      have "alloc_ip_cards big rnd (seen @ [c]) cs d1 = Some (ret, vm', d')"
        using Cons.prems g Some False mode by (auto split: if_splits)
      from Cons.IH [OF this] obtain cs' where "vm' = seen @ c # cs'" "ip_cards_done ret d1 d' cs cs'" by auto
      then show ?thesis
        using ip_cards_done_cons [OF s1, of c c ret d' cs cs'] False by (auto simp: ip_card_after_def)
    next
      case True
      then obtain y d2 where a: "alloc_ip_for_card big (rnd (length seen)) c d1 = Some (y, d2)"
        using Cons.prems g Some mode by (auto split: option.splits)
      obtain rs where rs: "ip_run LOGIC_NET (m_strLogicNetworkID c) UNIV d1 rs d2"
        "\<forall>a. y = Inr a \<longrightarrow> (\<exists>r \<in> set rs. ia_ip r = GetIP a \<and> ia_mask r = GetMask a)"
        using alloc_ip_for_card_effect [OF a refl] by blast
      have run: "ip_run LOGIC_NET (m_strLogicNetworkID c) UNIV d rs d2"
        using ip_run_trans [OF rs(1) ip_run_same [OF ge(1)]] by simp
      note gr = ip_run_grows [OF run]
      show ?thesis
      proof (cases y)
        case (Inl e)
        then show ?thesis using Cons.prems g Some True mode a ip_cards_done_stop [OF gr] by auto
      next
        case (Inr b)
        let ?c = "c\<lparr>m_strIP := GetIP b, m_strMask := GetMask b\<rparr>"
        have "alloc_ip_cards big rnd (seen @ [?c]) cs d2 = Some (ret, vm', d')"
          using Cons.prems g Some True mode a Inr by simp
        from Cons.IH [OF this] obtain cs' where cs': "vm' = seen @ ?c # cs'" "ip_cards_done ret d2 d' cs cs'" by auto
        have "\<forall>r \<in> set rs. fresh_ip LOGIC_NET (m_strLogicNetworkID c) UNIV d r" using ip_run_rows [OF run] by blast
        then have "ip_card_after d rs c ?c" using rs(2) Inr True unfolding ip_card_after_def by metis
        then show ?thesis
          using ip_cards_done_cons [OF gr, of c ?c ret d' cs cs'] cs' by (auto simp: GetIP_def)
      qed
    qed
  qed
qed

section \<open>Releasing the addresses of the cards\<close>

text \<open>The row that two texts name for a network: that of the address that \<open>Set\<close> leaves, 0.0.0.0 when it fails.\<close>

definition text_row :: "string \<Rightarrow> string \<Rightarrow> string \<Rightarrow> CDbIpPool" where
  "text_row u ip msk = ip_row False u (snd (Set_text ip msk \<lparr>uIP = uaddr_zero, uMask = uaddr_zero\<rparr>))"

lemma ip_row_host: "ip_row big = ip_row False"
  by (simp add: fun_eq_iff ip_row_def N2HL_net_word)

lemma free_ip_text_effect:
  assumes "free_ip_text big t u ip msk d = (ret, d')"
  shows "ret \<in> {0, - 1}" and "same_tables d d' \<or> ip_removed t (text_row u ip msk) d d'"
    and "ret = 0 \<Longrightarrow> u \<noteq> [] \<and> (\<forall>r \<in> set (pool_of t d'). \<not> names_ip t (text_row u ip msk) d r)"
proof -
  let ?p = "snd (CIPv4AddrPool_Init_free u t CIPv4AddrPool_new)"
  have main: "ret \<in> {0, - 1} \<and> (same_tables d d' \<or> ip_removed t (text_row u ip msk) d d') \<and>
      (ret = 0 \<longrightarrow> u \<noteq> [] \<and> (\<forall>r \<in> set (pool_of t d'). \<not> names_ip t (text_row u ip msk) d r))"
  proof (cases "u = []")
    case True
    then have "ret = - 1 \<and> d' = d"
      using assms by (simp add: free_ip_text_def CIPv4AddrPool_Init_free_def CIPv4AddrPool_new_def FreeIPv4Addr_def)
    then show ?thesis by simp
  next
    case False
    then have p: "m_tNetType ?p = t" "m_strNetworkUUID ?p = u" by (simp_all add: CIPv4AddrPool_Init_free_def)
    have r: "text_row u ip msk = ip_row big (m_strNetworkUUID ?p) (snd (Set_text ip msk \<lparr>uIP = uaddr_zero, uMask = uaddr_zero\<rparr>))"
      by (simp only: text_row_def p ip_row_host [of big])
    from FreeIPv4Addr_effect [OF assms [unfolded free_ip_text_def] r p(1) [symmetric]] False show ?thesis by blast
  qed
  then show "ret \<in> {0, - 1}" "same_tables d d' \<or> ip_removed t (text_row u ip msk) d d'"
    "ret = 0 \<Longrightarrow> u \<noteq> [] \<and> (\<forall>r \<in> set (pool_of t d'). \<not> names_ip t (text_row u ip msk) d r)" by blast+
qed

text \<open>A card whose address is released, and the rows that it names.\<close>

definition freeable :: "ipdb \<Rightarrow> CVNetVnicIp \<Rightarrow> bool" where
  "freeable d c \<longleftrightarrow> static_card d c \<and> m_strIP c \<noteq> [] \<and> m_strMask c \<noteq> []"

definition names_ip_card :: "ipdb \<Rightarrow> CVNetVnicIp \<Rightarrow> ip_pool_row \<Rightarrow> bool" where
  "names_ip_card d c r \<longleftrightarrow>
     freeable d c \<and> names_ip LOGIC_NET (text_row (m_strLogicNetworkID c) (m_strIP c) (m_strMask c)) d r"

definition ip_cleared :: "ipdb \<Rightarrow> CVNetVnicIp \<Rightarrow> CVNetVnicIp" where
  "ip_cleared d c = (if freeable d c then c\<lparr>m_strIP := [], m_strMask := []\<rparr> else c)"

lemma ip_card_kept:
  assumes "ip_kept LOGIC_NET d d'"
  shows "freeable d' c = freeable d c" "names_ip_card d' c = names_ip_card d c" "ip_cleared d' c = ip_cleared d c"
  using static_card_kept [OF assms] names_ip_kept [OF assms]
  by (simp_all add: fun_eq_iff freeable_def names_ip_card_def ip_cleared_def)

text \<open>Only rows that a card names are gone, and no interface used them.\<close>

definition ip_cards_freed :: "CVNetVnicIp list \<Rightarrow> ipdb \<Rightarrow> ipdb \<Rightarrow> bool" where
  "ip_cards_freed cs d d' \<longleftrightarrow>
     ip_kept LOGIC_NET d d' \<and>
     (\<exists>P. pool_of LOGIC_NET d' = filter P (pool_of LOGIC_NET d) \<and>
          (\<forall>r \<in> set (pool_of LOGIC_NET d). \<not> P r \<longrightarrow> (\<exists>c \<in> set cs. names_ip_card d c r) \<and> ia_id r \<notin> set (vsi_ip_id d)))"

lemma ip_cards_freed_same: "same_tables d d' \<Longrightarrow> ip_cards_freed cs d d'"
  using same_tables_ip [of d d' LOGIC_NET] by (auto simp: ip_cards_freed_def intro!: exI [of _ "\<lambda>_. True"])

lemma ip_cards_freed_trans:
  assumes "ip_cards_freed [c] a b" and "ip_cards_freed cs b e"
  shows "ip_cards_freed (c # cs) a e"
proof -
  obtain P where p: "pool_of LOGIC_NET b = filter P (pool_of LOGIC_NET a)" "ip_kept LOGIC_NET a b"
    "\<forall>r \<in> set (pool_of LOGIC_NET a). \<not> P r \<longrightarrow> names_ip_card a c r \<and> ia_id r \<notin> set (vsi_ip_id a)"
    using assms(1) by (auto simp: ip_cards_freed_def)
  obtain Q where q: "pool_of LOGIC_NET e = filter Q (pool_of LOGIC_NET b)" "ip_kept LOGIC_NET b e"
    "\<forall>r \<in> set (pool_of LOGIC_NET b). \<not> Q r \<longrightarrow> (\<exists>c \<in> set cs. names_ip_card b c r) \<and> ia_id r \<notin> set (vsi_ip_id b)"
    using assms(2) by (auto simp: ip_cards_freed_def)
  have "pool_of LOGIC_NET e = filter (\<lambda>r. P r \<and> Q r) (pool_of LOGIC_NET a)" using p(1) q(1) by (simp add: conj_commute)
  moreover have "\<forall>r \<in> set (pool_of LOGIC_NET a). \<not> (P r \<and> Q r) \<longrightarrow>
      (\<exists>x \<in> set (c # cs). names_ip_card a x r) \<and> ia_id r \<notin> set (vsi_ip_id a)"
    using p(1,3) q(3) ip_card_kept(2) [OF p(2)] ip_kept_sel(2) [OF p(2)] by auto
  ultimately show ?thesis using ip_kept_trans [OF p(2) q(2)] unfolding ip_cards_freed_def by blast
qed

lemma ip_cards_freed_mono: "ip_cards_freed cs d d' \<Longrightarrow> set cs \<subseteq> set cs' \<Longrightarrow> ip_cards_freed cs' d d'"
  unfolding ip_cards_freed_def by blast

lemma ip_cards_freed_rows: "ip_cards_freed cs d d' \<Longrightarrow> set (pool_of LOGIC_NET d') \<subseteq> set (pool_of LOGIC_NET d)"
  by (auto simp: ip_cards_freed_def)

lemma free_ip_cards_effect:
  "free_ip_cards big cs d = (ret, cs', d') \<Longrightarrow>
     ret \<in> {0, - 1} \<and> ip_cards_freed cs d d' \<and>
     (ret = 0 \<longrightarrow> cs' = map (ip_cleared d) cs \<and> (\<forall>c \<in> set cs. \<forall>r \<in> set (pool_of LOGIC_NET d'). \<not> names_ip_card d c r))"
proof (induction cs arbitrary: d ret cs' d')
  case Nil
  then show ?case using ip_cards_freed_same [of d d "[]"] by simp
next
  case (Cons c cs)
  obtain x d1 where g: "GetLogicNetwork big (m_strLogicNetworkID c) d = (x, d1)" by fastforce
  note ge = GetLogicNetwork_effect [OF g]
  note k1 = ip_card_kept [OF same_tables_ip(1) [OF ge(1)]]
  have f1: "ip_cards_freed cs d d1" for cs using ip_cards_freed_same [OF ge(1)] .
  show ?case
  proof (cases x)
    case None
    then show ?thesis using Cons.prems g f1 by auto
  next
    case (Some ln)
    have mode: "static_card d c \<longleftrightarrow> m_nIPBootProtoMode ln = EN_IP_BP_MODE_STATIC"
      using ge(2) [OF Some] by (simp add: static_card_def)
    show ?thesis
    proof (cases "freeable d c")
      case False
      obtain r cs1 d2 where f: "free_ip_cards big cs d1 = (r, cs1, d2)" by (metis prod_cases3)
      have res: "ret = r" "cs' = c # cs1" "d' = d2"
        using Cons.prems g Some f False mode by (auto simp: freeable_def split: if_splits)
      note ih = Cons.IH [OF f, unfolded k1]
      have "ip_cards_freed (c # cs) d d2" using ih ip_cards_freed_trans [OF f1 [of "[c]"], of cs d2] by simp
      moreover have "\<not> names_ip_card d c y" for y using False by (simp add: names_ip_card_def)
      ultimately show ?thesis using ih res False by (simp add: ip_cleared_def)
    next
      case True
      let ?m = "text_row (m_strLogicNetworkID c) (m_strIP c) (m_strMask c)"
      obtain r d2 where f: "free_ip_text big LOGIC_NET (m_strLogicNetworkID c) (m_strIP c) (m_strMask c) d1 = (r, d2)"
        by fastforce
      note e = free_ip_text_effect [OF f]
      have n: "names_ip_card d c = names_ip LOGIC_NET ?m d"
        using True by (simp add: fun_eq_iff names_ip_card_def)
      have "same_tables d d2 \<or> ip_removed LOGIC_NET ?m d d2"
        using e(2) ge(1) same_tables_trans ip_removed_same by blast
      then have freed: "ip_cards_freed [c] d d2"
      proof
        assume "ip_removed LOGIC_NET ?m d d2"
        then show ?thesis
          using n by (auto simp: ip_cards_freed_def ip_removed_def intro!: exI [of _ "\<lambda>r. \<not> names_ip LOGIC_NET ?m d r"])
      qed (rule ip_cards_freed_same)
      have k2: "ip_kept LOGIC_NET d d2" using freed by (simp add: ip_cards_freed_def)
      show ?thesis
      proof (cases "r = 0")
        case False
        then have "ret = - 1 \<and> d' = d2"
          using Cons.prems g Some True mode f by (auto simp: freeable_def)
        then show ?thesis using ip_cards_freed_mono [OF freed, of "c # cs"] by simp
      next
        case ok: True
        obtain r3 cs3 d3 where h: "free_ip_cards big cs d2 = (r3, cs3, d3)" by (metis prod_cases3)
        have res: "ret = r3" "cs' = ip_cleared d c # cs3" "d' = d3"
          using Cons.prems g Some True mode f ok h by (auto simp: freeable_def ip_cleared_def)
        note ih = Cons.IH [OF h, unfolded ip_card_kept [OF k2]]
        have all: "ip_cards_freed (c # cs) d d3" using ih ip_cards_freed_trans [OF freed] by blast
        have "\<forall>y \<in> set (pool_of LOGIC_NET d2). \<not> names_ip_card d c y"
          using e(3) ok n names_ip_kept [OF same_tables_ip(1) [OF ge(1)]] by auto
        moreover have "set (pool_of LOGIC_NET d3) \<subseteq> set (pool_of LOGIC_NET d2)" using ih ip_cards_freed_rows by blast
        ultimately show ?thesis using ih res all ip_card_kept(3) [OF k2] by auto
      qed
    qed
  qed
qed

section \<open>Netplanes\<close>

lemma NetplaneAllocIPAddr_effect:
  assumes "NetplaneAllocIPAddr big rnd key u d = Some (ret, x, d')"
  shows "\<exists>rs. ip_run NETPLANE u UNIV d rs d' \<and>
           (if ret = 0 then \<exists>r \<in> set rs. x = Some (ia_ip r, ia_mask r) else ret = - 1 \<and> x = None)"
proof -
  obtain r1 rs d1 where g: "GetIPv4Range big NETPLANE u d = (r1, rs, d1)" by (metis prod_cases3)
  note ge = GetIPv4Range_effect [OF g]
  note run = ip_run_same [OF ge(1), of NETPLANE u UNIV]
  show ?thesis
  proof (cases "r1 = 0 \<and> rs \<noteq> []")
    case False
    then have "ret = - 1 \<and> x = None \<and> d' = d1" using assms g by (auto simp: NetplaneAllocIPAddr_def split: if_splits)
    then show ?thesis using run by (intro exI [of _ "[]"]) simp
  next
    case True
    let ?p = "snd (CIPv4AddrPool_Init u (Some rs) NETPLANE CIPv4AddrPool_new)"
    have p: "m_tNetType ?p = NETPLANE" "m_strNetworkUUID ?p = u" using ge(2) True by (simp_all add: CIPv4AddrPool_Init_def)
    obtain r2 a d2 where a: "AllocIPv4Addr big rnd key \<lparr>uIP = uaddr_zero, uMask = uaddr_zero\<rparr> ?p d1 = Some (r2, a, d2)"
      "ret = (if r2 = 0 then 0 else - 1)" "x = (if r2 = 0 then Some (GetIP a, GetMask a) else None)" "d' = d2"
      using assms g True by (auto simp: NetplaneAllocIPAddr_def split: option.splits if_splits)
    obtain qs where "ip_run NETPLANE u UNIV d1 qs d2"
      "if r2 = 0 then \<exists>r \<in> set qs. ia_ip r = GetIP a \<and> ia_mask r = GetMask a else r2 = - 1"
      using AllocIPv4Addr_rows [OF a(1) p(1) [symmetric] p(2) [symmetric]] by blast
    moreover from this(2) have "if ret = 0 then \<exists>r \<in> set qs. x = Some (ia_ip r, ia_mask r) else ret = - 1 \<and> x = None"
      using a(2,3) by (cases "r2 = 0") force+
    ultimately show ?thesis using ip_run_trans [OF _ run, of qs d2] a(4) by (intro exI [of _ qs]) simp
  qed
qed

lemma NetplaneFreeIPAddr_effect:
  assumes "NetplaneFreeIPAddr big u ip msk d = (ret, d')"
  shows "ret \<in> {0, - 1}" and "same_tables d d' \<or> ip_removed NETPLANE (text_row u ip msk) d d'"
    and "ret = 0 \<Longrightarrow> \<forall>r \<in> set (pool_of NETPLANE d'). \<not> names_ip NETPLANE (text_row u ip msk) d r"
proof -
  obtain r d1 where f: "free_ip_text big NETPLANE u ip msk d = (r, d1)" by fastforce
  from free_ip_text_effect [OF f] assms f
  show "ret \<in> {0, - 1}" "same_tables d d' \<or> ip_removed NETPLANE (text_row u ip msk) d d'"
    "ret = 0 \<Longrightarrow> \<forall>r \<in> set (pool_of NETPLANE d'). \<not> names_ip NETPLANE (text_row u ip msk) d r"
    by (auto simp: NetplaneFreeIPAddr_def split: if_splits)
qed

section \<open>The properties\<close>

text \<open>C14. \<open>AllocIPAddrForVnic\<close>, whatever the database answers and whatever the UUIDs are: a call that returns only
  adds rows to the pool of the logic networks, and changes no other table; only a card of a static logic network
  without an address may get one, and then it gets the texts of a new row of its own logic network, whose address is
  in the ranges of that network and was free; no two cards of one network get the same. With result 0 every card of a
  static network has an address; otherwise the result is -1 and the call stopped at a card, where the static cards before it
  have an address and the cards from it on are as they were.\<close>

theorem AllocIPAddrForVnic_result:
  assumes "AllocIPAddrForVnic big rnd vm d = Some (ret, vm', d')"
  shows "ip_cards_done ret d d' vm vm'"
  using alloc_ip_cards_effect [of big rnd "[]" vm d] assms by (auto simp: AllocIPAddrForVnic_def)

abbreviation ip_card :: "string \<Rightarrow> string \<Rightarrow> string \<Rightarrow> CVNetVnicIp" where
  "ip_card u ip mk \<equiv> \<lparr>m_strVmPGID = ''pg'', m_nNicIndex = 0, m_strMac = [], m_strLogicNetworkID = u, m_strIP = ip,
     m_strMask = mk\<rparr>"

lemma example_ln_load:
  "GetIPv4Range False LOGIC_NET ''ln'' example_ln = (0, [range_23, range_24], example_ln)"
  "\<exists>l. GetLogicNetwork False ''ln'' example_ln = (Some l, example_ln) \<and> m_nIPBootProtoMode l = EN_IP_BP_MODE_STATIC"
proof -
  have e: "env example_ln = []" by (simp add: example_ipdb_def)
  have "map (ip_row_item False) (ip_net_rows LOGIC_NET ''ln'' example_ln) = [range_23, range_24]"
    using example_ln_valid ip_row_item_row [of "subnet_of range_23" range_23]
      ip_row_item_row [of "subnet_of range_24" range_24] by (simp add: example_ln_net)
  then show "GetIPv4Range False LOGIC_NET ''ln'' example_ln = (0, [range_23, range_24], example_ln)"
    using IpRange_Query_live [OF e] by (simp add: GetIPv4Range_def load_ip_ranges_eq example_ln_live(1) VNET_DB_SUCCESS_def)
  have "LogicNetwork_Query ''ln'' example_ln = (Inr 0, example_ln)"
    using e by (simp add: LogicNetwork_Query_def Handle_run pf_net_query_logicnetwork_def example_ipdb_def)
  then show "\<exists>l. GetLogicNetwork False ''ln'' example_ln = (Some l, example_ln) \<and> m_nIPBootProtoMode l = EN_IP_BP_MODE_STATIC"
    using IpRange_Query_live [OF e]
    by (simp add: GetLogicNetwork_def example_ln_live(1) VNET_DB_SUCCESS_def EN_IP_BP_MODE_STATIC_def)
qed

lemma example_ip_pool:
  "snd (CIPv4AddrPool_Init ''ln'' (Some [range_23, range_24]) LOGIC_NET CIPv4AddrPool_new) = example_pool [range_23, range_24]"
  by (simp add: CIPv4AddrPool_Init_def CIPv4AddrPool_new_def example_pool_def)

lemma addr_23_texts: "GetIP addr_23 = ''10.0.1.3''" "GetMask addr_23 = ''255.255.254.0''"
  by code_simp+

lemma example_alloc_card:
  "AllocIPAddrForVnic False (\<lambda>_ _ _. uuid_23) [ip_card ''ln'' [] []] example_ln =
     Some (0, [ip_card ''ln'' ''10.0.1.3'' ''255.255.254.0''], ipdb_23)"
proof -
  obtain l where l: "GetLogicNetwork False ''ln'' example_ln = (Some l, example_ln)"
    "m_nIPBootProtoMode l = EN_IP_BP_MODE_STATIC" using example_ln_load(2) by blast
  have "alloc_ip_for_card False (\<lambda>_ _. uuid_23) (ip_card ''ln'' [] []) example_ln = Some (Inr addr_23, ipdb_23)"
    using AllocIPv4Addr_23 by (simp add: alloc_ip_for_card_def example_ln_load(1) example_ip_pool no_addr_def)
  then show ?thesis using l by (simp add: AllocIPAddrForVnic_def addr_23_texts)
qed

theorem AllocIPAddrForVnic_result_witness:
  "\<exists>vm'. AllocIPAddrForVnic False (\<lambda>_ _ _. uuid_23) [ip_card ''ln'' [] []] example_ln = Some (0, vm', ipdb_23) \<and>
     ip_cards_done 0 example_ln ipdb_23 [ip_card ''ln'' [] []] vm' \<and> map m_strIP vm' = [''10.0.1.3'']"
  using AllocIPAddrForVnic_result [OF example_alloc_card] example_alloc_card by simp

text \<open>C15. \<open>FreeIPAddrForVnic\<close>, whatever the database answers: only rows that a card names in its own logic network
  leave the pool, none of them used by an interface, and no other table changes; only the cards of static networks
  with both texts name a row. With result 0 no row that a card names is left, and these cards have lost their texts;
  otherwise the result is -1 and the cards are as they were, although rows of some of them may be gone.\<close>

theorem FreeIPAddrForVnic_result:
  assumes "FreeIPAddrForVnic big vm d = (ret, vm', d')"
  shows "ip_cards_freed vm d d' \<and>
         (if ret = 0 then vm' = map (ip_cleared d) vm \<and>
            (\<forall>c \<in> set vm. \<forall>r \<in> set (pool_of LOGIC_NET d'). \<not> names_ip_card d c r)
          else ret = - 1 \<and> vm' = vm)"
proof -
  obtain r cs' d1 where f: "free_ip_cards big vm d = (r, cs', d1)" by (metis prod_cases3)
  from free_ip_cards_effect [OF this] show ?thesis
    using assms f by (auto simp: FreeIPAddrForVnic_def split: if_splits)
qed

lemma example_23_load:
  "\<exists>l. GetLogicNetwork False ''ln'' ipdb_23 = (Some l, ipdb_23) \<and> m_nIPBootProtoMode l = EN_IP_BP_MODE_STATIC"
  "ln_mode ''ln'' ipdb_23 = Some EN_IP_BP_MODE_STATIC"
proof -
  have e: "env ipdb_23 = []" "m_bInit ipdb_23" by (simp_all add: ipdb_23_def example_ipdb_def)
  have "LogicNetwork_Query ''ln'' ipdb_23 = (Inr 0, ipdb_23)"
    using e by (simp add: LogicNetwork_Query_def Handle_run pf_net_query_logicnetwork_def ipdb_23_def example_ipdb_def)
  then show "\<exists>l. GetLogicNetwork False ''ln'' ipdb_23 = (Some l, ipdb_23) \<and> m_nIPBootProtoMode l = EN_IP_BP_MODE_STATIC"
    using IpRange_Query_live [OF e(1)]
    by (simp add: GetLogicNetwork_def e(2) VNET_DB_SUCCESS_def EN_IP_BP_MODE_STATIC_def)
  show "ln_mode ''ln'' ipdb_23 = Some EN_IP_BP_MODE_STATIC"
    by (simp add: ln_mode_def ipdb_23_def example_ipdb_def EN_IP_BP_MODE_STATIC_def)
qed

lemma example_free_card:
  assumes "fst (free_ip_text False LOGIC_NET ''ln'' ip msk ipdb_23) = 0" and "ip \<noteq> []" and "msk \<noteq> []"
  shows "FreeIPAddrForVnic False [ip_card ''ln'' ip msk] ipdb_23 =
    (0, [ip_card ''ln'' [] []], snd (free_ip_text False LOGIC_NET ''ln'' ip msk ipdb_23))"
proof -
  obtain l where l: "GetLogicNetwork False ''ln'' ipdb_23 = (Some l, ipdb_23)"
    "m_nIPBootProtoMode l = EN_IP_BP_MODE_STATIC" using example_23_load(1) by blast
  obtain r d' where "free_ip_text False LOGIC_NET ''ln'' ip msk ipdb_23 = (r, d')" by fastforce
  then show ?thesis using assms l by (simp add: FreeIPAddrForVnic_def)
qed

lemma example_free_text:
  "fst (free_ip_text False LOGIC_NET ''ln'' ''10.0.1.3'' ''255.255.254.0'' ipdb_23) = 0"
  by code_simp

theorem FreeIPAddrForVnic_result_witness:
  "\<exists>d'. FreeIPAddrForVnic False [ip_card ''ln'' ''10.0.1.3'' ''255.255.254.0''] ipdb_23 = (0, [ip_card ''ln'' [] []], d') \<and>
     (\<forall>r \<in> set (pool_of LOGIC_NET d'). \<not> names_ip_card ipdb_23 (ip_card ''ln'' ''10.0.1.3'' ''255.255.254.0'') r)"
proof -
  have a: "FreeIPAddrForVnic False [ip_card ''ln'' ''10.0.1.3'' ''255.255.254.0''] ipdb_23 = (0, [ip_card ''ln'' [] []],
      snd (free_ip_text False LOGIC_NET ''ln'' ''10.0.1.3'' ''255.255.254.0'' ipdb_23))"
    by (rule example_free_card [OF example_free_text]) simp_all
  show ?thesis using FreeIPAddrForVnic_result [OF a] a by auto
qed

text \<open>A card of a static network with a text that \<open>CIPv4Addr::Set\<close> refuses.\<close>

definition unreadable_card :: "ipdb \<Rightarrow> CVNetVnicIp \<Rightarrow> bool" where
  "unreadable_card d c \<longleftrightarrow>
     m_strLogicNetworkID c \<noteq> [] \<and> freeable d c \<and> (String2IP (m_strIP c) = None \<or> String2IP (m_strMask c) = None)"

lemma GetLogicNetwork_live:
  assumes "env d = []" and "m_bInit d" and "u \<noteq> []" and "ln_mode u d = Some m"
  shows "\<exists>l. GetLogicNetwork big u d = (Some l, d) \<and> m_nIPBootProtoMode l = m"
proof -
  have "LogicNetwork_Query u d = (Inr m, d)"
    using assms by (auto simp: LogicNetwork_Query_def Handle_run pf_net_query_logicnetwork_def ln_mode_def)
  then show ?thesis
    using assms(2,3) IpRange_Query_live [OF assms(1)] by (simp add: GetLogicNetwork_def VNET_DB_SUCCESS_def)
qed

lemma free_unreadable_text:
  assumes "env d = []" and "m_bInit d" and "u \<noteq> []" and "String2IP ip = None \<or> String2IP msk = None"
    and "\<forall>r \<in> set (pool_of t d). ia_num r \<noteq> 0"
  shows "free_ip_text big t u ip msk d = (0, d)"
proof -
  let ?a = "\<lparr>uIP = uaddr_zero, uMask = uaddr_zero\<rparr>"
  have s: "snd (Set_text ip msk ?a) = ?a" using assms(4) by (auto simp: Set_text_def split: option.split)
  have "IpNum (ip_row big u ?a) = 0"
    by (simp add: ip_row_nums net_word_def word_of_bytes_def uaddr_zero_def)
  then have "find (is_ip_row n (ip_row big u ?a)) (pool_of t d) = None" for n
    using assms(5) by (auto simp: find_None_all is_ip_row_def)
  then have "pf_net_check_del_ippool t (ip_row big u ?a) d = RTN_ITEM_NO_EXIST"
    by (simp add: pf_net_check_del_ippool_def split: option.split)
  then have "IpPool_CheckDel t (ip_row big u ?a) d = (GET_DB_ERROR_PROC RTN_ITEM_NO_EXIST, d)"
    using assms(1) by (simp add: IpPool_CheckDel_def db_del_op_def Handle_run RTN_ITEM_NO_EXIST_def)
  then show ?thesis
    using assms(2,3)
    by (simp add: free_ip_text_def s CIPv4AddrPool_Init_free_def FreeIPv4Addr_def VNET_DB_IS_ITEM_NO_EXIST_def rtn_defs)
qed

text \<open>C21. A text that \<open>CIPv4Addr::Set\<close> refuses loses an address. On a database whose calls do not fail and whose pool
  of logic networks does not hold 0.0.0.0, the release of cards of static networks with a non-empty text that does not
  parse only logs the failure and asks the pool for the address of the fresh object, 0.0.0.0, which is not there; that
  counts as released. So the call returns success and clears the cards, and no row leaves the pool: the addresses
  stay allocated, with no card that names them.\<close>

theorem FreeIPAddrForVnic_leaks_address:
  assumes "env d = []" and "m_bInit d" and "\<forall>c \<in> set vm. unreadable_card d c"
    and "\<forall>r \<in> set (pool_of LOGIC_NET d). ia_num r \<noteq> 0"
  shows "FreeIPAddrForVnic big vm d = (0, map (\<lambda>c. c\<lparr>m_strIP := [], m_strMask := []\<rparr>) vm, d)"
proof -
  have "free_ip_cards big cs d = (0, map (\<lambda>c. c\<lparr>m_strIP := [], m_strMask := []\<rparr>) cs, d)"
    if "\<forall>c \<in> set cs. unreadable_card d c" for cs
    using that
  proof (induction cs)
    case (Cons c cs)
    have c: "m_strLogicNetworkID c \<noteq> []" "ln_mode (m_strLogicNetworkID c) d = Some EN_IP_BP_MODE_STATIC"
      "m_strIP c \<noteq> []" "m_strMask c \<noteq> []" "String2IP (m_strIP c) = None \<or> String2IP (m_strMask c) = None"
      using Cons.prems by (auto simp: unreadable_card_def freeable_def static_card_def)
    obtain l where "GetLogicNetwork big (m_strLogicNetworkID c) d = (Some l, d)"
      "m_nIPBootProtoMode l = EN_IP_BP_MODE_STATIC"
      using GetLogicNetwork_live [OF assms(1,2) c(1,2)] by blast
    then show ?case
      using Cons.IH Cons.prems c(3,4) free_unreadable_text [OF assms(1,2) c(1,5) assms(4)] by simp
  qed simp
  then show ?thesis using assms(3) by (simp add: FreeIPAddrForVnic_def)
qed

theorem FreeIPAddrForVnic_leaks_address_witness:
  "AllocIPAddrForVnic False (\<lambda>_ _ _. uuid_23) [ip_card ''ln'' [] []] example_ln =
     Some (0, [ip_card ''ln'' ''10.0.1.3'' ''255.255.254.0''], ipdb_23) \<and>
   FreeIPAddrForVnic False [ip_card ''ln'' ''10.0.1.3'' ''255.255.254''] ipdb_23 = (0, [ip_card ''ln'' [] []], ipdb_23) \<and>
   map ia_ip (pool_of LOGIC_NET ipdb_23) = [''10.0.1.3'']"
proof -
  have "unreadable_card ipdb_23 (ip_card ''ln'' ''10.0.1.3'' ''255.255.254'')"
  proof -
    have "String2IP ''255.255.254'' = None" by code_simp
    then show ?thesis using example_23_load(2) by (simp add: unreadable_card_def freeable_def static_card_def)
  qed
  moreover have num: "uint (net_word (ip4 10 0 1 3)) \<noteq> 0" by code_simp
  ultimately have "FreeIPAddrForVnic False [ip_card ''ln'' ''10.0.1.3'' ''255.255.254''] ipdb_23 =
      (0, map (\<lambda>c. c\<lparr>m_strIP := [], m_strMask := []\<rparr>) [ip_card ''ln'' ''10.0.1.3'' ''255.255.254''], ipdb_23)"
    by (intro FreeIPAddrForVnic_leaks_address) (simp_all add: ipdb_23_def example_ipdb_def num)
  then show ?thesis using example_alloc_card by (simp add: ipdb_23_def)
qed

end
