(* ===== verification/Ipv4System.thy ===== *)
theory Ipv4System
  imports Ipv4Networks Ipv4Vnic "HOL-Library.Multiset"
begin

text \<open>
  The IPv4 component as a whole: range messages, allocations and releases for the network cards of many virtual
  machines and for netplanes, in any order and with any database faults, as a step relation. The invariant ties the
  addresses that the cards hold to the rows of the pool, and the rows of the pool to the ranges.
\<close>

section \<open>The system\<close>



section \<open>The tables of the logic networks\<close>













section \<open>Range messages of logic networks\<close>









section \<open>The pool\<close>



section \<open>The cards\<close>

text \<open>The logic networks and addresses of some cards.\<close>

definition card_pair :: "CVNetVnicIp \<Rightarrow> string \<times> string" where
  "card_pair c = (m_strLogicNetworkID c, m_strIP c)"

definition pairs :: "CVNetVnicIp list \<Rightarrow> (string \<times> string) list" where
  "pairs cs = map card_pair (filter (\<lambda>c. m_strIP c \<noteq> []) cs)"








lemma pairs_one:
  assumes "distinct (pairs cs)" and "c \<in> set cs" and "x \<in> set cs" and "m_strIP c \<noteq> []" and "card_pair x = card_pair c"
  shows "x = c"
  using assms inj_onD [of card_pair "{c \<in> set cs. m_strIP c \<noteq> []}" x c]
  by (simp add: pairs_def distinct_map card_pair_def)







subsection \<open>Allocation\<close>








subsection \<open>Release\<close>




section \<open>Every reachable state\<close>





lemma example_ln_view: "ln_keys example_ln" "ln_apart example_ln"
proof -
  show "ln_keys example_ln" by (simp add: ln_keys_def example_ipdb_def)
  have "v_net_ln_np example_ln = [(\<lparr>ln_id = 7, ln_uuid = ''ln'', ln_vm_pg_id = 5, ln_ip_mode = 0\<rparr>,
      \<lparr>np_id = 1, np_uuid = ''np''\<rparr>)]"
    by (simp add: v_net_ln_np_def example_ipdb_def)
  then show "ln_apart example_ln" by (simp add: ln_apart_def)
qed




theorem ProcIPv4RangeMsg_keeps_networks_apart_witness:
  "\<exists>d'. ProcIPv4RangeMsg True False LOGIC_NET (ip_msg ''ln'' 1 ''10.0.1.5'' ''10.0.1.9'' ''255.255.255.0'') example_ln =
     (0, Some 0, d') \<and> ln_keys d' \<and> ln_apart d'"
proof -
  let ?m = "ip_msg ''ln'' 1 ''10.0.1.5'' ''10.0.1.9'' ''255.255.255.0''"
  obtain d' where "AddIPv4Range False LOGIC_NET ?m example_ln = (0, d')" using example_add_code by (metis prod.collapse)
  then have a: "ProcIPv4RangeMsg True False LOGIC_NET ?m example_ln = (0, Some 0, d')"
    by (simp add: ProcIPv4RangeMsg_def IsValidIPv4Oper_def EN_ADD_IPV4_RANGE_def EN_IPV4_RANGE_OPER_ALL_def)
  show ?thesis using ProcIPv4RangeMsg_keeps_networks_apart [OF a example_ln_view] a by blast
qed


end
