(* ===== verification/Spec2Isabelle.thy ===== *)
theory Spec2Isabelle
  imports VlanSystem MacSystem Ipv4System
begin

text \<open>
  The resource pools of the network manager of TECS (\<open>src/code/network/vnm/res_pool\<close>), with the address
  classes they use (\<open>src/code/network/common/vnet\<close>), the classes through which they reach the database
  (\<open>src/code/network/vnm/db/src\<close>) and the stored procedures behind these (\<open>src/code/network/vnm/db/sql\<close>).

  \<^bold>\<open>The program.\<close> A network plane (netplane) owns ranges of resources: VLANs, segments, IPv4 and MAC
  addresses. An operator adds and deletes ranges by messages to a pool manager; the network cards of a
  virtual machine get resources out of the ranges when the machine is deployed and give them back
  afterwards. The ranges, the allocated resources and their users are rows of PostgreSQL tables. A manager
  loads the ranges of a netplane into a range container, lets the container compute the new ranges with
  the range arithmetic, and writes the difference back row by row. A pool is built for one call from the
  ranges and the allocated resources, picks a resource and adds it to the tables. Nothing keeps these
  calls to the database together in a transaction.

  \<^bold>\<open>Theories, from the bottom.\<close>
    \<^item> \<open>Prelude\<close>: machine integers, return codes, shared facts on words, lists and searches.
    \<^item> \<open>AddrText\<close>, \<open>Ipv4Addr\<close>, \<open>MacAddr\<close>: \<open>CIPv4Addr\<close> (\<open>ipv4_addr.cpp\<close>) and \<open>CMACAddr\<close> (\<open>mac_addr.cpp\<close>).
      The text scanner that both share, the binary forms on hosts of both byte orders (the argument
      \<open>big\<close>), the checks of masks and addresses.
    \<^item> \<open>RangeArithm\<close>: \<open>CRangeArithmetic\<close> (\<open>range_arithm.cpp\<close>), collections of intervals of \<open>uint32\<close>.
    \<^item> \<open>RangeContainer\<close>: the contract of a range container as a locale: it refines sets of numbers.
      \<open>VlanRange\<close> (\<open>vlan_range.cpp\<close>, \<open>segment_range.cpp\<close>), \<open>Ipv4AddrRange\<close> (\<open>ipv4_addr_range.cpp\<close>) and
      \<open>MacRange\<close> (\<open>mac_range.cpp\<close>) interpret it with the containers of the code.
    \<^item> \<open>NetDb\<close>: the tables and the call layer that all pools share. \<open>VnmDb\<close>, \<open>VlanDb\<close> and \<open>MacDb\<close>: the
      tables of the VLAN pool (\<open>vdb\<close>) and of the MAC pool (\<open>mdb\<close>) as lists of rows, the stored procedures
      as functions on them, and the operation classes (\<open>vnet_db_*.cpp\<close>), which run a procedure by
      \<open>Handle\<close> and turn its answer into a return code. \<open>PortGroup\<close>: the queries of \<open>CPortGroupMgr\<close>
      (\<open>port_group_mgr.cpp\<close>) that the managers use.
    \<^item> \<open>RangeSync\<close>: the part "DB Compare and save" of the managers, over any store of rows: a locale of
      stores, and one of stores whose calls do not fail. \<open>VlanRangeStore\<close>, \<open>MacRangeStore\<close> and
      \<open>Ipv4RangeStore\<close> with \<open>Ipv4RangeLive\<close> interpret both, with the table of the VLAN ranges, with the rows of one OUI
      of the MAC ranges and with the rows of one subnet of a network.
    \<^item> \<open>VlanTables\<close>, \<open>VlanTenancy\<close>: what each operation does to the tables of allocated VLANs and of
      their users, whatever the database does; the keys of the schema and the isolation of tenants.
    \<^item> \<open>VlanPool\<close>: \<open>CVlanPool\<close> (\<open>vlan_pool.cpp\<close>). \<open>VlanPoolMgr\<close>: \<open>CVlanPoolMgr\<close> (\<open>vlan_pool_mgr.cpp\<close>).
    \<^item> \<open>VlanRangeOps\<close>: the properties of the range messages. \<open>VlanSystem\<close>: range messages, allocations
      and releases as the steps of one system.
    \<^item> \<open>MacPool\<close>: \<open>CMACPool\<close> (\<open>mac_pool.cpp\<close>), the draw, the retries and the scan. \<open>MacTables\<close>: what the
      calls do to the rows of the pool. \<open>MacAlloc\<close>: an allocation under every failure. \<open>MacLive\<close>:
      the same when the calls do not fail. \<open>MacFree\<close>: release, and the properties of both. \<open>MacShared\<close>:
      ranges that two netplanes share.
    \<^item> \<open>MacPoolMgr\<close>: \<open>CMACPoolMgr\<close> (\<open>mac_pool_mgr.cpp\<close>). \<open>MacRangeOps\<close>, \<open>MacRangeMsg\<close>: its range
      messages. \<open>MacVnic\<close>: addresses for the cards of a machine, and when an allocation returns.
      \<open>MacSystem\<close>: the steps of the MAC component and their invariant.
    \<^item> \<open>Ipv4Db\<close>: tables, procedures and operation classes of the IPv4 addresses (\<open>ipdb\<close>), for logic networks and
      netplanes. \<open>UuidBytes\<close>, \<open>Ipv4Pool\<close>: \<open>CIPv4AddrPool\<close> (\<open>ipv4_addr_pool.cpp\<close>). \<open>Ipv4Tables\<close>: what its
      calls do to the rows. \<open>Ipv4Alloc\<close>: an allocation under every failure. \<open>Ipv4Draw\<close>: the draw of an
      address octet by octet, and when an allocation returns. \<open>Ipv4Live\<close>: an allocation when the calls do
      not fail, and the properties.
    \<^item> \<open>Vnic\<close>: the network cards. \<open>Ipv4PoolMgr\<close>: \<open>CIPv4PoolMgr\<close> (\<open>ipv4_pool_mgr.cpp\<close>) with
      \<open>CLogicNetworkMgr::GetLogicNetwork\<close> (\<open>logic_network_mgr.cpp\<close>). \<open>Ipv4Subnet\<close>: ranges within one subnet, on which
      the containers are exact. \<open>Ipv4RangeStore\<close>: the rows of one subnet of a network as a store of \<open>RangeSync\<close>.
      \<open>Ipv4RangeOps\<close>: what a range message does under every failure; \<open>Ipv4RangeLive\<close>: the same when the calls do not
      fail; \<open>Ipv4RangeMsg\<close>: the properties. \<open>Ipv4Vnic\<close>: addresses for the cards of a machine and for netplanes.
      \<open>Ipv4Networks\<close>: the logic networks that share a netplane. \<open>Ipv4System\<close>: the steps of the IPv4
      component and their invariant.

  \<^bold>\<open>State and failures.\<close> \<open>vdb\<close>, \<open>mdb\<close> and \<open>ipdb\<close> hold the tables that the code reads or writes. Their field \<open>env\<close> is the
  environment: the outcomes of the calls to come. A call can run, be refused before it runs, or run and
  lose its reply; an empty list means that every call runs. So a theorem about all of them speaks of every
  failure of every call, and one that assumes \<open>env d = []\<close> of a database whose calls do not fail. A
  procedure of type \<open>proc\<close> gives \<open>None\<close> where the SQL raises an exception, and the tables are then as
  before. Serial numbers and the order of rows are those of the tables. Return codes are values, and every
  early return of the code is a branch of the model.

  \<^bold>\<open>Integers.\<close> \<open>uint8\<close> to \<open>int64\<close> are words of their width, with their wrap-around; the columns of the
  tables and the \<open>int32\<close> arguments that no operation can make overflow are \<open>int\<close>. A status vector
  (\<open>VLAN_POOL_SIZE\<close> entries) is a list, and the lemmas on \<open>CVlanPool_Init\<close> show that no index leaves it.

  \<^bold>\<open>Loops.\<close> Loops over containers are recursions on lists. \<open>mask_loop\<close> runs through the bits of a word
  with 33 steps of fuel, one more than the word has bits; the loop over the status vector ends by the
  measure on the rest of the vector. The retries of \<open>AllocMACAtRange\<close> are a function with the measure
  \<open>15 - n\<close>. The scan of \<open>ScanAllocMAC\<close> counts a \<open>uint32\<close> upwards and need not end, so it is a
  \<open>partial_function\<close>: \<open>None\<close> is a run that does not return, here or by a division by zero, and
  \<open>AllocMAC_returns\<close> says when there is none. The scan of \<open>AllocIPv4Addr\<close> is another one, with
  \<open>AllocIPv4Addr_returns\<close>. The random bytes are an argument \<open>rnd\<close> of the allocation.

  \<^bold>\<open>What is shown.\<close> Arithmetic and containers: merging gives the unique normal form of the set, deletion
  the difference; the containers refine sets over any history of calls. Addresses: which texts are
  accepted, what they denote, the round trips. Pool: allocation and release keep tenants isolated whatever
  the database does, hand out the least free VLAN of the ranges, and are inverse. Messages: on well-formed
  rows (\<open>rows_ok\<close>, \<open>oui_rows_ok\<close>, \<open>ip_net_ok\<close>, which messages on separated rows keep) nothing is lost, no resource that is allocated
  is deleted, for logic networks and netplanes alike, and a message must succeed when nothing speaks against it. System:
  the invariant of all tables over every sequence of operations. MAC addresses: an allocation hands out
  an address of the ranges that nobody holds, and finds one if there is one; no two cards of any machines
  hold the same address, provided that a failed release is repeated before the next allocation. IPv4 addresses: the
  same for the cards of one logic network; a range message changes one subnet of one network by exactly the
  addresses that it names, has the return code that its tests say, and keeps the networks of a netplane apart. Theorems on
  failures show what goes wrong without transactions, where the integer arithmetic wraps, and which
  checks are missing.

  \<^bold>\<open>Not modelled.\<close> The segment pool and its manager (its range container is); the
  listings of the managers for the command line; logging and the texts of the replies; threads and locks
  (the managers run their messages one at a time). The type of \<open>netplane\<close> rows and of port groups is cut to
  the columns that the procedures read. Of the schema, only the keys that the proofs need are stated
  (\<open>keys_ok\<close>, \<open>ln_keys\<close>), as assumptions on the first database. A \<open>CVNetVnicMem\<close> is cut to the port group, the
  logic network, the index and the addresses of the card.
\<close>

end
